(* ===== verification/Prelude.thy ===== *)
theory Prelude
  imports Main "HOL-Library.Word" "HOL-Library.Monad_Syntax"
begin

text \<open>
  Shared vocabulary of the development.

  Bytes are 8-bit words, the \<open>uint32_t\<close> and \<open>uint64_t\<close> fields of the C structures are 32-bit
  and 64-bit words.  A C buffer (\<open>uint8_t*\<close> into an allocated block) is the list of the bytes
  from the pointer to the end of the block, so an access outside the block is visible: every
  operation that touches memory returns an option, and \<open>None\<close> means that the C code has left
  defined behaviour (an access outside an object, a null pointer, a signed overflow) or that a
  loop did not end.  Error codes that the C code returns are ordinary values inside \<open>Some\<close>.
  Buffer positions and lengths, C \<open>int\<close>s that the code keeps non-negative, are \<open>nat\<close>; the
  return value \<open>-1\<close> is a constructor of its own.  Memory allocation is assumed to succeed.
\<close>

unbundle bit_operations_syntax

type_synonym u8 = "8 word"
type_synonym u16 = "16 word"
type_synonym u32 = "32 word"
type_synonym u64 = "64 word"
type_synonym bytes = "u8 list"
type_synonym cstring = "u8 list"
type_synonym writer = "bytes \<Rightarrow> nat \<Rightarrow> (bytes \<times> nat) option"

named_theorems writer_simps \<open>encoders as runs of byte writes\<close>
named_theorems wire_simps \<open>reference encodings and their lengths\<close>
named_theorems reader_simps \<open>reads at known positions\<close>

subsection \<open>Reading\<close>

definition rd :: "bytes \<Rightarrow> nat \<Rightarrow> u8 option" where
  "rd buf i = (if i < length buf then Some (buf ! i) else None)"

definition rdn :: "bytes \<Rightarrow> nat \<Rightarrow> nat \<Rightarrow> bytes option" where
  "rdn buf pos n = (if pos + n \<le> length buf then Some (take n (drop pos buf)) else None)"

text \<open>\<open>strlen\<close> on a character buffer: the position of the first NUL byte, a fault without one.\<close>

definition cstr :: "bytes \<Rightarrow> cstring option" where
  "cstr buf = (if 0 \<in> set buf then Some (takeWhile (\<lambda>c. c \<noteq> 0) buf) else None)"

text \<open>A signed 32-bit result that must not overflow.\<close>

definition chk_int :: "nat \<Rightarrow> nat option" where
  "chk_int n = (if n < 2 ^ 31 then Some n else None)"

subsection \<open>Writing\<close>

text \<open>\<open>put\<close> is the C idiom \<open>buffer[bufPos++] = x\<close>, \<open>puts\<close> a loop of it.\<close>

definition put :: "u8 \<Rightarrow> writer" where
  "put x buf pos = (if pos < length buf then Some (buf[pos := x], Suc pos) else None)"

fun puts :: "bytes \<Rightarrow> writer" where
  "puts [] buf pos = Some (buf, pos)"
| "puts (x # xs) buf pos = do { (buf', pos') \<leftarrow> put x buf pos; puts xs buf' pos' }"

text \<open>The buffer with a run of bytes at a position.\<close>

definition overlay :: "bytes \<Rightarrow> nat \<Rightarrow> bytes \<Rightarrow> bytes" where
  "overlay buf pos xs = take pos buf @ xs @ drop (pos + length xs) buf"

subsection \<open>Big-endian values of byte strings\<close>

definition be_nat :: "bytes \<Rightarrow> nat" where
  "be_nat xs = foldl (\<lambda>a b. a * 256 + unat b) 0 xs"

definition be_int :: "bytes \<Rightarrow> int" where
  "be_int xs = (if xs \<noteq> [] \<and> bit (hd xs) 7 then int (be_nat xs) - 256 ^ length xs
                else int (be_nat xs))"

subsection \<open>Lemmas on reads\<close>

lemma rd_in [reader_simps]: "i < length buf \<Longrightarrow> rd buf i = Some (buf ! i)"
  by (simp add: rd_def)

lemma rd_eq_None [simp]: "rd buf i = None \<longleftrightarrow> length buf \<le> i"
  by (auto simp: rd_def)

lemma rd_SomeD: "rd buf i = Some b \<Longrightarrow> i < length buf \<and> b = buf ! i"
  by (auto simp: rd_def split: if_splits)

lemma rdn_eq_None [simp]: "rdn buf pos n = None \<longleftrightarrow> length buf < pos + n"
  by (auto simp: rdn_def)

lemma rdn_in [reader_simps]: "pos + n \<le> length buf \<Longrightarrow> rdn buf pos n = Some (take n (drop pos buf))"
  by (simp add: rdn_def)

lemma rdn_length: "rdn buf pos n = Some xs \<Longrightarrow> length xs = n"
  by (auto simp: rdn_def split: if_splits)

lemma rd_append [reader_simps]: "rd (xs @ y # ys) (length xs) = Some y"
  by (simp add: rd_def)

lemma rdn_append [reader_simps]: "rdn (xs @ ys @ zs) (length xs) (length ys) = Some ys"
  by (simp add: rdn_def)

lemma rd_drop [simp]: "rd (drop k buf) i = rd buf (k + i)"
  by (auto simp: rd_def)

lemma rdn_drop [simp]: "k \<le> length buf \<Longrightarrow> rdn (drop k buf) i n = rdn buf (k + i) n"
  by (auto simp: rdn_def ac_simps)

lemma cstr_append_NUL [simp]: "0 \<notin> set s \<Longrightarrow> cstr (s @ 0 # r) = Some s"
  by (simp add: cstr_def takeWhile_append)

lemma chk_int_small [simp]: "n < 2 ^ 31 \<Longrightarrow> chk_int n = Some n"
  by (simp add: chk_int_def)

subsection \<open>Lemmas on writes\<close>

lemma length_overlay [simp]: "pos + length xs \<le> length buf \<Longrightarrow> length (overlay buf pos xs) = length buf"
  by (simp add: overlay_def)

lemma overlay_Nil [simp]: "overlay buf pos [] = buf"
  by (simp add: overlay_def)

lemma put_eq_puts [writer_simps]: "put x = puts [x]"
  by (intro ext) (simp add: put_def)

lemma puts_bind_puts [writer_simps]:
  "puts xs buf pos \<bind> (\<lambda>(b, p). puts ys b p) = puts (xs @ ys) buf pos"
proof (induction xs arbitrary: buf pos)
  case (Cons x xs)
  then show ?case by (cases "put x buf pos") auto
qed simp

lemma puts_bind_assoc:
  "puts xs buf pos \<bind> (\<lambda>(b, p). puts ys b p \<bind> k) = puts (xs @ ys) buf pos \<bind> k"
  by (simp only: puts_bind_puts [symmetric] bind_assoc case_prod_beta')

lemma puts_bind_puts_pair [writer_simps]:
  "puts xs buf pos \<bind> (\<lambda>r. puts ys (fst r) (snd r)) = puts (xs @ ys) buf pos"
  using puts_bind_puts [of xs buf pos ys] by (simp only: case_prod_beta')

lemma overlay_Cons:
  assumes "pos < length buf"
  shows "overlay (buf[pos := x]) (Suc pos) xs = overlay buf pos (x # xs)"
proof -
  have "take (Suc pos) (buf[pos := x]) = take pos buf @ [x]"
    using assms by (simp add: take_Suc_conv_app_nth)
  then show ?thesis using assms by (simp add: overlay_def)
qed

lemma puts_eq:
  "puts xs buf pos =
     (if xs = [] \<or> pos + length xs \<le> length buf
      then Some (overlay buf pos xs, pos + length xs) else None)"
proof (induction xs arbitrary: buf pos)
  case (Cons x xs)
  show ?case
  proof (cases "pos < length buf")
    case True
    with Cons [of "buf[pos := x]" "Suc pos"] show ?thesis
      using overlay_Cons [OF True, of x xs] by (cases "xs = []") (simp_all add: put_def)
  qed (simp add: put_def)
qed simp

declare puts.simps(2) [simp del]

lemma puts_fits: "pos + length xs \<le> length buf \<Longrightarrow> puts xs buf pos = Some (overlay buf pos xs, pos + length xs)"
  by (simp add: puts_eq)

lemma overlay_content: "pos + length xs \<le> length buf \<Longrightarrow> take (length xs) (drop pos (overlay buf pos xs)) = xs"
  by (simp add: overlay_def)

lemma overlay_append:
  "n + length xs + length ys \<le> length buf \<Longrightarrow> overlay (overlay buf n xs) (n + length xs) ys = overlay buf n (xs @ ys)"
  by (simp add: overlay_def ac_simps)

lemma overlay_before: "pos + length xs \<le> length buf \<Longrightarrow> i < pos \<Longrightarrow> overlay buf pos xs ! i = buf ! i"
  by (simp add: overlay_def nth_append)

lemma overlay_after:
  "pos + length xs \<le> length buf \<Longrightarrow> pos + length xs \<le> i \<Longrightarrow> i < length buf \<Longrightarrow> overlay buf pos xs ! i = buf ! i"
  by (auto simp: overlay_def nth_append)

lemma drop_overlay: "pos \<le> length buf \<Longrightarrow> drop pos (overlay buf pos xs) = xs @ drop (pos + length xs) buf"
  by (simp add: overlay_def)

text \<open>Reads of a memory whose front part is known.\<close>

lemma drop_Cons2: "drop n mem = x # y # zs \<Longrightarrow> rd mem n = Some x \<and> rd mem (n + 1) = Some y \<and> drop (n + 2) mem = zs"
  using rd_drop [of n mem 0] rd_drop [of n mem 1] drop_drop [of 2 n mem] by (auto simp: rd_def add.commute)

lemma drop_append_drop: "drop n mem = xs @ zs \<Longrightarrow> drop (n + length xs) mem = zs"
  using drop_drop [of "length xs" n mem] by (simp add: add.commute)

lemma rdn_drop_append: "drop n mem = xs @ zs \<Longrightarrow> xs \<noteq> [] \<Longrightarrow> rdn mem n (length xs) = Some xs"
proof -
  assume d: "drop n mem = xs @ zs" and "xs \<noteq> []"
  then have "length mem - n = length xs + length zs" by (metis length_append length_drop)
  then show ?thesis using d \<open>xs \<noteq> []\<close> by (cases "n \<le> length mem") (auto simp: rdn_def)
qed

lemma puts_if: "(if b then puts xs buf pos else Some (buf, pos)) = puts (if b then xs else []) buf pos"
  by simp

lemma take_overlay_0: "length xs \<le> length b \<Longrightarrow> take (length xs) (overlay b 0 xs) = xs"
  by (simp add: overlay_def)

lemma map_option_bind: "map_option f (m \<bind> g) = m \<bind> (\<lambda>x. map_option f (g x))"
  by (cases m) simp_all

subsection \<open>The writer interface\<close>

text \<open>
  The contract every encoder of the library keeps: it writes one fixed run of bytes at the
  position it is given, advances the position behind the run, touches nothing else, and the
  only way it can fail is a buffer that is too small.
\<close>

locale buffer_writer =
  fixes w :: "bytes \<Rightarrow> nat \<Rightarrow> (bytes \<times> nat) option"
    and run :: "u8 list"
  assumes writes: "w buf pos = puts run buf pos"
begin

lemma fits: "pos + length run \<le> length buf \<Longrightarrow> w buf pos = Some (overlay buf pos run, pos + length run)"
  by (simp add: writes puts_fits)

lemma overruns: "run \<noteq> [] \<Longrightarrow> length buf < pos + length run \<Longrightarrow> w buf pos = None"
  by (auto simp: writes puts_eq)

lemma end_pos: "w buf pos = Some (buf', pos') \<Longrightarrow> pos' = pos + length run"
  by (auto simp: writes puts_eq split: if_splits)

lemma block_kept: "w buf pos = Some (buf', pos') \<Longrightarrow> length buf' = length buf"
  by (cases "run = []") (auto simp: writes puts_eq split: if_splits)

lemma frame:
  assumes "w buf pos = Some (buf', pos')" and "i < pos \<or> pos' \<le> i" and "i < length buf"
  shows "buf' ! i = buf ! i"
  using assms by (cases "run = []") (auto simp: writes puts_eq overlay_before overlay_after split: if_splits)

lemma content: "w buf pos = Some (buf', pos') \<Longrightarrow> run \<noteq> [] \<Longrightarrow> take (length run) (drop pos buf') = run"
  by (auto simp: writes puts_eq overlay_content split: if_splits)

end

interpretation puts_w: buffer_writer "puts xs" xs for xs
  by unfold_locales simp

subsection \<open>Lemmas on big-endian values\<close>

lemma be_nat_Nil [simp]: "be_nat [] = 0"
  by (simp add: be_nat_def)

lemma be_nat_snoc [simp]: "be_nat (xs @ [x]) = be_nat xs * 256 + unat x"
  by (simp add: be_nat_def)

lemma be_nat_append: "be_nat (xs @ ys) = be_nat xs * 256 ^ length ys + be_nat ys"
proof (induction ys rule: rev_induct)
  case (snoc y ys)
  show ?case
    by (simp only: append_assoc [symmetric] be_nat_snoc snoc) (simp add: algebra_simps)
qed simp

lemma be_nat_Cons: "be_nat (x # xs) = unat x * 256 ^ length xs + be_nat xs"
  using be_nat_append [of "[x]" xs] be_nat_snoc [of "[]" x] by simp

lemma unat_u8_less [simp]: "unat (x :: u8) < 256"
  using unsigned_less [of x, where 'a = nat] by simp

lemma unat_u8_le: "unat (x :: u8) \<le> 255"
  using unat_u8_less [of x] by linarith

lemma be_nat_less: "be_nat xs < 256 ^ length xs"
proof (induction xs rule: rev_induct)
  case (snoc x xs)
  have "be_nat xs * 256 + unat x < 256 ^ length xs * 256"
    using snoc unat_u8_less [of x] by linarith
  then show ?case by (simp add: mult.commute)
qed simp

lemma bit7_iff: "bit (x :: u8) 7 \<longleftrightarrow> 128 \<le> unat x"
proof -
  have "bit x 7 \<longleftrightarrow> odd (unat x div 2 ^ 7)"
    using bit_iff_odd [of "unat x" 7] by (simp add: bit_unsigned_iff)
  also have "\<dots> \<longleftrightarrow> 128 \<le> unat x"
  proof (cases "128 \<le> unat x")
    case True
    then have "unat x div 128 = 1" using unat_u8_less [of x] by linarith
    with True show ?thesis by simp
  qed simp
  finally show ?thesis .
qed

lemma and_exp_cases: "(b :: 'a :: len word) AND 2 ^ n = (if bit b n then 2 ^ n else 0)"
  by (rule bit_word_eqI) (auto simp: bit_and_iff bit_exp_iff)

lemma unat_u8_of_nat [simp]: "unat (word_of_nat n :: u8) = n mod 256"
  by (simp add: unsigned_of_nat take_bit_eq_mod)

lemma and_0x80_iff: "(b :: u8) AND 0x80 \<noteq> 0 \<longleftrightarrow> bit b 7" "b AND 0x80 = 0x80 \<longleftrightarrow> bit b 7"
  using and_exp_cases [of b 7] by simp_all

lemma unat_and_0x7f: "unat ((b :: u8) AND 0x7f) = unat b mod 128"
proof -
  have "b AND 0x7f = take_bit 7 b" by (simp add: take_bit_eq_mask mask_eq_exp_minus_1)
  then show ?thesis by (simp only: unsigned_take_bit_eq) (simp add: take_bit_eq_mod)
qed

end
