(* ===== verification/CString.thy ===== *)
theory CString
  imports Prelude
begin

text \<open>
  The functions of the C standard library on strings and decimal numbers that the programs use:
  \<open>strtol\<close> and \<open>atoi\<close> in base ten, \<open>strchr\<close>, and the decimal digits \<open>printf\<close> writes.  A string is the list
  of its characters without the final NUL.
\<close>

definition is_space :: "u8 \<Rightarrow> bool" where
  "is_space c \<longleftrightarrow> c = 32 \<or> (9 \<le> c \<and> c \<le> 13)"

definition is_digit :: "u8 \<Rightarrow> bool" where
  "is_digit c \<longleftrightarrow> 48 \<le> c \<and> c \<le> 57"

definition digits_value :: "cstring \<Rightarrow> nat" where
  "digits_value ds = foldl (\<lambda>a c. a * 10 + (unat c - 48)) 0 ds"

text \<open>\<open>strtol(s, &end, 10)\<close>: the value, saturated at the limits of \<open>long\<close>, and the offset of \<open>end\<close>.\<close>

definition strtol10 :: "cstring \<Rightarrow> int \<times> nat" where
  "strtol10 s =
     (let spaces = length (takeWhile is_space s);
          rest = drop spaces s;
          sign = (case rest of c # _ \<Rightarrow> if c = 45 \<or> c = 43 then 1 else 0 | [] \<Rightarrow> 0);
          negative = (case rest of c # _ \<Rightarrow> c = 45 | [] \<Rightarrow> False);
          ds = takeWhile is_digit (drop sign rest);
          v = (if negative then - int (digits_value ds) else int (digits_value ds))
      in if ds = [] then (0, 0)
         else (max (- (2 ^ 63)) (min (2 ^ 63 - 1) v), spaces + sign + length ds))"

definition digit :: "nat \<Rightarrow> u8" where
  "digit d = word_of_nat (48 + d)"

fun dec_nat :: "nat \<Rightarrow> cstring" where
  "dec_nat n = (if n < 10 then [digit n] else dec_nat (n div 10) @ [digit (n mod 10)])"

declare dec_nat.simps [simp del]

text \<open>\<open>atoi\<close>: undefined when the number is not an \<open>int\<close>.\<close>

definition c_atoi :: "cstring \<Rightarrow> int option" where
  "c_atoi s = (let v = fst (strtol10 s) in if - (2 ^ 31) \<le> v \<and> v < 2 ^ 31 then Some v else None)"

text \<open>\<open>strchr\<close>: the rest of the string from the first occurrence of the character on.\<close>

fun c_strchr :: "u8 \<Rightarrow> cstring \<Rightarrow> cstring option" where
  "c_strchr c [] = None"
| "c_strchr c (x # xs) = (if x = c then Some (x # xs) else c_strchr c xs)"

subsection \<open>Decimal numbers\<close>

lemma unat_digit: "d < 10 \<Longrightarrow> unat (digit d) = 48 + d"
  unfolding digit_def by (subst unat_u8_of_nat) simp

lemma digit_char: "d < 10 \<Longrightarrow> is_digit (digit d) \<and> unat (digit d) - 48 = d \<and> \<not> is_space (digit d)
    \<and> digit d \<noteq> 45 \<and> digit d \<noteq> 43 \<and> digit d \<noteq> 44 \<and> digit d \<noteq> 46 \<and> digit d \<noteq> 0"
  using unat_digit [of d] by (simp add: is_digit_def is_space_def word_le_nat_alt word_unat_eq_iff)

lemma dec_nat_nonempty: "dec_nat n \<noteq> []"
  by (subst dec_nat.simps) simp

lemma dec_nat_chars: "c \<in> set (dec_nat n) \<Longrightarrow> \<exists>d < 10. c = digit d"
proof (induction n rule: dec_nat.induct)
  case (1 n)
  show ?case
  proof (cases "n < 10")
    case False
    with "1.prems" consider "c \<in> set (dec_nat (n div 10))" | "c = digit (n mod 10)"
      by (auto simp: dec_nat.simps [of n])
    then show ?thesis
    proof cases
      case 2
      then show ?thesis by (intro exI [of _ "n mod 10"]) simp
    qed (use "1.IH" False in auto)
  qed (use "1.prems" in \<open>auto simp: dec_nat.simps [of n]\<close>)
qed

lemma digits_value_dec_nat: "digits_value (dec_nat n) = n"
proof (induction n rule: dec_nat.induct)
  case (1 n)
  then show ?case
    using digit_char [of n] digit_char [of "n mod 10"] by (cases "n < 10") (simp_all add: dec_nat.simps [of n] digits_value_def)
qed

lemma dec_nat_digits: "list_all is_digit (dec_nat n)" "list_all (\<lambda>c. \<not> is_space c \<and> c \<noteq> 45 \<and> c \<noteq> 43 \<and> c \<noteq> 44 \<and> c \<noteq> 46 \<and> c \<noteq> 0) (dec_nat n)"
  using dec_nat_chars [of _ n] digit_char by (fastforce simp: list_all_iff)+

lemma takeWhile_all: "list_all P xs \<Longrightarrow> takeWhile P xs = xs"
  by (simp add: takeWhile_eq_all_conv list_all_iff)

lemma takeWhile_prefix: "list_all P xs \<Longrightarrow> ys = [] \<or> \<not> P (hd ys) \<Longrightarrow> takeWhile P (xs @ ys) = xs"
  by (induction xs) (auto simp: takeWhile_eq_Nil_iff)

text \<open>A printed number is read back, whatever follows it that is not a digit.\<close>

lemma strtol10_prefix:
  assumes "n < 2 ^ 63" and "rest = [] \<or> \<not> is_digit (hd rest)"
  shows "strtol10 (dec_nat n @ rest) = (int n, length (dec_nat n))"
    and "strtol10 (45 # dec_nat n @ rest) = (- int n, length (45 # dec_nat n))"
proof -
  obtain c cs where c: "dec_nat n = c # cs" using dec_nat_nonempty by (meson list.exhaust)
  have "\<not> is_space c" "c \<noteq> 45" "c \<noteq> 43" using dec_nat_digits(2) [of n] c by auto
  moreover have "takeWhile is_digit (c # cs @ rest) = c # cs"
    using takeWhile_prefix [OF dec_nat_digits(1) [of n] assms(2)] c by simp
  moreover have "digits_value (c # cs) = n" using digits_value_dec_nat [of n] c by simp
  moreover have "\<not> is_space 45" by (simp add: is_space_def)
  ultimately show "strtol10 (dec_nat n @ rest) = (int n, length (dec_nat n))"
    and "strtol10 (45 # dec_nat n @ rest) = (- int n, length (45 # dec_nat n))"
    using assms(1) unfolding c strtol10_def by (simp_all add: Let_def)
qed

lemmas strtol10_dec = strtol10_prefix [where rest = "[]", simplified]

lemma c_atoi_prefix:
  "n < 2 ^ 31 \<Longrightarrow> rest = [] \<or> \<not> is_digit (hd rest) \<Longrightarrow> c_atoi (dec_nat n @ rest) = Some (int n)"
  by (simp add: c_atoi_def strtol10_prefix(1) del: append_Nil2)

lemma c_strchr_append: "c \<notin> set xs \<Longrightarrow> c_strchr c (xs @ ys) = c_strchr c ys"
  by (induction xs) auto

lemma c_strchr_length: "c_strchr c xs = Some ys \<Longrightarrow> ys \<noteq> [] \<and> hd ys = c \<and> length ys \<le> length xs"
  by (induction xs) (auto split: if_splits)

subsection \<open>Splitting at a separator\<close>

fun split_on :: "u8 \<Rightarrow> cstring \<Rightarrow> cstring list" where
  "split_on sep [] = [[]]"
| "split_on sep (c # cs) = (if c = sep then [] # split_on sep cs else (c # hd (split_on sep cs)) # tl (split_on sep cs))"

lemma split_on_nonempty [simp]: "split_on sep cs \<noteq> []"
  by (cases cs) simp_all

lemma split_on_strchr:
  "c_strchr sep cs = None \<Longrightarrow> split_on sep cs = [cs]"
  "c_strchr sep cs = Some r \<Longrightarrow> split_on sep cs = take (length cs - length r) cs # split_on sep (tl r)"
proof -
  show "c_strchr sep cs = None \<Longrightarrow> split_on sep cs = [cs]" by (induction cs) (auto split: if_splits)
  show "c_strchr sep cs = Some r \<Longrightarrow> split_on sep cs = take (length cs - length r) cs # split_on sep (tl r)"
  proof (induction cs)
    case (Cons c cs)
    show ?case
    proof (cases "c = sep")
      case False
      with Cons have "c_strchr sep cs = Some r" by simp
      moreover from this have "length r \<le> length cs" by (simp add: c_strchr_length)
      ultimately show ?thesis using Cons False by (simp add: Suc_diff_le)
    qed (use Cons.prems in auto)
  qed simp
qed

lemma split_on_no_sep: "sep \<notin> set a \<Longrightarrow> split_on sep a = [a]"
  by (induction a) auto

lemma split_on_sep: "sep \<notin> set a \<Longrightarrow> split_on sep (a @ sep # r) = a # split_on sep r"
  by (induction a) auto

end
