(* ===== verification/BerEncoder.thy ===== *)
theory BerEncoder
  imports Prelude
begin

text \<open>
  The BER encoder, \<open>src/libiec61850/src/mms/asn1/ber_encoder.c\<close>.  Every function that writes to
  a buffer keeps the argument order of the C code, the buffer and the position last, and is an
  instance of the writer interface of the prelude: an interpretation per encoder names the run of
  bytes it writes.  The \<open>determine\<dots>Size\<close> functions, which callers use to reserve space, are
  compared with the length of that run.  The host is little-endian
  (\<open>ORDER_LITTLE_ENDIAN = 1\<close>), so the bytes of an integer in memory start with the lowest one.
\<close>

subsection \<open>Length and tag-length fields\<close>

definition BerEncoder_encodeLength :: "nat \<Rightarrow> writer" where
  "BerEncoder_encodeLength len buffer bufPos =
     (if len < 128 then put (word_of_nat len) buffer bufPos
      else if len < 256 then do {
        (buffer, bufPos) \<leftarrow> put 0x81 buffer bufPos;
        put (word_of_nat len) buffer bufPos }
      else if len < 65535 then do {
        (buffer, bufPos) \<leftarrow> put 0x82 buffer bufPos;
        (buffer, bufPos) \<leftarrow> put (word_of_nat (len div 256)) buffer bufPos;
        put (word_of_nat (len mod 256)) buffer bufPos }
      else do {
        (buffer, bufPos) \<leftarrow> put 0x83 buffer bufPos;
        (buffer, bufPos) \<leftarrow> put (word_of_nat (len div 0x10000)) buffer bufPos;
        (buffer, bufPos) \<leftarrow> put (word_of_nat ((len mod 0x10000) div 0x100)) buffer bufPos;
        put (word_of_nat (len mod 256)) buffer bufPos })"

definition BerEncoder_encodeTL :: "u8 \<Rightarrow> nat \<Rightarrow> writer" where
  "BerEncoder_encodeTL tag len buffer bufPos = do {
     (buffer, bufPos) \<leftarrow> put tag buffer bufPos;
     BerEncoder_encodeLength len buffer bufPos }"

definition BerEncoder_encodeBoolean :: "u8 \<Rightarrow> bool \<Rightarrow> writer" where
  "BerEncoder_encodeBoolean tag value buffer bufPos = do {
     (buffer, bufPos) \<leftarrow> put tag buffer bufPos;
     (buffer, bufPos) \<leftarrow> put 1 buffer bufPos;
     if value then put 0x01 buffer bufPos else put 0x00 buffer bufPos }"

text \<open>A C string argument is \<open>None\<close> for \<open>NULL\<close>, otherwise the characters before the NUL.\<close>

definition BerEncoder_encodeStringWithTag :: "u8 \<Rightarrow> cstring option \<Rightarrow> writer" where
  "BerEncoder_encodeStringWithTag tag string buffer bufPos = do {
     (buffer, bufPos) \<leftarrow> put tag buffer bufPos;
     (case string of
        Some s \<Rightarrow> do {
          (buffer, bufPos) \<leftarrow> BerEncoder_encodeLength (length s) buffer bufPos;
          puts s buffer bufPos }
      | None \<Rightarrow> put 0 buffer bufPos) }"

definition BerEncoder_encodeOctetString :: "u8 \<Rightarrow> bytes \<Rightarrow> nat \<Rightarrow> writer" where
  "BerEncoder_encodeOctetString tag octetString octetStringSize buffer bufPos = do {
     (buffer, bufPos) \<leftarrow> put tag buffer bufPos;
     (buffer, bufPos) \<leftarrow> BerEncoder_encodeLength octetStringSize buffer bufPos;
     octets \<leftarrow> rdn octetString 0 octetStringSize;
     puts octets buffer bufPos }"

subsection \<open>Bit strings\<close>

definition bit_byte_size :: "nat \<Rightarrow> nat" where
  "bit_byte_size bitStringSize =
     (let byteSize = bitStringSize div 8
      in if bitStringSize mod 8 \<noteq> 0 then byteSize + 1 else byteSize)"

definition padding_mask :: "nat \<Rightarrow> u8" where
  "padding_mask padding = NOT (fold (\<lambda>i m. m + push_bit i 1) [0..<padding] 0)"

definition BerEncoder_encodeBitString :: "u8 \<Rightarrow> nat \<Rightarrow> bytes \<Rightarrow> writer" where
  "BerEncoder_encodeBitString tag bitStringSize bitString buffer bufPos = do {
     (buffer, bufPos) \<leftarrow> put tag buffer bufPos;
     let byteSize = bit_byte_size bitStringSize;
     let padding = byteSize * 8 - bitStringSize;
     (buffer, bufPos) \<leftarrow> BerEncoder_encodeLength (byteSize + 1) buffer bufPos;
     (buffer, bufPos) \<leftarrow> put (word_of_nat padding) buffer bufPos;
     octets \<leftarrow> rdn bitString 0 byteSize;
     (buffer, bufPos) \<leftarrow> puts octets buffer bufPos;
     lastByte \<leftarrow> rd buffer (bufPos - 1);
     put (lastByte AND padding_mask padding) buffer (bufPos - 1) }"

subsection \<open>Sizes of encodings\<close>

definition BerEncoder_determineLengthSize :: "nat \<Rightarrow> nat" where
  "BerEncoder_determineLengthSize len =
     (if len < 128 then 1 else if len < 256 then 2 else if len < 65536 then 3 else 4)"

definition BerEncoder_determineEncodedBitStringSize :: "nat \<Rightarrow> nat" where
  "BerEncoder_determineEncodedBitStringSize bitStringSize =
     (let byteSize = bit_byte_size bitStringSize
      in 2 + BerEncoder_determineLengthSize byteSize + byteSize)"

definition BerEncoder_determineEncodedStringSize :: "cstring option \<Rightarrow> nat" where
  "BerEncoder_determineEncodedStringSize string =
     (case string of
        Some s \<Rightarrow> 1 + BerEncoder_determineLengthSize (length s) + length s
      | None \<Rightarrow> 2)"

subsection \<open>Integers\<close>

text \<open>The bytes of a \<open>uint32_t\<close> in the memory of a little-endian host.\<close>

definition mem32 :: "u32 \<Rightarrow> bytes" where
  "mem32 v = [ucast v, ucast (drop_bit 8 v), ucast (drop_bit 16 v), ucast (drop_bit 24 v)]"

function revert_loop :: "nat \<Rightarrow> nat \<Rightarrow> bytes \<Rightarrow> bytes" where
  "revert_loop i n octets =
     (if i < n div 2
      then (let temp = octets ! i;
                octets = octets[i := octets ! (n - 1 - i)];
                octets = octets[n - 1 - i := temp]
            in revert_loop (Suc i) n octets)
      else octets)"
  by pat_completeness auto
termination
  by (relation "measure (\<lambda>(i, n, _). n div 2 - i)") auto

definition BerEncoder_revertByteOrder :: "bytes \<Rightarrow> nat \<Rightarrow> bytes" where
  "BerEncoder_revertByteOrder octets n = revert_loop 0 n octets"

definition redundant_octet :: "u8 \<Rightarrow> u8 \<Rightarrow> bool" where
  "redundant_octet a b =
     (if a = 0x00 then b AND 0x80 = 0
      else if a = 0xff then b AND 0x80 = 0x80
      else False)"

fun compress_scan :: "bytes \<Rightarrow> nat" where
  "compress_scan (a # b # r) = (if redundant_octet a b then Suc (compress_scan (b # r)) else 0)"
| "compress_scan _ = 0"

function shift_loop :: "nat \<Rightarrow> nat \<Rightarrow> nat \<Rightarrow> bytes \<Rightarrow> bytes" where
  "shift_loop k i newEnd octets =
     (if i < newEnd then shift_loop k (Suc i) newEnd (octets[i := octets ! (i + k)]) else octets)"
  by pat_completeness auto
termination
  by (relation "measure (\<lambda>(k, i, newEnd, _). newEnd - i)") auto

definition BerEncoder_compressInteger :: "bytes \<Rightarrow> nat \<Rightarrow> bytes \<times> nat" where
  "BerEncoder_compressInteger integer originalSize =
     (let bytesToDelete = compress_scan (take originalSize integer)
      in if bytesToDelete \<noteq> 0
         then (let newSize = originalSize - bytesToDelete
               in (shift_loop bytesToDelete 0 newSize integer, newSize))
         else (integer, originalSize))"

definition BerEncoder_encodeUInt32 :: "u32 \<Rightarrow> writer" where
  "BerEncoder_encodeUInt32 value buffer bufPos =
     (let valueBuffer = 0 # BerEncoder_revertByteOrder (mem32 value) 4;
          (valueBuffer, n) = BerEncoder_compressInteger valueBuffer 5
      in puts (take n valueBuffer) buffer bufPos)"

definition BerEncoder_encodeInt32 :: "u32 \<Rightarrow> writer" where
  "BerEncoder_encodeInt32 value buffer bufPos =
     (let valueBuffer = rev (mem32 value);
          (valueBuffer, n) = BerEncoder_compressInteger valueBuffer 4
      in puts (take n valueBuffer) buffer bufPos)"

definition BerEncoder_encodeUInt32WithTL :: "u8 \<Rightarrow> u32 \<Rightarrow> writer" where
  "BerEncoder_encodeUInt32WithTL tag value buffer bufPos =
     (let valueBuffer = 0 # BerEncoder_revertByteOrder (mem32 value) 4;
          (valueBuffer, n) = BerEncoder_compressInteger valueBuffer 5
      in do {
        (buffer, bufPos) \<leftarrow> put tag buffer bufPos;
        (buffer, bufPos) \<leftarrow> put (word_of_nat n) buffer bufPos;
        puts (take n valueBuffer) buffer bufPos })"

definition BerEncoder_UInt32determineEncodedSize :: "u32 \<Rightarrow> nat" where
  "BerEncoder_UInt32determineEncodedSize value =
     snd (BerEncoder_compressInteger (0 # BerEncoder_revertByteOrder (mem32 value) 4) 5)"

definition BerEncoder_Int32determineEncodedSize :: "u32 \<Rightarrow> nat" where
  "BerEncoder_Int32determineEncodedSize value =
     snd (BerEncoder_compressInteger (0 # BerEncoder_revertByteOrder (mem32 value) 4) 5)"

text \<open>
  \<open>floatValue\<close> is the memory of the number.  The bytes are copied behind the exponent width and
  reversed in place.
\<close>

definition BerEncoder_encodeFloat :: "bytes \<Rightarrow> nat \<Rightarrow> u8 \<Rightarrow> writer" where
  "BerEncoder_encodeFloat floatValue formatWidth exponentWidth buffer bufPos = do {
     let byteSize = formatWidth div 8;
     octets \<leftarrow> rdn floatValue 0 byteSize;
     (buffer, _) \<leftarrow> puts (exponentWidth # octets) buffer bufPos;
     Some (take (bufPos + 1) buffer @ BerEncoder_revertByteOrder (drop (bufPos + 1) buffer) byteSize,
           bufPos + 1 + byteSize) }"

subsection \<open>Reference encodings\<close>

definition ber_len :: "nat \<Rightarrow> bytes" where
  "ber_len n =
     (if n < 128 then [word_of_nat n]
      else if n < 256 then [0x81, word_of_nat n]
      else if n < 65535 then [0x82, word_of_nat (n div 256), word_of_nat (n mod 256)]
      else [0x83, word_of_nat (n div 0x10000), word_of_nat ((n mod 0x10000) div 0x100),
            word_of_nat (n mod 256)])"

definition ber_tlv :: "u8 \<Rightarrow> bytes \<Rightarrow> bytes" where
  "ber_tlv tag content = tag # ber_len (length content) @ content"

definition ber_string :: "u8 \<Rightarrow> cstring option \<Rightarrow> bytes" where
  "ber_string tag string = ber_tlv tag (case string of Some s \<Rightarrow> s | None \<Rightarrow> [])"

definition compressed :: "bytes \<Rightarrow> bytes" where
  "compressed xs = drop (compress_scan xs) xs"

definition ber_u32 :: "u32 \<Rightarrow> bytes" where
  "ber_u32 v = compressed (0 # rev (mem32 v))"

definition ber_i32 :: "u32 \<Rightarrow> bytes" where
  "ber_i32 v = compressed (rev (mem32 v))"

definition mask_last :: "u8 \<Rightarrow> bytes \<Rightarrow> bytes" where
  "mask_last m xs = butlast xs @ [last xs AND m]"

definition ber_bits_content :: "nat \<Rightarrow> bytes \<Rightarrow> bytes" where
  "ber_bits_content n bits =
     (let byteSize = bit_byte_size n; padding = byteSize * 8 - n
      in mask_last (padding_mask padding) (word_of_nat padding # take byteSize bits))"

definition ber_float_content :: "bytes \<Rightarrow> nat \<Rightarrow> u8 \<Rightarrow> bytes" where
  "ber_float_content floatValue formatWidth exponentWidth =
     exponentWidth # rev (take (formatWidth div 8) floatValue)"

subsection \<open>The in-place loops\<close>

declare revert_loop.simps [simp del] shift_loop.simps [simp del]

lemma length_revert_loop [simp]: "length (revert_loop i n xs) = length xs"
proof (induction i n xs rule: revert_loop.induct)
  case (1 i n xs)
  then show ?case by (subst revert_loop.simps) (simp add: Let_def)
qed

lemma revert_loop_nth:
  assumes "n \<le> length xs" and "j < length xs"
  shows "revert_loop i n xs ! j = (if i \<le> j \<and> j < n - i then xs ! (n - 1 - j) else xs ! j)"
  using assms
proof (induction i n xs rule: revert_loop.induct)
  case (1 i n xs)
  show ?case
  proof (cases "i < n div 2")
    case True
    let ?ys = "xs[i := xs ! (n - 1 - i), n - 1 - i := xs ! i]"
    have "revert_loop i n xs ! j = revert_loop (Suc i) n ?ys ! j"
      using True by (subst revert_loop.simps) (simp add: Let_def)
    also have "\<dots> = (if Suc i \<le> j \<and> j < n - Suc i then ?ys ! (n - 1 - j) else ?ys ! j)"
      using "1.IH" [OF True refl refl refl] "1.prems" by simp
    also have "\<dots> = (if i \<le> j \<and> j < n - i then xs ! (n - 1 - j) else xs ! j)"
      using True "1.prems" by (auto simp: nth_list_update)
    finally show ?thesis .
  next
    case False
    then have "i \<le> j \<and> j < n - i \<Longrightarrow> n - 1 - j = j" by auto
    with False show ?thesis by (subst revert_loop.simps) auto
  qed
qed

lemma revertByteOrder_eq: "n \<le> length xs \<Longrightarrow> BerEncoder_revertByteOrder xs n = rev (take n xs) @ drop n xs"
  by (rule nth_equalityI)
     (auto simp: BerEncoder_revertByteOrder_def revert_loop_nth nth_append rev_nth min_def)

lemma length_shift_loop [simp]: "length (shift_loop k i n xs) = length xs"
proof (induction k i n xs rule: shift_loop.induct)
  case (1 k i n xs)
  then show ?case by (subst shift_loop.simps) simp
qed

lemma shift_loop_nth:
  assumes "n + k \<le> length xs" and "j < length xs"
  shows "shift_loop k i n xs ! j = (if i \<le> j \<and> j < n then xs ! (j + k) else xs ! j)"
  using assms
proof (induction k i n xs rule: shift_loop.induct)
  case (1 k i n xs)
  show ?case
  proof (cases "i < n")
    case True
    have "shift_loop k i n xs ! j = shift_loop k (Suc i) n (xs[i := xs ! (i + k)]) ! j"
      using True by (subst shift_loop.simps) simp
    also have "\<dots> = (if i \<le> j \<and> j < n then xs ! (j + k) else xs ! j)"
      using True "1.IH" [OF True] "1.prems" by (auto simp: nth_list_update)
    finally show ?thesis .
  next
    case False
    then show ?thesis by (subst shift_loop.simps) auto
  qed
qed

lemma compress_scan_less: "xs \<noteq> [] \<Longrightarrow> compress_scan xs < length xs"
  by (induction xs rule: compress_scan.induct) auto

lemma compressed_nonempty [simp]: "xs \<noteq> [] \<Longrightarrow> compressed xs \<noteq> []"
  using compress_scan_less [of xs] by (simp add: compressed_def)

lemma compressInteger_size:
  "n = length xs \<Longrightarrow> snd (BerEncoder_compressInteger xs n) = length (compressed xs)"
  by (simp add: BerEncoder_compressInteger_def compressed_def Let_def)

lemma compressInteger_octets:
  assumes "n = length xs"
  shows "take (length (compressed xs)) (fst (BerEncoder_compressInteger xs n)) = compressed xs"
proof (cases "compress_scan xs = 0")
  case False
  then have "xs \<noteq> []" by auto
  then have k: "compress_scan xs < length xs" by (rule compress_scan_less)
  then show ?thesis
    using assms False
    by (intro nth_equalityI)
       (auto simp: BerEncoder_compressInteger_def compressed_def Let_def shift_loop_nth add.commute)
qed (simp add: assms BerEncoder_compressInteger_def compressed_def)

subsection \<open>Shortest two's complement form\<close>

lemma redundant_octet_iff:
  "redundant_octet a b \<longleftrightarrow> (a = 0 \<and> \<not> bit b 7) \<or> (a = 0xff \<and> bit b 7)"
proof -
  have "b AND 0x80 = (if bit b 7 then 0x80 else 0)"
    using and_exp_cases [of b 7] by simp
  then show ?thesis by (simp add: redundant_octet_def)
qed

lemma be_int_Cons_redundant:
  assumes "redundant_octet a b"
  shows "be_int (a # b # r) = be_int (b # r)"
proof -
  have "unat (255 :: u8) = 255" and "bit (255 :: u8) 7" by simp_all
  with assms show ?thesis
    by (auto simp: redundant_octet_iff be_int_def be_nat_Cons [of a] algebra_simps)
qed

lemma be_int_compressed: "be_int (compressed xs) = be_int xs"
proof (induction xs rule: compress_scan.induct)
  case (1 a b r)
  then show ?case using be_int_Cons_redundant [of a b r] by (auto simp: compressed_def)
qed (auto simp: compressed_def)

lemma compressed_minimal: "compressed xs = a # b # r \<Longrightarrow> \<not> redundant_octet a b"
proof (induction xs rule: compress_scan.induct)
  case (1 c d s)
  then show ?case by (auto simp: compressed_def split: if_splits)
qed (auto simp: compressed_def)

lemma be_nat_compressed_0: "hd xs = 0 \<Longrightarrow> be_nat (compressed xs) = be_nat xs"
proof (induction xs rule: compress_scan.induct)
  case (1 a b r)
  show ?case
  proof (cases "redundant_octet a b \<and> b = 0")
    case True
    with 1 show ?thesis by (auto simp: compressed_def be_nat_Cons)
  next
    case False
    with "1.prems" have "\<not> bit b 7 \<Longrightarrow> r \<noteq> [] \<Longrightarrow> \<not> redundant_octet b (hd r)"
      by (auto simp: redundant_octet_iff)
    then have "redundant_octet a b \<Longrightarrow> compress_scan (b # r) = 0"
      using "1.prems" by (cases r) (auto simp: redundant_octet_iff)
    with "1.prems" show ?thesis by (simp add: compressed_def be_nat_Cons [of 0])
  qed
qed (auto simp: compressed_def)

subsection \<open>The encoders as writers\<close>

lemma mask_last_append: "ys \<noteq> [] \<Longrightarrow> mask_last m (xs @ ys) = xs @ mask_last m ys"
  by (simp add: mask_last_def butlast_append)

lemma length_mask_last [simp]: "xs \<noteq> [] \<Longrightarrow> length (mask_last m xs) = length xs"
  by (simp add: mask_last_def)

lemma encodeLength_writes [writer_simps]: "BerEncoder_encodeLength n = puts (ber_len n)"
  by (intro ext) (simp add: BerEncoder_encodeLength_def ber_len_def writer_simps)

lemma encodeTL_writes [writer_simps]: "BerEncoder_encodeTL tag n = puts (tag # ber_len n)"
  by (intro ext) (simp add: BerEncoder_encodeTL_def writer_simps)

lemma encodeBoolean_writes [writer_simps]:
  "BerEncoder_encodeBoolean tag v = puts (ber_tlv tag [if v then 1 else 0])"
  by (intro ext) (simp add: BerEncoder_encodeBoolean_def ber_tlv_def ber_len_def writer_simps)

lemma encodeStringWithTag_writes [writer_simps]:
  "BerEncoder_encodeStringWithTag tag s = puts (ber_string tag s)"
  by (intro ext, cases s)
     (simp_all add: BerEncoder_encodeStringWithTag_def ber_string_def ber_tlv_def ber_len_def [of 0]
        writer_simps)

lemma encodeOctetString_writes:
  assumes "n \<le> length octets"
  shows "BerEncoder_encodeOctetString tag octets n = puts (ber_tlv tag (take n octets))"
  using assms
  by (intro ext)
     (simp add: BerEncoder_encodeOctetString_def ber_tlv_def min_def writer_simps reader_simps)

lemma encodeUInt32_writes [writer_simps]: "BerEncoder_encodeUInt32 v = puts (ber_u32 v)"
proof (intro ext)
  fix buf pos
  let ?xs = "0 # rev (mem32 v)"
  have rev4: "BerEncoder_revertByteOrder (mem32 v) 4 = rev (mem32 v)"
    by (simp add: revertByteOrder_eq mem32_def)
  have "5 = length ?xs" by (simp add: mem32_def)
  then show "BerEncoder_encodeUInt32 v buf pos = puts (ber_u32 v) buf pos"
    using compressInteger_octets [of 5 ?xs] compressInteger_size [of 5 ?xs]
    by (simp add: BerEncoder_encodeUInt32_def ber_u32_def rev4 case_prod_beta)
qed

lemma encodeInt32_writes [writer_simps]: "BerEncoder_encodeInt32 v = puts (ber_i32 v)"
proof (intro ext)
  fix buf pos
  have "4 = length (rev (mem32 v))" by (simp add: mem32_def)
  then show "BerEncoder_encodeInt32 v buf pos = puts (ber_i32 v) buf pos"
    using compressInteger_octets [of 4 "rev (mem32 v)"] compressInteger_size [of 4 "rev (mem32 v)"]
    by (simp add: BerEncoder_encodeInt32_def ber_i32_def case_prod_beta)
qed

lemma UInt32determineEncodedSize_eq [wire_simps]:
  "BerEncoder_UInt32determineEncodedSize v = length (ber_u32 v)"
  by (simp add: BerEncoder_UInt32determineEncodedSize_def ber_u32_def compressInteger_size
      revertByteOrder_eq mem32_def)

lemma length_ber_u32: "0 < length (ber_u32 v) \<and> length (ber_u32 v) \<le> 5"
  using compress_scan_less [of "0 # rev (mem32 v)"]
  by (auto simp: ber_u32_def compressed_def mem32_def)

lemma encodeUInt32WithTL_writes [writer_simps]:
  "BerEncoder_encodeUInt32WithTL tag v = puts (ber_tlv tag (ber_u32 v))"
proof (intro ext)
  fix buf pos
  have "BerEncoder_encodeUInt32WithTL tag v buf pos = do {
     (b, p) \<leftarrow> put tag buf pos; (b, p) \<leftarrow> put (word_of_nat (length (ber_u32 v))) b p;
     BerEncoder_encodeUInt32 v b p }"
    unfolding UInt32determineEncodedSize_eq [symmetric] BerEncoder_UInt32determineEncodedSize_def
      BerEncoder_encodeUInt32WithTL_def BerEncoder_encodeUInt32_def Let_def case_prod_beta ..
  also have "\<dots> = puts (ber_tlv tag (ber_u32 v)) buf pos"
    using length_ber_u32 [of v] by (simp add: ber_tlv_def ber_len_def writer_simps)
  finally show "BerEncoder_encodeUInt32WithTL tag v buf pos = puts (ber_tlv tag (ber_u32 v)) buf pos" .
qed

definition mask_back :: "u8 \<Rightarrow> writer" where
  "mask_back m buf pos = do { l \<leftarrow> rd buf (pos - 1); put (l AND m) buf (pos - 1) }"

lemma put_mask_back: "put y buf pos \<bind> (\<lambda>(b, p). mask_back m b p) = put (y AND m) buf pos"
  by (simp add: put_def rd_def mask_back_def)

lemma puts_mask_back:
  assumes "xs \<noteq> []"
  shows "puts xs buf pos \<bind> (\<lambda>(b, p). mask_back m b p) = puts (mask_last m xs) buf pos"
proof -
  have "puts xs buf pos = puts (butlast xs) buf pos \<bind> (\<lambda>(b, p). put (last xs) b p)"
    using assms by (simp add: put_eq_puts puts_bind_puts)
  then have "puts xs buf pos \<bind> (\<lambda>(b, p). mask_back m b p)
      = puts (butlast xs) buf pos \<bind> (\<lambda>(b, p). put (last xs AND m) b p)"
    by (cases "puts (butlast xs) buf pos") (auto simp: put_mask_back)
  then show ?thesis by (simp only: mask_last_def put_eq_puts puts_bind_puts)
qed

lemma encodeBitString_writes:
  assumes "bit_byte_size n \<le> length bits"
  shows "BerEncoder_encodeBitString tag n bits = puts (ber_tlv tag (ber_bits_content n bits))"
proof (intro ext)
  fix buf pos
  let ?k = "bit_byte_size n" and ?m = "padding_mask (bit_byte_size n * 8 - n)"
  let ?ys = "word_of_nat (bit_byte_size n * 8 - n) # take ?k bits"
  have "BerEncoder_encodeBitString tag n bits buf pos
      = puts ((tag # ber_len (?k + 1)) @ ?ys) buf pos \<bind> (\<lambda>(b, p). mask_back ?m b p)"
    using assms
    by (simp add: BerEncoder_encodeBitString_def Let_def reader_simps put_eq_puts
        encodeLength_writes puts_bind_assoc mask_back_def)
  also have "\<dots> = puts (mask_last ?m ((tag # ber_len (?k + 1)) @ ?ys)) buf pos"
    by (rule puts_mask_back) simp
  also have "mask_last ?m ((tag # ber_len (?k + 1)) @ ?ys) = ber_tlv tag (ber_bits_content n bits)"
    using assms mask_last_append [of ?ys ?m "tag # ber_len (?k + 1)"]
    by (simp add: ber_tlv_def ber_bits_content_def Let_def min_def)
  finally show "BerEncoder_encodeBitString tag n bits buf pos
    = puts (ber_tlv tag (ber_bits_content n bits)) buf pos" .
qed

lemma encodeFloat_writes:
  assumes "formatWidth div 8 \<le> length mem"
  shows "BerEncoder_encodeFloat mem formatWidth exponentWidth
    = puts (ber_float_content mem formatWidth exponentWidth)"
proof (intro ext)
  fix buf pos
  let ?n = "formatWidth div 8"
  have "take (pos + 1) (overlay buf pos (exponentWidth # take ?n mem))
        @ BerEncoder_revertByteOrder (drop (pos + 1) (overlay buf pos (exponentWidth # take ?n mem))) ?n
      = overlay buf pos (exponentWidth # rev (take ?n mem))" if "pos + 1 + ?n \<le> length buf"
    using that assms by (simp add: overlay_def revertByteOrder_eq min_def)
  then show "BerEncoder_encodeFloat mem formatWidth exponentWidth buf pos
      = puts (ber_float_content mem formatWidth exponentWidth) buf pos"
    using assms
    by (simp add: BerEncoder_encodeFloat_def ber_float_content_def Let_def reader_simps puts_eq)
qed

interpretation enc_length: buffer_writer "BerEncoder_encodeLength n" "ber_len n" for n
  by unfold_locales (simp add: encodeLength_writes)

interpretation enc_tl: buffer_writer "BerEncoder_encodeTL tag n" "tag # ber_len n" for tag n
  by unfold_locales (simp add: encodeTL_writes)

interpretation enc_boolean: buffer_writer "BerEncoder_encodeBoolean tag v"
    "ber_tlv tag [if v then 1 else 0]" for tag v
  by unfold_locales (simp add: encodeBoolean_writes)

interpretation enc_string: buffer_writer "BerEncoder_encodeStringWithTag tag s" "ber_string tag s" for tag s
  by unfold_locales (simp add: encodeStringWithTag_writes)

interpretation enc_uint32: buffer_writer "BerEncoder_encodeUInt32 v" "ber_u32 v" for v
  by unfold_locales (simp add: encodeUInt32_writes)

interpretation enc_int32: buffer_writer "BerEncoder_encodeInt32 v" "ber_i32 v" for v
  by unfold_locales (simp add: encodeInt32_writes)

interpretation enc_uint32_tl: buffer_writer "BerEncoder_encodeUInt32WithTL tag v"
    "ber_tlv tag (ber_u32 v)" for tag v
  by unfold_locales (simp add: encodeUInt32WithTL_writes)

subsection \<open>Reserved space against written bytes\<close>

lemma length_ber_len: "length (ber_len n) = (if n < 128 then 1 else if n < 256 then 2 else if n < 65535 then 3 else 4)"
  by (simp add: ber_len_def)

lemma determineLengthSize_eq [wire_simps]:
  "n \<noteq> 65535 \<Longrightarrow> BerEncoder_determineLengthSize n = length (ber_len n)"
  by (simp add: BerEncoder_determineLengthSize_def length_ber_len)

lemma determineLengthSize_le: "BerEncoder_determineLengthSize n \<le> length (ber_len n)"
  by (simp add: BerEncoder_determineLengthSize_def length_ber_len)

lemma length_ber_tlv [wire_simps]: "length (ber_tlv tag c) = 1 + length (ber_len (length c)) + length c"
  by (simp add: ber_tlv_def)

lemma determineEncodedStringSize_eq [wire_simps]:
  "case_option 0 length s \<noteq> 65535 \<Longrightarrow>
     BerEncoder_determineEncodedStringSize s = length (ber_string tag s)"
  by (cases s) (simp_all add: BerEncoder_determineEncodedStringSize_def ber_string_def wire_simps length_ber_len)

lemma length_ber_bits_content [wire_simps]:
  "bit_byte_size n \<le> length bits \<Longrightarrow> length (ber_bits_content n bits) = bit_byte_size n + 1"
  by (simp add: ber_bits_content_def Let_def)

text \<open>
  The number of bytes \<open>BerEncoder_determineLengthSize\<close> reserves for a length field is the
  number \<open>BerEncoder_encodeLength\<close> writes, for every length but 65535; there the encoder takes
  the four-byte form (it tests \<open>< 65535\<close>) and the size function still answers three.
\<close>

theorem determineLengthSize_exact:
  "pos + 4 \<le> length buf \<Longrightarrow>
     (BerEncoder_encodeLength n buf pos
        = Some (overlay buf pos (ber_len n), pos + BerEncoder_determineLengthSize n))
     \<longleftrightarrow> n \<noteq> 65535"
  using enc_length.fits [of pos n buf]
  by (auto simp: length_ber_len BerEncoder_determineLengthSize_def split: if_splits)

theorem determineLengthSize_exact_witness:
  "BerEncoder_encodeLength 65535 (replicate 4 0) 0
     \<noteq> Some (overlay (replicate 4 0) 0 (ber_len 65535), 0 + BerEncoder_determineLengthSize 65535)"
  using determineLengthSize_exact [of 0 "replicate 4 0" 65535] by simp

text \<open>
  \<open>BerEncoder_determineEncodedBitStringSize\<close> takes the length field of the content bytes
  alone, while the encoder writes the length of the content and the padding byte.  The reserved
  size is therefore the written size except for contents of 127, 255, 65534 and 65535 bytes
  (bit strings of 1009 to 1016, 2033 to 2040, \<open>\<dots>\<close> bits), where one byte too few is reserved.
\<close>

theorem determineEncodedBitStringSize_exact:
  assumes "bit_byte_size n \<le> length bits" and "pos + 6 + bit_byte_size n \<le> length buf"
  shows "map_option snd (BerEncoder_encodeBitString tag n bits buf pos)
           = Some (pos + BerEncoder_determineEncodedBitStringSize n)
         \<longleftrightarrow> bit_byte_size n \<notin> {127, 255, 65534, 65535}"
  using assms puts_w.fits [of pos "ber_tlv tag (ber_bits_content n bits)" buf]
  by (auto simp: encodeBitString_writes BerEncoder_determineEncodedBitStringSize_def Let_def
      BerEncoder_determineLengthSize_def length_ber_len wire_simps split: if_splits)

theorem determineEncodedBitStringSize_exact_witness:
  "map_option snd (BerEncoder_encodeBitString 0x84 1016 (replicate 127 0) (replicate 133 0) 0)
     \<noteq> Some (0 + BerEncoder_determineEncodedBitStringSize 1016)"
  using determineEncodedBitStringSize_exact [of 1016 "replicate 127 0" 0 "replicate 133 0" "0x84"]
  by (simp add: bit_byte_size_def)

end
