(* ===== verification/BerDecoder.thy ===== *)
theory BerDecoder
  imports BerEncoder
begin

text \<open>
  The BER decoder, \<open>src/libiec61850/src/mms/asn1/ber_decode.c\<close>.  The length decoder returns
  \<open>LenErr\<close> where the C code returns \<open>-1\<close> and otherwise the new position and the value stored
  through the \<open>length\<close> pointer.  The search for the end of an indefinite-length element and the
  length decoder call each other; the recursion is bounded by \<open>maxDepth\<close>, and the loop of the
  search carries a fuel argument that starts with one more than the number of bytes left, which is
  enough because every round advances the position.  The length interface at the end says what
  the parsers built on the decoder rely on.
\<close>

datatype len_result = LenErr | LenOk nat nat

subsection \<open>Lengths\<close>

fun decode_length_octets :: "bytes \<Rightarrow> nat \<Rightarrow> nat \<Rightarrow> nat \<Rightarrow> nat \<Rightarrow> len_result option" where
  "decode_length_octets buffer maxBufPos 0 bufPos len = Some (LenOk bufPos len)"
| "decode_length_octets buffer maxBufPos (Suc k) bufPos len =
     (if maxBufPos \<le> bufPos then Some LenErr
      else do {
        end \<leftarrow> chk_int (bufPos + len);
        if maxBufPos < end then Some LenErr
        else do {
          len \<leftarrow> chk_int (len * 256);
          b \<leftarrow> rd buffer bufPos;
          decode_length_octets buffer maxBufPos k (bufPos + 1) (len + unat b) } })"

text \<open>\<open>None\<close> inside \<open>Some\<close> is the return value \<open>-1\<close> of \<open>getIndefiniteLength\<close>.\<close>

function getIndefiniteLength :: "bytes \<Rightarrow> nat \<Rightarrow> nat \<Rightarrow> nat \<Rightarrow> nat \<Rightarrow> nat option option"
  and indefinite_loop :: "nat \<Rightarrow> bytes \<Rightarrow> nat \<Rightarrow> nat \<Rightarrow> nat \<Rightarrow> nat \<Rightarrow> nat \<Rightarrow> nat option option"
  and BerDecoder_decodeLengthRecursive :: "bytes \<Rightarrow> nat \<Rightarrow> nat \<Rightarrow> nat \<Rightarrow> nat \<Rightarrow> len_result option" where
  "getIndefiniteLength buffer bufPos maxBufPos depth maxDepth =
     (if maxDepth < depth + 1 then Some None
      else indefinite_loop (maxBufPos + 1 - bufPos) buffer bufPos maxBufPos (depth + 1) maxDepth 0)"
| "indefinite_loop 0 buffer bufPos maxBufPos depth maxDepth len = None"
| "indefinite_loop (Suc fuel) buffer bufPos maxBufPos depth maxDepth len =
     (if bufPos < maxBufPos then do {
        b \<leftarrow> rd buffer bufPos;
        eoc \<leftarrow> (if b = 0 \<and> bufPos + 1 < maxBufPos
                then do { b1 \<leftarrow> rd buffer (bufPos + 1); Some (b1 = 0) } else Some False);
        if eoc then Some (Some (len + 2))
        else (let ext = (if b AND 0x1f = 0x1f then 1 else 0);
                  len = len + 1 + ext;
                  bufPos = bufPos + 1 + ext
              in do {
                r \<leftarrow> BerDecoder_decodeLengthRecursive buffer bufPos maxBufPos depth maxDepth;
                (case r of
                   LenErr \<Rightarrow> Some None
                 | LenOk newBufPos subLength \<Rightarrow>
                     indefinite_loop fuel buffer (newBufPos + subLength) maxBufPos depth maxDepth
                       (len + (subLength + newBufPos - bufPos))) }) }
      else Some None)"
| "BerDecoder_decodeLengthRecursive buffer bufPos maxBufPos depth maxDepth =
     (if maxBufPos \<le> bufPos then Some LenErr
      else do {
        len1 \<leftarrow> rd buffer bufPos;
        let bufPos = bufPos + 1;
        r \<leftarrow> (if len1 AND 0x80 \<noteq> 0 then
               (let lenLength = unat (len1 AND 0x7f)
                in if lenLength = 0 then do {
                     l \<leftarrow> getIndefiniteLength buffer bufPos maxBufPos depth maxDepth;
                     Some (case l of None \<Rightarrow> LenErr | Some l \<Rightarrow> LenOk bufPos l) }
                   else decode_length_octets buffer maxBufPos lenLength bufPos 0)
             else Some (LenOk bufPos (unat len1)));
        (case r of
           LenErr \<Rightarrow> Some LenErr
         | LenOk bufPos len \<Rightarrow> do {
             end \<leftarrow> chk_int (bufPos + len);
             Some (if maxBufPos < end then LenErr else LenOk bufPos len) }) })"
  by pat_completeness auto
termination
  by (relation "measures
        [\<lambda>x. case x of Inl (_, _, _, depth, maxDepth) \<Rightarrow> maxDepth - depth
                     | Inr (Inl (_, _, _, _, depth, maxDepth, _)) \<Rightarrow> maxDepth - depth
                     | Inr (Inr (_, _, _, depth, maxDepth)) \<Rightarrow> maxDepth - depth,
         \<lambda>x. case x of Inl _ \<Rightarrow> 0 | Inr (Inl (fuel, _)) \<Rightarrow> fuel + 2 | Inr (Inr _) \<Rightarrow> 1]") auto

definition BerDecoder_decodeLength :: "bytes \<Rightarrow> nat \<Rightarrow> nat \<Rightarrow> len_result option" where
  "BerDecoder_decodeLength buffer bufPos maxBufPos =
     BerDecoder_decodeLengthRecursive buffer bufPos maxBufPos 0 50"

subsection \<open>Primitive contents\<close>

fun decode_uint_loop :: "bytes \<Rightarrow> nat \<Rightarrow> nat \<Rightarrow> u32 \<Rightarrow> u32 option" where
  "decode_uint_loop buffer bufPos 0 value = Some value"
| "decode_uint_loop buffer bufPos (Suc k) value = do {
     b \<leftarrow> rd buffer bufPos;
     decode_uint_loop buffer (bufPos + 1) k (push_bit 8 value + ucast b) }"

definition BerDecoder_decodeUint32 :: "bytes \<Rightarrow> nat \<Rightarrow> nat \<Rightarrow> u32 option" where
  "BerDecoder_decodeUint32 buffer intLen bufPos = decode_uint_loop buffer bufPos intLen 0"

definition BerDecoder_decodeInt32 :: "bytes \<Rightarrow> nat \<Rightarrow> nat \<Rightarrow> u32 option" where
  "BerDecoder_decodeInt32 buffer intlen bufPos = do {
     b \<leftarrow> rd buffer bufPos;
     decode_uint_loop buffer bufPos intlen (if b AND 0x80 = 0x80 then - 1 else 0) }"

text \<open>The result is the memory of the number, lowest byte first.\<close>

definition BerDecoder_decodeFloat :: "bytes \<Rightarrow> nat \<Rightarrow> bytes option" where
  "BerDecoder_decodeFloat buffer bufPos = map_option rev (rdn buffer (bufPos + 1) 4)"

definition BerDecoder_decodeDouble :: "bytes \<Rightarrow> nat \<Rightarrow> bytes option" where
  "BerDecoder_decodeDouble buffer bufPos = map_option rev (rdn buffer (bufPos + 1) 8)"

definition BerDecoder_decodeBoolean :: "bytes \<Rightarrow> nat \<Rightarrow> bool option" where
  "BerDecoder_decodeBoolean buffer bufPos = map_option (\<lambda>b. b \<noteq> 0) (rd buffer bufPos)"

definition BerDecoder_decodeString :: "bytes \<Rightarrow> nat \<Rightarrow> nat \<Rightarrow> nat \<Rightarrow> bytes option option" where
  "BerDecoder_decodeString buffer strlen bufPos maxBufPos =
     (if maxBufPos < bufPos then Some None
      else do { s \<leftarrow> rdn buffer bufPos strlen; Some (Some (s @ [0])) })"

subsection \<open>Object identifiers\<close>

text \<open>
  The identifier is the list of its ten \<open>uint16_t\<close> arcs and the number of arcs in use.
\<close>

function oid_loop :: "bytes \<Rightarrow> nat \<Rightarrow> nat \<Rightarrow> nat \<Rightarrow> u16 list \<Rightarrow> nat \<Rightarrow> (u16 list \<times> nat) option" where
  "oid_loop buffer bufPos startPos len arc currentArc =
     (if bufPos - startPos < len \<and> currentArc < 10 then do {
        b \<leftarrow> rd buffer bufPos;
        let shifted = push_bit 7 (arc ! currentArc);
        if b < 0x80
        then oid_loop buffer (bufPos + 1) startPos len
               (arc[currentArc := shifted + ucast b]) (currentArc + 1)
        else oid_loop buffer (bufPos + 1) startPos len
               (arc[currentArc := shifted + ucast (b AND 0x7f)]) currentArc }
      else Some (arc, currentArc))"
  by pat_completeness auto
termination
  by (relation "measure (\<lambda>(_, bufPos, startPos, len, _). len + startPos - bufPos)") auto

definition BerDecoder_decodeOID :: "bytes \<Rightarrow> nat \<Rightarrow> nat \<Rightarrow> (u16 list \<times> nat) option" where
  "BerDecoder_decodeOID buffer bufPos len =
     (if 0 < len then do {
        b \<leftarrow> rd buffer bufPos;
        oid_loop buffer (bufPos + 1) bufPos len
          ((replicate 10 0)[0 := ucast (b div 40), 1 := ucast (b mod 40)]) 2 }
      else oid_loop buffer bufPos bufPos len (replicate 10 0) 0)"

subsection \<open>Progress and bounds of the length decoder\<close>

declare getIndefiniteLength.simps [simp del] BerDecoder_decodeLengthRecursive.simps [simp del]
  indefinite_loop.simps [simp del] oid_loop.simps [simp del]

lemma chk_int_SomeD: "chk_int n = Some m \<Longrightarrow> m = n \<and> n < 2 ^ 31"
  by (simp add: chk_int_def split: if_splits)

lemma decode_length_octets_pos:
  "decode_length_octets buf maxp k pos len = Some (LenOk p l) \<Longrightarrow> p = pos + k"
proof (induction buf maxp k pos len rule: decode_length_octets.induct)
  case (2 buf maxp k pos len)
  then show ?case by (auto split: if_splits bind_splits dest!: chk_int_SomeD)
qed simp

lemma decodeLengthRecursive_bounds:
  assumes "BerDecoder_decodeLengthRecursive buf pos maxp depth maxDepth = Some (LenOk p l)"
  shows "pos < p \<and> p + l \<le> maxp"
  using assms
  by (subst (asm) BerDecoder_decodeLengthRecursive.simps)
     (auto simp: Let_def split: if_splits bind_splits len_result.splits option.splits
       dest!: chk_int_SomeD dest: decode_length_octets_pos)

lemma decode_length_octets_total:
  assumes "maxp \<le> length buf" and "maxp < 2 ^ 22" and "k = 0 \<or> pos \<le> maxp" and "len < 2 ^ 22 * 256 + 256"
  shows "\<exists>r. decode_length_octets buf maxp k pos len = Some r \<and>
    (\<forall>p l. r = LenOk p l \<longrightarrow> l < 2 ^ 22 * 256 + 256)"
  using assms
proof (induction buf maxp k pos len rule: decode_length_octets.induct)
  case (2 buf maxp k pos len)
  show ?case
  proof (cases "maxp \<le> pos \<or> maxp < pos + len")
    case True
    with "2.prems" show ?thesis by auto
  next
    case False
    with "2.prems" have l: "pos + len < 2 ^ 22" and b: "rd buf pos = Some (buf ! pos)"
      by (auto simp: reader_simps)
    have "len * 256 + unat (buf ! pos) < 2 ^ 22 * 256 + 256"
      using l unat_u8_le [of "buf ! pos"] by simp
    with "2.prems" False l b show ?thesis
      using "2.IH" [of "pos + len" "len * 256" "buf ! pos"] by simp
  qed
qed auto

lemma decodeLength_total_step:
  assumes "maxp \<le> length buf" and "maxp < 2 ^ 22"
    and "\<And>pos. pos \<le> maxp \<Longrightarrow> \<exists>r. getIndefiniteLength buf pos maxp depth maxDepth = Some r
           \<and> (\<forall>l. r = Some l \<longrightarrow> l < 2 ^ 23)"
  shows "\<exists>r. BerDecoder_decodeLengthRecursive buf pos maxp depth maxDepth = Some r"
proof (cases "maxp \<le> pos")
  case False
  with assms(1) have b: "rd buf pos = Some (buf ! pos)" by (simp add: reader_simps)
  obtain r where r: "getIndefiniteLength buf (pos + 1) maxp depth maxDepth = Some r"
    and rl: "\<And>l. r = Some l \<Longrightarrow> l < 2 ^ 23"
    using assms(3) [of "pos + 1"] False by auto
  obtain q where q: "decode_length_octets buf maxp (unat (buf ! pos AND 0x7f)) (pos + 1) 0 = Some q"
    and ql: "\<And>p l. q = LenOk p l \<Longrightarrow> l < 2 ^ 22 * 256 + 256"
    using decode_length_octets_total [of maxp buf "unat (buf ! pos AND 0x7f)" "pos + 1" 0] assms False
    by auto
  have "q = LenOk p l \<Longrightarrow> p \<le> pos + 256" for p l
    using decode_length_octets_pos [of buf maxp "unat (buf ! pos AND 0x7f)" "pos + 1" 0 p l] q
      unat_u8_le [of "buf ! pos AND 0x7f"]
    by simp
  then have qb: "q = LenOk p l \<Longrightarrow> p + l < 2 ^ 31" for p l
    using ql [of p l] False assms(2) by fastforce
  have rb: "r = Some l \<Longrightarrow> pos + 1 + l < 2 ^ 31" for l
    using rl [of l] False assms(2) by fastforce
  have sb: "pos + 1 + unat (buf ! pos) < 2 ^ 31"
    using unat_u8_le [of "buf ! pos"] False assms(2) by simp
  consider "buf ! pos AND 0x80 = 0" | "buf ! pos AND 0x80 \<noteq> 0" "unat (buf ! pos AND 0x7f) = 0"
    | "buf ! pos AND 0x80 \<noteq> 0" "unat (buf ! pos AND 0x7f) \<noteq> 0" by blast
  then show ?thesis
  proof cases
    case 1
    with False b sb show ?thesis by (simp add: BerDecoder_decodeLengthRecursive.simps)
  next
    case 2
    with False b r rb show ?thesis
      by (cases r) (simp_all add: BerDecoder_decodeLengthRecursive.simps)
  next
    case 3
    with False b q qb show ?thesis
      by (cases q) (simp_all add: BerDecoder_decodeLengthRecursive.simps)
  qed
qed (simp add: BerDecoder_decodeLengthRecursive.simps)

lemma indefinite_loop_total:
  assumes "\<And>pos. \<exists>r. BerDecoder_decodeLengthRecursive buf pos maxp depth maxDepth = Some r"
    and "maxp \<le> length buf" and "maxp < pos + fuel" and "0 < fuel" and "len \<le> pos" and "pos \<le> maxp"
  shows "\<exists>r. indefinite_loop fuel buf pos maxp depth maxDepth len = Some r \<and> (\<forall>l. r = Some l \<longrightarrow> l \<le> maxp + 2)"
  using assms(3-6)
proof (induction fuel arbitrary: pos len)
  case (Suc fuel)
  show ?case
  proof (cases "pos < maxp")
    case True
    let ?ext = "if buf ! pos AND 0x1f = 0x1f then 1 else 0 :: nat"
    let ?eoc = "buf ! pos = 0 \<and> pos + 1 < maxp \<and> buf ! (pos + 1) = 0"
    have b: "rd buf pos = Some (buf ! pos)" "pos + 1 < maxp \<Longrightarrow> rd buf (pos + 1) = Some (buf ! (pos + 1))"
      using True assms(2) by (auto simp: reader_simps)
    obtain r where r: "BerDecoder_decodeLengthRecursive buf (pos + 1 + ?ext) maxp depth maxDepth = Some r"
      using assms(1) by blast
    have step: "indefinite_loop (Suc fuel) buf pos maxp depth maxDepth len =
      (if ?eoc then Some (Some (len + 2)) else
         (case r of LenErr \<Rightarrow> Some None
          | LenOk p l \<Rightarrow> indefinite_loop fuel buf (p + l) maxp depth maxDepth
               (len + 1 + ?ext + (l + p - (pos + 1 + ?ext)))))"
      using True r b by (cases r) (auto simp: indefinite_loop.simps Let_def)
    show ?thesis
    proof (cases "?eoc \<or> r = LenErr")
      case True
      with Suc.prems step show ?thesis by (auto split: if_splits)
    next
      case False
      then obtain p l where pl: "r = LenOk p l" by (cases r) auto
      with r have "pos + 1 + ?ext < p \<and> p + l \<le> maxp" by (auto dest: decodeLengthRecursive_bounds)
      with Suc.prems have "\<exists>r. indefinite_loop fuel buf (p + l) maxp depth maxDepth
            (len + 1 + ?ext + (l + p - (pos + 1 + ?ext))) = Some r \<and> (\<forall>l. r = Some l \<longrightarrow> l \<le> maxp + 2)"
        by (intro Suc.IH) auto
      with False pl step show ?thesis by auto
    qed
  next
    case False
    then show ?thesis by (simp add: indefinite_loop.simps)
  qed
qed simp

lemma decodeLengthRecursive_total:
  assumes "maxp \<le> length buf" and "maxp < 2 ^ 22"
  shows "\<exists>r. BerDecoder_decodeLengthRecursive buf pos maxp depth maxDepth = Some r"
proof (induction "maxDepth - depth" arbitrary: pos depth rule: less_induct)
  case less
  show ?case
  proof (rule decodeLength_total_step [OF assms])
    fix q assume q: "q \<le> maxp"
    show "\<exists>r. getIndefiniteLength buf q maxp depth maxDepth = Some r \<and> (\<forall>l. r = Some l \<longrightarrow> l < 2 ^ 23)"
    proof (cases "maxDepth < depth + 1")
      case False
      then have "\<exists>r. indefinite_loop (maxp + 1 - q) buf q maxp (depth + 1) maxDepth 0 = Some r
          \<and> (\<forall>l. r = Some l \<longrightarrow> l \<le> maxp + 2)"
        using q assms by (intro indefinite_loop_total less.hyps) auto
      with False assms(2) show ?thesis by (fastforce simp: getIndefiniteLength.simps)
    qed (simp add: getIndefiniteLength.simps)
  qed
qed

lemma decodeLength_bounds:
  "BerDecoder_decodeLength buf pos maxp = Some (LenOk p l) \<Longrightarrow> pos < p \<and> p + l \<le> maxp"
  by (simp add: BerDecoder_decodeLength_def decodeLengthRecursive_bounds)

lemma decodeLength_total:
  "maxp \<le> length buf \<Longrightarrow> maxp < 2 ^ 22 \<Longrightarrow> \<exists>r. BerDecoder_decodeLength buf pos maxp = Some r"
  by (simp add: BerDecoder_decodeLength_def decodeLengthRecursive_total)

subsection \<open>The length interface\<close>

text \<open>
  What the parsers of the library rely on: inside a buffer that holds all bytes up to \<open>maxBufPos\<close>
  the decoder answers, and an accepted length leaves the element inside the bound and behind the
  position the decoder started from.
\<close>

locale length_decoder =
  fixes dec :: "bytes \<Rightarrow> nat \<Rightarrow> nat \<Rightarrow> len_result option" and limit :: nat
  assumes dec_total: "maxp \<le> length buf \<Longrightarrow> maxp < limit \<Longrightarrow> dec buf pos maxp \<noteq> None"
    and dec_bounds: "dec buf pos maxp = Some (LenOk p l) \<Longrightarrow> pos < p \<and> p + l \<le> maxp"
begin

lemma advances: "dec buf pos maxp = Some (LenOk p l) \<Longrightarrow> pos < p + l"
  using dec_bounds by fastforce

lemma content_readable:
  "dec buf pos maxp = Some (LenOk p l) \<Longrightarrow> maxp \<le> length buf \<Longrightarrow> rdn buf p l = Some (take l (drop p buf))"
  using dec_bounds [of buf pos maxp p l] by (simp add: reader_simps)

lemma octet_readable:
  "dec buf pos maxp = Some (LenOk p l) \<Longrightarrow> maxp \<le> length buf \<Longrightarrow> i < l \<Longrightarrow> rd buf (p + i) = Some (buf ! (p + i))"
  using dec_bounds [of buf pos maxp p l] by (simp add: reader_simps)

lemma rejects_at_end: "maxp \<le> length buf \<Longrightarrow> maxp < limit \<Longrightarrow> maxp \<le> pos \<Longrightarrow> dec buf pos maxp = Some LenErr"
  using dec_total [of maxp buf pos] dec_bounds [of buf pos maxp]
  by (cases "dec buf pos maxp"; cases "the (dec buf pos maxp)") fastforce+

end

interpretation ber: length_decoder BerDecoder_decodeLength "2 ^ 22"
proof unfold_locales
  fix maxp pos and buf :: bytes
  show "maxp \<le> length buf \<Longrightarrow> maxp < 2 ^ 22 \<Longrightarrow> BerDecoder_decodeLength buf pos maxp \<noteq> None"
    using decodeLength_total by blast
qed (rule decodeLength_bounds)

subsection \<open>Encoded lengths are decoded\<close>

lemma decodeLength_short:
  assumes "drop pos buf = b # r" and "unat b < 128" and "pos + 1 + unat b \<le> maxp" and "maxp < 2 ^ 31"
  shows "BerDecoder_decodeLength buf pos maxp = Some (LenOk (pos + 1) (unat b))"
proof -
  have "rd buf pos = Some b"
    using assms(1) rd_drop [of pos buf 0] by (simp add: rd_def)
  moreover have "b AND 0x80 = 0" using assms(2) and_0x80_iff(1) [of b] bit7_iff [of b] by auto
  ultimately show ?thesis using assms
    by (simp add: BerDecoder_decodeLength_def BerDecoder_decodeLengthRecursive.simps)
qed

lemma decode_length_octets_be:
  assumes "drop pos buf = xs @ r" and "pos + length xs + be_nat (ys @ xs) \<le> maxp" and "maxp < 2 ^ 31"
  shows "decode_length_octets buf maxp (length xs) pos (be_nat ys) = Some (LenOk (pos + length xs) (be_nat (ys @ xs)))"
  using assms
proof (induction xs arbitrary: pos ys)
  case (Cons x xs)
  have rdx: "rd buf pos = Some x" using Cons.prems(1) rd_drop [of pos buf 0] by (simp add: rd_def)
  have dr: "drop (pos + 1) buf = xs @ r" using Cons.prems(1) by (metis append_Cons drop_drop drop0 drop_Suc_Cons plus_1_eq_Suc)
  have eq: "be_nat (ys @ [x]) = be_nat ys * 256 + unat x" by simp
  have "be_nat ys * 256 \<le> be_nat (ys @ x # xs)"
    by (simp add: be_nat_append trans_le_add1)
  with Cons.prems have small: "pos + be_nat ys \<le> maxp" "be_nat ys * 256 < 2 ^ 31" by auto
  have "decode_length_octets buf maxp (length xs) (pos + 1) (be_nat (ys @ [x]))
      = Some (LenOk (pos + 1 + length xs) (be_nat ((ys @ [x]) @ xs)))"
    using Cons.prems dr by (intro Cons.IH) auto
  with rdx small Cons.prems show ?case by simp
qed simp

lemma decodeLength_long:
  assumes "drop pos buf = b # xs @ r" and "unat b = 128 + length xs" and "xs \<noteq> []" and "length xs < 128"
    and "pos + 1 + length xs + be_nat xs \<le> maxp" and "maxp < 2 ^ 31"
  shows "BerDecoder_decodeLength buf pos maxp = Some (LenOk (pos + 1 + length xs) (be_nat xs))"
proof -
  have rdb: "rd buf pos = Some b" using assms(1) rd_drop [of pos buf 0] by (simp add: rd_def)
  have dr: "drop (pos + 1) buf = xs @ r"
    using assms(1) by (metis drop_drop drop0 drop_Suc_Cons plus_1_eq_Suc)
  have "b AND 0x80 \<noteq> 0" using assms(2) and_0x80_iff(1) [of b] bit7_iff [of b] by auto
  moreover have "unat (b AND 0x7f) = length xs" using assms(2,4) by (simp add: unat_and_0x7f)
  moreover have "decode_length_octets buf maxp (length xs) (pos + 1) 0
      = Some (LenOk (pos + 1 + length xs) (be_nat xs))"
    using decode_length_octets_be [of "pos + 1" buf xs r "[]" maxp] assms dr by simp
  ultimately show ?thesis using rdb assms
    by (simp add: BerDecoder_decodeLength_def BerDecoder_decodeLengthRecursive.simps)
qed

lemma decodeLength_ber_len:
  assumes "drop pos buf = ber_len n @ r" and "n < 2 ^ 24"
    and "pos + length (ber_len n) + n \<le> maxp" and "maxp < 2 ^ 31"
  shows "BerDecoder_decodeLength buf pos maxp = Some (LenOk (pos + length (ber_len n)) n)"
proof -
  consider "n < 128" | "\<not> n < 128" "n < 256" | "\<not> n < 256" "n < 65535" | "\<not> n < 65535" by linarith
  then show ?thesis
  proof cases
    case 1
    with assms decodeLength_short [of pos buf "word_of_nat n" r maxp] show ?thesis
      by (simp add: ber_len_def)
  next
    case 2
    with assms decodeLength_long [of pos buf "0x81" "[word_of_nat n]" r maxp] show ?thesis
      by (simp add: ber_len_def be_nat_def)
  next
    case 3
    then have "n div 256 mod 256 * 256 + n mod 256 = n" by (simp add: div_less_iff_less_mult)
    with 3 assms decodeLength_long [of pos buf "0x82" "[word_of_nat (n div 256), word_of_nat (n mod 256)]" r maxp]
    show ?thesis by (simp add: ber_len_def be_nat_def)
  next
    case 4
    have "n mod 256 = n mod 65536 mod 256" by (simp add: mod_mod_cancel)
    then have "n mod 65536 div 256 * 256 + n mod 256 = n mod 65536"
      by (metis div_mult_mod_eq)
    with assms(2) have "(n div 65536 mod 256 * 256 + n mod 65536 div 256 mod 256) * 256 + n mod 256 = n"
      by (simp add: add.assoc)
    with 4 assms decodeLength_long [of pos buf "0x83"
        "[word_of_nat (n div 65536), word_of_nat (n mod 65536 div 256), word_of_nat (n mod 256)]" r maxp]
    show ?thesis by (simp add: ber_len_def be_nat_def)
  qed
qed

text \<open>
  Every length below \<open>2\<^sup>2\<^sup>4\<close> that the encoder writes is read back by the decoder, at the
  position behind the field, as long as the element it announces ends inside the bound.
\<close>

theorem length_roundtrip:
  assumes "n < 2 ^ 24" and "BerEncoder_encodeLength n buf pos = Some (buf', pos')"
    and "pos' + n \<le> maxBufPos" and "maxBufPos < 2 ^ 31"
  shows "BerDecoder_decodeLength buf' pos maxBufPos = Some (LenOk pos' n)"
proof -
  have "length (ber_len n) \<noteq> 0" by (simp add: length_ber_len)
  then have b: "pos + length (ber_len n) \<le> length buf" "buf' = overlay buf pos (ber_len n)"
      "pos' = pos + length (ber_len n)"
    using assms(2) by (auto simp: encodeLength_writes puts_eq split: if_splits)
  then have "drop pos buf' = ber_len n @ drop pos' buf" by (simp add: drop_overlay)
  with assms b show ?thesis using decodeLength_ber_len [of pos buf' n] by simp
qed

theorem length_roundtrip_witness:
  "BerDecoder_decodeLength [0x82, 0x01, 0x2c, 0] 0 303 = Some (LenOk 3 300)"
proof -
  have "BerEncoder_encodeLength 300 [0, 0, 0, 0] 0 = Some ([0x82, 0x01, 0x2c, 0], 3)"
    by (simp add: BerEncoder_encodeLength_def put_def)
  from length_roundtrip [OF _ this] show ?thesis by simp
qed

subsection \<open>Encoded integers are decoded\<close>

lemma four_octets:
  fixes x :: nat
  assumes "x < 2 ^ 32"
  shows "((x div 16777216 mod 256 * 256 + x div 65536 mod 256) * 256 + x div 256 mod 256) * 256 + x mod 256 = x"
proof -
  have d: "x div 65536 = x div 256 div 256" "x div 16777216 = x div 256 div 256 div 256"
    using div_mult2_eq [of x 256 256] div_mult2_eq [of x 65536 256] by simp_all
  have "x div 16777216 mod 256 = x div 16777216"
    using assms by (intro mod_less) (simp add: div_less_iff_less_mult)
  then have m: "x div 256 div 256 div 256 mod 256 = x div 256 div 256 div 256" unfolding d .
  show ?thesis unfolding d m div_mult_mod_eq ..
qed

lemma be_nat_mem32: "be_nat (rev (mem32 v)) = unat v"
proof -
  have "unat v < 2 ^ 32" using unsigned_less [of v, where 'a = nat] by simp
  then show ?thesis
    using four_octets [of "unat v"]
    by (simp add: mem32_def be_nat_def unsigned_ucast_eq unsigned_drop_bit_eq take_bit_eq_mod drop_bit_eq_div unat_div)
qed

lemma be_nat_ber_u32 [wire_simps]: "be_nat (ber_u32 v) = unat v"
  by (simp add: ber_u32_def be_nat_compressed_0 be_nat_Cons be_nat_mem32)

lemma fold_octets_word:
  "foldl (\<lambda>a b. push_bit 8 a + ucast b) (of_int i :: 'a :: len word) xs = of_int (i * 256 ^ length xs + int (be_nat xs))"
proof (induction xs rule: rev_induct)
  case (snoc x xs)
  show ?case
    unfolding foldl_append snoc by (simp add: push_bit_eq_mult algebra_simps)
qed simp

lemma decode_uint_loop_eq:
  "drop pos buf = xs @ r \<Longrightarrow>
     decode_uint_loop buf pos (length xs) v = Some (foldl (\<lambda>a b. push_bit 8 a + ucast b) v xs)"
proof (induction xs arbitrary: pos v)
  case (Cons x xs)
  have "rd buf pos = Some x" using Cons.prems rd_drop [of pos buf 0] by (simp add: rd_def)
  moreover have "drop (pos + 1) buf = xs @ r"
    using Cons.prems by (metis append_Cons drop_drop drop0 drop_Suc_Cons plus_1_eq_Suc)
  ultimately show ?case by (simp add: Cons.IH)
qed simp

lemma decodeUint32_be:
  "drop pos buf = xs @ r \<Longrightarrow> BerDecoder_decodeUint32 buf (length xs) pos = Some (word_of_nat (be_nat xs))"
  using fold_octets_word [of 0 xs, where 'a = 32] by (simp add: BerDecoder_decodeUint32_def decode_uint_loop_eq)

lemma decodeUint32_total: "pos + n \<le> length buf \<Longrightarrow> \<exists>v. BerDecoder_decodeUint32 buf n pos = Some v"
  using decode_uint_loop_eq [OF append_take_drop_id [symmetric], of buf pos n 0]
  by (simp add: BerDecoder_decodeUint32_def)

lemma decodeInt32_be:
  assumes "drop pos buf = xs @ r" and "xs \<noteq> []"
  shows "BerDecoder_decodeInt32 buf (length xs) pos = Some (word_of_int (be_int xs))"
proof -
  obtain x ys where x: "xs = x # ys" using assms(2) by (cases xs) auto
  have rdx: "rd buf pos = Some x" using assms(1) x rd_drop [of pos buf 0] by (simp add: rd_def)
  show ?thesis
    using fold_octets_word [of 0 xs, where 'a = 32] fold_octets_word [of "- 1" xs, where 'a = 32] x rdx decode_uint_loop_eq [OF assms(1)]
    by (simp add: BerDecoder_decodeInt32_def be_int_def and_0x80_iff)
qed

lemma word_of_int_be_mem32: "word_of_int (be_int (rev (mem32 v))) = v"
proof -
  have "int (be_nat (rev (mem32 v))) = uint v" by (simp add: be_nat_mem32)
  moreover have "256 ^ length (rev (mem32 v)) = (2 ^ 32 :: int)" by (simp add: mem32_def)
  moreover have "word_of_int (uint v - 2 ^ 32) = v"
    by simp
  ultimately show ?thesis by (simp add: be_int_def)
qed

lemma puts_nonempty_drop:
  assumes "puts xs buf pos = Some (buf', pos')" and "xs \<noteq> []"
  shows "drop pos buf' = xs @ drop pos' buf \<and> pos' = pos + length xs"
  using assms by (auto simp: puts_eq drop_overlay split: if_splits)

lemma ber_i32_nonempty: "ber_i32 v \<noteq> []"
  by (simp add: ber_i32_def mem32_def)

lemma ber_u32_nonempty: "ber_u32 v \<noteq> []"
  by (simp add: ber_u32_def)

text \<open>
  \<open>BerDecoder_decodeUint32\<close> reads back every value \<open>BerEncoder_encodeUInt32\<close> writes, and
  \<open>BerDecoder_decodeInt32\<close> every (signed) value \<open>BerEncoder_encodeInt32\<close> writes, over the full
  32-bit range, although the encoders drop redundant leading octets.
\<close>

theorem integer_roundtrip:
  "(BerEncoder_encodeUInt32 v buf pos = Some (buf1, pos1) \<longrightarrow>
      BerDecoder_decodeUint32 buf1 (pos1 - pos) pos = Some v) \<and>
   (BerEncoder_encodeInt32 w buf pos = Some (buf2, pos2) \<longrightarrow>
      BerDecoder_decodeInt32 buf2 (pos2 - pos) pos = Some w)"
proof (intro conjI impI)
  assume "BerEncoder_encodeUInt32 v buf pos = Some (buf1, pos1)"
  with puts_nonempty_drop [of "ber_u32 v" buf pos buf1 pos1] ber_u32_nonempty
  show "BerDecoder_decodeUint32 buf1 (pos1 - pos) pos = Some v"
    by (auto simp: encodeUInt32_writes wire_simps dest: decodeUint32_be)
next
  assume "BerEncoder_encodeInt32 w buf pos = Some (buf2, pos2)"
  with puts_nonempty_drop [of "ber_i32 w" buf pos buf2 pos2] ber_i32_nonempty
  show "BerDecoder_decodeInt32 buf2 (pos2 - pos) pos = Some w"
    by (auto simp: encodeInt32_writes ber_i32_def be_int_compressed word_of_int_be_mem32
        dest: decodeInt32_be)
qed

theorem integer_roundtrip_witness:
  "BerDecoder_decodeUint32 [0, 0xff, 0xff, 0xff, 0xff] 5 0 = Some 0xffffffff \<and>
   BerDecoder_decodeInt32 [0xff, 0, 0, 0, 0] 1 0 = Some (- 1)"
proof -
  have u: "BerEncoder_encodeUInt32 0xffffffff [0, 0, 0, 0, 0] 0 = Some ([0, 0xff, 0xff, 0xff, 0xff], 5)"
    by code_simp
  have i: "BerEncoder_encodeInt32 (- 1) [0, 0, 0, 0, 0] 0 = Some ([0xff, 0, 0, 0, 0], 1)"
    by code_simp
  show ?thesis
    using integer_roundtrip [where buf = "[0, 0, 0, 0, 0]" and pos = 0 and v = "0xffffffff" and w = "- 1"] u i
    by simp
qed

text \<open>
  On a buffer that really holds \<open>maxBufPos\<close> bytes the length decoder never reads outside it,
  never overflows and always returns, also for indefinite lengths nested in one another; and a
  length it accepts keeps the element inside \<open>maxBufPos\<close> and behind the length field.
\<close>

theorem decodeLength_safe:
  assumes "maxBufPos \<le> length buffer" and "maxBufPos < 2 ^ 22"
  shows "\<exists>r. BerDecoder_decodeLength buffer bufPos maxBufPos = Some r \<and>
    (\<forall>p l. r = LenOk p l \<longrightarrow> bufPos < p \<and> p + l \<le> maxBufPos)"
  using ber.dec_total [OF assms, of bufPos] ber.dec_bounds by auto

theorem decodeLength_safe_witness:
  "\<exists>r. BerDecoder_decodeLength [0x80, 0x83, 0x80, 0, 0, 0, 0] 0 7 = Some r \<and>
    (\<forall>p l. r = LenOk p l \<longrightarrow> 0 < p \<and> p + l \<le> 7)"
  using decodeLength_safe [of 7 "[0x80, 0x83, 0x80, 0, 0, 0, 0]" 0] by simp

end
