(* ===== verification/BerInteger.thy ===== *)
theory BerInteger
  imports BerDecoder
begin

text \<open>
  The integer object of the MMS values: \<open>asn1_ber_primitive_value.c\<close> and \<open>ber_integer.c\<close> under
  \<open>src/libiec61850/src/mms/asn1\<close>.  The record keeps the octets of the allocated block
  (\<open>maxSize\<close> of them) and the number of octets in use; both are \<open>uint8_t\<close> in C, and the values the library
  creates have at most nine octets, so that no operation comes near the limit.  The well-formedness invariant is kept by
  every operation, and an integer reads back as the number it was set from.
\<close>

record Asn1PrimitiveValue =
  asn1_size :: nat
  asn1_maxSize :: nat
  asn1_octets :: bytes

definition asn1_wf :: "Asn1PrimitiveValue \<Rightarrow> bool" where
  "asn1_wf v \<longleftrightarrow> asn1_size v \<le> asn1_maxSize v \<and> length (asn1_octets v) = asn1_maxSize v"

subsection \<open>The primitive value\<close>

definition Asn1PrimitiveValue_create :: "nat \<Rightarrow> Asn1PrimitiveValue" where
  "Asn1PrimitiveValue_create n = \<lparr>asn1_size = 1, asn1_maxSize = n, asn1_octets = replicate n 0\<rparr>"

definition Asn1PrimitiveValue_clone :: "Asn1PrimitiveValue \<Rightarrow> Asn1PrimitiveValue option" where
  "Asn1PrimitiveValue_clone self = do {
     octets \<leftarrow> rdn (asn1_octets self) 0 (asn1_maxSize self);
     Some \<lparr>asn1_size = asn1_size self, asn1_maxSize = asn1_maxSize self, asn1_octets = octets\<rparr> }"

definition Asn1PrimitivaValue_compare :: "Asn1PrimitiveValue \<Rightarrow> Asn1PrimitiveValue \<Rightarrow> bool option" where
  "Asn1PrimitivaValue_compare self otherValue =
     (if asn1_size self = asn1_size otherValue then do {
        a \<leftarrow> rdn (asn1_octets self) 0 (asn1_size self);
        b \<leftarrow> rdn (asn1_octets otherValue) 0 (asn1_size self);
        Some (a = b) }
      else Some False)"

text \<open>\<open>memcpy(self->octets, src, n)\<close>; a copy beyond the block is a fault.\<close>

definition asn1_store :: "Asn1PrimitiveValue \<Rightarrow> bytes \<Rightarrow> Asn1PrimitiveValue option" where
  "asn1_store self src =
     (if length src \<le> length (asn1_octets self)
      then Some (self\<lparr>asn1_size := length src, asn1_octets := overlay (asn1_octets self) 0 src\<rparr>)
      else None)"

definition BerEncoder_encodeAsn1PrimitiveValue :: "u8 \<Rightarrow> Asn1PrimitiveValue \<Rightarrow> writer" where
  "BerEncoder_encodeAsn1PrimitiveValue tag value buffer bufPos = do {
     (buffer, bufPos) \<leftarrow> put tag buffer bufPos;
     (buffer, bufPos) \<leftarrow> BerEncoder_encodeLength (asn1_size value) buffer bufPos;
     octets \<leftarrow> rdn (asn1_octets value) 0 (asn1_size value);
     puts octets buffer bufPos }"

subsection \<open>Integers\<close>

text \<open>The result pairs the return value with the object after the call.\<close>

definition setIntegerValue :: "Asn1PrimitiveValue \<Rightarrow> bytes \<Rightarrow> nat \<Rightarrow> (bool \<times> Asn1PrimitiveValue) option" where
  "setIntegerValue self valueBuffer bufferSize =
     (let valueBuffer = BerEncoder_revertByteOrder valueBuffer bufferSize;
          (valueBuffer, n) = BerEncoder_compressInteger valueBuffer bufferSize
      in if n \<le> asn1_maxSize self
         then do { src \<leftarrow> rdn valueBuffer 0 n; self \<leftarrow> asn1_store self src; Some (True, self) }
         else Some (False, self))"

definition BerInteger_createInt32 :: "Asn1PrimitiveValue" where
  "BerInteger_createInt32 = Asn1PrimitiveValue_create 5"

definition BerInteger_createInt64 :: "Asn1PrimitiveValue" where
  "BerInteger_createInt64 = Asn1PrimitiveValue_create 9"

definition BerInteger_createFromBuffer :: "bytes \<Rightarrow> nat \<Rightarrow> Asn1PrimitiveValue option" where
  "BerInteger_createFromBuffer buf n =
     (let maxSize = (if 8 < n then n else 8)
      in do { src \<leftarrow> rdn buf 0 n; asn1_store (Asn1PrimitiveValue_create maxSize) src })"

definition BerInteger_setFromBerInteger ::
    "Asn1PrimitiveValue \<Rightarrow> Asn1PrimitiveValue \<Rightarrow> (bool \<times> Asn1PrimitiveValue) option" where
  "BerInteger_setFromBerInteger self value =
     (if asn1_size value \<le> asn1_maxSize self then do {
        src \<leftarrow> rdn (asn1_octets value) 0 (asn1_size value);
        self \<leftarrow> asn1_store self src;
        Some (True, self) }
      else Some (False, self))"

definition BerInteger_setInt32 :: "Asn1PrimitiveValue \<Rightarrow> u32 \<Rightarrow> (bool \<times> Asn1PrimitiveValue) option" where
  "BerInteger_setInt32 self value = setIntegerValue self (mem32 value) 4"

definition BerInteger_createFromInt32 :: "u32 \<Rightarrow> Asn1PrimitiveValue option" where
  "BerInteger_createFromInt32 value = map_option snd (BerInteger_setInt32 BerInteger_createInt32 value)"

definition mem16 :: "u16 \<Rightarrow> bytes" where
  "mem16 v = [ucast v, ucast (drop_bit 8 v)]"

definition BerInteger_setUint16 :: "Asn1PrimitiveValue \<Rightarrow> u16 \<Rightarrow> (bool \<times> Asn1PrimitiveValue) option" where
  "BerInteger_setUint16 self value = setIntegerValue self (mem16 value @ [0]) 3"

definition BerInteger_setUint8 :: "Asn1PrimitiveValue \<Rightarrow> u8 \<Rightarrow> (bool \<times> Asn1PrimitiveValue) option" where
  "BerInteger_setUint8 self value = setIntegerValue self [value] 1"

definition BerInteger_setUint32 :: "Asn1PrimitiveValue \<Rightarrow> u32 \<Rightarrow> (bool \<times> Asn1PrimitiveValue) option" where
  "BerInteger_setUint32 self value = setIntegerValue self (mem32 value @ [0]) 5"

definition BerInteger_createFromUint32 :: "u32 \<Rightarrow> Asn1PrimitiveValue option" where
  "BerInteger_createFromUint32 value = map_option snd (BerInteger_setUint32 BerInteger_createInt32 value)"

definition mem64 :: "u64 \<Rightarrow> bytes" where
  "mem64 v = mem32 (ucast v) @ mem32 (ucast (drop_bit 32 v))"

definition BerInteger_setInt64 :: "Asn1PrimitiveValue \<Rightarrow> u64 \<Rightarrow> (bool \<times> Asn1PrimitiveValue) option" where
  "BerInteger_setInt64 self value = setIntegerValue self (mem64 value) 8"

definition BerInteger_createFromInt64 :: "u64 \<Rightarrow> Asn1PrimitiveValue option" where
  "BerInteger_createFromInt64 value = map_option snd (BerInteger_setInt64 BerInteger_createInt64 value)"

text \<open>
  The conversions read the first octet for the sign whatever the size is, and shift the octets
  in use into the native value.
\<close>

definition BerInteger_toInt32 :: "Asn1PrimitiveValue \<Rightarrow> u32 option" where
  "BerInteger_toInt32 self = do {
     b \<leftarrow> rd (asn1_octets self) 0;
     octets \<leftarrow> rdn (asn1_octets self) 0 (asn1_size self);
     Some (foldl (\<lambda>v x. push_bit 8 v OR ucast x) (if b AND 0x80 \<noteq> 0 then 0xffffffff else 0) octets) }"

definition BerInteger_toUint32 :: "Asn1PrimitiveValue \<Rightarrow> u32 option" where
  "BerInteger_toUint32 self = do {
     octets \<leftarrow> rdn (asn1_octets self) 0 (asn1_size self);
     Some (foldl (\<lambda>v x. push_bit 8 v OR ucast x) 0 octets) }"

definition BerInteger_toInt64 :: "Asn1PrimitiveValue \<Rightarrow> u64 option" where
  "BerInteger_toInt64 self = do {
     b \<leftarrow> rd (asn1_octets self) 0;
     octets \<leftarrow> rdn (asn1_octets self) 0 (asn1_size self);
     Some (foldl (\<lambda>v x. push_bit 8 v OR ucast x)
       (if b AND 0x80 \<noteq> 0 then 0xffffffffffffffff else 0) octets) }"

subsection \<open>Octets in use\<close>

definition asn1_used :: "Asn1PrimitiveValue \<Rightarrow> bytes" where
  "asn1_used v = take (asn1_size v) (asn1_octets v)"

lemma asn1_used_read: "asn1_wf v \<Longrightarrow> rdn (asn1_octets v) 0 (asn1_size v) = Some (asn1_used v)"
  by (simp add: asn1_wf_def asn1_used_def reader_simps)

lemma length_asn1_used [simp]: "asn1_wf v \<Longrightarrow> length (asn1_used v) = asn1_size v"
  by (simp add: asn1_wf_def asn1_used_def)

lemma asn1_store_ok:
  assumes "asn1_wf v" and "length src \<le> asn1_maxSize v"
  shows "\<exists>v'. asn1_store v src = Some v' \<and> asn1_wf v' \<and> asn1_used v' = src
    \<and> asn1_size v' = length src \<and> asn1_maxSize v' = asn1_maxSize v"
  using assms by (auto simp: asn1_store_def asn1_wf_def asn1_used_def overlay_def)

lemma asn1_wf_create [simp]: "0 < n \<Longrightarrow> asn1_wf (Asn1PrimitiveValue_create n)"
  by (simp add: Asn1PrimitiveValue_create_def asn1_wf_def)

lemma asn1_maxSize_create [simp]: "asn1_maxSize (Asn1PrimitiveValue_create n) = n"
  by (simp add: Asn1PrimitiveValue_create_def)

lemma asn1_wf_createInt [simp]:
  "asn1_wf BerInteger_createInt32" "asn1_wf BerInteger_createInt64"
  "asn1_maxSize BerInteger_createInt32 = 5" "asn1_maxSize BerInteger_createInt64 = 9"
  by (simp_all add: BerInteger_createInt32_def BerInteger_createInt64_def)

lemma compare_wf:
  "asn1_wf a \<Longrightarrow> asn1_wf b \<Longrightarrow> Asn1PrimitivaValue_compare a b = Some (asn1_used a = asn1_used b)"
  by (auto simp: Asn1PrimitivaValue_compare_def asn1_used_read asn1_used_def asn1_wf_def reader_simps
      dest: arg_cong [where f = length])

lemma encodeAsn1PrimitiveValue_writes:
  "asn1_wf v \<Longrightarrow> BerEncoder_encodeAsn1PrimitiveValue tag v = puts (ber_tlv tag (asn1_used v))"
  by (intro ext)
     (simp add: BerEncoder_encodeAsn1PrimitiveValue_def ber_tlv_def asn1_used_read writer_simps)

lemma setIntegerValue_eq:
  assumes "asn1_wf self" and "length mem = n"
  shows "\<exists>self'. setIntegerValue self mem n = Some (length (compressed (rev mem)) \<le> asn1_maxSize self, self')
    \<and> asn1_wf self' \<and> asn1_maxSize self' = asn1_maxSize self
    \<and> asn1_used self' = (if length (compressed (rev mem)) \<le> asn1_maxSize self
                         then compressed (rev mem) else asn1_used self)"
proof -
  let ?c = "compressed (rev mem)" and ?p = "BerEncoder_compressInteger (rev mem) n"
  have n: "n = length (rev mem)" using assms(2) by simp
  have rv: "BerEncoder_revertByteOrder mem n = rev mem" using assms(2) by (simp add: revertByteOrder_eq)
  have sz: "snd ?p = length ?c" by (rule compressInteger_size [OF n])
  have oc: "take (length ?c) (fst ?p) = ?c" by (rule compressInteger_octets [OF n])
  then have "length ?c \<le> length (fst ?p)" by (metis nat_le_linear take_all length_take min.cobounded1)
  with oc have "rdn (fst ?p) 0 (length ?c) = Some ?c" by (simp add: reader_simps)
  with sz rv have eq: "setIntegerValue self mem n =
     (if length ?c \<le> asn1_maxSize self then do { s \<leftarrow> asn1_store self ?c; Some (True, s) } else Some (False, self))"
    by (simp add: setIntegerValue_def case_prod_beta)
  show ?thesis
  proof (cases "length ?c \<le> asn1_maxSize self")
    case True
    with asn1_store_ok [OF assms(1) True] eq show ?thesis by auto
  qed (use eq assms(1) in auto)
qed

subsection \<open>Values\<close>

lemma shift_or_eq_add: "push_bit 8 (v :: 'a :: len word) OR ucast (x :: u8) = push_bit 8 v + ucast x"
proof (rule disjunctive_add [symmetric])
  fix i
  show "\<not> bit (push_bit 8 v) i \<or> \<not> bit (ucast x :: 'a word) i"
    using bit_imp_le_length [of x i] by (auto simp: bit_push_bit_iff bit_ucast_iff)
qed

lemma fold_shift_or: "foldl (\<lambda>v x. push_bit 8 v OR ucast (x :: u8)) (of_int i :: 'a :: len word) xs
    = of_int (i * 256 ^ length xs + int (be_nat xs))"
  unfolding shift_or_eq_add by (rule fold_octets_word)

lemma toInt_value:
  assumes "asn1_wf v" and "0 < asn1_size v"
  shows "BerInteger_toInt32 v = Some (word_of_int (be_int (asn1_used v)))"
    and "BerInteger_toInt64 v = Some (word_of_int (be_int (asn1_used v)))"
    and "BerInteger_toUint32 v = Some (word_of_nat (be_nat (asn1_used v)))"
proof -
  obtain x xs where x: "asn1_used v = x # xs"
    using assms by (metis length_asn1_used list.exhaust list.size(3) not_gr_zero)
  then have "rd (asn1_octets v) 0 = Some x"
    using assms by (cases "asn1_octets v"; cases "asn1_size v") (auto simp: asn1_used_def asn1_wf_def rd_def)
  moreover have ones: "(0xffffffff :: u32) = - 1" "(0xffffffffffffffff :: u64) = - 1" by simp_all
  ultimately show "BerInteger_toInt32 v = Some (word_of_int (be_int (asn1_used v)))"
    and "BerInteger_toInt64 v = Some (word_of_int (be_int (asn1_used v)))"
    and "BerInteger_toUint32 v = Some (word_of_nat (be_nat (asn1_used v)))"
    using asn1_used_read [OF assms(1)] x
      fold_shift_or [of "- 1" "asn1_used v", where 'a = 32] fold_shift_or [of 0 "asn1_used v", where 'a = 32]
      fold_shift_or [of "- 1" "asn1_used v", where 'a = 64] fold_shift_or [of 0 "asn1_used v", where 'a = 64]
    unfolding BerInteger_toInt32_def BerInteger_toInt64_def BerInteger_toUint32_def ones
    by (simp_all add: be_int_def and_0x80_iff)
qed

lemma length_mem [simp]: "length (mem16 a) = 2" "length (mem32 b) = 4" "length (mem64 c) = 8"
  by (simp_all add: mem16_def mem32_def mem64_def)

lemma length_compressed: "xs \<noteq> [] \<Longrightarrow> 0 < length (compressed xs) \<and> length (compressed xs) \<le> length xs"
  using compress_scan_less [of xs] by (simp add: compressed_def)

lemma setIntegerValue_fits:
  assumes "asn1_wf self" and "length mem = n" and "0 < n" and "n \<le> asn1_maxSize self"
  shows "\<exists>a. setIntegerValue self mem n = Some (True, a) \<and> asn1_wf a \<and> 0 < asn1_size a
    \<and> asn1_maxSize a = asn1_maxSize self \<and> asn1_used a = compressed (rev mem)"
proof -
  from assms have "rev mem \<noteq> []" by auto
  from length_compressed [OF this] assms have c: "0 < length (compressed (rev mem))"
    "length (compressed (rev mem)) \<le> asn1_maxSize self" by auto
  from setIntegerValue_eq [OF assms(1,2)] c(2) obtain a where
    "setIntegerValue self mem n = Some (True, a)" "asn1_wf a" "asn1_maxSize a = asn1_maxSize self"
    "asn1_used a = compressed (rev mem)" by auto
  with c(1) length_asn1_used [of a] show ?thesis by (metis length_greater_0_conv)
qed

lemma be_nat_mem64: "be_nat (rev (mem64 v)) = unat v"
proof -
  have "unat v < 2 ^ 64" using unsigned_less [of v, where 'a = nat] by simp
  then have "unat v div 4294967296 mod 4294967296 = unat v div 4294967296"
    by (intro mod_less) (simp add: div_less_iff_less_mult)
  moreover have "unat (ucast (drop_bit 32 v) :: u32) = unat v div 4294967296 mod 4294967296"
    "unat (ucast v :: u32) = unat v mod 4294967296"
    by (simp_all add: unsigned_ucast_eq unsigned_drop_bit_eq take_bit_eq_mod drop_bit_eq_div unat_div)
  ultimately show ?thesis by (simp add: mem64_def be_nat_append be_nat_mem32)
qed

lemma word_of_int_be_mem64: "word_of_int (be_int (rev (mem64 v))) = v"
proof -
  have "int (be_nat (rev (mem64 v))) = uint v" by (simp add: be_nat_mem64)
  moreover have "256 ^ length (rev (mem64 v)) = (2 ^ 64 :: int)" by simp
  moreover have "word_of_int (uint v - 2 ^ 64) = v" by simp
  ultimately show ?thesis by (simp add: be_int_def)
qed

text \<open>
  An integer object created from a native integer holds it: the \<open>int32_t\<close>, \<open>uint32_t\<close> and
  \<open>int64_t\<close> constructors always succeed, the object is well formed, and the matching conversion
  returns the value that was stored, over the full range of the type.
\<close>

theorem ber_integer_values:
  "\<exists>a b c. BerInteger_createFromInt32 v = Some a \<and> asn1_wf a \<and> BerInteger_toInt32 a = Some v \<and>
           BerInteger_createFromUint32 v = Some b \<and> asn1_wf b \<and> BerInteger_toUint32 b = Some v \<and>
           BerInteger_createFromInt64 w = Some c \<and> asn1_wf c \<and> BerInteger_toInt64 c = Some w"
proof -
  obtain a where a: "setIntegerValue BerInteger_createInt32 (mem32 v) 4 = Some (True, a)" "asn1_wf a"
    "0 < asn1_size a" "asn1_used a = compressed (rev (mem32 v))"
    using setIntegerValue_fits [of BerInteger_createInt32 "mem32 v" 4] by auto
  obtain b where b: "setIntegerValue BerInteger_createInt32 (mem32 v @ [0]) 5 = Some (True, b)" "asn1_wf b"
    "0 < asn1_size b" "asn1_used b = ber_u32 v"
    using setIntegerValue_fits [of BerInteger_createInt32 "mem32 v @ [0]" 5] by (auto simp: ber_u32_def)
  obtain c where c: "setIntegerValue BerInteger_createInt64 (mem64 w) 8 = Some (True, c)" "asn1_wf c"
    "0 < asn1_size c" "asn1_used c = compressed (rev (mem64 w))"
    using setIntegerValue_fits [of BerInteger_createInt64 "mem64 w" 8] by auto
  show ?thesis
    using a b c
    by (simp add: BerInteger_createFromInt32_def BerInteger_setInt32_def BerInteger_createFromUint32_def
        BerInteger_setUint32_def BerInteger_createFromInt64_def BerInteger_setInt64_def toInt_value
        be_int_compressed word_of_int_be_mem32 word_of_int_be_mem64 wire_simps)
qed

text \<open>
  \<open>BerInteger_setUint8\<close> stores the byte without the leading zero octet that the 16-bit and
  32-bit setters add: values from 128 on are read back as negative numbers by the signed
  conversion, while the unsigned conversion returns the value.
\<close>

theorem setUint8_loses_sign:
  assumes "asn1_wf self" and "1 \<le> asn1_maxSize self" and "128 \<le> unat v"
  shows "\<exists>a. BerInteger_setUint8 self v = Some (True, a) \<and> asn1_wf a \<and>
    BerInteger_toInt32 a = Some (ucast v - 256) \<and> BerInteger_toUint32 a = Some (ucast v)"
proof -
  obtain a where a: "setIntegerValue self [v] 1 = Some (True, a)" "asn1_wf a" "0 < asn1_size a"
    "asn1_used a = [v]"
    using setIntegerValue_fits [of self "[v]" 1] assms by (auto simp: compressed_def)
  have "be_int [v] = int (unat v) - 256" "be_nat [v] = unat v"
    using assms(3) by (simp_all add: be_int_def be_nat_Cons bit7_iff)
  with a show ?thesis by (simp add: BerInteger_setUint8_def toInt_value)
qed

theorem setUint8_loses_sign_witness:
  "\<exists>a. BerInteger_setUint8 (Asn1PrimitiveValue_create 5) 200 = Some (True, a) \<and> asn1_wf a \<and>
    BerInteger_toInt32 a = Some (ucast (200 :: u8) - 256) \<and> BerInteger_toUint32 a = Some (ucast (200 :: u8))"
  using setUint8_loses_sign [of "Asn1PrimitiveValue_create 5" 200] by simp

end
