(* ===== verification/MmsValue.thy ===== *)
theory MmsValue
  imports BerInteger
begin

text \<open>
  The MMS data values, \<open>src/libiec61850/src/mms/iso_mms/common/mms_value.c\<close> with the structure of
  \<open>mms_value_internal.h\<close>.  A value is a datatype with one constructor per \<open>MmsType\<close>, holding the
  members of the C union; the components of arrays and structures are pointers that may be \<open>NULL\<close>
  (\<open>None\<close>).  Reading a union member of another type is a fault.  A character buffer is the whole
  allocated block, so its string ends at the first NUL byte.  Fresh memory that the code leaves
  uninitialised is filled with zeros.  The \<open>deleteValue\<close> flag, which only says who frees a value,
  and the printing functions are left out.
\<close>

datatype MmsValue =
    MMS_ARRAY (components: "MmsValue option list")
  | MMS_STRUCTURE (components: "MmsValue option list")
  | MMS_BOOLEAN bool
  | MMS_BIT_STRING nat bytes
  | MMS_INTEGER Asn1PrimitiveValue
  | MMS_UNSIGNED Asn1PrimitiveValue
  | MMS_FLOAT u8 nat bytes
  | MMS_OCTET_STRING nat int bytes
  | MMS_VISIBLE_STRING "bytes option" int
  | MMS_GENERALIZED_TIME
  | MMS_BINARY_TIME nat bytes
  | MMS_BCD
  | MMS_OBJ_ID
  | MMS_STRING "bytes option" int
  | MMS_UTC_TIME bytes
  | MMS_DATA_ACCESS_ERROR u32

datatype MmsType = T_ARRAY | T_STRUCTURE | T_BOOLEAN | T_BIT_STRING | T_INTEGER | T_UNSIGNED | T_FLOAT
  | T_OCTET_STRING | T_VISIBLE_STRING | T_GENERALIZED_TIME | T_BINARY_TIME | T_BCD | T_OBJ_ID | T_STRING
  | T_UTC_TIME | T_DATA_ACCESS_ERROR

fun MmsValue_getType :: "MmsValue \<Rightarrow> MmsType" where
  "MmsValue_getType (MMS_ARRAY _) = T_ARRAY"
| "MmsValue_getType (MMS_STRUCTURE _) = T_STRUCTURE"
| "MmsValue_getType (MMS_BOOLEAN _) = T_BOOLEAN"
| "MmsValue_getType (MMS_BIT_STRING _ _) = T_BIT_STRING"
| "MmsValue_getType (MMS_INTEGER _) = T_INTEGER"
| "MmsValue_getType (MMS_UNSIGNED _) = T_UNSIGNED"
| "MmsValue_getType (MMS_FLOAT _ _ _) = T_FLOAT"
| "MmsValue_getType (MMS_OCTET_STRING _ _ _) = T_OCTET_STRING"
| "MmsValue_getType (MMS_VISIBLE_STRING _ _) = T_VISIBLE_STRING"
| "MmsValue_getType MMS_GENERALIZED_TIME = T_GENERALIZED_TIME"
| "MmsValue_getType (MMS_BINARY_TIME _ _) = T_BINARY_TIME"
| "MmsValue_getType MMS_BCD = T_BCD"
| "MmsValue_getType MMS_OBJ_ID = T_OBJ_ID"
| "MmsValue_getType (MMS_STRING _ _) = T_STRING"
| "MmsValue_getType (MMS_UTC_TIME _) = T_UTC_TIME"
| "MmsValue_getType (MMS_DATA_ACCESS_ERROR _) = T_DATA_ACCESS_ERROR"

text \<open>Conversions to the narrow integer fields.\<close>

definition to_int16 :: "int \<Rightarrow> int" where
  "to_int16 n = (n + 32768) mod 65536 - 32768"

definition to_uint16 :: "nat \<Rightarrow> nat" where
  "to_uint16 n = n mod 65536"

subsection \<open>Strings in fixed buffers (string\_utilities.c)\<close>

fun copy_max_loop :: "bytes \<Rightarrow> nat \<Rightarrow> nat \<Rightarrow> cstring \<Rightarrow> bytes option" where
  "copy_max_loop res maxStringSize destPos [] = map_option fst (put 0 res destPos)"
| "copy_max_loop res maxStringSize destPos (c # str) =
     (if destPos < maxStringSize
      then do { (res, destPos) \<leftarrow> put c res destPos; copy_max_loop res maxStringSize destPos str }
      else map_option fst (put 0 res destPos))"

definition StringUtils_copyStringMax :: "bytes \<Rightarrow> nat \<Rightarrow> cstring \<Rightarrow> bytes option" where
  "StringUtils_copyStringMax dest maxBufferSize str1 =
     (if maxBufferSize < 1 then Some dest else copy_max_loop dest (maxBufferSize - 1) 0 str1)"

definition StringUtils_createStringFromBuffer :: "bytes \<Rightarrow> nat \<Rightarrow> bytes option" where
  "StringUtils_createStringFromBuffer buf n = do { s \<leftarrow> rdn buf 0 n; Some (s @ [0]) }"

subsection \<open>Comparison\<close>

definition bitStringByteSize :: "nat \<Rightarrow> nat" where
  "bitStringByteSize bitSize = bitSize div 8 + (if bitSize mod 8 > 0 then 1 else 0)"

definition mem_eq :: "bytes \<Rightarrow> bytes \<Rightarrow> nat \<Rightarrow> bool option" where
  "mem_eq a b n = do { x \<leftarrow> rdn a 0 n; y \<leftarrow> rdn b 0 n; Some (x = y) }"

definition string_bufs_equal :: "bytes option \<Rightarrow> bytes option \<Rightarrow> bool option" where
  "string_bufs_equal a b =
     (case (a, b) of
        (Some x, Some y) \<Rightarrow> do { s \<leftarrow> cstr x; t \<leftarrow> cstr y; Some (s = t) }
      | (Some _, None) \<Rightarrow> Some False
      | (None, _) \<Rightarrow> Some (b = None))"

fun MmsValue_equals :: "MmsValue \<Rightarrow> MmsValue \<Rightarrow> bool option"
  and components_equal :: "MmsValue option list \<Rightarrow> MmsValue option list \<Rightarrow> bool option" where
  "MmsValue_equals (MMS_ARRAY xs) other =
     (case other of MMS_ARRAY ys \<Rightarrow> if length xs = length ys then components_equal xs ys else Some False
      | _ \<Rightarrow> Some False)"
| "MmsValue_equals (MMS_STRUCTURE xs) other =
     (case other of MMS_STRUCTURE ys \<Rightarrow> if length xs = length ys then components_equal xs ys else Some False
      | _ \<Rightarrow> Some False)"
| "MmsValue_equals (MMS_BOOLEAN a) other =
     (case other of MMS_BOOLEAN b \<Rightarrow> Some (a = b) | _ \<Rightarrow> Some False)"
| "MmsValue_equals (MMS_FLOAT e f a) other =
     (case other of MMS_FLOAT _ _ b \<Rightarrow> mem_eq a b (f div 8) | _ \<Rightarrow> Some False)"
| "MmsValue_equals (MMS_INTEGER a) other =
     (case other of MMS_INTEGER b \<Rightarrow> Asn1PrimitivaValue_compare a b | _ \<Rightarrow> Some False)"
| "MmsValue_equals (MMS_UNSIGNED a) other =
     (case other of MMS_UNSIGNED b \<Rightarrow> Asn1PrimitivaValue_compare a b | _ \<Rightarrow> Some False)"
| "MmsValue_equals (MMS_UTC_TIME a) other =
     (case other of MMS_UTC_TIME b \<Rightarrow> mem_eq a b 8 | _ \<Rightarrow> Some False)"
| "MmsValue_equals (MMS_BIT_STRING n a) other =
     (case other of MMS_BIT_STRING m b \<Rightarrow> if n = m then mem_eq a b (bitStringByteSize n) else Some False
      | _ \<Rightarrow> Some False)"
| "MmsValue_equals (MMS_BINARY_TIME n a) other =
     (case other of MMS_BINARY_TIME m b \<Rightarrow> if n = m then mem_eq a b n else Some False | _ \<Rightarrow> Some False)"
| "MmsValue_equals (MMS_OCTET_STRING n _ a) other =
     (case other of MMS_OCTET_STRING m _ b \<Rightarrow> if n = m then mem_eq a b n else Some False | _ \<Rightarrow> Some False)"
| "MmsValue_equals (MMS_VISIBLE_STRING a _) other =
     (case other of MMS_VISIBLE_STRING b _ \<Rightarrow> string_bufs_equal a b | _ \<Rightarrow> Some False)"
| "MmsValue_equals (MMS_STRING a _) other =
     (case other of MMS_STRING b _ \<Rightarrow> string_bufs_equal a b | _ \<Rightarrow> Some False)"
| "MmsValue_equals (MMS_DATA_ACCESS_ERROR a) other =
     (case other of MMS_DATA_ACCESS_ERROR b \<Rightarrow> Some (a = b) | _ \<Rightarrow> Some False)"
| "MmsValue_equals MMS_GENERALIZED_TIME other = Some False"
| "MmsValue_equals MMS_BCD other = Some False"
| "MmsValue_equals MMS_OBJ_ID other = Some False"
| "components_equal [] others = Some True"
| "components_equal (x # xs) others =
     (case x of None \<Rightarrow> Some False
      | Some v \<Rightarrow>
         (case others of [] \<Rightarrow> None
          | y # ys \<Rightarrow>
             (case y of None \<Rightarrow> Some False
              | Some w \<Rightarrow> do {
                  b \<leftarrow> MmsValue_equals v w;
                  if b then components_equal xs ys else Some False })))"

fun MmsValue_equalTypes :: "MmsValue \<Rightarrow> MmsValue \<Rightarrow> bool"
  and components_equalTypes :: "MmsValue option list \<Rightarrow> MmsValue option list \<Rightarrow> bool" where
  "MmsValue_equalTypes self other =
     (case self of
        MMS_ARRAY xs \<Rightarrow>
          (case other of MMS_ARRAY ys \<Rightarrow> length xs = length ys \<and> components_equalTypes xs ys | _ \<Rightarrow> False)
      | MMS_STRUCTURE xs \<Rightarrow>
          (case other of MMS_STRUCTURE ys \<Rightarrow> length xs = length ys \<and> components_equalTypes xs ys | _ \<Rightarrow> False)
      | _ \<Rightarrow> MmsValue_getType self = MmsValue_getType other)"
| "components_equalTypes [] others = True"
| "components_equalTypes (x # xs) others =
     (case x of None \<Rightarrow> False
      | Some v \<Rightarrow>
         (case others of [] \<Rightarrow> False
          | y # ys \<Rightarrow>
             (case y of None \<Rightarrow> False
              | Some w \<Rightarrow> MmsValue_equalTypes v w \<and> components_equalTypes xs ys)))"

subsection \<open>Bit strings\<close>

definition MmsValue_newDataAccessError :: "u32 \<Rightarrow> MmsValue" where
  "MmsValue_newDataAccessError accessError = MMS_DATA_ACCESS_ERROR accessError"

definition MmsValue_newBitString :: "int \<Rightarrow> MmsValue" where
  "MmsValue_newBitString bitSize =
     (let n = nat \<bar>bitSize\<bar> in MMS_BIT_STRING n (replicate (bitStringByteSize n) 0))"

definition bits_setBit :: "nat \<Rightarrow> bytes \<Rightarrow> nat \<Rightarrow> bool \<Rightarrow> bytes option" where
  "bits_setBit bitSize buf bitPos value =
     (if bitPos < bitSize then
        (let bytePos = bitPos div 8; bitMask = push_bit (7 - bitPos mod 8) 1
         in do {
           b \<leftarrow> rd buf bytePos;
           Some (buf[bytePos := (if value then b OR bitMask else b AND NOT bitMask)]) })
      else Some buf)"

definition bits_getBit :: "nat \<Rightarrow> bytes \<Rightarrow> nat \<Rightarrow> bool option" where
  "bits_getBit bitSize buf bitPos =
     (if bitPos < bitSize then
        (let bytePos = bitPos div 8; bitMask = push_bit (7 - bitPos mod 8) 1
         in do { b \<leftarrow> rd buf bytePos; Some (0 < b AND bitMask) })
      else Some False)"

fun MmsValue_setBitStringBit :: "MmsValue \<Rightarrow> nat \<Rightarrow> bool \<Rightarrow> MmsValue option" where
  "MmsValue_setBitStringBit (MMS_BIT_STRING n buf) bitPos value =
     map_option (MMS_BIT_STRING n) (bits_setBit n buf bitPos value)"
| "MmsValue_setBitStringBit _ _ _ = None"

fun MmsValue_getBitStringBit :: "MmsValue \<Rightarrow> nat \<Rightarrow> bool option" where
  "MmsValue_getBitStringBit (MMS_BIT_STRING n buf) bitPos = bits_getBit n buf bitPos"
| "MmsValue_getBitStringBit _ _ = None"

fun bits_asInteger_loop :: "MmsValue \<Rightarrow> nat list \<Rightarrow> nat \<Rightarrow> u32 \<Rightarrow> u32 option" where
  "bits_asInteger_loop self [] i value = Some value"
| "bits_asInteger_loop self (bitPos # ps) i value = do {
     b \<leftarrow> MmsValue_getBitStringBit self bitPos;
     bits_asInteger_loop self ps (i + 1) (if b then value + push_bit i 1 else value) }"

fun MmsValue_getBitStringAsInteger :: "MmsValue \<Rightarrow> u32 option" where
  "MmsValue_getBitStringAsInteger (MMS_BIT_STRING n buf) =
     bits_asInteger_loop (MMS_BIT_STRING n buf) [0..<n] 0 0"
| "MmsValue_getBitStringAsInteger _ = None"

fun MmsValue_getBitStringAsIntegerBigEndian :: "MmsValue \<Rightarrow> u32 option" where
  "MmsValue_getBitStringAsIntegerBigEndian (MMS_BIT_STRING n buf) =
     bits_asInteger_loop (MMS_BIT_STRING n buf) (rev [0..<n]) 0 0"
| "MmsValue_getBitStringAsIntegerBigEndian _ = None"

fun bits_fromInteger_loop :: "MmsValue \<Rightarrow> nat list \<Rightarrow> u32 \<Rightarrow> MmsValue option" where
  "bits_fromInteger_loop self [] intValue = Some self"
| "bits_fromInteger_loop self (bitPos # ps) intValue = do {
     self \<leftarrow> MmsValue_setBitStringBit self bitPos (intValue AND 1 = 1);
     bits_fromInteger_loop self ps (drop_bit 1 intValue) }"

fun MmsValue_setBitStringFromInteger :: "MmsValue \<Rightarrow> u32 \<Rightarrow> MmsValue option" where
  "MmsValue_setBitStringFromInteger (MMS_BIT_STRING n buf) intValue =
     bits_fromInteger_loop (MMS_BIT_STRING n buf) [0..<n] intValue"
| "MmsValue_setBitStringFromInteger _ _ = None"

fun MmsValue_setBitStringFromIntegerBigEndian :: "MmsValue \<Rightarrow> u32 \<Rightarrow> MmsValue option" where
  "MmsValue_setBitStringFromIntegerBigEndian (MMS_BIT_STRING n buf) intValue =
     bits_fromInteger_loop (MMS_BIT_STRING n buf) (rev [0..<n]) intValue"
| "MmsValue_setBitStringFromIntegerBigEndian _ _ = None"

subsection \<open>Floating point, integer and boolean values\<close>

text \<open>A \<open>float\<close> or \<open>double\<close> is its memory, four or eight bytes, lowest byte first.\<close>

definition MmsValue_newFloat :: "bytes \<Rightarrow> MmsValue" where
  "MmsValue_newFloat value = MMS_FLOAT 8 32 (overlay (replicate 8 0) 0 value)"

definition MmsValue_newDouble :: "bytes \<Rightarrow> MmsValue" where
  "MmsValue_newDouble value = MMS_FLOAT 11 64 (overlay (replicate 8 0) 0 value)"

definition MmsValue_newIntegerFromInt32 :: "u32 \<Rightarrow> MmsValue option" where
  "MmsValue_newIntegerFromInt32 integer = map_option MMS_INTEGER (BerInteger_createFromInt32 integer)"

definition MmsValue_newUnsignedFromUint32 :: "u32 \<Rightarrow> MmsValue option" where
  "MmsValue_newUnsignedFromUint32 integer = map_option MMS_UNSIGNED (BerInteger_createFromUint32 integer)"

definition MmsValue_newIntegerFromInt64 :: "u64 \<Rightarrow> MmsValue option" where
  "MmsValue_newIntegerFromInt64 integer = map_option MMS_INTEGER (BerInteger_createFromInt64 integer)"

definition MmsValue_newInteger :: "nat \<Rightarrow> MmsValue" where
  "MmsValue_newInteger bits = MMS_INTEGER (if bits \<le> 32 then BerInteger_createInt32 else BerInteger_createInt64)"

definition MmsValue_newUnsigned :: "nat \<Rightarrow> MmsValue" where
  "MmsValue_newUnsigned bits = MMS_UNSIGNED (if bits \<le> 32 then BerInteger_createInt32 else BerInteger_createInt64)"

definition MmsValue_newBoolean :: "bool \<Rightarrow> MmsValue" where
  "MmsValue_newBoolean boolean = MMS_BOOLEAN boolean"

fun MmsValue_setBoolean :: "MmsValue \<Rightarrow> bool \<Rightarrow> MmsValue option" where
  "MmsValue_setBoolean (MMS_BOOLEAN _) boolValue = Some (MMS_BOOLEAN boolValue)"
| "MmsValue_setBoolean _ _ = None"

text \<open>The getters of a value of another type would read another member of the union, which counts as a fault.\<close>

fun MmsValue_getBoolean :: "MmsValue \<Rightarrow> bool option" where
  "MmsValue_getBoolean (MMS_BOOLEAN b) = Some b"
| "MmsValue_getBoolean _ = None"

fun MmsValue_toInt32 :: "MmsValue \<Rightarrow> u32 option" where
  "MmsValue_toInt32 (MMS_INTEGER a) = BerInteger_toInt32 a"
| "MmsValue_toInt32 (MMS_UNSIGNED a) = BerInteger_toInt32 a"
| "MmsValue_toInt32 _ = Some 0"

fun MmsValue_toUint32 :: "MmsValue \<Rightarrow> u32 option" where
  "MmsValue_toUint32 (MMS_INTEGER a) = BerInteger_toUint32 a"
| "MmsValue_toUint32 (MMS_UNSIGNED a) = BerInteger_toUint32 a"
| "MmsValue_toUint32 _ = Some 0"

fun MmsValue_toInt64 :: "MmsValue \<Rightarrow> u64 option" where
  "MmsValue_toInt64 (MMS_INTEGER a) = BerInteger_toInt64 a"
| "MmsValue_toInt64 (MMS_UNSIGNED a) = BerInteger_toInt64 a"
| "MmsValue_toInt64 _ = Some 0"

subsection \<open>Float and double memory\<close>

text \<open>
  The C conversions between \<open>float\<close> and \<open>double\<close> on bit patterns (IEEE 754, rounding to nearest,
  ties to even): a pattern is split into sign, biased exponent and fraction.
\<close>

definition round_even :: "nat \<Rightarrow> nat \<Rightarrow> nat" where
  "round_even m k =
     (let q = m div 2 ^ k; r = m mod 2 ^ k; h = 2 ^ k div 2
      in if h < r \<or> (r = h \<and> odd q \<and> 0 < k) then q + 1 else q)"

definition msb_pos :: "nat \<Rightarrow> nat" where
  "msb_pos m = length (takeWhile (\<lambda>k. 2 ^ (k + 1) \<le> m) [0..<23])"

definition float_to_double_bits :: "nat \<Rightarrow> nat" where
  "float_to_double_bits x =
     (let s = x div 2 ^ 31; e = x div 2 ^ 23 mod 256; m = x mod 2 ^ 23
      in s * 2 ^ 63 +
         (if e = 255 then 2047 * 2 ^ 52 + (if m = 0 then 0 else 2 ^ 51 + m mod 2 ^ 22 * 2 ^ 29)
          else if e = 0 then
            (if m = 0 then 0
             else (let k = msb_pos m in (k + 874) * 2 ^ 52 + (m - 2 ^ k) * 2 ^ (52 - k)))
          else (e + 896) * 2 ^ 52 + m * 2 ^ 29))"

definition double_to_float_bits :: "nat \<Rightarrow> nat" where
  "double_to_float_bits x =
     (let s = x div 2 ^ 63; e = x div 2 ^ 52 mod 2048; m = x mod 2 ^ 52
      in s * 2 ^ 31 +
         (if e = 2047 then 255 * 2 ^ 23 + (if m = 0 then 0 else 2 ^ 22 + m div 2 ^ 29 mod 2 ^ 22)
          else if 1151 \<le> e then 255 * 2 ^ 23
          else if 897 \<le> e then (e - 897) * 2 ^ 23 + round_even (2 ^ 52 + m) 29
          else if 872 \<le> e then round_even (2 ^ 52 + m) (926 - e)
          else 0))"

definition le_bytes :: "nat \<Rightarrow> nat \<Rightarrow> bytes" where
  "le_bytes n x = map (\<lambda>i. word_of_nat (x div 256 ^ i)) [0..<n]"

definition float_to_double :: "bytes \<Rightarrow> bytes" where
  "float_to_double mem = le_bytes 8 (float_to_double_bits (be_nat (rev mem)))"

definition double_to_float :: "bytes \<Rightarrow> bytes" where
  "double_to_float mem = le_bytes 4 (double_to_float_bits (be_nat (rev mem)))"

fun MmsValue_setFloat :: "MmsValue \<Rightarrow> bytes \<Rightarrow> MmsValue" where
  "MmsValue_setFloat (MMS_FLOAT e f buf) newFloatValue =
     (if f = 32 then MMS_FLOAT e f (overlay buf 0 newFloatValue)
      else if f = 64 then MMS_FLOAT e f (overlay buf 0 (float_to_double newFloatValue))
      else MMS_FLOAT e f buf)"
| "MmsValue_setFloat self _ = self"

fun MmsValue_setDouble :: "MmsValue \<Rightarrow> bytes \<Rightarrow> MmsValue" where
  "MmsValue_setDouble (MMS_FLOAT e f buf) newDoubleValue =
     (if f = 32 then MMS_FLOAT e f (overlay buf 0 (double_to_float newDoubleValue))
      else if f = 64 then MMS_FLOAT e f (overlay buf 0 newDoubleValue)
      else MMS_FLOAT e f buf)"
| "MmsValue_setDouble self _ = self"

fun MmsValue_toFloat :: "MmsValue \<Rightarrow> bytes option" where
  "MmsValue_toFloat (MMS_FLOAT _ f buf) =
     (if f = 32 then rdn buf 0 4
      else if f = 64 then map_option double_to_float (rdn buf 0 8)
      else Some [0, 0, 0, 0])"
| "MmsValue_toFloat _ = Some [0, 0, 0, 0]"

fun MmsValue_toDouble :: "MmsValue \<Rightarrow> bytes option" where
  "MmsValue_toDouble (MMS_FLOAT _ f buf) =
     (if f = 32 then map_option float_to_double (rdn buf 0 4)
      else if f = 64 then rdn buf 0 8
      else Some (replicate 8 0))"
| "MmsValue_toDouble _ = Some (replicate 8 0)"

subsection \<open>UTC time\<close>

definition be32 :: "u32 \<Rightarrow> bytes" where
  "be32 v = rev (mem32 v)"

definition setUtcTimeMs :: "u64 \<Rightarrow> u8 \<Rightarrow> MmsValue" where
  "setUtcTimeMs timeval timeQuality =
     (let timeval32 = word_of_nat (unat timeval div 1000);
          remainder = unat timeval mod 1000;
          fractionOfSecond = remainder * 16777 + (remainder * 216) div 1000
      in MMS_UTC_TIME (be32 timeval32 @
           [word_of_nat (fractionOfSecond div 2 ^ 16), word_of_nat (fractionOfSecond div 2 ^ 8),
            word_of_nat fractionOfSecond, timeQuality]))"

fun MmsValue_setUtcTimeMs :: "MmsValue \<Rightarrow> u64 \<Rightarrow> MmsValue option" where
  "MmsValue_setUtcTimeMs (MMS_UTC_TIME _) timeval = Some (setUtcTimeMs timeval 0x0a)"
| "MmsValue_setUtcTimeMs _ _ = None"

fun MmsValue_setUtcTimeMsEx :: "MmsValue \<Rightarrow> u64 \<Rightarrow> u8 \<Rightarrow> MmsValue option" where
  "MmsValue_setUtcTimeMsEx (MMS_UTC_TIME _) timeval timeQuality = Some (setUtcTimeMs timeval timeQuality)"
| "MmsValue_setUtcTimeMsEx _ _ _ = None"

definition MmsValue_newUtcTimeByMsTime :: "u64 \<Rightarrow> MmsValue" where
  "MmsValue_newUtcTimeByMsTime timeval = setUtcTimeMs timeval 0x0a"

definition MmsValue_newUtcTime :: "u32 \<Rightarrow> MmsValue" where
  "MmsValue_newUtcTime timeval = MMS_UTC_TIME (be32 timeval @ [0, 0, 0, 0])"

fun MmsValue_setUtcTime :: "MmsValue \<Rightarrow> u32 \<Rightarrow> MmsValue option" where
  "MmsValue_setUtcTime (MMS_UTC_TIME buf) timeval = Some (MMS_UTC_TIME (overlay buf 0 (be32 timeval)))"
| "MmsValue_setUtcTime _ _ = None"

fun MmsValue_setUtcTimeByBuffer :: "MmsValue \<Rightarrow> bytes \<Rightarrow> MmsValue option" where
  "MmsValue_setUtcTimeByBuffer (MMS_UTC_TIME _) buffer = map_option MMS_UTC_TIME (rdn buffer 0 8)"
| "MmsValue_setUtcTimeByBuffer _ _ = None"

fun MmsValue_getUtcTimeInMs :: "MmsValue \<Rightarrow> u64 option" where
  "MmsValue_getUtcTimeInMs (MMS_UTC_TIME buf) = do {
     secs \<leftarrow> rdn buf 0 4;
     frac \<leftarrow> rdn buf 4 3;
     let remainder = be_nat frac div 16777;
     Some (word_of_nat (be_nat secs * 1000 + remainder)) }"
| "MmsValue_getUtcTimeInMs _ = None"

fun MmsValue_getUtcTimeInMsWithUs :: "MmsValue \<Rightarrow> (u64 \<times> u32) option" where
  "MmsValue_getUtcTimeInMsWithUs (MMS_UTC_TIME buf) = do {
     secs \<leftarrow> rdn buf 0 4;
     frac \<leftarrow> rdn buf 4 3;
     let remainder = be_nat frac * 1000000 div 0x1000000;
     Some (word_of_nat (be_nat secs * 1000 + remainder div 1000), word_of_nat (remainder mod 1000)) }"
| "MmsValue_getUtcTimeInMsWithUs _ = None"

fun MmsValue_toUnixTimestamp :: "MmsValue \<Rightarrow> u32 option" where
  "MmsValue_toUnixTimestamp (MMS_UTC_TIME buf) = do { secs \<leftarrow> rdn buf 0 4; Some (word_of_nat (be_nat secs)) }"
| "MmsValue_toUnixTimestamp _ = None"

subsection \<open>Binary time\<close>

definition MmsValue_newBinaryTime :: "bool \<Rightarrow> MmsValue" where
  "MmsValue_newBinaryTime timeOfDay = MMS_BINARY_TIME (if timeOfDay then 4 else 6) (replicate 6 0)"

fun MmsValue_setBinaryTime :: "MmsValue \<Rightarrow> u64 \<Rightarrow> MmsValue option" where
  "MmsValue_setBinaryTime (MMS_BINARY_TIME n buf) timestamp =
     (let mmsTime = (if 441763200000 < unat timestamp then unat timestamp - 441763200000 else 0);
          daysDiff = word_of_nat (mmsTime div 86400000) :: u16;
          buf = (if n = 6 then overlay buf 4 (rev (mem16 daysDiff)) else buf);
          msSinceMidnight = word_of_nat (mmsTime mod 86400000) :: u32
      in Some (MMS_BINARY_TIME n (overlay buf 0 (be32 msSinceMidnight))))"
| "MmsValue_setBinaryTime _ _ = None"

fun MmsValue_getBinaryTimeAsUtcMs :: "MmsValue \<Rightarrow> u64 option" where
  "MmsValue_getBinaryTimeAsUtcMs (MMS_BINARY_TIME n buf) = do {
     days \<leftarrow> rdn buf 4 2;
     ms \<leftarrow> rdn buf 0 4;
     let timestamp = (if n = 6 then be_nat days * 86400000 + 441763200000 else 0);
     Some (word_of_nat (timestamp + be_nat ms)) }"
| "MmsValue_getBinaryTimeAsUtcMs _ = None"

subsection \<open>Octet strings\<close>

definition MmsValue_newOctetString :: "nat \<Rightarrow> int \<Rightarrow> MmsValue" where
  "MmsValue_newOctetString n maxSize =
     MMS_OCTET_STRING (to_uint16 n) maxSize (replicate (nat \<bar>maxSize\<bar>) 0)"

fun MmsValue_setOctetString :: "MmsValue \<Rightarrow> bytes \<Rightarrow> nat \<Rightarrow> MmsValue option" where
  "MmsValue_setOctetString (MMS_OCTET_STRING k maxSize buf) src n =
     (if int n \<le> \<bar>maxSize\<bar>
      then do {
        octets \<leftarrow> rdn src 0 n;
        (buf, _) \<leftarrow> puts octets buf 0;
        Some (MMS_OCTET_STRING (to_uint16 n) maxSize buf) }
      else Some (MMS_OCTET_STRING k maxSize buf))"
| "MmsValue_setOctetString _ _ _ = None"

fun MmsValue_setOctetStringOctet :: "MmsValue \<Rightarrow> int \<Rightarrow> u8 \<Rightarrow> MmsValue option" where
  "MmsValue_setOctetStringOctet (MMS_OCTET_STRING k maxSize buf) octetPos value =
     (if 0 \<le> octetPos \<and> octetPos < \<bar>maxSize\<bar>
      then do {
        (buf, _) \<leftarrow> put value buf (nat octetPos);
        Some (MMS_OCTET_STRING (if int k \<le> octetPos then to_uint16 (nat octetPos + 1) else k) maxSize buf) }
      else Some (MMS_OCTET_STRING k maxSize buf))"
| "MmsValue_setOctetStringOctet _ _ _ = None"

fun MmsValue_getOctetStringOctet :: "MmsValue \<Rightarrow> int \<Rightarrow> u8 option" where
  "MmsValue_getOctetStringOctet (MMS_OCTET_STRING k _ buf) octetPos =
     (if 0 \<le> octetPos \<and> octetPos < int k then rd buf (nat octetPos) else Some 0)"
| "MmsValue_getOctetStringOctet _ _ = None"

subsection \<open>Character strings\<close>

definition setVisibleStringValue :: "bytes option \<Rightarrow> int \<Rightarrow> cstring option \<Rightarrow> (bytes option \<times> int) option" where
  "setVisibleStringValue self_buf self_size value =
     (case self_buf of
        None \<Rightarrow> Some (None, self_size)
      | Some buf \<Rightarrow>
          (case value of
             Some v \<Rightarrow>
               (let newStringSize = length v;
                    (buf, n) = (if self_size < int newStringSize
                                then (replicate (newStringSize + 1) 0, to_int16 (int newStringSize))
                                else (buf, self_size))
                in do { buf \<leftarrow> StringUtils_copyStringMax buf (nat (n + 1)) v; Some (Some buf, n) })
           | None \<Rightarrow> do { (buf, _) \<leftarrow> put 0 buf 0; Some (Some buf, self_size) }))"

definition newString_members :: "cstring option \<Rightarrow> (bytes option \<times> int) option" where
  "newString_members string =
     (case string of
        None \<Rightarrow> Some (None, 0)
      | Some s \<Rightarrow> setVisibleStringValue (Some (replicate (length s + 1) 0)) (to_int16 (int (length s))) string)"

definition MmsValue_newVisibleString :: "cstring option \<Rightarrow> MmsValue option" where
  "MmsValue_newVisibleString string = map_option (\<lambda>(b, n). MMS_VISIBLE_STRING b n) (newString_members string)"

definition MmsValue_newMmsString :: "cstring option \<Rightarrow> MmsValue option" where
  "MmsValue_newMmsString string = map_option (\<lambda>(b, n). MMS_STRING b n) (newString_members string)"

definition MmsValue_newVisibleStringWithSize :: "nat \<Rightarrow> MmsValue" where
  "MmsValue_newVisibleStringWithSize n = MMS_VISIBLE_STRING (Some (replicate (n + 1) 0)) (to_int16 (int n))"

definition MmsValue_newVisibleStringFromByteArray :: "bytes \<Rightarrow> nat \<Rightarrow> MmsValue option" where
  "MmsValue_newVisibleStringFromByteArray byteArray n = do {
     buf \<leftarrow> StringUtils_createStringFromBuffer byteArray n;
     Some (MMS_VISIBLE_STRING (Some buf) (to_int16 (int n))) }"

fun MmsValue_setVisibleString :: "MmsValue \<Rightarrow> cstring option \<Rightarrow> MmsValue option" where
  "MmsValue_setVisibleString (MMS_VISIBLE_STRING b n) string =
     map_option (\<lambda>(b, n). MMS_VISIBLE_STRING b n) (setVisibleStringValue b n string)"
| "MmsValue_setVisibleString self _ = Some self"

fun MmsValue_setMmsString :: "MmsValue \<Rightarrow> cstring option \<Rightarrow> MmsValue option" where
  "MmsValue_setMmsString (MMS_STRING b n) string =
     map_option (\<lambda>(b, n). MMS_STRING b n) (setVisibleStringValue b n string)"
| "MmsValue_setMmsString self _ = Some self"

subsection \<open>Arrays and structures\<close>

definition MmsValue_createEmptyArray :: "nat \<Rightarrow> MmsValue" where
  "MmsValue_createEmptyArray n = MMS_ARRAY (replicate n None)"

definition MmsValue_createEmptyStructure :: "nat \<Rightarrow> MmsValue" where
  "MmsValue_createEmptyStructure n = MMS_STRUCTURE (replicate n None)"

fun MmsValue_setElement :: "MmsValue \<Rightarrow> nat \<Rightarrow> MmsValue option \<Rightarrow> MmsValue" where
  "MmsValue_setElement (MMS_ARRAY xs) i v = MMS_ARRAY (if length xs \<le> i then xs else xs[i := v])"
| "MmsValue_setElement (MMS_STRUCTURE xs) i v = MMS_STRUCTURE (if length xs \<le> i then xs else xs[i := v])"
| "MmsValue_setElement self _ _ = self"

fun MmsValue_getElement :: "MmsValue \<Rightarrow> nat \<Rightarrow> MmsValue option" where
  "MmsValue_getElement (MMS_ARRAY xs) i = (if length xs \<le> i then None else xs ! i)"
| "MmsValue_getElement (MMS_STRUCTURE xs) i = (if length xs \<le> i then None else xs ! i)"
| "MmsValue_getElement _ _ = None"

fun MmsValue_getArraySize :: "MmsValue \<Rightarrow> nat option" where
  "MmsValue_getArraySize (MMS_ARRAY xs) = Some (length xs)"
| "MmsValue_getArraySize (MMS_STRUCTURE xs) = Some (length xs)"
| "MmsValue_getArraySize _ = None"

subsection \<open>Update\<close>

fun update_bits :: "MmsValue \<Rightarrow> nat \<Rightarrow> MmsValue \<Rightarrow> nat list \<Rightarrow> MmsValue option" where
  "update_bits self self_size update [] = Some self"
| "update_bits self self_size update (i # is) =
     (if i < self_size then do {
        b \<leftarrow> MmsValue_getBitStringBit update i;
        self \<leftarrow> MmsValue_setBitStringBit self i b;
        update_bits self self_size update is }
      else Some self)"

definition update_octets :: "nat \<Rightarrow> int \<Rightarrow> bytes \<Rightarrow> nat \<Rightarrow> bytes \<Rightarrow> (bool \<times> MmsValue) option" where
  "update_octets self_size self_maxSize self_buf n update_buf =
     (let realloc = self_maxSize < 0 \<and> \<bar>self_maxSize\<bar> < int n;
          buf = (if realloc then replicate n 0 else self_buf);
          maxSize = (if realloc then - int n else self_maxSize)
      in if int n \<le> \<bar>maxSize\<bar> then do {
           octets \<leftarrow> rdn update_buf 0 n;
           (buf, _) \<leftarrow> puts octets buf 0;
           Some (True, MMS_OCTET_STRING n maxSize buf) }
         else Some (False, MMS_OCTET_STRING self_size maxSize buf))"

definition opt_cstr :: "bytes option \<Rightarrow> cstring option option" where
  "opt_cstr b = (case b of None \<Rightarrow> Some None | Some buf \<Rightarrow> map_option Some (cstr buf))"

text \<open>Scalar values; the result is the return value and the updated object.\<close>

definition update_scalar :: "MmsValue \<Rightarrow> MmsValue \<Rightarrow> (bool \<times> MmsValue) option" where
  "update_scalar self update =
     (case (self, update) of
        (MMS_BOOLEAN _, MMS_BOOLEAN b) \<Rightarrow> Some (True, MMS_BOOLEAN b)
      | (MMS_FLOAT e f buf, MMS_FLOAT e' f' buf') \<Rightarrow>
          (if f = f' then do {
             octets \<leftarrow> rdn buf' 0 (f div 8);
             (buf, _) \<leftarrow> puts octets buf 0;
             Some (True, MMS_FLOAT e' f buf) }
           else Some (False, self))
      | (MMS_INTEGER a, MMS_INTEGER b) \<Rightarrow>
          map_option (\<lambda>(r, a). (r, MMS_INTEGER a)) (BerInteger_setFromBerInteger a b)
      | (MMS_UNSIGNED a, MMS_UNSIGNED b) \<Rightarrow>
          map_option (\<lambda>(r, a). (r, MMS_UNSIGNED a)) (BerInteger_setFromBerInteger a b)
      | (MMS_UTC_TIME _, MMS_UTC_TIME b) \<Rightarrow> do { octets \<leftarrow> rdn b 0 8; Some (True, MMS_UTC_TIME octets) }
      | (MMS_BIT_STRING n buf, MMS_BIT_STRING m buf') \<Rightarrow>
          (if n = m then do {
             octets \<leftarrow> rdn buf' 0 (bitStringByteSize n);
             (buf, _) \<leftarrow> puts octets buf 0;
             Some (True, MMS_BIT_STRING n buf) }
           else map_option (Pair True) (update_bits self n update [0..<m]))
      | (MMS_OCTET_STRING k maxSize buf, MMS_OCTET_STRING n _ buf') \<Rightarrow>
          update_octets k maxSize buf n buf'
      | (MMS_VISIBLE_STRING _ _, MMS_VISIBLE_STRING b _) \<Rightarrow> do {
          s \<leftarrow> opt_cstr b; map_option (Pair True) (MmsValue_setVisibleString self s) }
      | (MMS_STRING _ _, MMS_STRING b _) \<Rightarrow> do {
          s \<leftarrow> opt_cstr b; map_option (Pair True) (MmsValue_setMmsString self s) }
      | (MMS_BINARY_TIME _ buf, MMS_BINARY_TIME m buf') \<Rightarrow> do {
          octets \<leftarrow> rdn buf' 0 m;
          (buf, _) \<leftarrow> puts octets buf 0;
          Some (True, MMS_BINARY_TIME m buf) }
      | _ \<Rightarrow> Some (False, self))"

fun MmsValue_update :: "MmsValue \<Rightarrow> MmsValue \<Rightarrow> (bool \<times> MmsValue) option"
  and updateStructuredComponent ::
    "MmsValue option list \<Rightarrow> MmsValue option list \<Rightarrow> (bool \<times> MmsValue option list) option" where
  "MmsValue_update self update =
     (case self of
        MMS_STRUCTURE xs \<Rightarrow>
          (case update of MMS_STRUCTURE ys \<Rightarrow>
             (if length xs \<noteq> length ys then Some (False, self)
              else map_option (\<lambda>(r, xs). (r, MMS_STRUCTURE xs)) (updateStructuredComponent xs ys))
           | _ \<Rightarrow> Some (False, self))
      | MMS_ARRAY xs \<Rightarrow>
          (case update of MMS_ARRAY ys \<Rightarrow>
             (if length xs \<noteq> length ys then Some (False, self)
              else map_option (\<lambda>(r, xs). (r, MMS_ARRAY xs)) (updateStructuredComponent xs ys))
           | _ \<Rightarrow> Some (False, self))
      | _ \<Rightarrow> update_scalar self update)"
| "updateStructuredComponent [] ys = Some (True, [])"
| "updateStructuredComponent (x # xs) ys =
     (case x of None \<Rightarrow> Some (False, x # xs)
      | Some v \<Rightarrow>
         (case ys of [] \<Rightarrow> None
          | y # ys \<Rightarrow>
             (case y of None \<Rightarrow> Some (False, x # xs)
              | Some w \<Rightarrow> do {
                  (r, v) \<leftarrow> MmsValue_update v w;
                  if r then map_option (\<lambda>(r, xs). (r, Some v # xs)) (updateStructuredComponent xs ys)
                  else Some (False, Some v # xs) })))"

subsection \<open>Clone\<close>

definition clone_string :: "bytes option \<Rightarrow> int \<Rightarrow> (bytes option \<times> int) option" where
  "clone_string buf n = do {
     b \<leftarrow> buf;
     s \<leftarrow> cstr b;
     newBuf \<leftarrow> StringUtils_copyStringMax (replicate (nat (n + 1)) 0) (nat (n + 1)) s;
     Some (Some newBuf, n) }"

fun MmsValue_clone :: "MmsValue \<Rightarrow> MmsValue option"
  and clone_components :: "MmsValue option list \<Rightarrow> MmsValue option list option" where
  "MmsValue_clone (MMS_ARRAY xs) = map_option MMS_ARRAY (clone_components xs)"
| "MmsValue_clone (MMS_STRUCTURE xs) = map_option MMS_STRUCTURE (clone_components xs)"
| "MmsValue_clone (MMS_INTEGER a) = map_option MMS_INTEGER (Asn1PrimitiveValue_clone a)"
| "MmsValue_clone (MMS_UNSIGNED a) = map_option MMS_UNSIGNED (Asn1PrimitiveValue_clone a)"
| "MmsValue_clone (MMS_FLOAT e f buf) = do {
     octets \<leftarrow> rdn buf 0 (f div 8); Some (MMS_FLOAT e f (overlay (replicate 8 0) 0 octets)) }"
| "MmsValue_clone (MMS_BIT_STRING n buf) = do {
     octets \<leftarrow> rdn buf 0 (bitStringByteSize n); Some (MMS_BIT_STRING n octets) }"
| "MmsValue_clone (MMS_BOOLEAN b) = Some (MMS_BOOLEAN b)"
| "MmsValue_clone (MMS_OCTET_STRING n maxSize buf) = do {
     octets \<leftarrow> rdn buf 0 n;
     (buf, _) \<leftarrow> puts octets (replicate (nat \<bar>maxSize\<bar>) 0) 0;
     Some (MMS_OCTET_STRING n maxSize buf) }"
| "MmsValue_clone (MMS_UTC_TIME buf) = do { octets \<leftarrow> rdn buf 0 8; Some (MMS_UTC_TIME octets) }"
| "MmsValue_clone (MMS_BINARY_TIME n buf) = do { octets \<leftarrow> rdn buf 0 6; Some (MMS_BINARY_TIME n octets) }"
| "MmsValue_clone (MMS_VISIBLE_STRING buf n) = map_option (\<lambda>(b, n). MMS_VISIBLE_STRING b n) (clone_string buf n)"
| "MmsValue_clone (MMS_STRING buf n) = map_option (\<lambda>(b, n). MMS_STRING b n) (clone_string buf n)"
| "MmsValue_clone (MMS_DATA_ACCESS_ERROR e) = Some (MMS_DATA_ACCESS_ERROR e)"
| "MmsValue_clone MMS_GENERALIZED_TIME = Some MMS_GENERALIZED_TIME"
| "MmsValue_clone MMS_BCD = Some MMS_BCD"
| "MmsValue_clone MMS_OBJ_ID = Some MMS_OBJ_ID"
| "clone_components [] = Some []"
| "clone_components (x # xs) = do {
     y \<leftarrow> (case x of None \<Rightarrow> Some None | Some v \<Rightarrow> map_option Some (MmsValue_clone v));
     ys \<leftarrow> clone_components xs;
     Some (y # ys) }"

subsection \<open>Well-formed values\<close>

text \<open>
  What the constructors establish: the blocks have the sizes the members announce, a string ends
  inside its block, no component of an array or structure is missing.
\<close>

definition string_wf :: "bytes option \<Rightarrow> int \<Rightarrow> bool" where
  "string_wf buf n = (case buf of None \<Rightarrow> True | Some b \<Rightarrow> 0 \<le> n \<and> length b = nat n + 1 \<and> 0 \<in> set b)"

fun mms_wf :: "MmsValue \<Rightarrow> bool" where
  "mms_wf (MMS_ARRAY xs) = list_all (\<lambda>x. case x of None \<Rightarrow> False | Some v \<Rightarrow> mms_wf v) xs"
| "mms_wf (MMS_STRUCTURE xs) = list_all (\<lambda>x. case x of None \<Rightarrow> False | Some v \<Rightarrow> mms_wf v) xs"
| "mms_wf (MMS_BOOLEAN _) = True"
| "mms_wf (MMS_BIT_STRING n buf) = (length buf = bitStringByteSize n)"
| "mms_wf (MMS_INTEGER a) = asn1_wf a"
| "mms_wf (MMS_UNSIGNED a) = asn1_wf a"
| "mms_wf (MMS_FLOAT e f buf) = (length buf = 8 \<and> (f = 32 \<or> f = 64))"
| "mms_wf (MMS_OCTET_STRING n maxSize buf) = (length buf = nat \<bar>maxSize\<bar> \<and> n \<le> nat \<bar>maxSize\<bar> \<and> n < 65536)"
| "mms_wf (MMS_VISIBLE_STRING buf n) = string_wf buf n"
| "mms_wf (MMS_STRING buf n) = string_wf buf n"
| "mms_wf (MMS_BINARY_TIME n buf) = (length buf = 6 \<and> (n = 4 \<or> n = 6))"
| "mms_wf (MMS_UTC_TIME buf) = (length buf = 8)"
| "mms_wf (MMS_DATA_ACCESS_ERROR _) = True"
| "mms_wf MMS_GENERALIZED_TIME = False"
| "mms_wf MMS_BCD = False"
| "mms_wf MMS_OBJ_ID = False"

definition mms_wf_components :: "MmsValue option list \<Rightarrow> bool" where
  "mms_wf_components xs = list_all (\<lambda>x. case x of None \<Rightarrow> False | Some v \<Rightarrow> mms_wf v) xs"

lemma mms_wf_complex [simp]:
  "mms_wf (MMS_ARRAY xs) = mms_wf_components xs" "mms_wf (MMS_STRUCTURE xs) = mms_wf_components xs"
  by (simp_all add: mms_wf_components_def)

lemma mms_wf_components_simps [simp]:
  "mms_wf_components []"
  "mms_wf_components (x # xs) \<longleftrightarrow> (\<exists>v. x = Some v \<and> mms_wf v) \<and> mms_wf_components xs"
  by (auto simp: mms_wf_components_def split: option.splits)

declare mms_wf.simps(1,2) [simp del]

lemma bit_byte_size_eq: "bit_byte_size n = bitStringByteSize n"
  by (simp add: bit_byte_size_def bitStringByteSize_def Let_def)

lemma mem_eq_prefix: "n \<le> length a \<Longrightarrow> n \<le> length b \<Longrightarrow> mem_eq a b n = Some (take n a = take n b)"
  by (simp add: mem_eq_def reader_simps)

lemma string_bufs_equal_refl: "string_wf b n \<Longrightarrow> string_bufs_equal b b = Some True"
  by (auto simp: string_bufs_equal_def string_wf_def cstr_def split: option.splits)

text \<open>Induction over a value together with the lists of its components.\<close>

definition is_scalar :: "MmsValue \<Rightarrow> bool" where
  "is_scalar v = (case v of MMS_ARRAY _ \<Rightarrow> False | MMS_STRUCTURE _ \<Rightarrow> False | _ \<Rightarrow> True)"

lemma value_components_induct [case_names array struct scalar nil cons]:
  assumes array: "\<And>xs. Q xs \<Longrightarrow> P (MMS_ARRAY xs)"
    and struct: "\<And>xs. Q xs \<Longrightarrow> P (MMS_STRUCTURE xs)"
    and scalar: "\<And>v. is_scalar v \<Longrightarrow> P v"
    and nil: "Q []"
    and cons: "\<And>x xs. (\<And>v. x = Some v \<Longrightarrow> P v) \<Longrightarrow> Q xs \<Longrightarrow> Q (x # xs)"
  shows "P v" and "Q xs"
proof -
  have lift: "Q xs" if "\<And>x v. x \<in> set xs \<Longrightarrow> x = Some v \<Longrightarrow> P v" for xs
    using that by (induction xs) (auto intro: nil cons)
  have all: "P v" for v
  proof (induction v)
    case (MMS_ARRAY xs)
    then show ?case by (intro array lift) auto
  next
    case (MMS_STRUCTURE xs)
    then show ?case by (intro struct lift) auto
  qed (auto intro: scalar simp: is_scalar_def)
  show "P v" by (rule all)
  show "Q xs" by (rule lift) (rule all)
qed

lemma equals_refl_scalar: "is_scalar v \<Longrightarrow> mms_wf v \<Longrightarrow> MmsValue_equals v v = Some True"
  by (cases v) (auto simp: is_scalar_def mem_eq_prefix compare_wf string_bufs_equal_refl)

lemma MmsValue_equals_refl:
  shows "mms_wf v \<Longrightarrow> MmsValue_equals v v = Some True"
    and "mms_wf_components xs \<Longrightarrow> components_equal xs xs = Some True"
  by (induction v and xs rule: value_components_induct) (auto simp: equals_refl_scalar)

subsection \<open>Time stamps\<close>

lemma length_be32 [simp]: "length (be32 v) = 4"
  by (simp add: be32_def)

lemma be_nat_be32: "be_nat (be32 v) = unat v"
  by (simp add: be32_def be_nat_mem32)

lemma rdn_head: "length xs = n \<Longrightarrow> rdn (xs @ ys) 0 n = Some xs"
  by (auto simp: rdn_def)

lemma be_nat_three:
  assumes "f < 2 ^ 24"
  shows "be_nat [word_of_nat (f div 65536), word_of_nat (f div 256), word_of_nat f] = f"
proof -
  have "f div 65536 mod 256 = f div 65536" using assms by simp
  moreover have "f div 65536 * 256 + f div 256 mod 256 = f div 256"
    using div_mult_mod_eq [of "f div 256" 256] by (simp add: div_mult2_eq [symmetric])
  then have "f div 65536 * 65536 + f div 256 mod 256 * 256 + f mod 256 = f"
    using div_mult_mod_eq [of f 256] by linarith
  ultimately show ?thesis by (simp add: be_nat_Cons)
qed

lemma utc_fraction_bound: "r < 1000 \<Longrightarrow> r * 16777 + r * 216 div 1000 < (2 :: nat) ^ 24"
proof -
  assume "r < 1000"
  then have "r * 216 div 1000 < 216" by (simp add: div_less_iff_less_mult)
  with \<open>r < 1000\<close> show ?thesis by simp
qed

lemma utc_fraction_div: "r < 1000 \<Longrightarrow> (r * 16777 + r * 216 div 1000) div 16777 = (r :: nat)"
proof -
  assume "r < 1000"
  then have "r * 216 div 1000 < 216" by (simp add: div_less_iff_less_mult)
  then show ?thesis by (intro div_nat_eqI) simp_all
qed

lemma setUtcTimeMs_members:
  "setUtcTimeMs t q = MMS_UTC_TIME (be32 (word_of_nat (unat t div 1000)) @
     (let f = unat t mod 1000 * 16777 + unat t mod 1000 * 216 div 1000
      in [word_of_nat (f div 65536), word_of_nat (f div 256), word_of_nat f]) @ [q])"
  by (simp add: setUtcTimeMs_def Let_def)

text \<open>
  A millisecond time stamp stored with setUtcTimeMs reads back exactly with
  getUtcTimeInMs as long as its seconds fit the 32-bit field, and every stored value is eight
  octets, the last one the quality.
\<close>

theorem utc_time_ms_roundtrip:
  assumes "unat t div 1000 < 2 ^ 32"
  shows "MmsValue_getUtcTimeInMs (setUtcTimeMs t q) = Some t
    \<and> MmsValue_toUnixTimestamp (setUtcTimeMs t q) = Some (word_of_nat (unat t div 1000))
    \<and> mms_wf (setUtcTimeMs t q)"
proof -
  let ?r = "unat t mod 1000"
  let ?f = "?r * 16777 + ?r * 216 div 1000"
  have r: "?r < 1000" by simp
  have secs: "be_nat (be32 (word_of_nat (unat t div 1000))) = unat t div 1000"
    using assms by (simp add: be_nat_be32 unsigned_of_nat take_bit_eq_mod)
  have val: "unat t div 1000 * 1000 + ?f div 16777 = unat t"
    by (simp only: utc_fraction_div [OF r] div_mult_mod_eq)
  note val = arg_cong [OF val, of "word_of_nat :: nat \<Rightarrow> u64"]
  show ?thesis
    using val secs be_nat_three [OF utc_fraction_bound [OF r]]
    by (simp add: setUtcTimeMs_members Let_def rdn_def del: of_nat_add of_nat_mult) 
qed

theorem utc_time_ms_roundtrip_witness:
  "MmsValue_getUtcTimeInMs (setUtcTimeMs 1700000000123 0x0a) = Some 1700000000123"
  using utc_time_ms_roundtrip [of 1700000000123 "0x0a"] by simp

text \<open>
  \<open>MmsValue_getUtcTimeInMsWithUs\<close> is not an inverse of the setter: the time stamp one
  millisecond after the epoch reads back as 0 ms and 999 us, one millisecond less than
  \<open>MmsValue_getUtcTimeInMs\<close> gives on the same octets.
\<close>

theorem utc_with_us_short:
  "MmsValue_getUtcTimeInMsWithUs (setUtcTimeMs 1 q) = Some (0, 999)
   \<and> MmsValue_getUtcTimeInMs (setUtcTimeMs 1 q) = Some 1"
  by (simp add: setUtcTimeMs_members Let_def rdn_def be32_def mem32_def be_nat_def)

lemma be_nat_be16: "be_nat (rev (mem16 v)) = unat v"
proof -
  have "unat v < 65536" using unsigned_less [of v, where 'a = nat] by simp
  then show ?thesis
  by (simp add: mem16_def be_nat_def unsigned_ucast_eq unsigned_drop_bit_eq take_bit_eq_mod drop_bit_eq_div unat_div)
qed

lemma overlay_overlay_44: "length buf = 6 \<Longrightarrow> length a = 4 \<Longrightarrow> length d = 2 \<Longrightarrow> overlay (overlay buf 4 d) 0 a = a @ d"
  by (simp add: overlay_def)

text \<open>
  A binary time of six octets set to a millisecond time stamp between 1 January 1984 and the
  last day the 16-bit day counter reaches reads back exactly.
\<close>

theorem binary_time_roundtrip:
  assumes "441763200000 \<le> unat t" and "unat t < 441763200000 + 65536 * 86400000" and "length buf = 6"
  shows "MmsValue_setBinaryTime (MMS_BINARY_TIME 6 buf) t \<bind> MmsValue_getBinaryTimeAsUtcMs = Some t"
proof -
  define m where "m = unat t - 441763200000"
  have m: "(if 441763200000 < unat t then unat t - 441763200000 else 0) = m" "unat t = m + 441763200000"
    using assms by (auto simp: m_def)
  have days: "unat (word_of_nat (m div 86400000) :: u16) = m div 86400000"
    using assms m by (simp add: unsigned_of_nat take_bit_eq_mod div_less_iff_less_mult)
  have "m mod 86400000 < 86400000" by simp
  then have ms: "unat (word_of_nat (m mod 86400000) :: u32) = m mod 86400000"
    by (simp add: unsigned_of_nat take_bit_eq_mod)
  have val: "m div 86400000 * 86400000 + 441763200000 + m mod 86400000 = unat t"
    unfolding m(2) using div_mult_mod_eq [of m 86400000] by linarith
  note val = arg_cong [OF val, of "word_of_nat :: nat \<Rightarrow> u64"]
  show ?thesis
    using val
    by (simp add: Let_def m(1) overlay_overlay_44 assms rdn_def be_nat_be16 be_nat_be32 days ms del: of_nat_add of_nat_mult)
qed

theorem binary_time_roundtrip_witness:
  "MmsValue_setBinaryTime (MMS_BINARY_TIME 6 [0, 0, 0, 0, 0, 0]) 1700000000123 \<bind> MmsValue_getBinaryTimeAsUtcMs
    = Some 1700000000123"
  using binary_time_roundtrip [of 1700000000123 "[0, 0, 0, 0, 0, 0]"] by simp

subsection \<open>Copies and bits\<close>

lemma copy_max_loop_writes:
  "p \<le> m \<Longrightarrow> copy_max_loop res m p str = map_option fst (puts (take (m - p) str @ [0]) res p)"
proof (induction str arbitrary: res p)
  case (Cons c str)
  show ?case
  proof (cases "p < m")
    case True
    then obtain k where k: "m - p = Suc k" "k = m - Suc p" by (cases "m - p") auto
    show ?thesis
    proof (cases "p < length res")
      case len: True
      with True Cons.IH [of "Suc p" "res[p := c]"] show ?thesis
        by (simp add: k put_def puts.simps(2))
    qed (simp add: True k put_def puts.simps(2))
  next
    case False
    with Cons.prems show ?thesis by (simp add: put_eq_puts)
  qed
qed (simp add: put_eq_puts)

lemma copyStringMax_short:
  "length s < n \<Longrightarrow> StringUtils_copyStringMax (replicate n x) n s = Some (s @ 0 # replicate (n - length s - 1) x)"
  by (simp add: StringUtils_copyStringMax_def copy_max_loop_writes puts_eq overlay_def)

lemma cstr_wf: "0 \<in> set b \<Longrightarrow> \<exists>s. cstr b = Some s \<and> length s < length b \<and> 0 \<notin> set s"
proof -
  assume "0 \<in> set b"
  then obtain x y where b: "b = x @ 0 # y" "0 \<notin> set x" by (meson split_list_first)
  then show ?thesis by (intro exI [of _ x]) simp
qed

lemma clone_string_wf:
  assumes "string_wf (Some b) n"
  shows "\<exists>b'. clone_string (Some b) n = Some (Some b', n) \<and> string_wf (Some b') n
    \<and> string_bufs_equal (Some b) (Some b') = Some True"
proof -
  obtain s where s: "cstr b = Some s" "length s < length b" "0 \<notin> set s"
    using assms cstr_wf [of b] by (auto simp: string_wf_def)
  have n: "nat (n + 1) = length b" "length b = nat n + 1" "0 \<le> n" using assms by (auto simp: string_wf_def)
  have "clone_string (Some b) n = Some (Some (s @ 0 # replicate (length b - length s - 1) 0), n)"
    by (simp only: clone_string_def s n(1) copyStringMax_short [OF s(2)] bind.bind_lunit)
  then show ?thesis using s n by (auto simp: string_wf_def string_bufs_equal_def)
qed

fun has_null_string :: "MmsValue \<Rightarrow> bool"
  and null_string_component :: "MmsValue option list \<Rightarrow> bool" where
  "has_null_string (MMS_VISIBLE_STRING b _) = (b = None)"
| "has_null_string (MMS_STRING b _) = (b = None)"
| "has_null_string (MMS_ARRAY xs) = null_string_component xs"
| "has_null_string (MMS_STRUCTURE xs) = null_string_component xs"
| "has_null_string _ = False"
| "null_string_component [] = False"
| "null_string_component (x # xs) =
     ((case x of None \<Rightarrow> False | Some v \<Rightarrow> has_null_string v) \<or> null_string_component xs)"

lemma clone_integer_wf: "asn1_wf a \<Longrightarrow> Asn1PrimitiveValue_clone a = Some a"
  by (simp add: Asn1PrimitiveValue_clone_def asn1_wf_def rdn_def)

lemma clone_scalar:
  assumes "is_scalar v" "mms_wf v" "\<not> has_null_string v"
  shows "\<exists>w. MmsValue_clone v = Some w \<and> mms_wf w \<and> MmsValue_equals v w = Some True"
proof (cases v)
  case (MMS_VISIBLE_STRING b n)
  with assms clone_string_wf [of "the b" n] show ?thesis by force
next
  case (MMS_STRING b n)
  with assms clone_string_wf [of "the b" n] show ?thesis by force
qed (use assms in \<open>auto simp: is_scalar_def clone_integer_wf compare_wf rdn_def mem_eq_def puts_eq overlay_def\<close>)

lemma clone_null_scalar: "is_scalar v \<Longrightarrow> has_null_string v \<Longrightarrow> MmsValue_clone v = None"
  by (cases v) (auto simp: is_scalar_def clone_string_def)

lemma clone_ok:
  shows "mms_wf v \<Longrightarrow> \<not> has_null_string v \<Longrightarrow>
    \<exists>w. MmsValue_clone v = Some w \<and> mms_wf w \<and> MmsValue_equals v w = Some True"
   and "mms_wf_components xs \<Longrightarrow> \<not> null_string_component xs \<Longrightarrow>
    \<exists>ys. clone_components xs = Some ys \<and> mms_wf_components ys \<and> length ys = length xs
      \<and> components_equal xs ys = Some True"
proof (induction v and xs rule: value_components_induct)
  case (cons x xs)
  then obtain v ys where "x = Some v" "mms_wf v" "clone_components xs = Some ys" "mms_wf_components ys" "length ys = length xs"
     "components_equal xs ys = Some True" by auto
  with cons show ?case by auto
qed (auto intro: clone_scalar)

lemma clone_null:
  shows "mms_wf v \<Longrightarrow> has_null_string v \<Longrightarrow> MmsValue_clone v = None"
   and "mms_wf_components xs \<Longrightarrow> null_string_component xs \<Longrightarrow> clone_components xs = None"
  by (induction v and xs rule: value_components_induct)
    (auto simp: clone_null_scalar split: option.splits)

text \<open>
  C36: Cloning a well-formed value succeeds and yields a well-formed value that
  \<open>MmsValue_equals\<close> accepts as equal, for every nesting of arrays and structures, except that a
  string without a buffer anywhere in the value makes the clone read a null pointer.
\<close>

theorem clone_equals_original:
  assumes "mms_wf v"
  shows "if has_null_string v then MmsValue_clone v = None
    else \<exists>w. MmsValue_clone v = Some w \<and> mms_wf w \<and> MmsValue_equals v w = Some True"
  using assms clone_ok(1) clone_null(1) by simp

theorem clone_equals_original_witness:
  "\<exists>w. MmsValue_clone (MMS_STRUCTURE [Some (MMS_BOOLEAN True), Some (MMS_VISIBLE_STRING (Some [65, 0]) 1)]) = Some w
     \<and> MmsValue_equals (MMS_STRUCTURE [Some (MMS_BOOLEAN True), Some (MMS_VISIBLE_STRING (Some [65, 0]) 1)]) w = Some True"
  using clone_equals_original [of "MMS_STRUCTURE [Some (MMS_BOOLEAN True), Some (MMS_VISIBLE_STRING (Some [65, 0]) 1)]"]
  by (auto simp: string_wf_def)

lemma bit_byte_pos: "i < n \<Longrightarrow> i div 8 < bitStringByteSize n"
  by (auto simp: bitStringByteSize_def)

lemma and_push_bit_pos: "k < 8 \<Longrightarrow> 0 < (b :: u8) AND 2 ^ k \<longleftrightarrow> bit b k"
  using and_exp_cases [of b k] by (simp add: word_gt_0)

lemma bits_getBit_eq:
  "length buf = bitStringByteSize n \<Longrightarrow> bits_getBit n buf i = Some (i < n \<and> bit (buf ! (i div 8)) (7 - i mod 8))"
  using bit_byte_pos [of i n] by (simp add: bits_getBit_def Let_def rd_in and_push_bit_pos)

lemma bit_set_clear:
  assumes "k < 8" "j < 8"
  shows "bit (if v then (b :: u8) OR push_bit k 1 else b AND NOT (push_bit k 1)) j = (if j = k then v else bit b j)"
  using assms by (auto simp: bit_or_iff bit_and_iff bit_not_iff bit_exp_iff)

lemma octet_bit_inj: "j div 8 = i div 8 \<and> 7 - j mod 8 = 7 - i mod 8 \<longleftrightarrow> j = (i :: nat)"
proof
  assume *: "j div 8 = i div 8 \<and> 7 - j mod 8 = 7 - i mod 8"
  have "j mod 8 < 8" "i mod 8 < 8" by simp_all
  with * have "j mod 8 = i mod 8" by linarith
  with * show "j = i" using div_mult_mod_eq [of j 8] div_mult_mod_eq [of i 8] by metis
qed simp

text \<open>
  Setting bit i of a bit string always succeeds, keeps the string well formed, changes
  exactly that bit as seen through \<open>MmsValue_getBitStringBit\<close>, and changes nothing when i lies
  beyond the string.
\<close>

theorem bit_string_bits:
  assumes "mms_wf (MMS_BIT_STRING n buf)"
  shows "\<exists>buf'. MmsValue_setBitStringBit (MMS_BIT_STRING n buf) i v = Some (MMS_BIT_STRING n buf')
    \<and> mms_wf (MMS_BIT_STRING n buf')
    \<and> (\<forall>j. MmsValue_getBitStringBit (MMS_BIT_STRING n buf') j =
           (if j = i \<and> i < n then Some v else MmsValue_getBitStringBit (MMS_BIT_STRING n buf) j))"
proof (cases "i < n")
  case True
  have len: "length buf = bitStringByteSize n" using assms by simp
  let ?b = "if v then buf ! (i div 8) OR push_bit (7 - i mod 8) 1 else buf ! (i div 8) AND NOT (push_bit (7 - i mod 8) 1)"
  have set: "bits_setBit n buf i v = Some (buf[i div 8 := ?b])"
    using True bit_byte_pos [OF True] len by (simp add: bits_setBit_def Let_def rd_in)
  have get: "bits_getBit n (buf[i div 8 := ?b]) j = (if j = i \<and> i < n then Some v else bits_getBit n buf j)" for j
  proof -
    have "bits_getBit n (buf[i div 8 := ?b]) j
      = Some (j < n \<and> (if j div 8 = i div 8 then if j = i then v else bit (buf ! (i div 8)) (7 - j mod 8)
          else bit (buf ! (j div 8)) (7 - j mod 8)))"
      using len bit_byte_pos [OF True] bit_set_clear [of "7 - i mod 8" "7 - j mod 8" v "buf ! (i div 8)"] octet_bit_inj [of j i]
      by (auto simp: bits_getBit_eq nth_list_update)
    then show ?thesis using len True by (auto simp: bits_getBit_eq)
  qed
  show ?thesis by (simp add: set get len)
qed (use assms in \<open>simp add: bits_setBit_def\<close>)

theorem bit_string_bits_witness:
  "\<exists>buf'. MmsValue_setBitStringBit (MMS_BIT_STRING 10 [0, 0]) 9 True = Some (MMS_BIT_STRING 10 buf')
    \<and> MmsValue_getBitStringBit (MMS_BIT_STRING 10 buf') 9 = Some True"
  using bit_string_bits [of 10 "[0, 0]" 9 True] by (auto simp: bitStringByteSize_def)

end
