(* ===== verification/MmsAccessResult.thy ===== *)
theory MmsAccessResult
  imports MmsValue
begin

text \<open>
  MMS data on the wire, \<open>src/libiec61850/src/mms/iso_mms/server/mms_access_result.c\<close>.
  \<open>MmsValue_encodeMmsData\<close> has a mode that only computes the size (\<open>encode = false\<close>) and a mode
  that writes; they are two functions here.  The writer announces the computed size in the header
  of an array or structure, so both must agree with the bytes really written: the reference
  encoding \<open>mms_bytes\<close> is what both are compared with.  The decoder is recursive with a depth
  limit; \<open>DecErr\<close> is its error exit, \<open>DecOk\<close> carries the returned pointer (which may be \<open>NULL\<close>
  also on a regular exit) and the value stored through \<open>endBufPos\<close>.
\<close>

subsection \<open>Sizes\<close>

fun MmsValue_encodedSize :: "MmsValue \<Rightarrow> nat option"
  and components_encodedSize :: "MmsValue option list \<Rightarrow> nat option" where
  "MmsValue_encodedSize (MMS_BOOLEAN _) = Some 3"
| "MmsValue_encodedSize (MMS_STRUCTURE xs) = do {
     componentsSize \<leftarrow> components_encodedSize xs;
     Some (1 + componentsSize + BerEncoder_determineLengthSize componentsSize) }"
| "MmsValue_encodedSize (MMS_ARRAY xs) = do {
     elementsSize \<leftarrow> components_encodedSize xs;
     Some (1 + elementsSize + BerEncoder_determineLengthSize elementsSize) }"
| "MmsValue_encodedSize (MMS_DATA_ACCESS_ERROR e) = Some (2 + BerEncoder_UInt32determineEncodedSize e)"
| "MmsValue_encodedSize (MMS_VISIBLE_STRING b _) = map_option BerEncoder_determineEncodedStringSize (opt_cstr b)"
| "MmsValue_encodedSize (MMS_UNSIGNED a) = Some (2 + asn1_size a)"
| "MmsValue_encodedSize (MMS_INTEGER a) = Some (2 + asn1_size a)"
| "MmsValue_encodedSize (MMS_UTC_TIME _) = Some 10"
| "MmsValue_encodedSize (MMS_BIT_STRING n _) = Some (BerEncoder_determineEncodedBitStringSize n)"
| "MmsValue_encodedSize (MMS_BINARY_TIME n _) = Some (2 + n)"
| "MmsValue_encodedSize (MMS_OCTET_STRING n _ _) = Some (1 + BerEncoder_determineLengthSize n + n)"
| "MmsValue_encodedSize (MMS_FLOAT _ f _) = Some (f div 8 + 1 + 2)"
| "MmsValue_encodedSize (MMS_STRING b _) = map_option BerEncoder_determineEncodedStringSize (opt_cstr b)"
| "MmsValue_encodedSize MMS_GENERALIZED_TIME = Some 0"
| "MmsValue_encodedSize MMS_BCD = Some 0"
| "MmsValue_encodedSize MMS_OBJ_ID = Some 0"
| "components_encodedSize [] = Some 0"
| "components_encodedSize (x # xs) =
     (case x of None \<Rightarrow> None
      | Some v \<Rightarrow> do {
          n \<leftarrow> MmsValue_encodedSize v;
          m \<leftarrow> components_encodedSize xs;
          Some (n + m) })"

fun MmsValue_getMaxEncodedSize :: "MmsValue \<Rightarrow> nat option"
  and MmsValue_getMaxStructSize :: "MmsValue option list \<Rightarrow> nat option" where
  "MmsValue_getMaxEncodedSize (MMS_STRUCTURE xs) = do {
     componentsSize \<leftarrow> MmsValue_getMaxStructSize xs;
     Some (1 + componentsSize + BerEncoder_determineLengthSize componentsSize) }"
| "MmsValue_getMaxEncodedSize (MMS_ARRAY xs) = do {
     componentsSize \<leftarrow> MmsValue_getMaxStructSize xs;
     Some (1 + componentsSize + BerEncoder_determineLengthSize componentsSize) }"
| "MmsValue_getMaxEncodedSize (MMS_BOOLEAN _) = Some 3"
| "MmsValue_getMaxEncodedSize (MMS_DATA_ACCESS_ERROR _) = Some 7"
| "MmsValue_getMaxEncodedSize (MMS_VISIBLE_STRING _ n) =
     (let elementSize = nat \<bar>n\<bar> in Some (1 + elementSize + BerEncoder_determineLengthSize elementSize))"
| "MmsValue_getMaxEncodedSize (MMS_UNSIGNED a) = Some (2 + asn1_maxSize a)"
| "MmsValue_getMaxEncodedSize (MMS_INTEGER a) = Some (2 + asn1_maxSize a)"
| "MmsValue_getMaxEncodedSize (MMS_UTC_TIME _) = Some 10"
| "MmsValue_getMaxEncodedSize (MMS_BIT_STRING n _) = Some (BerEncoder_determineEncodedBitStringSize n)"
| "MmsValue_getMaxEncodedSize (MMS_BINARY_TIME n _) = Some (2 + n)"
| "MmsValue_getMaxEncodedSize (MMS_OCTET_STRING _ maxSize _) =
     (let elementSize = nat \<bar>maxSize\<bar> in Some (1 + BerEncoder_determineLengthSize elementSize + elementSize))"
| "MmsValue_getMaxEncodedSize (MMS_FLOAT _ f _) = Some (f div 8 + 1 + 2)"
| "MmsValue_getMaxEncodedSize (MMS_STRING _ n) =
     (let elementSize = nat \<bar>n\<bar> in Some (1 + elementSize + BerEncoder_determineLengthSize elementSize))"
| "MmsValue_getMaxEncodedSize MMS_GENERALIZED_TIME = Some 0"
| "MmsValue_getMaxEncodedSize MMS_BCD = Some 0"
| "MmsValue_getMaxEncodedSize MMS_OBJ_ID = Some 0"
| "MmsValue_getMaxStructSize [] = Some 0"
| "MmsValue_getMaxStructSize (x # xs) =
     (case x of None \<Rightarrow> None
      | Some v \<Rightarrow> do {
          n \<leftarrow> MmsValue_getMaxEncodedSize v;
          m \<leftarrow> MmsValue_getMaxStructSize xs;
          Some (n + m) })"

subsection \<open>Encoding\<close>

fun MmsValue_encodeMmsData :: "MmsValue \<Rightarrow> writer"
  and encode_components :: "MmsValue option list \<Rightarrow> writer" where
  "MmsValue_encodeMmsData (MMS_BOOLEAN b) buffer bufPos = BerEncoder_encodeBoolean 0x83 b buffer bufPos"
| "MmsValue_encodeMmsData (MMS_STRUCTURE xs) buffer bufPos = do {
     componentsSize \<leftarrow> components_encodedSize xs;
     (buffer, bufPos) \<leftarrow> put 0xa2 buffer bufPos;
     (buffer, bufPos) \<leftarrow> BerEncoder_encodeLength componentsSize buffer bufPos;
     encode_components xs buffer bufPos }"
| "MmsValue_encodeMmsData (MMS_ARRAY xs) buffer bufPos = do {
     elementsSize \<leftarrow> components_encodedSize xs;
     (buffer, bufPos) \<leftarrow> put 0xa1 buffer bufPos;
     (buffer, bufPos) \<leftarrow> BerEncoder_encodeLength elementsSize buffer bufPos;
     encode_components xs buffer bufPos }"
| "MmsValue_encodeMmsData (MMS_DATA_ACCESS_ERROR e) buffer bufPos = do {
     (buffer, bufPos) \<leftarrow> BerEncoder_encodeTL 0x80 (BerEncoder_UInt32determineEncodedSize e) buffer bufPos;
     BerEncoder_encodeUInt32 e buffer bufPos }"
| "MmsValue_encodeMmsData (MMS_VISIBLE_STRING b _) buffer bufPos = do {
     s \<leftarrow> opt_cstr b; BerEncoder_encodeStringWithTag 0x8a s buffer bufPos }"
| "MmsValue_encodeMmsData (MMS_UNSIGNED a) buffer bufPos = BerEncoder_encodeAsn1PrimitiveValue 0x86 a buffer bufPos"
| "MmsValue_encodeMmsData (MMS_INTEGER a) buffer bufPos = BerEncoder_encodeAsn1PrimitiveValue 0x85 a buffer bufPos"
| "MmsValue_encodeMmsData (MMS_UTC_TIME t) buffer bufPos = BerEncoder_encodeOctetString 0x91 t 8 buffer bufPos"
| "MmsValue_encodeMmsData (MMS_BIT_STRING n bits) buffer bufPos =
     BerEncoder_encodeBitString 0x84 n bits buffer bufPos"
| "MmsValue_encodeMmsData (MMS_BINARY_TIME n t) buffer bufPos = BerEncoder_encodeOctetString 0x8c t n buffer bufPos"
| "MmsValue_encodeMmsData (MMS_OCTET_STRING n _ b) buffer bufPos = BerEncoder_encodeOctetString 0x89 b n buffer bufPos"
| "MmsValue_encodeMmsData (MMS_FLOAT e f mem) buffer bufPos = do {
     (buffer, bufPos) \<leftarrow> BerEncoder_encodeTL 0x87 (f div 8 + 1) buffer bufPos;
     BerEncoder_encodeFloat mem f e buffer bufPos }"
| "MmsValue_encodeMmsData (MMS_STRING b _) buffer bufPos = do {
     s \<leftarrow> opt_cstr b; BerEncoder_encodeStringWithTag 0x90 s buffer bufPos }"
| "MmsValue_encodeMmsData MMS_GENERALIZED_TIME buffer bufPos = Some (buffer, bufPos)"
| "MmsValue_encodeMmsData MMS_BCD buffer bufPos = Some (buffer, bufPos)"
| "MmsValue_encodeMmsData MMS_OBJ_ID buffer bufPos = Some (buffer, bufPos)"
| "encode_components [] buffer bufPos = Some (buffer, bufPos)"
| "encode_components (x # xs) buffer bufPos =
     (case x of None \<Rightarrow> None
      | Some v \<Rightarrow> do {
          (buffer, bufPos) \<leftarrow> MmsValue_encodeMmsData v buffer bufPos;
          encode_components xs buffer bufPos })"

subsection \<open>Decoding\<close>

datatype dec_result = DecErr | DecOk "MmsValue option" nat

definition mms_data_tags :: "u8 list" where
  "mms_data_tags = [0x80, 0xa1, 0xa2, 0x83, 0x84, 0x85, 0x86, 0x87, 0x89, 0x8a, 0x8c, 0x91, 0x00]"

text \<open>The inner \<open>None\<close> is the return value \<open>-1\<close>; the fuel bounds the rounds by the bytes left.\<close>

fun count_elements :: "nat \<Rightarrow> bytes \<Rightarrow> nat \<Rightarrow> nat \<Rightarrow> nat \<Rightarrow> nat option option" where
  "count_elements 0 buffer bufPos elementEndBufPos elementIndex = None"
| "count_elements (Suc fuel) buffer bufPos elementEndBufPos elementIndex =
     (if bufPos < elementEndBufPos then do {
        tag \<leftarrow> rd buffer bufPos;
        r \<leftarrow> BerDecoder_decodeLength buffer (bufPos + 1) elementEndBufPos;
        (case r of
           LenErr \<Rightarrow> Some None
         | LenOk bufPos elementLength \<Rightarrow>
             if tag \<in> set mms_data_tags
             then count_elements fuel buffer (bufPos + elementLength) elementEndBufPos (elementIndex + 1)
             else Some None) }
      else Some (Some elementIndex))"

definition getNumberOfElements :: "bytes \<Rightarrow> nat \<Rightarrow> nat \<Rightarrow> nat option option" where
  "getNumberOfElements buffer bufPos elementLength =
     count_elements (elementLength + 1) buffer bufPos (bufPos + elementLength) 0"

text \<open>The cases of the switch other than arrays and structures.\<close>

definition decode_scalar :: "u8 \<Rightarrow> bytes \<Rightarrow> nat \<Rightarrow> nat \<Rightarrow> dec_result option" where
  "decode_scalar tag buffer bufPos dataLength =
     (if tag = 0x80 then do {
        e \<leftarrow> BerDecoder_decodeUint32 buffer dataLength bufPos;
        Some (DecOk (Some (MmsValue_newDataAccessError e)) (bufPos + dataLength)) }
      else if tag = 0x83 then do {
        b \<leftarrow> BerDecoder_decodeBoolean buffer bufPos;
        Some (DecOk (Some (MmsValue_newBoolean b)) (bufPos + dataLength)) }
      else if tag = 0x84 then do {
        padding \<leftarrow> rd buffer bufPos;
        if 7 < padding then Some DecErr
        else
          (case MmsValue_newBitString (8 * (int dataLength - 1) - int (unat padding)) of
             MMS_BIT_STRING n buf \<Rightarrow> do {
               octets \<leftarrow> rdn buffer (bufPos + 1) (dataLength - 1);
               (buf, _) \<leftarrow> puts octets buf 0;
               Some (DecOk (Some (MMS_BIT_STRING n buf)) (bufPos + dataLength)) }
           | _ \<Rightarrow> None) }
      else if tag = 0x85 then
        (if 8 < dataLength then Some DecErr
         else (case MmsValue_newInteger (dataLength * 8) of
                 MMS_INTEGER a \<Rightarrow> do {
                   octets \<leftarrow> rdn buffer bufPos dataLength;
                   a \<leftarrow> asn1_store a octets;
                   Some (DecOk (Some (MMS_INTEGER a)) (bufPos + dataLength)) }
               | _ \<Rightarrow> None))
      else if tag = 0x86 then
        (if 8 < dataLength then Some DecErr
         else (case MmsValue_newUnsigned (dataLength * 8) of
                 MMS_UNSIGNED a \<Rightarrow> do {
                   octets \<leftarrow> rdn buffer bufPos dataLength;
                   a \<leftarrow> asn1_store a octets;
                   Some (DecOk (Some (MMS_UNSIGNED a)) (bufPos + dataLength)) }
               | _ \<Rightarrow> None))
      else if tag = 0x87 then
        (if dataLength = 9 then do {
           d \<leftarrow> BerDecoder_decodeDouble buffer bufPos;
           Some (DecOk (Some (MmsValue_newDouble d)) (bufPos + dataLength)) }
         else if dataLength = 5 then do {
           d \<leftarrow> BerDecoder_decodeFloat buffer bufPos;
           Some (DecOk (Some (MmsValue_newFloat d)) (bufPos + dataLength)) }
         else Some (DecOk None (bufPos + dataLength)))
      else if tag = 0x89 then
        (case MmsValue_newOctetString dataLength (int dataLength) of
           MMS_OCTET_STRING n maxSize buf \<Rightarrow> do {
             octets \<leftarrow> rdn buffer bufPos dataLength;
             (buf, _) \<leftarrow> puts octets buf 0;
             Some (DecOk (Some (MMS_OCTET_STRING n maxSize buf)) (bufPos + dataLength)) }
         | _ \<Rightarrow> None)
      else if tag = 0x8a then do {
        v \<leftarrow> MmsValue_newVisibleStringFromByteArray (drop bufPos buffer) dataLength;
        Some (DecOk (Some v) (bufPos + dataLength)) }
      else if tag = 0x8c then
        (if dataLength = 4 \<or> dataLength = 6 then
           (case MmsValue_newBinaryTime (dataLength = 4) of
              MMS_BINARY_TIME n buf \<Rightarrow> do {
                octets \<leftarrow> rdn buffer bufPos dataLength;
                (buf, _) \<leftarrow> puts octets buf 0;
                Some (DecOk (Some (MMS_BINARY_TIME n buf)) (bufPos + dataLength)) }
            | _ \<Rightarrow> None)
         else Some (DecOk None (bufPos + dataLength)))
      else if tag = 0x90 then do {
        v \<leftarrow> MmsValue_newVisibleStringFromByteArray (drop bufPos buffer) dataLength;
        (case v of
           MMS_VISIBLE_STRING b n \<Rightarrow> Some (DecOk (Some (MMS_STRING b n)) (bufPos + dataLength))
         | _ \<Rightarrow> None) }
      else if tag = 0x91 then
        (if dataLength = 8 then do {
           v \<leftarrow> MmsValue_setUtcTimeByBuffer (MmsValue_newUtcTime 0) (drop bufPos buffer);
           Some (DecOk (Some v) (bufPos + dataLength)) }
         else Some DecErr)
      else if tag = 0x00 then Some (DecOk None bufPos)
      else Some DecErr)"

function MmsValue_decodeMmsDataRecursive :: "bytes \<Rightarrow> nat \<Rightarrow> nat \<Rightarrow> nat \<Rightarrow> nat \<Rightarrow> dec_result option"
  and decode_elements ::
    "nat \<Rightarrow> bytes \<Rightarrow> nat \<Rightarrow> nat \<Rightarrow> nat \<Rightarrow> nat \<Rightarrow> (MmsValue option list \<times> nat) option option" where
  "MmsValue_decodeMmsDataRecursive buffer bufPos bufferLength depth maxDepth =
     (if maxDepth < depth + 1 then Some DecErr
      else if bufferLength < 1 then Some DecErr
      else do {
        tag \<leftarrow> rd buffer bufPos;
        r \<leftarrow> BerDecoder_decodeLength buffer (bufPos + 1) bufferLength;
        (case r of
           LenErr \<Rightarrow> Some DecErr
         | LenOk bufPos dataLength \<Rightarrow>
             if tag \<noteq> 0 \<and> tag \<noteq> 0x8a \<and> tag \<noteq> 0x90 \<and> tag \<noteq> 0x89 \<and> dataLength = 0 then Some DecErr
             else if tag = 0xa1 \<or> tag = 0xa2 then do {
               n \<leftarrow> getNumberOfElements buffer bufPos dataLength;
               (case n of
                  None \<Rightarrow> Some DecErr
                | Some elementCount \<Rightarrow> do {
                    r \<leftarrow> decode_elements elementCount buffer bufPos bufferLength (depth + 1) maxDepth;
                    (case r of
                       None \<Rightarrow> Some DecErr
                     | Some (vs, bufPos) \<Rightarrow>
                         Some (DecOk (Some (if tag = 0xa1 then MMS_ARRAY vs else MMS_STRUCTURE vs)) bufPos)) }) }
             else decode_scalar tag buffer bufPos dataLength) })"
| "decode_elements 0 buffer bufPos dataEndBufPos depth maxDepth = Some (Some ([], bufPos))"
| "decode_elements (Suc k) buffer bufPos dataEndBufPos depth maxDepth = do {
     r \<leftarrow> BerDecoder_decodeLength buffer (bufPos + 1) dataEndBufPos;
     (case r of
        LenErr \<Rightarrow> Some None
      | LenOk newBufPos elementLength \<Rightarrow> do {
          let elementBufLength = newBufPos - bufPos + elementLength;
          e \<leftarrow> MmsValue_decodeMmsDataRecursive buffer bufPos (bufPos + elementBufLength) depth maxDepth;
          (case e of
             DecOk (Some elementValue) _ \<Rightarrow> do {
               r \<leftarrow> decode_elements k buffer (newBufPos + elementLength) dataEndBufPos depth maxDepth;
               Some (case r of None \<Rightarrow> None | Some (vs, p) \<Rightarrow> Some (Some elementValue # vs, p)) }
           | _ \<Rightarrow> Some None) }) }"
  by pat_completeness auto
termination
  by (relation "measures
        [\<lambda>x. case x of Inl (_, _, _, depth, maxDepth) \<Rightarrow> maxDepth - depth
                     | Inr (_, _, _, _, depth, maxDepth) \<Rightarrow> maxDepth - depth,
         \<lambda>x. case x of Inl _ \<Rightarrow> 0 | Inr (k, _) \<Rightarrow> k + 1]") auto

definition MmsValue_decodeMmsDataMaxRecursion :: "bytes \<Rightarrow> nat \<Rightarrow> nat \<Rightarrow> nat \<Rightarrow> dec_result option" where
  "MmsValue_decodeMmsDataMaxRecursion buffer bufPos bufferLength maxDepth =
     MmsValue_decodeMmsDataRecursive buffer bufPos bufferLength 0 maxDepth"

definition MmsValue_decodeMmsData :: "bytes \<Rightarrow> nat \<Rightarrow> nat \<Rightarrow> dec_result option" where
  "MmsValue_decodeMmsData buffer bufPos bufferLength =
     MmsValue_decodeMmsDataMaxRecursion buffer bufPos bufferLength 25"

subsection \<open>Reference encoding\<close>

definition string_bytes :: "u8 \<Rightarrow> bytes option \<Rightarrow> bytes" where
  "string_bytes tag b = ber_string tag (Option.bind b cstr)"

fun mms_bytes :: "MmsValue \<Rightarrow> bytes"
  and components_bytes :: "MmsValue option list \<Rightarrow> bytes" where
  "mms_bytes (MMS_BOOLEAN b) = ber_tlv 0x83 [if b then 1 else 0]"
| "mms_bytes (MMS_STRUCTURE xs) = ber_tlv 0xa2 (components_bytes xs)"
| "mms_bytes (MMS_ARRAY xs) = ber_tlv 0xa1 (components_bytes xs)"
| "mms_bytes (MMS_DATA_ACCESS_ERROR e) = ber_tlv 0x80 (ber_u32 e)"
| "mms_bytes (MMS_VISIBLE_STRING b _) = string_bytes 0x8a b"
| "mms_bytes (MMS_UNSIGNED a) = ber_tlv 0x86 (asn1_used a)"
| "mms_bytes (MMS_INTEGER a) = ber_tlv 0x85 (asn1_used a)"
| "mms_bytes (MMS_UTC_TIME t) = ber_tlv 0x91 (take 8 t)"
| "mms_bytes (MMS_BIT_STRING n bits) = ber_tlv 0x84 (ber_bits_content n bits)"
| "mms_bytes (MMS_BINARY_TIME n t) = ber_tlv 0x8c (take n t)"
| "mms_bytes (MMS_OCTET_STRING n _ b) = ber_tlv 0x89 (take n b)"
| "mms_bytes (MMS_FLOAT e f mem) = ber_tlv 0x87 (ber_float_content mem f e)"
| "mms_bytes (MMS_STRING b _) = string_bytes 0x90 b"
| "mms_bytes MMS_GENERALIZED_TIME = []"
| "mms_bytes MMS_BCD = []"
| "mms_bytes MMS_OBJ_ID = []"
| "components_bytes [] = []"
| "components_bytes (x # xs) = (case x of None \<Rightarrow> [] | Some v \<Rightarrow> mms_bytes v) @ components_bytes xs"

text \<open>
  Values on which the size functions are exact: no bit string of 127 or 255 content bytes (where
  \<open>BerEncoder_determineEncodedBitStringSize\<close> is one short) and integers with a one-byte length.
\<close>

fun size_exact :: "MmsValue \<Rightarrow> bool"
  and components_size_exact :: "MmsValue option list \<Rightarrow> bool" where
  "size_exact (MMS_STRUCTURE xs) = components_size_exact xs"
| "size_exact (MMS_ARRAY xs) = components_size_exact xs"
| "size_exact (MMS_BIT_STRING n _) = (bitStringByteSize n \<noteq> 127 \<and> bitStringByteSize n \<noteq> 255)"
| "size_exact (MMS_INTEGER a) = (asn1_size a < 128)"
| "size_exact (MMS_UNSIGNED a) = (asn1_size a < 128)"
| "size_exact _ = True"
| "components_size_exact [] = True"
| "components_size_exact (x # xs) = ((case x of None \<Rightarrow> True | Some v \<Rightarrow> size_exact v) \<and> components_size_exact xs)"

lemma opt_cstr_wf: "string_wf b n \<Longrightarrow> opt_cstr b = Some (Option.bind b cstr)"
  by (auto simp: string_wf_def opt_cstr_def cstr_def split: option.splits)

lemma length_ber_float: "f div 8 \<le> length mem \<Longrightarrow> length (ber_float_content mem f e) = f div 8 + 1"
  by (simp add: ber_float_content_def)

lemma string_size:
  assumes "length (ber_string tag s) < 65535"
  shows "BerEncoder_determineEncodedStringSize s = length (ber_string tag s)"
  using assms by (intro determineEncodedStringSize_eq) (auto simp: ber_string_def wire_simps split: option.splits)

lemma size_scalar:
  assumes "is_scalar v" "mms_wf v" "size_exact v" "length (mms_bytes v) < 65535"
  shows "MmsValue_encodedSize v = Some (length (mms_bytes v))"
proof (cases v)
  case (MMS_DATA_ACCESS_ERROR e)
  with length_ber_u32 [of e] show ?thesis by (simp add: wire_simps length_ber_len)
next
  case (MMS_BIT_STRING n bits)
  with assms show ?thesis
    by (simp add: wire_simps bit_byte_size_eq length_ber_len BerEncoder_determineEncodedBitStringSize_def
        BerEncoder_determineLengthSize_def Let_def)
qed (use assms in \<open>auto simp: is_scalar_def wire_simps length_ber_len opt_cstr_wf string_bytes_def
       string_size length_ber_float BerEncoder_determineLengthSize_def\<close>)

lemma size_exact_eq:
  shows "mms_wf v \<Longrightarrow> size_exact v \<Longrightarrow> length (mms_bytes v) < 65535 \<Longrightarrow>
      MmsValue_encodedSize v = Some (length (mms_bytes v))"
    and "mms_wf_components xs \<Longrightarrow> components_size_exact xs \<Longrightarrow> length (components_bytes xs) < 65535 \<Longrightarrow>
      components_encodedSize xs = Some (length (components_bytes xs))"
  by (induction v and xs rule: value_components_induct)
     (auto simp: size_scalar wire_simps)

lemma float_writes:
  assumes "f div 8 \<le> length mem"
  shows "BerEncoder_encodeTL tag (f div 8 + 1) buf pos \<bind> (\<lambda>(b, p). BerEncoder_encodeFloat mem f e b p)
    = puts (ber_tlv tag (ber_float_content mem f e)) buf pos"
  using assms by (simp add: encodeFloat_writes writer_simps ber_tlv_def length_ber_float)

lemma encode_scalar:
  assumes "is_scalar v" "mms_wf v"
  shows "MmsValue_encodeMmsData v buf pos = puts (mms_bytes v) buf pos"
proof (cases v)
  case (MMS_FLOAT e f mem)
  with assms float_writes [of f mem "0x87" buf pos e] show ?thesis by auto
next
  case (MMS_DATA_ACCESS_ERROR e)
  then show ?thesis by (simp add: writer_simps wire_simps ber_tlv_def)
qed (use assms in \<open>auto simp: is_scalar_def opt_cstr_wf string_bytes_def writer_simps
       encodeAsn1PrimitiveValue_writes encodeOctetString_writes encodeBitString_writes bit_byte_size_eq\<close>)

lemma encode_writes:
  shows "mms_wf v \<Longrightarrow> size_exact v \<Longrightarrow> length (mms_bytes v) < 65535 \<Longrightarrow>
      MmsValue_encodeMmsData v = puts (mms_bytes v)"
    and "mms_wf_components xs \<Longrightarrow> components_size_exact xs \<Longrightarrow> length (components_bytes xs) < 65535 \<Longrightarrow>
      encode_components xs = puts (components_bytes xs)"
proof (induction v and xs rule: value_components_induct)
  case (array xs)
  then show ?case by (intro ext) (simp add: size_exact_eq wire_simps writer_simps ber_tlv_def)
next
  case (struct xs)
  then show ?case by (intro ext) (simp add: size_exact_eq wire_simps writer_simps ber_tlv_def)
next
  case (cons x xs)
  then obtain v where "x = Some v" "mms_wf v" by auto
  with cons show ?case by (intro ext) (simp add: writer_simps)
qed (auto intro!: ext simp: encode_scalar)

text \<open>
  C25: For a well-formed value on which the size functions are exact and whose encoding is below
  64 kB, the size pass computes exactly the number of bytes the writing pass produces; writing
  succeeds whenever that many bytes are left, changes no other byte of the buffer, and ends
  behind the last one.
\<close>

theorem encodeMmsData_exact:
  assumes "mms_wf v" and "size_exact v" and "length (mms_bytes v) < 65535"
    and "pos + length (mms_bytes v) \<le> length buf"
  shows "MmsValue_encodedSize v = Some (length (mms_bytes v))
    \<and> MmsValue_encodeMmsData v buf pos = Some (overlay buf pos (mms_bytes v), pos + length (mms_bytes v))"
  using assms by (simp add: size_exact_eq encode_writes puts_fits)

theorem encodeMmsData_exact_witness:
  "MmsValue_encodeMmsData (MMS_ARRAY [Some (MMS_BOOLEAN True), Some (MMS_BOOLEAN False)]) (replicate 9 0) 1
     = Some ([0, 0xa1, 6, 0x83, 1, 1, 0x83, 1, 0], 9)"
proof -
  let ?v = "MMS_ARRAY [Some (MMS_BOOLEAN True), Some (MMS_BOOLEAN False)]"
  have b: "mms_bytes ?v = [0xa1, 6, 0x83, 1, 1, 0x83, 1, 0]" by (simp add: ber_tlv_def ber_len_def)
  then show ?thesis using encodeMmsData_exact [of ?v 1 "replicate 9 0"]
    by (simp only: b) (simp add: overlay_def)
qed

subsection \<open>Decoding what was encoded\<close>

fun mms_tag :: "MmsValue \<Rightarrow> u8" where
  "mms_tag (MMS_BOOLEAN _) = 0x83"
| "mms_tag (MMS_STRUCTURE _) = 0xa2"
| "mms_tag (MMS_ARRAY _) = 0xa1"
| "mms_tag (MMS_DATA_ACCESS_ERROR _) = 0x80"
| "mms_tag (MMS_VISIBLE_STRING _ _) = 0x8a"
| "mms_tag (MMS_UNSIGNED _) = 0x86"
| "mms_tag (MMS_INTEGER _) = 0x85"
| "mms_tag (MMS_UTC_TIME _) = 0x91"
| "mms_tag (MMS_BIT_STRING _ _) = 0x84"
| "mms_tag (MMS_BINARY_TIME _ _) = 0x8c"
| "mms_tag (MMS_OCTET_STRING _ _ _) = 0x89"
| "mms_tag (MMS_FLOAT _ _ _) = 0x87"
| "mms_tag (MMS_STRING _ _) = 0x90"
| "mms_tag _ = 0xff"

fun mms_content :: "MmsValue \<Rightarrow> bytes" where
  "mms_content (MMS_BOOLEAN b) = [if b then 1 else 0]"
| "mms_content (MMS_STRUCTURE xs) = components_bytes xs"
| "mms_content (MMS_ARRAY xs) = components_bytes xs"
| "mms_content (MMS_DATA_ACCESS_ERROR e) = ber_u32 e"
| "mms_content (MMS_VISIBLE_STRING b _) = (case Option.bind b cstr of Some s \<Rightarrow> s | None \<Rightarrow> [])"
| "mms_content (MMS_UNSIGNED a) = asn1_used a"
| "mms_content (MMS_INTEGER a) = asn1_used a"
| "mms_content (MMS_UTC_TIME t) = take 8 t"
| "mms_content (MMS_BIT_STRING n bits) = ber_bits_content n bits"
| "mms_content (MMS_BINARY_TIME n t) = take n t"
| "mms_content (MMS_OCTET_STRING n _ b) = take n b"
| "mms_content (MMS_FLOAT e f mem) = ber_float_content mem f e"
| "mms_content (MMS_STRING b _) = (case Option.bind b cstr of Some s \<Rightarrow> s | None \<Rightarrow> [])"
| "mms_content _ = []"

lemma mms_bytes_tlv: "mms_wf v \<Longrightarrow> mms_bytes v = ber_tlv (mms_tag v) (mms_content v)"
  by (cases v) (auto simp: string_bytes_def ber_string_def)

text \<open>
  Values the decoder can rebuild: integers of one to eight octets, no empty array or structure, no
  string without a buffer, padding bits zero, and no MMS string inside an array or structure (the
  element counter does not know its tag).
\<close>

fun wire_ok :: "MmsValue \<Rightarrow> bool"
  and components_wire_ok :: "MmsValue option list \<Rightarrow> bool" where
  "wire_ok (MMS_STRUCTURE xs) = (xs \<noteq> [] \<and> components_wire_ok xs)"
| "wire_ok (MMS_ARRAY xs) = (xs \<noteq> [] \<and> components_wire_ok xs)"
| "wire_ok (MMS_VISIBLE_STRING b n) = (b \<noteq> None)"
| "wire_ok (MMS_STRING b n) = (b \<noteq> None)"
| "wire_ok (MMS_UNSIGNED a) = (0 < asn1_size a \<and> asn1_size a \<le> 8)"
| "wire_ok (MMS_INTEGER a) = (0 < asn1_size a \<and> asn1_size a \<le> 8)"
| "wire_ok (MMS_BIT_STRING n bits) =
     (n = 0 \<or> last bits AND padding_mask (bitStringByteSize n * 8 - n) = last bits)"
| "wire_ok _ = True"
| "components_wire_ok [] = True"
| "components_wire_ok (x # xs) =
     ((case x of None \<Rightarrow> False | Some v \<Rightarrow> wire_ok v \<and> MmsValue_getType v \<noteq> T_STRING) \<and> components_wire_ok xs)"

fun mms_depth :: "MmsValue \<Rightarrow> nat"
  and components_depth :: "MmsValue option list \<Rightarrow> nat" where
  "mms_depth (MMS_STRUCTURE xs) = Suc (components_depth xs)"
| "mms_depth (MMS_ARRAY xs) = Suc (components_depth xs)"
| "mms_depth _ = 1"
| "components_depth [] = 0"
| "components_depth (x # xs) = max (case x of None \<Rightarrow> 0 | Some v \<Rightarrow> mms_depth v) (components_depth xs)"

lemma drop_read:
  assumes "drop p buf = xs @ r" and "p \<le> length buf"
  shows "rdn buf p (length xs) = Some xs"
proof -
  have "length buf - p = length xs + length r" using arg_cong [OF assms(1), of length] by simp
  with assms show ?thesis by (auto simp: rdn_def)
qed

lemma drop_read_Cons: "drop p buf = x # r \<Longrightarrow> rd buf p = Some x"
  using rd_drop [of p buf 0] by (simp add: rd_def)

lemma drop_tail: "drop p buf = x # r \<Longrightarrow> drop (Suc p) buf = r"
  by (metis drop_Suc drop_tl list.sel(3))

lemma drop_append: "drop p buf = xs @ r \<Longrightarrow> drop (p + length xs) buf = r"
  by (metis add.commute append_eq_conv_conj drop_drop)


lemma bits_content:
  assumes "length bits = bitStringByteSize n" and "wire_ok (MMS_BIT_STRING n bits)"
  shows "\<exists>k. k < 8 \<and> bitStringByteSize n * 8 = n + k \<and> ber_bits_content n bits = word_of_nat k # bits"
proof -
  define k where "k = bitStringByteSize n * 8 - n"
  have k: "k < 8" "bitStringByteSize n * 8 = n + k" by (auto simp: k_def bitStringByteSize_def) presburger+
  have "ber_bits_content n bits = word_of_nat k # bits"
  proof (cases "n = 0")
    case True
    then show ?thesis using assms(1)
      by (simp add: ber_bits_content_def bit_byte_size_eq k_def bitStringByteSize_def mask_last_def padding_mask_def)
  next
    case False
    then have "bits \<noteq> []" using k assms(1) by (cases bits) auto
    moreover from this have "bitStringByteSize n \<noteq> 0" using assms(1) by (metis length_0_conv)
    ultimately show ?thesis using assms(1,2) False
      by (simp add: ber_bits_content_def bit_byte_size_eq k_def [symmetric] mask_last_def Let_def)
  qed
  with k show ?thesis by blast
qed

lemma bits_read:
  assumes "length bits = bitStringByteSize n" and "wire_ok (MMS_BIT_STRING n bits)"
    and "drop p buf = ber_bits_content n bits @ r"
  obtains k where "k < 8" and "bitStringByteSize n * 8 = n + k" and "length (ber_bits_content n bits) = Suc (length bits)"
    and "rd buf p = Some (word_of_nat k)" and "rdn buf (Suc p) (length bits) = Some bits"
    and "unat (word_of_nat k :: u8) = k" and "\<not> 7 < (word_of_nat k :: u8)"
proof -
  obtain k where k: "k < 8" "bitStringByteSize n * 8 = n + k" "ber_bits_content n bits = word_of_nat k # bits"
    using bits_content [OF assms(1,2)] by blast
  then have pad: "rd buf p = Some (word_of_nat k)" and tl: "drop (Suc p) buf = bits @ r"
    using assms(3) by (auto intro: drop_read_Cons drop_tail)
  have "Suc p \<le> length buf" using pad by (auto simp: rd_def split: if_splits)
  with tl have oct: "rdn buf (Suc p) (length bits) = Some bits" by (rule drop_read)
  have u: "unat (word_of_nat k :: u8) = k" using k by simp
  then have "\<not> 7 < (word_of_nat k :: u8)" using k by (simp add: word_less_nat_alt)
  with k pad oct u show ?thesis by (intro that) simp_all
qed

lemma decode_bits:
  assumes "length bits = bitStringByteSize n" and "wire_ok (MMS_BIT_STRING n bits)"
    and "drop p buf = ber_bits_content n bits @ r"
  shows "decode_scalar 0x84 buf p (length (ber_bits_content n bits))
    = Some (DecOk (Some (MMS_BIT_STRING n bits)) (p + length (ber_bits_content n bits)))"
proof -
  obtain k where k: "bitStringByteSize n * 8 = n + k" "length (ber_bits_content n bits) = Suc (length bits)"
      "rd buf p = Some (word_of_nat k)" "rdn buf (Suc p) (length bits) = Some bits"
      "unat (word_of_nat k :: u8) = k" "\<not> 7 < (word_of_nat k :: u8)"
    using bits_read [OF assms] by metis
  have "nat \<bar>8 * int (length bits) - int k\<bar> = n" using k(1) assms(1) by simp
  then show ?thesis using k assms(1)
    by (simp add: decode_scalar_def MmsValue_newBitString_def Let_def puts_eq overlay_def)
qed


lemma decode_integer:
  assumes "asn1_wf a" and "0 < asn1_size a" and "asn1_size a \<le> 8" and "rdn buf p (asn1_size a) = Some (asn1_used a)"
  shows "\<exists>b. asn1_wf b \<and> asn1_used b = asn1_used a
    \<and> decode_scalar 0x85 buf p (asn1_size a) = Some (DecOk (Some (MMS_INTEGER b)) (p + asn1_size a))
    \<and> decode_scalar 0x86 buf p (asn1_size a) = Some (DecOk (Some (MMS_UNSIGNED b)) (p + asn1_size a))"
proof -
  let ?c = "if asn1_size a \<le> 4 then BerInteger_createInt32 else BerInteger_createInt64"
  have "asn1_wf ?c" "length (asn1_used a) \<le> asn1_maxSize ?c" using assms by auto
  then obtain b where b: "asn1_store ?c (asn1_used a) = Some b" "asn1_wf b" "asn1_used b = asn1_used a"
    using asn1_store_ok by blast
  have "MmsValue_newInteger (asn1_size a * 8) = MMS_INTEGER ?c" "MmsValue_newUnsigned (asn1_size a * 8) = MMS_UNSIGNED ?c"
    by (simp_all add: MmsValue_newInteger_def MmsValue_newUnsigned_def)
  with assms b show ?thesis by (simp add: decode_scalar_def)
qed

lemma createStringFromBuffer_ok:
  "rdn buf p n = Some s \<Longrightarrow> p \<le> length buf \<Longrightarrow> StringUtils_createStringFromBuffer (drop p buf) n = Some (s @ [0])"
  by (simp add: StringUtils_createStringFromBuffer_def)

lemma string_content:
  assumes "string_wf b n" and "b \<noteq> None"
  shows "\<exists>s x. b = Some x \<and> cstr x = Some s \<and> 0 \<notin> set s"
  using assms cstr_wf by (fastforce simp: string_wf_def)

lemma decode_scalar_ok:
  assumes "is_scalar v" and "mms_wf v" and "wire_ok v" and "drop p buf = mms_content v @ r" and "p \<le> length buf"
    and "length (mms_content v) < 65536"
  shows "\<exists>w. decode_scalar (mms_tag v) buf p (length (mms_content v))
      = Some (DecOk (Some w) (p + length (mms_content v))) \<and> MmsValue_equals v w = Some True"
proof -
  have rd: "rdn buf p (length (mms_content v)) = Some (mms_content v)"
    using assms by (intro drop_read)
  show ?thesis
  proof (cases v)
    case (MMS_BOOLEAN b)
    with assms(4) show ?thesis
      by (auto simp: decode_scalar_def BerDecoder_decodeBoolean_def drop_read_Cons MmsValue_newBoolean_def)
  next
    case (MMS_BIT_STRING n bits)
    with assms decode_bits [of bits n p buf r] show ?thesis by (simp add: mem_eq_prefix)
  next
    case (MMS_INTEGER a)
    with assms rd decode_integer [of a buf p] show ?thesis by (auto simp: compare_wf)
  next
    case (MMS_UNSIGNED a)
    with assms rd decode_integer [of a buf p] show ?thesis by (auto simp: compare_wf)
  next
    case (MMS_FLOAT e f mem)
    with assms(2) have f: "f = 32 \<or> f = 64" "length mem = 8" by auto
    have tl: "drop (Suc p) buf = rev (take (f div 8) mem) @ r" and "rd buf p = Some e"
      using assms(4) MMS_FLOAT by (auto simp: ber_float_content_def intro: drop_tail drop_read_Cons)
    then have "Suc p \<le> length buf" by (auto simp: rd_def split: if_splits)
    with drop_read [OF tl] f have "rdn buf (p + 1) (f div 8) = Some (rev (take (f div 8) mem))" by auto
    with f MMS_FLOAT show ?thesis
      by (auto simp: decode_scalar_def length_ber_float BerDecoder_decodeDouble_def BerDecoder_decodeFloat_def
          MmsValue_newDouble_def MmsValue_newFloat_def mem_eq_prefix overlay_def)
  next
    case (MMS_OCTET_STRING n maxSize b)
    with assms rd show ?thesis
      by (simp add: decode_scalar_def MmsValue_newOctetString_def to_uint16_def puts_eq overlay_def mem_eq_prefix)
  next
    case (MMS_VISIBLE_STRING b n)
    with assms string_content [of b n] obtain s x where "b = Some x" "cstr x = Some s" "0 \<notin> set s" by auto
    with MMS_VISIBLE_STRING rd assms(5) show ?thesis
      by (simp add: decode_scalar_def MmsValue_newVisibleStringFromByteArray_def createStringFromBuffer_ok string_bufs_equal_def)
  next
    case (MMS_STRING b n)
    with assms string_content [of b n] obtain s x where "b = Some x" "cstr x = Some s" "0 \<notin> set s" by auto
    with MMS_STRING rd assms(5) show ?thesis
      by (simp add: decode_scalar_def MmsValue_newVisibleStringFromByteArray_def createStringFromBuffer_ok string_bufs_equal_def)
  next
    case (MMS_BINARY_TIME n t)
    with assms rd show ?thesis
      by (auto simp: decode_scalar_def MmsValue_newBinaryTime_def puts_eq overlay_def mem_eq_prefix)
  next
    case (MMS_UTC_TIME t)
    with assms rd show ?thesis
      by (simp add: decode_scalar_def MmsValue_newUtcTime_def mem_eq_prefix rdn_def)
  next
    case (MMS_DATA_ACCESS_ERROR e)
    with assms(4) decodeUint32_be [of p buf "ber_u32 e" r] show ?thesis
      by (simp add: decode_scalar_def MmsValue_newDataAccessError_def be_nat_ber_u32)
  qed (use assms in \<open>auto simp: is_scalar_def\<close>)
qed


lemma tlv_parts:
  assumes "drop p buf = ber_tlv tag c @ r" and "length c < 65535"
    and "p + length (ber_tlv tag c) \<le> maxp" and "maxp < 2 ^ 31"
  shows "rd buf p = Some tag"
    and "BerDecoder_decodeLength buf (p + 1) maxp = Some (LenOk (p + 1 + length (ber_len (length c))) (length c))"
    and "drop (p + 1 + length (ber_len (length c))) buf = c @ r"
    and "p + length (ber_tlv tag c) = p + 1 + length (ber_len (length c)) + length c"
    and "p + length (ber_tlv tag c) \<le> length buf"
proof -
  have "length buf - p = length (ber_tlv tag c) + length r" using arg_cong [OF assms(1), of length] by simp
  moreover have "ber_tlv tag c \<noteq> []" by (simp add: ber_tlv_def)
  ultimately show "p + length (ber_tlv tag c) \<le> length buf"
    by (cases "p \<le> length buf") auto
  have tl: "drop (p + 1) buf = ber_len (length c) @ c @ r"
    using assms(1) by (simp add: ber_tlv_def drop_tail)
  show "rd buf p = Some tag" using assms(1) by (simp add: ber_tlv_def drop_read_Cons)
  show "BerDecoder_decodeLength buf (p + 1) maxp = Some (LenOk (p + 1 + length (ber_len (length c))) (length c))"
    using tl assms by (intro decodeLength_ber_len) (auto simp: wire_simps)
  show "drop (p + 1 + length (ber_len (length c))) buf = c @ r" using tl by (rule drop_append)
qed (simp add: wire_simps)

lemma mms_tag_counted: "mms_wf v \<Longrightarrow> MmsValue_getType v \<noteq> T_STRING \<Longrightarrow> mms_tag v \<in> set mms_data_tags"
  by (cases v) (auto simp: mms_data_tags_def)

lemma length_mms_bytes: "mms_wf v \<Longrightarrow> length (mms_content v) < length (mms_bytes v)"
  by (simp add: mms_bytes_tlv wire_simps)

lemma count_elements_ok:
  assumes "mms_wf_components xs" and "components_wire_ok xs" and "drop p buf = components_bytes xs @ r"
    and "maxp = p + length (components_bytes xs)" and "maxp < 2 ^ 31" and "length (components_bytes xs) < fuel"
    and "length (components_bytes xs) < 65535"
  shows "count_elements fuel buf p maxp i = Some (Some (i + length xs))"
  using assms
proof (induction xs arbitrary: p fuel i)
  case Nil
  then show ?case by (cases fuel) auto
next
  case (Cons x xs)
  then obtain v fuel' where v: "x = Some v" "mms_wf v" "fuel = Suc fuel'" "MmsValue_getType v \<noteq> T_STRING"
    by (cases fuel) auto
  let ?c = "mms_content v"
  have d: "drop p buf = ber_tlv (mms_tag v) ?c @ components_bytes xs @ r"
    using Cons.prems(3) v by (simp add: mms_bytes_tlv)
  have lc: "length ?c < 65535" using length_mms_bytes [OF v(2)] Cons.prems(7) v(1) by simp
  have l: "p + length (ber_tlv (mms_tag v) ?c) \<le> maxp" using Cons.prems(4) v by (simp add: mms_bytes_tlv)
  note parts = tlv_parts [OF d lc l Cons.prems(5)]
  have "count_elements fuel' buf (p + length (mms_bytes v)) maxp (i + 1) = Some (Some (i + 1 + length xs))"
    using Cons.prems v length_mms_bytes [OF v(2)] drop_append [OF d]
    by (intro Cons.IH) (simp_all add: mms_bytes_tlv [symmetric])
  with parts v mms_tag_counted [of v] l show ?case by (simp add: mms_bytes_tlv wire_simps add.assoc)
qed


declare MmsValue_decodeMmsDataRecursive.simps [simp del]

lemma components_bytes_nonempty:
  "mms_wf_components xs \<Longrightarrow> xs \<noteq> [] \<Longrightarrow> components_bytes xs \<noteq> []"
  by (cases xs) (auto simp: mms_bytes_tlv ber_tlv_def)

lemma scalar_content_nonempty:
  assumes "is_scalar v" and "mms_wf v" and "wire_ok v"
  shows "mms_content v \<noteq> [] \<or> mms_tag v \<in> {0x8a, 0x90, 0x89}"
proof (cases v)
  case (MMS_BIT_STRING n bits)
  then show ?thesis by (simp add: ber_bits_content_def mask_last_def Let_def)
next
  case (MMS_INTEGER a)
  with assms have "length (asn1_used a) \<noteq> 0" by simp
  with MMS_INTEGER show ?thesis by auto
next
  case (MMS_UNSIGNED a)
  with assms have "length (asn1_used a) \<noteq> 0" by simp
  with MMS_UNSIGNED show ?thesis by auto
qed (use assms in \<open>auto simp: is_scalar_def ber_u32_nonempty ber_float_content_def\<close>)

lemma mms_tag_nonzero: "mms_tag v \<noteq> 0"
  by (cases v) auto

lemma mms_tag_scalar: "is_scalar v \<Longrightarrow> mms_tag v \<noteq> 0xa1 \<and> mms_tag v \<noteq> 0xa2"
  by (cases v) (auto simp: is_scalar_def)

lemma drop_le: "drop p buf = x # r \<Longrightarrow> p < length buf"
  by (metis drop_all list.distinct(1) not_le)

lemma decode_step_complex:
  assumes "drop p buf = ber_tlv tag (components_bytes xs) @ r" and "tag = 0xa1 \<or> tag = 0xa2"
    and "length (components_bytes xs) < 65535" and "p + length (ber_tlv tag (components_bytes xs)) \<le> E" and "E < 2 ^ 31"
    and "d < m" and "xs \<noteq> []" and "mms_wf_components xs" and "components_wire_ok xs"
    and "decode_elements (length xs) buf (p + 1 + length (ber_len (length (components_bytes xs)))) E (d + 1) m
          = Some (Some (ys, q))"
  shows "MmsValue_decodeMmsDataRecursive buf p E d m
      = Some (DecOk (Some (if tag = 0xa1 then MMS_ARRAY ys else MMS_STRUCTURE ys)) q)"
proof -
  note parts = tlv_parts [OF assms(1,3-5)]
  have "getNumberOfElements buf (p + 1 + length (ber_len (length (components_bytes xs)))) (length (components_bytes xs))
      = Some (Some (length xs))"
    using parts assms unfolding getNumberOfElements_def
    by (subst count_elements_ok [OF assms(8,9) parts(3)]) auto
  moreover have "components_bytes xs \<noteq> []" using assms by (simp add: components_bytes_nonempty)
  ultimately show ?thesis using parts assms
    by (auto simp: MmsValue_decodeMmsDataRecursive.simps [of buf p])
qed

lemma decode_ok:
  shows "mms_wf v \<Longrightarrow> wire_ok v \<Longrightarrow> drop p buf = mms_bytes v @ r \<Longrightarrow> length (mms_bytes v) < 65535 \<Longrightarrow>
      p + length (mms_bytes v) \<le> E \<Longrightarrow> E < 2 ^ 31 \<Longrightarrow> d + mms_depth v \<le> m \<Longrightarrow>
      \<exists>w. MmsValue_decodeMmsDataRecursive buf p E d m = Some (DecOk (Some w) (p + length (mms_bytes v)))
        \<and> MmsValue_equals v w = Some True"
    and "mms_wf_components xs \<Longrightarrow> components_wire_ok xs \<Longrightarrow> drop p buf = components_bytes xs @ r \<Longrightarrow>
      length (components_bytes xs) < 65535 \<Longrightarrow>
      p + length (components_bytes xs) \<le> E \<Longrightarrow> E < 2 ^ 31 \<Longrightarrow> d + components_depth xs \<le> m \<Longrightarrow>
      \<exists>ys. decode_elements (length xs) buf p E d m = Some (Some (ys, p + length (components_bytes xs)))
        \<and> length ys = length xs \<and> components_equal xs ys = Some True"
proof (induction v and xs arbitrary: p r E d and p r E d rule: value_components_induct)
  case (array xs)
  let ?q = "p + 1 + length (ber_len (length (components_bytes xs)))"
  have l: "length (components_bytes xs) < 65535" using array.prems by (simp add: wire_simps)
  note parts = tlv_parts [OF array.prems(3) [simplified] l array.prems(5) [simplified] array.prems(6)]
  obtain ys where ys: "decode_elements (length xs) buf ?q E (d + 1) m = Some (Some (ys, ?q + length (components_bytes xs)))"
      "length ys = length xs" "components_equal xs ys = Some True"
    using array.IH [of ?q r E "d + 1"] array.prems l parts by auto
  show ?case
    using decode_step_complex [OF array.prems(3) [simplified] _ l array.prems(5) [simplified] array.prems(6) _ _ _ _ ys(1)]
      array.prems ys parts by simp
next
  case (struct xs)
  let ?q = "p + 1 + length (ber_len (length (components_bytes xs)))"
  have l: "length (components_bytes xs) < 65535" using struct.prems by (simp add: wire_simps)
  note parts = tlv_parts [OF struct.prems(3) [simplified] l struct.prems(5) [simplified] struct.prems(6)]
  obtain ys where ys: "decode_elements (length xs) buf ?q E (d + 1) m = Some (Some (ys, ?q + length (components_bytes xs)))"
      "length ys = length xs" "components_equal xs ys = Some True"
    using struct.IH [of ?q r E "d + 1"] struct.prems l parts by auto
  show ?case
    using decode_step_complex [OF struct.prems(3) [simplified] _ l struct.prems(5) [simplified] struct.prems(6) _ _ _ _ ys(1)]
      struct.prems ys parts by simp
next
  case (scalar v)
  then have l: "length (mms_content v) < 65535" using length_mms_bytes [of v] by simp
  have d: "drop p buf = ber_tlv (mms_tag v) (mms_content v) @ r" using scalar.prems by (simp add: mms_bytes_tlv)
  have e: "p + length (ber_tlv (mms_tag v) (mms_content v)) \<le> E" using scalar.prems by (simp add: mms_bytes_tlv)
  note parts = tlv_parts [OF d l e scalar.prems(6)]
  let ?q = "p + 1 + length (ber_len (length (mms_content v)))"
  have "?q \<le> length buf" using parts by simp
  then obtain w where "decode_scalar (mms_tag v) buf ?q (length (mms_content v))
      = Some (DecOk (Some w) (?q + length (mms_content v)))" "MmsValue_equals v w = Some True"
    using decode_scalar_ok [OF scalar.hyps scalar.prems(1,2) parts(3)] l by auto
  moreover have "d < m" using scalar.prems(7) by (cases v) auto
  ultimately show ?case
    using parts e scalar.prems scalar_content_nonempty [OF scalar.hyps scalar.prems(1,2)] mms_tag_nonzero [of v] mms_tag_scalar [OF scalar.hyps]
    by (auto simp: MmsValue_decodeMmsDataRecursive.simps [of buf p] mms_bytes_tlv)
next
  case (cons x xs)
  then obtain v where v: "x = Some v" "mms_wf v" "wire_ok v" by auto
  let ?c = "mms_content v"
  have d: "drop p buf = ber_tlv (mms_tag v) ?c @ components_bytes xs @ r"
    using cons.prems(3) v by (simp add: mms_bytes_tlv)
  have lc: "length ?c < 65535" using length_mms_bytes [OF v(2)] cons.prems(4) v(1) by simp
  have l: "p + length (ber_tlv (mms_tag v) ?c) \<le> E" using cons.prems(5) v by (simp add: mms_bytes_tlv)
  note parts = tlv_parts [OF d lc l cons.prems(6)]
  have dp: "d + mms_depth v \<le> m" "d + components_depth xs \<le> m"
    using cons.prems(7) v(1) by (auto simp: max_def split: if_splits)
  obtain w where w: "MmsValue_decodeMmsDataRecursive buf p (p + length (mms_bytes v)) d m
      = Some (DecOk (Some w) (p + length (mms_bytes v)))" "MmsValue_equals v w = Some True"
    using cons.IH(1) [OF v(1), of p "components_bytes xs @ r" "p + length (mms_bytes v)" d] v cons.prems dp by auto
  have "drop (p + length (mms_bytes v)) buf = components_bytes xs @ r"
    using drop_append [OF d] v by (simp add: mms_bytes_tlv)
  then obtain ys where ys: "decode_elements (length xs) buf (p + length (mms_bytes v)) E d m
      = Some (Some (ys, p + length (mms_bytes v) + length (components_bytes xs)))"
      "length ys = length xs" "components_equal xs ys = Some True"
    using cons.IH(2) [of "p + length (mms_bytes v)" r E d] v cons.prems dp by auto
  have "p + length (mms_bytes v) = p + 1 + length (ber_len (length ?c)) + length ?c"
    using v by (simp add: mms_bytes_tlv wire_simps)
  with parts w ys v show ?case by (simp add: add.assoc)
qed simp


text \<open>
  C24: What \<open>MmsValue_encodeMmsData\<close> writes, \<open>MmsValue_decodeMmsData\<close> reads back: the decoder
  returns a value that \<open>MmsValue_equals\<close> accepts as the original and ends at the position where
  the encoder ended.  This holds for well-formed values of at most 25 levels and fewer than 65535 octets that
  meet the following conditions, and not for all values.  By \<open>wire_ok\<close>, every array and structure has at least one component, none of its
  components is missing, and none is an MMS string (tag \<open>0x90\<close>; below, \<open>mms_string_component_rejected\<close>
  shows that such a structure is written but not read back); a visible or MMS string has a buffer; an integer has one to eight
  octets; the padding bits of a bit string are zero.  By \<open>size_exact\<close>, no bit string has 127 or 255 content octets, for which
  the encoder announces a wrong length.
\<close>

theorem mms_data_roundtrip:
  assumes "mms_wf v" and "size_exact v" and "wire_ok v" and "mms_depth v \<le> 25" and "length (mms_bytes v) < 65535"
    and "MmsValue_encodeMmsData v buf pos = Some (buf', pos')" and "length buf < 2 ^ 31"
  shows "\<exists>w. MmsValue_decodeMmsData buf' pos (length buf') = Some (DecOk (Some w) pos')
    \<and> MmsValue_equals v w = Some True"
proof -
  have ne: "mms_bytes v \<noteq> []" using assms(1) by (simp add: mms_bytes_tlv ber_tlv_def)
  have p: "puts (mms_bytes v) buf pos = Some (buf', pos')" using assms by (simp add: encode_writes)
  from p ne have d: "drop pos buf' = mms_bytes v @ drop pos' buf" "pos' = pos + length (mms_bytes v)"
    using puts_nonempty_drop by blast+
  have "length buf' = length buf" "pos' \<le> length buf" using p ne by (auto simp: puts_eq split: if_splits)
  then show ?thesis
    using decode_ok(1) [OF assms(1,3) d(1) assms(5), of "length buf'" 0 25] assms d(2)
    by (simp add: MmsValue_decodeMmsData_def MmsValue_decodeMmsDataMaxRecursion_def)
qed

theorem mms_data_roundtrip_witness:
  "\<exists>w. MmsValue_decodeMmsData [0xa2, 6, 0x83, 1, 1, 0x89, 1, 7] 0 (length [0xa2, 6, 0x83, 1, 1, 0x89, 1, 7 :: u8])
      = Some (DecOk (Some w) 8)
    \<and> MmsValue_equals (MMS_STRUCTURE [Some (MMS_BOOLEAN True), Some (MMS_OCTET_STRING 1 1 [7])]) w = Some True"
proof -
  let ?v = "MMS_STRUCTURE [Some (MMS_BOOLEAN True), Some (MMS_OCTET_STRING 1 1 [7])]"
  have b: "mms_bytes ?v = [0xa2, 6, 0x83, 1, 1, 0x89, 1, 7]" by (simp add: ber_tlv_def ber_len_def)
  have "MmsValue_encodeMmsData ?v [0, 0, 0, 0, 0, 0, 0, 0] 0 = Some ([0xa2, 6, 0x83, 1, 1, 0x89, 1, 7], 8)"
    by code_simp
  from mms_data_roundtrip [OF _ _ _ _ _ this] b show ?thesis by simp
qed

subsection \<open>Safety of the decoder\<close>

lemma rdn_ok: "p + n \<le> length buf \<Longrightarrow> \<exists>xs. rdn buf p n = Some xs \<and> length xs = n"
  by (simp add: rdn_def)

lemma length_octets_createInt [simp]:
  "length (asn1_octets BerInteger_createInt64) = 9" "length (asn1_octets BerInteger_createInt32) = 5"
  using asn1_wf_createInt by (auto simp: asn1_wf_def)

lemma bit_string_room:
  assumes "u \<le> 7" and "0 < n"
  shows "n - 1 \<le> bitStringByteSize (nat \<bar>8 * (int n - 1) - int u\<bar>)"
proof -
  define k where "k = nat \<bar>8 * (int n - 1) - int u\<bar>"
  then have "8 * (int n - 1) - int u \<le> int k" by simp
  moreover obtain j where "n = Suc j" using assms(2) by (cases n) auto
  ultimately have "8 * (n - 1) \<le> k + 7" using assms(1) by simp
  then have "n - 1 \<le> bitStringByteSize k" by (auto simp: bitStringByteSize_def)
  then show ?thesis by (simp only: k_def)
qed

lemma decode_bits_total:
  assumes "p + n \<le> length buf" and "0 < n"
  shows "\<exists>r. decode_scalar 0x84 buf p n = Some r"
proof -
  obtain pad where pad: "rd buf p = Some pad" using assms by (simp add: rd_def)
  show ?thesis
  proof (cases "7 < pad")
    case False
    then have "unat pad \<le> 7" by (simp add: word_less_nat_alt)
    note room = bit_string_room [OF this assms(2)]
    then show ?thesis using False pad assms rdn_ok [of "p + 1" "n - 1" buf]
      by (auto simp: decode_scalar_def MmsValue_newBitString_def Let_def puts_eq)
  qed (simp add: decode_scalar_def pad)
qed

lemma decode_integer_total:
  assumes "p + n \<le> length buf"
  shows "\<exists>r. decode_scalar 0x85 buf p n = Some r" "\<exists>r. decode_scalar 0x86 buf p n = Some r"
  using rdn_ok [OF assms]
  by (auto simp: decode_scalar_def MmsValue_newInteger_def MmsValue_newUnsigned_def asn1_store_def)

lemma decode_scalar_total:
  assumes "p + n \<le> length buf" and "n = 0 \<longrightarrow> tag \<in> {0, 0x8a, 0x90, 0x89}"
  shows "\<exists>r. decode_scalar tag buf p n = Some r"
proof -
  obtain xs where xs: "rdn buf p n = Some xs" "length xs = n" using assms rdn_ok by blast
  obtain e where e: "BerDecoder_decodeUint32 buf n p = Some e" using decodeUint32_total [OF assms(1)] by blast
  consider "tag = 0x84" | "tag = 0x85 \<or> tag = 0x86" | "tag = 0x87 \<or> tag = 0x83" 
    | "tag \<notin> {0x84, 0x85, 0x86, 0x87, 0x83}" by blast
  then show ?thesis
  proof cases
    case 1
    then show ?thesis using assms decode_bits_total by simp
  next
    case 2
    then show ?thesis using assms decode_integer_total by auto
  next
    case 3
    then show ?thesis using assms
      by (auto simp: decode_scalar_def BerDecoder_decodeDouble_def BerDecoder_decodeFloat_def BerDecoder_decodeBoolean_def rdn_def rd_def)
  next
    case 4
    have "rdn (drop p buf) 0 n = Some xs" using xs assms by simp
    with 4 xs e show ?thesis
      by (auto simp: decode_scalar_def puts_eq MmsValue_newOctetString_def MmsValue_newBinaryTime_def
          MmsValue_newVisibleStringFromByteArray_def StringUtils_createStringFromBuffer_def MmsValue_newUtcTime_def)
  qed
qed

lemma count_elements_total:
  assumes "maxp \<le> length buf" and "maxp < 2 ^ 22" and "maxp < p + fuel" and "0 < fuel"
  shows "\<exists>r. count_elements fuel buf p maxp i = Some r"
  using assms(3,4)
proof (induction fuel arbitrary: p i)
  case (Suc fuel)
  show ?case
  proof (cases "p < maxp")
    case True
    obtain r where r: "BerDecoder_decodeLength buf (p + 1) maxp = Some r"
      using ber.dec_total [OF assms(1,2)] by blast
    have "rd buf p = Some (buf ! p)" using True assms by (simp add: rd_def)
    moreover have "\<exists>s. count_elements fuel buf (q + l) maxp (i + 1) = Some s" if "r = LenOk q l" for q l
      using ber.dec_bounds [of buf "p + 1" maxp q l] that r Suc.prems by (intro Suc.IH) auto
    ultimately show ?thesis using True r by (cases r) auto
  qed simp
qed simp

lemma decode_total:
  shows "E \<le> length buf \<Longrightarrow> E < 2 ^ 22 \<Longrightarrow> p < length buf \<Longrightarrow>
      \<exists>r. MmsValue_decodeMmsDataRecursive buf p E d m = Some r"
    and "E \<le> length buf \<Longrightarrow> E < 2 ^ 22 \<Longrightarrow> \<exists>r. decode_elements k buf p E d m = Some r"
proof (induction buf p E d m and k buf p E d m rule: MmsValue_decodeMmsDataRecursive_decode_elements.induct)
  case (1 buf p E d m)
  obtain r where r: "BerDecoder_decodeLength buf (p + 1) E = Some r"
    using ber.dec_total [OF "1.prems"(1,2)] by blast
  have t: "rd buf p = Some (buf ! p)" using "1.prems" by (simp add: rd_def)
  show ?case
  proof (cases r)
    case LenErr
    with r t show ?thesis by (simp add: MmsValue_decodeMmsDataRecursive.simps [of buf p])
  next
    case (LenOk q l)
    with ber.dec_bounds r "1.prems" have q: "p + 1 < q" "q + l \<le> E" "q + l \<le> length buf" by fastforce+
    obtain n where n: "getNumberOfElements buf q l = Some n"
      using count_elements_total [of "q + l" buf q "l + 1" 0] q "1.prems" by (auto simp: getNumberOfElements_def)
    have el: "\<exists>r. decode_elements c buf q E (d + 1) m = Some r"
      if "\<not> m < d + 1" "n = Some c" "buf ! p = 0xa1 \<or> buf ! p = 0xa2" "\<not> E < 1" "l \<noteq> 0" for c
      using "1.IH" [OF that(1,4) t r LenOk _ that(3) n that(2)] "1.prems" that by auto
    show ?thesis
      using el decode_scalar_total [of q l buf "buf ! p"] r t q LenOk n
      by (cases n) (fastforce simp: MmsValue_decodeMmsDataRecursive.simps [of buf p] split: option.splits)+
  qed
next
  case (3 k buf p E d m)
  obtain r where r: "BerDecoder_decodeLength buf (p + 1) E = Some r"
    using ber.dec_total [OF "3.prems"] by blast
  show ?case
  proof (cases r)
    case (LenOk q l)
    with ber.dec_bounds r "3.prems" have q: "p + 1 < q" "q + l \<le> E" "p < length buf" by fastforce+
    obtain e where e: "MmsValue_decodeMmsDataRecursive buf p (q + l) d m = Some e"
      using "3.IH"(1) [OF r LenOk refl] q "3.prems" by auto
    have "\<exists>s. decode_elements k buf (q + l) E d m = Some s" if "e = DecOk (Some v) x" for v x
      using "3.IH"(2) [OF r LenOk refl _ that] e q "3.prems" by auto
    with r LenOk e q show ?thesis by (fastforce split: dec_result.splits option.splits)
  qed (use r in simp)
qed simp

text \<open>
  C26: On every byte sequence the decoder of MMS data returns: it never reads outside the buffer,
  never writes outside the objects it creates, never overflows an integer and always ends, with
  a value or with its error exit.
\<close>

theorem decodeMmsData_safe:
  assumes "bufferLength \<le> length buffer" and "bufferLength < 2 ^ 22" and "bufPos < length buffer"
  shows "\<exists>r. MmsValue_decodeMmsData buffer bufPos bufferLength = Some r"
  using decode_total(1) [OF assms]
  by (simp add: MmsValue_decodeMmsData_def MmsValue_decodeMmsDataMaxRecursion_def)

theorem decodeMmsData_safe_witness:
  "\<exists>r. MmsValue_decodeMmsData [0xa2, 0x80, 0x84, 1, 7, 0, 0] 0 7 = Some r"
  using decodeMmsData_safe [of 7 "[0xa2, 0x80, 0x84, 1, 7, 0, 0]" 0] by simp

lemma string_in_structure_lengths:
  "BerDecoder_decodeLength [0xa2, 3, 0x90, 1, 65] (Suc 0) 5 = Some (LenOk 2 3)"
  "BerDecoder_decodeLength [0xa2, 3, 0x90, 1, 65] 3 5 = Some (LenOk 4 1)"
  "BerDecoder_decodeLength [0x90, 1, 65] (Suc 0) 3 = Some (LenOk 2 1)"
  using decodeLength_short [of 1 "[0xa2, 3, 0x90, 1, 65]" 3 "[0x90, 1, 65]" 5]
    decodeLength_short [of 3 "[0xa2, 3, 0x90, 1, 65]" 1 "[65]" 5]
    decodeLength_short [of 1 "[0x90, 1, 65]" 1 "[65]" 3]
  by simp_all

text \<open>
  An MMS string is written inside a structure but the structure is then rejected by the decoder,
  whose element counter does not know the tag \<open>0x90\<close>; at the top level the same string is read back.
\<close>

theorem mms_string_component_rejected:
  "MmsValue_encodeMmsData (MMS_STRUCTURE [Some (MMS_STRING (Some [65, 0]) 1)]) [0, 0, 0, 0, 0] 0
     = Some ([0xa2, 3, 0x90, 1, 65], 5)
   \<and> MmsValue_decodeMmsData [0xa2, 3, 0x90, 1, 65] 0 5 = Some DecErr
   \<and> MmsValue_decodeMmsData [0x90, 1, 65] 0 3 = Some (DecOk (Some (MMS_STRING (Some [65, 0]) 1)) 3)"
proof (intro conjI)
  show "MmsValue_encodeMmsData (MMS_STRUCTURE [Some (MMS_STRING (Some [65, 0]) 1)]) [0, 0, 0, 0, 0] 0
     = Some ([0xa2, 3, 0x90, 1, 65], 5)" by code_simp
  have "getNumberOfElements [0xa2, 3, 0x90, 1, 65] 2 3 = Some None"
    using string_in_structure_lengths(2) count_elements.simps(2) [of 3 "[0xa2, 3, 0x90, 1, 65]" 2 5 0]
    by (simp add: getNumberOfElements_def rd_def mms_data_tags_def del: count_elements.simps)
  then show "MmsValue_decodeMmsData [0xa2, 3, 0x90, 1, 65] 0 5 = Some DecErr"
    by (simp add: MmsValue_decodeMmsData_def MmsValue_decodeMmsDataMaxRecursion_def rd_def
        MmsValue_decodeMmsDataRecursive.simps [of _ 0] string_in_structure_lengths)
  show "MmsValue_decodeMmsData [0x90, 1, 65] 0 3 = Some (DecOk (Some (MMS_STRING (Some [65, 0]) 1)) 3)"
    by (simp add: MmsValue_decodeMmsData_def MmsValue_decodeMmsDataMaxRecursion_def rd_def
        MmsValue_decodeMmsDataRecursive.simps [of _ 0] string_in_structure_lengths decode_scalar_def
        MmsValue_newVisibleStringFromByteArray_def StringUtils_createStringFromBuffer_def rdn_def to_int16_def)
qed

lemma determineLengthSize_mono: "a \<le> b \<Longrightarrow> BerEncoder_determineLengthSize a \<le> BerEncoder_determineLengthSize b"
  by (simp add: BerEncoder_determineLengthSize_def)

lemma string_size_bound:
  assumes "string_wf b k" and "opt_cstr b = Some s"
  shows "BerEncoder_determineEncodedStringSize s \<le> 1 + nat \<bar>k\<bar> + BerEncoder_determineLengthSize (nat \<bar>k\<bar>)"
proof (cases b)
  case None
  with assms show ?thesis
    by (simp add: opt_cstr_def BerEncoder_determineEncodedStringSize_def BerEncoder_determineLengthSize_def)
next
  case (Some x)
  with assms obtain t where t: "s = Some t" "cstr x = Some t" "length t \<le> nat \<bar>k\<bar>"
    using cstr_wf [of x] by (auto simp: opt_cstr_def string_wf_def)
  then show ?thesis using determineLengthSize_mono [OF t(3)] by (simp add: BerEncoder_determineEncodedStringSize_def)
qed

lemma max_size_scalar:
  assumes "is_scalar v" "mms_wf v" "MmsValue_encodedSize v = Some n" "MmsValue_getMaxEncodedSize v = Some m"
  shows "n \<le> m"
proof (cases v)
  case (MMS_OCTET_STRING k maxSize b)
  with assms determineLengthSize_mono [of k "nat \<bar>maxSize\<bar>"] show ?thesis by (auto simp: Let_def)
next
  case (MMS_DATA_ACCESS_ERROR e)
  with assms length_ber_u32 [of e] show ?thesis by (simp add: wire_simps)
qed (use assms string_size_bound in \<open>auto simp: is_scalar_def asn1_wf_def Let_def\<close>)

lemma max_size_bound:
  shows "mms_wf v \<Longrightarrow> MmsValue_encodedSize v = Some n \<Longrightarrow> MmsValue_getMaxEncodedSize v = Some m \<Longrightarrow> n \<le> m"
    and "mms_wf_components xs \<Longrightarrow> components_encodedSize xs = Some n \<Longrightarrow> MmsValue_getMaxStructSize xs = Some m \<Longrightarrow> n \<le> m"
proof (induction v and xs arbitrary: n m and n m rule: value_components_induct)
  case (cons x xs)
  then show ?case by (fastforce split: bind_splits intro: add_mono)
next
  case (scalar v)
  then show ?case by (rule max_size_scalar)
qed (auto intro!: add_mono determineLengthSize_mono split: bind_splits)

text \<open>
  \<open>MmsValue_getMaxEncodedSize\<close>, which servers use to reserve space in a message, is an upper
  bound of the size the value is encoded with now.
\<close>

theorem getMaxEncodedSize_bound:
  assumes "mms_wf v" and "MmsValue_encodedSize v = Some n" and "MmsValue_getMaxEncodedSize v = Some m"
  shows "n \<le> m"
  using assms max_size_bound(1) by blast

theorem getMaxEncodedSize_bound_witness:
  "the (MmsValue_encodedSize (MMS_STRUCTURE [Some (MMS_VISIBLE_STRING (Some [65, 0, 0, 0]) 3)]))
     \<le> the (MmsValue_getMaxEncodedSize (MMS_STRUCTURE [Some (MMS_VISIBLE_STRING (Some [65, 0, 0, 0]) 3)]))"
  by (rule getMaxEncodedSize_bound [of "MMS_STRUCTURE [Some (MMS_VISIBLE_STRING (Some [65, 0, 0, 0]) 3)]"])
     (simp_all add: string_wf_def opt_cstr_def cstr_def Let_def)

subsection \<open>Sequences of elements\<close>

definition fields_bytes :: "(u8 \<times> bytes) list \<Rightarrow> bytes" where
  "fields_bytes fs = concat (map (\<lambda>(t, c). ber_tlv t c) fs)"

lemma fields_bytes_simps [simp]:
  "fields_bytes [] = []" "fields_bytes ((t, c) # fs) = ber_tlv t c @ fields_bytes fs"
  by (simp_all add: fields_bytes_def)

lemma fields_bytes_append [simp]: "fields_bytes (a @ b) = fields_bytes a @ fields_bytes b"
  by (simp add: fields_bytes_def)

lemma item_content:
  assumes "drop p buf = fields_bytes (pre @ (t, c) # post) @ r"
  shows "drop (p + length (fields_bytes pre) + 1 + length (ber_len (length c))) buf = c @ fields_bytes post @ r"
proof -
  have "drop (p + length (fields_bytes pre)) buf = ber_tlv t c @ fields_bytes post @ r"
    using drop_append [of p buf "fields_bytes pre"] assms by simp
  then have "drop (p + length (fields_bytes pre) + 1) buf = ber_len (length c) @ c @ fields_bytes post @ r"
    by (simp add: ber_tlv_def drop_tail)
  from drop_append [OF this] show ?thesis by (simp add: add.assoc)
qed

end
