(* ===== verification/GoosePublisher.thy ===== *)
theory GoosePublisher
  imports MmsAccessResult
begin

text \<open>
  The GOOSE publisher, \<open>src/libiec61850/src/goose/goose_publisher.c\<close>, in its Ethernet
  configuration (\<open>CONFIG_IEC61850_L2_GOOSE = 1\<close>, no R-GOOSE).  The record is \<open>struct
  sGoosePublisher\<close>; the socket is the flag whether one was created.  What the hardware abstraction
  layer supplies, the MAC address of the interface, whether the socket could be created and the
  clock, are arguments; a packet handed to \<open>Ethernet_sendPacket\<close> is an output.  The data set is
  the list of the data pointers of the linked list.  The sums of sizes are \<open>uint32_t\<close>, so they
  are taken modulo \<open>2\<^sup>3\<^sup>2\<close>.
\<close>

subsection \<open>State\<close>

record CommParameters =
  vlanPriority :: u8
  vlanId :: u16
  appId :: u16
  dstAddress :: bytes

record GoosePublisher =
  gp_buffer :: bytes
  gp_ethernetSocket :: bool
  gp_lengthField :: nat
  gp_payloadStart :: nat
  gp_payloadLength :: int
  gp_goID :: "cstring option"
  gp_goCBRef :: "cstring option"
  gp_dataSetRef :: "cstring option"
  gp_confRev :: u32
  gp_stNum :: u32
  gp_sqNum :: u32
  gp_timeAllowedToLive :: u32
  gp_needsCommission :: bool
  gp_simulation :: bool
  gp_timestamp :: MmsValue

definition GOOSE_MAX_MESSAGE_SIZE :: nat where
  "GOOSE_MAX_MESSAGE_SIZE = 1518"

definition default_parameters :: CommParameters where
  "default_parameters = \<lparr>vlanPriority = 4, vlanId = 0, appId = 0x1000,
     dstAddress = [0x01, 0x0c, 0xcd, 0x01, 0x00, 0x01]\<rparr>"

definition GoosePublisher_calloc :: GoosePublisher where
  "GoosePublisher_calloc = \<lparr>gp_buffer = [], gp_ethernetSocket = False, gp_lengthField = 0, gp_payloadStart = 0,
     gp_payloadLength = 0, gp_goID = None, gp_goCBRef = None, gp_dataSetRef = None, gp_confRev = 0,
     gp_stNum = 0, gp_sqNum = 0, gp_timeAllowedToLive = 0, gp_needsCommission = False,
     gp_simulation = False, gp_timestamp = MMS_UTC_TIME (replicate 8 0)\<rparr>"

subsection \<open>Operations\<close>

definition GoosePublisher_setGoID :: "GoosePublisher \<Rightarrow> cstring \<Rightarrow> GoosePublisher" where
  "GoosePublisher_setGoID self goID = self\<lparr>gp_goID := Some goID\<rparr>"

definition GoosePublisher_setGoCbRef :: "GoosePublisher \<Rightarrow> cstring \<Rightarrow> GoosePublisher" where
  "GoosePublisher_setGoCbRef self goCbRef = self\<lparr>gp_goCBRef := Some goCbRef\<rparr>"

definition GoosePublisher_setDataSetRef :: "GoosePublisher \<Rightarrow> cstring \<Rightarrow> GoosePublisher" where
  "GoosePublisher_setDataSetRef self dataSetRef = self\<lparr>gp_dataSetRef := Some dataSetRef\<rparr>"

definition GoosePublisher_setConfRev :: "GoosePublisher \<Rightarrow> u32 \<Rightarrow> GoosePublisher" where
  "GoosePublisher_setConfRev self confRev = self\<lparr>gp_confRev := confRev\<rparr>"

definition GoosePublisher_setSimulation :: "GoosePublisher \<Rightarrow> bool \<Rightarrow> GoosePublisher" where
  "GoosePublisher_setSimulation self simulation = self\<lparr>gp_simulation := simulation\<rparr>"

definition GoosePublisher_setStNum :: "GoosePublisher \<Rightarrow> u32 \<Rightarrow> GoosePublisher" where
  "GoosePublisher_setStNum self stNum = self\<lparr>gp_stNum := stNum\<rparr>"

definition GoosePublisher_setSqNum :: "GoosePublisher \<Rightarrow> u32 \<Rightarrow> GoosePublisher" where
  "GoosePublisher_setSqNum self sqNum = self\<lparr>gp_sqNum := sqNum\<rparr>"

definition GoosePublisher_setNeedsCommission :: "GoosePublisher \<Rightarrow> bool \<Rightarrow> GoosePublisher" where
  "GoosePublisher_setNeedsCommission self ndsCom = self\<lparr>gp_needsCommission := ndsCom\<rparr>"

definition GoosePublisher_setTimeAllowedToLive :: "GoosePublisher \<Rightarrow> u32 \<Rightarrow> GoosePublisher" where
  "GoosePublisher_setTimeAllowedToLive self timeAllowedToLive =
     self\<lparr>gp_timeAllowedToLive := timeAllowedToLive\<rparr>"

definition GoosePublisher_increaseStNum :: "GoosePublisher \<Rightarrow> u64 \<Rightarrow> (u64 \<times> GoosePublisher) option" where
  "GoosePublisher_increaseStNum self currentTime = do {
     timestamp \<leftarrow> MmsValue_setUtcTimeMs (gp_timestamp self) currentTime;
     let stNum = gp_stNum self + 1;
     Some (currentTime,
       self\<lparr>gp_timestamp := timestamp, gp_stNum := (if stNum = 0 then 1 else stNum), gp_sqNum := 0\<rparr>) }"

definition GoosePublisher_reset :: "GoosePublisher \<Rightarrow> GoosePublisher" where
  "GoosePublisher_reset self = self\<lparr>gp_sqNum := 0, gp_stNum := 1\<rparr>"

definition vlan_tag :: "CommParameters \<Rightarrow> bytes" where
  "vlan_tag p = [0x81, 0x00, push_bit 5 (vlanPriority p) + word_of_nat (unat (vlanId p) div 256),
                 word_of_nat (unat (vlanId p) mod 256)]"

definition prepareGooseBuffer ::
    "GoosePublisher \<Rightarrow> CommParameters option \<Rightarrow> bytes \<Rightarrow> bool \<Rightarrow> bool \<Rightarrow> (bool \<times> GoosePublisher) option" where
  "prepareGooseBuffer self parameters srcAddr socketOk useVlanTags =
     (let p = (case parameters of None \<Rightarrow> default_parameters | Some p \<Rightarrow> p)
      in if socketOk then do {
           dst \<leftarrow> rdn (dstAddress p) 0 6;
           src \<leftarrow> rdn srcAddr 0 6;
           (buffer, bufPos) \<leftarrow> puts dst (replicate GOOSE_MAX_MESSAGE_SIZE 0) 0;
           (buffer, bufPos) \<leftarrow> puts src buffer bufPos;
           (buffer, bufPos) \<leftarrow> (if useVlanTags then puts (vlan_tag p) buffer bufPos else Some (buffer, bufPos));
           (buffer, bufPos) \<leftarrow> puts [0x88, 0xb8] buffer bufPos;
           (buffer, bufPos) \<leftarrow> puts [word_of_nat (unat (appId p) div 256), word_of_nat (unat (appId p) mod 256)] buffer bufPos;
           let lengthField = bufPos;
           (buffer, bufPos) \<leftarrow> puts [0x00, 0x08] buffer bufPos;
           (buffer, bufPos) \<leftarrow> puts [0x00, 0x00] buffer bufPos;
           (buffer, bufPos) \<leftarrow> puts [0x00, 0x00] buffer bufPos;
           Some (True, self\<lparr>gp_ethernetSocket := True, gp_buffer := buffer, gp_lengthField := lengthField,
                            gp_payloadStart := bufPos\<rparr>) }
         else Some (False, self))"

definition GoosePublisher_createEx ::
    "CommParameters option \<Rightarrow> bytes \<Rightarrow> bool \<Rightarrow> u64 \<Rightarrow> bool \<Rightarrow> GoosePublisher option option" where
  "GoosePublisher_createEx parameters srcAddr socketOk currentTime useVlanTag = do {
     (ok, self) \<leftarrow> prepareGooseBuffer GoosePublisher_calloc parameters srcAddr socketOk useVlanTag;
     Some (if ok then Some (GoosePublisher_reset (self\<lparr>gp_timestamp := MmsValue_newUtcTimeByMsTime currentTime\<rparr>))
           else None) }"

definition GoosePublisher_create ::
    "CommParameters option \<Rightarrow> bytes \<Rightarrow> bool \<Rightarrow> u64 \<Rightarrow> GoosePublisher option option" where
  "GoosePublisher_create parameters srcAddr socketOk currentTime =
     GoosePublisher_createEx parameters srcAddr socketOk currentTime True"

subsection \<open>Payload\<close>

text \<open>Entries that are \<open>NULL\<close> are counted but neither sized nor written.\<close>

fun dataset_size :: "MmsValue option list \<Rightarrow> nat option" where
  "dataset_size [] = Some 0"
| "dataset_size (x # xs) =
     (case x of None \<Rightarrow> dataset_size xs
      | Some v \<Rightarrow> do { n \<leftarrow> MmsValue_encodedSize v; m \<leftarrow> dataset_size xs; Some (n + m) })"

fun encode_dataset :: "MmsValue option list \<Rightarrow> writer" where
  "encode_dataset [] buffer bufPos = Some (buffer, bufPos)"
| "encode_dataset (x # xs) buffer bufPos =
     (case x of None \<Rightarrow> encode_dataset xs buffer bufPos
      | Some v \<Rightarrow> do {
          (buffer, bufPos) \<leftarrow> MmsValue_encodeMmsData v buffer bufPos;
          encode_dataset xs buffer bufPos })"

definition u32sum :: "nat list \<Rightarrow> nat" where
  "u32sum ns = sum_list ns mod 2 ^ 32"

definition pdu_length :: "GoosePublisher \<Rightarrow> nat \<Rightarrow> nat \<Rightarrow> nat" where
  "pdu_length self numberOfDataSetEntries dataSetSize =
     (let allDataSize = u32sum [dataSetSize, BerEncoder_determineLengthSize dataSetSize, 1]
      in u32sum
        [BerEncoder_determineEncodedStringSize (gp_goCBRef self),
         2 + BerEncoder_UInt32determineEncodedSize (gp_timeAllowedToLive self),
         BerEncoder_determineEncodedStringSize (gp_dataSetRef self),
         (case gp_goID self of Some g \<Rightarrow> BerEncoder_determineEncodedStringSize (Some g)
          | None \<Rightarrow> BerEncoder_determineEncodedStringSize (gp_goCBRef self)),
         2 + 8,
         2 + BerEncoder_UInt32determineEncodedSize (gp_sqNum self),
         2 + BerEncoder_UInt32determineEncodedSize (gp_stNum self),
         2 + BerEncoder_UInt32determineEncodedSize (gp_confRev self),
         6,
         2 + BerEncoder_UInt32determineEncodedSize (word_of_nat numberOfDataSetEntries),
         allDataSize])"

fun utc_octets :: "MmsValue \<Rightarrow> bytes option" where
  "utc_octets (MMS_UTC_TIME t) = Some t"
| "utc_octets _ = None"

text \<open>The inner \<open>None\<close> is the return value \<open>-1\<close>.\<close>

definition createGoosePayload ::
    "GoosePublisher \<Rightarrow> MmsValue option list \<Rightarrow> bytes \<Rightarrow> nat \<Rightarrow> (bytes \<times> nat) option option" where
  "createGoosePayload self dataSetValues buffer maxPayloadSize = do {
     let numberOfDataSetEntries = length dataSetValues;
     dataSetSize \<leftarrow> dataset_size dataSetValues;
     let dataSetSize = dataSetSize mod 2 ^ 32;
     let goosePduLength = pdu_length self numberOfDataSetEntries dataSetSize;
     let payloadSize = u32sum [1, BerEncoder_determineLengthSize goosePduLength, goosePduLength];
     if maxPayloadSize < payloadSize then Some None
     else do {
       (buffer, bufPos) \<leftarrow> BerEncoder_encodeTL 0x61 goosePduLength buffer 0;
       (buffer, bufPos) \<leftarrow> BerEncoder_encodeStringWithTag 0x80 (gp_goCBRef self) buffer bufPos;
       (buffer, bufPos) \<leftarrow> BerEncoder_encodeUInt32WithTL 0x81 (gp_timeAllowedToLive self) buffer bufPos;
       (buffer, bufPos) \<leftarrow> BerEncoder_encodeStringWithTag 0x82 (gp_dataSetRef self) buffer bufPos;
       (buffer, bufPos) \<leftarrow> (case gp_goID self of
           Some g \<Rightarrow> BerEncoder_encodeStringWithTag 0x83 (Some g) buffer bufPos
         | None \<Rightarrow> BerEncoder_encodeStringWithTag 0x83 (gp_goCBRef self) buffer bufPos);
       t \<leftarrow> utc_octets (gp_timestamp self);
       (buffer, bufPos) \<leftarrow> BerEncoder_encodeOctetString 0x84 t 8 buffer bufPos;
       (buffer, bufPos) \<leftarrow> BerEncoder_encodeUInt32WithTL 0x85 (gp_stNum self) buffer bufPos;
       (buffer, bufPos) \<leftarrow> BerEncoder_encodeUInt32WithTL 0x86 (gp_sqNum self) buffer bufPos;
       (buffer, bufPos) \<leftarrow> BerEncoder_encodeBoolean 0x87 (gp_simulation self) buffer bufPos;
       (buffer, bufPos) \<leftarrow> BerEncoder_encodeUInt32WithTL 0x88 (gp_confRev self) buffer bufPos;
       (buffer, bufPos) \<leftarrow> BerEncoder_encodeBoolean 0x89 (gp_needsCommission self) buffer bufPos;
       (buffer, bufPos) \<leftarrow> BerEncoder_encodeUInt32WithTL 0x8a (word_of_nat numberOfDataSetEntries) buffer bufPos;
       (buffer, bufPos) \<leftarrow> BerEncoder_encodeTL 0xab dataSetSize buffer bufPos;
       (buffer, bufPos) \<leftarrow> encode_dataset dataSetValues buffer bufPos;
       Some (Some (buffer, bufPos)) } }"

subsection \<open>Publishing\<close>

text \<open>The result is the return code, the packet sent, and the publisher.\<close>

definition GoosePublisher_publish ::
    "GoosePublisher \<Rightarrow> MmsValue option list \<Rightarrow> (int \<times> bytes option \<times> GoosePublisher) option" where
  "GoosePublisher_publish self dataSet = do {
     r \<leftarrow> createGoosePayload self dataSet (drop (gp_payloadStart self) (gp_buffer self))
            (GOOSE_MAX_MESSAGE_SIZE - gp_payloadStart self);
     (case r of
        None \<Rightarrow> Some (- 1, None, self\<lparr>gp_payloadLength := - 1\<rparr>)
      | Some (payload, payloadLength) \<Rightarrow> do {
          let buffer = take (gp_payloadStart self) (gp_buffer self) @ payload;
          let sqNum = gp_sqNum self + 1;
          let self = self\<lparr>gp_buffer := buffer, gp_payloadLength := int payloadLength,
                          gp_sqNum := (if sqNum = 0 then 1 else sqNum)\<rparr>;
          if gp_ethernetSocket self then do {
            let gooseLength = payloadLength + 8;
            (buffer, _) \<leftarrow> put (word_of_nat (gooseLength div 256)) buffer (gp_lengthField self);
            (buffer, _) \<leftarrow> put (word_of_nat gooseLength) buffer (gp_lengthField self + 1);
            packet \<leftarrow> rdn buffer 0 (gp_payloadStart self + payloadLength);
            Some (0, Some packet, self\<lparr>gp_buffer := buffer\<rparr>) }
          else Some (0, None, self) }) }"

definition GoosePublisher_publishAndDump ::
    "GoosePublisher \<Rightarrow> MmsValue option list \<Rightarrow> bytes \<Rightarrow> nat \<Rightarrow>
       (int \<times> bytes option \<times> GoosePublisher \<times> bytes \<times> nat option) option" where
  "GoosePublisher_publishAndDump self dataSet msgBuf bufSize = do {
     (rc, packet, self) \<leftarrow> GoosePublisher_publish self dataSet;
     if rc = 0 then do {
       let copied = min bufSize (gp_payloadStart self + nat (gp_payloadLength self));
       octets \<leftarrow> rdn (gp_buffer self) 0 copied;
       (msgBuf, _) \<leftarrow> puts octets msgBuf 0;
       Some (rc, packet, self, msgBuf, Some copied) }
     else Some (rc, packet, self, msgBuf, None) }"

subsection \<open>Reference message\<close>

definition goose_goID :: "GoosePublisher \<Rightarrow> cstring option" where
  "goose_goID self = (case gp_goID self of Some g \<Rightarrow> Some g | None \<Rightarrow> gp_goCBRef self)"

definition goose_fields :: "GoosePublisher \<Rightarrow> MmsValue option list \<Rightarrow> bytes" where
  "goose_fields self ds =
     ber_string 0x80 (gp_goCBRef self) @
     ber_tlv 0x81 (ber_u32 (gp_timeAllowedToLive self)) @
     ber_string 0x82 (gp_dataSetRef self) @
     ber_string 0x83 (goose_goID self) @
     ber_tlv 0x84 (take 8 (the (utc_octets (gp_timestamp self)))) @
     ber_tlv 0x85 (ber_u32 (gp_stNum self)) @
     ber_tlv 0x86 (ber_u32 (gp_sqNum self)) @
     ber_tlv 0x87 [if gp_simulation self then 1 else 0] @
     ber_tlv 0x88 (ber_u32 (gp_confRev self)) @
     ber_tlv 0x89 [if gp_needsCommission self then 1 else 0] @
     ber_tlv 0x8a (ber_u32 (word_of_nat (length ds))) @
     ber_tlv 0xab (components_bytes ds)"

definition goose_pdu :: "GoosePublisher \<Rightarrow> MmsValue option list \<Rightarrow> bytes" where
  "goose_pdu self ds = ber_tlv 0x61 (goose_fields self ds)"

definition dataset_ok :: "MmsValue option list \<Rightarrow> bool" where
  "dataset_ok ds = list_all (\<lambda>x. case x of None \<Rightarrow> True | Some v \<Rightarrow> mms_wf v \<and> size_exact v) ds"

definition gp_wf :: "GoosePublisher \<Rightarrow> bool" where
  "gp_wf self \<longleftrightarrow> length (gp_buffer self) = GOOSE_MAX_MESSAGE_SIZE
     \<and> (gp_payloadStart self = 22 \<or> gp_payloadStart self = 26)
     \<and> gp_lengthField self + 6 = gp_payloadStart self
     \<and> (\<exists>t. gp_timestamp self = MMS_UTC_TIME t \<and> length t = 8)
     \<and> gp_ethernetSocket self"

lemma dataset_ok_simps [simp]:
  "dataset_ok []" "dataset_ok (None # xs) = dataset_ok xs"
  "dataset_ok (Some v # xs) = (mms_wf v \<and> size_exact v \<and> dataset_ok xs)"
  by (simp_all add: dataset_ok_def)

lemma dataset_size_eq:
  "dataset_ok ds \<Longrightarrow> length (components_bytes ds) < 65535 \<Longrightarrow> dataset_size ds = Some (length (components_bytes ds))"
proof (induction ds)
  case (Cons x xs)
  then show ?case by (cases x) (simp_all add: size_exact_eq)
qed simp

lemma encode_dataset_writes:
  "dataset_ok ds \<Longrightarrow> length (components_bytes ds) < 65535 \<Longrightarrow> encode_dataset ds = puts (components_bytes ds)"
proof (induction ds)
  case (Cons x xs)
  then show ?case by (intro ext, cases x) (simp_all add: encode_writes writer_simps)
qed (auto intro!: ext)

lemma string_size_le: "length (ber_string tag s) < 65535 \<Longrightarrow>
    BerEncoder_determineEncodedStringSize s = length (ber_string tag s)"
  by (rule string_size)

lemma length_u32_tlv: "length (ber_tlv tag (ber_u32 v)) = 2 + BerEncoder_UInt32determineEncodedSize v"
  using length_ber_u32 [of v] by (simp add: wire_simps length_ber_len)

lemma pdu_length_eq:
  assumes "gp_wf self" and "length (goose_fields self ds) < 65535"
  shows "pdu_length self (length ds) (length (components_bytes ds)) = length (goose_fields self ds)"
proof -
  note l = assms(2) [unfolded goose_fields_def length_append]
  have s: "BerEncoder_determineEncodedStringSize (gp_goCBRef self) = length (ber_string 0x80 (gp_goCBRef self))"
    "BerEncoder_determineEncodedStringSize (gp_dataSetRef self) = length (ber_string 0x82 (gp_dataSetRef self))"
    "BerEncoder_determineEncodedStringSize (goose_goID self) = length (ber_string 0x83 (goose_goID self))"
    using l by (auto intro!: string_size)
  have g: "(case gp_goID self of Some g \<Rightarrow> BerEncoder_determineEncodedStringSize (Some g)
          | None \<Rightarrow> BerEncoder_determineEncodedStringSize (gp_goCBRef self)) = length (ber_string 0x83 (goose_goID self))"
    using s(3) by (simp add: goose_goID_def split: option.splits)
  have d: "u32sum [length (components_bytes ds), BerEncoder_determineLengthSize (length (components_bytes ds)), 1]
      = length (ber_tlv 0xab (components_bytes ds))"
    using l by (simp add: u32sum_def wire_simps)
  have t: "length (ber_tlv 0x84 (take 8 (the (utc_octets (gp_timestamp self))))) = 10"
    using assms(1) by (auto simp: gp_wf_def wire_simps length_ber_len)
  have b: "length (ber_tlv tag [x]) = 3" for tag x by (simp add: wire_simps length_ber_len)
  show ?thesis using l
    unfolding pdu_length_def Let_def g unfolding s d
    by (simp add: goose_fields_def u32sum_def t b length_u32_tlv)
qed

lemma puts_finish:
  "puts xs buf pos \<bind> (\<lambda>(b, p). Some (f (b, p))) = map_option f (puts xs buf pos)"
  "puts xs buf pos \<bind> (\<lambda>(b, p). map_option f (puts ys b p)) = map_option f (puts (xs @ ys) buf pos)"
  unfolding puts_bind_puts [symmetric] by (cases "puts xs buf pos"; simp add: case_prod_beta')+

lemma createGoosePayload_eq:
  assumes "gp_wf self" and "dataset_ok ds" and "length (goose_pdu self ds) < 65535"
  shows "createGoosePayload self ds buf maxPayloadSize =
    (if maxPayloadSize < length (goose_pdu self ds) then Some None else map_option Some (puts (goose_pdu self ds) buf 0))"
proof -
  have f: "length (goose_fields self ds) < 65535" using assms(3) by (simp add: goose_pdu_def wire_simps)
  then have c: "length (components_bytes ds) < 65535" by (simp add: goose_fields_def wire_simps)
  have p: "u32sum [1, BerEncoder_determineLengthSize (length (goose_fields self ds)), length (goose_fields self ds)]
      = length (goose_pdu self ds)"
    using f assms(3) by (simp add: u32sum_def goose_pdu_def wire_simps)
  obtain t where t: "gp_timestamp self = MMS_UTC_TIME t" "length t = 8" using assms(1) by (auto simp: gp_wf_def)
  have g: "(case gp_goID self of Some g \<Rightarrow> BerEncoder_encodeStringWithTag 0x83 (Some g) b k
       | None \<Rightarrow> BerEncoder_encodeStringWithTag 0x83 (gp_goCBRef self) b k) = puts (ber_string 0x83 (goose_goID self)) b k" for b k
    by (simp add: goose_goID_def writer_simps split: option.splits)
  have m: "length (components_bytes ds) mod 2 ^ 32 = length (components_bytes ds)" using c by simp
  show ?thesis
    unfolding createGoosePayload_def dataset_size_eq [OF assms(2) c] Let_def bind.bind_lunit m
      pdu_length_eq [OF assms(1) f] p
    by (simp add: writer_simps encodeOctetString_writes t g encode_dataset_writes [OF assms(2) c] puts_finish
      goose_pdu_def goose_fields_def ber_tlv_def [of "0x61"] ber_tlv_def [of "0xab"])
qed


subsection \<open>Publishing writes the reference message\<close>

definition next_sqNum :: "u32 \<Rightarrow> u32" where
  "next_sqNum n = (if n + 1 = 0 then 1 else n + 1)"

definition gp_header :: "GoosePublisher \<Rightarrow> bytes" where
  "gp_header self = take (gp_lengthField self) (gp_buffer self)"

definition gp_reserved :: "GoosePublisher \<Rightarrow> bytes" where
  "gp_reserved self = take 4 (drop (gp_lengthField self + 2) (gp_buffer self))"

definition goose_frame :: "GoosePublisher \<Rightarrow> MmsValue option list \<Rightarrow> bytes" where
  "goose_frame self ds =
     (let n = length (goose_pdu self ds)
      in gp_header self @ [word_of_nat ((n + 8) div 256), word_of_nat (n + 8)] @ gp_reserved self @ goose_pdu self ds)"

lemma take_two_updates:
  assumes "k + 2 \<le> n" "n \<le> length xs"
  shows "take n (xs[k := a, Suc k := b]) = take k xs @ [a, b] @ take (n - (k + 2)) (drop (k + 2) xs)"
  using assms by (auto intro!: nth_equalityI arg_cong [where f = "nth xs"] simp: nth_append nth_list_update nth_Cons' less_Suc_eq)

lemma publish_eq:
  assumes "gp_wf self" and "dataset_ok ds" and "length (goose_pdu self ds) < 65535"
  shows "if GOOSE_MAX_MESSAGE_SIZE < gp_payloadStart self + length (goose_pdu self ds)
    then GoosePublisher_publish self ds = Some (- 1, None, self\<lparr>gp_payloadLength := - 1\<rparr>)
    else \<exists>buffer. GoosePublisher_publish self ds = Some (0, Some (goose_frame self ds),
      self\<lparr>gp_buffer := buffer, gp_payloadLength := int (length (goose_pdu self ds)),
           gp_sqNum := next_sqNum (gp_sqNum self)\<rparr>)
      \<and> length buffer = GOOSE_MAX_MESSAGE_SIZE \<and> take (gp_lengthField self) buffer = gp_header self
      \<and> take 4 (drop (gp_lengthField self + 2) buffer) = gp_reserved self"
proof -
  let ?pdu = "goose_pdu self ds" and ?st = "gp_payloadStart self" and ?lf = "gp_lengthField self"
  have w: "length (gp_buffer self) = GOOSE_MAX_MESSAGE_SIZE" "?st \<le> 26" "?lf + 6 = ?st" "gp_ethernetSocket self"
    using assms(1) by (auto simp: gp_wf_def)
  have lim: "26 \<le> GOOSE_MAX_MESSAGE_SIZE" by (simp add: GOOSE_MAX_MESSAGE_SIZE_def)
  show ?thesis
  proof (cases "GOOSE_MAX_MESSAGE_SIZE < ?st + length ?pdu")
    case True
    then have "GOOSE_MAX_MESSAGE_SIZE - ?st < length ?pdu" using w lim by linarith
    with True show ?thesis by (simp add: GoosePublisher_publish_def createGoosePayload_eq [OF assms])
  next
    case False
    define rest where "rest = drop (?st + length ?pdu) (gp_buffer self)"
    define b where "b = take ?st (gp_buffer self) @ ?pdu @ rest"
    let ?n = "length ?pdu + 8"
    let ?b = "b[?lf := word_of_nat (?n div 256), Suc ?lf := word_of_nat ?n]"
    have lb: "length b = GOOSE_MAX_MESSAGE_SIZE" using False w lim by (simp add: b_def rest_def)
    have tb: "take ?st b = take ?st (gp_buffer self)" using w lim by (simp add: b_def)
    have pay: "createGoosePayload self ds (drop ?st (gp_buffer self)) (GOOSE_MAX_MESSAGE_SIZE - ?st)
        = Some (Some (?pdu @ rest, length ?pdu))"
      using False w lim by (simp add: createGoosePayload_eq [OF assms] puts_eq overlay_def rest_def add.commute)
    have pub: "GoosePublisher_publish self ds = Some (0, Some (take (?st + length ?pdu) ?b),
      self\<lparr>gp_buffer := ?b, gp_payloadLength := int (length ?pdu), gp_sqNum := next_sqNum (gp_sqNum self)\<rparr>)"
      using False w lim lb
      by (simp add: GoosePublisher_publish_def pay Let_def b_def [symmetric] put_def rdn_def next_sqNum_def)
    have hd: "take ?st ?b = gp_header self @ [word_of_nat (?n div 256), word_of_nat ?n] @ gp_reserved self"
    proof -
      have four: "?st - (?lf + 2) = 4" using w(3) by simp
      have "take ?st ?b = take ?lf b @ [word_of_nat (?n div 256), word_of_nat ?n] @ take (?st - (?lf + 2)) (drop (?lf + 2) b)"
        using w lb lim by (intro take_two_updates) simp_all
      moreover have "take ?lf b = gp_header self"
        using arg_cong [OF tb, of "take ?lf"] w by (simp add: gp_header_def min_absorb1)
      moreover have "take (?st - (?lf + 2)) (drop (?lf + 2) b) = gp_reserved self"
        using arg_cong [OF tb, of "drop (?lf + 2)"] four by (simp only: gp_reserved_def drop_take)
      ultimately show ?thesis by simp
    qed
    have "drop ?st ?b = ?pdu @ rest" using w lim by (simp add: b_def)
    with hd have split: "?b = gp_header self @ [word_of_nat (?n div 256), word_of_nat ?n] @ gp_reserved self @ ?pdu @ rest"
      by (metis append_assoc append_take_drop_id)
    have lens: "length (gp_header self) = ?lf" "length (gp_reserved self) = 4"
      using w lim by (simp_all add: gp_header_def gp_reserved_def)
    have "length (goose_frame self ds) = ?st + length ?pdu" using lens w(3) by (simp add: goose_frame_def Let_def)
    moreover have "?b = goose_frame self ds @ rest" using split by (simp add: goose_frame_def Let_def)
    ultimately have "take (?st + length ?pdu) ?b = goose_frame self ds" by (metis append_eq_conv_conj)
    moreover have "take ?lf ?b = gp_header self" "take 4 (drop (?lf + 2) ?b) = gp_reserved self"
      unfolding split using lens by simp_all
    ultimately show ?thesis using False pub lb by auto
  qed
qed


text \<open>
  C23: Publishing a data set whose message fits into 1518 bytes returns 0 and sends exactly the
  reference frame (Ethernet header, length, IEC GOOSE PDU with all fields and all entries), writes
  nothing outside the buffer and steps \<open>sqNum\<close> past zero on wrap-around; a message that does not
  fit returns -1, sends nothing and leaves the buffer and the counters alone.  The publisher stays
  well formed and its frame header does not change.
\<close>

theorem publish_sends_frame:
  assumes "gp_wf self" and "dataset_ok ds" and "length (goose_pdu self ds) < 65535"
  shows "\<exists>self' rc sent. GoosePublisher_publish self ds = Some (rc, sent, self')
    \<and> gp_wf self' \<and> gp_header self' = gp_header self \<and> gp_reserved self' = gp_reserved self
    \<and> gp_stNum self' = gp_stNum self \<and> gp_timestamp self' = gp_timestamp self
    \<and> (if gp_payloadStart self + length (goose_pdu self ds) \<le> GOOSE_MAX_MESSAGE_SIZE
        then rc = 0 \<and> sent = Some (goose_frame self ds) \<and> gp_sqNum self' = next_sqNum (gp_sqNum self)
        else rc = - 1 \<and> sent = None \<and> gp_sqNum self' = gp_sqNum self \<and> gp_buffer self' = gp_buffer self)"
proof (cases "gp_payloadStart self + length (goose_pdu self ds) \<le> GOOSE_MAX_MESSAGE_SIZE")
  case True
  with publish_eq [OF assms] assms(1) show ?thesis by (auto simp: gp_wf_def gp_header_def gp_reserved_def)
next
  case False
  with publish_eq [OF assms] assms(1) show ?thesis by (simp add: gp_wf_def gp_header_def gp_reserved_def)
qed

theorem publish_sends_frame_witness:
  "\<exists>self' sent. GoosePublisher_publish (GoosePublisher_calloc\<lparr>gp_buffer := replicate 1518 0, gp_payloadStart := 22,
      gp_lengthField := 16, gp_ethernetSocket := True\<rparr>) [Some (MMS_BOOLEAN True)] = Some (0, sent, self')"
proof -
  let ?p = "GoosePublisher_calloc\<lparr>gp_buffer := replicate 1518 0, gp_payloadStart := 22, gp_lengthField := 16,
      gp_ethernetSocket := True\<rparr>"
  have "gp_wf ?p" by (simp add: gp_wf_def GoosePublisher_calloc_def GOOSE_MAX_MESSAGE_SIZE_def)
  moreover have "length (goose_pdu ?p [Some (MMS_BOOLEAN True)]) < 200"
    using length_ber_u32 [of 0] length_ber_u32 [of 1]
    by (simp add: goose_pdu_def goose_fields_def GoosePublisher_calloc_def goose_goID_def ber_string_def wire_simps length_ber_len)
  ultimately show ?thesis
    using publish_sends_frame [of ?p "[Some (MMS_BOOLEAN True)]"] by (auto simp: GOOSE_MAX_MESSAGE_SIZE_def)
qed

subsection \<open>Creation\<close>

definition frame_header :: "CommParameters \<Rightarrow> bytes \<Rightarrow> bool \<Rightarrow> bytes" where
  "frame_header p srcAddr useVlanTags =
     dstAddress p @ srcAddr @ (if useVlanTags then vlan_tag p else []) @
     [0x88, 0xb8, word_of_nat (unat (appId p) div 256), word_of_nat (unat (appId p) mod 256)]"

lemma create_ok:
  assumes "length (dstAddress p) = 6" and "length srcAddr = 6"
  shows "GoosePublisher_createEx (Some p) srcAddr False now vlan = Some None
    \<and> (\<exists>self. GoosePublisher_createEx (Some p) srcAddr True now vlan = Some (Some self)
        \<and> gp_wf self \<and> gp_header self = frame_header p srcAddr vlan \<and> gp_reserved self = [0, 0, 0, 0]
        \<and> gp_stNum self = 1 \<and> gp_sqNum self = 0 \<and> gp_goID self = None)"
proof -
  let ?run = "frame_header p srcAddr vlan @ [0, 8, 0, 0, 0, 0]"
  have lr: "length ?run = (if vlan then 26 else 22)"
    using assms by (simp add: frame_header_def vlan_tag_def)
  have "prepareGooseBuffer GoosePublisher_calloc (Some p) srcAddr True vlan
      = Some (True, GoosePublisher_calloc\<lparr>gp_ethernetSocket := True,
          gp_buffer := ?run @ replicate (GOOSE_MAX_MESSAGE_SIZE - length ?run) 0,
          gp_lengthField := (if vlan then 20 else 16), gp_payloadStart := (if vlan then 26 else 22)\<rparr>)"
    using assms lr
    by (simp add: prepareGooseBuffer_def Let_def rdn_def puts_eq overlay_def GOOSE_MAX_MESSAGE_SIZE_def frame_header_def
        vlan_tag_def)
  moreover have "gp_goID GoosePublisher_calloc = None" by (simp add: GoosePublisher_calloc_def)
  ultimately show ?thesis using assms lr
    by (auto simp: GoosePublisher_createEx_def prepareGooseBuffer_def gp_wf_def gp_header_def gp_reserved_def
        GoosePublisher_reset_def MmsValue_newUtcTimeByMsTime_def setUtcTimeMs_members Let_def GOOSE_MAX_MESSAGE_SIZE_def
        frame_header_def vlan_tag_def)
qed

text \<open>
  A created publisher is well formed, its frame header holds the addresses, the VLAN tag when
  asked for, the EtherType 0x88b8 and the application id, its reserved fields are zero, and its
  counters start at state number 1 and sequence number 0.  Without a socket no publisher is
  created.
\<close>

theorem create_header:
  assumes "length (dstAddress p) = 6" and "length srcAddr = 6"
  shows "GoosePublisher_createEx (Some p) srcAddr False now vlan = Some None
    \<and> (\<exists>self. GoosePublisher_createEx (Some p) srcAddr True now vlan = Some (Some self)
        \<and> gp_wf self \<and> gp_header self = frame_header p srcAddr vlan \<and> gp_reserved self = [0, 0, 0, 0]
        \<and> gp_stNum self = 1 \<and> gp_sqNum self = 0)"
  using create_ok [OF assms, of now vlan] by auto

theorem create_header_witness:
  "\<exists>self. GoosePublisher_createEx (Some default_parameters) [2, 0, 0, 0, 0, 1] True 1000 True = Some (Some self)
    \<and> gp_header self = [0x01, 0x0c, 0xcd, 0x01, 0x00, 0x01, 2, 0, 0, 0, 0, 1, 0x81, 0, 0x80, 0, 0x88, 0xb8, 0x10, 0]"
  using create_header [of default_parameters "[2, 0, 0, 0, 0, 1]" 1000 True]
  by (auto simp: default_parameters_def frame_header_def vlan_tag_def)

subsection \<open>Counters over a run\<close>

text \<open>
  A client calls \<open>publish\<close> and \<open>increaseStNum\<close> in any order.  The log holds the state and sequence
  number of every message that was sent.
\<close>

datatype pub_op = OpPublish "MmsValue option list" | OpIncrease u64

fun run_ops :: "GoosePublisher \<Rightarrow> pub_op list \<Rightarrow> (GoosePublisher \<times> (nat \<times> nat) list) option" where
  "run_ops self [] = Some (self, [])"
| "run_ops self (OpPublish ds # ops) = do {
     (rc, sent, self') \<leftarrow> GoosePublisher_publish self ds;
     (self'', sent_log) \<leftarrow> run_ops self' ops;
     Some (self'', (if sent = None then sent_log else (unat (gp_stNum self), unat (gp_sqNum self)) # sent_log)) }"
| "run_ops self (OpIncrease now # ops) = do {
     (_, self') \<leftarrow> GoosePublisher_increaseStNum self now;
     run_ops self' ops }"

definition opt_len :: "cstring option \<Rightarrow> nat" where
  "opt_len s = (case s of None \<Rightarrow> 0 | Some x \<Rightarrow> length x)"

definition message_small :: "GoosePublisher \<Rightarrow> MmsValue option list \<Rightarrow> bool" where
  "message_small self ds \<longleftrightarrow>
     2 * opt_len (gp_goCBRef self) + opt_len (gp_dataSetRef self) + opt_len (gp_goID self) + length (components_bytes ds) < 60000"

fun op_ok :: "GoosePublisher \<Rightarrow> pub_op \<Rightarrow> bool" where
  "op_ok self (OpPublish ds) = (dataset_ok ds \<and> message_small self ds)"
| "op_ok self (OpIncrease _) = True"

lemma length_ber_string_le: "length (ber_string tag s) \<le> opt_len s + 5"
  by (cases s) (simp_all add: ber_string_def wire_simps length_ber_len opt_len_def)

lemma length_goose_pdu_le:
  "length (goose_pdu self ds) \<le> 2 * opt_len (gp_goCBRef self) + opt_len (gp_dataSetRef self)
      + opt_len (gp_goID self) + length (components_bytes ds) + 205"
proof -
  have tlv: "length (ber_tlv tag c) \<le> length c + 5" for tag c by (simp add: wire_simps length_ber_len)
  have u: "length (ber_tlv tag (ber_u32 v)) \<le> 10" for tag v using tlv [of tag "ber_u32 v"] length_ber_u32 [of v] by linarith
  have b: "length (ber_tlv tag [x]) \<le> 6" for tag x using tlv [of tag "[x]"] by simp
  have t: "length (ber_tlv tag (take 8 x)) \<le> 13" for tag x using tlv [of tag "take 8 x"] by simp
  have g: "opt_len (goose_goID self) \<le> opt_len (gp_goID self) + opt_len (gp_goCBRef self)"
    by (simp add: goose_goID_def opt_len_def split: option.splits)
  have "length (goose_fields self ds) \<le> 2 * opt_len (gp_goCBRef self) + opt_len (gp_dataSetRef self)
      + opt_len (gp_goID self) + length (components_bytes ds) + 200"
    unfolding goose_fields_def length_append
    using g u [of "0x81"  "gp_timeAllowedToLive self"] u [of "0x85" "gp_stNum self"] u [of "0x86" "gp_sqNum self"]
      u [of "0x88" "gp_confRev self"] u [of "0x8a" "word_of_nat (length ds)"]
      b [of "0x87" "if gp_simulation self then 1 else 0"] b [of "0x89" "if gp_needsCommission self then 1 else 0"]
      t [of "0x84" "the (utc_octets (gp_timestamp self))"] tlv [of "0xab" "components_bytes ds"]
      length_ber_string_le [of "0x80" "gp_goCBRef self"] length_ber_string_le [of "0x82" "gp_dataSetRef self"]
      length_ber_string_le [of "0x83" "goose_goID self"]
    by linarith
  then show ?thesis using tlv [of "0x61" "goose_fields self ds"]
    unfolding goose_pdu_def by linarith
qed

lemma goose_pdu_small: "message_small self ds \<Longrightarrow> length (goose_pdu self ds) < 65535"
  using length_goose_pdu_le [of self ds] by (simp add: message_small_def)

fun num_less :: "nat \<times> nat \<Rightarrow> nat \<times> nat \<Rightarrow> bool" where
  "num_less (st, sq) (st', sq') \<longleftrightarrow> st < st' \<or> (st = st' \<and> sq < sq')"

definition same_names :: "GoosePublisher \<Rightarrow> GoosePublisher \<Rightarrow> bool" where
  "same_names a b \<longleftrightarrow> gp_goCBRef a = gp_goCBRef b \<and> gp_dataSetRef a = gp_dataSetRef b \<and> gp_goID a = gp_goID b"

lemma op_ok_same_names: "same_names a b \<Longrightarrow> op_ok a = op_ok b"
proof
  fix x assume "same_names a b"
  then show "op_ok a x = op_ok b x" by (cases x) (simp_all add: same_names_def message_small_def)
qed

lemma unat_Suc_word: "unat (n :: u32) + 1 < 2 ^ 32 \<Longrightarrow> unat (n + 1) = unat n + 1 \<and> n + 1 \<noteq> 0"
proof -
  assume "unat n + 1 < 2 ^ 32"
  then have "unat (n + 1) = unat n + 1" by (simp add: unat_word_ariths)
  then show ?thesis by (metis Suc_eq_plus1 nat.distinct(1) unsigned_0)
qed

lemma publish_step:
  assumes "gp_wf self" and "op_ok self (OpPublish ds)" and "unat (gp_sqNum self) + 1 < 2 ^ 32"
  shows "\<exists>rc sent self'. GoosePublisher_publish self ds = Some (rc, sent, self') \<and> gp_wf self' \<and> same_names self self'
    \<and> gp_stNum self' = gp_stNum self
    \<and> unat (gp_sqNum self') = (if sent = None then unat (gp_sqNum self) else unat (gp_sqNum self) + 1)"
proof -
  have ds: "dataset_ok ds" "length (goose_pdu self ds) < 65535" using assms(2) goose_pdu_small by auto
  show ?thesis
  proof (cases "GOOSE_MAX_MESSAGE_SIZE < gp_payloadStart self + length (goose_pdu self ds)")
    case True
    with publish_eq [OF assms(1) ds] assms(1) show ?thesis by (simp add: gp_wf_def same_names_def)
  next
    case False
    with publish_eq [OF assms(1) ds] obtain buffer where
      "GoosePublisher_publish self ds = Some (0, Some (goose_frame self ds),
         self\<lparr>gp_buffer := buffer, gp_payloadLength := int (length (goose_pdu self ds)),
           gp_sqNum := next_sqNum (gp_sqNum self)\<rparr>)" "length buffer = GOOSE_MAX_MESSAGE_SIZE" by auto
    with assms(1) unat_Suc_word [OF assms(3)] show ?thesis
      by (simp add: gp_wf_def same_names_def next_sqNum_def)
  qed
qed

lemma increase_step:
  assumes "gp_wf self" and "unat (gp_stNum self) + 1 < 2 ^ 32"
  shows "\<exists>self'. GoosePublisher_increaseStNum self now = Some (now, self') \<and> gp_wf self' \<and> same_names self self'
    \<and> unat (gp_stNum self') = unat (gp_stNum self) + 1 \<and> gp_sqNum self' = 0"
proof -
  obtain t where "gp_timestamp self = MMS_UTC_TIME t" using assms(1) by (auto simp: gp_wf_def)
  then show ?thesis using assms unat_Suc_word [OF assms(2)]
    by (auto simp: GoosePublisher_increaseStNum_def Let_def gp_wf_def same_names_def setUtcTimeMs_members)
qed

text \<open>
  C27: Whatever sequence of \<open>publish\<close> and \<open>increaseStNum\<close> calls a client makes, every call returns
  and the messages sent carry strictly increasing pairs of state and sequence number, as long as
  the counters do not reach their 32-bit limit.
\<close>

theorem published_numbers_increase:
  assumes "gp_wf self" and "list_all (op_ok self) ops"
    and "unat (gp_stNum self) + length ops < 2 ^ 32" and "unat (gp_sqNum self) + length ops < 2 ^ 32"
  shows "\<exists>self' sent_log. run_ops self ops = Some (self', sent_log) \<and> gp_wf self' \<and> sorted_wrt num_less sent_log
    \<and> list_all (\<lambda>n. \<not> num_less n (unat (gp_stNum self), unat (gp_sqNum self))) sent_log"
  using assms
proof (induction ops arbitrary: self)
  case (Cons op ops)
  show ?case
  proof (cases op)
    case (OpPublish ds)
    with Cons.prems publish_step [of self ds] obtain rc sent self' where
      p: "GoosePublisher_publish self ds = Some (rc, sent, self')" "gp_wf self'" "same_names self self'"
        "gp_stNum self' = gp_stNum self"
        "unat (gp_sqNum self') = (if sent = None then unat (gp_sqNum self) else unat (gp_sqNum self) + 1)"
      by auto
    have "list_all (op_ok self') ops" using Cons.prems(2) op_ok_same_names [OF p(3)] by simp
    then obtain self'' l where l: "run_ops self' ops = Some (self'', l)" "gp_wf self''" "sorted_wrt num_less l"
        "list_all (\<lambda>n. \<not> num_less n (unat (gp_stNum self'), unat (gp_sqNum self'))) l"
      using Cons.IH [of self'] p Cons.prems by (auto split: if_splits)
    then show ?thesis using OpPublish p
      by (cases sent) (fastforce simp: list_all_iff)+
  next
    case (OpIncrease now)
    with Cons.prems increase_step [of self now] obtain self' where
      p: "GoosePublisher_increaseStNum self now = Some (now, self')" "gp_wf self'" "same_names self self'"
        "unat (gp_stNum self') = unat (gp_stNum self) + 1" "gp_sqNum self' = 0"
      by auto
    have "list_all (op_ok self') ops" using Cons.prems(2) op_ok_same_names [OF p(3)] by simp
    then obtain self'' l where l: "run_ops self' ops = Some (self'', l)" "gp_wf self''" "sorted_wrt num_less l"
        "list_all (\<lambda>n. \<not> num_less n (unat (gp_stNum self'), unat (gp_sqNum self'))) l"
      using Cons.IH [of self'] p Cons.prems by auto
    then show ?thesis using OpIncrease p by (fastforce simp: list_all_iff)
  qed
qed simp

theorem published_numbers_increase_witness:
  "\<exists>self' sent_log. run_ops (GoosePublisher_calloc\<lparr>gp_buffer := replicate 1518 0, gp_payloadStart := 22,
      gp_lengthField := 16, gp_ethernetSocket := True, gp_stNum := 1\<rparr>)
      [OpPublish [Some (MMS_BOOLEAN True)], OpIncrease 5, OpPublish [Some (MMS_BOOLEAN False)]] = Some (self', sent_log)
    \<and> sorted_wrt num_less sent_log"
proof -
  let ?p = "GoosePublisher_calloc\<lparr>gp_buffer := replicate 1518 0, gp_payloadStart := 22, gp_lengthField := 16,
      gp_ethernetSocket := True, gp_stNum := 1\<rparr>"
  have "gp_wf ?p" by (simp add: gp_wf_def GoosePublisher_calloc_def GOOSE_MAX_MESSAGE_SIZE_def)
  then show ?thesis
    using published_numbers_increase [of ?p "[OpPublish [Some (MMS_BOOLEAN True)], OpIncrease 5, OpPublish [Some (MMS_BOOLEAN False)]]"]
    by (auto simp: message_small_def opt_len_def GoosePublisher_calloc_def wire_simps length_ber_len)
qed

end
