(* ===== verification/GooseSubscriber.thy ===== *)
theory GooseSubscriber
  imports MmsAccessResult
begin

text \<open>
  The GOOSE subscriber, \<open>src/libiec61850/src/goose/goose_subscriber.c\<close> with the structure of
  \<open>goose_receiver_internal.h\<close>.  The three names are character arrays of 130 bytes.  The address
  of the object, by which a receiver removes it again, is the field \<open>gs_addr\<close>; the listener is the
  flag whether one is set.  The clock is an argument.
\<close>

subsection \<open>State\<close>

datatype GooseParseError = GOOSE_PARSE_ERROR_NO_ERROR | GOOSE_PARSE_ERROR_UNKNOWN_TAG
  | GOOSE_PARSE_ERROR_TAGDECODE | GOOSE_PARSE_ERROR_SUBLEVEL | GOOSE_PARSE_ERROR_OVERFLOW
  | GOOSE_PARSE_ERROR_UNDERFLOW | GOOSE_PARSE_ERROR_TYPE_MISMATCH | GOOSE_PARSE_ERROR_LENGTH_MISMATCH
  | GOOSE_PARSE_ERROR_INVALID_PADDING

record GooseSubscriber =
  gs_addr :: nat
  gs_goCBRef :: bytes
  gs_datSet :: bytes
  gs_goId :: bytes
  gs_goCBRefLen :: nat
  gs_timeAllowedToLive :: u32
  gs_stNum :: u32
  gs_sqNum :: u32
  gs_confRev :: u32
  gs_timestamp :: MmsValue
  gs_simulation :: bool
  gs_ndsCom :: bool
  gs_invalidityTime :: u64
  gs_stateValid :: bool
  gs_parseError :: GooseParseError
  gs_srcMac :: bytes
  gs_dstMac :: bytes
  gs_appId :: int
  gs_dataSetValues :: "MmsValue option"
  gs_dataSetValuesSelfAllocated :: bool
  gs_dstMacSet :: bool
  gs_isObserver :: bool
  gs_vlanSet :: bool
  gs_vlanId :: nat
  gs_vlanPrio :: u8
  gs_listener :: bool

subsection \<open>Operations\<close>

definition GooseSubscriber_create :: "nat \<Rightarrow> cstring \<Rightarrow> MmsValue option \<Rightarrow> GooseSubscriber option" where
  "GooseSubscriber_create addr goCbRef dataSetValues = do {
     ref \<leftarrow> StringUtils_copyStringMax (replicate 130 0) 130 goCbRef;
     Some \<lparr>gs_addr = addr, gs_goCBRef = ref, gs_datSet = replicate 130 0, gs_goId = replicate 130 0,
       gs_goCBRefLen = length goCbRef, gs_timeAllowedToLive = 0, gs_stNum = 0, gs_sqNum = 0, gs_confRev = 0,
       gs_timestamp = MmsValue_newUtcTime 0, gs_simulation = False, gs_ndsCom = False, gs_invalidityTime = 0,
       gs_stateValid = False, gs_parseError = GOOSE_PARSE_ERROR_NO_ERROR, gs_srcMac = replicate 6 0,
       gs_dstMac = replicate 6 0xff, gs_appId = - 1, gs_dataSetValues = dataSetValues,
       gs_dataSetValuesSelfAllocated = (dataSetValues = None), gs_dstMacSet = False, gs_isObserver = False,
       gs_vlanSet = False, gs_vlanId = 0, gs_vlanPrio = 0, gs_listener = False\<rparr> }"

definition GooseSubscriber_isValid :: "GooseSubscriber \<Rightarrow> u64 \<Rightarrow> bool" where
  "GooseSubscriber_isValid self now =
     (if \<not> gs_stateValid self then False
      else if gs_invalidityTime self < now then False
      else True)"

definition GooseSubscriber_setDstMac :: "GooseSubscriber \<Rightarrow> bytes \<Rightarrow> GooseSubscriber option" where
  "GooseSubscriber_setDstMac self dstMac = do {
     mac \<leftarrow> rdn dstMac 0 6;
     Some (self\<lparr>gs_dstMac := mac, gs_dstMacSet := True\<rparr>) }"

definition GooseSubscriber_setAppId :: "GooseSubscriber \<Rightarrow> u16 \<Rightarrow> GooseSubscriber" where
  "GooseSubscriber_setAppId self appId = self\<lparr>gs_appId := uint appId\<rparr>"

definition GooseSubscriber_setListener :: "GooseSubscriber \<Rightarrow> bool \<Rightarrow> GooseSubscriber" where
  "GooseSubscriber_setListener self listener = self\<lparr>gs_listener := listener\<rparr>"

definition GooseSubscriber_setObserver :: "GooseSubscriber \<Rightarrow> GooseSubscriber" where
  "GooseSubscriber_setObserver self = self\<lparr>gs_isObserver := True\<rparr>"

definition GooseSubscriber_getTimestamp :: "GooseSubscriber \<Rightarrow> u64 option" where
  "GooseSubscriber_getTimestamp self = MmsValue_getUtcTimeInMs (gs_timestamp self)"

subsection \<open>Well-formed subscribers\<close>

text \<open>
  The arrays have their size, the time stamp is a UTC time, and the length that is compared with
  a received reference does not exceed the array.
\<close>

definition gs_wf :: "GooseSubscriber \<Rightarrow> bool" where
  "gs_wf s \<longleftrightarrow> length (gs_goCBRef s) = 130 \<and> length (gs_datSet s) = 130 \<and> length (gs_goId s) = 130
     \<and> gs_goCBRefLen s \<le> 130 \<and> (\<exists>t. gs_timestamp s = MMS_UTC_TIME t \<and> length t = 8)
     \<and> length (gs_srcMac s) = 6 \<and> length (gs_dstMac s) = 6"

text \<open>
  A subscriber created for a reference of at most 129 characters is well formed, holds that
  reference as its NUL-terminated name, does not filter on address or application id, is not
  valid, and owns the data set exactly when none was handed in.
\<close>

theorem subscriber_create_ok:
  assumes "length goCbRef \<le> 129" and "0 \<notin> set goCbRef"
  shows "\<exists>s. GooseSubscriber_create addr goCbRef dataSetValues = Some s \<and> gs_wf s
    \<and> cstr (gs_goCBRef s) = Some goCbRef \<and> gs_goCBRefLen s = length goCbRef
    \<and> gs_appId s = - 1 \<and> \<not> gs_dstMacSet s \<and> \<not> GooseSubscriber_isValid s now
    \<and> gs_dataSetValues s = dataSetValues \<and> gs_dataSetValuesSelfAllocated s = (dataSetValues = None)"
  using assms copyStringMax_short [of goCbRef 130 0]
  by (simp add: GooseSubscriber_create_def gs_wf_def GooseSubscriber_isValid_def MmsValue_newUtcTime_def)

theorem subscriber_create_ok_witness:
  "\<exists>s. GooseSubscriber_create 0 [103, 49] None = Some s \<and> cstr (gs_goCBRef s) = Some [103, 49]"
  using subscriber_create_ok [of "[103, 49]" 0 None 0] by auto

end
