(* ===== verification/GooseReceiver.thy ===== *)
theory GooseReceiver
  imports GooseSubscriber
begin

text \<open>
  The GOOSE receiver, \<open>src/libiec61850/src/goose/goose_receiver.c\<close>, in its Ethernet
  configuration.  A pointer into the receive buffer is the list of the bytes from there to the end
  of the buffer.  \<open>parseAllData\<close> updates a data set in place, so it returns the updated value also
  on an error; \<open>parseAllDataUnknownValue\<close> builds a new one.  The subscriber list is a list of
  records; \<open>matchingSubscriber\<close> is a position in it.  A call of the listener is reported by that
  position; its argument is the record at that position of the resulting list.
\<close>

subsection \<open>Parsing into an existing data set\<close>

definition createNewStringFromBufferElement :: "bytes \<Rightarrow> nat \<Rightarrow> MmsValue option" where
  "createNewStringFromBufferElement bufferSrc elementLength = do {
     s \<leftarrow> rdn bufferSrc 0 elementLength;
     Some (MMS_VISIBLE_STRING (Some (s @ [0])) (to_int16 (int elementLength))) }"

text \<open>One element other than an array or structure: the error code and the updated value.\<close>

definition parse_scalar :: "u8 \<Rightarrow> bytes \<Rightarrow> nat \<Rightarrow> nat \<Rightarrow> MmsValue \<Rightarrow> (GooseParseError \<times> MmsValue) option" where
  "parse_scalar tag buffer bufPos elementLength value =
     (if tag = 0x80 then Some (GOOSE_PARSE_ERROR_NO_ERROR, value)
      else if tag = 0x83 then
        (case value of
           MMS_BOOLEAN _ \<Rightarrow> do {
             b \<leftarrow> BerDecoder_decodeBoolean buffer bufPos;
             value \<leftarrow> MmsValue_setBoolean value b;
             Some (GOOSE_PARSE_ERROR_NO_ERROR, value) }
         | _ \<Rightarrow> Some (GOOSE_PARSE_ERROR_TYPE_MISMATCH, value))
      else if tag = 0x84 then
        (case value of
           MMS_BIT_STRING n bits \<Rightarrow> do {
             padding \<leftarrow> rd buffer bufPos;
             if 7 < padding then Some (GOOSE_PARSE_ERROR_INVALID_PADDING, value)
             else if 8 * (int elementLength - 1) - int (unat padding) = int n then do {
               octets \<leftarrow> rdn buffer (bufPos + 1) (elementLength - 1);
               (bits, _) \<leftarrow> puts octets bits 0;
               Some (GOOSE_PARSE_ERROR_NO_ERROR, MMS_BIT_STRING n bits) }
             else Some (GOOSE_PARSE_ERROR_LENGTH_MISMATCH, value) }
         | _ \<Rightarrow> Some (GOOSE_PARSE_ERROR_TYPE_MISMATCH, value))
      else if tag = 0x85 then
        (case value of
           MMS_INTEGER a \<Rightarrow>
             (if elementLength \<le> asn1_maxSize a then do {
                octets \<leftarrow> rdn buffer bufPos elementLength;
                a \<leftarrow> asn1_store a octets;
                Some (GOOSE_PARSE_ERROR_NO_ERROR, MMS_INTEGER a) }
              else Some (GOOSE_PARSE_ERROR_LENGTH_MISMATCH, value))
         | _ \<Rightarrow> Some (GOOSE_PARSE_ERROR_TYPE_MISMATCH, value))
      else if tag = 0x86 then
        (case value of
           MMS_UNSIGNED a \<Rightarrow>
             (if elementLength \<le> asn1_maxSize a then do {
                octets \<leftarrow> rdn buffer bufPos elementLength;
                a \<leftarrow> asn1_store a octets;
                Some (GOOSE_PARSE_ERROR_NO_ERROR, MMS_UNSIGNED a) }
              else Some (GOOSE_PARSE_ERROR_LENGTH_MISMATCH, value))
         | _ \<Rightarrow> Some (GOOSE_PARSE_ERROR_TYPE_MISMATCH, value))
      else if tag = 0x87 then
        (case value of
           MMS_FLOAT _ _ _ \<Rightarrow>
             (if elementLength = 9 then do {
                d \<leftarrow> BerDecoder_decodeDouble buffer bufPos;
                Some (GOOSE_PARSE_ERROR_NO_ERROR, MmsValue_setDouble value d) }
              else if elementLength = 5 then do {
                d \<leftarrow> BerDecoder_decodeFloat buffer bufPos;
                Some (GOOSE_PARSE_ERROR_NO_ERROR, MmsValue_setFloat value d) }
              else Some (GOOSE_PARSE_ERROR_LENGTH_MISMATCH, value))
         | _ \<Rightarrow> Some (GOOSE_PARSE_ERROR_TYPE_MISMATCH, value))
      else if tag = 0x89 then
        (case value of
           MMS_OCTET_STRING _ maxSize buf \<Rightarrow> do {
             octets \<leftarrow> rdn buffer bufPos elementLength;
             if int elementLength \<le> \<bar>maxSize\<bar> then do {
               (buf, _) \<leftarrow> puts octets buf 0;
               Some (GOOSE_PARSE_ERROR_NO_ERROR, MMS_OCTET_STRING (to_uint16 elementLength) maxSize buf) }
             else Some (GOOSE_PARSE_ERROR_NO_ERROR,
                        MMS_OCTET_STRING (to_uint16 elementLength) (- int elementLength) octets) }
         | _ \<Rightarrow> Some (GOOSE_PARSE_ERROR_TYPE_MISMATCH, value))
      else if tag = 0x8a then
        (case value of
           MMS_VISIBLE_STRING (Some buf) n \<Rightarrow>
             (if int elementLength \<le> n then do {
                octets \<leftarrow> rdn buffer bufPos elementLength;
                (buf, p) \<leftarrow> puts octets buf 0;
                (buf, _) \<leftarrow> put 0 buf p;
                Some (GOOSE_PARSE_ERROR_NO_ERROR, MMS_VISIBLE_STRING (Some buf) n) }
              else do {
                value \<leftarrow> createNewStringFromBufferElement (drop bufPos buffer) elementLength;
                Some (GOOSE_PARSE_ERROR_NO_ERROR, value) })
         | MMS_VISIBLE_STRING None _ \<Rightarrow> do {
             value \<leftarrow> createNewStringFromBufferElement (drop bufPos buffer) elementLength;
             Some (GOOSE_PARSE_ERROR_NO_ERROR, value) }
         | _ \<Rightarrow> Some (GOOSE_PARSE_ERROR_TYPE_MISMATCH, value))
      else if tag = 0x8c then
        (case value of
           MMS_BINARY_TIME n buf \<Rightarrow>
             (if elementLength = 4 \<or> elementLength = 6 then do {
                octets \<leftarrow> rdn buffer bufPos elementLength;
                (buf, _) \<leftarrow> puts octets buf 0;
                Some (GOOSE_PARSE_ERROR_NO_ERROR, MMS_BINARY_TIME n buf) }
              else Some (GOOSE_PARSE_ERROR_NO_ERROR, value))
         | _ \<Rightarrow> Some (GOOSE_PARSE_ERROR_TYPE_MISMATCH, value))
      else if tag = 0x91 then
        (if elementLength = 8 then
           (case value of
              MMS_UTC_TIME _ \<Rightarrow> do {
                value \<leftarrow> MmsValue_setUtcTimeByBuffer value (drop bufPos buffer);
                Some (GOOSE_PARSE_ERROR_NO_ERROR, value) }
            | _ \<Rightarrow> Some (GOOSE_PARSE_ERROR_TYPE_MISMATCH, value))
         else Some (GOOSE_PARSE_ERROR_LENGTH_MISMATCH, value))
      else Some (GOOSE_PARSE_ERROR_UNKNOWN_TAG, value))"

definition finish_parse :: "nat \<Rightarrow> GooseParseError \<times> nat \<times> MmsValue option list \<Rightarrow> GooseParseError" where
  "finish_parse count r =
     (case r of (pe, elementIndex, _) \<Rightarrow>
        if elementIndex < count \<and> pe = GOOSE_PARSE_ERROR_NO_ERROR then GOOSE_PARSE_ERROR_UNDERFLOW else pe)"

text \<open>The loop returns the error code, the element index and the components it leaves behind.\<close>

function parseAllData :: "bytes \<Rightarrow> nat \<Rightarrow> MmsValue \<Rightarrow> (GooseParseError \<times> MmsValue) option"
  and parse_loop :: "bytes \<Rightarrow> nat \<Rightarrow> nat \<Rightarrow> nat \<Rightarrow> MmsValue option list \<Rightarrow>
    (GooseParseError \<times> nat \<times> MmsValue option list) option" where
  "parseAllData buffer allDataLength dataSetValues =
     (case dataSetValues of
        MMS_ARRAY xs \<Rightarrow> do {
          (pe, i, ys) \<leftarrow> parse_loop buffer allDataLength 0 0 xs;
          Some (finish_parse (length xs) (pe, i, ys), MMS_ARRAY ys) }
      | MMS_STRUCTURE xs \<Rightarrow> do {
          (pe, i, ys) \<leftarrow> parse_loop buffer allDataLength 0 0 xs;
          Some (finish_parse (length xs) (pe, i, ys), MMS_STRUCTURE ys) }
      | _ \<Rightarrow> None)"
| "parse_loop buffer allDataLength bufPos elementIndex xs =
     (if bufPos < allDataLength then do {
        tag \<leftarrow> rd buffer bufPos;
        if length xs \<le> elementIndex then Some (GOOSE_PARSE_ERROR_OVERFLOW, elementIndex, xs)
        else
          (case xs ! elementIndex of
             None \<Rightarrow> Some (GOOSE_PARSE_ERROR_TYPE_MISMATCH, elementIndex, xs)
           | Some value \<Rightarrow> do {
               r \<leftarrow> BerDecoder_decodeLength buffer (bufPos + 1) allDataLength;
               (case r of
                  LenErr \<Rightarrow> Some (GOOSE_PARSE_ERROR_TAGDECODE, elementIndex, xs)
                | LenOk newPos elementLength \<Rightarrow> do {
                      (pe, value) \<leftarrow>
                        (if tag = 0xa1 \<or> tag = 0xa2 then
                           (if MmsValue_getType value = (if tag = 0xa1 then T_ARRAY else T_STRUCTURE) then do {
                              (e, value) \<leftarrow> parseAllData (drop newPos buffer) elementLength value;
                              Some (if e \<noteq> GOOSE_PARSE_ERROR_NO_ERROR then GOOSE_PARSE_ERROR_SUBLEVEL
                                    else GOOSE_PARSE_ERROR_NO_ERROR, value) }
                            else Some (GOOSE_PARSE_ERROR_TYPE_MISMATCH, value))
                         else parse_scalar tag buffer newPos elementLength value);
                      let xs = xs[elementIndex := Some value];
                      if pe \<noteq> GOOSE_PARSE_ERROR_NO_ERROR then Some (pe, elementIndex, xs)
                      else parse_loop buffer allDataLength (newPos + elementLength) (elementIndex + 1) xs }) }) }
      else Some (GOOSE_PARSE_ERROR_NO_ERROR, elementIndex, xs))"
  by pat_completeness auto
termination
  by (relation "measure (\<lambda>x. case x of Inl (_, len, _) \<Rightarrow> 2 * len + 1 | Inr (_, len, pos, _) \<Rightarrow> 2 * (len - pos))")
     (auto dest!: ber.dec_bounds)

subsection \<open>Building a data set from a message\<close>

definition goose_data_tags :: "u8 list" where
  "goose_data_tags = [0x80, 0xa1, 0xa2, 0x83, 0x84, 0x85, 0x86, 0x87, 0x89, 0x8a, 0x8c, 0x91]"

text \<open>The first pass: the inner \<open>None\<close> is a return with a null pointer.\<close>

function count_loop :: "bytes \<Rightarrow> nat \<Rightarrow> nat \<Rightarrow> nat \<Rightarrow> nat option option" where
  "count_loop buffer allDataLength bufPos elementIndex =
     (if bufPos < allDataLength then do {
        tag \<leftarrow> rd buffer bufPos;
        r \<leftarrow> BerDecoder_decodeLength buffer (bufPos + 1) allDataLength;
        (case r of
           LenErr \<Rightarrow> Some None
         | LenOk newPos elementLength \<Rightarrow>
             if tag \<in> set goose_data_tags
             then count_loop buffer allDataLength (newPos + elementLength) (elementIndex + 1)
             else Some None) }
      else Some (Some elementIndex))"
  by pat_completeness auto
termination
  by (relation "measure (\<lambda>(_, len, pos, _). len - pos)") (auto dest!: ber.dec_bounds)

datatype new_value = NewErr | NewValue "MmsValue option"

definition new_scalar :: "u8 \<Rightarrow> bytes \<Rightarrow> nat \<Rightarrow> nat \<Rightarrow> new_value option" where
  "new_scalar tag buffer bufPos elementLength =
     (if tag = 0x83 then
        (if 0 < elementLength then do {
           b \<leftarrow> BerDecoder_decodeBoolean buffer bufPos;
           Some (NewValue (Some (MmsValue_newBoolean b))) }
         else Some NewErr)
      else if tag = 0x84 then
        (if 1 < elementLength then do {
           padding \<leftarrow> rd buffer bufPos;
           if 7 < padding then Some NewErr
           else (case MmsValue_newBitString ((int elementLength - 1) * 8 - int (unat padding)) of
                   MMS_BIT_STRING n buf \<Rightarrow> do {
                     octets \<leftarrow> rdn buffer (bufPos + 1) (elementLength - 1);
                     (buf, _) \<leftarrow> puts octets buf 0;
                     Some (NewValue (Some (MMS_BIT_STRING n buf))) }
                 | _ \<Rightarrow> None) }
         else Some NewErr)
      else if tag = 0x85 then
        (if 8 < elementLength then Some NewErr
         else (case MmsValue_newInteger (elementLength * 8) of
                 MMS_INTEGER a \<Rightarrow> do {
                   octets \<leftarrow> rdn buffer bufPos elementLength;
                   a \<leftarrow> asn1_store a octets;
                   Some (NewValue (Some (MMS_INTEGER a))) }
               | _ \<Rightarrow> None))
      else if tag = 0x86 then
        (if 8 < elementLength then Some NewErr
         else (case MmsValue_newUnsigned (elementLength * 8) of
                 MMS_UNSIGNED a \<Rightarrow> do {
                   octets \<leftarrow> rdn buffer bufPos elementLength;
                   a \<leftarrow> asn1_store a octets;
                   Some (NewValue (Some (MMS_UNSIGNED a))) }
               | _ \<Rightarrow> None))
      else if tag = 0x87 then
        (if elementLength = 9 then do {
           d \<leftarrow> BerDecoder_decodeDouble buffer bufPos;
           Some (NewValue (Some (MmsValue_newDouble d))) }
         else if elementLength = 5 then do {
           d \<leftarrow> BerDecoder_decodeFloat buffer bufPos;
           Some (NewValue (Some (MmsValue_newFloat d))) }
         else Some (NewValue None))
      else if tag = 0x89 then
        (case MmsValue_newOctetString elementLength (int elementLength) of
           MMS_OCTET_STRING n maxSize buf \<Rightarrow> do {
             octets \<leftarrow> rdn buffer bufPos elementLength;
             (buf, _) \<leftarrow> puts octets buf 0;
             Some (NewValue (Some (MMS_OCTET_STRING n maxSize buf))) }
         | _ \<Rightarrow> None)
      else if tag = 0x8a then do {
        v \<leftarrow> MmsValue_newVisibleStringFromByteArray (drop bufPos buffer) elementLength;
        Some (NewValue (Some v)) }
      else if tag = 0x8c then
        (if elementLength = 4 \<or> elementLength = 6 then
           (case MmsValue_newBinaryTime (elementLength = 4) of
              MMS_BINARY_TIME n buf \<Rightarrow> do {
                octets \<leftarrow> rdn buffer bufPos elementLength;
                (buf, _) \<leftarrow> puts octets buf 0;
                Some (NewValue (Some (MMS_BINARY_TIME n buf))) }
            | _ \<Rightarrow> None)
         else Some (NewValue None))
      else if tag = 0x91 then
        (if elementLength = 8 then do {
           v \<leftarrow> MmsValue_setUtcTimeByBuffer (MmsValue_newUtcTime 0) (drop bufPos buffer);
           Some (NewValue (Some v)) }
         else Some (NewValue None))
      else Some NewErr)"

text \<open>
  The second pass fills the new array.  The flag is \<open>dataSetValuesSelfAllocated\<close> of the
  subscriber, set when a level of the recursion succeeds.
\<close>

function parseAllDataUnknownValue :: "bool \<Rightarrow> bytes \<Rightarrow> nat \<Rightarrow> bool \<Rightarrow> (bool \<times> MmsValue option) option"
  and fill_loop :: "bool \<Rightarrow> bytes \<Rightarrow> nat \<Rightarrow> nat \<Rightarrow> nat \<Rightarrow> MmsValue \<Rightarrow> (bool \<times> MmsValue option) option" where
  "parseAllDataUnknownValue selfAllocated buffer allDataLength isStructure = do {
     n \<leftarrow> count_loop buffer allDataLength 0 0;
     (case n of
        None \<Rightarrow> Some (selfAllocated, None)
      | Some elementCount \<Rightarrow>
          fill_loop selfAllocated buffer allDataLength 0 0
            (if isStructure then MmsValue_createEmptyStructure elementCount
             else MmsValue_createEmptyArray elementCount)) }"
| "fill_loop selfAllocated buffer allDataLength bufPos elementIndex dataSetValues =
     (if bufPos < allDataLength then do {
        tag \<leftarrow> rd buffer bufPos;
        r \<leftarrow> BerDecoder_decodeLength buffer (bufPos + 1) allDataLength;
        (case r of
           LenErr \<Rightarrow> Some (selfAllocated, None)
         | LenOk newPos elementLength \<Rightarrow> do {
             (selfAllocated, v) \<leftarrow>
               (if tag = 0xa1 \<or> tag = 0xa2 then do {
                  (f, v) \<leftarrow> parseAllDataUnknownValue selfAllocated (drop newPos buffer) elementLength (tag = 0xa2);
                  Some (f, case v of None \<Rightarrow> NewErr | Some v \<Rightarrow> NewValue (Some v)) }
                else map_option (Pair selfAllocated) (new_scalar tag buffer newPos elementLength));
             (case v of
                NewErr \<Rightarrow> Some (selfAllocated, None)
              | NewValue None \<Rightarrow>
                  fill_loop selfAllocated buffer allDataLength (newPos + elementLength) elementIndex dataSetValues
              | NewValue (Some v) \<Rightarrow>
                  fill_loop selfAllocated buffer allDataLength (newPos + elementLength) (elementIndex + 1)
                    (MmsValue_setElement dataSetValues elementIndex (Some v))) }) }
      else Some (True, Some dataSetValues))"
  by pat_completeness auto
termination
  by (relation "measure (\<lambda>x. case x of Inl (_, _, len, _) \<Rightarrow> 2 * len + 1 | Inr (_, _, len, pos, _) \<Rightarrow> 2 * (len - pos))")
     (auto dest!: ber.dec_bounds)

declare parseAllData.simps [simp del] parse_loop.simps [simp del] count_loop.simps [simp del]
  parseAllDataUnknownValue.simps [simp del] fill_loop.simps [simp del]

subsection \<open>The GOOSE PDU\<close>

text \<open>The local variables of \<open>parseGoosePayload\<close>.\<close>

record payload_locals =
  pl_timeAllowedToLive :: u32
  pl_stNum :: u32
  pl_sqNum :: u32
  pl_confRev :: u32
  pl_simulation :: bool
  pl_ndsCom :: bool
  pl_matchingSubscriber :: "nat option"
  pl_timestampBufPos :: "nat option"
  pl_dataSetBufferAddress :: nat
  pl_dataSetBufferLength :: nat
  pl_numberOfDatSetEntries :: u32

definition payload_init :: payload_locals where
  "payload_init = \<lparr>pl_timeAllowedToLive = 0, pl_stNum = 0, pl_sqNum = 0, pl_confRev = 0,
     pl_simulation = False, pl_ndsCom = False, pl_matchingSubscriber = None, pl_timestampBufPos = None,
     pl_dataSetBufferAddress = 0, pl_dataSetBufferLength = 0, pl_numberOfDatSetEntries = 0\<rparr>"

text \<open>Copying a received name into one of the arrays of 130 bytes, unless it is too long.\<close>

definition store_name :: "bytes \<Rightarrow> bytes \<Rightarrow> nat \<Rightarrow> nat \<Rightarrow> bytes option" where
  "store_name name buffer bufPos elementLength =
     (if 129 < elementLength then Some name
      else do {
        octets \<leftarrow> rdn buffer bufPos elementLength;
        (name, p) \<leftarrow> puts octets name 0;
        (name, _) \<leftarrow> put 0 name p;
        Some name })"

text \<open>The search for the subscriber of a control block reference, from position \<open>i\<close> of the list.\<close>

fun match_gocbRef :: "bytes \<Rightarrow> nat \<Rightarrow> nat \<Rightarrow> GooseSubscriber list \<Rightarrow> nat \<Rightarrow>
    (nat option \<times> GooseSubscriber list) option" where
  "match_gocbRef buffer bufPos elementLength [] i = Some (None, [])"
| "match_gocbRef buffer bufPos elementLength (subscriber # rest) i =
     (if gs_isObserver subscriber then do {
        ref \<leftarrow> store_name (gs_goCBRef subscriber) buffer bufPos elementLength;
        Some (Some i, subscriber\<lparr>gs_goCBRef := ref\<rparr> # rest) }
      else do {
        eq \<leftarrow> (if gs_goCBRefLen subscriber = elementLength then do {
                 a \<leftarrow> rdn (gs_goCBRef subscriber) 0 elementLength;
                 b \<leftarrow> rdn buffer bufPos elementLength;
                 Some (a = b) }
               else Some False);
        if eq then Some (Some i, subscriber # rest)
        else do {
          (m, rest) \<leftarrow> match_gocbRef buffer bufPos elementLength rest (i + 1);
          Some (m, subscriber # rest) } })"

definition upd_matching ::
    "payload_locals \<Rightarrow> GooseSubscriber list \<Rightarrow> (GooseSubscriber \<Rightarrow> GooseSubscriber option) \<Rightarrow> GooseSubscriber list option" where
  "upd_matching l subs f =
     (case pl_matchingSubscriber l of
        None \<Rightarrow> Some subs
      | Some i \<Rightarrow> (if i < length subs then do { s \<leftarrow> f (subs ! i); Some (subs[i := s]) } else None))"

text \<open>One field of the PDU; an inner \<open>None\<close> is the early return without a matching subscriber.\<close>

definition payload_field ::
    "u8 \<Rightarrow> bytes \<Rightarrow> nat \<Rightarrow> nat \<Rightarrow> payload_locals \<times> GooseSubscriber list \<Rightarrow>
       ((payload_locals \<times> GooseSubscriber list) option \<times> GooseSubscriber list) option" where
  "payload_field tag buffer bufPos elementLength st =
     (case st of (l, subs) \<Rightarrow>
        if tag = 0x80 then do {
          (m, subs) \<leftarrow> match_gocbRef buffer bufPos elementLength subs 0;
          (let l = (case m of None \<Rightarrow> l | Some i \<Rightarrow> l\<lparr>pl_matchingSubscriber := Some i\<rparr>)
           in if pl_matchingSubscriber l = None then Some (None, subs) else Some (Some (l, subs), subs)) }
        else if tag = 0x81 then do {
          v \<leftarrow> BerDecoder_decodeUint32 buffer elementLength bufPos;
          Some (Some (l\<lparr>pl_timeAllowedToLive := v\<rparr>, subs), subs) }
        else if tag = 0x82 then do {
          subs \<leftarrow> upd_matching l subs (\<lambda>s. do {
            name \<leftarrow> store_name (gs_datSet s) buffer bufPos elementLength;
            Some (s\<lparr>gs_datSet := name\<rparr>) });
          Some (Some (l, subs), subs) }
        else if tag = 0x83 then do {
          subs \<leftarrow> upd_matching l subs (\<lambda>s. do {
            name \<leftarrow> store_name (gs_goId s) buffer bufPos elementLength;
            Some (s\<lparr>gs_goId := name\<rparr>) });
          Some (Some (l, subs), subs) }
        else if tag = 0x84 then Some (Some (l\<lparr>pl_timestampBufPos := Some bufPos\<rparr>, subs), subs)
        else if tag = 0x85 then do {
          v \<leftarrow> BerDecoder_decodeUint32 buffer elementLength bufPos;
          Some (Some (l\<lparr>pl_stNum := v\<rparr>, subs), subs) }
        else if tag = 0x86 then do {
          v \<leftarrow> BerDecoder_decodeUint32 buffer elementLength bufPos;
          Some (Some (l\<lparr>pl_sqNum := v\<rparr>, subs), subs) }
        else if tag = 0x87 then do {
          v \<leftarrow> BerDecoder_decodeBoolean buffer bufPos;
          Some (Some (l\<lparr>pl_simulation := v\<rparr>, subs), subs) }
        else if tag = 0x88 then do {
          v \<leftarrow> BerDecoder_decodeUint32 buffer elementLength bufPos;
          Some (Some (l\<lparr>pl_confRev := v\<rparr>, subs), subs) }
        else if tag = 0x89 then do {
          v \<leftarrow> BerDecoder_decodeBoolean buffer bufPos;
          Some (Some (l\<lparr>pl_ndsCom := v\<rparr>, subs), subs) }
        else if tag = 0x8a then do {
          v \<leftarrow> BerDecoder_decodeUint32 buffer elementLength bufPos;
          Some (Some (l\<lparr>pl_numberOfDatSetEntries := v\<rparr>, subs), subs) }
        else if tag = 0xab then
          Some (Some (l\<lparr>pl_dataSetBufferAddress := bufPos, pl_dataSetBufferLength := elementLength\<rparr>, subs), subs)
        else Some (Some (l, subs), subs))"

function payload_loop ::
    "bytes \<Rightarrow> nat \<Rightarrow> nat \<Rightarrow> nat \<Rightarrow> payload_locals \<times> GooseSubscriber list \<Rightarrow>
       (payload_locals option \<times> GooseSubscriber list) option" where
  "payload_loop buffer apduLength gooseEnd bufPos st =
     (if bufPos < gooseEnd then do {
        tag \<leftarrow> rd buffer bufPos;
        r \<leftarrow> BerDecoder_decodeLength buffer (bufPos + 1) apduLength;
        (case r of
           LenErr \<Rightarrow> Some (None, snd st)
         | LenOk newPos elementLength \<Rightarrow> do {
             (st, subs) \<leftarrow> payload_field tag buffer newPos elementLength st;
             (case st of
                None \<Rightarrow> Some (None, subs)
              | Some st \<Rightarrow> payload_loop buffer apduLength gooseEnd (newPos + elementLength) st) }) }
      else Some (Some (fst st), snd st))"
  by pat_completeness auto
termination
  by (relation "measure (\<lambda>(_, _, gooseEnd, bufPos, _). gooseEnd - bufPos)") (auto dest!: ber.dec_bounds)

declare payload_loop.simps [simp del]

text \<open>What happens to the matching subscriber once the whole PDU has been read.\<close>

definition update_header :: "payload_locals \<Rightarrow> bytes \<Rightarrow> GooseSubscriber \<Rightarrow> GooseSubscriber option" where
  "update_header l buffer s = do {
     let s = s\<lparr>gs_timeAllowedToLive := pl_timeAllowedToLive l, gs_ndsCom := pl_ndsCom l,
               gs_simulation := pl_simulation l\<rparr>;
     let s = (if gs_dataSetValuesSelfAllocated s \<and> gs_dataSetValues s \<noteq> None \<and> gs_confRev s \<noteq> pl_confRev l
              then s\<lparr>gs_dataSetValues := None\<rparr> else s);
     let s = s\<lparr>gs_confRev := pl_confRev l\<rparr>;
     timestamp \<leftarrow> (case pl_timestampBufPos l of
        Some p \<Rightarrow> MmsValue_setUtcTimeByBuffer (gs_timestamp s) (drop p buffer)
      | None \<Rightarrow> MmsValue_setUtcTime (gs_timestamp s) 0);
     let s = s\<lparr>gs_timestamp := timestamp\<rparr>;
     Some (if gs_isObserver s \<and> gs_dataSetValues s \<noteq> None then s\<lparr>gs_dataSetValues := None\<rparr> else s) }"

definition parse_dataset :: "payload_locals \<Rightarrow> bytes \<Rightarrow> GooseSubscriber \<Rightarrow> (bool \<times> GooseSubscriber) option" where
  "parse_dataset l buffer s =
     (case gs_dataSetValues s of
        None \<Rightarrow> do {
          (flag, v) \<leftarrow> parseAllDataUnknownValue (gs_dataSetValuesSelfAllocated s)
            (drop (pl_dataSetBufferAddress l) buffer) (pl_dataSetBufferLength l) False;
          Some (True, s\<lparr>gs_dataSetValues := v, gs_dataSetValuesSelfAllocated := flag\<rparr>) }
      | Some values \<Rightarrow> do {
          (parseError, values) \<leftarrow> parseAllData (drop (pl_dataSetBufferAddress l) buffer) (pl_dataSetBufferLength l) values;
          Some (parseError = GOOSE_PARSE_ERROR_NO_ERROR,
                s\<lparr>gs_dataSetValues := Some values, gs_parseError := parseError\<rparr>) })"

definition update_subscriber :: "payload_locals \<Rightarrow> bytes \<Rightarrow> u64 \<Rightarrow> GooseSubscriber \<Rightarrow> GooseSubscriber option" where
  "update_subscriber l buffer now s = do {
     s \<leftarrow> update_header l buffer s;
     (isValid, s) \<leftarrow> parse_dataset l buffer s;
     let isValid = (if gs_stNum s = pl_stNum l \<and> pl_sqNum l \<le> gs_sqNum s then False else isValid);
     Some (s\<lparr>gs_stateValid := isValid, gs_stNum := pl_stNum l, gs_sqNum := pl_sqNum l,
             gs_invalidityTime := now + ucast (pl_timeAllowedToLive l)\<rparr>) }"

text \<open>
  The result is the return value, the subscribers, and the position of the subscriber whose
  listener was called.
\<close>

definition parseGoosePayload ::
    "GooseSubscriber list \<Rightarrow> bytes \<Rightarrow> nat \<Rightarrow> u64 \<Rightarrow> (int \<times> GooseSubscriber list \<times> nat option) option" where
  "parseGoosePayload subs buffer apduLength now = do {
     tag \<leftarrow> rd buffer 0;
     if tag = 0x61 then do {
       r \<leftarrow> BerDecoder_decodeLength buffer 1 apduLength;
       (case r of
          LenErr \<Rightarrow> Some (0, subs, None)
        | LenOk bufPos gooseLength \<Rightarrow> do {
            (l, subs) \<leftarrow> payload_loop buffer apduLength (bufPos + gooseLength) bufPos (payload_init, subs);
            (case l of
               None \<Rightarrow> Some (0, subs, None)
             | Some l \<Rightarrow>
                 (case pl_matchingSubscriber l of
                    None \<Rightarrow> Some (0, subs, None)
                  | Some i \<Rightarrow> do {
                      s \<leftarrow> update_subscriber l buffer now (subs ! i);
                      Some (1, subs[i := s], if gs_listener s then Some i else None) })) }) }
     else Some (- 1, subs, None) }"

subsection \<open>The Ethernet frame\<close>

text \<open>The search for an interested subscriber; an observer takes over the header fields.\<close>

fun find_subscriber ::
    "nat \<Rightarrow> bytes \<Rightarrow> bytes \<Rightarrow> bool \<Rightarrow> nat \<Rightarrow> u8 \<Rightarrow> GooseSubscriber list \<Rightarrow> bool \<times> GooseSubscriber list" where
  "find_subscriber appId srcMac dstMac vlanSet vlanId priority [] = (False, [])"
| "find_subscriber appId srcMac dstMac vlanSet vlanId priority (s # rest) =
     (if gs_isObserver s
      then (True, s\<lparr>gs_appId := int appId, gs_srcMac := srcMac, gs_dstMac := dstMac, gs_vlanSet := vlanSet,
                    gs_vlanId := vlanId, gs_vlanPrio := priority\<rparr> # rest)
      else if (gs_appId s = - 1 \<or> gs_appId s = int appId) \<and> (\<not> gs_dstMacSet s \<or> gs_dstMac s = dstMac)
      then (True, s # rest)
      else (let (found, rest) = find_subscriber appId srcMac dstMac vlanSet vlanId priority rest
            in (found, s # rest)))"

text \<open>The header of the frame; an inner \<open>None\<close> is an early return that ignores the frame.\<close>

record eth_header =
  eh_appId :: nat
  eh_srcMac :: bytes
  eh_dstMac :: bytes
  eh_vlanSet :: bool
  eh_vlanId :: nat
  eh_priority :: u8
  eh_payload :: nat
  eh_apduLength :: nat

definition parse_eth_header :: "bytes \<Rightarrow> nat \<Rightarrow> eth_header option option" where
  "parse_eth_header buffer numbytes =
     (if numbytes < 22 then Some None
      else do {
        b0 \<leftarrow> rd buffer 12;
        b1 \<leftarrow> rd buffer 13;
        tci1 \<leftarrow> rd buffer 14;
        tci2 \<leftarrow> rd buffer 15;
        let vlanSet = (b0 = 0x81 \<and> b1 = 0x00);
        let priority = (if vlanSet then tci1 AND drop_bit 5 0xf8 else 0);
        let vlanId = (if vlanSet then unat (tci1 AND 0x07) * 256 + unat tci2 else 0);
        let bufPos = (if vlanSet then 16 else 12);
        let headerLength = (if vlanSet then 18 else 14);
        if vlanSet \<and> numbytes < 26 then Some None
        else do {
          e0 \<leftarrow> rd buffer bufPos;
          e1 \<leftarrow> rd buffer (bufPos + 1);
          if e0 \<noteq> 0x88 \<or> e1 \<noteq> 0xb8 then Some None
          else do {
            srcMac \<leftarrow> rdn buffer 6 6;
            dstMac \<leftarrow> rdn buffer 0 6;
            a0 \<leftarrow> rd buffer (bufPos + 2);
            a1 \<leftarrow> rd buffer (bufPos + 3);
            l0 \<leftarrow> rd buffer (bufPos + 4);
            l1 \<leftarrow> rd buffer (bufPos + 5);
            let len = unat l0 * 256 + unat l1;
            if len < 8 \<or> numbytes < len + headerLength then Some None
            else Some (Some \<lparr>eh_appId = unat a0 * 256 + unat a1, eh_srcMac = srcMac, eh_dstMac = dstMac,
                   eh_vlanSet = vlanSet, eh_vlanId = vlanId, eh_priority = priority,
                   eh_payload = bufPos + 10, eh_apduLength = len - 8\<rparr>) } } })"

definition parseGooseMessage ::
    "GooseSubscriber list \<Rightarrow> bytes \<Rightarrow> nat \<Rightarrow> u64 \<Rightarrow> (GooseSubscriber list \<times> nat option) option" where
  "parseGooseMessage subs buffer numbytes now = do {
     h \<leftarrow> parse_eth_header buffer numbytes;
     (case h of
        None \<Rightarrow> Some (subs, None)
      | Some h \<Rightarrow> do {
          let (subscriberFound, subs) = find_subscriber (eh_appId h) (eh_srcMac h) (eh_dstMac h) (eh_vlanSet h)
                (eh_vlanId h) (eh_priority h) subs;
          if subscriberFound then do {
            (_, subs, called) \<leftarrow> parseGoosePayload subs (drop (eh_payload h) buffer) (eh_apduLength h) now;
            Some (subs, called) }
          else Some (subs, None) }) }"

subsection \<open>The receiver\<close>

definition ETH_BUFFER_LENGTH :: nat where
  "ETH_BUFFER_LENGTH = 1518"

record GooseReceiver =
  gr_running :: bool
  gr_stop :: bool
  gr_interfaceId :: "cstring option"
  gr_buffer :: bytes
  gr_ethSocket :: bool
  gr_subscriberList :: "GooseSubscriber list"

definition GooseReceiver_createEx :: "bytes \<Rightarrow> GooseReceiver" where
  "GooseReceiver_createEx buffer = \<lparr>gr_running = False, gr_stop = False, gr_interfaceId = None,
     gr_buffer = buffer, gr_ethSocket = False, gr_subscriberList = []\<rparr>"

definition GooseReceiver_create :: GooseReceiver where
  "GooseReceiver_create = (GooseReceiver_createEx [])\<lparr>gr_buffer := replicate ETH_BUFFER_LENGTH 0\<rparr>"

definition GooseReceiver_addSubscriber :: "GooseReceiver \<Rightarrow> GooseSubscriber \<Rightarrow> GooseReceiver" where
  "GooseReceiver_addSubscriber self subscriber =
     self\<lparr>gr_subscriberList := gr_subscriberList self @ [subscriber]\<rparr>"

fun remove_first :: "nat \<Rightarrow> GooseSubscriber list \<Rightarrow> GooseSubscriber list" where
  "remove_first addr [] = []"
| "remove_first addr (s # rest) = (if gs_addr s = addr then rest else s # remove_first addr rest)"

definition GooseReceiver_removeSubscriber :: "GooseReceiver \<Rightarrow> nat \<Rightarrow> GooseReceiver" where
  "GooseReceiver_removeSubscriber self addr =
     self\<lparr>gr_subscriberList := remove_first addr (gr_subscriberList self)\<rparr>"

definition GooseReceiver_setInterfaceId :: "GooseReceiver \<Rightarrow> cstring \<Rightarrow> GooseReceiver" where
  "GooseReceiver_setInterfaceId self interfaceId = self\<lparr>gr_interfaceId := Some interfaceId\<rparr>"

text \<open>The calls that configure the socket, in order.\<close>

datatype eth_call = SetProtocolFilter u16 | SetModeMulticast | SetModeAllMulticast | AddMulticastAddress bytes | DestroySocket

definition multicast_calls :: "GooseSubscriber list \<Rightarrow> eth_call list" where
  "multicast_calls subs =
     map (\<lambda>s. if gs_dstMacSet s then AddMulticastAddress (gs_dstMac s) else SetModeAllMulticast) subs"

definition GooseReceiver_startThreadless :: "GooseReceiver \<Rightarrow> bool \<Rightarrow> bool \<times> eth_call list \<times> GooseReceiver" where
  "GooseReceiver_startThreadless self socketOk =
     (if socketOk
      then (True, [SetProtocolFilter 0x88b8, SetModeMulticast] @ multicast_calls (gr_subscriberList self),
            self\<lparr>gr_ethSocket := True, gr_running := True\<rparr>)
      else (False, [], self\<lparr>gr_ethSocket := False, gr_running := False\<rparr>))"

text \<open>The pointer to the socket is not cleared.\<close>

definition GooseReceiver_stopThreadless :: "GooseReceiver \<Rightarrow> eth_call list \<times> GooseReceiver" where
  "GooseReceiver_stopThreadless self = (if gr_ethSocket self then [DestroySocket] else [], self\<lparr>gr_running := False\<rparr>)"

text \<open>\<open>packet\<close> is what \<open>Ethernet_receivePacket\<close> stored, at most the size of the buffer.\<close>

definition GooseReceiver_tick :: "GooseReceiver \<Rightarrow> bytes \<Rightarrow> u64 \<Rightarrow> (bool \<times> GooseReceiver \<times> nat option) option" where
  "GooseReceiver_tick self packet now =
     (if packet \<noteq> [] then do {
        let self = self\<lparr>gr_buffer := overlay (gr_buffer self) 0 packet\<rparr>;
        (subs, called) \<leftarrow> parseGooseMessage (gr_subscriberList self) (gr_buffer self) (length packet) now;
        Some (True, self\<lparr>gr_subscriberList := subs\<rparr>, called) }
      else Some (False, self, None))"

definition GooseReceiver_handleMessage :: "GooseReceiver \<Rightarrow> bytes \<Rightarrow> nat \<Rightarrow> u64 \<Rightarrow> (GooseReceiver \<times> nat option) option" where
  "GooseReceiver_handleMessage self buffer n now = do {
     (subs, called) \<leftarrow> parseGooseMessage (gr_subscriberList self) buffer n now;
     Some (self\<lparr>gr_subscriberList := subs\<rparr>, called) }"

subsection \<open>Safety of the data set parsers\<close>

text \<open>Data sets in a subscriber: well formed, except that components may be missing.\<close>

fun mms_valid :: "MmsValue \<Rightarrow> bool"
  and components_valid :: "MmsValue option list \<Rightarrow> bool" where
  "mms_valid (MMS_ARRAY xs) = components_valid xs"
| "mms_valid (MMS_STRUCTURE xs) = components_valid xs"
| "mms_valid v = mms_wf v"
| "components_valid [] = True"
| "components_valid (x # xs) = ((case x of None \<Rightarrow> True | Some v \<Rightarrow> mms_valid v) \<and> components_valid xs)"

definition is_list :: "MmsValue \<Rightarrow> bool" where
  "is_list v \<longleftrightarrow> \<not> is_scalar v"

lemma components_valid_iff: "components_valid xs \<longleftrightarrow> (\<forall>v. Some v \<in> set xs \<longrightarrow> mms_valid v)"
  by (induction xs) (auto split: option.splits)

lemma components_valid_update:
  "components_valid xs \<Longrightarrow> mms_valid v \<Longrightarrow> components_valid (xs[i := Some v])"
  by (auto simp: components_valid_iff dest!: subsetD [OF set_update_subset_insert])

lemma mms_valid_scalar: "is_scalar v \<Longrightarrow> mms_valid v = mms_wf v"
  by (cases v) (auto simp: is_scalar_def)

lemma le_bytes_length [simp]: "length (le_bytes n x) = n"
  by (simp add: le_bytes_def)

lemma bitStringByteSize_eq: "bitStringByteSize n = (n + 7) div 8"
  unfolding bitStringByteSize_def by presburger

lemma bit_size_exact:
  assumes "u \<le> 7" and "8 * (int l - 1) - int u = int n"
  shows "0 < l \<and> l - 1 = bitStringByteSize n"
proof -
  have l: "0 < l" using assms by (cases l) auto
  then obtain j where j: "l = Suc j" by (cases l) auto
  then have "n + u = 8 * j" using assms(2) by simp
  then have "(n + 7) div 8 = j" using assms(1) by (intro div_nat_eqI) auto
  then have "bitStringByteSize n = j" by (simp add: bitStringByteSize_eq)
  with j show ?thesis by simp
qed

lemma parse_bits_safe:
  assumes "p + l + 1 \<le> length buf" and "length bits = bitStringByteSize n"
  shows "\<exists>e w. parse_scalar 0x84 buf p l (MMS_BIT_STRING n bits) = Some (e, w) \<and> mms_wf w"
proof -
  obtain pad where pad: "rd buf p = Some pad" using assms by (simp add: rd_def)
  show ?thesis
  proof (cases "7 < pad \<or> 8 * (int l - 1) - int (unat pad) \<noteq> int n")
    case False
    then have l: "0 < l \<and> l - 1 = bitStringByteSize n"
      by (intro bit_size_exact [of "unat pad"]) (auto simp: word_less_nat_alt)
    then have "p + 1 + (l - 1) \<le> length buf" using assms(1) by linarith
    from rdn_ok [OF this] obtain xs where "rdn buf (p + 1) (l - 1) = Some xs" "length xs = bitStringByteSize n"
      using l by auto
    then show ?thesis using False pad assms l by (auto simp: parse_scalar_def puts_eq)
  qed (use assms pad in \<open>auto simp: parse_scalar_def\<close>)
qed

lemma parse_integer_safe:
  assumes "p + l \<le> length buf" and "asn1_wf a"
  shows "\<exists>e w. parse_scalar 0x85 buf p l (MMS_INTEGER a) = Some (e, w) \<and> mms_wf w"
    and "\<exists>e w. parse_scalar 0x86 buf p l (MMS_UNSIGNED a) = Some (e, w) \<and> mms_wf w"
proof -
  obtain xs where xs: "rdn buf p l = Some xs" "length xs = l" using rdn_ok [OF assms(1)] by auto
  have "l \<le> asn1_maxSize a \<Longrightarrow> \<exists>b. asn1_store a xs = Some b \<and> asn1_wf b"
    using asn1_store_ok [OF assms(2), of xs] xs by auto
  then show "\<exists>e w. parse_scalar 0x85 buf p l (MMS_INTEGER a) = Some (e, w) \<and> mms_wf w"
    and "\<exists>e w. parse_scalar 0x86 buf p l (MMS_UNSIGNED a) = Some (e, w) \<and> mms_wf w"
    using xs assms(2) by (auto simp: parse_scalar_def)
qed

lemma new_string_safe:
  assumes "p + l \<le> length buf" and "l < 32768"
  shows "\<exists>w. createNewStringFromBufferElement (drop p buf) l = Some w \<and> mms_wf w"
  using assms rdn_ok [OF assms(1)]
  by (auto simp: createNewStringFromBufferElement_def string_wf_def to_int16_def)

lemma parse_string_safe:
  assumes "p + l \<le> length buf" and "l < 32768" and "string_wf b n"
  shows "\<exists>e w. parse_scalar 0x8a buf p l (MMS_VISIBLE_STRING b n) = Some (e, w) \<and> mms_wf w"
proof (cases "\<exists>x. b = Some x \<and> int l \<le> n")
  case True
  then obtain x where x: "b = Some x" "int l \<le> n" by blast
  obtain xs where xs: "rdn buf p l = Some xs" "length xs = l" using rdn_ok [OF assms(1)] by auto
  have "l < length x" using x assms(3) by (auto simp: string_wf_def)
  then show ?thesis using x xs assms
    by (auto simp: parse_scalar_def puts_eq put_def string_wf_def set_update_memI)
next
  case False
  then show ?thesis using new_string_safe [OF assms(1,2)]
    by (auto simp: parse_scalar_def split: option.splits)
qed

lemma parse_time_safe:
  assumes "p + l \<le> length buf"
  shows "length t = 6 \<and> (n = 4 \<or> n = 6) \<Longrightarrow> \<exists>e w. parse_scalar 0x8c buf p l (MMS_BINARY_TIME n t) = Some (e, w) \<and> mms_wf w"
    and "length t = 8 \<Longrightarrow> \<exists>e w. parse_scalar 0x91 buf p l (MMS_UTC_TIME t) = Some (e, w) \<and> mms_wf w"
    and "l < 65536 \<Longrightarrow> length t = nat \<bar>maxSize\<bar> \<Longrightarrow> \<exists>e w. parse_scalar 0x89 buf p l (MMS_OCTET_STRING k maxSize t) = Some (e, w) \<and> mms_wf w"
  using rdn_ok [OF assms] assms
  by (auto simp: parse_scalar_def puts_eq to_uint16_def)

lemma parse_float_safe:
  assumes "p + l \<le> length buf" and "mms_wf (MMS_FLOAT e f mem)"
  shows "\<exists>pe w. parse_scalar 0x87 buf p l (MMS_FLOAT e f mem) = Some (pe, w) \<and> mms_wf w"
  using assms
  by (auto simp: parse_scalar_def BerDecoder_decodeDouble_def BerDecoder_decodeFloat_def rdn_def
      overlay_def double_to_float_def float_to_double_def)

lemma parse_scalar_mismatch:
  assumes "mms_valid v" and "tag \<noteq> mms_tag v \<or> \<not> is_scalar v"
  shows "\<exists>e. parse_scalar tag buf p l v = Some (e, v)"
  using assms by (cases v) (auto simp: parse_scalar_def is_scalar_def)


lemma mms_wf_valid:
  shows "mms_wf v \<Longrightarrow> mms_valid v" and "mms_wf_components xs \<Longrightarrow> components_valid xs"
  by (induction v and xs rule: value_components_induct) (auto simp: mms_valid_scalar)

lemma parse_scalar_match:
  assumes "p + l + 1 \<le> length buf" and "l < 32768" and "mms_wf v" and "is_scalar v"
  shows "\<exists>e w. parse_scalar (mms_tag v) buf p l v = Some (e, w) \<and> mms_wf w"
proof (cases v)
  case (MMS_BOOLEAN b)
  with assms show ?thesis by (auto simp: parse_scalar_def BerDecoder_decodeBoolean_def rd_def)
next
  case (MMS_DATA_ACCESS_ERROR e)
  then show ?thesis by (simp add: parse_scalar_def)
next
  case (MMS_STRING b n)
  with assms show ?thesis by (simp add: parse_scalar_def)
qed (use assms assms(1) [THEN add_leD1] parse_bits_safe parse_integer_safe parse_string_safe parse_time_safe
      parse_float_safe in \<open>auto simp: is_scalar_def\<close>)

lemma parse_scalar_safe:
  assumes "p + l + 1 \<le> length buf" and "l < 32768" and "mms_valid v"
  shows "\<exists>e w. parse_scalar tag buf p l v = Some (e, w) \<and> mms_valid w"
proof (cases "tag = mms_tag v \<and> is_scalar v")
  case True
  with assms parse_scalar_match [of p l buf v] show ?thesis by (auto simp: mms_valid_scalar intro: mms_wf_valid)
next
  case False
  with assms parse_scalar_mismatch [of v tag buf p l] show ?thesis by auto
qed

lemma parse_all_safe:
  shows "n + 1 \<le> length buf \<Longrightarrow> n < 32768 \<Longrightarrow> mms_valid v \<Longrightarrow> is_list v \<Longrightarrow>
      \<exists>e w. parseAllData buf n v = Some (e, w) \<and> mms_valid w \<and> is_list w"
    and "n + 1 \<le> length buf \<Longrightarrow> n < 32768 \<Longrightarrow> components_valid xs \<Longrightarrow>
      \<exists>e i ys. parse_loop buf n p k xs = Some (e, i, ys) \<and> components_valid ys"
proof (induction buf n v and buf n p k xs rule: parseAllData_parse_loop.induct)
  case (1 buf n v)
  then show ?case
    by (cases v) (fastforce simp: parseAllData.simps is_list_def is_scalar_def)+
next
  case (2 buf n p k xs)
  show ?case
  proof (cases "p < n \<and> k < length xs \<and> xs ! k \<noteq> None")
    case False
    then show ?thesis using "2.prems" by (auto simp: parse_loop.simps [of buf n p] rd_def)
  next
    case True
    then obtain v where v: "xs ! k = Some v" "mms_valid v"
      using "2.prems"(3) by (auto simp: components_valid_iff) (metis nth_mem)
    have t: "rd buf p = Some (buf ! p)" using True "2.prems" by (simp add: rd_def)
    obtain r where r: "BerDecoder_decodeLength buf (p + 1) n = Some r"
      using ber.dec_total [of n buf] "2.prems" by fastforce
    show ?thesis
    proof (cases r)
      case LenErr
      with True v t r "2.prems" show ?thesis by (simp add: parse_loop.simps [of buf n p])
    next
      case (LenOk q l)
      with ber.dec_bounds r have q: "p + 1 < q" "q + l \<le> n" by fastforce+
      let ?elem = "if buf ! p = 0xa1 \<or> buf ! p = 0xa2 then
           (if MmsValue_getType v = (if buf ! p = 0xa1 then T_ARRAY else T_STRUCTURE) then do {
              (e, value) \<leftarrow> parseAllData (drop q buf) l v;
              Some (if e \<noteq> GOOSE_PARSE_ERROR_NO_ERROR then GOOSE_PARSE_ERROR_SUBLEVEL
                    else GOOSE_PARSE_ERROR_NO_ERROR, value) }
            else Some (GOOSE_PARSE_ERROR_TYPE_MISMATCH, v))
           else parse_scalar (buf ! p) buf q l v"
      have "\<exists>e w. ?elem = Some (e, w) \<and> mms_valid w"
      proof (cases "(buf ! p = 0xa1 \<or> buf ! p = 0xa2) \<and> MmsValue_getType v = (if buf ! p = 0xa1 then T_ARRAY else T_STRUCTURE)")
        case c: True
        then have "is_list v" by (cases v) (auto simp: is_list_def is_scalar_def split: if_splits)
        with "2.IH"(1) [OF _ t _ v(1) r LenOk] True c q "2.prems" v show ?thesis by fastforce
      next
        case False
        with parse_scalar_safe [of q l buf v "buf ! p"] q "2.prems" v show ?thesis by auto
      qed
      then obtain e w where w: "?elem = Some (e, w)" "mms_valid w" by blast
      show ?thesis
      proof (cases "e = GOOSE_PARSE_ERROR_NO_ERROR")
        case c: True
        then show ?thesis
          using "2.IH"(2) [OF _ t _ v(1) r LenOk w(1) refl] True w q "2.prems" v t r LenOk components_valid_update 
          by (auto simp: parse_loop.simps [of buf n p k])
      next
        case False
        then show ?thesis using True w q "2.prems" v t r LenOk components_valid_update by (auto simp: parse_loop.simps [of buf n p k])
      qed
    qed
  qed
qed

lemma new_bits_safe:
  assumes "p + l \<le> length buf"
  shows "\<exists>r. new_scalar 0x84 buf p l = Some r \<and> (\<forall>v. r = NewValue (Some v) \<longrightarrow> mms_wf v)"
proof (cases "1 < l")
  case True
  then obtain pad where pad: "rd buf p = Some pad" using assms by (simp add: rd_def)
  show ?thesis
  proof (cases "7 < pad")
    case False
    then have "unat pad \<le> 7" by (simp add: word_less_nat_alt)
    then have room: "l - 1 \<le> bitStringByteSize (nat \<bar>(int l - 1) * 8 - int (unat pad)\<bar>)"
      using bit_string_room [of "unat pad" l] True by (simp add: mult.commute)
    have "p + 1 + (l - 1) \<le> length buf" using assms True by linarith
    from rdn_ok [OF this] obtain xs where xs: "rdn buf (p + 1) (l - 1) = Some xs" "length xs = l - 1" by blast
    show ?thesis using True False pad xs room
      by (auto simp: new_scalar_def MmsValue_newBitString_def Let_def puts_eq)
  qed (simp add: new_scalar_def pad)
qed (simp add: new_scalar_def)

lemma new_integer_safe:
  assumes "p + l \<le> length buf"
  shows "\<exists>r. new_scalar 0x85 buf p l = Some r \<and> (\<forall>v. r = NewValue (Some v) \<longrightarrow> mms_wf v)"
    and "\<exists>r. new_scalar 0x86 buf p l = Some r \<and> (\<forall>v. r = NewValue (Some v) \<longrightarrow> mms_wf v)"
proof -
  obtain xs where xs: "rdn buf p l = Some xs" "length xs = l" using rdn_ok [OF assms] by auto
  define a where "a = (if l * 8 \<le> 32 then BerInteger_createInt32 else BerInteger_createInt64)"
  have new: "MmsValue_newInteger (l * 8) = MMS_INTEGER a" "MmsValue_newUnsigned (l * 8) = MMS_UNSIGNED a"
    by (simp_all only: MmsValue_newInteger_def MmsValue_newUnsigned_def a_def)
  have "asn1_wf a" by (simp add: a_def)
  moreover have "l \<le> 8 \<Longrightarrow> l \<le> asn1_maxSize a" by (simp add: a_def)
  ultimately have "\<exists>b. asn1_store a xs = Some b \<and> asn1_wf b" if "\<not> 8 < l"
    using asn1_store_ok [of a xs] xs that by auto
  then consider "8 < l" | b where "\<not> 8 < l" "asn1_store a xs = Some b" "asn1_wf b" by blast
  then have "(\<exists>r. new_scalar 0x85 buf p l = Some r \<and> (\<forall>v. r = NewValue (Some v) \<longrightarrow> mms_wf v))
    \<and> (\<exists>r. new_scalar 0x86 buf p l = Some r \<and> (\<forall>v. r = NewValue (Some v) \<longrightarrow> mms_wf v))"
    by cases (simp_all add: new_scalar_def new xs)
  then show "\<exists>r. new_scalar 0x85 buf p l = Some r \<and> (\<forall>v. r = NewValue (Some v) \<longrightarrow> mms_wf v)"
    and "\<exists>r. new_scalar 0x86 buf p l = Some r \<and> (\<forall>v. r = NewValue (Some v) \<longrightarrow> mms_wf v)" by blast+
qed

lemma new_scalar_safe:
  assumes "p + l \<le> length buf" and "l < 32768"
  shows "\<exists>r. new_scalar tag buf p l = Some r \<and> (\<forall>v. r = NewValue (Some v) \<longrightarrow> mms_wf v)"
proof -
  obtain xs where xs: "rdn buf p l = Some xs" "length xs = l" using rdn_ok [OF assms(1)] by auto
  have ys: "rdn (drop p buf) 0 l = Some xs" using xs assms by simp
  consider "tag = 0x84" | "tag = 0x85 \<or> tag = 0x86" | "tag = 0x87 \<or> tag = 0x83"
    | "tag = 0x8a \<or> tag = 0x91" | "tag \<notin> {0x84, 0x85, 0x86, 0x87, 0x83, 0x8a, 0x91}" by blast
  then show ?thesis
  proof cases
    case 3
    with assms(1) show ?thesis
      by (auto simp: new_scalar_def BerDecoder_decodeDouble_def BerDecoder_decodeFloat_def BerDecoder_decodeBoolean_def
          rdn_def rd_def MmsValue_newBoolean_def MmsValue_newDouble_def MmsValue_newFloat_def)
  next
    case 4
    with xs ys assms(2) show ?thesis
      by (auto simp: new_scalar_def MmsValue_newVisibleStringFromByteArray_def StringUtils_createStringFromBuffer_def
          MmsValue_newUtcTime_def string_wf_def to_int16_def)
  next
    case 5
    with xs assms(2) show ?thesis
      by (auto simp: new_scalar_def puts_eq MmsValue_newOctetString_def MmsValue_newBinaryTime_def to_uint16_def)
  qed (use new_bits_safe [OF assms(1)] new_integer_safe [OF assms(1)] in auto)
qed

lemma count_loop_total:
  assumes "n \<le> length buf" and "n < 2 ^ 22"
  shows "\<exists>r. count_loop buf n p i = Some r"
  using assms
proof (induction buf n p i rule: count_loop.induct)
  case (1 buf n p i)
  show ?case
  proof (cases "p < n")
    case True
    obtain r where r: "BerDecoder_decodeLength buf (p + 1) n = Some r"
      using ber.dec_total [OF "1.prems"] by blast
    have t: "rd buf p = Some (buf ! p)" using True "1.prems" by (simp add: rd_def)
    show ?thesis using True r t "1.IH" [OF True t r] "1.prems"
      by (cases r) (auto simp: count_loop.simps [of buf n p])
  qed (simp add: count_loop.simps)
qed

lemma setElement_valid:
  assumes "is_list d" and "mms_valid d" and "mms_valid v"
  shows "is_list (MmsValue_setElement d i (Some v)) \<and> mms_valid (MmsValue_setElement d i (Some v))"
  using assms by (cases d) (auto simp: is_list_def is_scalar_def components_valid_update)

lemma empty_valid:
  "mms_valid (MmsValue_createEmptyArray n)" "is_list (MmsValue_createEmptyArray n)"
  "mms_valid (MmsValue_createEmptyStructure n)" "is_list (MmsValue_createEmptyStructure n)"
  by (auto simp: MmsValue_createEmptyArray_def MmsValue_createEmptyStructure_def is_list_def is_scalar_def components_valid_iff)

lemma unknown_safe:
  shows "n \<le> length buf \<Longrightarrow> n < 32768 \<Longrightarrow> \<exists>g v. parseAllDataUnknownValue f buf n st = Some (g, v)
      \<and> (\<forall>w. v = Some w \<longrightarrow> mms_valid w \<and> is_list w)"
    and "n \<le> length buf \<Longrightarrow> n < 32768 \<Longrightarrow> mms_valid d \<Longrightarrow> is_list d \<Longrightarrow>
      \<exists>g v. fill_loop f buf n p i d = Some (g, v) \<and> (\<forall>w. v = Some w \<longrightarrow> mms_valid w \<and> is_list w)"
proof (induction f buf n st and f buf n p i d rule: parseAllDataUnknownValue_fill_loop.induct)
  case (1 f buf n st)
  then obtain c where c: "count_loop buf n 0 0 = Some c" using count_loop_total [of n buf 0 0] by auto
  show ?case using 1 c empty_valid
    by (cases c) (auto simp: parseAllDataUnknownValue.simps [of f buf n st])
next
  case (2 f buf n p i d)
  show ?case
  proof (cases "p < n")
    case True
    obtain r where r: "BerDecoder_decodeLength buf (p + 1) n = Some r"
      using ber.dec_total [of n buf] "2.prems" by fastforce
    have t: "rd buf p = Some (buf ! p)" using True "2.prems" by (simp add: rd_def)
    show ?thesis
    proof (cases r)
      case LenErr
      with True t r show ?thesis by (simp add: fill_loop.simps [of f buf n p])
    next
      case (LenOk q l)
      with ber.dec_bounds r have q: "p + 1 < q" "q + l \<le> n" by fastforce+
      let ?elem = "if buf ! p = 0xa1 \<or> buf ! p = 0xa2 then do {
            (f, v) \<leftarrow> parseAllDataUnknownValue f (drop q buf) l (buf ! p = 0xa2);
            Some (f, case v of None \<Rightarrow> NewErr | Some v \<Rightarrow> NewValue (Some v)) }
          else map_option (Pair f) (new_scalar (buf ! p) buf q l)"
      have "\<exists>g v. ?elem = Some (g, v) \<and> (\<forall>w. v = NewValue (Some w) \<longrightarrow> mms_valid w)"
      proof (cases "buf ! p = 0xa1 \<or> buf ! p = 0xa2")
        case c: True
        with "2.IH"(1) [OF True t r LenOk c] q "2.prems" obtain g v where
          "parseAllDataUnknownValue f (drop q buf) l (buf ! p = 0xa2) = Some (g, v)" "\<forall>w. v = Some w \<longrightarrow> mms_valid w" by fastforce
        with c show ?thesis by (cases v) auto
      next
        case False
        with new_scalar_safe [of q l buf "buf ! p"] q "2.prems" show ?thesis by (auto intro: mms_wf_valid)
      qed
      then obtain g v where w: "?elem = Some (g, v)" "\<And>w. v = NewValue (Some w) \<Longrightarrow> mms_valid w" by blast
      have step: "fill_loop f buf n p i d = (case v of NewErr \<Rightarrow> Some (g, None)
          | NewValue None \<Rightarrow> fill_loop g buf n (q + l) i d
          | NewValue (Some v) \<Rightarrow> fill_loop g buf n (q + l) (i + 1) (MmsValue_setElement d i (Some v)))"
        using True t r LenOk w(1) by (simp add: fill_loop.simps [of f buf n p] split: new_value.splits option.splits)
      show ?thesis
      proof (cases v)
        case NewErr
        with step show ?thesis by simp
      next
        case (NewValue x)
        then show ?thesis
        proof (cases x)
          case None
          with step NewValue "2.IH"(2) [OF True t r LenOk w(1) refl] "2.prems" show ?thesis by simp
        next
          case (Some y)
          with step NewValue "2.IH"(3) [OF True t r LenOk w(1) refl] "2.prems" w(2) setElement_valid show ?thesis by simp
        qed
      qed
    qed
  qed (use "2.prems" in \<open>auto simp: fill_loop.simps\<close>)
qed

subsection \<open>Safety of the message parser\<close>

definition sub_ok :: "GooseSubscriber \<Rightarrow> bool" where
  "sub_ok s \<longleftrightarrow> gs_wf s \<and> (\<forall>v. gs_dataSetValues s = Some v \<longrightarrow> mms_valid v \<and> is_list v)"

definition locals_ok :: "payload_locals \<Rightarrow> nat \<Rightarrow> nat \<Rightarrow> bool" where
  "locals_ok l apduLength n \<longleftrightarrow> (\<forall>i. pl_matchingSubscriber l = Some i \<longrightarrow> i < n)
     \<and> (\<forall>p. pl_timestampBufPos l = Some p \<longrightarrow> p \<le> apduLength)
     \<and> pl_dataSetBufferAddress l + pl_dataSetBufferLength l \<le> apduLength"

lemma store_name_safe:
  assumes "p + l \<le> length buf" and "length name = 130"
  shows "\<exists>x. store_name name buf p l = Some x \<and> length x = 130"
  using assms rdn_ok [OF assms(1)] by (auto simp: store_name_def puts_eq put_def)

lemma match_gocbRef_safe:
  assumes "p + l \<le> length buf" and "list_all sub_ok subs"
  shows "\<exists>m ys. match_gocbRef buf p l subs i = Some (m, ys) \<and> list_all sub_ok ys \<and> length ys = length subs
    \<and> (\<forall>j. m = Some j \<longrightarrow> i \<le> j \<and> j < i + length subs)"
  using assms(2)
proof (induction subs arbitrary: i)
  case (Cons s rest)
  then have s: "sub_ok s" "length (gs_goCBRef s) = 130" "gs_goCBRefLen s \<le> 130" by (auto simp: sub_ok_def gs_wf_def)
  obtain xs where xs: "rdn buf p l = Some xs" using rdn_ok [OF assms(1)] by auto
  show ?case
  proof (cases "gs_isObserver s")
    case True
    with store_name_safe [OF assms(1) s(2)] s Cons.prems show ?thesis by (auto simp: sub_ok_def gs_wf_def)
  next
    case False
    obtain m ys where ys: "match_gocbRef buf p l rest (i + 1) = Some (m, ys)" "list_all sub_ok ys"
      "length ys = length rest" "\<forall>j. m = Some j \<longrightarrow> i + 1 \<le> j \<and> j < i + 1 + length rest"
      using Cons.IH [of "i + 1"] Cons.prems by auto
    have a: "gs_goCBRefLen s = l \<Longrightarrow> rdn (gs_goCBRef s) 0 l = Some (take l (gs_goCBRef s))"
      using s by (simp add: rdn_def)
    show ?thesis using False ys a xs s Cons.prems by auto
  qed
qed simp

lemma upd_matching_safe:
  assumes "locals_ok l n (length subs)" and "list_all sub_ok subs"
    and "\<And>s. sub_ok s \<Longrightarrow> \<exists>t. f s = Some t \<and> sub_ok t"
  shows "\<exists>ys. upd_matching l subs f = Some ys \<and> list_all sub_ok ys \<and> length ys = length subs"
proof (cases "pl_matchingSubscriber l")
  case (Some i)
  then have i: "i < length subs" using assms(1) by (simp add: locals_ok_def)
  then obtain t where "f (subs ! i) = Some t" "sub_ok t" using assms(2,3) by (auto simp: list_all_length)
  with Some i assms(2) show ?thesis by (auto simp: upd_matching_def list_all_length nth_list_update)
qed (use assms in \<open>simp add: upd_matching_def\<close>)

lemma payload_field_safe:
  assumes "p + l + 1 \<le> length buf" and "p + l \<le> n" and "locals_ok st n (length subs)" and "list_all sub_ok subs"
  shows "\<exists>r ys. payload_field tag buf p l (st, subs) = Some (r, ys) \<and> list_all sub_ok ys
    \<and> (\<forall>st' zs. r = Some (st', zs) \<longrightarrow> zs = ys \<and> locals_ok st' n (length ys))"
proof -
  have pl: "p + l \<le> length buf" using assms(1) by simp
  obtain v where v: "BerDecoder_decodeUint32 buf l p = Some v" using decodeUint32_total [OF pl] by blast
  obtain b where b: "BerDecoder_decodeBoolean buf p = Some b"
    using assms(1) by (auto simp: BerDecoder_decodeBoolean_def rd_def)
  have name: "\<exists>t. (do { x \<leftarrow> store_name (gs_datSet s) buf p l; Some (s\<lparr>gs_datSet := x\<rparr>) }) = Some t \<and> sub_ok t"
    "\<exists>t. (do { x \<leftarrow> store_name (gs_goId s) buf p l; Some (s\<lparr>gs_goId := x\<rparr>) }) = Some t \<and> sub_ok t" if "sub_ok s" for s
    using store_name_safe [OF pl, of "gs_datSet s"] store_name_safe [OF pl, of "gs_goId s"] that
    by (auto simp: sub_ok_def gs_wf_def)
  consider "tag = 0x80" | "tag = 0x82" | "tag = 0x83" | "tag \<notin> {0x80, 0x82, 0x83}" by blast
  then show ?thesis
  proof cases
    case 1
    with match_gocbRef_safe [OF pl assms(4), of 0] assms(3) show ?thesis
      by (auto simp: payload_field_def locals_ok_def Let_def split: option.splits)
  next
    case 2
    have "\<exists>ys. upd_matching st subs (\<lambda>s. do { x \<leftarrow> store_name (gs_datSet s) buf p l; Some (s\<lparr>gs_datSet := x\<rparr>) }) = Some ys
        \<and> list_all sub_ok ys \<and> length ys = length subs"
      by (rule upd_matching_safe [OF assms(3,4)]) (rule name(1))
    with 2 assms(3) show ?thesis by (auto simp: payload_field_def)
  next
    case 3
    have "\<exists>ys. upd_matching st subs (\<lambda>s. do { x \<leftarrow> store_name (gs_goId s) buf p l; Some (s\<lparr>gs_goId := x\<rparr>) }) = Some ys
        \<and> list_all sub_ok ys \<and> length ys = length subs"
      by (rule upd_matching_safe [OF assms(3,4)]) (rule name(2))
    with 3 assms(3) show ?thesis by (auto simp: payload_field_def)
  next
    case 4
    with v b assms show ?thesis by (simp add: payload_field_def locals_ok_def)
  qed
qed

lemma payload_loop_safe:
  assumes "n + 1 \<le> length buf" and "n < 2 ^ 22" and "e \<le> n" and "locals_ok (fst st) n (length (snd st))"
    and "list_all sub_ok (snd st)"
  shows "\<exists>r ys. payload_loop buf n e p st = Some (r, ys) \<and> list_all sub_ok ys
    \<and> (\<forall>l. r = Some l \<longrightarrow> locals_ok l n (length ys))"
  using assms
proof (induction buf n e p st rule: payload_loop.induct)
  case (1 buf n e p st)
  obtain l subs where st: "st = (l, subs)" by (cases st)
  show ?case
  proof (cases "p < e")
    case True
    have t: "rd buf p = Some (buf ! p)" using True "1.prems" by (simp add: rd_def)
    obtain r where r: "BerDecoder_decodeLength buf (p + 1) n = Some r"
      using ber.dec_total [of n buf] "1.prems" by fastforce
    show ?thesis
    proof (cases r)
      case LenErr
      with True t r "1.prems" show ?thesis by (simp add: payload_loop.simps [of buf n e p])
    next
      case (LenOk q k)
      with ber.dec_bounds r have q: "p + 1 < q" "q + k \<le> n" by fastforce+
      obtain s ys where s: "payload_field (buf ! p) buf q k st = Some (s, ys)" "list_all sub_ok ys"
        "\<forall>st' zs. s = Some (st', zs) \<longrightarrow> zs = ys \<and> locals_ok st' n (length ys)"
        using payload_field_safe [of q k buf n l subs "buf ! p"] q "1.prems" st by auto
      show ?thesis
      proof (cases s)
        case None
        with True t r LenOk s show ?thesis by (simp add: payload_loop.simps [of buf n e p])
      next
        case (Some st')
        then have "locals_ok (fst st') n (length (snd st'))" "list_all sub_ok (snd st')"
          using s by (cases st'; auto)+
        with "1.IH" [OF True t r LenOk s(1) refl Some] "1.prems" True t r LenOk s Some show ?thesis
          by (simp add: payload_loop.simps [of buf n e p])
      qed
    qed
  qed (use "1.prems" in \<open>simp add: payload_loop.simps [of buf n e p]\<close>)
qed


lemma update_header_safe:
  assumes "locals_ok l n k" and "n + 8 \<le> length buf" and "sub_ok s"
  shows "\<exists>t. update_header l buf s = Some t \<and> sub_ok t \<and> gs_listener t = gs_listener s"
proof -
  obtain t where t: "gs_timestamp s = MMS_UTC_TIME t" "length t = 8" using assms(3) by (auto simp: sub_ok_def gs_wf_def)
  show ?thesis
  proof (cases "pl_timestampBufPos l")
    case None
    with assms(3) t show ?thesis by (auto simp: update_header_def Let_def sub_ok_def gs_wf_def)
  next
    case (Some p)
    with assms(1,2) have "rdn (drop p buf) 0 8 = Some (take 8 (drop p buf))" "length (take 8 (drop p buf)) = 8"
      by (auto simp: locals_ok_def rdn_def)
    with Some assms(3) t show ?thesis by (auto simp: update_header_def Let_def sub_ok_def gs_wf_def)
  qed
qed

lemma parse_dataset_bounded:
  assumes "pl_dataSetBufferLength l + 1 \<le> length (drop (pl_dataSetBufferAddress l) buf)" and "pl_dataSetBufferLength l < 32768"
    and "sub_ok s"
  shows "\<exists>b t. parse_dataset l buf s = Some (b, t) \<and> sub_ok t \<and> gs_listener t = gs_listener s"
proof (cases "gs_dataSetValues s")
  let ?a = "pl_dataSetBufferAddress l" and ?n = "pl_dataSetBufferLength l"
  case None
  obtain g v where "parseAllDataUnknownValue (gs_dataSetValuesSelfAllocated s) (drop ?a buf) ?n False = Some (g, v)"
    "\<forall>w. v = Some w \<longrightarrow> mms_valid w \<and> is_list w"
    using unknown_safe(1) [of ?n "drop ?a buf" "gs_dataSetValuesSelfAllocated s" False] assms(1,2) by auto
  with None assms(3) show ?thesis by (auto simp: parse_dataset_def sub_ok_def gs_wf_def)
next
  case (Some v)
  with parse_all_safe(1) [OF assms(1,2), of v] assms(3) show ?thesis
    by (auto simp: parse_dataset_def sub_ok_def gs_wf_def)
qed

lemma parse_dataset_safe:
  assumes "locals_ok l n k" and "n + 8 \<le> length buf" and "n < 32768" and "sub_ok s"
  shows "\<exists>b t. parse_dataset l buf s = Some (b, t) \<and> sub_ok t \<and> gs_listener t = gs_listener s"
  by (rule parse_dataset_bounded) (use assms in \<open>auto simp: locals_ok_def\<close>)

lemma update_subscriber_safe:
  assumes "locals_ok l n k" and "n + 8 \<le> length buf" and "n < 32768" and "sub_ok s"
  shows "\<exists>t. update_subscriber l buf now s = Some t \<and> sub_ok t \<and> gs_listener t = gs_listener s"
proof -
  obtain t where t: "update_header l buf s = Some t" "sub_ok t" "gs_listener t = gs_listener s"
    using update_header_safe [OF assms(1,2,4)] by blast
  with parse_dataset_safe [OF assms(1-3), of t] show ?thesis
    by (auto simp: update_subscriber_def Let_def sub_ok_def gs_wf_def)
qed

lemma parseGoosePayload_safe:
  assumes "n + 8 \<le> length buf" and "n < 32768" and "list_all sub_ok subs"
  shows "\<exists>rc ys c. parseGoosePayload subs buf n now = Some (rc, ys, c) \<and> list_all sub_ok ys"
proof -
  have t: "rd buf 0 = Some (buf ! 0)" using assms(1) by (auto simp: rd_def)
  obtain r where r: "BerDecoder_decodeLength buf 1 n = Some r" using ber.dec_total [of n buf 1] assms by fastforce
  show ?thesis
  proof (cases "buf ! 0 = 0x61 \<and> r \<noteq> LenErr")
    case False
    with t r assms(3) show ?thesis by (auto simp: parseGoosePayload_def)
  next
    case True
    then obtain q k where q: "r = LenOk q k" "buf ! 0 = 0x61" by (cases r) auto
    with ber.dec_bounds r have b: "q + k \<le> n" by fastforce
    have "locals_ok payload_init n (length subs)" by (simp add: locals_ok_def payload_init_def)
    with payload_loop_safe [of n buf "q + k" "(payload_init, subs)" q] assms b obtain l ys where
      l: "payload_loop buf n (q + k) q (payload_init, subs) = Some (l, ys)" "list_all sub_ok ys"
        "\<forall>x. l = Some x \<longrightarrow> locals_ok x n (length ys)" by auto
    show ?thesis
    proof (cases "\<exists>x i. l = Some x \<and> pl_matchingSubscriber x = Some i")
      case False
      with l t r q show ?thesis by (auto simp: parseGoosePayload_def split: option.splits)
    next
      case True
      then obtain x i where x: "l = Some x" "pl_matchingSubscriber x = Some i" by blast
      then have ok: "locals_ok x n (length ys)" "i < length ys" using l(3) by (auto simp: locals_ok_def)
      then obtain s where "update_subscriber x buf now (ys ! i) = Some s" "sub_ok s"
        using update_subscriber_safe [OF ok(1) assms(1,2), of "ys ! i" now] l(2) by (auto simp: list_all_length)
      with l t r q x ok show ?thesis by (auto simp: parseGoosePayload_def list_all_length nth_list_update)
    qed
  qed
qed

lemma find_subscriber_ok:
  assumes "length srcMac = 6" and "length dstMac = 6" and "list_all sub_ok subs"
  shows "list_all sub_ok (snd (find_subscriber appId srcMac dstMac vlanSet vlanId prio subs))"
  using assms by (induction subs) (auto simp: sub_ok_def gs_wf_def split: prod.splits)

lemma parse_eth_header_safe:
  assumes "numbytes \<le> length buffer"
  shows "\<exists>h. parse_eth_header buffer numbytes = Some h
    \<and> (\<forall>x. h = Some x \<longrightarrow> eh_payload x + eh_apduLength x \<le> numbytes \<and> length (eh_srcMac x) = 6 \<and> length (eh_dstMac x) = 6)"
proof (cases "numbytes < 22")
  case False
  let ?vlan = "buffer ! 12 = 0x81 \<and> buffer ! 13 = 0"
  have rd: "rd buffer i = Some (buffer ! i)" if "i < numbytes" for i using that assms by (simp add: rd_def)
  have mac: "rdn buffer 6 6 = Some (take 6 (drop 6 buffer))" "rdn buffer 0 6 = Some (take 6 buffer)"
    "length (take 6 (drop 6 buffer)) = 6" "length (take 6 buffer) = 6"
    using False assms by (auto simp: rdn_def)
  have len: "22 \<le> length buffer" using False assms by simp
  show ?thesis
  proof (cases ?vlan)
    case True
    show ?thesis
    proof (cases "numbytes < 26")
      case c: True
      with True False show ?thesis by (simp add: parse_eth_header_def Let_def rd)
    next
      case c: False
      with True False len show ?thesis
        by (simp add: parse_eth_header_def Let_def rd mac)
    qed
  next
    case c: False
    with False len show ?thesis by (simp add: parse_eth_header_def Let_def rd mac)
  qed
qed (simp add: parse_eth_header_def)

lemma message_safe:
  assumes "numbytes + 8 \<le> length buffer" and "length buffer < 32768" and "list_all sub_ok subs"
  shows "\<exists>subs' called. parseGooseMessage subs buffer numbytes now = Some (subs', called) \<and> list_all sub_ok subs'"
proof -
  obtain h where h: "parse_eth_header buffer numbytes = Some h"
    "\<forall>x. h = Some x \<longrightarrow> eh_payload x + eh_apduLength x \<le> numbytes \<and> length (eh_srcMac x) = 6 \<and> length (eh_dstMac x) = 6"
    using parse_eth_header_safe [of numbytes buffer] assms(1) by auto
  show ?thesis
  proof (cases h)
    case (Some x)
    obtain f ys where f: "find_subscriber (eh_appId x) (eh_srcMac x) (eh_dstMac x) (eh_vlanSet x) (eh_vlanId x)
        (eh_priority x) subs = (f, ys)" by fastforce
    have ys: "list_all sub_ok ys"
      using find_subscriber_ok [OF _ _ assms(3), of "eh_srcMac x" "eh_dstMac x" "eh_appId x" "eh_vlanSet x" "eh_vlanId x"
          "eh_priority x"] h(2) Some f by simp
    have "eh_apduLength x + 8 \<le> length (drop (eh_payload x) buffer)" "eh_apduLength x < 32768"
      using h(2) Some assms(1,2) by auto
    from parseGoosePayload_safe [OF this ys, of now] h Some f ys show ?thesis
      by (auto simp: parseGooseMessage_def)
  qed (use h assms(3) in \<open>simp add: parseGooseMessage_def\<close>)
qed

text \<open>
  C4: Whatever bytes arrive from the network, the receiver handles the frame without an access
  outside its memory, without overflow and in finite time, and leaves every subscriber in a well-formed
  state (names inside their arrays, a valid data set or none), as long as the buffer holds
  eight bytes beyond the frame, which is the case for all frames of up to 1510 bytes in the
  receiver's own 1518-byte buffer.
\<close>

theorem parseGooseMessage_safe:
  assumes "numbytes + 8 \<le> length buffer" and "length buffer < 32768" and "list_all sub_ok subs"
  shows "\<exists>subs' called. parseGooseMessage subs buffer numbytes now = Some (subs', called) \<and> list_all sub_ok subs'"
  by (rule message_safe [OF assms])

theorem parseGooseMessage_safe_witness:
  "\<exists>subs' called. parseGooseMessage [] (replicate 1518 0xff) 1510 0 = Some (subs', called)"
  using parseGooseMessage_safe [of 1510 "replicate 1518 0xff" "[]" 0] by auto

end
