(* ===== verification/GooseExchange.thy ===== *)
theory GooseExchange
  imports GoosePublisher GooseReceiver
begin

text \<open>
  Publisher and receiver together.  The reference message of the publisher is cut into its fields,
  the field loop of the receiver is run over them by their contents, and the data set parser is
  shown to rebuild the data set.  The result is the delivery theorem: what the publisher sends is
  what the subscriber gets.
\<close>

subsection \<open>Reading back an encoded data set\<close>

text \<open>
  Values that survive the transfer: integers of one to eight octets, strings with a buffer, bit
  strings with at least one bit and clear padding, and neither MMS strings nor access errors.
\<close>

fun goose_ok :: "MmsValue \<Rightarrow> bool"
  and components_goose_ok :: "MmsValue option list \<Rightarrow> bool" where
  "goose_ok (MMS_STRUCTURE xs) = components_goose_ok xs"
| "goose_ok (MMS_ARRAY xs) = components_goose_ok xs"
| "goose_ok (MMS_VISIBLE_STRING b n) = (b \<noteq> None)"
| "goose_ok (MMS_STRING b n) = False"
| "goose_ok (MMS_DATA_ACCESS_ERROR e) = False"
| "goose_ok (MMS_BIT_STRING n bits) = (0 < n \<and> wire_ok (MMS_BIT_STRING n bits))"
| "goose_ok v = wire_ok v"
| "components_goose_ok [] = True"
| "components_goose_ok (x # xs) = ((case x of None \<Rightarrow> False | Some v \<Rightarrow> goose_ok v) \<and> components_goose_ok xs)"

text \<open>
  \<open>MmsValue_equals\<close> does not compare the width of floating point values; the transfer keeps it.
\<close>

definition same_format :: "MmsValue \<Rightarrow> MmsValue \<Rightarrow> bool" where
  "same_format v w = (case v of MMS_FLOAT _ f _ \<Rightarrow> (case w of MMS_FLOAT _ f' _ \<Rightarrow> f' = f | _ \<Rightarrow> False) | _ \<Rightarrow> True)"

definition same_formats :: "MmsValue option list \<Rightarrow> MmsValue option list \<Rightarrow> bool" where
  "same_formats = list_all2 (\<lambda>x y. case (x, y) of (Some v, Some w) \<Rightarrow> same_format v w | _ \<Rightarrow> True)"

lemma same_formats_simps [simp]:
  "same_formats [] []" "same_formats (Some v # xs) (Some w # ys) = (same_format v w \<and> same_formats xs ys)"
  by (simp_all add: same_formats_def)

text \<open>An integer slot that the receiver creates has room for at least four octets.\<close>

definition roomy :: "MmsValue \<Rightarrow> bool" where
  "roomy w = (case w of MMS_INTEGER b \<Rightarrow> 4 \<le> asn1_maxSize b | _ \<Rightarrow> True)"

definition fresh_format :: "MmsValue \<Rightarrow> MmsValue \<Rightarrow> bool" where
  "fresh_format v w \<longleftrightarrow> same_format v w \<and> roomy w"

definition fresh_formats :: "MmsValue option list \<Rightarrow> MmsValue option list \<Rightarrow> bool" where
  "fresh_formats = list_all2 (\<lambda>x y. case (x, y) of (Some v, Some w) \<Rightarrow> fresh_format v w | _ \<Rightarrow> True)"

lemma fresh_formats_simps [simp]:
  "fresh_formats [] []" "fresh_formats (Some v # xs) (Some w # ys) = (fresh_format v w \<and> fresh_formats xs ys)"
  by (simp_all add: fresh_formats_def)

lemma new_scalar_integer_room:
  assumes "new_scalar 0x85 buf p n = Some (NewValue (Some (MMS_INTEGER b)))"
  shows "4 \<le> asn1_maxSize b"
proof -
  have "4 \<le> asn1_maxSize c" if "MmsValue_newInteger (n * 8) = MMS_INTEGER c" for c
    using that by (auto simp: MmsValue_newInteger_def BerInteger_createInt32_def BerInteger_createInt64_def
        Asn1PrimitiveValue_create_def split: if_splits)
  with assms show ?thesis
    by (auto simp: new_scalar_def asn1_store_def bind_eq_Some_conv split: if_splits MmsValue.splits)
qed

lemma decode_to_new:
  assumes "decode_scalar tag buf p l = Some (DecOk (Some w) q)" and "tag \<noteq> 0x80" and "tag \<noteq> 0x90"
    and "tag = 0x84 \<longrightarrow> 1 < l" and "tag = 0x83 \<longrightarrow> 0 < l"
  shows "new_scalar tag buf p l = Some (NewValue (Some w))"
proof -
  consider "tag = 0x84" | "tag = 0x85 \<or> tag = 0x86" | "tag = 0x83 \<or> tag = 0x87" | "tag = 0x89 \<or> tag = 0x8c"
    | "tag = 0x8a \<or> tag = 0x91" | "tag \<notin> {0x83, 0x84, 0x85, 0x86, 0x87, 0x89, 0x8a, 0x8c, 0x91}" by blast
  then show ?thesis
  proof cases
    case 1
    with assms show ?thesis
      unfolding decode_scalar_def new_scalar_def mult.commute [of "int l - 1"]
      by (auto simp: MmsValue_newBitString_def Let_def simp del: rd_eq_None rdn_eq_None split: bind_splits if_splits)
  next
    case 2
    with assms(1) show ?thesis
      by (cases "8 < l")
         (auto simp: decode_scalar_def new_scalar_def MmsValue_newInteger_def MmsValue_newUnsigned_def bind_eq_Some_conv)
  next
    case 3
    with assms(1,5) show ?thesis
      by (auto simp: decode_scalar_def new_scalar_def bind_eq_Some_conv split: if_splits)
  next
    case 4
    with assms(1) show ?thesis
      by (auto simp: decode_scalar_def new_scalar_def MmsValue_newOctetString_def MmsValue_newBinaryTime_def
          bind_eq_Some_conv split: if_splits)
  next
    case 5
    with assms(1) show ?thesis
      by (auto simp: decode_scalar_def new_scalar_def bind_eq_Some_conv split: if_splits)
  next
    case 6
    with assms(1-3) show ?thesis by (auto simp: decode_scalar_def split: if_splits)
  qed
qed

lemma new_scalar_ok:
  assumes "is_scalar v" and "mms_wf v" and "goose_ok v" and "drop p buf = mms_content v @ r" and "p \<le> length buf"
    and "length (mms_content v) < 65535"
  shows "\<exists>w. new_scalar (mms_tag v) buf p (length (mms_content v)) = Some (NewValue (Some w))
    \<and> MmsValue_equals v w = Some True \<and> fresh_format v w"
proof -
  have w: "wire_ok v" using assms(1,3) by (cases v) (auto simp: is_scalar_def)
  have t: "mms_tag v \<noteq> 0x80" "mms_tag v \<noteq> 0x90" using assms(1,3) by (cases v; simp add: is_scalar_def)+
  have b: "mms_tag v = 0x84 \<longrightarrow> 1 < length (mms_content v)"
  proof (cases v)
    case (MMS_BIT_STRING n bits)
    with assms(2,3) show ?thesis by (auto simp: wire_simps bit_byte_size_eq bitStringByteSize_eq)
  qed auto
  have c: "mms_tag v = 0x83 \<longrightarrow> 0 < length (mms_content v)" by (cases v) auto
  obtain x where "decode_scalar (mms_tag v) buf p (length (mms_content v))
      = Some (DecOk (Some x) (p + length (mms_content v)))" "MmsValue_equals v x = Some True"
    using decode_scalar_ok [OF assms(1,2) w assms(4,5)] assms(6) by auto
  with decode_to_new t b c have new: "new_scalar (mms_tag v) buf p (length (mms_content v)) = Some (NewValue (Some x))"
    and eq: "MmsValue_equals v x = Some True" by blast+
  moreover from this assms(2) have "same_format v x"
    by (cases v) (auto simp: same_format_def new_scalar_def length_ber_float MmsValue_newFloat_def MmsValue_newDouble_def
        bind_eq_Some_conv)
  moreover have "roomy x"
  proof (cases x)
    case (MMS_INTEGER b)
    with eq assms(1) obtain a where "v = MMS_INTEGER a" by (cases v) (auto simp: is_scalar_def)
    with MMS_INTEGER new new_scalar_integer_room show ?thesis by (auto simp: roomy_def)
  qed (simp_all add: roomy_def)
  ultimately show ?thesis by (auto simp: fresh_format_def)
qed


lemma goose_tag_known: "mms_wf v \<Longrightarrow> goose_ok v \<Longrightarrow> mms_tag v \<in> set goose_data_tags"
  by (cases v) (auto simp: goose_data_tags_def)

lemma count_loop_ok:
  assumes "mms_wf_components xs" and "components_goose_ok xs" and "drop p buf = components_bytes xs @ r"
    and "n = p + length (components_bytes xs)" and "n < 2 ^ 31" and "length (components_bytes xs) < 65535"
  shows "count_loop buf n p i = Some (Some (i + length xs))"
  using assms
proof (induction xs arbitrary: p i)
  case Nil
  then show ?case by (simp add: count_loop.simps)
next
  case (Cons x xs)
  then obtain v where v: "x = Some v" "mms_wf v" "goose_ok v" by auto
  let ?c = "mms_content v"
  have d: "drop p buf = ber_tlv (mms_tag v) ?c @ components_bytes xs @ r"
    using Cons.prems(3) v by (simp add: mms_bytes_tlv)
  have lc: "length ?c < 65535" using length_mms_bytes [OF v(2)] Cons.prems(6) v(1) by simp
  have l: "p + length (ber_tlv (mms_tag v) ?c) \<le> n" using Cons.prems(4) v by (simp add: mms_bytes_tlv)
  note parts = tlv_parts [OF d lc l Cons.prems(5)]
  have "count_loop buf n (p + length (mms_bytes v)) (i + 1) = Some (Some (i + 1 + length xs))"
    using Cons.prems v drop_append [OF d] by (intro Cons.IH) (simp_all add: mms_bytes_tlv [symmetric])
  with parts v goose_tag_known [of v] l show ?case
    by (simp add: count_loop.simps [of buf n p] mms_bytes_tlv wire_simps add.assoc)
qed

lemma setElement_next:
  "MmsValue_setElement (MMS_ARRAY (ys @ replicate (Suc k) None)) (length ys) (Some w)
     = MMS_ARRAY ((ys @ [Some w]) @ replicate k None)"
  "MmsValue_setElement (MMS_STRUCTURE (ys @ replicate (Suc k) None)) (length ys) (Some w)
     = MMS_STRUCTURE ((ys @ [Some w]) @ replicate k None)"
  by (simp_all add: list_update_append)

definition list_of :: "bool \<Rightarrow> MmsValue option list \<Rightarrow> MmsValue" where
  "list_of isStructure xs = (if isStructure then MMS_STRUCTURE xs else MMS_ARRAY xs)"

lemma setElement_list_of:
  "MmsValue_setElement (list_of st (ys @ replicate (Suc k) None)) (length ys) (Some w)
     = list_of st ((ys @ [Some w]) @ replicate k None)"
  by (simp only: list_of_def setElement_next if_distrib [of "\<lambda>d. MmsValue_setElement d (length ys) (Some w)"])

lemma fill_step:
  assumes "p < n" and "rd buf p = Some tag" and "BerDecoder_decodeLength buf (p + 1) n = Some (LenOk q l)"
    and "(if tag = 0xa1 \<or> tag = 0xa2 then do {
            (f, v) \<leftarrow> parseAllDataUnknownValue f (drop q buf) l (tag = 0xa2);
            Some (f, case v of None \<Rightarrow> NewErr | Some v \<Rightarrow> NewValue (Some v)) }
          else map_option (Pair f) (new_scalar tag buf q l)) = Some (g, NewValue (Some w))"
  shows "fill_loop f buf n p i d = fill_loop g buf n (q + l) (i + 1) (MmsValue_setElement d i (Some w))"
  using assms by (simp add: fill_loop.simps [of f buf n p])

lemma fill_ok:
  shows "mms_wf v \<Longrightarrow> goose_ok v \<Longrightarrow> drop q buf = mms_content v @ r \<Longrightarrow> q \<le> length buf \<Longrightarrow> length (mms_content v) < 65535 \<Longrightarrow>
      \<exists>g w. (if mms_tag v = 0xa1 \<or> mms_tag v = 0xa2 then do {
            (f, v) \<leftarrow> parseAllDataUnknownValue f (drop q buf) (length (mms_content v)) (mms_tag v = 0xa2);
            Some (f, case v of None \<Rightarrow> NewErr | Some v \<Rightarrow> NewValue (Some v)) }
          else map_option (Pair f) (new_scalar (mms_tag v) buf q (length (mms_content v)))) = Some (g, NewValue (Some w))
        \<and> MmsValue_equals v w = Some True \<and> fresh_format v w"
    and "mms_wf_components xs \<Longrightarrow> components_goose_ok xs \<Longrightarrow> drop p buf = components_bytes xs @ r \<Longrightarrow>
      n = p + length (components_bytes xs) \<Longrightarrow> n < 65535 \<Longrightarrow>
      \<exists>zs. fill_loop f buf n p (length ys) (list_of st (ys @ replicate (length xs) None))
          = Some (True, Some (list_of st (ys @ zs)))
        \<and> length zs = length xs \<and> components_equal xs zs = Some True \<and> fresh_formats xs zs"
proof (induction v and xs arbitrary: q buf r f and p buf r f n ys st rule: value_components_induct)
  case (array xs)
  have c: "count_loop (drop q buf) (length (components_bytes xs)) 0 0 = Some (Some (length xs))"
    using array.prems count_loop_ok [of xs 0 "drop q buf" r "length (components_bytes xs)" 0] by simp
  obtain zs where "fill_loop f (drop q buf) (length (components_bytes xs)) 0 0 (MMS_ARRAY (replicate (length xs) None))
      = Some (True, Some (MMS_ARRAY zs))" "length zs = length xs" "components_equal xs zs = Some True"
    using array.IH [of 0 "drop q buf" r "length (components_bytes xs)" f "[]" False] array.prems
    by (auto simp: list_of_def)
  with c show ?case by (auto simp: fresh_format_def roomy_def same_format_def parseAllDataUnknownValue.simps MmsValue_createEmptyArray_def)
next
  case (struct xs)
  have c: "count_loop (drop q buf) (length (components_bytes xs)) 0 0 = Some (Some (length xs))"
    using struct.prems count_loop_ok [of xs 0 "drop q buf" r "length (components_bytes xs)" 0] by simp
  obtain zs where "fill_loop f (drop q buf) (length (components_bytes xs)) 0 0 (MMS_STRUCTURE (replicate (length xs) None))
      = Some (True, Some (MMS_STRUCTURE zs))" "length zs = length xs" "components_equal xs zs = Some True"
    using struct.IH [of 0 "drop q buf" r "length (components_bytes xs)" f "[]" True] struct.prems
    by (auto simp: list_of_def)
  with c show ?case by (auto simp: fresh_format_def roomy_def same_format_def parseAllDataUnknownValue.simps MmsValue_createEmptyStructure_def)
next
  case (scalar v)
  with new_scalar_ok [OF scalar.hyps scalar.prems] mms_tag_scalar [OF scalar.hyps] show ?case by auto
next
  case nil
  then show ?case by (simp add: fill_loop.simps)
next
  case (cons x xs)
  then obtain v where v: "x = Some v" "mms_wf v" "goose_ok v" by auto
  let ?c = "mms_content v"
  have d: "drop p buf = ber_tlv (mms_tag v) ?c @ components_bytes xs @ r"
    using cons.prems(3) v by (simp add: mms_bytes_tlv)
  have lc: "length ?c < 65535" using length_mms_bytes [OF v(2)] cons.prems(4,5) v(1) by simp
  have l: "p + length (ber_tlv (mms_tag v) ?c) \<le> n" using cons.prems(4) v by (simp add: mms_bytes_tlv)
  have n: "n < 2 ^ 31" using cons.prems(5) by simp
  note parts = tlv_parts [OF d lc l n]
  let ?q = "p + 1 + length (ber_len (length ?c))"
  obtain g w where w: "(if mms_tag v = 0xa1 \<or> mms_tag v = 0xa2 then do {
            (f, v) \<leftarrow> parseAllDataUnknownValue f (drop ?q buf) (length ?c) (mms_tag v = 0xa2);
            Some (f, case v of None \<Rightarrow> NewErr | Some v \<Rightarrow> NewValue (Some v)) }
          else map_option (Pair f) (new_scalar (mms_tag v) buf ?q (length ?c))) = Some (g, NewValue (Some w))"
      "MmsValue_equals v w = Some True" "fresh_format v w"
    using cons.IH(1) [OF v(1) v(2,3) parts(3) _ lc] parts(4,5) by fastforce
  have p: "p < n" using l by (simp add: wire_simps)
  have nx: "?q + length ?c = p + length (mms_bytes v)" using parts(4) v by (simp add: mms_bytes_tlv)
  have "fill_loop f buf n p (length ys) (list_of st (ys @ replicate (length (x # xs)) None))
     = fill_loop g buf n (p + length (mms_bytes v)) (length (ys @ [Some w])) (list_of st ((ys @ [Some w]) @ replicate (length xs) None))"
    using fill_step [OF p parts(1,2) w(1), unfolded nx] setElement_list_of [of st ys "length xs" w] by simp
  moreover have "drop (p + length (mms_bytes v)) buf = components_bytes xs @ r"
    using drop_append [OF d] v by (simp add: mms_bytes_tlv)
  then obtain zs where "fill_loop g buf n (p + length (mms_bytes v)) (length (ys @ [Some w]))
        (list_of st ((ys @ [Some w]) @ replicate (length xs) None)) = Some (True, Some (list_of st ((ys @ [Some w]) @ zs)))"
      "length zs = length xs" "components_equal xs zs = Some True" "fresh_formats xs zs"
    using cons.IH(2) [of "p + length (mms_bytes v)" buf r n g "ys @ [Some w]" st] cons.prems v by auto
  ultimately show ?case using v w(2,3) by (intro exI [of _ "Some w # zs"]) simp
qed

lemma unknown_value_ok:
  assumes "mms_wf_components xs" and "components_goose_ok xs" and "drop p buf = components_bytes xs @ r"
    and "length (components_bytes xs) < 32768"
  shows "\<exists>zs. parseAllDataUnknownValue f (drop p buf) (length (components_bytes xs)) False
      = Some (True, Some (MMS_ARRAY zs)) \<and> length zs = length xs \<and> components_equal xs zs = Some True
    \<and> fresh_formats xs zs \<and> components_valid zs"
proof -
  have c: "count_loop (drop p buf) (length (components_bytes xs)) 0 0 = Some (Some (length xs))"
    using assms count_loop_ok [of xs 0 "drop p buf" r "length (components_bytes xs)" 0] by simp
  obtain zs where "fill_loop f (drop p buf) (length (components_bytes xs)) 0 0 (MMS_ARRAY (replicate (length xs) None))
      = Some (True, Some (MMS_ARRAY zs))" "length zs = length xs" "components_equal xs zs = Some True" "fresh_formats xs zs"
    using fill_ok(2) [of xs 0 "drop p buf" r "length (components_bytes xs)" f "[]" False] assms
    by (auto simp: list_of_def)
  with c have zs: "parseAllDataUnknownValue f (drop p buf) (length (components_bytes xs)) False = Some (True, Some (MMS_ARRAY zs))"
      "length zs = length xs" "components_equal xs zs = Some True" "fresh_formats xs zs"
    by (simp_all add: parseAllDataUnknownValue.simps MmsValue_createEmptyArray_def)
  have "length (components_bytes xs) \<le> length (drop p buf)" using arg_cong [OF assms(3), of length] by simp
  with unknown_safe(1) [OF this assms(4), of f False] zs(1) have "components_valid zs" by auto
  with zs show ?thesis by blast
qed

subsection \<open>Reading back the fields of a message\<close>

text \<open>The effect of one field in terms of its content octets.\<close>

definition name_sem :: "bytes \<Rightarrow> bytes \<Rightarrow> bytes" where
  "name_sem name c = (if 129 < length c then name else overlay name 0 (c @ [0]))"

fun find_ref :: "bytes \<Rightarrow> GooseSubscriber list \<Rightarrow> nat option" where
  "find_ref c [] = None"
| "find_ref c (s # subs) =
     (if gs_goCBRefLen s = length c \<and> take (length c) (gs_goCBRef s) = c then Some 0
      else map_option Suc (find_ref c subs))"

definition upd_nth :: "nat option \<Rightarrow> (GooseSubscriber \<Rightarrow> GooseSubscriber) \<Rightarrow> GooseSubscriber list \<Rightarrow> GooseSubscriber list" where
  "upd_nth i f subs = (case i of None \<Rightarrow> subs | Some i \<Rightarrow> subs[i := f (subs ! i)])"

definition field_sem :: "u8 \<Rightarrow> bytes \<Rightarrow> nat \<Rightarrow> payload_locals \<times> GooseSubscriber list \<Rightarrow> payload_locals \<times> GooseSubscriber list" where
  "field_sem tag c q st =
     (case st of (l, subs) \<Rightarrow>
        if tag = 0x80 then (l\<lparr>pl_matchingSubscriber := find_ref c subs\<rparr>, subs)
        else if tag = 0x81 then (l\<lparr>pl_timeAllowedToLive := word_of_nat (be_nat c)\<rparr>, subs)
        else if tag = 0x82 then (l, upd_nth (pl_matchingSubscriber l) (\<lambda>s. s\<lparr>gs_datSet := name_sem (gs_datSet s) c\<rparr>) subs)
        else if tag = 0x83 then (l, upd_nth (pl_matchingSubscriber l) (\<lambda>s. s\<lparr>gs_goId := name_sem (gs_goId s) c\<rparr>) subs)
        else if tag = 0x84 then (l\<lparr>pl_timestampBufPos := Some q\<rparr>, subs)
        else if tag = 0x85 then (l\<lparr>pl_stNum := word_of_nat (be_nat c)\<rparr>, subs)
        else if tag = 0x86 then (l\<lparr>pl_sqNum := word_of_nat (be_nat c)\<rparr>, subs)
        else if tag = 0x87 then (l\<lparr>pl_simulation := (hd c \<noteq> 0)\<rparr>, subs)
        else if tag = 0x88 then (l\<lparr>pl_confRev := word_of_nat (be_nat c)\<rparr>, subs)
        else if tag = 0x89 then (l\<lparr>pl_ndsCom := (hd c \<noteq> 0)\<rparr>, subs)
        else if tag = 0x8a then (l\<lparr>pl_numberOfDatSetEntries := word_of_nat (be_nat c)\<rparr>, subs)
        else if tag = 0xab then (l\<lparr>pl_dataSetBufferAddress := q, pl_dataSetBufferLength := length c\<rparr>, subs)
        else (l, subs))"

text \<open>When the search by reference is the plain one: no observer, and a reference that is known.\<close>

definition plain_subs :: "GooseSubscriber list \<Rightarrow> bool" where
  "plain_subs subs = list_all (\<lambda>s. sub_ok s \<and> \<not> gs_isObserver s) subs"

definition field_ok :: "u8 \<Rightarrow> bytes \<Rightarrow> payload_locals \<times> GooseSubscriber list \<Rightarrow> bool" where
  "field_ok tag c st \<longleftrightarrow> (tag \<in> {0x80, 0x82, 0x83} \<longrightarrow> plain_subs (snd st)) \<and> (tag = 0x80 \<longrightarrow> find_ref c (snd st) \<noteq> None)
     \<and> (tag = 0x87 \<or> tag = 0x89 \<longrightarrow> c \<noteq> [])
     \<and> (\<forall>i. pl_matchingSubscriber (fst st) = Some i \<longrightarrow> i < length (snd st))"

lemma match_plain:
  assumes "drop q buf = c @ r" and "q \<le> length buf" and "plain_subs subs"
  shows "match_gocbRef buf q (length c) subs k = Some (map_option (\<lambda>i. k + i) (find_ref c subs), subs)"
  using assms(3)
proof (induction subs arbitrary: k)
  case (Cons s subs)
  have c: "rdn buf q (length c) = Some c" using drop_read [OF assms(1,2)] .
  have "gs_goCBRefLen s = length c \<Longrightarrow> rdn (gs_goCBRef s) 0 (length c) = Some (take (length c) (gs_goCBRef s))"
    using Cons.prems by (auto simp: plain_subs_def sub_ok_def gs_wf_def rdn_def)
  with Cons c show ?case by (cases "find_ref c subs") (auto simp: plain_subs_def)
qed simp

lemma store_name_sem:
  assumes "drop q buf = c @ r" and "q \<le> length buf" and "length name = 130"
  shows "store_name name buf q (length c) = Some (name_sem name c)"
  using assms drop_read [OF assms(1,2)] puts_bind_puts [of c name 0 "[0]"]
  by (simp add: store_name_def name_sem_def put_eq_puts puts_eq overlay_def)

lemma payload_field_sem:
  assumes "drop q buf = c @ r" and "q \<le> length buf" and "field_ok tag c st"
  shows "payload_field tag buf q (length c) st = Some (Some (field_sem tag c q st), snd (field_sem tag c q st))"
proof -
  obtain l subs where st: "st = (l, subs)" by (cases st)
  have u: "BerDecoder_decodeUint32 buf (length c) q = Some (word_of_nat (be_nat c))"
    using decodeUint32_be [OF assms(1)] .
  have b: "c \<noteq> [] \<Longrightarrow> BerDecoder_decodeBoolean buf q = Some (hd c \<noteq> 0)"
    using assms(1) by (cases c) (auto simp: BerDecoder_decodeBoolean_def drop_read_Cons)
  have nth: "length (gs_datSet (subs ! i)) = 130 \<and> length (gs_goId (subs ! i)) = 130" if "i < length subs" "plain_subs subs" for i
    using that by (auto simp: plain_subs_def list_all_length sub_ok_def gs_wf_def)
  have names: "store_name (gs_datSet (subs ! i)) buf q (length c) = Some (name_sem (gs_datSet (subs ! i)) c)"
    "store_name (gs_goId (subs ! i)) buf q (length c) = Some (name_sem (gs_goId (subs ! i)) c)" if "i < length subs" "plain_subs subs" for i
    using store_name_sem [OF assms(1,2)] nth [OF that] by auto
  consider "tag = 0x80" | "tag = 0x82 \<or> tag = 0x83" | "tag \<notin> {0x80, 0x82, 0x83}" by blast
  then show ?thesis
  proof cases
    case 1
    then obtain i where "find_ref c subs = Some i" using assms(3) st by (auto simp: field_ok_def)
    with 1 st match_plain [OF assms(1,2), of subs 0] assms(3) show ?thesis by (simp add: payload_field_def field_sem_def field_ok_def)
  next
    case 2
    with assms(3) names st show ?thesis
      by (cases "pl_matchingSubscriber l")
         (auto simp: payload_field_def field_sem_def field_ok_def upd_matching_def upd_nth_def)
  next
    case 3
    then show ?thesis using assms(3) u b st by (simp add: payload_field_def field_sem_def field_ok_def)
  qed
qed

lemma payload_step:
  assumes "drop p buf = ber_tlv tag c @ r" and "length c < 65535" and "p + length (ber_tlv tag c) \<le> n" and "n < 2 ^ 31"
    and "p < e" and "field_ok tag c st"
  shows "payload_loop buf n e p st = payload_loop buf n e (p + length (ber_tlv tag c))
      (field_sem tag c (p + 1 + length (ber_len (length c))) st)"
proof -
  note parts = tlv_parts [OF assms(1-4)]
  let ?q = "p + 1 + length (ber_len (length c))"
  have "?q \<le> length buf" using parts by simp
  from payload_field_sem [OF parts(3) this assms(6)] parts assms(5) show ?thesis
    by (simp add: payload_loop.simps [of buf n e p st] add.assoc)
qed

fun fold_fields :: "nat \<Rightarrow> (u8 \<times> bytes) list \<Rightarrow> payload_locals \<times> GooseSubscriber list \<Rightarrow> payload_locals \<times> GooseSubscriber list" where
  "fold_fields p [] st = st"
| "fold_fields p ((tag, c) # fs) st =
     fold_fields (p + length (ber_tlv tag c)) fs (field_sem tag c (p + 1 + length (ber_len (length c))) st)"

fun fields_ok :: "nat \<Rightarrow> (u8 \<times> bytes) list \<Rightarrow> payload_locals \<times> GooseSubscriber list \<Rightarrow> bool" where
  "fields_ok p [] st = True"
| "fields_ok p ((tag, c) # fs) st =
     (field_ok tag c st \<and> length c < 65535 \<and>
      fields_ok (p + length (ber_tlv tag c)) fs (field_sem tag c (p + 1 + length (ber_len (length c))) st))"

lemma payload_fields:
  assumes "drop p buf = fields_bytes fs @ r" and "e = p + length (fields_bytes fs)" and "e \<le> n" and "n < 2 ^ 31"
    and "fields_ok p fs st"
  shows "payload_loop buf n e p st = Some (Some (fst (fold_fields p fs st)), snd (fold_fields p fs st))"
  using assms
proof (induction p fs st rule: fold_fields.induct)
  case (1 p st)
  then show ?case by (simp add: payload_loop.simps fields_bytes_def)
next
  case (2 p tag c fs st)
  have d: "drop p buf = ber_tlv tag c @ fields_bytes fs @ r" using "2.prems"(1) by (simp add: fields_bytes_def)
  have "p < e" using "2.prems"(2) by (simp add: fields_bytes_def wire_simps)
  then have step: "payload_loop buf n e p st = payload_loop buf n e (p + length (ber_tlv tag c))
      (field_sem tag c (p + 1 + length (ber_len (length c))) st)"
    using "2.prems" by (intro payload_step [OF d]) (simp_all add: fields_bytes_def)
  show ?case
    using step "2.IH" "2.prems" drop_append [OF d] by (simp add: fields_bytes_def)
qed

subsection \<open>From publisher to subscriber\<close>

definition opt_bytes :: "cstring option \<Rightarrow> bytes" where
  "opt_bytes s = (case s of Some x \<Rightarrow> x | None \<Rightarrow> [])"

definition goose_items :: "GoosePublisher \<Rightarrow> MmsValue option list \<Rightarrow> (u8 \<times> bytes) list" where
  "goose_items self ds =
     [(0x80, opt_bytes (gp_goCBRef self)), (0x81, ber_u32 (gp_timeAllowedToLive self)),
      (0x82, opt_bytes (gp_dataSetRef self)), (0x83, opt_bytes (goose_goID self)),
      (0x84, take 8 (the (utc_octets (gp_timestamp self)))), (0x85, ber_u32 (gp_stNum self)),
      (0x86, ber_u32 (gp_sqNum self)), (0x87, [if gp_simulation self then 1 else 0]),
      (0x88, ber_u32 (gp_confRev self)), (0x89, [if gp_needsCommission self then 1 else 0]),
      (0x8a, ber_u32 (word_of_nat (length ds))), (0xab, components_bytes ds)]"

lemma goose_fields_items: "goose_fields self ds = fields_bytes (goose_items self ds)"
  by (simp add: goose_fields_def goose_items_def fields_bytes_def ber_string_def opt_bytes_def)

lemma plain_upd:
  assumes "plain_subs subs" and "i < length subs"
  shows "plain_subs (subs[i := (subs ! i)\<lparr>gs_datSet := name_sem (gs_datSet (subs ! i)) c\<rparr>])"
proof -
  have "length (name_sem (gs_datSet (subs ! i)) c) = 130"
    using assms by (auto simp: plain_subs_def list_all_length sub_ok_def gs_wf_def name_sem_def)
  with assms show ?thesis
    by (auto simp: plain_subs_def list_all_length nth_list_update sub_ok_def gs_wf_def)
qed

lemma find_ref_less: "find_ref c subs = Some i \<Longrightarrow> i < length subs"
  by (induction subs arbitrary: i) (auto split: if_splits)

definition t_pos :: "nat \<Rightarrow> GoosePublisher \<Rightarrow> MmsValue option list \<Rightarrow> nat" where
  "t_pos p self ds = p + length (fields_bytes (take 4 (goose_items self ds))) + 1
     + length (ber_len (length (take 8 (the (utc_octets (gp_timestamp self))))))"

definition d_pos :: "nat \<Rightarrow> GoosePublisher \<Rightarrow> MmsValue option list \<Rightarrow> nat" where
  "d_pos p self ds = p + length (fields_bytes (take 11 (goose_items self ds))) + 1
     + length (ber_len (length (components_bytes ds)))"

definition received_locals :: "nat \<Rightarrow> nat \<Rightarrow> GoosePublisher \<Rightarrow> MmsValue option list \<Rightarrow> payload_locals" where
  "received_locals p i self ds = \<lparr>pl_timeAllowedToLive = gp_timeAllowedToLive self, pl_stNum = gp_stNum self,
     pl_sqNum = gp_sqNum self, pl_confRev = gp_confRev self, pl_simulation = gp_simulation self,
     pl_ndsCom = gp_needsCommission self, pl_matchingSubscriber = Some i, pl_timestampBufPos = Some (t_pos p self ds),
     pl_dataSetBufferAddress = d_pos p self ds, pl_dataSetBufferLength = length (components_bytes ds),
     pl_numberOfDatSetEntries = word_of_nat (length ds)\<rparr>"

definition received_names :: "GoosePublisher \<Rightarrow> GooseSubscriber \<Rightarrow> GooseSubscriber" where
  "received_names self s = s\<lparr>gs_datSet := name_sem (gs_datSet s) (opt_bytes (gp_dataSetRef self)),
     gs_goId := name_sem (gs_goId s) (opt_bytes (goose_goID self))\<rparr>"

lemma field_sem_simps:
  "field_sem 0x80 c q (l, subs) = (l\<lparr>pl_matchingSubscriber := find_ref c subs\<rparr>, subs)"
  "field_sem 0x81 c q (l, subs) = (l\<lparr>pl_timeAllowedToLive := word_of_nat (be_nat c)\<rparr>, subs)"
  "field_sem 0x82 c q (l, subs) =
     (l, upd_nth (pl_matchingSubscriber l) (\<lambda>s. s\<lparr>gs_datSet := name_sem (gs_datSet s) c\<rparr>) subs)"
  "field_sem 0x83 c q (l, subs) =
     (l, upd_nth (pl_matchingSubscriber l) (\<lambda>s. s\<lparr>gs_goId := name_sem (gs_goId s) c\<rparr>) subs)"
  "field_sem 0x84 c q (l, subs) = (l\<lparr>pl_timestampBufPos := Some q\<rparr>, subs)"
  "field_sem 0x85 c q (l, subs) = (l\<lparr>pl_stNum := word_of_nat (be_nat c)\<rparr>, subs)"
  "field_sem 0x86 c q (l, subs) = (l\<lparr>pl_sqNum := word_of_nat (be_nat c)\<rparr>, subs)"
  "field_sem 0x87 c q (l, subs) = (l\<lparr>pl_simulation := (hd c \<noteq> 0)\<rparr>, subs)"
  "field_sem 0x88 c q (l, subs) = (l\<lparr>pl_confRev := word_of_nat (be_nat c)\<rparr>, subs)"
  "field_sem 0x89 c q (l, subs) = (l\<lparr>pl_ndsCom := (hd c \<noteq> 0)\<rparr>, subs)"
  "field_sem 0x8a c q (l, subs) = (l\<lparr>pl_numberOfDatSetEntries := word_of_nat (be_nat c)\<rparr>, subs)"
  "field_sem 0xab c q (l, subs) = (l\<lparr>pl_dataSetBufferAddress := q, pl_dataSetBufferLength := length c\<rparr>, subs)"
  by (simp_all add: field_sem_def)

lemma fold_goose_items:
  assumes "find_ref (opt_bytes (gp_goCBRef self)) subs = Some i"
  shows "fold_fields p (goose_items self ds) (payload_init, subs)
    = (received_locals p i self ds, subs[i := received_names self (subs ! i)])"
proof -
  note i = find_ref_less [OF assms]
  have u: "word_of_nat (be_nat (ber_u32 v)) = v" for v by (simp add: be_nat_ber_u32)
  show ?thesis using i
    unfolding goose_items_def received_locals_def received_names_def t_pos_def d_pos_def payload_init_def
    by (simp add: field_sem_simps assms upd_nth_def u add.assoc)
qed

lemma fields_bytes_content: "(t, c) \<in> set fs \<Longrightarrow> length c < length (fields_bytes fs)"
proof (induction fs)
  case (Cons x fs)
  obtain t' c' where "x = (t', c')" by (cases x)
  with Cons show ?case by (auto simp: wire_simps)
qed simp

lemma goose_items_ok:
  assumes "find_ref (opt_bytes (gp_goCBRef self)) subs = Some i" and "plain_subs subs" and "length (goose_fields self ds) < 65535"
  shows "fields_ok p (goose_items self ds) (payload_init, subs)"
proof -
  note i = find_ref_less [OF assms(1)]
  have len: "length c < 65535" if "(t, c) \<in> set (goose_items self ds)" for t c
    using fields_bytes_content [OF that] assms(3) by (simp add: goose_fields_items)
  have u: "word_of_nat (be_nat (ber_u32 v)) = v" for v by (simp add: be_nat_ber_u32)
  have "list_all (\<lambda>(t, c). length c < 65535) (goose_items self ds)" using len by (auto simp: list_all_iff)
  then show ?thesis using i
    unfolding goose_items_def payload_init_def
    by (simp add: field_sem_simps assms(1,2) upd_nth_def field_ok_def plain_upd)
qed

definition received :: "GoosePublisher \<Rightarrow> u64 \<Rightarrow> GooseSubscriber \<Rightarrow> MmsValue option list \<Rightarrow> GooseSubscriber" where
  "received self now s zs = (received_names self s)\<lparr>gs_timeAllowedToLive := gp_timeAllowedToLive self,
     gs_ndsCom := gp_needsCommission self, gs_simulation := gp_simulation self, gs_confRev := gp_confRev self,
     gs_timestamp := gp_timestamp self, gs_dataSetValues := Some (MMS_ARRAY zs), gs_dataSetValuesSelfAllocated := True,
     gs_stateValid := \<not> (gs_stNum s = gp_stNum self \<and> gp_sqNum self \<le> gs_sqNum s),
     gs_stNum := gp_stNum self, gs_sqNum := gp_sqNum self,
     gs_invalidityTime := now + ucast (gp_timeAllowedToLive self)\<rparr>"

text \<open>The subscriber before its data set is parsed; an owned data set is dropped when \<open>confRev\<close> changes.\<close>

definition received_header :: "GoosePublisher \<Rightarrow> GooseSubscriber \<Rightarrow> GooseSubscriber" where
  "received_header self s = (received_names self s)\<lparr>gs_timeAllowedToLive := gp_timeAllowedToLive self,
     gs_ndsCom := gp_needsCommission self, gs_simulation := gp_simulation self, gs_confRev := gp_confRev self,
     gs_timestamp := gp_timestamp self,
     gs_dataSetValues := (if gs_dataSetValuesSelfAllocated s \<and> gs_confRev s \<noteq> gp_confRev self then None
                          else gs_dataSetValues s)\<rparr>"

lemma update_header_received:
  assumes "drop p buf = goose_fields self ds @ r" and "gp_wf self" and "\<not> gs_isObserver s" and "sub_ok s"
  shows "update_header (received_locals p i self ds) buf (received_names self s) = Some (received_header self s)"
proof -
  obtain t where t: "gp_timestamp self = MMS_UTC_TIME t" "length t = 8" using assms(2) by (auto simp: gp_wf_def)
  obtain t0 where t0: "gs_timestamp s = MMS_UTC_TIME t0" using assms(4) by (auto simp: sub_ok_def gs_wf_def)
  let ?items = "goose_items self ds"
  have d: "drop p buf = fields_bytes (take 4 ?items @ (0x84, t) # drop 5 ?items) @ r"
    using assms(1) t by (simp add: goose_fields_items goose_items_def)
  from item_content [OF this] have tpos: "drop (t_pos p self ds) buf = t @ fields_bytes (drop 5 ?items) @ r"
    using t by (simp add: t_pos_def)
  then have time: "rdn (drop (t_pos p self ds) buf) 0 8 = Some t" using t(2) by (simp add: rdn_def)
  show ?thesis using time t0 t assms(3)
    by (auto simp: update_header_def received_locals_def received_names_def received_header_def Let_def)
qed

lemma dataset_position:
  assumes "drop p buf = goose_fields self ds @ r"
  shows "drop (d_pos p self ds) buf = components_bytes ds @ r"
proof -
  have d: "drop p buf = fields_bytes (take 11 (goose_items self ds) @ (0xab, components_bytes ds) # []) @ r"
    using assms by (simp add: goose_fields_items goose_items_def)
  from item_content [OF this] show ?thesis by (simp add: d_pos_def)
qed

lemma length_dataset: "length (components_bytes ds) < length (goose_fields self ds)"
  by (simp add: goose_fields_def wire_simps)

lemma update_subscriber_received:
  assumes "drop p buf = goose_fields self ds @ r" and "gp_wf self"
    and "gs_dataSetValues s = None" and "\<not> gs_isObserver s" and "sub_ok s"
    and "mms_wf_components ds" and "components_goose_ok ds" and "length (goose_fields self ds) < 32768"
  shows "\<exists>zs. update_subscriber (received_locals p i self ds) buf now (received_names self s)
      = Some (received self now s zs) \<and> length zs = length ds \<and> components_equal ds zs = Some True \<and> fresh_formats ds zs \<and> components_valid zs"
proof -
  have "length (components_bytes ds) < 32768" using length_dataset [of ds self] assms(8) by simp
  with unknown_value_ok [OF assms(6,7) dataset_position [OF assms(1)], of "gs_dataSetValuesSelfAllocated s"] obtain zs where
    "parseAllDataUnknownValue (gs_dataSetValuesSelfAllocated s) (drop (d_pos p self ds) buf) (length (components_bytes ds)) False
      = Some (True, Some (MMS_ARRAY zs))" "length zs = length ds" "components_equal ds zs = Some True" "fresh_formats ds zs" "components_valid zs" by blast
  then show ?thesis
    using assms(3) unfolding update_subscriber_def update_header_received [OF assms(1,2,4,5), of i]
    by (intro exI [of _ zs])
       (simp add: parse_dataset_def received_locals_def received_names_def received_header_def received_def Let_def cong: if_cong)
qed

text \<open>
  The rest of the way is the same whatever happens to the data set: if the matching subscriber
  can take the fields of the PDU and ends in a state with property \<open>P\<close>, then the PDU, and the
  frame around it, does that.
\<close>

lemma receive_payload:
  assumes "plain_subs subs" and "find_ref (opt_bytes (gp_goCBRef self)) subs = Some i"
    and "length (goose_pdu self ds) < 65535"
    and upd: "\<And>q buf. drop q buf = goose_fields self ds @ r \<Longrightarrow>
      \<exists>t. update_subscriber (received_locals q i self ds) buf now (received_names self (subs ! i)) = Some t
        \<and> gs_listener t = gs_listener (subs ! i) \<and> P t"
  shows "\<exists>t. parseGoosePayload subs (goose_pdu self ds @ r) (length (goose_pdu self ds)) now
      = Some (1, subs[i := t], if gs_listener (subs ! i) then Some i else None) \<and> P t"
proof -
  let ?f = "goose_fields self ds" and ?buf = "goose_pdu self ds @ r" and ?n = "length (goose_pdu self ds)"
  let ?q = "1 + length (ber_len (length ?f))"
  have f: "length ?f < 65535" using assms(3) by (simp add: goose_pdu_def wire_simps)
  have d: "drop 0 ?buf = ber_tlv 0x61 ?f @ r" by (simp add: goose_pdu_def)
  have n: "?n < 2 ^ 31" "0 + length (ber_tlv 0x61 ?f) \<le> ?n" using assms(3) by (simp_all add: goose_pdu_def)
  note parts = tlv_parts [OF d f n(2,1)]
  have e: "?q + length ?f = ?n" by (simp add: goose_pdu_def wire_simps)
  have q: "drop ?q ?buf = ?f @ r" using parts(3) by simp
  have loop: "payload_loop ?buf ?n (?q + length ?f) ?q (payload_init, subs)
      = Some (Some (received_locals ?q i self ds), subs[i := received_names self (subs ! i)])"
    using payload_fields [OF q [unfolded goose_fields_items] refl _ n(1) goose_items_ok [OF assms(2,1) f]] e
      fold_goose_items [OF assms(2), of ?q ds]
    by (simp add: goose_fields_items)
  note i = find_ref_less [OF assms(2)]
  obtain t where t: "update_subscriber (received_locals ?q i self ds) ?buf now (received_names self (subs ! i)) = Some t"
      "gs_listener t = gs_listener (subs ! i)" "P t"
    using upd [OF q] by blast
  moreover have "pl_matchingSubscriber (received_locals ?q i self ds) = Some i" by (simp add: received_locals_def)
  ultimately show ?thesis using parts(1,2) loop i by (intro exI [of _ t]) (simp add: parseGoosePayload_def)
qed


subsection \<open>Frames\<close>

lemma parse_frame_header:
  assumes "length (dstAddress p) = 6" and "length srcAddr = 6" and "m < 65536" and "length res = 4" and "length pdu = n"
    and "m = n + 8"
  shows "\<exists>h. parse_eth_header (frame_header p srcAddr vlan @ [word_of_nat (m div 256), word_of_nat m] @ res @ pdu @ r)
      (length (frame_header p srcAddr vlan) + 6 + n) = Some (Some h)
    \<and> eh_appId h = unat (appId p) \<and> eh_srcMac h = srcAddr \<and> eh_dstMac h = dstAddress p \<and> eh_vlanSet h = vlan
    \<and> eh_payload h = length (frame_header p srcAddr vlan) + 6 \<and> eh_apduLength h = n"
proof -
  let ?L = "[word_of_nat (m div 256), word_of_nat m] :: u8 list"
  let ?A = "[0x88, 0xb8, word_of_nat (unat (appId p) div 256), word_of_nat (unat (appId p) mod 256)] :: u8 list"
  let ?buf = "frame_header p srcAddr vlan @ ?L @ res @ pdu @ r"
  have app: "unat (appId p) div 256 mod 256 * 256 + unat (appId p) mod 256 = unat (appId p)"
    using unsigned_less [of "appId p", where 'a = nat] by (simp add: div_less_iff_less_mult)
  have len: "m div 256 mod 256 * 256 + m mod 256 = m"
    using assms(3) by (simp add: div_less_iff_less_mult)
  have m: "n = m - 8" "8 \<le> m" using assms(6) by simp_all
  have mac: "rdn ?buf 0 6 = Some (dstAddress p)" "rdn ?buf 6 6 = Some srcAddr"
    using assms(1,2) by (auto simp: rdn_def frame_header_def)
  show ?thesis
  proof (cases vlan)
    case True
    have tail: "rd ?buf (12 + k) = rd (vlan_tag p @ ?A @ ?L @ res @ pdu @ r) k" for k
      using assms(1,2) True by (auto simp: rd_def frame_header_def nth_append)
    have lf: "length (frame_header p srcAddr vlan) = 20" using True assms by (simp add: frame_header_def vlan_tag_def)
    show ?thesis
      using tail [of 0] tail [of 1] tail [of 2] tail [of 3] tail [of 4] tail [of 5] tail [of 6] tail [of 7] tail [of 8] tail [of 9]
        mac lf len app True assms(3) m
      by (simp add: parse_eth_header_def Let_def rd_def vlan_tag_def)
  next
    case False
    have tail: "rd ?buf (12 + k) = rd (?A @ ?L @ res @ pdu @ r) k" for k
      using assms(1,2) False by (auto simp: rd_def frame_header_def nth_append)
    have lf: "length (frame_header p srcAddr vlan) = 16" using False assms by (simp add: frame_header_def)
    show ?thesis
      using tail [of 0] tail [of 1] tail [of 2] tail [of 3] tail [of 4] tail [of 5]
        mac lf len app False assms(3,4) m
      by (simp add: parse_eth_header_def Let_def rd_def)
  qed
qed


text \<open>Interest of a subscriber in the addresses of a frame.\<close>

definition interested :: "CommParameters \<Rightarrow> GooseSubscriber \<Rightarrow> bool" where
  "interested p s \<longleftrightarrow> (gs_appId s = - 1 \<or> gs_appId s = int (unat (appId p))) \<and> (\<not> gs_dstMacSet s \<or> gs_dstMac s = dstAddress p)"

lemma find_subscriber_plain:
  assumes "plain_subs subs"
  shows "find_subscriber (unat (appId p)) src (dstAddress p) vs vid prio subs = (list_ex (interested p) subs, subs)"
  using assms by (induction subs) (auto simp: plain_subs_def interested_def)

lemma frame_delivery:
  assumes "gp_wf self" and "gp_header self = frame_header p srcAddr vlan"
    and "length (dstAddress p) = 6" and "length srcAddr = 6" and "dataset_ok ds"
    and "gp_payloadStart self + length (goose_pdu self ds) \<le> GOOSE_MAX_MESSAGE_SIZE"
    and "plain_subs subs" and "list_ex (interested p) subs"
    and "find_ref (opt_bytes (gp_goCBRef self)) subs = Some i"
    and upd: "\<And>q buf. drop q buf = goose_fields self ds @ r \<Longrightarrow>
      \<exists>t. update_subscriber (received_locals q i self ds) buf now (received_names self (subs ! i)) = Some t
        \<and> gs_listener t = gs_listener (subs ! i) \<and> P t"
  shows "\<exists>packet t. GoosePublisher_publish self ds = Some (0, Some packet, snd (snd (the (GoosePublisher_publish self ds))))
    \<and> parseGooseMessage subs (packet @ r) (length packet) now
        = Some (subs[i := t], if gs_listener (subs ! i) then Some i else None) \<and> P t"
proof -
  have n: "length (goose_pdu self ds) < 65535" using assms(6) by (simp add: GOOSE_MAX_MESSAGE_SIZE_def)
  have pub: "GoosePublisher_publish self ds
      = Some (0, Some (goose_frame self ds), snd (snd (the (GoosePublisher_publish self ds))))"
    using publish_eq [OF assms(1,5) n] assms(6) by auto
  have st: "gp_payloadStart self = length (gp_header self) + 6" and res: "length (gp_reserved self) = 4"
    using assms(1) by (auto simp: gp_wf_def gp_header_def gp_reserved_def GOOSE_MAX_MESSAGE_SIZE_def)
  let ?n = "length (goose_pdu self ds)"
  have lf: "length (goose_frame self ds) = length (frame_header p srcAddr vlan) + 6 + ?n"
    using res assms(2) by (simp add: goose_frame_def Let_def)
  have fr: "goose_frame self ds @ r = frame_header p srcAddr vlan @ [word_of_nat ((?n + 8) div 256), word_of_nat (?n + 8)]
      @ gp_reserved self @ goose_pdu self ds @ r"
    using assms(2) by (simp add: goose_frame_def Let_def)
  obtain h where h: "parse_eth_header (goose_frame self ds @ r) (length (goose_frame self ds)) = Some (Some h)"
      "eh_appId h = unat (appId p)" "eh_srcMac h = srcAddr" "eh_dstMac h = dstAddress p"
      "eh_payload h = length (frame_header p srcAddr vlan) + 6" "eh_apduLength h = ?n"
    using parse_frame_header [OF assms(3,4) _ res refl refl, of "goose_pdu self ds" vlan r] assms(6)
    unfolding lf fr by (auto simp: GOOSE_MAX_MESSAGE_SIZE_def)
  have pay: "drop (eh_payload h) (goose_frame self ds @ r) = goose_pdu self ds @ r"
    unfolding fr using h(5) res by simp
  obtain t where t: "parseGoosePayload subs (goose_pdu self ds @ r) ?n now
      = Some (1, subs[i := t], if gs_listener (subs ! i) then Some i else None)" "P t"
    using receive_payload [OF assms(7,9) n, of r now P] upd by blast
  have "parseGooseMessage subs (goose_frame self ds @ r) (length (goose_frame self ds)) now
      = Some (subs[i := t], if gs_listener (subs ! i) then Some i else None)"
    using h pay t(1) find_subscriber_plain [OF assms(7), of p] assms(8) by (simp add: parseGooseMessage_def)
  with pub t(2) show ?thesis by blast
qed

lemma plain_nth:
  assumes "plain_subs subs" and "find_ref c subs = Some i"
  shows "sub_ok (subs ! i)" and "\<not> gs_isObserver (subs ! i)"
  using assms find_ref_less [OF assms(2)] by (auto simp: plain_subs_def list_all_length)

lemma fields_short:
  "gp_payloadStart self + length (goose_pdu self ds) \<le> GOOSE_MAX_MESSAGE_SIZE \<Longrightarrow> length (goose_fields self ds) < 32768"
  by (simp add: goose_pdu_def wire_simps GOOSE_MAX_MESSAGE_SIZE_def)

lemma delivery:
  assumes "gp_wf self" and "gp_header self = frame_header p srcAddr vlan"
    and "length (dstAddress p) = 6" and "length srcAddr = 6"
    and "dataset_ok ds" and "mms_wf_components ds" and "components_goose_ok ds"
    and "gp_payloadStart self + length (goose_pdu self ds) \<le> GOOSE_MAX_MESSAGE_SIZE"
    and "plain_subs subs" and "list_ex (interested p) subs"
    and "find_ref (opt_bytes (gp_goCBRef self)) subs = Some i" and "gs_dataSetValues (subs ! i) = None"
  shows "\<exists>packet self' zs. GoosePublisher_publish self ds = Some (0, Some packet, self')
    \<and> parseGooseMessage subs (packet @ r) (length packet) now
        = Some (subs[i := received self now (subs ! i) zs], if gs_listener (subs ! i) then Some i else None)
    \<and> length zs = length ds \<and> components_equal ds zs = Some True \<and> fresh_formats ds zs \<and> components_valid zs"
proof -
  let ?P = "\<lambda>t. \<exists>zs. t = received self now (subs ! i) zs \<and> length zs = length ds \<and> components_equal ds zs = Some True \<and> fresh_formats ds zs \<and> components_valid zs"
  have "\<exists>t. update_subscriber (received_locals q i self ds) buf now (received_names self (subs ! i)) = Some t
        \<and> gs_listener t = gs_listener (subs ! i) \<and> ?P t" if "drop q buf = goose_fields self ds @ r" for q buf
    using update_subscriber_received [OF that assms(1,12) plain_nth(2,1) [OF assms(9,11)] assms(6,7) fields_short [OF assms(8)], of i now]
    by (auto simp: received_def received_names_def)
  from frame_delivery [OF assms(1-5,8-11), of r now ?P, OF this] show ?thesis by blast
qed

text \<open>
  C2: End to end: a message that the publisher sends is delivered.  The packet that
  \<open>GoosePublisher_publish\<close> hands to the Ethernet layer, arriving at a receiver with a subscriber
  for the same control block reference that has no data set yet, updates exactly that
  subscriber: all header fields are those of the publisher, the data set is an array that
  \<open>MmsValue_equals\<close> component by component (floats of the same width, integers
  in buffers of at least four octets), the state is valid unless the state number is
  unchanged and the sequence number does not advance, the expiry time is the arrival time plus
  the time allowed to live, and the listener is called when one is set.
\<close>

theorem publish_receive:
  assumes "gp_wf self" and "gp_header self = frame_header p srcAddr vlan"
    and "length (dstAddress p) = 6" and "length srcAddr = 6"
    and "dataset_ok ds" and "mms_wf_components ds" and "components_goose_ok ds"
    and "gp_payloadStart self + length (goose_pdu self ds) \<le> GOOSE_MAX_MESSAGE_SIZE"
    and "plain_subs subs" and "list_ex (interested p) subs"
    and "find_ref (opt_bytes (gp_goCBRef self)) subs = Some i" and "gs_dataSetValues (subs ! i) = None"
  shows "\<exists>packet self' zs. GoosePublisher_publish self ds = Some (0, Some packet, self')
    \<and> parseGooseMessage subs (packet @ r) (length packet) now
        = Some (subs[i := received self now (subs ! i) zs], if gs_listener (subs ! i) then Some i else None)
    \<and> length zs = length ds \<and> components_equal ds zs = Some True \<and> fresh_formats ds zs"
  using delivery [OF assms, of r now] by blast

definition sample_publisher :: GoosePublisher where
  "sample_publisher = GoosePublisher_calloc\<lparr>gp_buffer := frame_header default_parameters [2, 0, 0, 0, 0, 1] True
       @ [0, 8, 0, 0, 0, 0] @ replicate 1492 0,
     gp_ethernetSocket := True, gp_lengthField := 20, gp_payloadStart := 26, gp_goCBRef := Some [103, 49],
     gp_stNum := 1\<rparr>"

definition sample_subscriber :: GooseSubscriber where
  "sample_subscriber = the (GooseSubscriber_create 0 [103, 49] None)"

lemma sample_publisher_wf: "gp_wf sample_publisher"
  "gp_header sample_publisher = frame_header default_parameters [2, 0, 0, 0, 0, 1] True"
  by (simp_all add: sample_publisher_def gp_wf_def gp_header_def GoosePublisher_calloc_def GOOSE_MAX_MESSAGE_SIZE_def
      frame_header_def vlan_tag_def default_parameters_def)

lemma sample_subscriber_ok:
  "plain_subs [sample_subscriber]" "find_ref [103, 49] [sample_subscriber] = Some 0"
  "gs_dataSetValues sample_subscriber = None" "gs_listener sample_subscriber = False"
  "interested default_parameters sample_subscriber"
  using copyStringMax_short [of "[103, 49]" 130 0]
  by (simp_all add: sample_subscriber_def GooseSubscriber_create_def plain_subs_def sub_ok_def gs_wf_def
      MmsValue_newUtcTime_def interested_def)

lemma sample_pdu_small: "length (goose_pdu sample_publisher [Some (MMS_BOOLEAN True)]) < 200"
  using length_ber_u32 [of 0] length_ber_u32 [of 1]
  by (simp add: goose_pdu_def goose_fields_def sample_publisher_def GoosePublisher_calloc_def goose_goID_def ber_string_def
      wire_simps length_ber_len)

lemma sample_delivery_facts:
  "length (dstAddress default_parameters) = 6" "length [2, 0, 0, 0, 0, 1 :: u8] = 6"
  "dataset_ok [Some (MMS_BOOLEAN True)]" "mms_wf_components [Some (MMS_BOOLEAN True)]"
  "components_goose_ok [Some (MMS_BOOLEAN True)]"
  "gp_payloadStart sample_publisher + length (goose_pdu sample_publisher [Some (MMS_BOOLEAN True)]) \<le> GOOSE_MAX_MESSAGE_SIZE"
  using sample_pdu_small sample_publisher_wf(1) by (auto simp: gp_wf_def GOOSE_MAX_MESSAGE_SIZE_def default_parameters_def)

theorem publish_receive_witness:
  "\<exists>packet self' zs. GoosePublisher_publish sample_publisher [Some (MMS_BOOLEAN True)] = Some (0, Some packet, self')
    \<and> parseGooseMessage [sample_subscriber] (packet @ []) (length packet) 7
        = Some ([sample_subscriber][0 := received sample_publisher 7 ([sample_subscriber] ! 0) zs], None)
    \<and> components_equal [Some (MMS_BOOLEAN True)] zs = Some True"
proof -
  have subs: "list_ex (interested default_parameters) [sample_subscriber]"
    "find_ref (opt_bytes (gp_goCBRef sample_publisher)) [sample_subscriber] = Some 0"
    "gs_dataSetValues ([sample_subscriber] ! 0) = None"
    using sample_subscriber_ok by (simp_all add: opt_bytes_def sample_publisher_def)
  show ?thesis
    using publish_receive [OF sample_publisher_wf sample_delivery_facts sample_subscriber_ok(1) subs, of "[]" 7] sample_subscriber_ok(4)
    by (simp only: nth_Cons_0 if_False) blast
qed

subsection \<open>Validity and limits of the receiver\<close>

lemma sample_subscriber_fields:
  "gs_stNum sample_subscriber = 0" "gs_sqNum sample_subscriber = 0" "gs_isObserver sample_subscriber = False"
  "gs_timestamp sample_subscriber = MMS_UTC_TIME [0, 0, 0, 0, 0, 0, 0, 0]"
  using copyStringMax_short [of "[103, 49]" 130 0]
  by (simp_all add: sample_subscriber_def GooseSubscriber_create_def MmsValue_newUtcTime_def be32_def mem32_def)

text \<open>What the arrival of a message fixes, whatever data set the subscriber holds and whether or not the data can be parsed.\<close>

definition same_filter :: "GooseSubscriber \<Rightarrow> GooseSubscriber \<Rightarrow> bool" where
  "same_filter s t \<longleftrightarrow> gs_goCBRef t = gs_goCBRef s \<and> gs_goCBRefLen t = gs_goCBRefLen s \<and> gs_appId t = gs_appId s
     \<and> gs_dstMacSet t = gs_dstMacSet s \<and> gs_dstMac t = gs_dstMac s \<and> gs_isObserver t = gs_isObserver s"

definition arrived :: "GoosePublisher \<Rightarrow> u64 \<Rightarrow> GooseSubscriber \<Rightarrow> GooseSubscriber \<Rightarrow> bool" where
  "arrived self now s t \<longleftrightarrow> sub_ok t \<and> same_filter s t \<and> gs_listener t = gs_listener s
     \<and> gs_stNum t = gp_stNum self \<and> gs_sqNum t = gp_sqNum self
     \<and> gs_invalidityTime t = now + ucast (gp_timeAllowedToLive self)
     \<and> (gs_stNum s = gp_stNum self \<and> gp_sqNum self \<le> gs_sqNum s \<longrightarrow> \<not> gs_stateValid t)"

lemma parse_dataset_keeps:
  assumes "parse_dataset l buf h = Some (b, t)"
  shows "same_filter h t" and "gs_stNum t = gs_stNum h" and "gs_sqNum t = gs_sqNum h"
  using assms by (auto simp: parse_dataset_def same_filter_def split: bind_splits option.splits)

lemma received_header_ok: "sub_ok s \<Longrightarrow> gp_wf self \<Longrightarrow> sub_ok (received_header self s)"
  by (auto simp: received_header_def received_names_def sub_ok_def gs_wf_def gp_wf_def name_sem_def split: if_splits)

lemma update_subscriber_arrived:
  assumes "drop q buf = goose_fields self ds @ r" and "gp_wf self" and "\<not> gs_isObserver s" and "sub_ok s"
    and "length (goose_fields self ds) < 32768" and "r \<noteq> []"
  shows "\<exists>t. update_subscriber (received_locals q i self ds) buf now (received_names self s) = Some t \<and> arrived self now s t"
proof -
  let ?l = "received_locals q i self ds" and ?h = "received_header self s"
  note h = update_header_received [OF assms(1-4), of i]
  have "sub_ok ?h" by (rule received_header_ok [OF assms(4,2)])
  moreover have "pl_dataSetBufferLength ?l + 1 \<le> length (drop (pl_dataSetBufferAddress ?l) buf)"
    using dataset_position [OF assms(1)] assms(6) by (cases r) (simp_all add: received_locals_def)
  moreover have "pl_dataSetBufferLength ?l < 32768"
    using length_dataset [of ds self] assms(5) by (simp add: received_locals_def)
  ultimately obtain b t where t: "parse_dataset ?l buf ?h = Some (b, t)" "sub_ok t" "gs_listener t = gs_listener ?h"
    using parse_dataset_bounded by blast
  have s: "same_filter s ?h" "gs_stNum ?h = gs_stNum s" "gs_sqNum ?h = gs_sqNum s" "gs_listener ?h = gs_listener s"
    by (simp_all add: received_header_def received_names_def same_filter_def)
  from parse_dataset_keeps [OF t(1)] s t(2,3) have "arrived self now s (t\<lparr>gs_stateValid :=
        (if gs_stNum t = pl_stNum ?l \<and> pl_sqNum ?l \<le> gs_sqNum t then False else b), gs_stNum := pl_stNum ?l,
        gs_sqNum := pl_sqNum ?l, gs_invalidityTime := now + ucast (pl_timeAllowedToLive ?l)\<rparr>)"
    by (auto simp: arrived_def same_filter_def received_locals_def sub_ok_def gs_wf_def)
  then show ?thesis by (simp add: update_subscriber_def h t(1) Let_def)
qed

lemma frame_arrives:
  assumes "gp_wf self" and "gp_header self = frame_header p srcAddr vlan"
    and "length (dstAddress p) = 6" and "length srcAddr = 6" and "dataset_ok ds"
    and "gp_payloadStart self + length (goose_pdu self ds) \<le> GOOSE_MAX_MESSAGE_SIZE"
    and "plain_subs subs" and "list_ex (interested p) subs"
    and "find_ref (opt_bytes (gp_goCBRef self)) subs = Some i" and "r \<noteq> []"
  shows "\<exists>packet t. GoosePublisher_publish self ds = Some (0, Some packet, snd (snd (the (GoosePublisher_publish self ds))))
    \<and> parseGooseMessage subs (packet @ r) (length packet) now
        = Some (subs[i := t], if gs_listener (subs ! i) then Some i else None) \<and> arrived self now (subs ! i) t"
proof -
  have "\<exists>t. update_subscriber (received_locals q i self ds) buf now (received_names self (subs ! i)) = Some t
        \<and> gs_listener t = gs_listener (subs ! i) \<and> arrived self now (subs ! i) t"
    if "drop q buf = goose_fields self ds @ r" for q buf
    using update_subscriber_arrived [OF that assms(1) plain_nth(2,1) [OF assms(7,9)] fields_short [OF assms(6)] assms(10), of i now]
    by (auto simp: arrived_def)
  from frame_delivery [OF assms(1-9), of r now "arrived self now (subs ! i)", OF this] show ?thesis by blast
qed

lemma find_ref_update:
  assumes "same_filter (subs ! i) t" and "i < length subs"
  shows "find_ref c (subs[i := t]) = find_ref c subs"
  using assms by (induction subs arbitrary: i) (auto simp: same_filter_def nth_Cons' split: nat.splits)

lemma arrived_subs:
  assumes "plain_subs subs" and "list_ex (interested p) subs" and "i < length subs" and "arrived self now (subs ! i) t"
  shows "plain_subs (subs[i := t])" and "list_ex (interested p) (subs[i := t])"
proof -
  show "plain_subs (subs[i := t])"
    using assms by (auto simp: plain_subs_def list_all_length nth_list_update arrived_def same_filter_def)
  have "interested p (subs[i := t] ! k) = interested p (subs ! k)" if "k < length subs" for k
    using assms(3,4) that by (cases "k = i") (simp_all add: arrived_def same_filter_def interested_def)
  with assms(2) show "list_ex (interested p) (subs[i := t])" by (auto simp: list_ex_length)
qed

text \<open>
  C35: Replay and expiry of messages.  Let the packet of a publisher arrive at a receiver with a subscriber
  for its control block, whatever the subscriber has received before and whether or not the data fit
  its data set.  The subscriber takes over the state and sequence number of the message; it is invalid at any
  time if the message repeats its state number without advancing its sequence number; it is invalid
  once the arrival time plus the announced time to live has passed; and the same packet arriving a second time
  leaves it invalid.  One octet of the receive buffer lies behind the packet.
\<close>

theorem stale_or_expired_invalid:
  assumes "gp_wf self" and "gp_header self = frame_header p srcAddr vlan"
    and "length (dstAddress p) = 6" and "length srcAddr = 6" and "dataset_ok ds"
    and "gp_payloadStart self + length (goose_pdu self ds) \<le> GOOSE_MAX_MESSAGE_SIZE"
    and "plain_subs subs" and "list_ex (interested p) subs"
    and "find_ref (opt_bytes (gp_goCBRef self)) subs = Some i" and "r \<noteq> []"
  shows "\<exists>packet self' t u. GoosePublisher_publish self ds = Some (0, Some packet, self')
    \<and> parseGooseMessage subs (packet @ r) (length packet) now
        = Some (subs[i := t], if gs_listener (subs ! i) then Some i else None)
    \<and> gs_stNum t = gp_stNum self \<and> gs_sqNum t = gp_sqNum self
    \<and> (gs_stNum (subs ! i) = gp_stNum self \<and> gp_sqNum self \<le> gs_sqNum (subs ! i) \<longrightarrow> (\<forall>later. \<not> GooseSubscriber_isValid t later))
    \<and> (\<forall>later. now + ucast (gp_timeAllowedToLive self) < later \<longrightarrow> \<not> GooseSubscriber_isValid t later)
    \<and> parseGooseMessage (subs[i := t]) (packet @ r) (length packet) again
        = Some (subs[i := u], if gs_listener (subs ! i) then Some i else None)
    \<and> (\<forall>later. \<not> GooseSubscriber_isValid u later)"
proof -
  note i = find_ref_less [OF assms(9)]
  obtain packet t where t: "GoosePublisher_publish self ds = Some (0, Some packet, snd (snd (the (GoosePublisher_publish self ds))))"
    "parseGooseMessage subs (packet @ r) (length packet) now = Some (subs[i := t], if gs_listener (subs ! i) then Some i else None)"
    "arrived self now (subs ! i) t"
    using frame_arrives [OF assms, of now] by blast
  have f: "find_ref (opt_bytes (gp_goCBRef self)) (subs[i := t]) = Some i"
    using find_ref_update [of subs i t] t(3) i assms(9) by (simp add: arrived_def)
  from frame_arrives [OF assms(1-6) arrived_subs [OF assms(7,8) i t(3)] f assms(10), of again] obtain packet' u where
    u': "GoosePublisher_publish self ds = Some (0, Some packet', snd (snd (the (GoosePublisher_publish self ds))))"
      "parseGooseMessage (subs[i := t]) (packet' @ r) (length packet') again
        = Some (subs[i := u], if gs_listener t then Some i else None)" "arrived self again t u"
    using i by auto
  have "packet' = packet" using t(1) u'(1) by (metis option.inject prod.inject)
  with u' have u: "parseGooseMessage (subs[i := t]) (packet @ r) (length packet) again
        = Some (subs[i := u], if gs_listener t then Some i else None)" "arrived self again t u" by simp_all
  have "gs_listener t = gs_listener (subs ! i)" using t(3) by (simp add: arrived_def)
  moreover have "\<not> gs_stateValid u" using u(2) t(3) by (simp add: arrived_def)
  ultimately show ?thesis using t u(1)
    by (intro exI [of _ packet] exI [of _ "snd (snd (the (GoosePublisher_publish self ds)))"] exI [of _ t] exI [of _ u])
       (auto simp: arrived_def GooseSubscriber_isValid_def)
qed

theorem stale_or_expired_invalid_witness:
  "\<exists>packet self' t u. GoosePublisher_publish sample_publisher [Some (MMS_BOOLEAN True)] = Some (0, Some packet, self')
    \<and> parseGooseMessage [sample_subscriber] (packet @ [0]) (length packet) 7 = Some ([t], None) \<and> gs_stNum t = 1
    \<and> \<not> GooseSubscriber_isValid t (8 + ucast (gp_timeAllowedToLive sample_publisher))
    \<and> parseGooseMessage [t] (packet @ [0]) (length packet) 8 = Some ([u], None) \<and> \<not> GooseSubscriber_isValid u 8"
proof -
  have subs: "list_ex (interested default_parameters) [sample_subscriber]"
    "find_ref (opt_bytes (gp_goCBRef sample_publisher)) [sample_subscriber] = Some 0" "[0 :: u8] \<noteq> []"
    "gs_listener sample_subscriber = False" "gp_stNum sample_publisher = 1" "gp_timeAllowedToLive sample_publisher = 0"
    using sample_subscriber_ok by (simp_all add: opt_bytes_def sample_publisher_def GoosePublisher_calloc_def)
  have late: "(7 :: u64) < 8" by simp
  show ?thesis
    using stale_or_expired_invalid [OF sample_publisher_wf sample_delivery_facts(1-3,6) sample_subscriber_ok(1) subs(1-3), of 7 8]
    by (simp add: subs(4-6)) (use late in blast)
qed

text \<open>
  A first message whose data cannot be parsed is still reported as valid, with no data set: the
  failure of \<open>parseAllDataUnknownValue\<close> does not reach \<open>stateValid\<close> or \<open>parseError\<close>.
\<close>

theorem unparsable_first_message_valid:
  assumes "update_header l buf s = Some h" and "gs_dataSetValues h = None"
    and "parseAllDataUnknownValue (gs_dataSetValuesSelfAllocated h) (drop (pl_dataSetBufferAddress l) buf)
           (pl_dataSetBufferLength l) False = Some (f, None)"
    and "gs_stNum h \<noteq> pl_stNum l"
  shows "\<exists>t. update_subscriber l buf now s = Some t \<and> gs_stateValid t \<and> gs_dataSetValues t = None
    \<and> gs_parseError t = gs_parseError h"
  using assms by (simp add: update_subscriber_def parse_dataset_def Let_def)

theorem unparsable_first_message_valid_witness:
  "\<exists>t. update_subscriber (payload_init\<lparr>pl_stNum := 1, pl_dataSetBufferLength := 1\<rparr>) [0x83] 0 sample_subscriber = Some t
    \<and> gs_stateValid t \<and> gs_dataSetValues t = None"
proof -
  let ?l = "payload_init\<lparr>pl_stNum := 1, pl_dataSetBufferLength := 1\<rparr>"
  have len: "BerDecoder_decodeLength [0x83] (Suc 0) (Suc 0) = Some LenErr"
    using ber.rejects_at_end [of 1 "[0x83]" 1] by simp
  have p: "parseAllDataUnknownValue x (drop (pl_dataSetBufferAddress ?l) [0x83]) (pl_dataSetBufferLength ?l) False = Some (x, None)" for x
    using len by (simp add: payload_init_def parseAllDataUnknownValue.simps count_loop.simps [of _ _ 0] rd_def)
  let ?h = "sample_subscriber\<lparr>gs_timeAllowedToLive := 0, gs_ndsCom := False, gs_simulation := False, gs_confRev := 0,
     gs_timestamp := MMS_UTC_TIME [0, 0, 0, 0, 0, 0, 0, 0]\<rparr>"
  have h: "update_header ?l [0x83] sample_subscriber = Some ?h"
    by (simp add: update_header_def sample_subscriber_fields sample_subscriber_ok(3) payload_init_def be32_def mem32_def
        overlay_def)
  show ?thesis
    using unparsable_first_message_valid [OF h _ p, of 0]
    by (auto simp: sample_subscriber_fields sample_subscriber_ok(3) payload_init_def)
qed


text \<open>
  The address filter is not applied per subscriber.  A subscriber restricted to another
  application id receives a message for its control block as soon as any other subscriber of the
  same receiver accepts the addresses of the frame.
\<close>

theorem address_filter_not_per_subscriber:
  "\<exists>packet self' subs t called. GoosePublisher_publish sample_publisher [Some (MMS_BOOLEAN True)] = Some (0, Some packet, self')
    \<and> subs = [the (GooseSubscriber_create 0 [120] None), GooseSubscriber_setAppId sample_subscriber 1]
    \<and> \<not> interested default_parameters (subs ! 1)
    \<and> parseGooseMessage subs packet (length packet) 7 = Some ([subs ! 0, t], called) \<and> gs_stNum t = 1 \<and> gs_stateValid t"
proof -
  define other where "other = the (GooseSubscriber_create 0 [120] None)"
  let ?s = "GooseSubscriber_setAppId sample_subscriber 1"
  have o: "plain_subs [other]" "find_ref [103, 49] [other] = None" "interested default_parameters other"
    using copyStringMax_short [of "[120]" 130 0]
    by (simp_all add: other_def GooseSubscriber_create_def plain_subs_def sub_ok_def gs_wf_def MmsValue_newUtcTime_def
        interested_def)
  have s: "plain_subs [other, ?s]" "list_ex (interested default_parameters) [other, ?s]"
    "find_ref (opt_bytes (gp_goCBRef sample_publisher)) [other, ?s] = Some 1" "gs_dataSetValues ([other, ?s] ! 1) = None"
    using o sample_subscriber_ok
    by (auto simp: plain_subs_def GooseSubscriber_setAppId_def sub_ok_def gs_wf_def opt_bytes_def sample_publisher_def
        split: if_splits)
  have i: "\<not> interested default_parameters ?s"
    by (simp add: interested_def GooseSubscriber_setAppId_def default_parameters_def)
  obtain packet self' zs where r: "GoosePublisher_publish sample_publisher [Some (MMS_BOOLEAN True)] = Some (0, Some packet, self')"
    "parseGooseMessage [other, ?s] (packet @ []) (length packet) 7
      = Some ([other, ?s][1 := received sample_publisher 7 ([other, ?s] ! 1) zs], if gs_listener ([other, ?s] ! 1) then Some 1 else None)"
    using delivery [OF sample_publisher_wf sample_delivery_facts s, of "[]" 7] by blast
  have "gs_stNum (received sample_publisher 7 ?s zs) = 1" "gs_stateValid (received sample_publisher 7 ?s zs)"
    by (simp_all add: received_def received_names_def sample_publisher_def GooseSubscriber_setAppId_def sample_subscriber_fields)
  with r i show ?thesis unfolding other_def [symmetric]
    by (intro exI [of _ packet] exI [of _ self'] exI [of _ "[other, ?s]"]) auto
qed


text \<open>
  A frame that fills its buffer can make the receiver read beyond it: the length of the time
  stamp field is not checked, so a field of length zero at the end of the frame is read as eight
  octets.
\<close>

theorem short_timestamp_overread:
  "parseGooseMessage [the (GooseSubscriber_create 0 [] None)]
     [0, 0, 0, 0, 0, 0, 0, 0, 0, 0, 0, 0, 0x88, 0xb8, 0, 1, 0, 14, 0, 0, 0, 0, 0x61, 4, 0x80, 0, 0x84, 0] 28 now = None"
proof -
  define s where "s = the (GooseSubscriber_create 0 [] None)"
  let ?buf = "[0x61, 4, 0x80, 0, 0x84, 0] :: u8 list"
  let ?fs = "[(0x80, []), (0x84, [])] :: (u8 \<times> bytes) list"
  have s: "plain_subs [s]" "find_ref [] [s] = Some 0" "interested default_parameters s" "gs_isObserver s = False"
    "gs_appId s = - 1" "gs_dstMacSet s = False"
    "\<exists>t. gs_timestamp s = MMS_UTC_TIME t" "gs_dataSetValues s = None"
    using copyStringMax_short [of "[]" 130 0]
    by (simp_all add: s_def GooseSubscriber_create_def plain_subs_def sub_ok_def gs_wf_def MmsValue_newUtcTime_def interested_def)
  have ff: "fold_fields 2 ?fs (payload_init, [s]) = (payload_init\<lparr>pl_matchingSubscriber := Some 0, pl_timestampBufPos := Some 6\<rparr>, [s])"
    using s(2) by (simp add: field_sem_simps ber_tlv_def ber_len_def)
  have fo: "fields_ok 2 ?fs (payload_init, [s])"
    using s(1,2) by (simp add: field_ok_def field_sem_simps payload_init_def)
  have loop: "payload_loop ?buf 6 6 2 (payload_init, [s])
      = Some (Some (payload_init\<lparr>pl_matchingSubscriber := Some 0, pl_timestampBufPos := Some 6\<rparr>), [s])"
    using payload_fields [of 2 ?buf ?fs "[]" 6 6 "(payload_init, [s])"] ff fo by (simp add: ber_tlv_def ber_len_def)
  have len: "BerDecoder_decodeLength ?buf (Suc 0) 6 = Some (LenOk 2 4)"
    using decodeLength_short [of 1 ?buf 4 "[0x80, 0, 0x84, 0]" 6] by simp
  have upd: "update_subscriber (payload_init\<lparr>pl_matchingSubscriber := Some 0, pl_timestampBufPos := Some 6\<rparr>) ?buf now s = None"
    using s(7,8) by (auto simp: update_subscriber_def update_header_def payload_init_def rdn_def)
  have pay: "parseGoosePayload [s] ?buf 6 now = None"
    using len loop upd by (simp add: parseGoosePayload_def rd_def)
  show ?thesis
    using pay s unfolding s_def [symmetric]
    by (simp add: parseGooseMessage_def parse_eth_header_def rd_def rdn_def)
qed

text \<open>
  The receiver does not report the VLAN tag that the publisher writes: for the default
  priority 4 it reports priority 0, and for VLAN 2048 it reports VLAN 0.
\<close>

theorem vlan_tag_misread:
  "map_option (map_option (\<lambda>h. (eh_vlanSet h, eh_priority h, eh_vlanId h)))
     (parse_eth_header (frame_header (default_parameters\<lparr>vlanId := 2048\<rparr>) [2, 0, 0, 0, 0, 1] True @ [0, 8, 0, 0, 0, 0]) 26)
     = Some (Some (True, 0, 0))
   \<and> vlanPriority default_parameters = 4"
  by (simp add: parse_eth_header_def frame_header_def vlan_tag_def default_parameters_def rd_def rdn_def)

end
