(* ===== verification/GooseRepeat.thy ===== *)
theory GooseRepeat
  imports GooseExchange
begin

text \<open>
  Later messages of a GOOSE stream.  The first message builds the data set of a subscriber; from then
  on \<open>parseAllData\<close> stores the received values into it.  The lemmas say when a value fits into a slot
  of the data set and that a message whose values fit is delivered like the first one.
\<close>

subsection \<open>Slots of a data set\<close>

text \<open>\<open>fits w v\<close>: the slot that holds \<open>w\<close> can take over the value \<open>v\<close>.\<close>

fun fits :: "MmsValue \<Rightarrow> MmsValue \<Rightarrow> bool"
  and components_fit :: "MmsValue option list \<Rightarrow> MmsValue option list \<Rightarrow> bool" where
  "fits w (MMS_ARRAY vs) = (case w of MMS_ARRAY ws \<Rightarrow> components_fit ws vs | _ \<Rightarrow> False)"
| "fits w (MMS_STRUCTURE vs) = (case w of MMS_STRUCTURE ws \<Rightarrow> components_fit ws vs | _ \<Rightarrow> False)"
| "fits w (MMS_BOOLEAN _) = (case w of MMS_BOOLEAN _ \<Rightarrow> True | _ \<Rightarrow> False)"
| "fits w (MMS_BIT_STRING n _) = (case w of MMS_BIT_STRING m _ \<Rightarrow> m = n | _ \<Rightarrow> False)"
| "fits w (MMS_INTEGER b) = (case w of MMS_INTEGER a \<Rightarrow> asn1_size b \<le> asn1_maxSize a | _ \<Rightarrow> False)"
| "fits w (MMS_UNSIGNED b) = (case w of MMS_UNSIGNED a \<Rightarrow> asn1_size b \<le> asn1_maxSize a | _ \<Rightarrow> False)"
| "fits w (MMS_FLOAT _ f _) = (case w of MMS_FLOAT _ g _ \<Rightarrow> g = f | _ \<Rightarrow> False)"
| "fits w (MMS_OCTET_STRING _ _ _) = (case w of MMS_OCTET_STRING _ _ _ \<Rightarrow> True | _ \<Rightarrow> False)"
| "fits w (MMS_VISIBLE_STRING _ _) = (case w of MMS_VISIBLE_STRING _ _ \<Rightarrow> True | _ \<Rightarrow> False)"
| "fits w (MMS_BINARY_TIME n _) = (case w of MMS_BINARY_TIME m _ \<Rightarrow> m = n | _ \<Rightarrow> False)"
| "fits w (MMS_UTC_TIME _) = (case w of MMS_UTC_TIME _ \<Rightarrow> True | _ \<Rightarrow> False)"
| "fits w _ = False"
| "components_fit ws [] = (ws = [])"
| "components_fit ws (v # vs) =
     (case ws of Some w # ws' \<Rightarrow> (case v of Some u \<Rightarrow> fits w u | None \<Rightarrow> False) \<and> components_fit ws' vs | _ \<Rightarrow> False)"

lemma components_fit_length: "components_fit ws vs \<Longrightarrow> length ws = length vs"
  by (induction vs arbitrary: ws) (auto split: list.splits option.splits)

text \<open>Only the type and the capacity of a slot decide what fits into it.\<close>

lemma fits_slot:
  "fits (MMS_BOOLEAN a) u = fits (MMS_BOOLEAN b) u"
  "fits (MMS_BIT_STRING n x) u = fits (MMS_BIT_STRING n y) u"
  "asn1_maxSize i = asn1_maxSize j \<Longrightarrow> fits (MMS_INTEGER i) u = fits (MMS_INTEGER j) u"
  "asn1_maxSize i = asn1_maxSize j \<Longrightarrow> fits (MMS_UNSIGNED i) u = fits (MMS_UNSIGNED j) u"
  "fits (MMS_FLOAT e f x) u = fits (MMS_FLOAT e' f y) u"
  "fits (MMS_OCTET_STRING k l x) u = fits (MMS_OCTET_STRING k' l' y) u"
  "fits (MMS_VISIBLE_STRING s m) u = fits (MMS_VISIBLE_STRING s' m') u"
  "fits (MMS_BINARY_TIME n x) u = fits (MMS_BINARY_TIME n y) u"
  "fits (MMS_UTC_TIME x) u = fits (MMS_UTC_TIME y) u"
  by (cases u; simp)+

definition stored :: "(GooseParseError \<times> MmsValue) option \<Rightarrow> MmsValue \<Rightarrow> MmsValue \<Rightarrow> bool" where
  "stored result w v \<longleftrightarrow> (\<exists>x. result = Some (GOOSE_PARSE_ERROR_NO_ERROR, x) \<and> MmsValue_equals v x = Some True
     \<and> same_format v x \<and> mms_valid x \<and> (\<forall>u. fits w u \<longrightarrow> fits x u))"

lemma stored_integer:
  assumes "asn1_wf a" and "asn1_wf c" and "asn1_size a \<le> asn1_maxSize c" and "rdn buf p (asn1_size a) = Some (asn1_used a)"
  shows "stored (parse_scalar 0x85 buf p (asn1_size a) (MMS_INTEGER c)) (MMS_INTEGER c) (MMS_INTEGER a)"
    and "stored (parse_scalar 0x86 buf p (asn1_size a) (MMS_UNSIGNED c)) (MMS_UNSIGNED c) (MMS_UNSIGNED a)"
proof -
  have "length (asn1_used a) \<le> asn1_maxSize c" using assms rdn_length by fastforce
  from asn1_store_ok [OF assms(2) this] obtain d where
    d: "asn1_store c (asn1_used a) = Some d" "asn1_wf d" "asn1_used d = asn1_used a" "asn1_maxSize c = asn1_maxSize d" by auto
  with assms fits_slot(3,4) [OF d(4)]
  show "stored (parse_scalar 0x85 buf p (asn1_size a) (MMS_INTEGER c)) (MMS_INTEGER c) (MMS_INTEGER a)"
    and "stored (parse_scalar 0x86 buf p (asn1_size a) (MMS_UNSIGNED c)) (MMS_UNSIGNED c) (MMS_UNSIGNED a)"
    by (auto simp: stored_def parse_scalar_def compare_wf same_format_def)
qed

lemma stored_bits:
  assumes "length bits = bitStringByteSize n" and "wire_ok (MMS_BIT_STRING n bits)" and "length old = bitStringByteSize n"
    and "drop p buf = ber_bits_content n bits @ r"
  shows "stored (parse_scalar 0x84 buf p (length (ber_bits_content n bits)) (MMS_BIT_STRING n old))
    (MMS_BIT_STRING n old) (MMS_BIT_STRING n bits)"
proof -
  obtain k where k: "bitStringByteSize n * 8 = n + k" "length (ber_bits_content n bits) = Suc (length bits)"
      "rd buf p = Some (word_of_nat k)" "rdn buf (Suc p) (length bits) = Some bits"
      "unat (word_of_nat k :: u8) = k" "\<not> 7 < (word_of_nat k :: u8)"
    using bits_read [OF assms(1,2,4)] by metis
  have "8 * int (length bits) - int k = int n" using k(1) assms(1) by simp
  then show ?thesis using k assms fits_slot(2) [of n old _ bits]
    by (simp add: stored_def parse_scalar_def puts_eq overlay_def mem_eq_prefix same_format_def)
qed

lemma stored_float:
  assumes "f = 32 \<or> f = 64" and "length mem = 8" and "length old = 8" and "drop p buf = ber_float_content mem f e @ r"
  shows "stored (parse_scalar 0x87 buf p (length (ber_float_content mem f e)) (MMS_FLOAT e' f old)) (MMS_FLOAT e' f old) (MMS_FLOAT e f mem)"
proof -
  have tl: "drop (Suc p) buf = rev (take (f div 8) mem) @ r" and "rd buf p = Some e"
    using assms(4) by (auto simp: ber_float_content_def intro: drop_tail drop_read_Cons)
  then have "Suc p \<le> length buf" by (auto simp: rd_def split: if_splits)
  with drop_read [OF tl] assms have "rdn buf (p + 1) (f div 8) = Some (rev (take (f div 8) mem))" by auto
  with assms show ?thesis
    by (auto simp: stored_def parse_scalar_def length_ber_float BerDecoder_decodeDouble_def BerDecoder_decodeFloat_def
        mem_eq_prefix overlay_def same_format_def elim: fits_slot(5) [THEN iffD1])
qed

lemma stored_string:
  assumes "string_wf b n" and "b \<noteq> None" and "string_wf old m" and "p \<le> length buf"
    and "c = mms_content (MMS_VISIBLE_STRING b n)" and "rdn buf p (length c) = Some c" and "length c < 32768"
  shows "stored (parse_scalar 0x8a buf p (length c) (MMS_VISIBLE_STRING old m)) (MMS_VISIBLE_STRING old m) (MMS_VISIBLE_STRING b n)"
proof -
  obtain s x where s: "b = Some x" "cstr x = Some s" "0 \<notin> set s" using string_content [OF assms(1,2)] by blast
  then have c: "c = s" using assms(5) by simp
  have new: "createNewStringFromBufferElement (drop p buf) (length s) = Some (MMS_VISIBLE_STRING (Some (s @ [0])) (to_int16 (int (length s))))"
    using assms(4,6) c by (simp add: createNewStringFromBufferElement_def)
  show ?thesis
  proof (cases "\<exists>o'. old = Some o' \<and> int (length s) \<le> m")
    case True
    then obtain o' where o: "old = Some o'" "length s + 1 \<le> length o'" "length o' = nat m + 1" using assms(3) by (auto simp: string_wf_def)
    with True s c assms(6) puts_bind_puts [of s o' 0 "[0]"] fits_slot(7) [of old m] show ?thesis
      by (auto simp: stored_def parse_scalar_def put_eq_puts puts_eq overlay_def string_bufs_equal_def same_format_def
          string_wf_def)
  next
    case False
    with new s c fits_slot(7) [of old m] assms(7) show ?thesis
      by (cases old) (auto simp: stored_def parse_scalar_def string_bufs_equal_def same_format_def string_wf_def to_int16_def)
  qed
qed

lemma parse_scalar_fits:
  assumes "is_scalar v" and "mms_wf v" and "goose_ok v" and "mms_wf w" and "fits w v"
    and "drop p buf = mms_content v @ r" and "p \<le> length buf" and "length (mms_content v) < 32768"
  shows "stored (parse_scalar (mms_tag v) buf p (length (mms_content v)) w) w v"
proof -
  have rd: "rdn buf p (length (mms_content v)) = Some (mms_content v)"
    using assms by (intro drop_read)
  show ?thesis
  proof (cases v)
    case (MMS_BOOLEAN b)
    with assms obtain c where w: "w = MMS_BOOLEAN c" by (auto split: MmsValue.splits)
    then show ?thesis using assms(6) MMS_BOOLEAN fits_slot(1) [of c _ b]
      by (auto simp: stored_def parse_scalar_def BerDecoder_decodeBoolean_def drop_read_Cons same_format_def)
  next
    case (MMS_INTEGER a)
    with assms obtain c where "w = MMS_INTEGER c" "asn1_size a \<le> asn1_maxSize c" by (auto split: MmsValue.splits)
    with assms MMS_INTEGER rd stored_integer(1) [of a c buf p] show ?thesis by simp
  next
    case (MMS_UNSIGNED a)
    with assms obtain c where "w = MMS_UNSIGNED c" "asn1_size a \<le> asn1_maxSize c" by (auto split: MmsValue.splits)
    with assms MMS_UNSIGNED rd stored_integer(2) [of a c buf p] show ?thesis by simp
  next
    case (MMS_FLOAT e f mem)
    with assms obtain e' old where "w = MMS_FLOAT e' f old" by (auto split: MmsValue.splits)
    with assms MMS_FLOAT stored_float [of f mem old p buf e r e'] show ?thesis by auto
  next
    case (MMS_OCTET_STRING n k b)
    with assms obtain m l old where w: "w = MMS_OCTET_STRING m l old" by (auto split: MmsValue.splits)
    then show ?thesis using assms rd MMS_OCTET_STRING fits_slot(6) [of m l old]
      by (auto simp: stored_def parse_scalar_def to_uint16_def puts_eq overlay_def mem_eq_prefix same_format_def)
  next
    case (MMS_VISIBLE_STRING b n)
    with assms obtain old m where "w = MMS_VISIBLE_STRING old m" by (auto split: MmsValue.splits)
    with assms MMS_VISIBLE_STRING rd stored_string [of b n old m p buf] show ?thesis by auto
  next
    case (MMS_BINARY_TIME n t)
    with assms obtain old where w: "w = MMS_BINARY_TIME n old" by (auto split: MmsValue.splits)
    then show ?thesis using assms rd MMS_BINARY_TIME fits_slot(8) [of n old]
      by (auto simp: stored_def parse_scalar_def puts_eq overlay_def mem_eq_prefix same_format_def)
  next
    case (MMS_UTC_TIME t)
    with assms obtain old where w: "w = MMS_UTC_TIME old" by (auto split: MmsValue.splits)
    then show ?thesis using assms rd MMS_UTC_TIME fits_slot(9) [of old]
      by (auto simp: stored_def parse_scalar_def mem_eq_prefix rdn_def same_format_def)
  next
    case (MMS_BIT_STRING n bits)
    with assms obtain old where w: "w = MMS_BIT_STRING n old" by (auto split: MmsValue.splits)
    with assms MMS_BIT_STRING stored_bits [of bits n old p buf r] show ?thesis by auto
  qed (use assms in \<open>auto simp: is_scalar_def\<close>)
qed

text \<open>One element of the list, nested ones included.\<close>

definition parse_element :: "u8 \<Rightarrow> bytes \<Rightarrow> nat \<Rightarrow> nat \<Rightarrow> MmsValue \<Rightarrow> (GooseParseError \<times> MmsValue) option" where
  "parse_element tag buf q l value =
     (if tag = 0xa1 \<or> tag = 0xa2 then
        (if MmsValue_getType value = (if tag = 0xa1 then T_ARRAY else T_STRUCTURE) then do {
           (e, value) \<leftarrow> parseAllData (drop q buf) l value;
           Some (if e \<noteq> GOOSE_PARSE_ERROR_NO_ERROR then GOOSE_PARSE_ERROR_SUBLEVEL
                 else GOOSE_PARSE_ERROR_NO_ERROR, value) }
         else Some (GOOSE_PARSE_ERROR_TYPE_MISMATCH, value))
      else parse_scalar tag buf q l value)"

lemma parse_loop_step:
  assumes "p < n" and "rd buf p = Some tag" and "BerDecoder_decodeLength buf (p + 1) n = Some (LenOk q l)"
    and "parse_element tag buf q l w = Some (GOOSE_PARSE_ERROR_NO_ERROR, x)"
  shows "parse_loop buf n p (length ys) (ys @ Some w # ws)
    = parse_loop buf n (q + l) (length (ys @ [Some x])) ((ys @ [Some x]) @ ws)"
  using assms by (simp add: parse_loop.simps [of buf n p] parse_element_def list_update_append Let_def)

lemma parse_fits:
  shows "mms_wf v \<Longrightarrow> goose_ok v \<Longrightarrow> mms_valid w \<Longrightarrow> fits w v \<Longrightarrow> drop q buf = mms_content v @ r \<Longrightarrow> q \<le> length buf \<Longrightarrow>
      length (mms_content v) < 32768 \<Longrightarrow> stored (parse_element (mms_tag v) buf q (length (mms_content v)) w) w v"
    and "mms_wf_components vs \<Longrightarrow> components_goose_ok vs \<Longrightarrow> components_valid ws \<Longrightarrow> components_fit ws vs \<Longrightarrow>
      drop p buf = components_bytes vs @ r \<Longrightarrow> n = p + length (components_bytes vs) \<Longrightarrow> n < 32768 \<Longrightarrow>
      \<exists>zs. parse_loop buf n p (length ys) (ys @ ws) = Some (GOOSE_PARSE_ERROR_NO_ERROR, length ys + length vs, ys @ zs)
        \<and> length zs = length vs \<and> components_equal vs zs = Some True \<and> same_formats vs zs
        \<and> components_valid zs \<and> (\<forall>us. components_fit ws us \<longrightarrow> components_fit zs us)"
proof (induction v and vs arbitrary: w q buf r and ws p buf r n ys rule: value_components_induct)
  case (array vs)
  then obtain ws where w: "w = MMS_ARRAY ws" "components_fit ws vs" by (auto split: MmsValue.splits)
  then obtain zs where zs: "parse_loop (drop q buf) (length (components_bytes vs)) 0 0 ws
      = Some (GOOSE_PARSE_ERROR_NO_ERROR, length vs, zs)" "length zs = length vs" "components_equal vs zs = Some True"
      "components_valid zs" "\<forall>us. components_fit ws us \<longrightarrow> components_fit zs us"
    using array.IH [of ws 0 "drop q buf" r "length (components_bytes vs)" "[]"] array.prems by auto
  have "fits (MMS_ARRAY ws) u \<longrightarrow> fits (MMS_ARRAY zs) u" for u using zs(5) by (cases u) auto
  with w zs show ?case
    by (auto simp: stored_def parse_element_def parseAllData.simps finish_parse_def same_format_def components_fit_length)
next
  case (struct vs)
  then obtain ws where w: "w = MMS_STRUCTURE ws" "components_fit ws vs" by (auto split: MmsValue.splits)
  then obtain zs where zs: "parse_loop (drop q buf) (length (components_bytes vs)) 0 0 ws
      = Some (GOOSE_PARSE_ERROR_NO_ERROR, length vs, zs)" "length zs = length vs" "components_equal vs zs = Some True"
      "components_valid zs" "\<forall>us. components_fit ws us \<longrightarrow> components_fit zs us"
    using struct.IH [of ws 0 "drop q buf" r "length (components_bytes vs)" "[]"] struct.prems by auto
  have "fits (MMS_STRUCTURE ws) u \<longrightarrow> fits (MMS_STRUCTURE zs) u" for u using zs(5) by (cases u) auto
  with w zs show ?case
    by (auto simp: stored_def parse_element_def parseAllData.simps finish_parse_def same_format_def components_fit_length)
next
  case (scalar v)
  have w: "mms_wf w" using scalar.hyps scalar.prems(3,4)
    by (cases v) (auto simp: is_scalar_def mms_valid_scalar split: MmsValue.splits)
  from parse_scalar_fits [OF scalar.hyps scalar.prems(1,2) w scalar.prems(4-7)] mms_tag_scalar [OF scalar.hyps]
  show ?case by (simp add: parse_element_def)
next
  case nil
  then show ?case by (simp add: parse_loop.simps)
next
  case (cons x vs)
  then obtain v where v: "x = Some v" "mms_wf v" "goose_ok v" by auto
  then obtain w ws' where w: "ws = Some w # ws'" "fits w v" "components_fit ws' vs" "mms_valid w" "components_valid ws'"
    using cons.prems(3,4) by (auto split: list.splits option.splits)
  let ?c = "mms_content v"
  have d: "drop p buf = ber_tlv (mms_tag v) ?c @ components_bytes vs @ r"
    using cons.prems(5) v by (simp add: mms_bytes_tlv)
  have lc: "length ?c < 32768" using length_mms_bytes [OF v(2)] cons.prems(6,7) v(1) by simp
  have l: "p + length (ber_tlv (mms_tag v) ?c) \<le> n" using cons.prems(6) v by (simp add: mms_bytes_tlv)
  have n: "n < 2 ^ 31" using cons.prems(7) by simp
  have lc': "length ?c < 65535" using lc by simp
  note parts = tlv_parts [OF d lc' l n]
  let ?q = "p + 1 + length (ber_len (length ?c))"
  have "?q \<le> length buf" using parts(4,5) by simp
  from cons.IH(1) [OF v(1) v(2,3) w(4,2) parts(3) this lc]
  obtain y where y: "parse_element (mms_tag v) buf ?q (length ?c) w = Some (GOOSE_PARSE_ERROR_NO_ERROR, y)"
      "MmsValue_equals v y = Some True" "same_format v y" "mms_valid y" "\<And>u. fits w u \<Longrightarrow> fits y u" by (auto simp: stored_def)
  have p: "p < n" using l by (simp add: wire_simps)
  have nx: "?q + length ?c = p + length (mms_bytes v)" using parts(4) v by (simp add: mms_bytes_tlv)
  note step = parse_loop_step [OF p parts(1,2) y(1), unfolded nx]
  have "drop (p + length (mms_bytes v)) buf = components_bytes vs @ r"
    using drop_append [OF d] v by (simp add: mms_bytes_tlv)
  then obtain zs where "parse_loop buf n (p + length (mms_bytes v)) (length (ys @ [Some y])) ((ys @ [Some y]) @ ws')
      = Some (GOOSE_PARSE_ERROR_NO_ERROR, length (ys @ [Some y]) + length vs, (ys @ [Some y]) @ zs)"
      "length zs = length vs" "components_equal vs zs = Some True" "same_formats vs zs" "components_valid zs"
      and zf: "\<And>us. components_fit ws' us \<Longrightarrow> components_fit zs us"
    using cons.IH(2) [of ws' "p + length (mms_bytes v)" buf r n "ys @ [Some y]"] cons.prems v w by auto
  moreover have "components_fit ws us \<longrightarrow> components_fit (Some y # zs) us" for us
    using y(5) zf w(1) by (cases us) (auto split: option.splits)
  ultimately show ?case using v w(1) y(2-4) step by (intro exI [of _ "Some y # zs"]) simp
qed

lemma known_value_ok:
  assumes "mms_wf_components vs" and "components_goose_ok vs" and "components_valid ws" and "components_fit ws vs"
    and "drop p buf = components_bytes vs @ r" and "length (components_bytes vs) < 32768"
  shows "\<exists>zs. parseAllData (drop p buf) (length (components_bytes vs)) (MMS_ARRAY ws)
      = Some (GOOSE_PARSE_ERROR_NO_ERROR, MMS_ARRAY zs) \<and> length zs = length vs \<and> components_equal vs zs = Some True
    \<and> same_formats vs zs \<and> components_valid zs \<and> (\<forall>us. components_fit ws us \<longrightarrow> components_fit zs us)"
  using parse_fits(2) [OF assms(1-4), of 0 "drop p buf" r "length (components_bytes vs)" "[]"] assms(5,6)
    components_fit_length [OF assms(4)]
  by (auto simp: parseAllData.simps finish_parse_def)

subsection \<open>Delivery of later messages\<close>

definition received_again :: "GoosePublisher \<Rightarrow> u64 \<Rightarrow> GooseSubscriber \<Rightarrow> MmsValue option list \<Rightarrow> GooseSubscriber" where
  "received_again self now s zs = (received_header self s)\<lparr>gs_dataSetValues := Some (MMS_ARRAY zs),
     gs_parseError := GOOSE_PARSE_ERROR_NO_ERROR,
     gs_stateValid := \<not> (gs_stNum s = gp_stNum self \<and> gp_sqNum self \<le> gs_sqNum s),
     gs_stNum := gp_stNum self, gs_sqNum := gp_sqNum self,
     gs_invalidityTime := now + ucast (gp_timeAllowedToLive self)\<rparr>"

text \<open>What the update leaves behind: equal values, in slots that still take whatever they took before.\<close>

definition updated :: "MmsValue option list \<Rightarrow> MmsValue option list \<Rightarrow> MmsValue option list \<Rightarrow> bool" where
  "updated ws vs zs \<longleftrightarrow> length zs = length vs \<and> components_equal vs zs = Some True \<and> same_formats vs zs
     \<and> components_valid zs \<and> (\<forall>us. components_fit ws us \<longrightarrow> components_fit zs us)"

lemma update_subscriber_again:
  assumes "drop p buf = goose_fields self ds @ r" and "gp_wf self" and "gs_dataSetValues s = Some (MMS_ARRAY ws)"
    and "gs_dataSetValuesSelfAllocated s \<longrightarrow> gs_confRev s = gp_confRev self" and "components_fit ws ds"
    and "\<not> gs_isObserver s" and "sub_ok s"
    and "mms_wf_components ds" and "components_goose_ok ds" and "length (goose_fields self ds) < 32768"
  shows "\<exists>zs. update_subscriber (received_locals p i self ds) buf now (received_names self s)
      = Some (received_again self now s zs) \<and> updated ws ds zs"
proof -
  have ws: "components_valid ws" using assms(3,7) by (auto simp: sub_ok_def)
  have "length (components_bytes ds) < 32768" using length_dataset [of ds self] assms(10) by simp
  with known_value_ok [OF assms(8,9) ws assms(5) dataset_position [OF assms(1)]] obtain zs where
    zs: "parseAllData (drop (d_pos p self ds) buf) (length (components_bytes ds)) (MMS_ARRAY ws)
      = Some (GOOSE_PARSE_ERROR_NO_ERROR, MMS_ARRAY zs)" "updated ws ds zs" by (auto simp: updated_def)
  have "gs_dataSetValues (received_header self s) = Some (MMS_ARRAY ws)"
    using assms(3,4) by (auto simp: received_header_def)
  moreover have "gs_stNum (received_header self s) = gs_stNum s" "gs_sqNum (received_header self s) = gs_sqNum s"
    by (simp_all add: received_header_def received_names_def)
  ultimately show ?thesis using zs
    unfolding update_subscriber_def update_header_received [OF assms(1,2,6,7), of i]
    by (intro exI [of _ zs]) (simp add: parse_dataset_def received_locals_def received_again_def Let_def)
qed

lemma delivery_again:
  assumes "gp_wf self" and "gp_header self = frame_header p srcAddr vlan"
    and "length (dstAddress p) = 6" and "length srcAddr = 6"
    and "dataset_ok ds" and "mms_wf_components ds" and "components_goose_ok ds"
    and "gp_payloadStart self + length (goose_pdu self ds) \<le> GOOSE_MAX_MESSAGE_SIZE"
    and "plain_subs subs" and "list_ex (interested p) subs"
    and "find_ref (opt_bytes (gp_goCBRef self)) subs = Some i" and "gs_dataSetValues (subs ! i) = Some (MMS_ARRAY ws)"
    and "gs_dataSetValuesSelfAllocated (subs ! i) \<longrightarrow> gs_confRev (subs ! i) = gp_confRev self" and "components_fit ws ds"
  shows "\<exists>packet self' zs. GoosePublisher_publish self ds = Some (0, Some packet, self')
    \<and> parseGooseMessage subs (packet @ r) (length packet) now
        = Some (subs[i := received_again self now (subs ! i) zs], if gs_listener (subs ! i) then Some i else None)
    \<and> updated ws ds zs"
proof -
  let ?P = "\<lambda>t. \<exists>zs. t = received_again self now (subs ! i) zs \<and> updated ws ds zs"
  have n: "length (goose_fields self ds) < 32768"
    using assms(8) by (simp add: goose_pdu_def wire_simps GOOSE_MAX_MESSAGE_SIZE_def)
  have "\<exists>t. update_subscriber (received_locals q i self ds) buf now (received_names self (subs ! i)) = Some t
        \<and> gs_listener t = gs_listener (subs ! i) \<and> ?P t" if "drop q buf = goose_fields self ds @ r" for q buf
    using update_subscriber_again [OF that assms(1,12-14) plain_nth(2,1) [OF assms(9,11)] assms(6,7) n, of i now]
    by (auto simp: received_again_def received_header_def received_names_def)
  from frame_delivery [OF assms(1-5,8-11), of r now ?P, OF this] show ?thesis by blast
qed

text \<open>
  C3: Later messages: a subscriber that already holds a data set whose slots can take the values
  sent (same types, bit string and time sizes, integers no longer than the slot) is updated in
  place.  No parse error occurs, the data set equals the one published, and the slots keep
  their capacity, so that the next message of the same kind is delivered too.
\<close>

theorem publish_update:
  assumes "gp_wf self" and "gp_header self = frame_header p srcAddr vlan"
    and "length (dstAddress p) = 6" and "length srcAddr = 6"
    and "dataset_ok ds" and "mms_wf_components ds" and "components_goose_ok ds"
    and "gp_payloadStart self + length (goose_pdu self ds) \<le> GOOSE_MAX_MESSAGE_SIZE"
    and "plain_subs subs" and "list_ex (interested p) subs"
    and "find_ref (opt_bytes (gp_goCBRef self)) subs = Some i" and "gs_dataSetValues (subs ! i) = Some (MMS_ARRAY ws)"
    and "gs_dataSetValuesSelfAllocated (subs ! i) \<longrightarrow> gs_confRev (subs ! i) = gp_confRev self" and "components_fit ws ds"
  shows "\<exists>packet self' zs. GoosePublisher_publish self ds = Some (0, Some packet, self')
    \<and> parseGooseMessage subs (packet @ r) (length packet) now
        = Some (subs[i := received_again self now (subs ! i) zs], if gs_listener (subs ! i) then Some i else None)
    \<and> length zs = length ds \<and> components_equal ds zs = Some True \<and> same_formats ds zs
    \<and> (\<forall>us. components_fit ws us \<longrightarrow> components_fit zs us)"
  using delivery_again [OF assms, of r now] by (auto simp: updated_def)

theorem publish_update_witness:
  "\<exists>packet self' zs. GoosePublisher_publish sample_publisher [Some (MMS_BOOLEAN True)] = Some (0, Some packet, self')
    \<and> parseGooseMessage [sample_subscriber\<lparr>gs_dataSetValues := Some (MMS_ARRAY [Some (MMS_BOOLEAN False)])\<rparr>] packet (length packet) 7
        = Some ([received_again sample_publisher 7
            (sample_subscriber\<lparr>gs_dataSetValues := Some (MMS_ARRAY [Some (MMS_BOOLEAN False)])\<rparr>) zs], None)
    \<and> components_equal [Some (MMS_BOOLEAN True)] zs = Some True"
proof -
  let ?s = "sample_subscriber\<lparr>gs_dataSetValues := Some (MMS_ARRAY [Some (MMS_BOOLEAN False)])\<rparr>"
  have ok: "plain_subs [?s]" "list_ex (interested default_parameters) [?s]"
    "find_ref (opt_bytes (gp_goCBRef sample_publisher)) [?s] = Some 0"
    "gs_dataSetValues ([?s] ! 0) = Some (MMS_ARRAY [Some (MMS_BOOLEAN False)])"
    "gs_dataSetValuesSelfAllocated ([?s] ! 0) \<longrightarrow> gs_confRev ([?s] ! 0) = gp_confRev sample_publisher"
    "components_fit [Some (MMS_BOOLEAN False)] [Some (MMS_BOOLEAN True)]"
    using sample_subscriber_ok copyStringMax_short [of "[103, 49]" 130 0]
    by (auto simp: opt_bytes_def sample_publisher_def plain_subs_def sub_ok_def gs_wf_def is_list_def is_scalar_def
        interested_def sample_subscriber_def GooseSubscriber_create_def GoosePublisher_calloc_def)
  have "gs_listener ([?s] ! 0) = False" using sample_subscriber_ok(4) by simp
  then show ?thesis
    using publish_update [OF sample_publisher_wf sample_delivery_facts ok, of "[]" 7] by (simp only: append_Nil2 if_False) auto
qed

end
