(* ===== verification/ProtectionIed.thy ===== *)
theory ProtectionIed
  imports GoosePublisher
begin

text \<open>
  The protection relay, \<open>src/libiec61850/examples/goose_publisher/goose_publisher_example.c\<close>: a
  loop that reads the values of the operator panel, applies the protection functions and
  publishes seven values.  One round of the loop is \<open>protection_step\<close>; the whole program is a
  sequence of rounds, each with what \<open>fscanf\<close> converted from the file in that round (\<open>None\<close> for a
  field that was not converted) and the clock.  A C \<open>int\<close> is a 32-bit word read with its sign; a
  \<open>float\<close> is its 32-bit pattern, compared as IEEE 754 says: NaN compares with nothing, and otherwise the
  patterns are ordered as sign and magnitude.  The constants that the source compares with are
  exact in single precision.
\<close>

subsection \<open>Floating point comparison\<close>

definition f_nan :: "u32 \<Rightarrow> bool" where
  "f_nan x \<longleftrightarrow> 0x7f800000 < x AND 0x7fffffff"

definition f_key :: "u32 \<Rightarrow> int" where
  "f_key x = (if bit x 31 then - uint (x AND 0x7fffffff) else uint (x AND 0x7fffffff))"

definition f_less :: "u32 \<Rightarrow> u32 \<Rightarrow> bool" where
  "f_less x y \<longleftrightarrow> \<not> f_nan x \<and> \<not> f_nan y \<and> f_key x < f_key y"

definition f_eq :: "u32 \<Rightarrow> u32 \<Rightarrow> bool" where
  "f_eq x y \<longleftrightarrow> \<not> f_nan x \<and> \<not> f_nan y \<and> f_key x = f_key y"

definition f_3500 :: u32 where "f_3500 = 0x455ac000"
definition f_8000 :: u32 where "f_8000 = 0x45fa0000"
definition f_14000 :: u32 where "f_14000 = 0x465ac000"
definition f_49 :: u32 where "f_49 = 0x42440000"
definition f_51 :: u32 where "f_51 = 0x424c0000"

subsection \<open>Panel input\<close>

record gui_data =
  gui_trip :: "u32 option"
  gui_close :: "u32 option"
  gui_fault_type :: "u32 option"
  gui_prot_elem :: "u32 option"
  gui_current :: "u32 option"
  gui_voltage :: "u32 option"
  gui_freq :: "u32 option"

record measurements =
  m_trip :: u32
  m_close :: u32
  m_fault_type :: u32
  m_prot_elem :: u32
  m_current :: u32
  m_voltage :: u32
  m_freq :: u32

definition or_default :: "'a option \<Rightarrow> 'a \<Rightarrow> 'a" where
  "or_default x d = (case x of Some v \<Rightarrow> v | None \<Rightarrow> d)"

definition read_gui :: "gui_data \<Rightarrow> measurements" where
  "read_gui g = \<lparr>m_trip = or_default (gui_trip g) 0, m_close = or_default (gui_close g) 0,
     m_fault_type = or_default (gui_fault_type g) 0, m_prot_elem = or_default (gui_prot_elem g) 50,
     m_current = or_default (gui_current g) 0x449c5000, m_voltage = or_default (gui_voltage g) 0x46241000,
     m_freq = or_default (gui_freq g) 0x42473333\<rparr>"

subsection \<open>Protection functions\<close>

record decision =
  protection_trip :: bool
  detected_fault :: u32
  protection_element :: u32

definition overcurrent :: "measurements \<Rightarrow> decision \<Rightarrow> decision" where
  "overcurrent m d =
     (if f_less f_3500 (m_current m)
      then \<lparr>protection_trip = True, detected_fault = 1, protection_element = 50\<rparr> else d)"

definition voltage_protection :: "measurements \<Rightarrow> decision \<Rightarrow> decision" where
  "voltage_protection m d =
     (if f_less (m_voltage m) f_8000 \<or> f_less f_14000 (m_voltage m)
      then \<lparr>protection_trip = True, detected_fault = 2,
            protection_element = (if f_less (m_voltage m) f_8000 then 27 else 59)\<rparr> else d)"

definition frequency_protection :: "measurements \<Rightarrow> decision \<Rightarrow> decision" where
  "frequency_protection m d =
     (if f_less (m_freq m) f_49 \<or> f_less f_51 (m_freq m)
      then \<lparr>protection_trip = True, detected_fault = 3, protection_element = 81\<rparr> else d)"

definition manual_override :: "measurements \<Rightarrow> decision \<Rightarrow> decision" where
  "manual_override m d =
     (if 0 < sint (m_fault_type m)
      then \<lparr>protection_trip = True, detected_fault = m_fault_type m,
            protection_element = (if m_fault_type m = 3 then 21
                                  else if m_fault_type m = 2 then 87 else protection_element d)\<rparr>
      else d)"

definition protect :: "measurements \<Rightarrow> decision" where
  "protect m =
     manual_override m (frequency_protection m (voltage_protection m (overcurrent m
       \<lparr>protection_trip = False, detected_fault = 0, protection_element = 50\<rparr>)))"

definition apply_protection :: "measurements \<Rightarrow> measurements" where
  "apply_protection m =
     (let d = protect m
      in if protection_trip d
         then m\<lparr>m_trip := 1, m_fault_type := detected_fault d, m_prot_elem := protection_element d\<rparr>
         else m)"

subsection \<open>One round of the loop\<close>

record protection_ied =
  ied_prev :: measurements
  ied_first_publish :: bool
  ied_publisher :: GoosePublisher

definition changed :: "measurements \<Rightarrow> measurements \<Rightarrow> bool" where
  "changed m prev \<longleftrightarrow> m_trip m \<noteq> m_trip prev \<or> m_close m \<noteq> m_close prev \<or> m_fault_type m \<noteq> m_fault_type prev
     \<or> m_prot_elem m \<noteq> m_prot_elem prev \<or> \<not> f_eq (m_current m) (m_current prev)
     \<or> \<not> f_eq (m_voltage m) (m_voltage prev) \<or> \<not> f_eq (m_freq m) (m_freq prev)"

definition dataset :: "measurements \<Rightarrow> MmsValue option list option" where
  "dataset m = do {
     fault \<leftarrow> MmsValue_newIntegerFromInt32 (m_fault_type m);
     elem \<leftarrow> MmsValue_newIntegerFromInt32 (m_prot_elem m);
     Some [Some (MmsValue_newBoolean (m_trip m \<noteq> 0)), Some (MmsValue_newBoolean (m_close m \<noteq> 0)),
           Some fault, Some elem, Some (MmsValue_newFloat (mem32 (m_current m))),
           Some (MmsValue_newFloat (mem32 (m_voltage m))), Some (MmsValue_newFloat (mem32 (m_freq m)))] }"

text \<open>The result is the packet sent, the milliseconds slept, and the new state.\<close>

definition protection_step ::
    "protection_ied \<Rightarrow> gui_data \<Rightarrow> u64 \<Rightarrow> (bytes option \<times> nat \<times> protection_ied) option" where
  "protection_step ied g now = do {
     let m = apply_protection (read_gui g);
     let state_changed = (\<not> ied_first_publish ied \<and> changed m (ied_prev ied));
     publisher \<leftarrow> (if state_changed then map_option snd (GoosePublisher_increaseStNum (ied_publisher ied) now)
                   else Some (ied_publisher ied));
     ds \<leftarrow> dataset m;
     (rc, packet, publisher) \<leftarrow> GoosePublisher_publish publisher ds;
     Some (packet, if state_changed then 4 else 1000,
           \<lparr>ied_prev = m, ied_first_publish = False, ied_publisher = publisher\<rparr>) }"

text \<open>The set-up before the loop; \<open>None\<close> inside is the failure to create a publisher.\<close>

definition str :: "string \<Rightarrow> cstring" where
  "str s = map (\<lambda>c. of_char c) s"

definition ied_parameters :: CommParameters where
  "ied_parameters = \<lparr>vlanPriority = 4, vlanId = 0, appId = 1000, dstAddress = [0x01, 0x0c, 0xcd, 0x01, 0x00, 0x01]\<rparr>"

definition ied_goCbRef :: cstring where
  "ied_goCbRef = str ''simpleIOGenericIO/LLN0$GO$gcbAnalogValues''"

definition ied_dataSetRef :: cstring where
  "ied_dataSetRef = str ''simpleIOGenericIO/LLN0$AnalogValues''"

definition protection_init :: "bytes \<Rightarrow> bool \<Rightarrow> u64 \<Rightarrow> protection_ied option option" where
  "protection_init srcAddr socketOk now = do {
     p \<leftarrow> GoosePublisher_create (Some ied_parameters) srcAddr socketOk now;
     Some (case p of
        None \<Rightarrow> None
      | Some publisher \<Rightarrow>
          (let publisher = GoosePublisher_setGoCbRef publisher ied_goCbRef;
               publisher = GoosePublisher_setConfRev publisher 1;
               publisher = GoosePublisher_setDataSetRef publisher ied_dataSetRef;
               publisher = GoosePublisher_setTimeAllowedToLive publisher 500
           in Some \<lparr>ied_prev = \<lparr>m_trip = - 1, m_close = - 1, m_fault_type = - 1, m_prot_elem = - 1,
                       m_current = 0xbf800000, m_voltage = 0xbf800000, m_freq = 0xbf800000\<rparr>,
                    ied_first_publish = True, ied_publisher = publisher\<rparr>)) }"

subsection \<open>What the protection functions decide\<close>

text \<open>
  C28: The relay orders no trip exactly when the operator orders none, and neither the current exceeds
  3500, nor the voltage leaves 8000 to 14000, nor the frequency leaves 49 to 51, nor a fault is selected
  by hand; no later protection function takes a trip back.
\<close>

theorem trip_iff:
  "m_trip (apply_protection m) = 0 \<longleftrightarrow>
     m_trip m = 0 \<and> \<not> (f_less f_3500 (m_current m)
       \<or> f_less (m_voltage m) f_8000 \<or> f_less f_14000 (m_voltage m)
       \<or> f_less (m_freq m) f_49 \<or> f_less f_51 (m_freq m) \<or> 0 < sint (m_fault_type m))"
  by (simp add: apply_protection_def protect_def overcurrent_def voltage_protection_def frequency_protection_def
      manual_override_def Let_def)

end
