(* ===== verification/BreakerIed.thy ===== *)
theory BreakerIed
  imports CString GooseRepeat ProtectionIed
begin

text \<open>
  The breaker IED, \<open>src/libiec61850/examples/goose_subscriber/goose_subscriber_example.c\<close>: a GOOSE
  subscriber whose listener writes the received values to a file that the operator panel
  reads.  The static variables for the file ownership are the record \<open>ownership\<close>.  The file system is
  the shared file and the list of the temporary files of \<open>mkstemp\<close>, the youngest first; the answers of
  \<open>snprintf\<close> and of the system calls are the record \<open>os_answers\<close>, so that every error path is a value of that
  record.  \<open>stat\<close> finds the shared file exactly if it exists.  \<open>fsync\<close> and \<open>close\<close>, whose failures are only
  reported, and the console output are left out.
\<close>

subsection \<open>The standard library functions it uses\<close>

text \<open>\<open>%d\<close>\<close>

definition fmt_int :: "u32 \<Rightarrow> cstring" where
  "fmt_int x = (if sint x < 0 then 45 # dec_nat (nat (- sint x)) else dec_nat (nat (sint x)))"

text \<open>
  \<open>%.kf\<close> of a single precision number: its exact value times \<open>10^k\<close>, rounded to the nearest integer, ties to
  the even one.
\<close>

definition f_scaled :: "nat \<Rightarrow> u32 \<Rightarrow> nat" where
  "f_scaled k x =
     (let e = unat (drop_bit 23 x AND 0xff); f = unat (x AND 0x7fffff);
          m = (if e = 0 then f else f + 2 ^ 23); e = (if e = 0 then 1 else e)
      in if 150 \<le> e then m * 10 ^ k * 2 ^ (e - 150) else round_even (m * 10 ^ k) (150 - e))"

definition fmt_float :: "nat \<Rightarrow> u32 \<Rightarrow> cstring" where
  "fmt_float k x =
     (if bit x 31 then [45] else []) @
     (if f_nan x then [110, 97, 110]
      else if x AND 0x7fffffff = 0x7f800000 then [105, 110, 102]
      else (let v = f_scaled k x
            in dec_nat (v div 10 ^ k) @ (if k = 0 then [] else 46 # map (\<lambda>i. digit (v div 10 ^ i mod 10)) (rev [0..<k]))))"

subsection \<open>File ownership\<close>

record ownership =
  own_initialized :: bool
  own_haveTargetUid :: bool
  own_targetUid :: u32
  own_haveTargetGid :: bool
  own_targetGid :: u32

definition ownership_init :: ownership where
  "ownership_init = \<lparr>own_initialized = False, own_haveTargetUid = False, own_targetUid = 0,
     own_haveTargetGid = False, own_targetGid = 0\<rparr>"

record shared_file =
  sf_content :: bytes
  sf_uid :: u32
  sf_gid :: u32
  sf_mode :: nat

record file_system =
  fs_shared :: "shared_file option"
  fs_temps :: "shared_file list"

definition GOOSE_FILE_MODE :: nat where
  "GOOSE_FILE_MODE = 436"

definition adoptExistingOwnership :: "file_system \<Rightarrow> ownership \<Rightarrow> ownership" where
  "adoptExistingOwnership fs own =
     (if own_haveTargetUid own \<and> own_haveTargetGid own then own
      else (case fs_shared fs of
              None \<Rightarrow> own
            | Some f \<Rightarrow>
                (let own = (if own_haveTargetUid own then own
                            else own\<lparr>own_targetUid := sf_uid f, own_haveTargetUid := True\<rparr>)
                 in if own_haveTargetGid own then own
                    else own\<lparr>own_targetGid := sf_gid f, own_haveTargetGid := True\<rparr>)))"

text \<open>The id that an environment variable holds, if it is a non-negative decimal number.\<close>

definition env_id :: "cstring option \<Rightarrow> u32 option" where
  "env_id env =
     (case env of
        None \<Rightarrow> None
      | Some s \<Rightarrow> (let (parsed, endPtr) = strtol10 s
                   in if endPtr \<noteq> 0 \<and> endPtr = length s \<and> 0 \<le> parsed then Some (word_of_int parsed) else None))"

definition initFileOwnership :: "cstring option \<Rightarrow> cstring option \<Rightarrow> file_system \<Rightarrow> ownership \<Rightarrow> ownership" where
  "initFileOwnership uidEnv gidEnv fs own =
     (if own_initialized own then own
      else (let own = own\<lparr>own_initialized := True\<rparr>;
                own = (case env_id uidEnv of None \<Rightarrow> own | Some u \<Rightarrow> own\<lparr>own_targetUid := u, own_haveTargetUid := True\<rparr>);
                own = (case env_id gidEnv of None \<Rightarrow> own | Some g \<Rightarrow> own\<lparr>own_targetGid := g, own_haveTargetGid := True\<rparr>)
            in if \<not> own_haveTargetUid own \<or> \<not> own_haveTargetGid own then adoptExistingOwnership fs own else own))"

subsection \<open>Writing the shared file\<close>

datatype write_answer = Wrote nat | Interrupted | WriteFailed

record os_answers =
  os_snprintf :: bool
  os_mkstemp :: bool
  os_fchmod :: bool
  os_fchown :: bool
  os_writes :: "write_answer list"
  os_rename :: bool
  os_unlink :: bool
  os_chown :: bool
  os_chmod :: bool
  os_euid :: u32
  os_egid :: u32

record command =
  cmd_trip :: bool
  cmd_close :: bool
  cmd_faultType :: u32
  cmd_protElement :: u32
  cmd_current :: u32
  cmd_voltage :: u32
  cmd_frequency :: u32

definition dataset_line :: "command \<Rightarrow> cstring" where
  "dataset_line c =
     fmt_int (if cmd_trip c then 1 else 0) @ [44] @ fmt_int (if cmd_close c then 1 else 0) @ [44] @
     fmt_int (cmd_faultType c) @ [44] @ fmt_int (cmd_protElement c) @ [44] @
     fmt_float 1 (cmd_current c) @ [44] @ fmt_float 0 (cmd_voltage c) @ [44] @ fmt_float 1 (cmd_frequency c)"

text \<open>\<open>snprintf\<close> keeps at most 127 characters of the line in the buffer of 128.\<close>

definition line_buffer :: "command \<Rightarrow> cstring" where
  "line_buffer c = take 127 (dataset_line c)"

text \<open>
  The loop around \<open>write\<close>, with one answer per call: the content of the temporary file and whether all was
  written.  \<open>write\<close> takes over at most what it is offered.  Without a further answer the call never
  returns.
\<close>

fun write_loop :: "write_answer list \<Rightarrow> bytes \<Rightarrow> nat \<Rightarrow> bytes \<Rightarrow> (bool \<times> bytes) option" where
  "write_loop answers buffer totalWritten content =
     (if totalWritten < length buffer then
        (case answers of
           [] \<Rightarrow> None
         | Wrote n # rest \<Rightarrow>
             (let chunk = min n (length buffer - totalWritten)
              in write_loop rest buffer (totalWritten + chunk) (content @ take chunk (drop totalWritten buffer)))
         | Interrupted # rest \<Rightarrow> write_loop rest buffer totalWritten content
         | WriteFailed # rest \<Rightarrow> Some (False, content))
      else Some (True, content))"

declare write_loop.simps [simp del]

definition chown_file :: "u32 \<Rightarrow> u32 \<Rightarrow> shared_file \<Rightarrow> shared_file" where
  "chown_file uid gid f = f\<lparr>sf_uid := (if uid = - 1 then sf_uid f else uid), sf_gid := (if gid = - 1 then sf_gid f else gid)\<rparr>"

definition reown :: "ownership \<Rightarrow> bool \<Rightarrow> shared_file \<Rightarrow> shared_file" where
  "reown own ok f =
     (if (own_haveTargetUid own \<or> own_haveTargetGid own) \<and> ok
      then chown_file (if own_haveTargetUid own then own_targetUid own else - 1)
             (if own_haveTargetGid own then own_targetGid own else - 1) f
      else f)"

definition set_mode :: "bool \<Rightarrow> shared_file \<Rightarrow> shared_file" where
  "set_mode ok f = (if ok then f\<lparr>sf_mode := GOOSE_FILE_MODE\<rparr> else f)"

text \<open>
  The effects of the calls on the file system: \<open>mkstemp\<close> creates an empty file that only its owner may
  read and write, \<open>rename\<close> moves it over the shared file, \<open>unlink\<close> removes it.
\<close>

definition make_temp :: "os_answers \<Rightarrow> file_system \<Rightarrow> file_system" where
  "make_temp os fs =
     fs\<lparr>fs_temps := \<lparr>sf_content = [], sf_uid = os_euid os, sf_gid = os_egid os, sf_mode = 384\<rparr> # fs_temps fs\<rparr>"

fun on_first :: "('a \<Rightarrow> 'a) \<Rightarrow> 'a list \<Rightarrow> 'a list" where
  "on_first f [] = []"
| "on_first f (x # xs) = f x # xs"

definition on_temp :: "(shared_file \<Rightarrow> shared_file) \<Rightarrow> file_system \<Rightarrow> file_system" where
  "on_temp f fs = fs\<lparr>fs_temps := on_first f (fs_temps fs)\<rparr>"

definition on_shared :: "(shared_file \<Rightarrow> shared_file) \<Rightarrow> file_system \<Rightarrow> file_system" where
  "on_shared f fs = fs\<lparr>fs_shared := map_option f (fs_shared fs)\<rparr>"

definition unlink_temp :: "bool \<Rightarrow> file_system \<Rightarrow> file_system" where
  "unlink_temp ok fs = (if ok then fs\<lparr>fs_temps := tl (fs_temps fs)\<rparr> else fs)"

definition rename_temp :: "file_system \<Rightarrow> file_system" where
  "rename_temp fs =
     (case fs_temps fs of [] \<Rightarrow> fs | f # rest \<Rightarrow> fs\<lparr>fs_shared := Some f, fs_temps := rest\<rparr>)"

definition writeSharedDataset ::
    "os_answers \<Rightarrow> command \<Rightarrow> file_system \<Rightarrow> ownership \<Rightarrow> (file_system \<times> ownership) option" where
  "writeSharedDataset os c fs own =
     (if \<not> os_snprintf os then Some (fs, own)
      else do {
        let buffer = line_buffer c;
        let own = adoptExistingOwnership fs own;
        if \<not> os_mkstemp os then Some (fs, own)
        else do {
          let fs = make_temp os fs;
          let fs = on_temp (set_mode (os_fchmod os)) fs;
          let fs = on_temp (reown own (os_fchown os)) fs;
          (ok, content) \<leftarrow> write_loop (os_writes os) buffer 0 [];
          let fs = on_temp (\<lambda>f. f\<lparr>sf_content := content\<rparr>) fs;
          if \<not> ok then Some (unlink_temp (os_unlink os) fs, own)
          else if \<not> os_rename os then Some (unlink_temp (os_unlink os) fs, own)
          else do {
            let fs = rename_temp fs;
            let fs = on_shared (reown own (os_chown os)) fs;
            let fs = on_shared (set_mode (os_chmod os)) fs;
            Some (fs, own) } } })"

subsection \<open>The listener\<close>

definition le32 :: "bytes \<Rightarrow> u32" where
  "le32 mem = word_of_nat (be_nat (rev mem))"

definition read_command :: "MmsValue \<Rightarrow> command option" where
  "read_command values = do {
     tripCommand \<leftarrow> Option.bind (MmsValue_getElement values 0) MmsValue_getBoolean;
     closeCommand \<leftarrow> Option.bind (MmsValue_getElement values 1) MmsValue_getBoolean;
     faultType \<leftarrow> Option.bind (MmsValue_getElement values 2) MmsValue_toInt32;
     protElement \<leftarrow> Option.bind (MmsValue_getElement values 3) MmsValue_toInt32;
     faultCurrent \<leftarrow> Option.bind (MmsValue_getElement values 4) MmsValue_toFloat;
     faultVoltage \<leftarrow> Option.bind (MmsValue_getElement values 5) MmsValue_toFloat;
     frequency \<leftarrow> Option.bind (MmsValue_getElement values 6) MmsValue_toFloat;
     Some \<lparr>cmd_trip = tripCommand, cmd_close = closeCommand, cmd_faultType = faultType, cmd_protElement = protElement,
       cmd_current = le32 faultCurrent, cmd_voltage = le32 faultVoltage, cmd_frequency = le32 frequency\<rparr> }"

record breaker =
  br_receiver :: GooseReceiver
  br_ownership :: ownership
  br_files :: file_system

definition gooseListener ::
    "cstring option \<Rightarrow> cstring option \<Rightarrow> os_answers \<Rightarrow> GooseSubscriber \<Rightarrow> file_system \<Rightarrow> ownership \<Rightarrow> (file_system \<times> ownership) option" where
  "gooseListener uidEnv gidEnv os subscriber fs own = do {
     let own = initFileOwnership uidEnv gidEnv fs own;
     (case gs_dataSetValues subscriber of
        None \<Rightarrow> Some (fs, own)
      | Some values \<Rightarrow> do {
          n \<leftarrow> MmsValue_getArraySize values;
          if 7 \<le> n then do {
            c \<leftarrow> read_command values;
            writeSharedDataset os c fs own }
          else Some (fs, own) }) }"

subsection \<open>The program\<close>

text \<open>The set-up of \<open>main\<close> before the receiver is started.\<close>

definition breaker_init :: "cstring option \<Rightarrow> file_system \<Rightarrow> breaker option" where
  "breaker_init argument fs = do {
     let receiver = GooseReceiver_setInterfaceId GooseReceiver_create
           (case argument of Some i \<Rightarrow> i | None \<Rightarrow> str ''eth0'');
     subscriber \<leftarrow> GooseSubscriber_create 0 (str ''simpleIOGenericIO/LLN0$GO$gcbAnalogValues'') None;
     subscriber \<leftarrow> GooseSubscriber_setDstMac subscriber [0x01, 0x0c, 0xcd, 0x01, 0x00, 0x01];
     let subscriber = GooseSubscriber_setAppId subscriber 1000;
     let subscriber = GooseSubscriber_setListener subscriber True;
     Some \<lparr>br_receiver = GooseReceiver_addSubscriber receiver subscriber, br_ownership = ownership_init, br_files = fs\<rparr> }"

text \<open>One packet: the receiver parses it and calls the listener of the subscriber it is for.\<close>

definition breaker_step ::
    "cstring option \<Rightarrow> cstring option \<Rightarrow> os_answers \<Rightarrow> breaker \<Rightarrow> bytes \<Rightarrow> u64 \<Rightarrow> breaker option" where
  "breaker_step uidEnv gidEnv os b packet now = do {
     (_, receiver, called) \<leftarrow> GooseReceiver_tick (br_receiver b) packet now;
     (case called of
        None \<Rightarrow> Some (b\<lparr>br_receiver := receiver\<rparr>)
      | Some i \<Rightarrow> do {
          (fs, own) \<leftarrow> gooseListener uidEnv gidEnv os (gr_subscriberList receiver ! i) (br_files b) (br_ownership b);
          Some (b\<lparr>br_receiver := receiver, br_ownership := own, br_files := fs\<rparr>) }) }"

subsection \<open>The shared file is replaced as a whole\<close>

lemma write_loop_simps [simp]:
  "write_loop [] buffer n content = (if n < length buffer then None else Some (True, content))"
  "write_loop (Wrote m # rest) buffer n content =
     (if n < length buffer
      then write_loop rest buffer (n + min m (length buffer - n)) (content @ take (min m (length buffer - n)) (drop n buffer))
      else Some (True, content))"
  "write_loop (Interrupted # rest) buffer n content =
     (if n < length buffer then write_loop rest buffer n content else Some (True, content))"
  "write_loop (WriteFailed # rest) buffer n content =
     (if n < length buffer then Some (False, content) else Some (True, content))"
  by (subst write_loop.simps, simp add: Let_def)+

lemma write_loop_content:
  assumes "write_loop answers buffer n (take n buffer) = Some (True, content)" and "n \<le> length buffer"
  shows "content = buffer"
  using assms
proof (induction answers arbitrary: n)
  case (Cons a rest)
  have chunk: "take n buffer @ take k (drop n buffer) = take (n + k) buffer" for k by (metis take_add)
  show ?case
  proof (cases a)
    case (Wrote m)
    with Cons chunk show ?thesis by (auto split: if_splits)
  qed (use Cons in \<open>auto split: if_splits\<close>)
qed (auto split: if_splits)

fun write_progress :: "write_answer \<Rightarrow> bool" where
  "write_progress (Wrote n) = (0 < n)"
| "write_progress Interrupted = False"
| "write_progress WriteFailed = True"

lemma write_loop_returns:
  "length buffer \<le> n + length (filter write_progress answers) \<Longrightarrow> \<exists>r. write_loop answers buffer n content = Some r"
proof (induction answers arbitrary: n content)
  case (Cons a rest)
  show ?case
  proof (cases a)
    case (Wrote m)
    have "length buffer \<le> n + min m (length buffer - n) + length (filter write_progress rest)" if "n < length buffer"
      using Cons.prems Wrote that by (cases "m = 0") auto
    with Cons.IH Wrote show ?thesis by auto
  qed (use Cons in auto)
qed auto

lemma write_loop_ok: "WriteFailed \<notin> set answers \<Longrightarrow> write_loop answers buffer n x = Some (b, y) \<Longrightarrow> b"
proof (induction answers arbitrary: n x)
  case (Cons a rest)
  then show ?case by (cases a) (auto split: if_splits)
qed (auto split: if_splits)

lemma reown_content [simp]: "sf_content (reown own ok f) = sf_content f"
  by (simp add: reown_def chown_file_def)

lemma set_mode_content [simp]: "sf_content (set_mode ok f) = sf_content f"
  by (simp add: set_mode_def)

text \<open>No call of \<open>write\<close> fails before the line is written.\<close>

definition written :: "os_answers \<Rightarrow> command \<Rightarrow> bool" where
  "written os c = (case write_loop (os_writes os) (line_buffer c) 0 [] of Some (ok, _) \<Rightarrow> ok | None \<Rightarrow> False)"

lemmas file_calls = make_temp_def on_temp_def on_shared_def unlink_temp_def rename_temp_def

lemma write_outcome:
  assumes "length (line_buffer c) \<le> length (filter write_progress (os_writes os))"
  shows "\<exists>fs' own'. writeSharedDataset os c fs own = Some (fs', own')
    \<and> (if os_snprintf os \<and> os_mkstemp os \<and> written os c \<and> os_rename os
        then map_option sf_content (fs_shared fs') = Some (line_buffer c) \<and> fs_temps fs' = fs_temps fs
        else fs_shared fs' = fs_shared fs
          \<and> (if os_snprintf os \<and> os_mkstemp os \<and> \<not> os_unlink os
              then \<exists>temp. fs_temps fs' = temp # fs_temps fs else fs_temps fs' = fs_temps fs))
    \<and> (WriteFailed \<notin> set (os_writes os) \<longrightarrow> written os c)"
proof -
  have "\<exists>r. write_loop (os_writes os) (line_buffer c) 0 [] = Some r"
    using write_loop_returns [of "line_buffer c" 0] assms by simp
  then obtain ok content where w: "write_loop (os_writes os) (line_buffer c) 0 [] = Some (ok, content)" by auto
  have content: "content = line_buffer c" if "ok" using write_loop_content [of _ _ 0] w that by simp
  have ok: "written os c = ok" using w by (simp add: written_def)
  show ?thesis using w content write_loop_ok [OF _ w]
    by (cases ok) (auto simp: writeSharedDataset_def Let_def ok file_calls)
qed

text \<open>
  C31: The shared file is replaced as a whole.  Whatever \<open>snprintf\<close>, \<open>mkstemp\<close>, \<open>fchmod\<close>, \<open>fchown\<close>, \<open>write\<close>,
  \<open>rename\<close>, \<open>unlink\<close>, \<open>chown\<close> and \<open>chmod\<close> answer, as long as \<open>write\<close> makes progress often enough the function
  returns.  If \<open>snprintf\<close>, \<open>mkstemp\<close>, every \<open>write\<close> and \<open>rename\<close> succeed, the shared file holds the line as
  \<open>snprintf\<close> keeps it, that is its first 127 characters, and no temporary file is left; otherwise the
  shared file is untouched, and the temporary file is left behind exactly if it was created and
  \<open>unlink\<close> fails.
\<close>

theorem shared_file_atomic:
  assumes "length (line_buffer c) \<le> length (filter write_progress (os_writes os))"
  shows "\<exists>fs' own'. writeSharedDataset os c fs own = Some (fs', own')
    \<and> (if os_snprintf os \<and> os_mkstemp os \<and> written os c \<and> os_rename os
        then map_option sf_content (fs_shared fs') = Some (line_buffer c) \<and> fs_temps fs' = fs_temps fs
        else fs_shared fs' = fs_shared fs
          \<and> (if os_snprintf os \<and> os_mkstemp os \<and> \<not> os_unlink os
              then \<exists>temp. fs_temps fs' = temp # fs_temps fs else fs_temps fs' = fs_temps fs))
    \<and> (WriteFailed \<notin> set (os_writes os) \<longrightarrow> written os c)"
  by (rule write_outcome [OF assms])

lemma length_line_buffer: "length (line_buffer c) \<le> 127"
  by (simp add: line_buffer_def)

definition sample_os :: os_answers where
  "sample_os = \<lparr>os_snprintf = True, os_mkstemp = True, os_fchmod = True, os_fchown = False,
     os_writes = Interrupted # replicate 200 (Wrote 3), os_rename = True, os_unlink = True, os_chown = False,
     os_chmod = True, os_euid = 0, os_egid = 0\<rparr>"

definition sample_command :: command where
  "sample_command = \<lparr>cmd_trip = True, cmd_close = False, cmd_faultType = 1, cmd_protElement = 50, cmd_current = f_8000,
     cmd_voltage = f_14000, cmd_frequency = f_49\<rparr>"

lemma sample_os_good: "length (line_buffer c) \<le> length (filter write_progress (os_writes sample_os))"
    "os_snprintf sample_os" "os_mkstemp sample_os" "WriteFailed \<notin> set (os_writes sample_os)" "os_rename sample_os"
  using length_line_buffer [of c] by (simp_all add: sample_os_def)

theorem shared_file_atomic_witness:
  "(\<exists>fs' own'. writeSharedDataset sample_os sample_command \<lparr>fs_shared = None, fs_temps = []\<rparr> ownership_init = Some (fs', own')
    \<and> map_option sf_content (fs_shared fs') = Some (line_buffer sample_command) \<and> fs_temps fs' = [])
   \<and> (\<exists>fs' own' temp. writeSharedDataset (sample_os\<lparr>os_rename := False, os_unlink := False\<rparr>) sample_command
        \<lparr>fs_shared = None, fs_temps = []\<rparr> ownership_init = Some (fs', own') \<and> fs_shared fs' = None \<and> fs_temps fs' = [temp])"
  using shared_file_atomic [OF sample_os_good(1) [of sample_command], of "\<lparr>fs_shared = None, fs_temps = []\<rparr>" ownership_init]
    shared_file_atomic [of sample_command "sample_os\<lparr>os_rename := False, os_unlink := False\<rparr>"
      "\<lparr>fs_shared = None, fs_temps = []\<rparr>" ownership_init]
    sample_os_good by auto

subsection \<open>The printed line\<close>

lemma strtol10_fmt_int: "strtol10 (fmt_int x) = (sint x, length (fmt_int x))"
proof -
  have "- (2 ^ 31) \<le> sint x" "sint x < 2 ^ 31" using sint_range_size [of x] by (simp_all add: word_size)
  then show ?thesis
    using strtol10_dec(1) [of "nat (sint x)"] strtol10_dec(2) [of "nat (- sint x)"] by (simp add: fmt_int_def)
qed

lemma fmt_int_no_comma: "44 \<notin> set (fmt_int x)"
  using dec_nat_digits(2) by (auto simp: fmt_int_def list_all_iff)

lemma fmt_float_no_comma: "44 \<notin> set (fmt_float k x)"
proof -
  have d: "digit (v mod 10) \<noteq> 44" for v using digit_char [of "v mod 10"] by simp
  have n: "44 \<notin> set (dec_nat n)" for n using dec_nat_digits(2) [of n] by (auto simp: list_all_iff)
  show ?thesis using d n by (auto simp: fmt_float_def Let_def dest: sym)
qed

text \<open>
  The line in the shared file can be read back: split at the commas it has seven fields, the
  first four are decimal numbers that \<open>strtol\<close> reads back to the trip and close commands (0 or 1), the
  fault type and the protection element, and the other three are the printed measurements.
\<close>

theorem dataset_line_roundtrip:
  "split_on 44 (dataset_line c) =
     [fmt_int (if cmd_trip c then 1 else 0), fmt_int (if cmd_close c then 1 else 0), fmt_int (cmd_faultType c),
      fmt_int (cmd_protElement c), fmt_float 1 (cmd_current c), fmt_float 0 (cmd_voltage c), fmt_float 1 (cmd_frequency c)]
   \<and> map (fst \<circ> strtol10) (take 4 (split_on 44 (dataset_line c))) =
     [if cmd_trip c then 1 else 0, if cmd_close c then 1 else 0, sint (cmd_faultType c), sint (cmd_protElement c)]"
proof -
  have "split_on 44 (dataset_line c) =
     [fmt_int (if cmd_trip c then 1 else 0), fmt_int (if cmd_close c then 1 else 0), fmt_int (cmd_faultType c),
      fmt_int (cmd_protElement c), fmt_float 1 (cmd_current c), fmt_float 0 (cmd_voltage c), fmt_float 1 (cmd_frequency c)]"
    unfolding dataset_line_def append_Cons append_Nil
    by (simp only: split_on_sep split_on_no_sep fmt_int_no_comma fmt_float_no_comma not_False_eq_True)
  then show ?thesis by (simp add: strtol10_fmt_int)
qed

lemma largest_float:
  "fmt_float (Suc 0) 0x7f7fffff = dec_nat 340282346638528859811704183484516925440 @ [46, digit 0]"
  "fmt_float 0 0x7f7fffff = dec_nat 340282346638528859811704183484516925440"
  by (simp_all add: fmt_float_def f_scaled_def f_nan_def Let_def)

lemma largest_float_digits: "length (dec_nat 340282346638528859811704183484516925440) = 39"
  by (simp add: dec_nat.simps)

text \<open>
  The buffer of 128 characters is too small for the format: three measurements at the largest
  single precision number make a line of 132 characters, so the file ends in the middle of the last
  field.  Ordinary values print as expected.
\<close>

theorem dataset_line_truncated:
  "length (dataset_line \<lparr>cmd_trip = True, cmd_close = False, cmd_faultType = 1, cmd_protElement = 50,
       cmd_current = 0x7f7fffff, cmd_voltage = 0x7f7fffff, cmd_frequency = 0x7f7fffff\<rparr>) = 132
   \<and> length (line_buffer \<lparr>cmd_trip = True, cmd_close = False, cmd_faultType = 1, cmd_protElement = 50,
       cmd_current = 0x7f7fffff, cmd_voltage = 0x7f7fffff, cmd_frequency = 0x7f7fffff\<rparr>) = 127
   \<and> line_buffer \<lparr>cmd_trip = True, cmd_close = False, cmd_faultType = - 5, cmd_protElement = 50,
       cmd_current = 0x449c5000, cmd_voltage = 0x46241000, cmd_frequency = 0x42473333\<rparr> = str ''1,0,-5,50,1250.5,10500,49.8''"
proof -
  have long: "length (dataset_line \<lparr>cmd_trip = True, cmd_close = False, cmd_faultType = 1, cmd_protElement = 50,
       cmd_current = 0x7f7fffff, cmd_voltage = 0x7f7fffff, cmd_frequency = 0x7f7fffff\<rparr>) = 132"
    by (simp add: dataset_line_def largest_float largest_float_digits fmt_int_def dec_nat.simps [of "Suc 0"] dec_nat.simps [of 0]
        dec_nat.simps [of 50] dec_nat.simps [of 5])
  have "dataset_line \<lparr>cmd_trip = True, cmd_close = False, cmd_faultType = - 5, cmd_protElement = 50,
       cmd_current = 0x449c5000, cmd_voltage = 0x46241000, cmd_frequency = 0x42473333\<rparr> = str ''1,0,-5,50,1250.5,10500,49.8''"
    by (simp add: dataset_line_def fmt_int_def dec_nat.simps fmt_float_def f_scaled_def f_nan_def Let_def round_even_def
        str_def digit_def)
  with long show ?thesis by (simp add: line_buffer_def str_def)
qed

subsection \<open>What the published fault type stands for\<close>

text \<open>The meaning of the fault types that the listener prints beside the number.\<close>

definition fault_legend :: "u32 \<Rightarrow> string option" where
  "fault_legend x = map_of [(0, ''No Fault''), (1, ''Overcurrent''), (2, ''Differential''), (3, ''Distance'')] x"

text \<open>
  C29: What the relay publishes as fault type and protection element, and how the breaker explains it.
  The fault type is the one selected by hand, else 3 if the frequency is out of range, else 2 if the
  voltage is, else 1 if the current is, else the operator's value.  The element is 87 or 21 if fault
  2 or 3 is selected by hand; else, if another fault is selected by hand or a measurement is out of range, the
  element of the measurement with the highest rank (81 before 27 or 59 before 50), or 50 if there is none;
  else the operator's value.  The measured values and the close command are never changed.
  The codes 2 and 3 for voltage and frequency are at odds with the documentation: the breaker's console,
  its panel (breaker_gui.py, line 197) and README.md (line 59) explain them as differential and distance, so
  without a fault selected by hand every frequency trip is shown as a distance fault and
  every voltage trip as a differential fault.
\<close>

theorem reported_fault:
  "(m_fault_type (apply_protection m), m_prot_elem (apply_protection m)) =
     (let e = (if f_less (m_freq m) f_49 \<or> f_less f_51 (m_freq m) then Some (3, 81)
               else if f_less (m_voltage m) f_8000 then Some (2, 27)
               else if f_less f_14000 (m_voltage m) then Some (2, 59)
               else if f_less f_3500 (m_current m) then Some (1, 50) else None)
      in if 0 < sint (m_fault_type m)
         then (m_fault_type m, if m_fault_type m = 2 then 87 else if m_fault_type m = 3 then 21
                               else (case e of Some (_, x) \<Rightarrow> x | None \<Rightarrow> 50))
         else (case e of Some r \<Rightarrow> r | None \<Rightarrow> (m_fault_type m, m_prot_elem m)))
   \<and> fault_legend (m_fault_type (apply_protection (m\<lparr>m_fault_type := 0\<rparr>))) =
     Some (if f_less (m_freq m) f_49 \<or> f_less f_51 (m_freq m) then ''Distance''
           else if f_less (m_voltage m) f_8000 \<or> f_less f_14000 (m_voltage m) then ''Differential''
           else if f_less f_3500 (m_current m) then ''Overcurrent'' else ''No Fault'')
   \<and> m_close (apply_protection m) = m_close m \<and> m_current (apply_protection m) = m_current m
   \<and> m_voltage (apply_protection m) = m_voltage m \<and> m_freq (apply_protection m) = m_freq m"
proof -
  note protection = apply_protection_def protect_def overcurrent_def voltage_protection_def frequency_protection_def
    manual_override_def Let_def
  have "fault_legend (m_fault_type (apply_protection (m\<lparr>m_fault_type := 0\<rparr>))) =
     Some (if f_less (m_freq m) f_49 \<or> f_less f_51 (m_freq m) then ''Distance''
           else if f_less (m_voltage m) f_8000 \<or> f_less f_14000 (m_voltage m) then ''Differential''
           else if f_less f_3500 (m_current m) then ''Overcurrent'' else ''No Fault'')"
    by (simp add: protection fault_legend_def)
  then show ?thesis by (auto simp: protection)
qed

end
