(* ===== verification/Substation.thy ===== *)
theory Substation
  imports BreakerIed
begin

text \<open>
  The substation: the protection relay and the breaker IED on one network.  The theory connects the
  publisher side of \<open>ProtectionIed\<close> with the subscriber side of \<open>BreakerIed\<close> through the message
  transfer of \<open>GooseExchange\<close> and \<open>GooseRepeat\<close>, and shows what the file of the breaker holds after any
  number of rounds.
\<close>

subsection \<open>The data set of the relay\<close>

definition command_of :: "measurements \<Rightarrow> command" where
  "command_of m = \<lparr>cmd_trip = (m_trip m \<noteq> 0), cmd_close = (m_close m \<noteq> 0), cmd_faultType = m_fault_type m,
     cmd_protElement = m_prot_elem m, cmd_current = m_current m, cmd_voltage = m_voltage m, cmd_frequency = m_freq m\<rparr>"

lemma int32_object:
  "\<exists>a. MmsValue_newIntegerFromInt32 x = Some (MMS_INTEGER a) \<and> asn1_wf a \<and> 0 < asn1_size a \<and> asn1_size a \<le> 4
    \<and> BerInteger_toInt32 a = Some x"
proof -
  obtain a where a: "setIntegerValue BerInteger_createInt32 (mem32 x) 4 = Some (True, a)" "asn1_wf a"
    "0 < asn1_size a" "asn1_used a = compressed (rev (mem32 x))"
    using setIntegerValue_fits [of BerInteger_createInt32 "mem32 x" 4] by auto
  then have "asn1_size a \<le> 4" using length_compressed [of "rev (mem32 x)"] length_asn1_used [of a] by (simp add: mem32_def)
  with a show ?thesis
    by (auto simp: MmsValue_newIntegerFromInt32_def BerInteger_createFromInt32_def BerInteger_setInt32_def toInt_value
        be_int_compressed word_of_int_be_mem32)
qed

lemma toInt32_compare:
  assumes "Asn1PrimitivaValue_compare a b = Some True" and "0 < asn1_size a"
  shows "BerInteger_toInt32 b = BerInteger_toInt32 a"
proof -
  obtain xs where xs: "asn1_size b = asn1_size a" "rdn (asn1_octets a) 0 (asn1_size a) = Some xs"
      "rdn (asn1_octets b) 0 (asn1_size a) = Some xs"
    using assms by (auto simp: Asn1PrimitivaValue_compare_def bind_eq_Some_conv split: if_splits)
  then have "rd (asn1_octets a) 0 = rd (asn1_octets b) 0"
    using assms(2) by (cases "asn1_octets a"; cases "asn1_octets b"; cases "asn1_size a") (auto simp: rdn_def rd_def split: if_splits)
  with xs show ?thesis by (simp add: BerInteger_toInt32_def)
qed

lemma equals_forms:
  "MmsValue_equals (MMS_BOOLEAN b) z = Some True \<longleftrightarrow> z = MMS_BOOLEAN b"
  "MmsValue_equals (MMS_INTEGER a) z = Some True \<longleftrightarrow> (\<exists>c. z = MMS_INTEGER c \<and> Asn1PrimitivaValue_compare a c = Some True)"
  "MmsValue_equals (MMS_FLOAT e f mem) z = Some True \<longleftrightarrow> (\<exists>e' f' mem'. z = MMS_FLOAT e' f' mem' \<and> mem_eq mem mem' (f div 8) = Some True)"
  by (cases z; auto)+

lemma le32_mem32: "le32 (mem32 x) = x"
  by (simp add: le32_def be_nat_mem32)

lemma mem_eq_float:
  assumes "mem_eq (overlay (replicate 8 0) 0 (mem32 x)) mem' 4 = Some True"
  shows "rdn mem' 0 4 = Some (mem32 x)"
  using assms by (auto simp: mem_eq_def rdn_def overlay_def mem32_def bind_eq_Some_conv split: if_splits)

lemma dataset_forms:
  obtains a b where "dataset m = Some [Some (MMS_BOOLEAN (m_trip m \<noteq> 0)), Some (MMS_BOOLEAN (m_close m \<noteq> 0)),
      Some (MMS_INTEGER a), Some (MMS_INTEGER b),
      Some (MMS_FLOAT 8 32 (overlay (replicate 8 0) 0 (mem32 (m_current m)))),
      Some (MMS_FLOAT 8 32 (overlay (replicate 8 0) 0 (mem32 (m_voltage m)))),
      Some (MMS_FLOAT 8 32 (overlay (replicate 8 0) 0 (mem32 (m_freq m))))]"
    and "asn1_wf a" and "0 < asn1_size a" and "asn1_size a \<le> 4" and "BerInteger_toInt32 a = Some (m_fault_type m)"
    and "asn1_wf b" and "0 < asn1_size b" and "asn1_size b \<le> 4" and "BerInteger_toInt32 b = Some (m_prot_elem m)"
  using int32_object [of "m_fault_type m"] int32_object [of "m_prot_elem m"]
  by (auto simp: dataset_def MmsValue_newBoolean_def MmsValue_newFloat_def)

text \<open>What the breaker reads from a data set that equals the one of the relay.\<close>

lemma seven: "length zs = 7 \<Longrightarrow> \<exists>z0 z1 z2 z3 z4 z5 z6. zs = [z0, z1, z2, z3, z4, z5, z6]"
  by (simp add: eval_nat_numeral length_Suc_conv) blast

text \<open>The shape of a list that equals the data set of the relay.\<close>

lemma equal_forms:
  assumes "dataset m = Some ds" and "length zs = length ds" and "components_equal ds zs = Some True" and "same_formats ds zs"
  obtains a b e1 e2 e3 x1 x2 x3 where
    "zs = [Some (MMS_BOOLEAN (m_trip m \<noteq> 0)), Some (MMS_BOOLEAN (m_close m \<noteq> 0)), Some (MMS_INTEGER a), Some (MMS_INTEGER b),
      Some (MMS_FLOAT e1 32 x1), Some (MMS_FLOAT e2 32 x2), Some (MMS_FLOAT e3 32 x3)]"
    and "BerInteger_toInt32 a = Some (m_fault_type m)" and "BerInteger_toInt32 b = Some (m_prot_elem m)"
    and "rdn x1 0 4 = Some (mem32 (m_current m))" and "rdn x2 0 4 = Some (mem32 (m_voltage m))"
    and "rdn x3 0 4 = Some (mem32 (m_freq m))"
proof -
  obtain a b where ds: "ds = [Some (MMS_BOOLEAN (m_trip m \<noteq> 0)), Some (MMS_BOOLEAN (m_close m \<noteq> 0)),
      Some (MMS_INTEGER a), Some (MMS_INTEGER b),
      Some (MMS_FLOAT 8 32 (overlay (replicate 8 0) 0 (mem32 (m_current m)))),
      Some (MMS_FLOAT 8 32 (overlay (replicate 8 0) 0 (mem32 (m_voltage m)))),
      Some (MMS_FLOAT 8 32 (overlay (replicate 8 0) 0 (mem32 (m_freq m))))]"
    and i: "0 < asn1_size a" "BerInteger_toInt32 a = Some (m_fault_type m)"
      "0 < asn1_size b" "BerInteger_toInt32 b = Some (m_prot_elem m)"
    using dataset_forms [of m] assms(1) by (metis option.inject)
  have "length zs = 7" using assms(2) ds by simp
  from seven [OF this] obtain z0 z1 z2 z3 z4 z5 z6 where zs: "zs = [z0, z1, z2, z3, z4, z5, z6]" by blast
  have eq: "components_equal (Some v # vs) (z # ws) = Some True \<longleftrightarrow>
      (\<exists>w. z = Some w \<and> MmsValue_equals v w = Some True \<and> components_equal vs ws = Some True)" for v vs z ws
    by (cases z) (auto simp: bind_eq_Some_conv split: if_splits)
  from assms(3) obtain w4 w5 w6 c d where
    w: "z0 = Some (MMS_BOOLEAN (m_trip m \<noteq> 0))" "z1 = Some (MMS_BOOLEAN (m_close m \<noteq> 0))"
      "z2 = Some (MMS_INTEGER c)" "Asn1PrimitivaValue_compare a c = Some True"
      "z3 = Some (MMS_INTEGER d)" "Asn1PrimitivaValue_compare b d = Some True"
      "z4 = Some w4" "MmsValue_equals (MMS_FLOAT 8 32 (overlay (replicate 8 0) 0 (mem32 (m_current m)))) w4 = Some True"
      "z5 = Some w5" "MmsValue_equals (MMS_FLOAT 8 32 (overlay (replicate 8 0) 0 (mem32 (m_voltage m)))) w5 = Some True"
      "z6 = Some w6" "MmsValue_equals (MMS_FLOAT 8 32 (overlay (replicate 8 0) 0 (mem32 (m_freq m)))) w6 = Some True"
    unfolding ds zs eq equals_forms(1,2) by blast
  have fl: "\<exists>e x. w = MMS_FLOAT e 32 x \<and> rdn x 0 4 = Some (mem32 v)"
    if "MmsValue_equals (MMS_FLOAT 8 32 (overlay (replicate 8 0) 0 (mem32 v))) w = Some True"
      "same_format (MMS_FLOAT 8 32 (overlay (replicate 8 0) 0 (mem32 v))) w" for v w
    using that by (cases w) (auto simp: same_format_def intro: mem_eq_float)
  have sf: "same_format (MMS_FLOAT 8 32 (overlay (replicate 8 0) 0 (mem32 (m_current m)))) w4"
    "same_format (MMS_FLOAT 8 32 (overlay (replicate 8 0) 0 (mem32 (m_voltage m)))) w5"
    "same_format (MMS_FLOAT 8 32 (overlay (replicate 8 0) 0 (mem32 (m_freq m)))) w6"
    using assms(4) unfolding ds zs w by (simp_all only: same_formats_simps)
  obtain e1 x1 e2 x2 e3 x3 where "w4 = MMS_FLOAT e1 32 x1" "rdn x1 0 4 = Some (mem32 (m_current m))"
      "w5 = MMS_FLOAT e2 32 x2" "rdn x2 0 4 = Some (mem32 (m_voltage m))"
      "w6 = MMS_FLOAT e3 32 x3" "rdn x3 0 4 = Some (mem32 (m_freq m))"
    using fl [OF w(8) sf(1)] fl [OF w(10) sf(2)] fl [OF w(12) sf(3)] by auto
  moreover have "BerInteger_toInt32 c = Some (m_fault_type m)" "BerInteger_toInt32 d = Some (m_prot_elem m)"
    using toInt32_compare [OF w(4) i(1)] toInt32_compare [OF w(6) i(3)] i(2,4) by simp_all
  ultimately show ?thesis using zs w(1,2,3,5,7,9,11) by (intro that [of c d e1 x1 e2 x2 e3 x3]) simp_all
qed

lemma read_command_equal:
  assumes "dataset m = Some ds" and "length zs = length ds" and "components_equal ds zs = Some True" and "same_formats ds zs"
  shows "read_command (MMS_ARRAY zs) = Some (command_of m)"
  by (rule equal_forms [OF assms]) (simp add: read_command_def command_of_def le32_mem32)

definition slots_ok :: "MmsValue option list \<Rightarrow> bool" where
  "slots_ok ws \<longleftrightarrow> (\<forall>m ds. dataset m = Some ds \<longrightarrow> components_fit ws ds)"

lemma fresh_same: "fresh_formats vs zs \<Longrightarrow> same_formats vs zs"
  unfolding fresh_formats_def same_formats_def
  by (erule list_all2_mono) (auto simp: fresh_format_def split: option.splits)

lemma fresh_slots_ok:
  assumes "dataset m = Some ds" and "length zs = length ds" and "components_equal ds zs = Some True" and "fresh_formats ds zs"
  shows "slots_ok zs"
proof (rule equal_forms [OF assms(1-3) fresh_same [OF assms(4)]])
  fix a b e1 e2 e3 x1 x2 x3
  assume zs: "zs = [Some (MMS_BOOLEAN (m_trip m \<noteq> 0)), Some (MMS_BOOLEAN (m_close m \<noteq> 0)), Some (MMS_INTEGER a), Some (MMS_INTEGER b),
      Some (MMS_FLOAT e1 32 x1), Some (MMS_FLOAT e2 32 x2), Some (MMS_FLOAT e3 32 x3)]"
  have "4 \<le> asn1_maxSize a \<and> 4 \<le> asn1_maxSize b"
    using assms(4) dataset_forms [of m] assms(1) unfolding zs by (fastforce simp: fresh_format_def roomy_def)
  moreover have "components_fit zs ds'" if "dataset m' = Some ds'" "4 \<le> asn1_maxSize a" "4 \<le> asn1_maxSize b" for m' ds'
    using that by (rule_tac m = m' in dataset_forms) (auto simp: zs)
  ultimately show "slots_ok zs" by (auto simp: slots_ok_def)
qed

lemma dataset_facts:
  "\<exists>ds. dataset m = Some ds \<and> length ds = 7 \<and> dataset_ok ds \<and> mms_wf_components ds \<and> components_goose_ok ds
    \<and> length (components_bytes ds) \<le> 60"
  by (rule dataset_forms [of m]) (auto simp: wire_simps length_ber_len length_ber_float)

subsection \<open>Relay and breaker on one network\<close>

text \<open>
  A run of the substation: in every round the relay publishes and the breaker receives the packet.
  The round supplies what the panel file holds, the clocks of both devices and the answers of the
  breaker's operating system.
\<close>

record round =
  rnd_gui :: gui_data
  rnd_time :: u64
  rnd_arrival :: u64
  rnd_os :: os_answers

definition substation_round ::
    "cstring option \<Rightarrow> cstring option \<Rightarrow> round \<Rightarrow> protection_ied \<times> breaker \<Rightarrow> (protection_ied \<times> breaker) option" where
  "substation_round uidEnv gidEnv r st = do {
     (packet, _, ied) \<leftarrow> protection_step (fst st) (rnd_gui r) (rnd_time r);
     b \<leftarrow> (case packet of None \<Rightarrow> Some (snd st) | Some p \<Rightarrow> breaker_step uidEnv gidEnv (rnd_os r) (snd st) p (rnd_arrival r));
     Some (ied, b) }"

fun substation_run ::
    "cstring option \<Rightarrow> cstring option \<Rightarrow> round list \<Rightarrow> protection_ied \<times> breaker \<Rightarrow> (protection_ied \<times> breaker) option" where
  "substation_run uidEnv gidEnv [] st = Some st"
| "substation_run uidEnv gidEnv (r # rs) st = do {
     st \<leftarrow> substation_round uidEnv gidEnv r st;
     substation_run uidEnv gidEnv rs st }"

definition os_good :: "os_answers \<Rightarrow> bool" where
  "os_good os \<longleftrightarrow> os_snprintf os \<and> os_mkstemp os \<and> os_rename os \<and> WriteFailed \<notin> set (os_writes os)
     \<and> 127 \<le> length (filter write_progress (os_writes os))"

text \<open>What holds between the two devices before every round.\<close>

definition relay_ok :: "bytes \<Rightarrow> GoosePublisher \<Rightarrow> bool" where
  "relay_ok srcAddr p \<longleftrightarrow> gp_wf p \<and> gp_header p = frame_header ied_parameters srcAddr True
     \<and> gp_goCBRef p = Some ied_goCbRef \<and> gp_dataSetRef p = Some ied_dataSetRef \<and> gp_goID p = None \<and> gp_confRev p = 1
     \<and> gp_timeAllowedToLive p = 500"

definition breaker_ok :: "GooseSubscriber \<Rightarrow> bool" where
  "breaker_ok s \<longleftrightarrow> sub_ok s \<and> \<not> gs_isObserver s \<and> interested ied_parameters s \<and> gs_listener s
     \<and> gs_goCBRefLen s = length ied_goCbRef \<and> take (length ied_goCbRef) (gs_goCBRef s) = ied_goCbRef
     \<and> (\<forall>v. gs_dataSetValues s = Some v \<longrightarrow> gs_confRev s = 1 \<and> (\<exists>ws. v = MMS_ARRAY ws \<and> slots_ok ws))"

definition linked :: "bytes \<Rightarrow> protection_ied \<times> breaker \<Rightarrow> bool" where
  "linked srcAddr st \<longleftrightarrow> relay_ok srcAddr (ied_publisher (fst st))
     \<and> length (gr_buffer (br_receiver (snd st))) = ETH_BUFFER_LENGTH
     \<and> (\<exists>s. gr_subscriberList (br_receiver (snd st)) = [s] \<and> breaker_ok s)"

lemma relay_message:
  assumes "relay_ok srcAddr p" and "length srcAddr = 6" and "dataset m = Some ds"
  shows "gp_payloadStart p + length (goose_pdu p ds) \<le> GOOSE_MAX_MESSAGE_SIZE"
proof -
  obtain ds' where "dataset m = Some ds'" "length (components_bytes ds') \<le> 60" using dataset_facts [of m] by blast
  with assms(3) have ds: "length (components_bytes ds) \<le> 60" by simp
  have "opt_len (gp_goCBRef p) = 41" "opt_len (gp_dataSetRef p) = 35" "opt_len (gp_goID p) = 0" "gp_payloadStart p \<le> 26"
    using assms(1) by (auto simp: relay_ok_def opt_len_def ied_goCbRef_def ied_dataSetRef_def str_def gp_wf_def)
  with length_goose_pdu_le [of p ds] ds show ?thesis by (simp add: GOOSE_MAX_MESSAGE_SIZE_def)
qed

lemma relay_publish:
  assumes "relay_ok srcAddr p" and "length srcAddr = 6" and "dataset m = Some ds"
  shows "\<exists>p'. GoosePublisher_publish p ds = Some (0, Some (goose_frame p ds), p') \<and> relay_ok srcAddr p'
    \<and> gp_stNum p' = gp_stNum p \<and> gp_sqNum p' = next_sqNum (gp_sqNum p) \<and> length (goose_frame p ds) \<le> GOOSE_MAX_MESSAGE_SIZE"
proof -
  note small = relay_message [OF assms]
  then have n: "length (goose_pdu p ds) < 65535" by (simp add: GOOSE_MAX_MESSAGE_SIZE_def)
  have wf: "gp_wf p" and ds: "dataset_ok ds" using assms(1,3) dataset_facts [of m] by (auto simp: relay_ok_def)
  from publish_eq [OF wf ds n] small obtain buffer where
    b: "GoosePublisher_publish p ds = Some (0, Some (goose_frame p ds),
      p\<lparr>gp_buffer := buffer, gp_payloadLength := int (length (goose_pdu p ds)), gp_sqNum := next_sqNum (gp_sqNum p)\<rparr>)"
      "length buffer = GOOSE_MAX_MESSAGE_SIZE" "take (gp_lengthField p) buffer = gp_header p" by auto
  moreover have "relay_ok srcAddr (p\<lparr>gp_buffer := buffer, gp_payloadLength := int (length (goose_pdu p ds)),
      gp_sqNum := next_sqNum (gp_sqNum p)\<rparr>)"
    using assms(1) b(2,3) by (simp add: relay_ok_def gp_wf_def gp_header_def)
  moreover have "length (goose_frame p ds) = gp_payloadStart p + length (goose_pdu p ds)"
    using wf by (auto simp: goose_frame_def Let_def gp_wf_def gp_header_def gp_reserved_def GOOSE_MAX_MESSAGE_SIZE_def)
  ultimately show ?thesis using small by auto
qed

lemma relay_increase:
  assumes "relay_ok srcAddr p"
  shows "\<exists>p'. GoosePublisher_increaseStNum p now = Some (now, p') \<and> relay_ok srcAddr p'"
proof -
  obtain t where "gp_timestamp p = MMS_UTC_TIME t" using assms by (auto simp: relay_ok_def gp_wf_def)
  then show ?thesis using assms
    by (auto simp: GoosePublisher_increaseStNum_def Let_def relay_ok_def gp_wf_def gp_header_def setUtcTimeMs_members)
qed

lemma relay_step:
  assumes "relay_ok srcAddr (ied_publisher ied)" and "length srcAddr = 6"
  shows "\<exists>p ds t ied'. relay_ok srcAddr p \<and> dataset (apply_protection (read_gui g)) = Some ds
    \<and> protection_step ied g now = Some (Some (goose_frame p ds), t, ied') \<and> relay_ok srcAddr (ied_publisher ied')"
proof -
  let ?m = "apply_protection (read_gui g)" and ?c = "\<not> ied_first_publish ied \<and> changed (apply_protection (read_gui g)) (ied_prev ied)"
  obtain p where p: "(if ?c then map_option snd (GoosePublisher_increaseStNum (ied_publisher ied) now) else Some (ied_publisher ied)) = Some p"
    "relay_ok srcAddr p"
    using relay_increase [OF assms(1), of now] assms(1) by (cases ?c) auto
  obtain ds where ds: "dataset ?m = Some ds" using dataset_facts by blast
  from relay_publish [OF p(2) assms(2) ds] p ds show ?thesis by (auto simp: protection_step_def Let_def)
qed

lemma received_sub_ok:
  assumes "gp_wf p" and "sub_ok s" and "components_valid zs"
  shows "sub_ok (received p now s zs)" and "sub_ok (received_again p now s zs)"
  using assms
  by (auto simp: sub_ok_def gs_wf_def gp_wf_def received_def received_again_def received_header_def received_names_def name_sem_def
      is_list_def is_scalar_def)

lemma breaker_receives:
  assumes "relay_ok srcAddr p" and "length srcAddr = 6" and "dataset m = Some ds" and "breaker_ok s"
  shows "\<exists>t zs. parseGooseMessage [s] (goose_frame p ds @ r) (length (goose_frame p ds)) now = Some ([t], Some 0)
    \<and> breaker_ok t \<and> gs_invalidityTime t = now + 500 \<and> gs_dataSetValues t = Some (MMS_ARRAY zs) \<and> length zs = 7 \<and> read_command (MMS_ARRAY zs) = Some (command_of m)"
proof -
  have wf: "gp_wf p" "gp_header p = frame_header ied_parameters srcAddr True" "length (dstAddress ied_parameters) = 6"
    using assms(1) by (auto simp: relay_ok_def ied_parameters_def)
  have ds: "dataset_ok ds" "mms_wf_components ds" "components_goose_ok ds" "length ds = 7"
    using dataset_facts [of m] assms(3) by auto
  note small = relay_message [OF assms(1-3)]
  have subs: "plain_subs [s]" "list_ex (interested ied_parameters) [s]" "find_ref (opt_bytes (gp_goCBRef p)) [s] = Some 0"
    using assms(1,4) by (auto simp: relay_ok_def breaker_ok_def plain_subs_def opt_bytes_def)
  have lis: "gs_listener s" and ok: "sub_ok s" using assms(4) by (auto simp: breaker_ok_def)
  obtain p' where pub: "GoosePublisher_publish p ds = Some (0, Some (goose_frame p ds), p')"
    using relay_publish [OF assms(1-3)] by auto
  show ?thesis
  proof (cases "gs_dataSetValues s")
    case None
    then have "gs_dataSetValues ([s] ! 0) = None" by simp
    from delivery [OF wf assms(2) ds(1-3) small subs this, of r now] pub lis obtain zs where
      zs: "parseGooseMessage [s] (goose_frame p ds @ r) (length (goose_frame p ds)) now = Some ([received p now s zs], Some 0)"
        "length zs = length ds" "components_equal ds zs = Some True" "fresh_formats ds zs" "components_valid zs" by auto
    have "breaker_ok (received p now s zs)"
      using assms(1,4) received_sub_ok(1) [OF wf(1) ok zs(5)] fresh_slots_ok [OF assms(3) zs(2-4)]
      by (auto simp: breaker_ok_def relay_ok_def received_def received_names_def interested_def)
    with zs read_command_equal [OF assms(3) zs(2,3) fresh_same [OF zs(4)]] ds(4) assms(1) show ?thesis
      by (intro exI [of _ "received p now s zs"] exI [of _ zs]) (simp add: received_def relay_ok_def)
  next
    case (Some v)
    then obtain ws where ws: "gs_dataSetValues ([s] ! 0) = Some (MMS_ARRAY ws)" "slots_ok ws" "gs_confRev s = 1"
      using assms(4) by (auto simp: breaker_ok_def)
    have cr: "gs_dataSetValuesSelfAllocated ([s] ! 0) \<longrightarrow> gs_confRev ([s] ! 0) = gp_confRev p"
      using ws(3) assms(1) by (simp add: relay_ok_def)
    have fit: "components_fit ws ds" using ws(2) assms(3) by (simp add: slots_ok_def)
    from delivery_again [OF wf assms(2) ds(1-3) small subs ws(1) cr fit, of r now] pub lis obtain zs where
      zs: "parseGooseMessage [s] (goose_frame p ds @ r) (length (goose_frame p ds)) now = Some ([received_again p now s zs], Some 0)"
        "length zs = length ds" "components_equal ds zs = Some True" "same_formats ds zs" "components_valid zs"
        "\<forall>us. components_fit ws us \<longrightarrow> components_fit zs us" by (auto simp: updated_def)
    have "slots_ok zs" using ws(2) zs(6) by (auto simp: slots_ok_def)
    then have "breaker_ok (received_again p now s zs)"
      using assms(1,4) received_sub_ok(2) [OF wf(1) ok zs(5)]
      by (auto simp: breaker_ok_def relay_ok_def received_again_def received_header_def received_names_def interested_def)
    with zs read_command_equal [OF assms(3) zs(2-4)] ds(4) assms(1) show ?thesis
      by (intro exI [of _ "received_again p now s zs"] exI [of _ zs]) (simp add: received_again_def relay_ok_def)
  qed
qed

lemma write_good:
  assumes "os_good os"
  shows "\<exists>fs' own'. writeSharedDataset os c fs own = Some (fs', own')
    \<and> map_option sf_content (fs_shared fs') = Some (line_buffer c)"
  using write_outcome [of c os fs own] assms length_line_buffer [of c] by (auto simp: os_good_def)

lemma substation_round_ok:
  assumes "linked srcAddr st" and "length srcAddr = 6" and "os_good (rnd_os r)"
  shows "\<exists>st'. substation_round uidEnv gidEnv r st = Some st' \<and> linked srcAddr st'
    \<and> map_option sf_content (fs_shared (br_files (snd st')))
        = Some (line_buffer (command_of (apply_protection (read_gui (rnd_gui r)))))
    \<and> (\<exists>s. gr_subscriberList (br_receiver (snd st')) = [s] \<and> gs_invalidityTime s = rnd_arrival r + 500)"
proof -
  let ?m = "apply_protection (read_gui (rnd_gui r))"
  obtain ied b where st: "st = (ied, b)" by (cases st)
  then obtain s where s: "gr_subscriberList (br_receiver b) = [s]" "breaker_ok s"
      "relay_ok srcAddr (ied_publisher ied)" "length (gr_buffer (br_receiver b)) = ETH_BUFFER_LENGTH"
    using assms(1) by (auto simp: linked_def)
  from relay_step [OF s(3) assms(2), of "rnd_gui r" "rnd_time r"] obtain p ds t ied' where
    p: "relay_ok srcAddr p" "dataset ?m = Some ds" "protection_step ied (rnd_gui r) (rnd_time r) = Some (Some (goose_frame p ds), t, ied')"
      "relay_ok srcAddr (ied_publisher ied')" by blast
  let ?f = "goose_frame p ds" and ?rest = "drop (length (goose_frame p ds)) (gr_buffer (br_receiver b))"
  have f: "length ?f \<le> 1518" "?f \<noteq> []"
    using relay_publish [OF p(1) assms(2) p(2)] by (auto simp: GOOSE_MAX_MESSAGE_SIZE_def goose_frame_def Let_def)
  have buf: "overlay (gr_buffer (br_receiver b)) 0 ?f = ?f @ ?rest" by (simp add: overlay_def)
  have lb: "length (?f @ ?rest) = ETH_BUFFER_LENGTH" using f(1) s(4) by (simp add: ETH_BUFFER_LENGTH_def)
  from breaker_receives [OF p(1) assms(2) p(2) s(2), of ?rest "rnd_arrival r"] obtain u zs where
    u: "parseGooseMessage [s] (?f @ ?rest) (length ?f) (rnd_arrival r) = Some ([u], Some 0)" "breaker_ok u" "gs_invalidityTime u = rnd_arrival r + 500"
      "gs_dataSetValues u = Some (MMS_ARRAY zs)" "length zs = 7" "read_command (MMS_ARRAY zs) = Some (command_of ?m)" by blast
  obtain fs own where w: "writeSharedDataset (rnd_os r) (command_of ?m) (br_files b)
        (initFileOwnership uidEnv gidEnv (br_files b) (br_ownership b)) = Some (fs, own)"
      "map_option sf_content (fs_shared fs) = Some (line_buffer (command_of ?m))"
    using write_good [OF assms(3)] by blast
  have tick: "GooseReceiver_tick (br_receiver b) ?f (rnd_arrival r)
      = Some (True, (br_receiver b)\<lparr>gr_buffer := ?f @ ?rest, gr_subscriberList := [u]\<rparr>, Some 0)"
    using u(1) s(1) f(2) buf by (simp add: GooseReceiver_tick_def Let_def)
  have "breaker_step uidEnv gidEnv (rnd_os r) b ?f (rnd_arrival r)
      = Some (b\<lparr>br_receiver := (br_receiver b)\<lparr>gr_buffer := ?f @ ?rest, gr_subscriberList := [u]\<rparr>,
                br_ownership := own, br_files := fs\<rparr>)"
    using u w(1) by (simp add: breaker_step_def tick gooseListener_def Let_def)
  then show ?thesis using p u w lb st by (simp add: substation_round_def linked_def)
qed

lemma substation_run_ok:
  assumes "linked srcAddr st" and "length srcAddr = 6" and "list_all (\<lambda>r. os_good (rnd_os r)) rs"
  shows "\<exists>st'. substation_run uidEnv gidEnv rs st = Some st' \<and> linked srcAddr st'
    \<and> (rs \<noteq> [] \<longrightarrow> map_option sf_content (fs_shared (br_files (snd st')))
        = Some (line_buffer (command_of (apply_protection (read_gui (rnd_gui (last rs)))))))"
  using assms(1,3)
proof (induction rs arbitrary: st)
  case (Cons r rs)
  from substation_round_ok [OF Cons.prems(1) assms(2), of r uidEnv gidEnv] Cons.prems(2) obtain st1 where
    st1: "substation_round uidEnv gidEnv r st = Some st1" "linked srcAddr st1"
      "map_option sf_content (fs_shared (br_files (snd st1)))
        = Some (line_buffer (command_of (apply_protection (read_gui (rnd_gui r)))))" by auto
  from Cons.IH [OF st1(2)] Cons.prems(2) obtain st' where
    "substation_run uidEnv gidEnv rs st1 = Some st'" "linked srcAddr st'"
    "rs \<noteq> [] \<longrightarrow> map_option sf_content (fs_shared (br_files (snd st')))
        = Some (line_buffer (command_of (apply_protection (read_gui (rnd_gui (last rs))))))" by auto
  with st1 show ?case by (cases "rs = []") auto
qed simp

lemma relay_init:
  assumes "length srcAddr = 6"
  shows "\<exists>ied. protection_init srcAddr True now = Some (Some ied) \<and> relay_ok srcAddr (ied_publisher ied)
    \<and> ied_first_publish ied \<and> gp_stNum (ied_publisher ied) = 1"
proof -
  obtain self where "GoosePublisher_createEx (Some ied_parameters) srcAddr True now True = Some (Some self)"
      "gp_wf self" "gp_header self = frame_header ied_parameters srcAddr True" "gp_goID self = None" "gp_stNum self = 1"
    using create_ok [of ied_parameters srcAddr now True] assms by (auto simp: ied_parameters_def)
  then show ?thesis
    by (simp add: protection_init_def GoosePublisher_create_def relay_ok_def Let_def GoosePublisher_setGoCbRef_def
        GoosePublisher_setConfRev_def GoosePublisher_setDataSetRef_def GoosePublisher_setTimeAllowedToLive_def gp_wf_def gp_header_def)
qed

lemma breaker_start:
  "\<exists>b s. breaker_init argument fs = Some b \<and> gr_subscriberList (br_receiver b) = [s] \<and> breaker_ok s \<and> br_files b = fs
    \<and> length (gr_buffer (br_receiver b)) = ETH_BUFFER_LENGTH"
proof -
  let ?ref = "str ''simpleIOGenericIO/LLN0$GO$gcbAnalogValues''"
  have ref: "length ?ref = 41" "0 \<notin> set ?ref" by (simp_all add: str_def)
  note copy = copyStringMax_short [of ?ref 130 0]
  show ?thesis using copy ref
    by (simp add: breaker_init_def GooseSubscriber_create_def GooseSubscriber_setDstMac_def GooseSubscriber_setAppId_def
        GooseSubscriber_setListener_def GooseReceiver_addSubscriber_def GooseReceiver_setInterfaceId_def GooseReceiver_create_def
        GooseReceiver_createEx_def breaker_ok_def sub_ok_def gs_wf_def MmsValue_newUtcTime_def interested_def ied_parameters_def
        ied_goCbRef_def rdn_def Let_def)
qed

text \<open>
  C1: The whole chain.  Start the relay and the breaker, and let them run for any number of rounds:
  every round completes, and after it the file that the breaker leaves for the operator panel holds exactly
  the record of what the relay decided in that round - the trip command included - whatever the
  panel's input, the clocks and the counters were, provided that the packets arrive in order and the
  system calls of the breaker that replace the file succeed.
\<close>

theorem relay_command_reaches_breaker:
  assumes "length srcAddr = 6" and "list_all (\<lambda>r. os_good (rnd_os r)) rs" and "rs \<noteq> []"
  shows "\<exists>ied b ied' b'. protection_init srcAddr True now = Some (Some ied) \<and> breaker_init argument fs = Some b
    \<and> substation_run uidEnv gidEnv rs (ied, b) = Some (ied', b')
    \<and> map_option sf_content (fs_shared (br_files b'))
        = Some (line_buffer (command_of (apply_protection (read_gui (rnd_gui (last rs))))))"
proof -
  obtain ied where ied: "protection_init srcAddr True now = Some (Some ied)" "relay_ok srcAddr (ied_publisher ied)"
    using relay_init [OF assms(1)] by blast
  obtain b where b: "breaker_init argument fs = Some b" "linked srcAddr (ied, b)"
    using breaker_start [of argument fs] ied(2) by (auto simp: linked_def)
  from substation_run_ok [OF b(2) assms(1,2), of uidEnv gidEnv] assms(3) ied(1) b(1) show ?thesis by fastforce
qed

definition sample_gui :: gui_data where
  "sample_gui = \<lparr>gui_trip = None, gui_close = None, gui_fault_type = None, gui_prot_elem = None,
     gui_current = Some f_8000, gui_voltage = None, gui_freq = None\<rparr>"

definition sample_round :: round where
  "sample_round = \<lparr>rnd_gui = sample_gui, rnd_time = 1000, rnd_arrival = 1004, rnd_os = sample_os\<rparr>"

lemma sample_round_good: "os_good (rnd_os sample_round)"
  by (simp add: sample_round_def os_good_def sample_os_def)

lemma sample_round_line:
  "line_buffer (command_of (apply_protection (read_gui (rnd_gui sample_round)))) = str ''1,0,1,50,8000.0,10500,49.8''"
  by (simp add: sample_round_def sample_gui_def line_buffer_def command_of_def apply_protection_def protect_def overcurrent_def
      voltage_protection_def frequency_protection_def manual_override_def read_gui_def or_default_def f_less_def f_nan_def
      f_key_def f_3500_def f_8000_def f_14000_def f_49_def f_51_def Let_def dataset_line_def fmt_int_def dec_nat.simps
      fmt_float_def f_scaled_def round_even_def str_def digit_def)

theorem relay_command_reaches_breaker_witness:
  "\<exists>ied b ied' b'. protection_init [2, 0, 0, 0, 0, 1] True 5 = Some (Some ied)
    \<and> breaker_init None \<lparr>fs_shared = None, fs_temps = []\<rparr> = Some b
    \<and> substation_run None None [sample_round] (ied, b) = Some (ied', b')
    \<and> map_option sf_content (fs_shared (br_files b')) = Some (str ''1,0,1,50,8000.0,10500,49.8'')"
  using relay_command_reaches_breaker [of "[2, 0, 0, 0, 0, 1]" "[sample_round]" 5 None "\<lparr>fs_shared = None, fs_temps = []\<rparr>" None None]
    sample_round_good sample_round_line by simp

text \<open>
  C30: One round of the relay.  It always completes and publishes a message; the state number is
  increased, and the sequence number restarted, exactly when a published value differs from the
  previous round and this is not the first round; only then the relay sleeps 4 ms, otherwise 1000 ms.
  The theorem states what the code does, which is not what README.md (lines 101 to 103) documents: there
  the first three messages after a change are 4 ms apart and the next few 100 ms, while in the code
  only the first message after a change is followed by 4 ms, the second already by 1000 ms, and no
  sleep is of 100 ms.  The state number is assumed not to wrap around.
\<close>

theorem protection_round:
  assumes "relay_ok srcAddr (ied_publisher ied)" and "length srcAddr = 6" and "unat (gp_stNum (ied_publisher ied)) + 1 < 2 ^ 32"
  shows "\<exists>packet ied' m. m = apply_protection (read_gui g) \<and>
     protection_step ied g now =
       Some (Some packet, if \<not> ied_first_publish ied \<and> changed m (ied_prev ied) then 4 else 1000, ied')
     \<and> relay_ok srcAddr (ied_publisher ied') \<and> ied_prev ied' = m \<and> \<not> ied_first_publish ied'
     \<and> (gp_stNum (ied_publisher ied'), gp_sqNum (ied_publisher ied')) =
         (if \<not> ied_first_publish ied \<and> changed m (ied_prev ied)
          then (gp_stNum (ied_publisher ied) + 1, 1)
          else (gp_stNum (ied_publisher ied), next_sqNum (gp_sqNum (ied_publisher ied))))"
proof -
  let ?m = "apply_protection (read_gui g)" and ?p = "ied_publisher ied"
  obtain ds where ds: "dataset ?m = Some ds" using dataset_facts by blast
  show ?thesis
  proof (cases "\<not> ied_first_publish ied \<and> changed ?m (ied_prev ied)")
    case True
    obtain p where p: "GoosePublisher_increaseStNum ?p now = Some (now, p)" "relay_ok srcAddr p"
      using relay_increase [OF assms(1)] by blast
    have n: "gp_stNum p = gp_stNum ?p + 1" "gp_sqNum p = 0"
      using p(1) unat_Suc_word [OF assms(3)] by (auto simp: GoosePublisher_increaseStNum_def Let_def bind_eq_Some_conv)
    from relay_publish [OF p(2) assms(2) ds] True p n ds show ?thesis
      by (auto simp: protection_step_def Let_def next_sqNum_def)
  next
    case False
    from relay_publish [OF assms(1,2) ds] False ds show ?thesis
      by (auto simp: protection_step_def Let_def)
  qed
qed

definition normal_gui :: gui_data where
  "normal_gui = sample_gui\<lparr>gui_current := None\<rparr>"

lemma sample_changes:
  "changed (apply_protection (read_gui normal_gui)) (apply_protection (read_gui sample_gui))"
  "\<not> changed (apply_protection (read_gui normal_gui)) (apply_protection (read_gui normal_gui))"
  by (simp_all add: changed_def normal_gui_def sample_gui_def apply_protection_def protect_def overcurrent_def
      voltage_protection_def frequency_protection_def manual_override_def read_gui_def or_default_def f_less_def f_eq_def
      f_nan_def f_key_def f_3500_def f_8000_def f_14000_def f_49_def f_51_def Let_def)

text \<open>
  Three rounds: the first message, a change of the measured current, and the same values again.  The
  second and third message show the two sleeps after a change.
\<close>

theorem protection_round_witness:
  "\<exists>ied p1 ied1 p2 ied2 p3 ied3. protection_init [2, 0, 0, 0, 0, 1] True 5 = Some (Some ied)
    \<and> protection_step ied sample_gui 1000 = Some (Some p1, 1000, ied1) \<and> gp_stNum (ied_publisher ied1) = 1
    \<and> protection_step ied1 normal_gui 2000 = Some (Some p2, 4, ied2)
    \<and> gp_stNum (ied_publisher ied2) = 2 \<and> gp_sqNum (ied_publisher ied2) = 1
    \<and> protection_step ied2 normal_gui 2004 = Some (Some p3, 1000, ied3)
    \<and> gp_stNum (ied_publisher ied3) = 2 \<and> gp_sqNum (ied_publisher ied3) = 2"
proof -
  let ?src = "[2, 0, 0, 0, 0, 1]"
  obtain ied where ied: "protection_init ?src True 5 = Some (Some ied)" "relay_ok ?src (ied_publisher ied)"
      "ied_first_publish ied" "gp_stNum (ied_publisher ied) = 1"
    using relay_init [of ?src 5] by auto
  from protection_round [OF ied(2), of sample_gui 1000] ied obtain p1 ied1 where
    r1: "protection_step ied sample_gui 1000 = Some (Some p1, 1000, ied1)" "relay_ok ?src (ied_publisher ied1)"
      "ied_prev ied1 = apply_protection (read_gui sample_gui)" "\<not> ied_first_publish ied1" "gp_stNum (ied_publisher ied1) = 1"
    by auto
  from protection_round [OF r1(2), of normal_gui 2000] r1 sample_changes obtain p2 ied2 where
    r2: "protection_step ied1 normal_gui 2000 = Some (Some p2, 4, ied2)" "relay_ok ?src (ied_publisher ied2)"
      "ied_prev ied2 = apply_protection (read_gui normal_gui)" "\<not> ied_first_publish ied2"
      "gp_stNum (ied_publisher ied2) = 2" "gp_sqNum (ied_publisher ied2) = 1"
    by auto
  from protection_round [OF r2(2), of normal_gui 2004] r2 sample_changes obtain p3 ied3 where
    "protection_step ied2 normal_gui 2004 = Some (Some p3, 1000, ied3)"
      "gp_stNum (ied_publisher ied3) = 2" "gp_sqNum (ied_publisher ied3) = 2"
    by (auto simp: next_sqNum_def)
  with ied(1) r1(1,5) r2(1,5,6) show ?thesis by blast
qed

text \<open>
  Between two heartbeats the breaker's data expires: the relay repeats an unchanged message after
  1000 ms but announces a time to live of 500 ms, so from 501 ms after the arrival until the next
  message the subscriber is invalid.
\<close>

theorem heartbeat_gap:
  assumes "linked srcAddr st" and "length srcAddr = 6" and "os_good (rnd_os r)"
    and "unat (rnd_arrival r) + 1000 < 2 ^ 64" and "500 < d" and "d \<le> 1000"
  shows "\<exists>st' s. substation_round uidEnv gidEnv r st = Some st' \<and> gr_subscriberList (br_receiver (snd st')) = [s]
    \<and> \<not> GooseSubscriber_isValid s (rnd_arrival r + word_of_nat d)"
proof -
  obtain st' s where st': "substation_round uidEnv gidEnv r st = Some st'" "gr_subscriberList (br_receiver (snd st')) = [s]"
      "gs_invalidityTime s = rnd_arrival r + 500"
    using substation_round_ok [OF assms(1-3), of uidEnv gidEnv] by auto
  have "unat (rnd_arrival r + 500) = unat (rnd_arrival r) + 500"
    "unat (rnd_arrival r + word_of_nat d) = unat (rnd_arrival r) + d"
    using assms(4-6) by (simp_all add: unat_word_ariths unsigned_of_nat take_bit_eq_mod)
  with assms(5) st' show ?thesis by (auto simp: GooseSubscriber_isValid_def word_less_nat_alt)
qed

theorem heartbeat_gap_witness:
  "\<exists>ied b st' s. protection_init [2, 0, 0, 0, 0, 1] True 5 = Some (Some ied)
    \<and> breaker_init None \<lparr>fs_shared = None, fs_temps = []\<rparr> = Some b
    \<and> substation_round None None sample_round (ied, b) = Some st' \<and> gr_subscriberList (br_receiver (snd st')) = [s]
    \<and> \<not> GooseSubscriber_isValid s (rnd_arrival sample_round + word_of_nat 501)"
proof -
  obtain ied b where i: "protection_init [2, 0, 0, 0, 0, 1] True 5 = Some (Some ied)"
      "breaker_init None \<lparr>fs_shared = None, fs_temps = []\<rparr> = Some b" "linked [2, 0, 0, 0, 0, 1] (ied, b)"
    using relay_init [of "[2, 0, 0, 0, 0, 1]" 5] breaker_start [of None "\<lparr>fs_shared = None, fs_temps = []\<rparr>"]
    by (fastforce simp: linked_def)
  have "unat (rnd_arrival sample_round) + 1000 < 2 ^ 64" by (simp add: sample_round_def)
  from heartbeat_gap [OF i(3) _ sample_round_good this, of 501 None None] i(1,2) show ?thesis by auto
qed

end
