(* ===== verification/LinkedList.thy ===== *)
theory LinkedList
  imports Prelude
begin

text \<open>
  The list of \<open>src/libiec61850/src/common/linked_list.c\<close> in a heap.  A pointer is an address or \<open>None\<close> for
  NULL, the heap maps the addresses of allocated elements to their two members.  The first element of
  a list is a head without data.  \<open>None\<close> as a result is a dereferenced NULL or freed pointer, or a
  loop that never ends, as on a cyclic list.  The address that \<open>GLOBAL_MALLOC\<close> returns is an argument.
\<close>

subsection \<open>Elements and operations\<close>

type_synonym ptr = "nat option"

record sLinkedList =
  ll_data :: ptr
  ll_next :: ptr

type_synonym heap = "nat \<Rightarrow> sLinkedList option"

definition LinkedList_getNext :: "heap \<Rightarrow> nat \<Rightarrow> ptr option" where
  "LinkedList_getNext h self = map_option ll_next (h self)"

definition LinkedList_getData :: "heap \<Rightarrow> nat \<Rightarrow> ptr option" where
  "LinkedList_getData h self = map_option ll_data (h self)"

partial_function (option) LinkedList_getLastElement :: "heap \<Rightarrow> nat \<Rightarrow> nat option" where
  "LinkedList_getLastElement h self =
     Option.bind (h self) (\<lambda>e. case ll_next e of Some n \<Rightarrow> LinkedList_getLastElement h n | None \<Rightarrow> Some self)"

definition LinkedList_create :: "heap \<Rightarrow> ptr \<Rightarrow> ptr \<times> heap" where
  "LinkedList_create h mem =
     (case mem of Some a \<Rightarrow> (Some a, h(a \<mapsto> \<lparr>ll_data = None, ll_next = None\<rparr>)) | None \<Rightarrow> (None, h))"

text \<open>The destructors return the data handed to the delete function, in order, and the heap.\<close>

partial_function (option) destroy_loop :: "heap \<Rightarrow> nat \<Rightarrow> (nat list \<times> heap) option" where
  "destroy_loop h currentElement =
     Option.bind (h currentElement) (\<lambda>e.
       (let deleted = (case ll_data e of Some d \<Rightarrow> [d] | None \<Rightarrow> []); h = h(currentElement := None)
        in case ll_next e of
             Some n \<Rightarrow> Option.bind (destroy_loop h n) (\<lambda>r. Some (deleted @ fst r, snd r))
           | None \<Rightarrow> Some (deleted, h)))"

definition LinkedList_destroyDeep :: "heap \<Rightarrow> ptr \<Rightarrow> (nat list \<times> heap) option" where
  "LinkedList_destroyDeep h self = (case self of Some a \<Rightarrow> destroy_loop h a | None \<Rightarrow> Some ([], h))"

definition LinkedList_destroyStatic :: "heap \<Rightarrow> ptr \<Rightarrow> heap option" where
  "LinkedList_destroyStatic h self = map_option snd (LinkedList_destroyDeep h self)"

partial_function (option) size_loop :: "heap \<Rightarrow> nat \<Rightarrow> nat \<Rightarrow> nat option" where
  "size_loop h nextElement n =
     Option.bind (h nextElement) (\<lambda>e. case ll_next e of Some e \<Rightarrow> size_loop h e (n + 1) | None \<Rightarrow> Some n)"

definition LinkedList_size :: "heap \<Rightarrow> nat \<Rightarrow> nat option" where
  "LinkedList_size h self = size_loop h self 0"

definition LinkedList_add :: "heap \<Rightarrow> ptr \<Rightarrow> nat \<Rightarrow> ptr \<Rightarrow> heap option" where
  "LinkedList_add h mem self data =
     (case LinkedList_create h mem of
        (None, h) \<Rightarrow> Some h
      | (Some newElement, h) \<Rightarrow>
          (let h = h(newElement \<mapsto> \<lparr>ll_data = data, ll_next = None\<rparr>)
           in Option.bind (LinkedList_getLastElement h self) (\<lambda>listEnd.
                map_option (\<lambda>e. h(listEnd \<mapsto> e\<lparr>ll_next := Some newElement\<rparr>)) (h listEnd))))"

partial_function (option) contains_loop :: "heap \<Rightarrow> ptr \<Rightarrow> ptr \<Rightarrow> bool option" where
  "contains_loop h currentElement data =
     (case currentElement of
        None \<Rightarrow> Some False
      | Some a \<Rightarrow> Option.bind (h a) (\<lambda>e. if ll_data e = data then Some True else contains_loop h (ll_next e) data))"

definition LinkedList_contains :: "heap \<Rightarrow> nat \<Rightarrow> ptr \<Rightarrow> bool option" where
  "LinkedList_contains h self data = Option.bind (LinkedList_getNext h self) (\<lambda>c. contains_loop h c data)"

partial_function (option) remove_loop :: "heap \<Rightarrow> nat \<Rightarrow> ptr \<Rightarrow> ptr \<Rightarrow> (bool \<times> heap) option" where
  "remove_loop h lastElement currentElement data =
     (case currentElement of
        None \<Rightarrow> Some (False, h)
      | Some a \<Rightarrow> Option.bind (h a) (\<lambda>e.
          if ll_data e = data
          then map_option (\<lambda>l. (True, (h(lastElement \<mapsto> l\<lparr>ll_next := ll_next e\<rparr>))(a := None))) (h lastElement)
          else remove_loop h a (ll_next e) data))"

definition LinkedList_remove :: "heap \<Rightarrow> nat \<Rightarrow> ptr \<Rightarrow> (bool \<times> heap) option" where
  "LinkedList_remove h self data = Option.bind (LinkedList_getNext h self) (\<lambda>c. remove_loop h self c data)"

definition LinkedList_insertAfter :: "heap \<Rightarrow> ptr \<Rightarrow> nat \<Rightarrow> ptr \<Rightarrow> (ptr \<times> heap) option" where
  "LinkedList_insertAfter h mem self data =
     (case LinkedList_create h mem of
        (None, h) \<Rightarrow> Some (None, h)
      | (Some newElement, h) \<Rightarrow>
          Option.bind (LinkedList_getNext h self) (\<lambda>n.
            (let h = h(newElement \<mapsto> \<lparr>ll_data = data, ll_next = n\<rparr>)
             in map_option (\<lambda>e. (Some newElement, h(self \<mapsto> e\<lparr>ll_next := Some newElement\<rparr>))) (h self))))"

text \<open>The loop runs \<open>k\<close> more times.\<close>

fun get_loop :: "heap \<Rightarrow> ptr \<Rightarrow> nat \<Rightarrow> ptr option" where
  "get_loop h element 0 = Some element"
| "get_loop h element (Suc k) =
     (case element of
        None \<Rightarrow> None
      | Some a \<Rightarrow> Option.bind (LinkedList_getNext h a) (\<lambda>n. if n = None then Some None else get_loop h n k))"

definition LinkedList_get :: "heap \<Rightarrow> nat \<Rightarrow> int \<Rightarrow> ptr option" where
  "LinkedList_get h self index = Option.bind (LinkedList_getNext h self) (\<lambda>e. get_loop h e (nat index))"

partial_function (option) print_loop :: "heap \<Rightarrow> nat \<Rightarrow> ptr list option" where
  "print_loop h element =
     Option.bind (LinkedList_getNext h element) (\<lambda>n.
       case n of
         None \<Rightarrow> Some []
       | Some a \<Rightarrow> Option.bind (LinkedList_getData h a) (\<lambda>d. Option.bind (print_loop h a) (\<lambda>ds. Some (d # ds))))"

definition LinkedList_printStringList :: "heap \<Rightarrow> nat \<Rightarrow> ptr list option" where
  "LinkedList_printStringList h self = print_loop h self"

subsection \<open>Lists in the heap\<close>

text \<open>\<open>seg h p xs q\<close>: from pointer \<open>p\<close> the elements with the addresses and data of \<open>xs\<close> lead to \<open>q\<close>.\<close>

fun seg :: "heap \<Rightarrow> ptr \<Rightarrow> (nat \<times> ptr) list \<Rightarrow> ptr \<Rightarrow> bool" where
  "seg h p [] q \<longleftrightarrow> p = q"
| "seg h p ((a, d) # xs) q \<longleftrightarrow> p = Some a \<and> (\<exists>n. h a = Some \<lparr>ll_data = d, ll_next = n\<rparr> \<and> seg h n xs q)"

text \<open>A list object: a head element without data, then the elements of the list.\<close>

definition list_at :: "heap \<Rightarrow> nat \<Rightarrow> (nat \<times> ptr) list \<Rightarrow> bool" where
  "list_at h self xs \<longleftrightarrow> seg h (Some self) ((self, None) # xs) None"

definition contents :: "heap \<Rightarrow> nat \<Rightarrow> ptr list \<Rightarrow> bool" where
  "contents h self ds \<longleftrightarrow> (\<exists>xs. list_at h self xs \<and> map snd xs = ds)"

lemma seg_append: "seg h p (xs @ ys) q \<longleftrightarrow> (\<exists>r. seg h p xs r \<and> seg h r ys q)"
  by (induction h p xs q rule: seg.induct) auto

lemma seg_frame: "\<forall>a \<in> fst ` set xs. h' a = h a \<Longrightarrow> seg h' p xs q = seg h p xs q"
  by (induction h p xs q rule: seg.induct) auto

lemma seg_upd [simp]: "a \<notin> fst ` set xs \<Longrightarrow> seg (h(a := v)) p xs q = seg h p xs q"
  by (rule seg_frame) auto

lemma seg_allocated: "seg h p xs q \<Longrightarrow> h a = None \<Longrightarrow> a \<notin> fst ` set xs"
  by (induction h p xs q rule: seg.induct) auto

lemma seg_unique: "seg h p xs None \<Longrightarrow> seg h p ys None \<Longrightarrow> xs = ys"
proof (induction h p xs "None :: ptr" arbitrary: ys rule: seg.induct)
  case (1 h p)
  then show ?case by (cases ys) auto
next
  case (2 h p a d xs)
  then obtain n where n: "p = Some a" "h a = Some \<lparr>ll_data = d, ll_next = n\<rparr>" "seg h n xs None" by auto
  with "2.prems" obtain zs where "ys = (a, d) # zs" "seg h n zs None" by (cases ys) auto
  with "2.hyps" n show ?case by auto
qed

lemma seg_distinct: "seg h p xs None \<Longrightarrow> distinct (map fst xs)"
proof (induction h p xs "None :: ptr" rule: seg.induct)
  case (2 h p a d xs)
  then obtain n where n: "h a = Some \<lparr>ll_data = d, ll_next = n\<rparr>" "seg h n xs None" by auto
  have "a \<notin> fst ` set xs"
  proof
    assume "a \<in> fst ` set xs"
    then obtain us e vs where xs: "xs = us @ (a, e) # vs" by (auto dest: split_list)
    with n have "seg h (Some a) ((a, e) # vs) None" by (auto simp: seg_append)
    then have "seg h n vs None" using n(1) by auto
    with n(2) have "xs = vs" by (rule seg_unique)
    with xs show False by simp
  qed
  with 2 n show ?case by simp
qed simp

subsection \<open>The operations on lists in the heap\<close>

lemma getLastElement_seg:
  "seg h (Some a) ((a, d) # xs) None \<Longrightarrow> LinkedList_getLastElement h a = Some (fst (last ((a, d) # xs)))"
proof (induction xs arbitrary: a d)
  case Nil
  then show ?case by (subst LinkedList_getLastElement.simps) auto
next
  case (Cons y ys)
  obtain b e where y: "y = (b, e)" by (cases y)
  with Cons show ?case by (subst LinkedList_getLastElement.simps) auto
qed

lemma size_loop_seg: "seg h (Some a) ((a, d) # xs) None \<Longrightarrow> size_loop h a n = Some (n + length xs)"
proof (induction xs arbitrary: a d n)
  case Nil
  then show ?case by (subst size_loop.simps) auto
next
  case (Cons y ys)
  obtain b e where y: "y = (b, e)" by (cases y)
  with Cons show ?case by (subst size_loop.simps) auto
qed

lemma contains_loop_seg: "seg h p xs None \<Longrightarrow> contains_loop h p data = Some (data \<in> snd ` set xs)"
proof (induction h p xs "None :: ptr" rule: seg.induct)
  case (2 h p a d xs)
  then show ?case by (subst contains_loop.simps) auto
qed (subst contains_loop.simps, simp)

lemma print_loop_seg: "seg h (Some a) ((a, d) # xs) None \<Longrightarrow> print_loop h a = Some (map snd xs)"
proof (induction xs arbitrary: a d)
  case Nil
  then show ?case by (subst print_loop.simps) (auto simp: LinkedList_getNext_def)
next
  case (Cons y ys)
  obtain b e where y: "y = (b, e)" by (cases y)
  with Cons show ?case by (subst print_loop.simps) (auto simp: LinkedList_getNext_def LinkedList_getData_def)
qed

fun drop_first :: "ptr \<Rightarrow> (nat \<times> ptr) list \<Rightarrow> (nat \<times> ptr) list" where
  "drop_first data [] = []"
| "drop_first data ((a, d) # xs) = (if d = data then xs else (a, d) # drop_first data xs)"

lemma drop_first_data: "map snd (drop_first data xs) = remove1 data (map snd xs)"
  by (induction data xs rule: drop_first.induct) auto

lemma drop_first_subset: "fst ` set (drop_first data xs) \<subseteq> fst ` set xs"
  by (induction data xs rule: drop_first.induct) auto

lemma remove_loop_seg:
  assumes "seg h (Some l) ((l, dl) # xs) None" and "h l = Some \<lparr>ll_data = dl, ll_next = n\<rparr>"
  shows "\<exists>h'. remove_loop h l n data = Some (data \<in> snd ` set xs, h') \<and> seg h' (Some l) ((l, dl) # drop_first data xs) None
    \<and> (\<forall>b. b \<notin> insert l (fst ` set xs) \<longrightarrow> h' b = h b)"
  using assms
proof (induction xs arbitrary: l dl n)
  case Nil
  then show ?case by (subst remove_loop.simps) auto
next
  case (Cons y ys)
  obtain a d where y: "y = (a, d)" by (cases y)
  then obtain m where n: "n = Some a" "h a = Some \<lparr>ll_data = d, ll_next = m\<rparr>" "seg h m ys None" using Cons.prems by auto
  have dist: "l \<noteq> a" "l \<notin> fst ` set ys" "a \<notin> fst ` set ys" using seg_distinct [OF Cons.prems(1)] y by auto
  show ?case
  proof (cases "d = data")
    case True
    let ?h = "(h(l \<mapsto> \<lparr>ll_data = dl, ll_next = m\<rparr>))(a := None)"
    have "seg ?h m ys None" using n(3) dist by simp
    then show ?thesis using True y n dist Cons.prems(2)
      by (subst remove_loop.simps) (auto intro!: exI [of _ ?h])
  next
    case False
    have "seg h (Some a) ((a, d) # ys) None" using n by simp
    from Cons.IH [OF this n(2)] obtain h' where
      h': "remove_loop h a m data = Some (data \<in> snd ` set ys, h')" "seg h' (Some a) ((a, d) # drop_first data ys) None"
        "\<forall>b. b \<notin> insert a (fst ` set ys) \<longrightarrow> h' b = h b" by blast
    have "h' l = h l" using h'(3) dist by simp
    with h' False y n Cons.prems(2) show ?thesis by (subst remove_loop.simps) auto
  qed
qed

definition free_all :: "heap \<Rightarrow> nat set \<Rightarrow> heap" where
  "free_all h A = (\<lambda>b. if b \<in> A then None else h b)"

lemma free_all_upd: "free_all (h(a := None)) A = free_all h (insert a A)" "h(a := None) = free_all h {a}"
  by (auto simp: free_all_def fun_eq_iff)

lemma destroy_loop_seg:
  "seg h (Some a) ((a, d) # xs) None \<Longrightarrow>
     destroy_loop h a = Some (List.map_filter snd ((a, d) # xs), free_all h (insert a (fst ` set xs)))"
proof (induction xs arbitrary: a d h)
  case Nil
  then show ?case by (subst destroy_loop.simps) (auto simp: map_filter_simps free_all_upd split: option.splits)
next
  case (Cons y ys)
  obtain b e where y: "y = (b, e)" by (cases y)
  have dist: "a \<noteq> b" "a \<notin> fst ` set ys" using seg_distinct [OF Cons.prems] y by auto
  then have "seg (h(a := None)) (Some b) ((b, e) # ys) None" using Cons.prems y by auto
  from Cons.IH [OF this] have ih: "destroy_loop (h(a := None)) b =
      Some (List.map_filter snd (y # ys), free_all h (insert a (fst ` set (y # ys))))"
    by (simp only: free_all_upd(1) y list.set image_insert fst_conv)
  from Cons.prems y have "h a = Some \<lparr>ll_data = d, ll_next = Some b\<rparr>" by auto
  then show ?case by (subst destroy_loop.simps) (simp add: ih map_filter_simps split: option.splits)
qed

text \<open>The last element of a list, with the elements before it.\<close>

lemma seg_last:
  assumes "seg h p (xs @ [(l, e)]) None"
  shows "seg h p xs (Some l)" and "h l = Some \<lparr>ll_data = e, ll_next = None\<rparr>" and "l \<notin> fst ` set xs"
  using assms seg_distinct [OF assms] by (auto simp: seg_append)

lemma list_at_add:
  assumes "list_at h self xs" and "h new = None"
  shows "\<exists>h'. LinkedList_add h (Some new) self data = Some h' \<and> list_at h' self (xs @ [(new, data)])
    \<and> (\<forall>b. b \<notin> insert new (insert self (fst ` set xs)) \<longrightarrow> h' b = h b)"
proof -
  have d: "seg h (Some self) ((self, None) # xs) None" using assms(1) by (simp only: list_at_def)
  let ?L = "(self, None) # xs" and ?h = "h(new \<mapsto> \<lparr>ll_data = data, ll_next = None\<rparr>)"
  obtain ys l e where L: "?L = ys @ [(l, e)]" by (metis list.distinct(1) rev_exhaust surj_pair)
  have new: "new \<notin> fst ` set ?L" using seg_allocated [OF d assms(2)] .
  then have s: "seg ?h (Some self) (ys @ [(l, e)]) None" using d unfolding L by (simp only: seg_upd not_False_eq_True)
  note last = seg_last [OF s]
  have "LinkedList_getLastElement ?h self = Some l"
    using getLastElement_seg [of ?h self None xs] s unfolding L by simp
  moreover have nl: "new \<noteq> l" "new \<notin> fst ` set ys" using new unfolding L by auto
  let ?g = "?h(l \<mapsto> \<lparr>ll_data = e, ll_next = Some new\<rparr>)"
  have "seg ?g (Some self) ((ys @ [(l, e)]) @ [(new, data)]) None"
    using last nl by (simp add: seg_append)
  then have "list_at ?g self (xs @ [(new, data)])" unfolding L [symmetric] by (simp only: list_at_def append_Cons)
  moreover have l: "l \<in> insert self (fst ` set xs)"
    using arg_cong [OF L, of "\<lambda>z. fst ` set z"] by auto
  have "?g b = h b" if "b \<notin> insert new (insert self (fst ` set xs))" for b
    using that l by (metis fun_upd_apply insertCI)
  ultimately show ?thesis using last(2) nl(1)
    by (intro exI [of _ ?g]) (simp add: LinkedList_add_def LinkedList_create_def Let_def)
qed

lemma list_at_remove:
  assumes "list_at h self xs"
  shows "\<exists>h'. LinkedList_remove h self data = Some (data \<in> snd ` set xs, h') \<and> list_at h' self (drop_first data xs)
    \<and> (\<forall>b. b \<notin> insert self (fst ` set xs) \<longrightarrow> h' b = h b)"
proof -
  obtain n where d: "seg h (Some self) ((self, None) # xs) None" "h self = Some \<lparr>ll_data = None, ll_next = n\<rparr>"
    using assms by (auto simp: list_at_def)
  from remove_loop_seg [OF d, of data] d(2) show ?thesis
    by (auto simp: LinkedList_remove_def LinkedList_getNext_def list_at_def)
qed

lemma list_at_reads:
  assumes "list_at h self xs"
  shows "LinkedList_size h self = Some (length xs)"
    and "LinkedList_contains h self data = Some (data \<in> snd ` set xs)"
    and "LinkedList_printStringList h self = Some (map snd xs)"
proof -
  obtain n where d: "seg h (Some self) ((self, None) # xs) None" "h self = Some \<lparr>ll_data = None, ll_next = n\<rparr>" "seg h n xs None"
    using assms by (auto simp: list_at_def)
  show "LinkedList_size h self = Some (length xs)" using size_loop_seg [OF d(1)] by (simp add: LinkedList_size_def)
  show "LinkedList_contains h self data = Some (data \<in> snd ` set xs)"
    using contains_loop_seg [OF d(3)] d(2) by (simp add: LinkedList_contains_def LinkedList_getNext_def)
  show "LinkedList_printStringList h self = Some (map snd xs)"
    using print_loop_seg [OF d(1)] by (simp add: LinkedList_printStringList_def)
qed

lemma get_loop_seg:
  "seg h p xs None \<Longrightarrow> xs \<noteq> [] \<Longrightarrow> get_loop h p k = Some (if k < length xs then Some (fst (xs ! k)) else None)"
proof (induction k arbitrary: p xs)
  case 0
  then show ?case by (cases xs) auto
next
  case (Suc k)
  then obtain a d ys where xs: "xs = (a, d) # ys" by (cases xs) auto
  show ?case
  proof (cases ys)
    case Nil
    with Suc xs show ?thesis by (auto simp: LinkedList_getNext_def)
  next
    case (Cons y zs)
    with Suc.prems xs obtain n where n: "p = Some a" "h a = Some \<lparr>ll_data = d, ll_next = n\<rparr>" "seg h n ys None" "n \<noteq> None"
      by (cases y) auto
    from Suc.IH [OF n(3)] Cons n xs show ?thesis by (simp add: LinkedList_getNext_def)
  qed
qed

lemma list_at_get:
  assumes "list_at h self xs" and "xs = [] \<longrightarrow> i \<le> 0"
  shows "LinkedList_get h self i = Some (if nat i < length xs then Some (fst (xs ! nat i)) else None)"
proof -
  obtain n where "h self = Some \<lparr>ll_data = None, ll_next = n\<rparr>" "seg h n xs None"
    using assms(1) by (auto simp: list_at_def)
  then show ?thesis using get_loop_seg [of h n xs "nat i"] assms(2)
    by (cases "xs = []") (auto simp: LinkedList_get_def LinkedList_getNext_def)
qed

lemma list_at_create: "list_at (snd (LinkedList_create h (Some a))) a []"
  by (simp add: LinkedList_create_def list_at_def)

lemma list_at_destroy:
  assumes "list_at h self xs"
  shows "LinkedList_destroyDeep h (Some self) = Some (List.map_filter snd xs, free_all h (insert self (fst ` set xs)))"
  using destroy_loop_seg [OF assms [unfolded list_at_def]] by (simp add: LinkedList_destroyDeep_def map_filter_simps)

lemma list_at_insertAfter:
  assumes "seg h (Some self) (xs @ (a, d) # ys) None" and "h new = None"
  shows "\<exists>h'. LinkedList_insertAfter h (Some new) a data = Some (Some new, h')
    \<and> seg h' (Some self) (xs @ (a, d) # (new, data) # ys) None"
proof -
  obtain n where n: "seg h (Some self) xs (Some a)" "h a = Some \<lparr>ll_data = d, ll_next = n\<rparr>" "seg h n ys None"
    using assms(1) by (auto simp: seg_append)
  have "a \<notin> fst ` set xs" "a \<notin> fst ` set ys" using seg_distinct [OF assms(1)] by auto
  moreover have "new \<notin> fst ` set xs" "new \<notin> fst ` set ys" "new \<noteq> a" using seg_allocated [OF assms] by auto
  ultimately show ?thesis using n
    by (auto simp: LinkedList_insertAfter_def LinkedList_create_def LinkedList_getNext_def Let_def seg_append)
qed

subsection \<open>The interface of list objects\<close>

text \<open>
  What the publishers, receivers and data models of the library rely on: a list object holds a
  sequence of data pointers, \<open>add\<close> appends, \<open>remove\<close> takes out the first occurrence, \<open>contains\<close> and
  \<open>size\<close> read it.  An element needs memory that is not in use.
\<close>

fun add_all :: "('h \<Rightarrow> 'p \<Rightarrow> 'p \<Rightarrow> 'd \<Rightarrow> 'h option) \<Rightarrow> 'h \<Rightarrow> 'p \<Rightarrow> ('p \<times> 'd) list \<Rightarrow> 'h option" where
  "add_all add h p [] = Some h"
| "add_all add h p ((a, d) # xs) = Option.bind (add h a p d) (\<lambda>h. add_all add h p xs)"

locale list_object =
  fixes rep :: "'h \<Rightarrow> 'p \<Rightarrow> 'd list \<Rightarrow> bool"
    and fresh :: "'h \<Rightarrow> 'p \<Rightarrow> bool"
    and create :: "'h \<Rightarrow> 'p \<Rightarrow> 'h"
    and add :: "'h \<Rightarrow> 'p \<Rightarrow> 'p \<Rightarrow> 'd \<Rightarrow> 'h option"
    and remove :: "'h \<Rightarrow> 'p \<Rightarrow> 'd \<Rightarrow> (bool \<times> 'h) option"
    and contains :: "'h \<Rightarrow> 'p \<Rightarrow> 'd \<Rightarrow> bool option"
    and count :: "'h \<Rightarrow> 'p \<Rightarrow> nat option"
  assumes create_rep: "fresh h p \<Longrightarrow> rep (create h p) p []"
    and create_fresh: "fresh h q \<Longrightarrow> q \<noteq> p \<Longrightarrow> fresh (create h p) q"
    and add_rep: "rep h p ds \<Longrightarrow> fresh h a \<Longrightarrow>
      \<exists>h'. add h a p d = Some h' \<and> rep h' p (ds @ [d]) \<and> (\<forall>q. fresh h q \<longrightarrow> q \<noteq> a \<longrightarrow> fresh h' q)"
    and remove_rep: "rep h p ds \<Longrightarrow> \<exists>h'. remove h p d = Some (d \<in> set ds, h') \<and> rep h' p (remove1 d ds)"
    and contains_rep: "rep h p ds \<Longrightarrow> contains h p d = Some (d \<in> set ds)"
    and count_rep: "rep h p ds \<Longrightarrow> count h p = Some (length ds)"
begin

lemma add_all_rep:
  assumes "rep h p ds" and "distinct (map fst xs)" and "list_all (\<lambda>x. fresh h (fst x)) xs"
  shows "\<exists>h'. add_all add h p xs = Some h' \<and> rep h' p (ds @ map snd xs)"
  using assms
proof (induction xs arbitrary: h ds)
  case (Cons x xs)
  obtain a d where x: "x = (a, d)" by (cases x)
  with Cons.prems add_rep [of h p ds a d] obtain h' where
    h': "add h a p d = Some h'" "rep h' p (ds @ [d])" "\<forall>q. fresh h q \<longrightarrow> q \<noteq> a \<longrightarrow> fresh h' q" by auto
  have "list_all (\<lambda>x. fresh h' (fst x)) xs" using h'(3) Cons.prems(2,3) x by (auto simp: list_all_iff)
  with Cons.IH [OF h'(2)] Cons.prems(2) x h'(1) show ?case by auto
qed simp

lemma built:
  assumes "fresh h p" and "distinct (p # map fst xs)" and "list_all (\<lambda>x. fresh h (fst x)) xs"
  shows "\<exists>h'. add_all add (create h p) p xs = Some h' \<and> rep h' p (map snd xs)"
proof -
  have "list_all (\<lambda>x. fresh (create h p) (fst x)) xs"
    using assms(2,3) by (auto simp: list_all_iff intro!: create_fresh)
  with add_all_rep [OF create_rep [OF assms(1)]] assms(2) show ?thesis by auto
qed

lemma add_then_remove:
  assumes "rep h p ds" and "fresh h a" and "d \<notin> set ds"
  shows "\<exists>h1 h2. add h a p d = Some h1 \<and> contains h1 p d = Some True \<and> count h1 p = Some (Suc (length ds))
    \<and> remove h1 p d = Some (True, h2) \<and> rep h2 p ds"
proof -
  obtain h1 where h1: "add h a p d = Some h1" "rep h1 p (ds @ [d])" using add_rep [OF assms(1,2)] by blast
  moreover obtain h2 where "remove h1 p d = Some (True, h2)" "rep h2 p (remove1 d (ds @ [d]))"
    using remove_rep [OF h1(2), of d] by auto
  ultimately show ?thesis using contains_rep [OF h1(2), of d] count_rep [OF h1(2)] assms(3)
    by (auto simp: remove1_append)
qed

end

interpretation ll: list_object contents "\<lambda>h a. h a = None" "\<lambda>h a. snd (LinkedList_create h (Some a))"
  "\<lambda>h a. LinkedList_add h (Some a)" LinkedList_remove LinkedList_contains LinkedList_size
proof (unfold_locales, goal_cases)
  case (1 h p)
  show ?case using list_at_create by (auto simp: contents_def)
next
  case (2 h q p)
  then show ?case by (simp add: LinkedList_create_def)
next
  case (3 h p ds a d)
  then obtain xs where xs: "list_at h p xs" "map snd xs = ds" by (auto simp: contents_def)
  from list_at_add [OF xs(1) 3(2), of d] obtain h' where
    h': "LinkedList_add h (Some a) p d = Some h'" "list_at h' p (xs @ [(a, d)])"
      "\<forall>b. b \<notin> insert a (insert p (fst ` set xs)) \<longrightarrow> h' b = h b" by blast
  have "q \<notin> insert p (fst ` set xs)" if "h q = None" for q
    using seg_allocated [OF xs(1) [unfolded list_at_def] that] by simp
  with h'(3) have "\<forall>q. h q = None \<longrightarrow> q \<noteq> a \<longrightarrow> h' q = None" by auto
  with h'(1,2) xs(2) show ?case by (auto simp: contents_def)
next
  case (4 h p ds d)
  then obtain xs where xs: "list_at h p xs" "map snd xs = ds" by (auto simp: contents_def)
  from list_at_remove [OF xs(1), of d] xs(2) drop_first_data [of d xs] show ?case
    by (auto simp: contents_def)
next
  case (5 h p ds d)
  then show ?case using list_at_reads(2) by (auto simp: contents_def)
next
  case (6 h p ds)
  then show ?case using list_at_reads(1) by (auto simp: contents_def)
qed

lemma contents_get:
  assumes "contents h self ds"
  shows "if ds = [] \<and> 0 < i then LinkedList_get h self i = None
    else if nat i < length ds
      then \<exists>a. LinkedList_get h self i = Some (Some a) \<and> LinkedList_getData h a = Some (ds ! nat i)
      else LinkedList_get h self i = Some None"
proof -
  obtain xs where xs: "list_at h self xs" "map snd xs = ds" using assms by (auto simp: contents_def)
  obtain n where n: "h self = Some \<lparr>ll_data = None, ll_next = n\<rparr>" "seg h n xs None" using xs(1) by (auto simp: list_at_def)
  have empty: "LinkedList_get h self i = None" if e: "ds = []" and pos: "0 < i"
  proof -
    obtain k where "nat i = Suc k" using pos by (metis gr0_implies_Suc zero_less_nat_eq)
    then show ?thesis using n e xs(2) by (simp add: LinkedList_get_def LinkedList_getNext_def)
  qed
  have data: "LinkedList_getData h (fst (xs ! nat i)) = Some (ds ! nat i)" if "nat i < length ds"
  proof -
    from that xs(2) have l: "nat i < length xs" by auto
    with id_take_nth_drop [OF l] n(2) have "seg h n (take (nat i) xs @ (xs ! nat i) # drop (Suc (nat i)) xs) None" by simp
    then show ?thesis using l by (cases "xs ! nat i") (auto simp: seg_append LinkedList_getData_def simp flip: xs(2))
  qed
  have "length xs = length ds" using xs(2) by auto
  then show ?thesis using empty data list_at_get [OF xs(1), of i] xs(2) by (cases "ds = []") auto
qed

text \<open>The address of an element: the head, or what \<open>LinkedList_get\<close> returns.\<close>

lemma contents_insert_first:
  assumes "contents h self ds" and "h new = None"
  shows "\<exists>h'. LinkedList_insertAfter h (Some new) self d = Some (Some new, h') \<and> contents h' self (d # ds)"
proof -
  obtain xs where xs: "list_at h self xs" "map snd xs = ds" using assms(1) by (auto simp: contents_def)
  from list_at_insertAfter [of h self "[]" self None xs new d] xs(1) assms(2) obtain h' where
    "LinkedList_insertAfter h (Some new) self d = Some (Some new, h')" "seg h' (Some self) ((self, None) # (new, d) # xs) None"
    unfolding list_at_def by auto
  then have "list_at h' self ((new, d) # xs)" unfolding list_at_def by blast
  with xs(2) \<open>LinkedList_insertAfter h (Some new) self d = _\<close> show ?thesis unfolding contents_def by fastforce
qed

lemma contents_insert:
  assumes "contents h self ds" and "h new = None" and "nat i < length ds" and "LinkedList_get h self i = Some (Some a)"
  shows "\<exists>h'. LinkedList_insertAfter h (Some new) a d = Some (Some new, h')
    \<and> contents h' self (take (Suc (nat i)) ds @ d # drop (Suc (nat i)) ds)"
proof -
  obtain xs where xs: "list_at h self xs" "map snd xs = ds" using assms(1) by (auto simp: contents_def)
  let ?k = "nat i"
  have l: "?k < length xs" using xs(2) assms(3) by auto
  then have a: "fst (xs ! ?k) = a" using list_at_get [OF xs(1), of i] assms(4) by (cases xs) auto
  obtain e where e: "xs ! ?k = (a, e)" using a by (cases "xs ! ?k") auto
  let ?L = "(self, None) # take ?k xs" and ?R = "drop (Suc ?k) xs"
  have split: "xs = take ?k xs @ (a, e) # ?R" using id_take_nth_drop [OF l] e by simp
  have "seg h (Some self) (?L @ (a, e) # ?R) None" using xs(1) split unfolding list_at_def by simp
  from list_at_insertAfter [OF this assms(2), of d] obtain h' where
    h': "LinkedList_insertAfter h (Some new) a d = Some (Some new, h')" "list_at h' self (take ?k xs @ (a, e) # (new, d) # ?R)"
    unfolding list_at_def by auto
  have "map snd (take ?k xs @ (a, e) # (new, d) # ?R) = take (Suc ?k) ds @ d # drop (Suc ?k) ds"
    using l e by (simp add: take_Suc_conv_app_nth drop_map take_map flip: xs(2))
  with h' show ?thesis unfolding contents_def by blast
qed

text \<open>
  C34: The pointer structure implements sequences: on a list object that holds the sequence \<open>ds\<close> of data pointers,
  the operations terminate without touching a pointer that is not in use and do what the
  corresponding operation on sequences does: \<open>size\<close>, \<open>contains\<close>, \<open>add\<close> at the end, \<open>remove\<close> of the first
  occurrence, \<open>get\<close>, \<open>insertAfter\<close> the head or an element that \<open>get\<close> returned, and \<open>destroyDeep\<close> and \<open>destroyStatic\<close>, which
  free exactly the elements of the list, the first after handing every data pointer that is not NULL to the delete function
  once, in order.  An index below zero reads like zero.  The one exception is part of the statement: \<open>get\<close> with a positive index on
  an empty list dereferences NULL.
\<close>

theorem linked_list_refines_sequence:
  assumes "contents h self ds" and "h new = None"
  shows "LinkedList_size h self = Some (length ds) \<and> LinkedList_contains h self d = Some (d \<in> set ds)
    \<and> (\<exists>h'. LinkedList_add h (Some new) self d = Some h' \<and> contents h' self (ds @ [d]))
    \<and> (\<exists>h'. LinkedList_remove h self d = Some (d \<in> set ds, h') \<and> contents h' self (remove1 d ds))
    \<and> (if ds = [] \<and> 0 < i then LinkedList_get h self i = None
        else if nat i < length ds
          then \<exists>a h'. LinkedList_get h self i = Some (Some a) \<and> LinkedList_getData h a = Some (ds ! nat i)
            \<and> LinkedList_insertAfter h (Some new) a d = Some (Some new, h')
            \<and> contents h' self (take (Suc (nat i)) ds @ d # drop (Suc (nat i)) ds)
          else LinkedList_get h self i = Some None)
    \<and> (\<exists>h'. LinkedList_insertAfter h (Some new) self d = Some (Some new, h') \<and> contents h' self (d # ds))
    \<and> (\<exists>A. LinkedList_destroyDeep h (Some self) = Some (List.map_filter id ds, free_all h A)
        \<and> LinkedList_destroyStatic h (Some self) = Some (free_all h A)
        \<and> self \<in> A \<and> card A = Suc (length ds) \<and> A \<subseteq> dom h)"
proof -
  obtain xs where xs: "list_at h self xs" "map snd xs = ds" using assms(1) by (auto simp: contents_def)
  let ?A = "insert self (fst ` set xs)"
  have seg: "seg h (Some self) ((self, None) # xs) None" using xs(1) by (simp only: list_at_def)
  have A: "?A \<subseteq> dom h" using seg_allocated [OF seg] by (auto simp: domIff)
  have card: "card ?A = Suc (length ds)"
    using seg_distinct [OF seg] xs(2) distinct_card [of "map fst ((self, None) # xs)"] by auto
  have "List.map_filter snd xs = List.map_filter id ds" unfolding xs(2) [symmetric]
    by (induction xs) (simp_all add: map_filter_simps split: option.splits)
  then have destroy: "\<exists>A. LinkedList_destroyDeep h (Some self) = Some (List.map_filter id ds, free_all h A)
        \<and> LinkedList_destroyStatic h (Some self) = Some (free_all h A)
        \<and> self \<in> A \<and> card A = Suc (length ds) \<and> A \<subseteq> dom h"
    using list_at_destroy [OF xs(1)] A card by (intro exI [of _ ?A]) (simp add: LinkedList_destroyStatic_def)
  have get: "if ds = [] \<and> 0 < i then LinkedList_get h self i = None
        else if nat i < length ds
          then \<exists>a h'. LinkedList_get h self i = Some (Some a) \<and> LinkedList_getData h a = Some (ds ! nat i)
            \<and> LinkedList_insertAfter h (Some new) a d = Some (Some new, h')
            \<and> contents h' self (take (Suc (nat i)) ds @ d # drop (Suc (nat i)) ds)
          else LinkedList_get h self i = Some None"
    using contents_get [OF assms(1), of i] contents_insert [OF assms, of i _ d] by (auto split: if_splits)
  show ?thesis
    using ll.count_rep [OF assms(1)] ll.contains_rep [OF assms(1), of d] ll.add_rep [OF assms(1,2), of d]
      ll.remove_rep [OF assms(1), of d] get contents_insert_first [OF assms, of d] destroy by blast
qed

definition sample_heap :: heap where
  "sample_heap = [0 \<mapsto> \<lparr>ll_data = None, ll_next = Some 1\<rparr>, 1 \<mapsto> \<lparr>ll_data = Some 7, ll_next = None\<rparr>]"

theorem linked_list_refines_sequence_witness:
  "LinkedList_size sample_heap 0 = Some 1 \<and> LinkedList_contains sample_heap 0 (Some 7) = Some True
    \<and> (\<exists>h'. LinkedList_remove sample_heap 0 (Some 7) = Some (True, h') \<and> contents h' 0 [])
    \<and> (\<exists>a h'. LinkedList_get sample_heap 0 0 = Some (Some a) \<and> LinkedList_insertAfter sample_heap (Some 2) a (Some 7) = Some (Some 2, h')
        \<and> contents h' 0 [Some 7, Some 7])"
proof -
  have "contents sample_heap 0 [Some 7]"
    unfolding contents_def list_at_def by (intro exI [of _ "[(1, Some 7)]"]) (simp add: sample_heap_def)
  moreover have "sample_heap 2 = None" by (simp add: sample_heap_def)
  ultimately show ?thesis using linked_list_refines_sequence [of sample_heap 0 "[Some 7]" 2 "Some 7" 0] by auto
qed

text \<open>
  A list object filled by a series of \<open>LinkedList_add\<close> calls, as the relay fills its data set and the
  receiver its subscribers, holds exactly the data added, in that order, as long as the allocator
  returns memory that is not in use.
\<close>

theorem linked_list_built:
  assumes "h self = None" and "distinct (self # map fst xs)" and "list_all (\<lambda>x. h (fst x) = None) xs"
  shows "\<exists>h'. add_all (\<lambda>h a. LinkedList_add h (Some a)) (snd (LinkedList_create h (Some self))) self xs = Some h'
    \<and> contents h' self (map snd xs) \<and> LinkedList_printStringList h' self = Some (map snd xs)"
  using ll.built [OF assms] list_at_reads(3) by (fastforce simp: contents_def)

theorem linked_list_built_witness:
  "\<exists>h'. add_all (\<lambda>h a. LinkedList_add h (Some a)) (snd (LinkedList_create (\<lambda>_. None) (Some 5))) 5 [(8, Some 1), (3, Some 2)] = Some h'
    \<and> contents h' 5 [Some 1, Some 2]"
  using linked_list_built [of "\<lambda>_. None" 5 "[(8, Some 1), (3, Some 2)]"] by auto

end
