(* ===== verification/GooseThread.thy ===== *)
theory GooseThread
  imports GooseReceiver
begin

text \<open>
  The thread of the GOOSE receiver: \<open>gooseReceiverLoop\<close>, \<open>GooseReceiver_start\<close>, \<open>GooseReceiver_stop\<close> and
  \<open>GooseReceiver_destroy\<close> of \<open>src/libiec61850/src/goose/goose_receiver.c\<close>.  The thread and its caller share
  the receiver object.  The model has one step per access to the shared flags \<open>stop\<close> and \<open>running\<close>, and
  the steps of the two interleave in any order.  \<open>thread_pc\<close> is the place in the loop, \<open>caller_pc\<close> the place of the caller
  inside \<open>GooseReceiver_stop\<close>.  \<open>Thread_destroy\<close> waits for the end of the thread and frees it.
\<close>

subsection \<open>State\<close>

datatype thread_pc = T_None | T_Wait | T_Check | T_Running | T_Close | T_End

text \<open>The flag of \<open>C_Stopping\<close> and \<open>C_Joining\<close> says that \<open>GooseReceiver_destroy\<close> made the call of \<open>GooseReceiver_stop\<close>.\<close>

datatype caller_pc = C_Idle | C_Stopping bool | C_Joining bool | C_Gone

datatype thread_ptr = NullThread | LiveThread | FreedThread

text \<open>\<open>rt_socketOpen\<close> says that the socket object still exists: the pointer \<open>ethSocket\<close> is not cleared on closing.\<close>

record receiver_thread =
  rt_self :: GooseReceiver
  rt_pc :: thread_pc
  rt_caller :: caller_pc
  rt_thread :: thread_ptr
  rt_socketOpen :: bool

definition thread_init :: "GooseReceiver \<Rightarrow> receiver_thread" where
  "thread_init self = \<lparr>rt_self = self, rt_pc = T_None, rt_caller = C_Idle, rt_thread = NullThread, rt_socketOpen = False\<rparr>"

subsection \<open>Operations\<close>

text \<open>
  \<open>GooseReceiver_start\<close>: the arguments are whether the socket and the thread could be created.  The code
  does not test whether a thread is already running; then \<open>ethSocket\<close> and \<open>running\<close> are written while that thread reads
  them, a data race, which is undefined.
\<close>

definition GooseReceiver_start :: "bool \<Rightarrow> bool \<Rightarrow> receiver_thread \<Rightarrow> receiver_thread option" where
  "GooseReceiver_start socketOk threadOk s =
     (if rt_thread s = LiveThread then None
      else Some
        (let (sock, _, self) = GooseReceiver_startThreadless (rt_self s) socketOk;
             s = s\<lparr>rt_self := self, rt_socketOpen := sock\<rparr>
         in if sock
            then if threadOk
                 then s\<lparr>rt_thread := LiveThread, rt_pc := T_Wait\<rparr>
                 else s\<lparr>rt_thread := NullThread, rt_pc := T_None\<rparr>
            else s))"

definition GooseReceiver_isRunning :: "receiver_thread \<Rightarrow> bool" where
  "GooseReceiver_isRunning s = gr_running (rt_self s)"

text \<open>One pass of the loop: the wait, with a packet or without, and the tests of \<open>stop\<close> and of \<open>running\<close>.\<close>

definition loop_idle :: "receiver_thread \<Rightarrow> receiver_thread" where
  "loop_idle s = s\<lparr>rt_pc := T_Check\<rparr>"

definition loop_packet :: "bytes \<Rightarrow> u64 \<Rightarrow> receiver_thread \<Rightarrow> receiver_thread option" where
  "loop_packet packet now s =
     (if rt_socketOpen s
      then map_option (\<lambda>(_, self, _). s\<lparr>rt_self := self, rt_pc := T_Check\<rparr>) (GooseReceiver_tick (rt_self s) packet now)
      else None)"

definition loop_check :: "receiver_thread \<Rightarrow> receiver_thread" where
  "loop_check s = s\<lparr>rt_pc := if gr_stop (rt_self s) then T_Close else T_Running\<rparr>"

definition loop_running :: "receiver_thread \<Rightarrow> receiver_thread" where
  "loop_running s = s\<lparr>rt_pc := if gr_running (rt_self s) then T_Wait else T_Close\<rparr>"

text \<open>
  The call of \<open>GooseReceiver_stopThreadless\<close> behind the loop.  \<open>Ethernet_destroySocket\<close> on a socket that no longer exists is
  a fault.
\<close>

definition loop_close :: "receiver_thread \<Rightarrow> receiver_thread option" where
  "loop_close s =
     (let (calls, self) = GooseReceiver_stopThreadless (rt_self s)
      in if DestroySocket \<in> set calls \<and> \<not> rt_socketOpen s then None
         else Some (s\<lparr>rt_self := self, rt_socketOpen := rt_socketOpen s \<and> DestroySocket \<notin> set calls, rt_pc := T_End\<rparr>))"

text \<open>\<open>GooseReceiver_stop\<close>: its two assignments, and the join with the reset of \<open>stop\<close>.  Joining a freed thread is a fault.\<close>

definition stop_request :: "bool \<Rightarrow> receiver_thread \<Rightarrow> receiver_thread" where
  "stop_request d s = s\<lparr>rt_self := (rt_self s)\<lparr>gr_stop := True\<rparr>, rt_caller := C_Stopping d\<rparr>"

definition stop_running :: "bool \<Rightarrow> receiver_thread \<Rightarrow> receiver_thread" where
  "stop_running d s = s\<lparr>rt_self := (rt_self s)\<lparr>gr_running := False\<rparr>, rt_caller := C_Joining d\<rparr>"

definition stop_join :: "bool \<Rightarrow> receiver_thread \<Rightarrow> receiver_thread option" where
  "stop_join d s =
     (let s' = s\<lparr>rt_self := (rt_self s)\<lparr>gr_stop := False\<rparr>, rt_caller := if d then C_Gone else C_Idle\<rparr>
      in case rt_thread s of
           NullThread \<Rightarrow> Some s'
         | LiveThread \<Rightarrow> Some (s'\<lparr>rt_thread := FreedThread\<rparr>)
         | FreedThread \<Rightarrow> None)"

text \<open>\<open>GooseReceiver_destroy\<close>: stops a running thread first, otherwise frees the receiver at once.\<close>

definition GooseReceiver_destroy :: "receiver_thread \<Rightarrow> receiver_thread" where
  "GooseReceiver_destroy s =
     (if rt_thread s \<noteq> NullThread \<and> GooseReceiver_isRunning s then stop_request True s else s\<lparr>rt_caller := C_Gone\<rparr>)"

subsection \<open>Interleaving\<close>

text \<open>
  A step is any access that the code can make; the only guards are the program counters of the thread
  and of its caller, and that \<open>Ethernet_receivePacket\<close> delivers at most what fits the buffer.  An access that is a
  fault has no step.
\<close>

datatype rt_event = E_Start bool bool | E_Idle | E_Packet bytes u64 | E_Check | E_Running | E_Close
  | E_StopRequest | E_StopRunning | E_StopJoin | E_Destroy

inductive rt_step :: "receiver_thread \<Rightarrow> rt_event \<Rightarrow> receiver_thread \<Rightarrow> bool" where
  start: "rt_caller s = C_Idle \<Longrightarrow> GooseReceiver_start socketOk threadOk s = Some t \<Longrightarrow> rt_step s (E_Start socketOk threadOk) t"
| idle: "rt_pc s = T_Wait \<Longrightarrow> rt_step s E_Idle (loop_idle s)"
| packet: "rt_pc s = T_Wait \<Longrightarrow> length packet \<le> ETH_BUFFER_LENGTH \<Longrightarrow> loop_packet packet now s = Some t \<Longrightarrow>
      rt_step s (E_Packet packet now) t"
| check: "rt_pc s = T_Check \<Longrightarrow> rt_step s E_Check (loop_check s)"
| running: "rt_pc s = T_Running \<Longrightarrow> rt_step s E_Running (loop_running s)"
| close: "rt_pc s = T_Close \<Longrightarrow> loop_close s = Some t \<Longrightarrow> rt_step s E_Close t"
| stop_request: "rt_caller s = C_Idle \<Longrightarrow> rt_step s E_StopRequest (stop_request False s)"
| stop_running: "rt_caller s = C_Stopping d \<Longrightarrow> rt_step s E_StopRunning (stop_running d s)"
| stop_join: "rt_caller s = C_Joining d \<Longrightarrow> rt_pc s \<in> {T_None, T_End} \<Longrightarrow> stop_join d s = Some t \<Longrightarrow> rt_step s E_StopJoin t"
| destroy: "rt_caller s = C_Idle \<Longrightarrow> rt_step s E_Destroy (GooseReceiver_destroy s)"

inductive_cases rt_stepE: "rt_step s e t"

text \<open>
  What is asked of the environment: the owner does not start a receiver whose thread lives and does not stop one
  whose thread it has already joined, neither of which the code tests, and a frame has at most 1510 octets.
\<close>

fun disciplined :: "receiver_thread \<Rightarrow> rt_event \<Rightarrow> bool" where
  "disciplined s (E_Start _ _) = (rt_thread s \<noteq> LiveThread)"
| "disciplined s E_StopRequest = (rt_thread s \<noteq> FreedThread)"
| "disciplined s (E_Packet packet _) = (length packet \<le> 1510)"
| "disciplined s _ = True"

inductive rt_run :: "receiver_thread \<Rightarrow> rt_event list \<Rightarrow> receiver_thread \<Rightarrow> bool" where
  nil: "rt_run s [] s"
| step: "rt_step s e t \<Longrightarrow> disciplined s e \<Longrightarrow> rt_run t es u \<Longrightarrow> rt_run s (e # es) u"

inductive_simps rt_run_Nil [simp]: "rt_run s [] t"
inductive_simps rt_run_Cons: "rt_run s (e # es) t"

subsection \<open>Invariant\<close>

definition receiver_ok :: "GooseReceiver \<Rightarrow> bool" where
  "receiver_ok self \<longleftrightarrow> length (gr_buffer self) = ETH_BUFFER_LENGTH \<and> list_all sub_ok (gr_subscriberList self)"

definition stopping :: "caller_pc \<Rightarrow> bool" where
  "stopping c \<longleftrightarrow> (case c of C_Stopping _ \<Rightarrow> True | C_Joining _ \<Rightarrow> True | _ \<Rightarrow> False)"

lemma stopping_simps [simp]:
  "\<not> stopping C_Idle" "\<not> stopping C_Gone" "stopping (C_Stopping d)" "stopping (C_Joining d)"
  by (simp_all add: stopping_def)

text \<open>The thread is active exactly while it exists and has not been told to stop, or its caller waits for it.\<close>

definition loop_ok :: "receiver_thread \<Rightarrow> bool" where
  "loop_ok s \<longleftrightarrow>
     (case rt_pc s of
        T_None \<Rightarrow> rt_thread s = NullThread
      | T_End \<Rightarrow> rt_thread s = (if stopping (rt_caller s) then LiveThread else FreedThread)
      | T_Close \<Rightarrow> rt_thread s = LiveThread \<and> stopping (rt_caller s)
      | _ \<Rightarrow> rt_thread s = LiveThread \<and> (rt_caller s = C_Idle \<and> gr_running (rt_self s) \<or> stopping (rt_caller s)))
     \<and> (rt_pc s \<in> {T_Wait, T_Check, T_Running, T_Close} \<longrightarrow> rt_socketOpen s)
     \<and> (rt_pc s = T_End \<longrightarrow> \<not> rt_socketOpen s \<and> \<not> gr_running (rt_self s))
     \<and> (rt_socketOpen s \<longrightarrow> gr_ethSocket (rt_self s))
     \<and> (gr_stop (rt_self s) \<longleftrightarrow> stopping (rt_caller s))
     \<and> (\<forall>d. rt_caller s = C_Joining d \<longrightarrow> \<not> gr_running (rt_self s))"

definition rt_ok :: "receiver_thread \<Rightarrow> bool" where
  "rt_ok s \<longleftrightarrow> receiver_ok (rt_self s) \<and> loop_ok s"

lemma tick_safe:
  assumes "length packet \<le> 1510" and "receiver_ok self"
  shows "\<exists>b self' c. GooseReceiver_tick self packet now = Some (b, self', c) \<and> receiver_ok self'
    \<and> gr_stop self' = gr_stop self \<and> gr_running self' = gr_running self \<and> gr_ethSocket self' = gr_ethSocket self"
proof (cases "packet = []")
  case False
  have l: "length (overlay (gr_buffer self) 0 packet) = 1518"
    using assms by (simp add: ETH_BUFFER_LENGTH_def receiver_ok_def)
  with message_safe [of "length packet" "overlay (gr_buffer self) 0 packet" "gr_subscriberList self" now] assms
  obtain subs called where "parseGooseMessage (gr_subscriberList self) (overlay (gr_buffer self) 0 packet) (length packet) now
      = Some (subs, called)" "list_all sub_ok subs" by (auto simp: receiver_ok_def)
  with False l show ?thesis by (auto simp: GooseReceiver_tick_def Let_def ETH_BUFFER_LENGTH_def receiver_ok_def)
next
  case True
  with assms show ?thesis by (auto simp: GooseReceiver_tick_def)
qed

lemmas rt_operations = GooseReceiver_start_def loop_idle_def loop_packet_def loop_check_def loop_running_def loop_close_def
  stop_request_def stop_running_def stop_join_def GooseReceiver_destroy_def GooseReceiver_isRunning_def
  GooseReceiver_startThreadless_def GooseReceiver_stopThreadless_def

lemma init_ok: "receiver_ok self \<Longrightarrow> \<not> gr_stop self \<Longrightarrow> rt_ok (thread_init self)"
  by (simp add: rt_ok_def loop_ok_def thread_init_def)

lemma start_ok:
  assumes "GooseReceiver_start socketOk threadOk s = Some t" and "rt_caller s = C_Idle" and "rt_ok s"
  shows "rt_ok t"
  using assms by (cases "rt_pc s")
    (auto simp: rt_ok_def receiver_ok_def loop_ok_def GooseReceiver_start_def GooseReceiver_startThreadless_def Let_def split: if_splits)

lemma stop_request_ok:
  assumes "rt_caller s = C_Idle" and "rt_thread s \<noteq> FreedThread" and "rt_ok s"
  shows "rt_ok (stop_request d s)"
  using assms by (cases "rt_pc s") (auto simp: rt_ok_def receiver_ok_def loop_ok_def stop_request_def)

lemma rt_step_ok:
  assumes "rt_step s e t" and "disciplined s e" and "rt_ok s"
  shows "rt_ok t"
  using assms(1)
proof (cases rule: rt_step.cases)
  case (packet p now)
  with assms(2,3) tick_safe [of p "rt_self s" now] show ?thesis by (auto simp: rt_ok_def loop_ok_def loop_packet_def)
next
  case start
  with start_ok assms(3) show ?thesis by blast
next
  case stop_request
  with stop_request_ok assms(2,3) show ?thesis by simp
next
  case (stop_join d)
  with assms(3) show ?thesis
    by (cases "rt_pc s") (auto simp: rt_ok_def receiver_ok_def loop_ok_def stop_join_def Let_def split: thread_ptr.splits if_splits)
next
  case (stop_running d)
  with assms(3) show ?thesis
    by (cases "rt_pc s") (auto simp: rt_ok_def receiver_ok_def loop_ok_def stop_running_def)
next
  case destroy
  then show ?thesis
  proof (cases "rt_thread s \<noteq> NullThread \<and> GooseReceiver_isRunning s")
    case True
    then have "rt_thread s \<noteq> FreedThread"
      using assms(3) destroy by (cases "rt_pc s") (auto simp: rt_ok_def loop_ok_def GooseReceiver_isRunning_def)
    with True destroy assms(3) stop_request_ok show ?thesis by (simp add: GooseReceiver_destroy_def)
  next
    case False
    with destroy assms(3) show ?thesis
      by (cases "rt_pc s") (auto simp: rt_ok_def receiver_ok_def loop_ok_def GooseReceiver_destroy_def GooseReceiver_isRunning_def)
  qed
next
  case close
  with assms(3) show ?thesis
    by (auto simp: rt_ok_def receiver_ok_def loop_ok_def loop_close_def GooseReceiver_stopThreadless_def split: if_splits)
qed (use assms(3) in \<open>auto simp: rt_ok_def receiver_ok_def loop_ok_def loop_idle_def loop_check_def loop_running_def\<close>)

lemma rt_run_ok: "rt_run s es t \<Longrightarrow> rt_ok s \<Longrightarrow> rt_ok t"
  by (induction rule: rt_run.induct) (auto intro: rt_step_ok)

text \<open>No step of the thread is blocked by a fault.\<close>

lemma packet_step:
  assumes "rt_ok s" and "rt_pc s = T_Wait" and "length packet \<le> 1510"
  shows "\<exists>t. rt_step s (E_Packet packet now) t"
proof -
  from tick_safe [OF assms(3), of "rt_self s" now] assms(1)
  obtain b self' c where "GooseReceiver_tick (rt_self s) packet now = Some (b, self', c)" by (auto simp: rt_ok_def)
  with assms have "loop_packet packet now s = Some (s\<lparr>rt_self := self', rt_pc := T_Check\<rparr>)"
    by (simp add: loop_packet_def rt_ok_def loop_ok_def)
  moreover have "length packet \<le> ETH_BUFFER_LENGTH" using assms(3) by (simp add: ETH_BUFFER_LENGTH_def)
  ultimately show ?thesis using assms(2) by (blast intro: rt_step.packet)
qed


lemma close_step:
  assumes "rt_ok s" and "rt_pc s = T_Close"
  shows "\<exists>t. rt_step s E_Close t"
proof -
  from assms have "loop_close s \<noteq> None" by (auto simp: loop_close_def GooseReceiver_stopThreadless_def rt_ok_def loop_ok_def)
  with assms(2) show ?thesis by (auto intro: rt_step.close)
qed

lemma join_defined: "rt_ok s \<Longrightarrow> rt_caller s = C_Joining d \<Longrightarrow> stop_join d s \<noteq> None"
  by (auto simp: rt_ok_def loop_ok_def stop_join_def Let_def split: thread_ptr.splits thread_pc.splits)

text \<open>
  C32: Under every interleaving of the receiver thread with the calls of its owner, the thread waits and reads
  only on an open socket, handles every frame of at most 1510 octets without a fault, never closes a closed
  socket and has closed it when it ends, \<open>GooseReceiver_stop\<close> and \<open>GooseReceiver_destroy\<close> join without a
  fault, and the receiver object is freed only when no thread uses it any more.  The runs are those
  in which the owner does not start a receiver whose thread lives and does not call \<open>GooseReceiver_stop\<close> once more
  after the thread was joined.  The code tests neither; the last clause shows that it would have to: the thread pointer is
  not cleared, and a second \<open>GooseReceiver_stop\<close> joins a freed thread.
\<close>

theorem receiver_thread_safe:
  assumes "receiver_ok self" and "\<not> gr_stop self" and "rt_run (thread_init self) es s"
  shows "list_all sub_ok (gr_subscriberList (rt_self s))
    \<and> (rt_pc s = T_Wait \<longrightarrow> (\<forall>packet now. length packet \<le> 1510 \<longrightarrow> loop_packet packet now s \<noteq> None))
    \<and> (rt_pc s = T_Close \<longrightarrow> loop_close s \<noteq> None)
    \<and> (\<forall>d. rt_caller s = C_Joining d \<longrightarrow> stop_join d s \<noteq> None)
    \<and> (rt_caller s = C_Gone \<longrightarrow> rt_pc s \<in> {T_None, T_End})
    \<and> (rt_socketOpen s \<longrightarrow> rt_pc s \<noteq> T_End)
    \<and> (rt_caller s = C_Idle \<and> rt_thread s = FreedThread \<longrightarrow>
        rt_step s E_StopRequest (stop_request False s) \<and> stop_join False (stop_running False (stop_request False s)) = None)"
proof -
  from rt_run_ok [OF assms(3) init_ok [OF assms(1,2)]] have ok: "rt_ok s" .
  have "loop_packet packet now s \<noteq> None" if "rt_pc s = T_Wait" "length packet \<le> 1510" for packet now
    using packet_step [OF ok that] by (auto elim: rt_stepE)
  moreover have "loop_close s \<noteq> None" if "rt_pc s = T_Close"
    using close_step [OF ok that] by (auto elim: rt_stepE)
  moreover have "rt_step s E_StopRequest (stop_request False s)" if "rt_caller s = C_Idle" by (rule rt_step.stop_request [OF that])
  moreover have "stop_join False (stop_running False (stop_request False s)) = None" if "rt_thread s = FreedThread"
    using that by (simp add: stop_join_def stop_running_def stop_request_def)
  ultimately show ?thesis using ok join_defined [OF ok]
    by (auto simp: rt_ok_def receiver_ok_def loop_ok_def split: thread_pc.splits)
qed

lemma sample_ok: "receiver_ok GooseReceiver_create \<and> \<not> gr_stop GooseReceiver_create"
  by (simp add: receiver_ok_def GooseReceiver_create_def GooseReceiver_createEx_def ETH_BUFFER_LENGTH_def)

definition sample_started :: receiver_thread where
  "sample_started = (thread_init GooseReceiver_create)
     \<lparr>rt_self := GooseReceiver_create\<lparr>gr_ethSocket := True, gr_running := True\<rparr>, rt_pc := T_Wait, rt_thread := LiveThread,
      rt_socketOpen := True\<rparr>"

definition sample_stop :: receiver_thread where
  "sample_stop = stop_running False (stop_request False (loop_idle sample_started))"

lemma sample_run: "rt_run (thread_init GooseReceiver_create) [E_Start True True, E_Idle, E_StopRequest, E_StopRunning] sample_stop"
proof -
  let ?s0 = "thread_init GooseReceiver_create"
  have "rt_step ?s0 (E_Start True True) sample_started"
    by (rule rt_step.start) (simp_all add: thread_init_def sample_started_def rt_operations)
  moreover have "rt_step sample_started E_Idle (loop_idle sample_started)" by (rule rt_step.idle) (simp add: sample_started_def)
  moreover have "rt_step (loop_idle sample_started) E_StopRequest (stop_request False (loop_idle sample_started))"
    by (rule rt_step.stop_request) (simp add: sample_started_def thread_init_def rt_operations)
  moreover have "rt_step (stop_request False (loop_idle sample_started)) E_StopRunning sample_stop"
    unfolding sample_stop_def by (rule rt_step.stop_running) (simp add: rt_operations)
  moreover have "disciplined ?s0 (E_Start True True)" "disciplined (loop_idle sample_started) E_StopRequest"
    by (simp_all add: thread_init_def sample_started_def loop_idle_def)
  ultimately show ?thesis by (auto intro!: rt_run.intros)
qed

lemma sample_joining: "rt_caller sample_stop = C_Joining False"
  by (simp add: sample_stop_def stop_running_def)

theorem receiver_thread_safe_witness: "stop_join False sample_stop \<noteq> None"
  using receiver_thread_safe [OF _ _ sample_run] sample_ok sample_joining by auto

subsection \<open>Termination\<close>

fun thread_left :: "thread_pc \<Rightarrow> nat" where
  "thread_left T_Wait = 3"
| "thread_left T_Check = 2"
| "thread_left T_Running = 2"
| "thread_left T_Close = 1"
| "thread_left _ = 0"

lemma joining_step:
  assumes "rt_step s e t" and "rt_ok s" and "rt_caller s = C_Joining d" and "e \<noteq> E_StopJoin"
  shows "rt_caller t = C_Joining d" and "thread_left (rt_pc s) = Suc (thread_left (rt_pc t))"
  using assms by (auto simp: rt_ok_def loop_ok_def rt_operations Let_def elim!: rt_stepE split: if_splits)

lemma joining_progress:
  assumes "rt_ok s" and "rt_caller s = C_Joining d" and "thread_left (rt_pc s) = Suc n"
  shows "\<exists>e t. rt_step s e t \<and> disciplined s e \<and> e \<noteq> E_StopJoin"
proof (cases "rt_pc s")
  case T_Wait
  then show ?thesis using rt_step.idle disciplined.simps by blast
next
  case T_Check
  then show ?thesis using rt_step.check disciplined.simps by blast
next
  case T_Running
  then show ?thesis using rt_step.running disciplined.simps by blast
next
  case T_Close
  then show ?thesis using close_step [OF assms(1)] disciplined.simps by blast
qed (use assms(3) in simp_all)

lemma joining_bounded:
  "rt_run s es t \<Longrightarrow> rt_ok s \<Longrightarrow> rt_caller s = C_Joining d \<Longrightarrow> E_StopJoin \<notin> set es \<Longrightarrow>
    rt_caller t = C_Joining d \<and> thread_left (rt_pc s) = length es + thread_left (rt_pc t)"
proof (induction rule: rt_run.induct)
  case (step s e t es u)
  then show ?case using joining_step [OF step.hyps(1) step.prems(1,2)] rt_step_ok [OF step.hyps(1,2) step.prems(1)] by auto
qed simp

lemma joining_done:
  assumes "rt_ok s" and "rt_caller s = C_Joining d" and "thread_left (rt_pc s) = 0"
  shows "\<exists>t. rt_step s E_StopJoin t \<and> stop_join d s = Some t \<and> rt_pc s \<in> {T_None, T_End}"
proof -
  from join_defined [OF assms(1,2)] obtain t where "stop_join d s = Some t" by auto
  moreover have "rt_pc s \<in> {T_None, T_End}" using assms(3) by (cases "rt_pc s") auto
  ultimately show ?thesis using rt_step.stop_join [OF assms(2)] by blast
qed

lemma joining_returns:
  "rt_ok s \<Longrightarrow> rt_caller s = C_Joining d \<Longrightarrow>
    \<exists>es u t. rt_run s es u \<and> length es = thread_left (rt_pc s) \<and> E_StopJoin \<notin> set es
      \<and> rt_pc u \<in> {T_None, T_End} \<and> stop_join d u = Some t \<and> rt_step u E_StopJoin t"
proof (induction "thread_left (rt_pc s)" arbitrary: s)
  case 0
  then show ?case using joining_done [of s d] rt_run.nil by fastforce
next
  case (Suc n)
  from joining_progress [OF Suc.prems Suc.hyps(2) [symmetric]] obtain e s'
    where e: "rt_step s e s'" "e \<noteq> E_StopJoin" "disciplined s e" by blast
  note j = joining_step [OF e(1) Suc.prems e(2)]
  from Suc.hyps(1) [OF _ rt_step_ok [OF e(1,3) Suc.prems(1)] j(1)] Suc.hyps(2) j(2)
  obtain es u t where r: "rt_run s' es u" "length es = n" "E_StopJoin \<notin> set es"
    "rt_pc u \<in> {T_None, T_End}" "stop_join d u = Some t" "rt_step u E_StopJoin t" by auto
  have "rt_run s (e # es) u" by (rule rt_run.step [OF e(1,3) r(1)])
  moreover have "length (e # es) = thread_left (rt_pc s)" "E_StopJoin \<notin> set (e # es)"
    using r(2,3) e(2) Suc.hyps(2) by auto
  ultimately show ?case using r(4-6) by blast
qed

text \<open>
  C33: \<open>GooseReceiver_stop\<close> returns: from any moment at which its caller waits, the thread makes at most
  three more steps (so it handles at most one more frame) whatever the interleaving, it can always
  make them, and then the join succeeds, in the runs of a disciplined owner, with a receiver that is not running and whose socket,
  if the thread had been created, is closed.
\<close>

theorem stop_returns:
  assumes "receiver_ok self" and "\<not> gr_stop self" and "rt_run (thread_init self) es0 s" and "rt_caller s = C_Joining d"
  shows "(\<forall>es u. rt_run s es u \<and> E_StopJoin \<notin> set es \<longrightarrow> length es \<le> 3)
    \<and> (\<exists>es u t. rt_run s es u \<and> E_StopJoin \<notin> set es \<and> stop_join d u = Some t \<and> rt_step u E_StopJoin t
        \<and> \<not> gr_stop (rt_self t) \<and> (rt_thread u = LiveThread \<longrightarrow> \<not> GooseReceiver_isRunning t \<and> \<not> rt_socketOpen t))"
proof (intro conjI allI impI)
  from rt_run_ok [OF assms(3) init_ok [OF assms(1,2)]] have ok: "rt_ok s" .
  {
    fix es u
    assume "rt_run s es u \<and> E_StopJoin \<notin> set es"
    with joining_bounded [OF _ ok assms(4), of es u] have "length es \<le> thread_left (rt_pc s)" by simp
    also have "\<dots> \<le> 3" by (cases "rt_pc s") auto
    finally show "length es \<le> 3" .
  }
  from joining_returns [OF ok assms(4)] obtain es u t where r: "rt_run s es u" "E_StopJoin \<notin> set es"
    "rt_pc u \<in> {T_None, T_End}" "stop_join d u = Some t" "rt_step u E_StopJoin t" by blast
  have "rt_ok u" by (rule rt_run_ok [OF r(1) ok])
  with r(3,4) have "\<not> gr_stop (rt_self t)"
    "rt_thread u = LiveThread \<longrightarrow> \<not> GooseReceiver_isRunning t \<and> \<not> rt_socketOpen t"
    by (auto simp: stop_join_def Let_def GooseReceiver_isRunning_def rt_ok_def loop_ok_def split: thread_ptr.splits)
  with r show "\<exists>es u t. rt_run s es u \<and> E_StopJoin \<notin> set es \<and> stop_join d u = Some t \<and> rt_step u E_StopJoin t
        \<and> \<not> gr_stop (rt_self t) \<and> (rt_thread u = LiveThread \<longrightarrow> \<not> GooseReceiver_isRunning t \<and> \<not> rt_socketOpen t)"
    by blast
qed

theorem stop_returns_witness:
  "\<exists>es u t. rt_run sample_stop es u \<and> stop_join False u = Some t \<and> \<not> gr_stop (rt_self t)"
  using stop_returns [OF _ _ sample_run sample_joining] sample_ok by auto

text \<open>Stopping a receiver that is already stopped joins a freed thread.\<close>

lemma stop_twice: "rt_thread s = FreedThread \<Longrightarrow> stop_join d s = None"
  by (simp add: stop_join_def)

text \<open>If the thread cannot be created the receiver counts as running with an open socket that nobody reads or closes.\<close>

lemma start_without_thread:
  fixes self :: GooseReceiver
  assumes "GooseReceiver_start True False (thread_init self) = Some s"
  shows "GooseReceiver_isRunning s \<and> rt_socketOpen s \<and> rt_thread s = NullThread"
    and "map_option rt_socketOpen (stop_join False (stop_running False (stop_request False s))) = Some True"
  using assms by (auto simp: thread_init_def rt_operations)

end
