(* ===== verification/BerOid.thy ===== *)
theory BerOid
  imports BerDecoder CString
begin

text \<open>
  Object identifiers: \<open>BerEncoder_encodeOIDToBuffer\<close> of \<open>src/libiec61850/src/mms/asn1/ber_encoder.c\<close>,
  which turns the dotted text of an identifier into its octets, and its round trip with
  \<open>BerDecoder_decodeOID\<close>.  The buffer is the block the pointer points to, \<open>maxBufLen\<close> the size the caller
  passes.  The result is the buffer with the number of octets; 0 is the error value of the code.
\<close>

subsection \<open>Encoder\<close>

fun required_bytes :: "nat \<Rightarrow> nat" where
  "required_bytes val2 = (if 0 < val2 then Suc (required_bytes (val2 div 128)) else 0)"

declare required_bytes.simps [simp del]

text \<open>\<open>val2\<close>, the octet written while \<open>requiredBytes = Suc r\<close>.\<close>

definition arc_octet :: "nat \<Rightarrow> nat \<Rightarrow> u8" where
  "arc_octet val r = word_of_nat (val div 2 ^ (7 * r) mod 128 + (if 0 < r then 128 else 0))"

text \<open>The octets of one arc.  \<open>None\<close> in the position is the early \<open>return 0\<close>.\<close>

fun arc_loop :: "nat \<Rightarrow> nat \<Rightarrow> nat \<Rightarrow> bytes \<Rightarrow> nat \<Rightarrow> (bytes \<times> nat option) option" where
  "arc_loop val maxBufLen 0 buffer encodedBytes = Some (buffer, Some encodedBytes)"
| "arc_loop val maxBufLen (Suc r) buffer encodedBytes =
     (if encodedBytes = maxBufLen then Some (buffer, None)
      else do {
        (buffer, encodedBytes) \<leftarrow> put (arc_octet val r) buffer encodedBytes;
        arc_loop val maxBufLen r buffer encodedBytes })"

text \<open>One arc: a zero is written without a test, a negative number has no octets.\<close>

definition encode_arc :: "int \<Rightarrow> nat \<Rightarrow> bytes \<Rightarrow> nat \<Rightarrow> (bytes \<times> nat option) option" where
  "encode_arc val maxBufLen buffer encodedBytes =
     (if val = 0 then do {
        (buffer, encodedBytes) \<leftarrow> put 0 buffer encodedBytes;
        Some (buffer, Some encodedBytes) }
      else arc_loop (nat val) maxBufLen (required_bytes (nat val)) buffer encodedBytes)"

function arcs_loop :: "u8 \<Rightarrow> nat \<Rightarrow> cstring \<Rightarrow> bytes \<Rightarrow> nat \<Rightarrow> (bytes \<times> nat) option" where
  "arcs_loop sepChar maxBufLen separator buffer encodedBytes =
     (case c_strchr sepChar (tl separator) of
        None \<Rightarrow> Some (buffer, encodedBytes)
      | Some separator' \<Rightarrow>
          if separator = [] then None
          else do {
            val \<leftarrow> c_atoi (tl separator');
            (buffer, r) \<leftarrow> encode_arc val maxBufLen buffer encodedBytes;
            (case r of None \<Rightarrow> Some (buffer, 0)
             | Some encodedBytes \<Rightarrow> arcs_loop sepChar maxBufLen separator' buffer encodedBytes) })"
  by pat_completeness auto
termination
proof (relation "measure (\<lambda>(_, _, separator, _). length separator)")
  fix sepChar maxBufLen separator buffer encodedBytes sep' val x b r n
  assume "c_strchr sepChar (tl separator) = Some sep'" "separator \<noteq> []"
  then show "((sepChar, maxBufLen, sep', b, n), sepChar, maxBufLen, separator, buffer, encodedBytes)
      \<in> measure (\<lambda>(_, _, separator, _). length separator)"
    using c_strchr_length [of sepChar "tl separator" sep'] by (cases separator) auto
qed simp

declare arcs_loop.simps [simp del]

definition find_separator :: "cstring \<Rightarrow> (u8 \<times> cstring) option" where
  "find_separator oidString =
     (case c_strchr 46 oidString of
        Some s \<Rightarrow> Some (46, s)
      | None \<Rightarrow> (case c_strchr 44 oidString of
                   Some s \<Rightarrow> Some (44, s)
                 | None \<Rightarrow> map_option (\<lambda>s. (32, s)) (c_strchr 32 oidString)))"

definition BerEncoder_encodeOIDToBuffer :: "cstring \<Rightarrow> bytes \<Rightarrow> nat \<Rightarrow> (bytes \<times> nat) option" where
  "BerEncoder_encodeOIDToBuffer oidString buffer maxBufLen = do {
     x \<leftarrow> c_atoi oidString;
     (case find_separator oidString of
        None \<Rightarrow> Some (buffer, 0)
      | Some (sepChar, separator) \<Rightarrow> do {
          y \<leftarrow> c_atoi (tl separator);
          val \<leftarrow> (if - (2 ^ 31) \<le> x * 40 \<and> x * 40 < 2 ^ 31 \<and> - (2 ^ 31) \<le> x * 40 + y \<and> x * 40 + y < 2 ^ 31
                  then Some (x * 40 + y) else None);
          if 0 < maxBufLen then do {
            (buffer, encodedBytes) \<leftarrow> put (word_of_int val) buffer 0;
            arcs_loop sepChar maxBufLen separator buffer encodedBytes }
          else Some (buffer, 0) }) }"

subsection \<open>Identifiers and their octets\<close>

text \<open>The dotted text, and the octets that X.690 gives an identifier.\<close>

fun dotted :: "nat list \<Rightarrow> cstring" where
  "dotted [] = []"
| "dotted (a # as) = 46 # dec_nat a @ dotted as"

definition oid_text :: "nat \<Rightarrow> nat \<Rightarrow> nat list \<Rightarrow> cstring" where
  "oid_text x y arcs = dec_nat x @ dotted (y # arcs)"

fun base128 :: "nat \<Rightarrow> nat \<Rightarrow> bytes" where
  "base128 val 0 = []"
| "base128 val (Suc r) = arc_octet val r # base128 val r"

definition arc_octets :: "nat \<Rightarrow> bytes" where
  "arc_octets a = (if a = 0 then [0] else base128 a (required_bytes a))"

definition oid_octets :: "nat \<Rightarrow> nat \<Rightarrow> nat list \<Rightarrow> bytes" where
  "oid_octets x y arcs = word_of_nat (40 * x + y) # concat (map arc_octets arcs)"

lemma length_base128 [simp]: "length (base128 v r) = r"
  by (induction r) auto

lemma arc_octets_pos: "0 < length (arc_octets a)"
  by (subst arc_octets_def) (simp add: required_bytes.simps [of a])

lemma arc_loop_eq:
  "maxBufLen \<le> length buffer \<Longrightarrow> n \<le> maxBufLen \<Longrightarrow>
   arc_loop val maxBufLen r buffer n =
     (if n + r \<le> maxBufLen then Some (overlay buffer n (base128 val r), Some (n + r))
      else Some (overlay buffer n (take (maxBufLen - n) (base128 val r)), None))"
proof (induction r arbitrary: buffer n)
  case (Suc r)
  show ?case
  proof (cases "n = maxBufLen")
    case False
    from False Suc.prems have n: "n < length buffer" "Suc n \<le> maxBufLen" by auto
    then have "take (maxBufLen - n) (base128 val (Suc r)) = arc_octet val r # take (maxBufLen - Suc n) (base128 val r)"
      by (simp add: take_Cons' Suc_diff_le)
    moreover have "arc_loop val maxBufLen (Suc r) buffer n = arc_loop val maxBufLen r (buffer[n := arc_octet val r]) (Suc n)"
      using False n by (simp add: put_def)
    ultimately show ?thesis
      using Suc.IH [of "buffer[n := arc_octet val r]" "Suc n"] Suc.prems n overlay_Cons [OF n(1)]
      by (simp del: take_Cons' arc_loop.simps)
  qed simp
qed simp

text \<open>One arc: written if it fits; otherwise an arc other than zero is the error.\<close>

lemma encode_arc_fits:
  assumes "maxBufLen \<le> length buffer" and "n + length (arc_octets a) \<le> maxBufLen"
  shows "encode_arc (int a) maxBufLen buffer n = Some (overlay buffer n (arc_octets a), Some (n + length (arc_octets a)))"
proof (cases "a = 0")
  case True
  with assms show ?thesis
    by (simp add: encode_arc_def arc_octets_def put_def overlay_Cons [where xs = "[]", simplified])
next
  case False
  with assms show ?thesis by (simp add: encode_arc_def arc_octets_def arc_loop_eq)
qed

lemma encode_arc_full:
  assumes "maxBufLen \<le> length buffer" and "n \<le> maxBufLen" and "maxBufLen < n + length (arc_octets a)" and "a \<noteq> 0"
  shows "\<exists>buffer'. encode_arc (int a) maxBufLen buffer n = Some (buffer', None)
    \<and> length buffer' = length buffer \<and> drop maxBufLen buffer' = drop maxBufLen buffer"
  using assms by (auto simp: encode_arc_def arc_octets_def arc_loop_eq overlay_def)

lemma dotted_digit: "dotted as = [] \<or> \<not> is_digit (hd (dotted as))"
  by (cases as) (simp_all add: is_digit_def)

lemma dot_notin_dec: "46 \<notin> set (dec_nat n)"
  using dec_nat_digits(2) [of n] by (auto simp: list_all_iff)

lemma next_arc: "c_strchr 46 (dec_nat a @ dotted as) = (if as = [] then None else Some (dotted as))"
  using c_strchr_append [OF dot_notin_dec, of a "dotted as"] by (cases as) simp_all

lemma arcs_loop_fits:
  "maxBufLen \<le> length buffer \<Longrightarrow> n + length (concat (map arc_octets as)) \<le> maxBufLen \<Longrightarrow> list_all (\<lambda>a. a < 2 ^ 31) as \<Longrightarrow>
   arcs_loop 46 maxBufLen (dotted (y # as)) buffer n
     = Some (overlay buffer n (concat (map arc_octets as)), n + length (concat (map arc_octets as)))"
proof (induction as arbitrary: y buffer n)
  case Nil
  then show ?case by (simp add: arcs_loop.simps [of _ _ "46 # _"] next_arc [where as = "[]", simplified])
next
  case (Cons a as)
  have "arcs_loop 46 maxBufLen (dotted (y # a # as)) buffer n
      = arcs_loop 46 maxBufLen (dotted (a # as)) (overlay buffer n (arc_octets a)) (n + length (arc_octets a))"
    using Cons.prems next_arc [of y "a # as"] encode_arc_fits [of maxBufLen buffer n a] c_atoi_prefix [OF _ dotted_digit, of a as]
    by (simp add: arcs_loop.simps [of _ _ "46 # dec_nat y @ _"])
  also have "\<dots> = Some (overlay (overlay buffer n (arc_octets a)) (n + length (arc_octets a)) (concat (map arc_octets as)),
      n + length (arc_octets a) + length (concat (map arc_octets as)))"
    using Cons.prems by (intro Cons.IH) auto
  finally show ?case using Cons.prems overlay_append [of n "arc_octets a" "concat (map arc_octets as)" buffer] by (simp add: add.assoc)
qed

lemma oid_separator: "find_separator (oid_text x y arcs) = Some (46, dotted (y # arcs))"
  using next_arc [of x "y # arcs"] by (simp add: find_separator_def oid_text_def)

lemma encode_oid:
  assumes "40 * x + y < 2 ^ 31" and "list_all (\<lambda>a. a < 2 ^ 31) arcs"
    and "length (oid_octets x y arcs) \<le> maxBufLen" and "maxBufLen \<le> length buffer"
  shows "BerEncoder_encodeOIDToBuffer (oid_text x y arcs) buffer maxBufLen
    = Some (overlay buffer 0 (oid_octets x y arcs), length (oid_octets x y arcs))"
proof -
  let ?b = "word_of_nat (40 * x + y) :: u8"
  have "c_atoi (oid_text x y arcs) = Some (int x)"
    unfolding oid_text_def using assms(1) by (intro c_atoi_prefix dotted_digit) simp
  moreover have "c_atoi (tl (dotted (y # arcs))) = Some (int y)"
    using c_atoi_prefix [OF _ dotted_digit, of y arcs] assms(1) by simp
  moreover have "arcs_loop 46 maxBufLen (dotted (y # arcs)) (buffer[0 := ?b]) 1
      = Some (overlay (buffer[0 := ?b]) 1 (concat (map arc_octets arcs)), 1 + length (concat (map arc_octets arcs)))"
    using assms(2-4) by (intro arcs_loop_fits) (auto simp: oid_octets_def)
  moreover have "overlay (buffer[0 := ?b]) 1 (concat (map arc_octets arcs)) = overlay buffer 0 (oid_octets x y arcs)"
    using overlay_Cons [of 0 buffer ?b] assms(3,4) by (cases "buffer = []") (simp_all add: oid_octets_def)
  moreover have "word_of_nat x * 40 + word_of_nat y = ?b" by (simp add: mult.commute)
  moreover have "0 < maxBufLen" "0 < length buffer" using assms(3,4) by (auto simp: oid_octets_def)
  ultimately show ?thesis
    using assms(1) by (simp add: BerEncoder_encodeOIDToBuffer_def oid_separator put_def oid_octets_def
        del: of_nat_add of_nat_mult dotted.simps)
qed

subsection \<open>Round trip\<close>

lemma required_bytes_bound: "a < 2 ^ (7 * required_bytes a)"
proof (induction a rule: required_bytes.induct)
  case (1 a)
  show ?case
  proof (cases "0 < a")
    case True
    with 1 have "a div 128 < 2 ^ (7 * required_bytes (a div 128))" by simp
    then have "a < 128 * 2 ^ (7 * required_bytes (a div 128))" by (simp add: div_less_iff_less_mult ac_simps)
    with True show ?thesis by (simp add: required_bytes.simps [of a] power_add)
  qed simp
qed

lemma unat_arc_octet: "unat (arc_octet val r) = val div 2 ^ (7 * r) mod 128 + (if 0 < r then 128 else 0)"
  unfolding arc_octet_def by (subst unat_u8_of_nat) simp

lemma arc_octet_low: "ucast (arc_octet val r AND 0x7f) = (word_of_nat (val div 2 ^ (7 * r) mod 128) :: u16)"
proof -
  have "unat (arc_octet val r AND 0x7f) = val div 2 ^ (7 * r) mod 128"
    using unat_arc_octet [of val r] by (simp add: unat_and_0x7f mod_simps)
  then show ?thesis by (metis of_nat_unat)
qed

lemma shift_arc:
  "push_bit 7 (word_of_nat (val div 2 ^ (7 * Suc r))) + word_of_nat (val div 2 ^ (7 * r) mod 128) = (word_of_nat (val div 2 ^ (7 * r)) :: u16)"
proof -
  let ?q = "val div 2 ^ (7 * r)"
  have "val div 2 ^ (7 * Suc r) = ?q div 128" by (simp add: power_add div_mult2_eq [symmetric] mult.commute)
  then have "push_bit 7 (word_of_nat (val div 2 ^ (7 * Suc r))) = (word_of_nat (?q div 128 * 128) :: u16)"
    by (simp add: push_bit_eq_mult)
  moreover have "?q = ?q div 128 * 128 + ?q mod 128" by simp
  ultimately show ?thesis by (metis of_nat_add)
qed

lemma decode_arc:
  assumes "take (Suc r) (drop pos buffer) = base128 a (Suc r)" and "pos + Suc r \<le> length buffer"
    and "pos - start + Suc r \<le> len" and "start \<le> pos" and "cur < 10" and "length arc = 10"
    and "arc ! cur = word_of_nat (a div 2 ^ (7 * Suc r))"
  shows "oid_loop buffer pos start len arc cur = oid_loop buffer (pos + Suc r) start len (arc[cur := word_of_nat a]) (Suc cur)"
  using assms
proof (induction r arbitrary: pos arc)
  case 0
  then have b: "rd buffer pos = Some (arc_octet a 0)" by (auto simp: rd_def take_Suc_conv_app_nth)
  have "arc_octet a 0 < 0x80" using unat_arc_octet [of a 0] by (simp add: word_less_nat_alt)
  moreover have "(ucast (arc_octet a 0) :: u16) = word_of_nat (a mod 128)"
    using unat_arc_octet [of a 0] by (subst of_nat_unat [symmetric]) simp
  ultimately show ?case
    using 0 b shift_arc [of a 0] by (subst oid_loop.simps) simp
next
  case (Suc r)
  have t: "buffer ! pos = arc_octet a (Suc r)" "take (Suc r) (drop (Suc pos) buffer) = base128 a (Suc r)"
    using Suc.prems(1,2) by (simp_all add: Cons_nth_drop_Suc [symmetric] del: base128.simps) (simp_all)
  then have b: "rd buffer pos = Some (arc_octet a (Suc r))" using Suc.prems(2) by (simp add: rd_def)
  have o: "\<not> arc_octet a (Suc r) < 0x80" using unat_arc_octet [of a "Suc r"] by (simp add: word_less_nat_alt)
  have l: "pos - start < len" using Suc.prems(3) by linarith
  have "oid_loop buffer pos start len arc cur
      = oid_loop buffer (Suc pos) start len (arc[cur := word_of_nat (a div 2 ^ (7 * Suc r))]) cur"
    unfolding oid_loop.simps [of _ pos]
    by (simp add: b o l Suc.prems(5-7) shift_arc [of a "Suc r"] arc_octet_low [of a "Suc r"] del: mult_Suc_right)
  also have "\<dots> = oid_loop buffer (Suc pos + Suc r) start len (arc[cur := word_of_nat a]) (Suc cur)"
    using Suc.IH [of "Suc pos" "arc[cur := word_of_nat (a div 2 ^ (7 * Suc r))]"] Suc.prems t(2) by simp
  finally show ?case by simp
qed

lemma arc_octets_base128: "\<exists>r. arc_octets a = base128 a (Suc r) \<and> a < 2 ^ (7 * Suc r)"
proof (cases "a = 0")
  case True
  then show ?thesis by (intro exI [of _ 0]) (simp add: arc_octets_def arc_octet_def)
next
  case False
  then obtain r where "required_bytes a = Suc r" by (simp add: required_bytes.simps [of a])
  with False required_bytes_bound [of a] show ?thesis
    by (intro exI [of _ r]) (simp add: arc_octets_def del: base128.simps mult_Suc_right)
qed

lemma decode_arcs:
  "take (length (concat (map arc_octets as))) (drop pos buffer) = concat (map arc_octets as) \<Longrightarrow>
   pos + length (concat (map arc_octets as)) = start + len \<Longrightarrow> start + len \<le> length buffer \<Longrightarrow> start \<le> pos \<Longrightarrow>
   cur + length as \<le> 10 \<Longrightarrow> length arc = cur \<Longrightarrow>
   oid_loop buffer pos start len (arc @ replicate (10 - cur) 0) cur
     = Some (arc @ map word_of_nat as @ replicate (10 - cur - length as) 0, cur + length as)"
proof (induction as arbitrary: pos arc cur)
  case Nil
  then show ?case by (subst oid_loop.simps) auto
next
  case (Cons a as)
  from arc_octets_base128 [of a] obtain r where r: "arc_octets a = base128 a (Suc r)" "a < 2 ^ (7 * Suc r)" by blast
  let ?n = "length (concat (map arc_octets as))"
  have sl: "take (Suc r + ?n) (drop pos buffer) = base128 a (Suc r) @ concat (map arc_octets as)"
    using Cons.prems(1) r(1) by (simp del: base128.simps)
  have t1: "take (Suc r) (drop pos buffer) = base128 a (Suc r)"
    using arg_cong [OF sl, of "take (Suc r)"] by (simp del: base128.simps take_Suc_Cons)
  have t2: "take ?n (drop (pos + Suc r) buffer) = concat (map arc_octets as)"
    using arg_cong [OF sl, of "drop (Suc r)"] by (simp add: drop_take ac_simps del: base128.simps)
  have e: "pos + (Suc r + ?n) = start + len" using Cons.prems(2) r(1) by (simp del: base128.simps)
  have z: "(arc @ replicate (10 - cur) 0) ! cur = word_of_nat (a div 2 ^ (7 * Suc r))"
    using Cons.prems(5,6) r(2) by (simp add: nth_append)
  have u: "(arc @ replicate (10 - cur) 0)[cur := word_of_nat a] = (arc @ [word_of_nat a]) @ replicate (10 - Suc cur) 0"
    using Cons.prems(5,6) by (simp add: list_update_append Suc_diff_Suc [symmetric])
  have "oid_loop buffer pos start len (arc @ replicate (10 - cur) 0) cur
      = oid_loop buffer (pos + Suc r) start len ((arc @ [word_of_nat a]) @ replicate (10 - Suc cur) 0) (Suc cur)"
    unfolding u [symmetric] using Cons.prems(3-6) e by (intro decode_arc [OF t1 _ _ _ _ _ z]) auto
  also have "\<dots> = Some ((arc @ [word_of_nat a]) @ map word_of_nat as @ replicate (10 - Suc cur - length as) 0, Suc cur + length as)"
    using Cons.prems(3-6) e by (intro Cons.IH t2) auto
  finally show ?case by simp
qed

text \<open>
  An object identifier whose text is encoded into a large enough buffer is written as the octets of
  X.690, nothing behind them changes, and the decoder reads the same arcs back.
\<close>

theorem oid_roundtrip:
  assumes "y < 40" and "40 * x + y < 256" and "list_all (\<lambda>a. a < 2 ^ 16) arcs" and "length arcs \<le> 8"
    and "length (oid_octets x y arcs) \<le> maxBufLen" and "maxBufLen \<le> length buffer"
  shows "\<exists>buffer' n. BerEncoder_encodeOIDToBuffer (oid_text x y arcs) buffer maxBufLen = Some (buffer', n)
    \<and> buffer' = oid_octets x y arcs @ drop n buffer
    \<and> BerDecoder_decodeOID buffer' 0 n = Some (map word_of_nat (x # y # arcs) @ replicate (8 - length arcs) 0, 2 + length arcs)"
proof -
  let ?o = "oid_octets x y arcs"
  let ?b = "word_of_nat (40 * x + y) :: u8"
  have a: "list_all (\<lambda>a. a < 2 ^ 31) arcs" using assms(3) by (auto simp: list_all_iff)
  have enc: "BerEncoder_encodeOIDToBuffer (oid_text x y arcs) buffer maxBufLen = Some (?o @ drop (length ?o) buffer, length ?o)"
    using encode_oid [OF _ a assms(5,6)] assms(2) by (simp add: overlay_def)
  have ub: "unat ?b = 40 * x + y" using assms(2) by (subst unat_u8_of_nat) simp
  have "unat (?b div 40) = x" "unat (?b mod 40) = y"
    using assms(1) ub by (simp_all add: unat_div_distrib unat_mod_distrib)
  then have c: "(ucast (?b div 40) :: u16) = word_of_nat x" "(ucast (?b mod 40) :: u16) = word_of_nat y"
    by (metis of_nat_unat)+
  have i: "(replicate 10 0)[0 := ucast (?b div 40), Suc 0 := ucast (?b mod 40)]
      = ([word_of_nat x, word_of_nat y] :: u16 list) @ replicate (10 - 2) 0"
    unfolding c by (simp add: numeral_eq_Suc)
  have "oid_loop (?o @ drop (length ?o) buffer) 1 0 (length ?o) ([word_of_nat x, word_of_nat y] @ replicate (10 - 2) 0) 2
      = Some ([word_of_nat x, word_of_nat y] @ map word_of_nat arcs @ replicate (10 - 2 - length arcs) 0, 2 + length arcs)"
    by (rule decode_arcs) (use assms(4) in \<open>simp_all add: oid_octets_def\<close>)
  then have "BerDecoder_decodeOID (?o @ drop (length ?o) buffer) 0 (length ?o)
      = Some (map word_of_nat (x # y # arcs) @ replicate (8 - length arcs) 0, 2 + length arcs)"
    using i by (simp add: BerDecoder_decodeOID_def oid_octets_def rd_def)
  with enc show ?thesis by blast
qed

lemma length_sample_oid: "length (oid_octets 1 1 [1, 999, 1]) = 5"
  by (simp add: oid_octets_def arc_octets_def required_bytes.simps)

theorem oid_roundtrip_witness:
  "\<exists>buffer' n. BerEncoder_encodeOIDToBuffer (oid_text 1 1 [1, 999, 1]) (replicate 10 0) 10 = Some (buffer', n)
    \<and> BerDecoder_decodeOID buffer' 0 n = Some ([1, 1, 1, 999, 1] @ replicate 5 0, 5)"
  using oid_roundtrip [of 1 1 "[1, 999, 1]" 10 "replicate 10 0"] length_sample_oid by auto

text \<open>The test of the buffer size is missing for arcs that are zero.\<close>

lemma zero_arc_overflow: "BerEncoder_encodeOIDToBuffer (oid_text 1 3 [0]) [0] 1 = None"
proof -
  have "arcs_loop 46 1 (dotted [3, 0]) [43] 1 = None"
    using next_arc [of 3 "[0]"] c_atoi_prefix [OF _ dotted_digit, of 0 "[]"]
    by (subst arcs_loop.simps) (simp add: encode_arc_def put_def)
  then show ?thesis
    using oid_separator [of 1 3 "[0]"] c_atoi_prefix [OF _ dotted_digit, of 1 "[3, 0]"] c_atoi_prefix [OF _ dotted_digit, of 3 "[0]"]
    by (simp add: BerEncoder_encodeOIDToBuffer_def oid_text_def put_def)
qed

end
