(* ===== verification/MmsTypeSpec.thy ===== *)
theory MmsTypeSpec
  imports MmsAccessResult CString
begin

text \<open>
  Type specifications of MMS variables: \<open>src/libiec61850/src/mms/iso_mms/common/mms_type_spec.c\<close> with the
  structure of \<open>src/libiec61850/src/mms/inc/mms_types.h\<close>, the constructors of default values in
  \<open>mms_value.c\<close> and the size bound in \<open>mms_access_result.c\<close>.  A specification is a datatype with one
  constructor per type, holding the name (a pointer that may be \<open>NULL\<close>) and the member of the union.
  Reading the member of another type and following a \<open>NULL\<close> name or component is a fault.  The sizes, \<open>int\<close> in
  C, are numbers here; element counts and widths are not negative.  The size computation, which multiplies and adds them, is
  undefined where a result leaves the range of \<open>int\<close>.
\<close>

datatype MmsVariableSpecification =
    SPEC_ARRAY (spec_name: "cstring option") nat MmsVariableSpecification
  | SPEC_STRUCTURE (spec_name: "cstring option") "MmsVariableSpecification list"
  | SPEC_BOOLEAN (spec_name: "cstring option")
  | SPEC_BIT_STRING (spec_name: "cstring option") int
  | SPEC_INTEGER (spec_name: "cstring option") nat
  | SPEC_UNSIGNED (spec_name: "cstring option") nat
  | SPEC_FLOAT (spec_name: "cstring option") u8 nat
  | SPEC_OCTET_STRING (spec_name: "cstring option") int
  | SPEC_VISIBLE_STRING (spec_name: "cstring option") int
  | SPEC_GENERALIZED_TIME (spec_name: "cstring option")
  | SPEC_BINARY_TIME (spec_name: "cstring option") nat
  | SPEC_BCD (spec_name: "cstring option")
  | SPEC_OBJ_ID (spec_name: "cstring option")
  | SPEC_STRING (spec_name: "cstring option") int
  | SPEC_UTC_TIME (spec_name: "cstring option")
  | SPEC_DATA_ACCESS_ERROR (spec_name: "cstring option")

fun MmsVariableSpecification_getType :: "MmsVariableSpecification \<Rightarrow> MmsType" where
  "MmsVariableSpecification_getType (SPEC_ARRAY _ _ _) = T_ARRAY"
| "MmsVariableSpecification_getType (SPEC_STRUCTURE _ _) = T_STRUCTURE"
| "MmsVariableSpecification_getType (SPEC_BOOLEAN _) = T_BOOLEAN"
| "MmsVariableSpecification_getType (SPEC_BIT_STRING _ _) = T_BIT_STRING"
| "MmsVariableSpecification_getType (SPEC_INTEGER _ _) = T_INTEGER"
| "MmsVariableSpecification_getType (SPEC_UNSIGNED _ _) = T_UNSIGNED"
| "MmsVariableSpecification_getType (SPEC_FLOAT _ _ _) = T_FLOAT"
| "MmsVariableSpecification_getType (SPEC_OCTET_STRING _ _) = T_OCTET_STRING"
| "MmsVariableSpecification_getType (SPEC_VISIBLE_STRING _ _) = T_VISIBLE_STRING"
| "MmsVariableSpecification_getType (SPEC_GENERALIZED_TIME _) = T_GENERALIZED_TIME"
| "MmsVariableSpecification_getType (SPEC_BINARY_TIME _ _) = T_BINARY_TIME"
| "MmsVariableSpecification_getType (SPEC_BCD _) = T_BCD"
| "MmsVariableSpecification_getType (SPEC_OBJ_ID _) = T_OBJ_ID"
| "MmsVariableSpecification_getType (SPEC_STRING _ _) = T_STRING"
| "MmsVariableSpecification_getType (SPEC_UTC_TIME _) = T_UTC_TIME"
| "MmsVariableSpecification_getType (SPEC_DATA_ACCESS_ERROR _) = T_DATA_ACCESS_ERROR"

subsection \<open>Default values\<close>

text \<open>The result \<open>None\<close> is the returned \<open>NULL\<close>: there is no default value for the type.\<close>

definition MmsValue_newMmsStringWithSize :: "nat \<Rightarrow> MmsValue" where
  "MmsValue_newMmsStringWithSize n = MMS_STRING (Some (replicate (n + 1) 0)) (to_int16 (int n))"

definition array_components :: "nat \<Rightarrow> MmsValue option \<Rightarrow> MmsValue option list option" where
  "array_components n v = (if n = 0 then Some [] else map_option (\<lambda>v. replicate n (Some v)) v)"

fun MmsValue_newDefaultValue :: "MmsVariableSpecification \<Rightarrow> MmsValue option"
  and new_components :: "MmsVariableSpecification list \<Rightarrow> MmsValue option list option" where
  "MmsValue_newDefaultValue (SPEC_INTEGER _ bits) = Some (MmsValue_newInteger bits)"
| "MmsValue_newDefaultValue (SPEC_UNSIGNED _ bits) = Some (MmsValue_newUnsigned bits)"
| "MmsValue_newDefaultValue (SPEC_FLOAT _ e f) = Some (MMS_FLOAT e f (replicate 8 0))"
| "MmsValue_newDefaultValue (SPEC_BIT_STRING _ n) =
     (let bitSize = nat \<bar>n\<bar> in Some (MMS_BIT_STRING bitSize (replicate (bitStringByteSize bitSize) 0)))"
| "MmsValue_newDefaultValue (SPEC_OCTET_STRING _ n) =
     Some (MMS_OCTET_STRING (if n < 0 then 0 else to_uint16 (nat n)) \<bar>n\<bar> (replicate (nat \<bar>n\<bar>) 0))"
| "MmsValue_newDefaultValue (SPEC_VISIBLE_STRING _ n) = Some (MmsValue_newVisibleStringWithSize (nat \<bar>n\<bar>))"
| "MmsValue_newDefaultValue (SPEC_BOOLEAN _) = Some (MmsValue_newBoolean False)"
| "MmsValue_newDefaultValue (SPEC_UTC_TIME _) = Some (MMS_UTC_TIME (replicate 8 0))"
| "MmsValue_newDefaultValue (SPEC_ARRAY _ n element) =
     map_option MMS_ARRAY (array_components n (MmsValue_newDefaultValue element))"
| "MmsValue_newDefaultValue (SPEC_STRUCTURE _ elements) = map_option MMS_STRUCTURE (new_components elements)"
| "MmsValue_newDefaultValue (SPEC_STRING _ n) = Some (MmsValue_newMmsStringWithSize (nat \<bar>n\<bar>))"
| "MmsValue_newDefaultValue (SPEC_BINARY_TIME _ n) = Some (MmsValue_newBinaryTime (n = 4))"
| "MmsValue_newDefaultValue (SPEC_GENERALIZED_TIME _) = None"
| "MmsValue_newDefaultValue (SPEC_BCD _) = None"
| "MmsValue_newDefaultValue (SPEC_OBJ_ID _) = None"
| "MmsValue_newDefaultValue (SPEC_DATA_ACCESS_ERROR _) = None"
| "new_components [] = Some []"
| "new_components (s # ss) = do {
     v \<leftarrow> MmsValue_newDefaultValue s;
     vs \<leftarrow> new_components ss;
     Some (Some v # vs) }"

fun MmsValue_newStructure :: "MmsVariableSpecification \<Rightarrow> MmsValue option option" where
  "MmsValue_newStructure (SPEC_STRUCTURE _ elements) = Some (map_option MMS_STRUCTURE (new_components elements))"
| "MmsValue_newStructure _ = None"

definition MmsValue_createArray :: "MmsVariableSpecification \<Rightarrow> nat \<Rightarrow> MmsValue option" where
  "MmsValue_createArray elementType n = map_option MMS_ARRAY (array_components n (MmsValue_newDefaultValue elementType))"

subsection \<open>Type test\<close>

fun all_opt :: "('a \<Rightarrow> bool option) \<Rightarrow> 'a list \<Rightarrow> bool option" where
  "all_opt f [] = Some True"
| "all_opt f (x # xs) = do { b \<leftarrow> f x; if b then all_opt f xs else Some False }"

fun MmsVariableSpecification_isValueOfType :: "MmsVariableSpecification \<Rightarrow> MmsValue \<Rightarrow> bool option"
  and components_of_type :: "MmsVariableSpecification list \<Rightarrow> MmsValue option list \<Rightarrow> bool option" where
  "MmsVariableSpecification_isValueOfType (SPEC_STRUCTURE _ elements) value =
     (case value of
        MMS_STRUCTURE xs \<Rightarrow> if length elements = length xs then components_of_type elements xs else Some False
      | _ \<Rightarrow> Some False)"
| "MmsVariableSpecification_isValueOfType (SPEC_ARRAY _ n element) value =
     (case value of
        MMS_ARRAY xs \<Rightarrow>
          if n = length xs
          then all_opt (\<lambda>x. case x of None \<Rightarrow> None | Some v \<Rightarrow> MmsVariableSpecification_isValueOfType element v) xs
          else Some False
      | _ \<Rightarrow> Some False)"
| "MmsVariableSpecification_isValueOfType (SPEC_BIT_STRING _ n) value =
     (case value of MMS_BIT_STRING k _ \<Rightarrow> Some (n = int k \<or> n < 0) | _ \<Rightarrow> Some False)"
| "MmsVariableSpecification_isValueOfType (SPEC_FLOAT _ e f) value =
     (case value of MMS_FLOAT e' f' _ \<Rightarrow> Some (e = e' \<and> f = f') | _ \<Rightarrow> Some False)"
| "MmsVariableSpecification_isValueOfType (SPEC_BINARY_TIME _ n) value =
     (case value of MMS_BINARY_TIME k _ \<Rightarrow> Some (n = k) | _ \<Rightarrow> Some False)"
| "MmsVariableSpecification_isValueOfType (SPEC_BOOLEAN _) value = Some (MmsValue_getType value = T_BOOLEAN)"
| "MmsVariableSpecification_isValueOfType (SPEC_INTEGER _ _) value = Some (MmsValue_getType value = T_INTEGER)"
| "MmsVariableSpecification_isValueOfType (SPEC_UNSIGNED _ _) value = Some (MmsValue_getType value = T_UNSIGNED)"
| "MmsVariableSpecification_isValueOfType (SPEC_OCTET_STRING _ _) value = Some (MmsValue_getType value = T_OCTET_STRING)"
| "MmsVariableSpecification_isValueOfType (SPEC_VISIBLE_STRING _ _) value = Some (MmsValue_getType value = T_VISIBLE_STRING)"
| "MmsVariableSpecification_isValueOfType (SPEC_GENERALIZED_TIME _) value = Some (MmsValue_getType value = T_GENERALIZED_TIME)"
| "MmsVariableSpecification_isValueOfType (SPEC_BCD _) value = Some (MmsValue_getType value = T_BCD)"
| "MmsVariableSpecification_isValueOfType (SPEC_OBJ_ID _) value = Some (MmsValue_getType value = T_OBJ_ID)"
| "MmsVariableSpecification_isValueOfType (SPEC_STRING _ _) value = Some (MmsValue_getType value = T_STRING)"
| "MmsVariableSpecification_isValueOfType (SPEC_UTC_TIME _) value = Some (MmsValue_getType value = T_UTC_TIME)"
| "MmsVariableSpecification_isValueOfType (SPEC_DATA_ACCESS_ERROR _) value = Some (MmsValue_getType value = T_DATA_ACCESS_ERROR)"
| "components_of_type [] xs = Some True"
| "components_of_type (s # ss) xs =
     (case xs of
        Some v # ys \<Rightarrow> do {
          b \<leftarrow> MmsVariableSpecification_isValueOfType s v;
          if b then components_of_type ss ys else Some False }
      | _ \<Rightarrow> None)"

subsection \<open>Access by name\<close>

definition directChildStrLen :: "cstring \<Rightarrow> nat" where
  "directChildStrLen childId = length (takeWhile (\<lambda>c. c \<noteq> 36 \<and> c \<noteq> 46) childId)"

fun MmsVariableSpecification_getChildValue :: "MmsVariableSpecification \<Rightarrow> MmsValue \<Rightarrow> cstring \<Rightarrow> MmsValue option option"
  and child_loop :: "MmsVariableSpecification list \<Rightarrow> MmsValue option list \<Rightarrow> cstring \<Rightarrow> MmsValue option option" where
  "MmsVariableSpecification_getChildValue (SPEC_STRUCTURE _ elements) value childId =
     (case value of
        MMS_STRUCTURE xs \<Rightarrow> if length elements \<noteq> length xs then Some None else child_loop elements xs childId
      | _ \<Rightarrow> Some None)"
| "MmsVariableSpecification_getChildValue _ value childId = Some None"
| "child_loop [] xs childId = Some None"
| "child_loop (e # es) xs childId =
     (case (spec_name e, xs) of
        (Some name, x # ys) \<Rightarrow>
          (let childLen = directChildStrLen childId
           in if length name = childLen \<and> name = take childLen childId
              then if childLen = length childId then Some x
                   else (case x of None \<Rightarrow> None
                         | Some v \<Rightarrow> MmsVariableSpecification_getChildValue e v (drop (childLen + 1) childId))
              else child_loop es ys childId)
      | _ \<Rightarrow> None)"

definition MmsValue_getSubElement :: "MmsValue \<Rightarrow> MmsVariableSpecification \<Rightarrow> cstring \<Rightarrow> MmsValue option option" where
  "MmsValue_getSubElement self varSpec mmsPath = MmsVariableSpecification_getChildValue varSpec self mmsPath"

text \<open>The loop that compares the names of the elements with the whole identifier.\<close>

fun name_loop :: "MmsVariableSpecification list \<Rightarrow> cstring \<Rightarrow> MmsVariableSpecification option option" where
  "name_loop [] nameId = Some None"
| "name_loop (e # es) nameId = do {
     name \<leftarrow> spec_name e;
     if name = nameId then Some (Some e) else name_loop es nameId }"

fun MmsVariableSpecification_getNamedVariableRecursive ::
    "MmsVariableSpecification \<Rightarrow> cstring \<Rightarrow> MmsVariableSpecification option option"
  and named_loop :: "MmsVariableSpecification list \<Rightarrow> cstring \<Rightarrow> cstring \<Rightarrow> MmsVariableSpecification option option" where
  "MmsVariableSpecification_getNamedVariableRecursive (SPEC_ARRAY _ _ element) nameId =
     MmsVariableSpecification_getNamedVariableRecursive element nameId"
| "MmsVariableSpecification_getNamedVariableRecursive (SPEC_STRUCTURE _ elements) nameId =
     (case c_strchr 36 nameId of
        None \<Rightarrow> name_loop elements nameId
      | Some separator \<Rightarrow> named_loop elements (take (length nameId - length separator) nameId) (tl separator))"
| "MmsVariableSpecification_getNamedVariableRecursive _ nameId =
     (case c_strchr 36 nameId of None \<Rightarrow> Some None | Some _ \<Rightarrow> None)"
| "named_loop [] prefix rest = Some None"
| "named_loop (e # es) prefix rest =
     (case spec_name e of
        None \<Rightarrow> None
      | Some name \<Rightarrow>
          if name = prefix
          then (case e of
                  SPEC_STRUCTURE _ _ \<Rightarrow> MmsVariableSpecification_getNamedVariableRecursive e rest
                | SPEC_ARRAY _ _ element \<Rightarrow> MmsVariableSpecification_getNamedVariableRecursive element rest
                | _ \<Rightarrow> Some None)
          else named_loop es prefix rest)"

fun MmsVariableSpecification_getStructureElements :: "MmsVariableSpecification \<Rightarrow> cstring list option option" where
  "MmsVariableSpecification_getStructureElements (SPEC_STRUCTURE _ elements) =
     map_option Some (those (map spec_name elements))"
| "MmsVariableSpecification_getStructureElements _ = Some None"

fun MmsVariableSpecification_getSize :: "MmsVariableSpecification \<Rightarrow> int" where
  "MmsVariableSpecification_getSize (SPEC_STRUCTURE _ elements) = int (length elements)"
| "MmsVariableSpecification_getSize (SPEC_ARRAY _ n _) = int n"
| "MmsVariableSpecification_getSize (SPEC_INTEGER _ n) = int n"
| "MmsVariableSpecification_getSize (SPEC_UNSIGNED _ n) = int n"
| "MmsVariableSpecification_getSize (SPEC_FLOAT _ _ f) = int f"
| "MmsVariableSpecification_getSize (SPEC_BIT_STRING _ n) = n"
| "MmsVariableSpecification_getSize (SPEC_BINARY_TIME _ n) = int n"
| "MmsVariableSpecification_getSize (SPEC_OCTET_STRING _ n) = n"
| "MmsVariableSpecification_getSize (SPEC_VISIBLE_STRING _ n) = n"
| "MmsVariableSpecification_getSize (SPEC_STRING _ n) = n"
| "MmsVariableSpecification_getSize _ = - 1"

fun MmsVariableSpecification_getChildSpecificationByIndex ::
    "MmsVariableSpecification \<Rightarrow> int \<Rightarrow> MmsVariableSpecification option" where
  "MmsVariableSpecification_getChildSpecificationByIndex (SPEC_STRUCTURE _ elements) index =
     (if int (length elements) \<le> index \<or> index < 0 then None else Some (elements ! nat index))"
| "MmsVariableSpecification_getChildSpecificationByIndex _ _ = None"

fun byName_loop :: "MmsVariableSpecification list \<Rightarrow> cstring \<Rightarrow> nat \<Rightarrow> (MmsVariableSpecification \<times> nat) option option" where
  "byName_loop [] name i = Some None"
| "byName_loop (e # es) name i = do {
     n \<leftarrow> spec_name e;
     if n = name then Some (Some (e, i)) else byName_loop es name (i + 1) }"

fun MmsVariableSpecification_getChildSpecificationByName ::
    "MmsVariableSpecification \<Rightarrow> cstring \<Rightarrow> (MmsVariableSpecification \<times> nat) option option" where
  "MmsVariableSpecification_getChildSpecificationByName (SPEC_STRUCTURE _ elements) name = byName_loop elements name 0"
| "MmsVariableSpecification_getChildSpecificationByName _ _ = Some None"

fun MmsVariableSpecification_getArrayElementSpecification :: "MmsVariableSpecification \<Rightarrow> MmsVariableSpecification option" where
  "MmsVariableSpecification_getArrayElementSpecification (SPEC_ARRAY _ _ element) = Some element"
| "MmsVariableSpecification_getArrayElementSpecification _ = None"

fun MmsVariableSpecification_getExponentWidth :: "MmsVariableSpecification \<Rightarrow> int" where
  "MmsVariableSpecification_getExponentWidth (SPEC_FLOAT _ e _) = uint e"
| "MmsVariableSpecification_getExponentWidth _ = - 1"

subsection \<open>Size bound\<close>

text \<open>The size of a tag, a length field and \<open>elementSize\<close> octets, in \<open>int\<close>; also the absolute value is computed in \<open>int\<close>.\<close>

definition max_tlv_size :: "nat \<Rightarrow> nat option" where
  "max_tlv_size elementSize = do {
     elementSize \<leftarrow> chk_int elementSize;
     chk_int (1 + elementSize + BerEncoder_determineLengthSize elementSize) }"

fun MmsVariableSpecification_getMaxEncodedSize :: "MmsVariableSpecification \<Rightarrow> nat option"
  and getMaxStructSize :: "MmsVariableSpecification list \<Rightarrow> nat \<Rightarrow> nat option" where
  "MmsVariableSpecification_getMaxEncodedSize (SPEC_STRUCTURE _ elements) = do {
     componentsSize \<leftarrow> getMaxStructSize elements 0;
     max_tlv_size componentsSize }"
| "MmsVariableSpecification_getMaxEncodedSize (SPEC_ARRAY _ n element) = do {
     elementSize \<leftarrow> MmsVariableSpecification_getMaxEncodedSize element;
     elementSize \<leftarrow> chk_int (elementSize * n);
     max_tlv_size elementSize }"
| "MmsVariableSpecification_getMaxEncodedSize (SPEC_BOOLEAN _) = Some 3"
| "MmsVariableSpecification_getMaxEncodedSize (SPEC_DATA_ACCESS_ERROR _) = Some 7"
| "MmsVariableSpecification_getMaxEncodedSize (SPEC_VISIBLE_STRING _ n) = max_tlv_size (nat \<bar>n\<bar>)"
| "MmsVariableSpecification_getMaxEncodedSize (SPEC_UNSIGNED _ bits) = chk_int (2 + bits div 8 + 1)"
| "MmsVariableSpecification_getMaxEncodedSize (SPEC_INTEGER _ bits) = chk_int (2 + bits div 8 + 1)"
| "MmsVariableSpecification_getMaxEncodedSize (SPEC_UTC_TIME _) = Some 10"
| "MmsVariableSpecification_getMaxEncodedSize (SPEC_BIT_STRING _ n) = do {
     elementSize \<leftarrow> chk_int (nat \<bar>n\<bar>);
     chk_int (BerEncoder_determineEncodedBitStringSize elementSize) }"
| "MmsVariableSpecification_getMaxEncodedSize (SPEC_BINARY_TIME _ n) = chk_int (2 + n)"
| "MmsVariableSpecification_getMaxEncodedSize (SPEC_OCTET_STRING _ n) = max_tlv_size (nat \<bar>n\<bar>)"
| "MmsVariableSpecification_getMaxEncodedSize (SPEC_FLOAT _ _ f) = chk_int (f div 8 + 1 + 2)"
| "MmsVariableSpecification_getMaxEncodedSize (SPEC_STRING _ n) = max_tlv_size (nat \<bar>n\<bar>)"
| "MmsVariableSpecification_getMaxEncodedSize (SPEC_GENERALIZED_TIME _) = Some 0"
| "MmsVariableSpecification_getMaxEncodedSize (SPEC_BCD _) = Some 0"
| "MmsVariableSpecification_getMaxEncodedSize (SPEC_OBJ_ID _) = Some 0"
| "getMaxStructSize [] componentsSize = Some componentsSize"
| "getMaxStructSize (s # ss) componentsSize = do {
     n \<leftarrow> MmsVariableSpecification_getMaxEncodedSize s;
     componentsSize \<leftarrow> chk_int (componentsSize + n);
     getMaxStructSize ss componentsSize }"

subsection \<open>Default values have the type of their specification\<close>

text \<open>Specifications of types that have values, with sizes that fit the fields of a value.\<close>

fun spec_ok :: "MmsVariableSpecification \<Rightarrow> bool" where
  "spec_ok (SPEC_ARRAY _ _ element) = spec_ok element"
| "spec_ok (SPEC_STRUCTURE _ elements) = list_all spec_ok elements"
| "spec_ok (SPEC_FLOAT _ _ f) = (f = 32 \<or> f = 64)"
| "spec_ok (SPEC_BINARY_TIME _ n) = (n = 4 \<or> n = 6)"
| "spec_ok (SPEC_OCTET_STRING _ n) = (\<bar>n\<bar> < 65536)"
| "spec_ok (SPEC_VISIBLE_STRING _ n) = (\<bar>n\<bar> < 32768)"
| "spec_ok (SPEC_STRING _ n) = (\<bar>n\<bar> < 32768)"
| "spec_ok (SPEC_GENERALIZED_TIME _) = False"
| "spec_ok (SPEC_BCD _) = False"
| "spec_ok (SPEC_OBJ_ID _) = False"
| "spec_ok (SPEC_DATA_ACCESS_ERROR _) = False"
| "spec_ok _ = True"

lemma all_opt_replicate: "f x = Some True \<Longrightarrow> all_opt f (replicate n x) = Some True"
  by (induction n) auto

lemma wf_replicate: "mms_wf v \<Longrightarrow> mms_wf_components (replicate n (Some v))"
  by (induction n) auto

lemma string_wf_zero: "\<bar>n\<bar> < 32768 \<Longrightarrow> string_wf (Some (0 # replicate (nat \<bar>n\<bar>) 0)) (to_int16 \<bar>n\<bar>)"
  by (simp add: string_wf_def to_int16_def)

lemma default_value:
  shows "spec_ok s \<Longrightarrow> \<exists>v. MmsValue_newDefaultValue s = Some v \<and> mms_wf v
      \<and> MmsVariableSpecification_isValueOfType s v = Some True"
    and "list_all spec_ok ss \<Longrightarrow> \<exists>xs. new_components ss = Some xs \<and> length xs = length ss \<and> mms_wf_components xs
      \<and> components_of_type ss xs = Some True"
proof (induction s and ss rule: MmsValue_newDefaultValue_new_components.induct)
  case (9 nm n element)
  then obtain v where "MmsValue_newDefaultValue element = Some v" "mms_wf v"
    "MmsVariableSpecification_isValueOfType element v = Some True" by auto
  then show ?case by (simp add: array_components_def wf_replicate all_opt_replicate)
qed (auto simp: MmsValue_newInteger_def MmsValue_newUnsigned_def MmsValue_newBinaryTime_def MmsValue_newBoolean_def
    BerInteger_createInt32_def BerInteger_createInt64_def Asn1PrimitiveValue_create_def asn1_wf_def Let_def
    MmsValue_newVisibleStringWithSize_def MmsValue_newMmsStringWithSize_def string_wf_zero to_uint16_def)

subsection \<open>The size bound\<close>

text \<open>The limits a specification sets for the scalar values.\<close>

definition string_within :: "bytes option \<Rightarrow> int \<Rightarrow> bool" where
  "string_within b n \<longleftrightarrow> (\<forall>str. opt_cstr b = Some (Some str) \<longrightarrow> int (length str) \<le> \<bar>n\<bar>)"

fun within :: "MmsVariableSpecification \<Rightarrow> MmsValue \<Rightarrow> bool" where
  "within (SPEC_INTEGER _ bits) v = (case v of MMS_INTEGER a \<Rightarrow> asn1_size a \<le> bits div 8 + 1 | _ \<Rightarrow> True)"
| "within (SPEC_UNSIGNED _ bits) v = (case v of MMS_UNSIGNED a \<Rightarrow> asn1_size a \<le> bits div 8 + 1 | _ \<Rightarrow> True)"
| "within (SPEC_BIT_STRING _ n) v = (case v of MMS_BIT_STRING k _ \<Rightarrow> int k \<le> \<bar>n\<bar> | _ \<Rightarrow> True)"
| "within (SPEC_OCTET_STRING _ n) v = (case v of MMS_OCTET_STRING k _ _ \<Rightarrow> int k \<le> \<bar>n\<bar> | _ \<Rightarrow> True)"
| "within (SPEC_VISIBLE_STRING _ n) v = (case v of MMS_VISIBLE_STRING b _ \<Rightarrow> string_within b n | _ \<Rightarrow> True)"
| "within (SPEC_STRING _ n) v = (case v of MMS_STRING b _ \<Rightarrow> string_within b n | _ \<Rightarrow> True)"
| "within (SPEC_ARRAY _ _ element) v =
     (case v of MMS_ARRAY xs \<Rightarrow> list_all (\<lambda>x. \<forall>w. x = Some w \<longrightarrow> within element w) xs | _ \<Rightarrow> True)"
| "within (SPEC_STRUCTURE _ elements) v =
     (case v of MMS_STRUCTURE xs \<Rightarrow> list_all2 (\<lambda>s x. \<forall>w. x = Some w \<longrightarrow> within s w) elements xs | _ \<Rightarrow> True)"
| "within _ v = True"

lemma all_opt_True: "all_opt f xs = Some True \<longleftrightarrow> list_all (\<lambda>x. f x = Some True) xs"
  by (induction xs) (auto split: bind_splits if_splits)

lemma bit_string_size_mono:
  "k \<le> n \<Longrightarrow> BerEncoder_determineEncodedBitStringSize k \<le> BerEncoder_determineEncodedBitStringSize n"
proof -
  assume "k \<le> n"
  then have "k div 8 \<le> n div 8" "k div 8 = n div 8 \<Longrightarrow> k mod 8 \<le> n mod 8"
    by (auto intro: div_le_mono) (metis add_le_cancel_left mult_div_mod_eq)
  then have "bit_byte_size k \<le> bit_byte_size n"
    unfolding bit_byte_size_eq bitStringByteSize_def by (cases "k div 8 = n div 8") auto
  then show ?thesis using determineLengthSize_mono [of "bit_byte_size k" "bit_byte_size n"]
    by (simp add: BerEncoder_determineEncodedBitStringSize_def Let_def)
qed

lemma max_tlv_sizeD: "max_tlv_size n = Some b \<Longrightarrow> b = 1 + n + BerEncoder_determineLengthSize n"
  by (auto simp: max_tlv_size_def chk_int_def split: if_splits)

lemma max_tlv_size_bound:
  "max_tlv_size n = Some b \<Longrightarrow> m \<le> n \<Longrightarrow> 1 + m + BerEncoder_determineLengthSize m \<le> b"
  using determineLengthSize_mono [of m n] by (auto dest!: max_tlv_sizeD)

lemma string_within_size:
  assumes "string_within b n" and "map_option BerEncoder_determineEncodedStringSize (opt_cstr b) = Some m"
    and "max_tlv_size (nat \<bar>n\<bar>) = Some b'"
  shows "m \<le> b'"
proof -
  have b': "b' = 1 + nat \<bar>n\<bar> + BerEncoder_determineLengthSize (nat \<bar>n\<bar>)" by (rule max_tlv_sizeD [OF assms(3)])
  from assms(2) obtain r where r: "opt_cstr b = Some r" "m = BerEncoder_determineEncodedStringSize r" by auto
  show ?thesis
  proof (cases r)
    case None
    then show ?thesis using r b' by (simp add: BerEncoder_determineEncodedStringSize_def BerEncoder_determineLengthSize_def)
  next
    case (Some str)
    then have "length str \<le> nat \<bar>n\<bar>" using assms(1) r by (auto simp: string_within_def)
    then show ?thesis using r b' Some determineLengthSize_mono [of "length str" "nat \<bar>n\<bar>"]
      by (simp add: BerEncoder_determineEncodedStringSize_def)
  qed
qed

lemma array_size:
  "\<lbrakk>\<And>w n. Some w \<in> set xs \<Longrightarrow> MmsValue_encodedSize w = Some n \<Longrightarrow> n \<le> b; components_encodedSize xs = Some m\<rbrakk>
    \<Longrightarrow> m \<le> b * length xs"
proof (induction xs arbitrary: m)
  case (Cons x xs)
  from Cons.prems(2) obtain w n k where w: "x = Some w" "MmsValue_encodedSize w = Some n"
    "components_encodedSize xs = Some k" "m = n + k"
    by (auto split: option.splits bind_splits)
  have "n \<le> b" using Cons.prems(1) w by auto
  moreover have "k \<le> b * length xs" using Cons w(3) by auto
  ultimately show ?case using w(4) by simp
qed simp

lemma components_size:
  "\<lbrakk>\<And>s v n b. s \<in> set ss \<Longrightarrow> MmsVariableSpecification_isValueOfType s v = Some True \<Longrightarrow> within s v \<Longrightarrow>
      MmsValue_encodedSize v = Some n \<Longrightarrow> MmsVariableSpecification_getMaxEncodedSize s = Some b \<Longrightarrow> n \<le> b;
    components_of_type ss xs = Some True; list_all2 (\<lambda>s x. \<forall>w. x = Some w \<longrightarrow> within s w) ss xs;
    components_encodedSize xs = Some m; getMaxStructSize ss k = Some b\<rbrakk> \<Longrightarrow> k + m \<le> b"
proof (induction ss arbitrary: xs m k)
  case (Cons s ss)
  from Cons.prems(2) obtain v ys where v: "xs = Some v # ys" "MmsVariableSpecification_isValueOfType s v = Some True"
    "components_of_type ss ys = Some True"
    by (auto split: list.splits option.splits bind_splits if_splits)
  from Cons.prems(4) v(1) obtain n j where n: "MmsValue_encodedSize v = Some n" "components_encodedSize ys = Some j" "m = n + j"
    by (auto split: bind_splits)
  from Cons.prems(5) obtain c where c: "MmsVariableSpecification_getMaxEncodedSize s = Some c" "getMaxStructSize ss (k + c) = Some b"
    by (auto simp: chk_int_def split: bind_splits if_splits)
  have "n \<le> c" using Cons.prems(1,3) v(1,2) n(1) c(1) by auto
  moreover have "k + c + j \<le> b" using Cons.IH [OF _ v(3) _ n(2) c(2)] Cons.prems(1,3) v(1) by auto
  ultimately show ?case using n(3) by simp
qed (auto split: list.splits)

lemma size_bound:
  "MmsVariableSpecification_isValueOfType s v = Some True \<Longrightarrow> within s v \<Longrightarrow> MmsValue_encodedSize v = Some n \<Longrightarrow>
    MmsVariableSpecification_getMaxEncodedSize s = Some b \<Longrightarrow> n \<le> b"
proof (induction s arbitrary: v n b)
  case (SPEC_ARRAY nm k element)
  then obtain xs m where v: "v = MMS_ARRAY xs" "k = length xs" "components_encodedSize xs = Some m"
    "n = 1 + m + BerEncoder_determineLengthSize m"
    by (auto split: MmsValue.splits if_splits bind_splits)
  from SPEC_ARRAY.prems(4) obtain c where c: "MmsVariableSpecification_getMaxEncodedSize element = Some c" "max_tlv_size (c * k) = Some b"
    by (auto simp: chk_int_def split: bind_splits if_splits)
  have "m \<le> c * length xs"
    using SPEC_ARRAY v c(1) by (intro array_size [OF _ v(3)]) (auto simp: all_opt_True list_all_iff)
  then show ?case using max_tlv_size_bound [OF c(2), of m] v(2,4) by simp
next
  case (SPEC_STRUCTURE nm ss)
  then obtain xs m where v: "v = MMS_STRUCTURE xs" "components_of_type ss xs = Some True" "components_encodedSize xs = Some m"
    "n = 1 + m + BerEncoder_determineLengthSize m"
    by (auto split: MmsValue.splits if_splits bind_splits)
  from SPEC_STRUCTURE.prems(4) obtain c where c: "getMaxStructSize ss 0 = Some c" "max_tlv_size c = Some b"
    by (auto split: bind_splits)
  have "0 + m \<le> c" using SPEC_STRUCTURE v by (intro components_size [OF _ v(2) _ v(3) c(1)]) auto
  then show ?case using max_tlv_size_bound [OF c(2), of m] v(4) by simp
next
  case (SPEC_BIT_STRING nm k)
  then obtain j bits where "v = MMS_BIT_STRING j bits" by (cases v) auto
  with SPEC_BIT_STRING bit_string_size_mono [of j "nat \<bar>k\<bar>"] show ?case by (auto simp: chk_int_def split: if_splits)
next
  case (SPEC_OCTET_STRING nm k)
  then obtain j l xs where v: "v = MMS_OCTET_STRING j l xs" by (cases v) auto
  with SPEC_OCTET_STRING.prems have "j \<le> nat \<bar>k\<bar>" "n = 1 + BerEncoder_determineLengthSize j + j" by auto
  with SPEC_OCTET_STRING.prems(4) max_tlv_size_bound [of "nat \<bar>k\<bar>" b j] show ?case by simp
next
  case (SPEC_DATA_ACCESS_ERROR nm)
  then obtain e where "v = MMS_DATA_ACCESS_ERROR e" by (cases v) auto
  with SPEC_DATA_ACCESS_ERROR length_ber_u32 [of e] show ?case by (simp add: wire_simps)
next
  case (SPEC_VISIBLE_STRING nm k)
  then obtain c j where "v = MMS_VISIBLE_STRING c j" by (cases v) auto
  with SPEC_VISIBLE_STRING string_within_size [of c k n b] show ?case by simp
next
  case (SPEC_STRING nm k)
  then obtain c j where "v = MMS_STRING c j" by (cases v) auto
  with SPEC_STRING string_within_size [of c k n b] show ?case by simp
next
  case (SPEC_BOOLEAN nm)
  then show ?case by (cases v) auto
next
  case (SPEC_INTEGER nm k)
  then show ?case by (cases v) (auto simp: chk_int_def split: if_splits)
next
  case (SPEC_UNSIGNED nm k)
  then show ?case by (cases v) (auto simp: chk_int_def split: if_splits)
next
  case (SPEC_UTC_TIME nm)
  then show ?case by (cases v) auto
next
  case (SPEC_GENERALIZED_TIME nm)
  then show ?case by (cases v) auto
next
  case (SPEC_BCD nm)
  then show ?case by (cases v) auto
next
  case (SPEC_OBJ_ID nm)
  then show ?case by (cases v) auto
qed (auto simp: chk_int_def split: MmsValue.splits if_splits)

text \<open>The product of the element size and the number of elements can leave the range of \<open>int\<close>.\<close>

lemma array_size_overflows:
  "MmsVariableSpecification_getMaxEncodedSize (SPEC_ARRAY nm 214748365 (SPEC_UTC_TIME nm')) = None"
  by (simp add: chk_int_def)

text \<open>
  C39: \<open>MmsVariableSpecification_getMaxEncodedSize\<close>, computed from the type alone, bounds the octets that
  \<open>MmsValue_encodeMmsData\<close> writes for a value of the type, and a buffer with that many octets left takes them.  It is
  assumed that the computation does not overflow (its result is \<open>Some b\<close>; for an array of 214748365 time stamps it
  overflows), that the type test accepts the value and the value keeps the limits of its specification
  (\<open>within\<close>: strings, bit strings and integers no longer than the type says), that the value is well formed with an
  encoding below 65535 octets, and that it has no bit string of 127 or 255 content octets and no integer of 128 or more octets
  (\<open>size_exact\<close>), for which the size functions are one octet short.
\<close>

theorem spec_size_bound:
  assumes "MmsVariableSpecification_isValueOfType s v = Some True" and "within s v"
    and "mms_wf v" and "size_exact v" and "length (mms_bytes v) < 65535" and "MmsVariableSpecification_getMaxEncodedSize s = Some b"
    and "pos + b \<le> length buf"
  shows "length (mms_bytes v) \<le> b
    \<and> MmsValue_encodeMmsData v buf pos = Some (overlay buf pos (mms_bytes v), pos + length (mms_bytes v))"
proof -
  have "length (mms_bytes v) \<le> b" by (rule size_bound [OF assms(1,2) size_exact_eq(1) [OF assms(3-5)] assms(6)])
  with assms show ?thesis by (simp add: encode_writes puts_fits)
qed

theorem spec_size_bound_witness:
  "12 \<le> the (MmsVariableSpecification_getMaxEncodedSize (SPEC_STRUCTURE None [SPEC_BOOLEAN None, SPEC_ARRAY None 2 (SPEC_OCTET_STRING None (- 4))]))"
proof -
  let ?s = "SPEC_STRUCTURE None [SPEC_BOOLEAN None, SPEC_ARRAY None 2 (SPEC_OCTET_STRING None (- 4))]"
  let ?v = "MMS_STRUCTURE [Some (MMS_BOOLEAN True),
        Some (MMS_ARRAY [Some (MMS_OCTET_STRING 1 4 [1, 0, 0, 0]), Some (MMS_OCTET_STRING 0 4 [0, 0, 0, 0])])]"
  have b: "MmsVariableSpecification_getMaxEncodedSize ?s = Some 19" by (simp add: chk_int_def max_tlv_size_def BerEncoder_determineLengthSize_def)
  have l: "length (mms_bytes ?v) = 12" by (simp add: ber_tlv_def ber_len_def)
  have "length (mms_bytes ?v) \<le> 19"
    using spec_size_bound [of ?s ?v 19 0 "replicate 19 0"] b l by simp
  then show ?thesis unfolding l b by simp
qed

text \<open>
  C38: For every well-formed specification \<open>MmsValue_newDefaultValue\<close> returns a value, the value is well formed
  and \<open>MmsVariableSpecification_isValueOfType\<close> accepts it.
\<close>

theorem default_value_typed:
  assumes "spec_ok s"
  shows "\<exists>v. MmsValue_newDefaultValue s = Some v \<and> mms_wf v \<and> MmsVariableSpecification_isValueOfType s v = Some True"
  using assms by (rule default_value(1))

theorem default_value_typed_witness:
  "\<exists>v. MmsValue_newDefaultValue (SPEC_STRUCTURE None [SPEC_FLOAT None 8 32, SPEC_ARRAY None 2 (SPEC_STRING None (- 255))]) = Some v
     \<and> mms_wf v"
  using default_value_typed [of "SPEC_STRUCTURE None [SPEC_FLOAT None 8 32, SPEC_ARRAY None 2 (SPEC_STRING None (- 255))]"] by auto

subsection \<open>Access by name\<close>

text \<open>What a path of names denotes: arrays are passed through, structures are searched.\<close>

function lookup :: "MmsVariableSpecification \<Rightarrow> cstring list \<Rightarrow> MmsVariableSpecification option" where
  "lookup s ns =
     (case ns of
        [] \<Rightarrow> Some s
      | n # ns' \<Rightarrow>
          (case s of
             SPEC_ARRAY _ _ element \<Rightarrow> lookup element ns
           | SPEC_STRUCTURE _ elements \<Rightarrow>
               (case find (\<lambda>e. spec_name e = Some n) elements of None \<Rightarrow> None | Some e \<Rightarrow> lookup e ns')
           | _ \<Rightarrow> None))"
  by pat_completeness auto
termination
  by (relation "measures [\<lambda>(_, ns). length ns, \<lambda>(s, _). size s]") auto

declare lookup.simps [simp del]

fun compound :: "MmsVariableSpecification \<Rightarrow> bool" where
  "compound (SPEC_ARRAY _ _ _) = True"
| "compound (SPEC_STRUCTURE _ _) = True"
| "compound _ = False"

text \<open>Every element of a structure has a name, and the elements of an array are structures or arrays.\<close>

fun named :: "MmsVariableSpecification \<Rightarrow> bool" where
  "named (SPEC_ARRAY _ _ element) = (compound element \<and> named element)"
| "named (SPEC_STRUCTURE _ elements) = list_all (\<lambda>e. spec_name e \<noteq> None \<and> named e) elements"
| "named _ = True"

lemma lookup_Nil: "lookup s [] = Some s"
  by (simp add: lookup.simps)

lemma lookup_array: "ns \<noteq> [] \<Longrightarrow> lookup (SPEC_ARRAY nm k element) ns = lookup element ns"
  by (subst lookup.simps) (simp split: list.splits)

lemma lookup_structure:
  "lookup (SPEC_STRUCTURE nm es) (n # ns) =
     (case find (\<lambda>e. spec_name e = Some n) es of None \<Rightarrow> None | Some e \<Rightarrow> lookup e ns)"
  by (subst lookup.simps) simp

lemma lookup_leaf: "ns \<noteq> [] \<Longrightarrow> \<not> compound s \<Longrightarrow> lookup s ns = None"
  by (subst lookup.simps, cases s) (simp_all split: list.splits)

lemmas lookup_simps = lookup_Nil lookup_array lookup_structure lookup_leaf

lemma name_loop_find:
  "list_all (\<lambda>e. spec_name e \<noteq> None \<and> named e) es \<Longrightarrow> name_loop es n = Some (find (\<lambda>e. spec_name e = Some n) es)"
  by (induction es) auto

lemma named_variable:
  shows "named s \<Longrightarrow> compound s \<Longrightarrow>
      MmsVariableSpecification_getNamedVariableRecursive s nameId = Some (lookup s (split_on 36 nameId))"
    and "list_all (\<lambda>e. spec_name e \<noteq> None \<and> named e) es \<Longrightarrow>
      named_loop es prefix rest = Some (case find (\<lambda>e. spec_name e = Some prefix) es of
         None \<Rightarrow> None | Some e \<Rightarrow> lookup e (split_on 36 rest))"
proof (induction s nameId and es prefix rest rule: MmsVariableSpecification_getNamedVariableRecursive_named_loop.induct)
  case (2 nm elements nameId)
  show ?case
  proof (cases "c_strchr 36 nameId")
    case None
    then show ?thesis using 2 by (auto simp: split_on_strchr lookup_simps name_loop_find split: option.splits)
  next
    case (Some r)
    then show ?thesis using 2 by (simp add: split_on_strchr lookup_simps)
  qed
next
  case step: (5 e es prefix rest)
  then obtain name where n: "spec_name e = Some name" by auto
  show ?case
  proof (cases "name = prefix")
    case True
    then show ?thesis using step n by (cases e) (auto simp: lookup_simps)
  qed (use step n in auto)
qed (simp_all add: lookup_simps)

text \<open>
  C37: \<open>MmsVariableSpecification_getNamedVariableRecursive\<close> finds exactly the specification that the path of
  names, split at the \<open>$\<close> signs, denotes, or returns \<open>NULL\<close> if there is none, for specifications whose
  structure elements are named and whose arrays have structures or arrays as elements.
\<close>

theorem named_variable_lookup:
  assumes "named s" and "compound s"
  shows "MmsVariableSpecification_getNamedVariableRecursive s nameId = Some (lookup s (split_on 36 nameId))"
  using assms by (rule named_variable(1))

text \<open>A structure \<open>A\<close> with the elements \<open>B\<close>, an array of structures with the element \<open>C\<close>, and \<open>D\<close>.\<close>

definition sample_spec :: MmsVariableSpecification where
  "sample_spec = SPEC_STRUCTURE (Some [65])
     [SPEC_ARRAY (Some [66]) 2 (SPEC_STRUCTURE None [SPEC_BOOLEAN (Some [67])]), SPEC_INTEGER (Some [68]) 32]"

theorem named_variable_lookup_witness:
  "MmsVariableSpecification_getNamedVariableRecursive sample_spec [66, 36, 67] = Some (Some (SPEC_BOOLEAN (Some [67])))"
  using named_variable_lookup [of sample_spec "[66, 36, 67]"] by (simp add: sample_spec_def lookup_simps)

text \<open>
  Without the condition on arrays the search reads the elements of a type that has none: the name
  \<open>B$x$y\<close> for an array \<open>B\<close> of integers.
\<close>

lemma leaf_array_fault:
  "MmsVariableSpecification_getNamedVariableRecursive
     (SPEC_STRUCTURE (Some [65]) [SPEC_ARRAY (Some [66]) 2 (SPEC_INTEGER None 32)]) [66, 36, 120, 36, 121] = None"
  by simp

lemma split_on_child:
  "split_on 36 cs =
     (if length (takeWhile (\<lambda>c. c \<noteq> 36) cs) = length cs then [cs]
      else takeWhile (\<lambda>c. c \<noteq> 36) cs # split_on 36 (drop (length (takeWhile (\<lambda>c. c \<noteq> 36) cs) + 1) cs))"
proof (induction cs)
  case (Cons c cs)
  have "length (takeWhile (\<lambda>c. c \<noteq> 36) cs) \<le> length cs" by (rule length_takeWhile_le)
  with Cons show ?case by (auto split: if_splits)
qed simp

lemma no_dot_takeWhile: "46 \<notin> set cs \<Longrightarrow> takeWhile (\<lambda>c. c \<noteq> 36 \<and> c \<noteq> 46) cs = takeWhile (\<lambda>c. c \<noteq> 36) cs"
  by (induction cs) auto

lemma components_of_type_Cons:
  "components_of_type (e # es) xs = Some True \<longleftrightarrow>
     (\<exists>v ys. xs = Some v # ys \<and> MmsVariableSpecification_isValueOfType e v = Some True \<and> components_of_type es ys = Some True)"
  by (auto split: list.splits option.splits bind_splits if_splits)

text \<open>The element a path starts with, and the rest of the path.\<close>

definition child_typed :: "MmsVariableSpecification option \<Rightarrow> MmsValue option \<Rightarrow> bool" where
  "child_typed t r \<longleftrightarrow> (\<forall>c. r = Some c \<longrightarrow> (\<exists>s. t = Some s \<and> MmsVariableSpecification_isValueOfType s c = Some True))"

lemma child_value:
  shows "named s \<Longrightarrow> 46 \<notin> set path \<Longrightarrow> MmsVariableSpecification_isValueOfType s v = Some True \<Longrightarrow>
      \<exists>r. MmsVariableSpecification_getChildValue s v path = Some r \<and> child_typed (lookup s (split_on 36 path)) r"
    and "list_all (\<lambda>e. spec_name e \<noteq> None \<and> named e) es \<Longrightarrow> 46 \<notin> set path \<Longrightarrow> components_of_type es xs = Some True \<Longrightarrow>
      \<exists>r. child_loop es xs path = Some r
        \<and> child_typed (case find (\<lambda>e. spec_name e = Some (hd (split_on 36 path))) es of
            None \<Rightarrow> None | Some e \<Rightarrow> lookup e (tl (split_on 36 path))) r"
proof (induction s v path and es xs path rule: MmsVariableSpecification_getChildValue_child_loop.induct)
  case (1 nm es v path)
  then obtain xs where v: "v = MMS_STRUCTURE xs" "length es = length xs" "components_of_type es xs = Some True"
    by (auto split: MmsValue.splits if_splits)
  obtain n ns where sp: "split_on 36 path = n # ns" by (meson split_on_nonempty neq_Nil_conv)
  from 1(1) [OF v(1)] 1(2,3) v show ?case by (simp add: sp lookup_simps cong: option.case_cong)
next
  case step: (4 e es xs path)
  from step.prems(3) obtain v ys where v: "xs = Some v # ys" "MmsVariableSpecification_isValueOfType e v = Some True"
    "components_of_type es ys = Some True" unfolding components_of_type_Cons by blast
  from step.prems(1) obtain name where n: "spec_name e = Some name" "named e" by auto
  let ?p = "takeWhile (\<lambda>c. c \<noteq> 36) path"
  have d: "directChildStrLen path = length ?p" using step.prems(2) by (simp add: directChildStrLen_def no_dot_takeWhile)
  have t: "take (length ?p) path = ?p" by (metis takeWhile_eq_take)
  show ?case
  proof (cases "name = ?p")
    case name: True
    show ?thesis
    proof (cases "length ?p = length path")
      case True
      then have "split_on 36 path = [path]" "?p = path" using split_on_child [of path] t by auto
      with v n d name True show ?thesis by (simp add: Let_def child_typed_def lookup_simps)
    next
      case False
      then have sp: "split_on 36 path = ?p # split_on 36 (drop (length ?p + 1) path)" using split_on_child [of path] by simp
      from step.IH(1) [OF refl n(1) v(1) d [symmetric]] False name t n(2) v(2) step.prems(2)
      show ?thesis by (simp add: v(1) n(1) sp d Let_def) (use in_set_dropD in fastforce)
    qed
  next
    case False
    then have "hd (split_on 36 path) \<noteq> name" using split_on_child [of path] t by (auto split: if_splits)
    with step.IH(2) [OF refl n(1) v(1) d [symmetric]] False t step.prems v show ?thesis by (simp add: n(1) d Let_def)
  qed
qed (auto simp: child_typed_def)

text \<open>
  Looking up a component of a structured value by its path always returns.  If it finds a component, the
  same path finds a specification in the type, and the component is a value of that specification.
\<close>

theorem child_value_typed:
  assumes "named s" and "compound s" and "46 \<notin> set path" and "MmsVariableSpecification_isValueOfType s v = Some True"
  shows "\<exists>r. MmsVariableSpecification_getChildValue s v path = Some r
    \<and> (\<forall>c. r = Some c \<longrightarrow> (\<exists>t. MmsVariableSpecification_getNamedVariableRecursive s path = Some (Some t)
        \<and> MmsVariableSpecification_isValueOfType t c = Some True))"
  using child_value(1) [OF assms(1,3,4)] named_variable(1) [OF assms(1,2), of path] by (auto simp: child_typed_def)

theorem child_value_typed_witness:
  "\<exists>v. MmsValue_newDefaultValue sample_spec = Some v
     \<and> (\<exists>r. MmsVariableSpecification_getChildValue sample_spec v [68] = Some r
          \<and> (\<forall>c. r = Some c \<longrightarrow> MmsVariableSpecification_isValueOfType (SPEC_INTEGER (Some [68]) 32) c = Some True))"
proof -
  have s: "named sample_spec" "compound sample_spec" "spec_ok sample_spec" by (simp_all add: sample_spec_def)
  from default_value(1) [OF s(3)] obtain v where v: "MmsValue_newDefaultValue sample_spec = Some v"
    "MmsVariableSpecification_isValueOfType sample_spec v = Some True" by blast
  have "MmsVariableSpecification_getNamedVariableRecursive sample_spec [68] = Some (Some (SPEC_INTEGER (Some [68]) 32))"
    by (simp add: sample_spec_def)
  with child_value_typed [OF s(1,2) _ v(2), of "[68]"] v(1) show ?thesis by auto
qed

end
