(* ===== verification/SvPublisher.thy ===== *)
theory SvPublisher
  imports GoosePublisher
begin

text \<open>
  The publisher of sampled values, \<open>src/libiec61850/src/sampled_values/sv_publisher.c\<close>, in its Ethernet
  configuration, with the time stamps of \<open>src/libiec61850/src/iec61850/common/iec61850_common.c\<close>.  A message
  is encoded once by \<open>SVPublisher_setupComplete\<close>; afterwards the samples are written in place, through
  pointers into the buffer that each ASDU keeps.  Such a pointer is an offset into the buffer of the
  publisher (\<open>None\<close> is \<open>NULL\<close>), and an ASDU is its index in the list of the publisher.  What the
  hardware layer supplies is an argument, a packet handed to \<open>Ethernet_sendPacket\<close> is an output.  The buffer comes
  from \<open>malloc\<close>; zeros stand for its unspecified contents.
\<close>

subsection \<open>State\<close>

record SVPublisher_ASDU =
  as_svID :: cstring
  as_datset :: "cstring option"
  as_dataSize :: nat
  as_hasRefrTm :: bool
  as_hasSmpRate :: bool
  as_hasSmpMod :: bool
  as_hasGmIdentity :: bool
  as_dataBuffer :: "nat option"
  as_smpSynch :: u8
  as_smpCnt :: u16
  as_smpCntLimit :: u16
  as_confRev :: u32
  as_gmIdentity :: bytes
  as_refrTm :: "nat option"
  as_smpMod :: u8
  as_smpRate :: u16
  as_smpCntBuf :: "nat option"
  as_smpSynchBuf :: "nat option"

record SVPublisher =
  sp_buffer :: bytes
  sp_ethernetSocket :: bool
  sp_lengthField :: nat
  sp_payloadStart :: nat
  sp_payloadLength :: nat
  sp_asduList :: "SVPublisher_ASDU list"

definition SV_MAX_MESSAGE_SIZE :: nat where
  "SV_MAX_MESSAGE_SIZE = 1518"

subsection \<open>Creation\<close>

definition sv_default_parameters :: CommParameters where
  "sv_default_parameters = \<lparr>vlanPriority = 4, vlanId = 0, appId = 0x4000,
     dstAddress = [0x01, 0x0c, 0xcd, 0x01, 0x00, 0x01]\<rparr>"

definition preparePacketBuffer ::
    "SVPublisher \<Rightarrow> CommParameters option \<Rightarrow> bytes \<Rightarrow> bool \<Rightarrow> bool \<Rightarrow> (bool \<times> SVPublisher) option" where
  "preparePacketBuffer self parameters srcAddr socketOk useVlanTags =
     (let p = (case parameters of None \<Rightarrow> sv_default_parameters | Some p \<Rightarrow> p)
      in if socketOk then do {
           dst \<leftarrow> rdn (dstAddress p) 0 6;
           src \<leftarrow> rdn srcAddr 0 6;
           (buffer, bufPos) \<leftarrow> puts dst (replicate SV_MAX_MESSAGE_SIZE 0) 0;
           (buffer, bufPos) \<leftarrow> puts src buffer bufPos;
           (buffer, bufPos) \<leftarrow> (if useVlanTags then puts (vlan_tag p) buffer bufPos else Some (buffer, bufPos));
           (buffer, bufPos) \<leftarrow> puts [0x88, 0xba] buffer bufPos;
           (buffer, bufPos) \<leftarrow> puts [word_of_nat (unat (appId p) div 256), word_of_nat (unat (appId p) mod 256)] buffer bufPos;
           let lengthField = bufPos;
           (buffer, bufPos) \<leftarrow> puts [0x00, 0x08] buffer bufPos;
           (buffer, bufPos) \<leftarrow> puts [0x00, 0x00] buffer bufPos;
           (buffer, bufPos) \<leftarrow> puts [0x00, 0x00] buffer bufPos;
           Some (True, self\<lparr>sp_ethernetSocket := True, sp_buffer := buffer, sp_lengthField := lengthField,
                            sp_payloadStart := bufPos\<rparr>) }
         else Some (False, self))"

definition SVPublisher_createEx :: "CommParameters option \<Rightarrow> bytes \<Rightarrow> bool \<Rightarrow> bool \<Rightarrow> SVPublisher option option" where
  "SVPublisher_createEx parameters srcAddr socketOk useVlanTag = do {
     (ok, self) \<leftarrow> preparePacketBuffer \<lparr>sp_buffer = [], sp_ethernetSocket = False, sp_lengthField = 0, sp_payloadStart = 0,
         sp_payloadLength = 0, sp_asduList = []\<rparr> parameters srcAddr socketOk useVlanTag;
     Some (if ok then Some self else None) }"

definition SVPublisher_create :: "CommParameters option \<Rightarrow> bytes \<Rightarrow> bool \<Rightarrow> SVPublisher option option" where
  "SVPublisher_create parameters srcAddr socketOk = SVPublisher_createEx parameters srcAddr socketOk True"

definition SVPublisher_addASDU :: "SVPublisher \<Rightarrow> cstring \<Rightarrow> cstring option \<Rightarrow> u32 \<Rightarrow> SVPublisher" where
  "SVPublisher_addASDU self svID datset confRev =
     self\<lparr>sp_asduList := sp_asduList self @ [\<lparr>as_svID = svID, as_datset = datset, as_dataSize = 0, as_hasRefrTm = False,
       as_hasSmpRate = False, as_hasSmpMod = False, as_hasGmIdentity = False, as_dataBuffer = None, as_smpSynch = 0,
       as_smpCnt = 0, as_smpCntLimit = 0xffff, as_confRev = confRev, as_gmIdentity = replicate 8 0, as_refrTm = None,
       as_smpMod = 0, as_smpRate = 0, as_smpCntBuf = None, as_smpSynchBuf = None\<rparr>]\<rparr>"

subsection \<open>Layout of an ASDU\<close>

definition SVPublisher_ASDU_resetBuffer :: "SVPublisher_ASDU \<Rightarrow> SVPublisher_ASDU" where
  "SVPublisher_ASDU_resetBuffer self = self\<lparr>as_dataSize := 0\<rparr>"

text \<open>The functions \<open>SVPublisher_ASDU_addINT8\<close> and so on return the index of the new element.\<close>

definition add_element :: "nat \<Rightarrow> SVPublisher_ASDU \<Rightarrow> nat \<times> SVPublisher_ASDU" where
  "add_element n self = (as_dataSize self, self\<lparr>as_dataSize := as_dataSize self + n\<rparr>)"

definition SVPublisher_ASDU_addINT8 :: "SVPublisher_ASDU \<Rightarrow> nat \<times> SVPublisher_ASDU" where
  "SVPublisher_ASDU_addINT8 self = add_element 1 self"

definition SVPublisher_ASDU_addINT32 :: "SVPublisher_ASDU \<Rightarrow> nat \<times> SVPublisher_ASDU" where
  "SVPublisher_ASDU_addINT32 self = add_element 4 self"

definition SVPublisher_ASDU_addINT64 :: "SVPublisher_ASDU \<Rightarrow> nat \<times> SVPublisher_ASDU" where
  "SVPublisher_ASDU_addINT64 self = add_element 8 self"

definition SVPublisher_ASDU_addFLOAT :: "SVPublisher_ASDU \<Rightarrow> nat \<times> SVPublisher_ASDU" where
  "SVPublisher_ASDU_addFLOAT self = add_element 4 self"

definition SVPublisher_ASDU_addFLOAT64 :: "SVPublisher_ASDU \<Rightarrow> nat \<times> SVPublisher_ASDU" where
  "SVPublisher_ASDU_addFLOAT64 self = add_element 8 self"

definition SVPublisher_ASDU_addTimestamp :: "SVPublisher_ASDU \<Rightarrow> nat \<times> SVPublisher_ASDU" where
  "SVPublisher_ASDU_addTimestamp self = add_element 8 self"

definition SVPublisher_ASDU_addQuality :: "SVPublisher_ASDU \<Rightarrow> nat \<times> SVPublisher_ASDU" where
  "SVPublisher_ASDU_addQuality self = add_element 4 self"

definition SVPublisher_ASDU_setSmpCntWrap :: "SVPublisher_ASDU \<Rightarrow> u16 \<Rightarrow> SVPublisher_ASDU" where
  "SVPublisher_ASDU_setSmpCntWrap self value = self\<lparr>as_smpCntLimit := value\<rparr>"

definition SVPublisher_ASDU_enableRefrTm :: "SVPublisher_ASDU \<Rightarrow> SVPublisher_ASDU" where
  "SVPublisher_ASDU_enableRefrTm self = self\<lparr>as_hasRefrTm := True\<rparr>"

definition SVPublisher_ASDU_setSmpMod :: "SVPublisher_ASDU \<Rightarrow> u8 \<Rightarrow> SVPublisher_ASDU" where
  "SVPublisher_ASDU_setSmpMod self smpMod = self\<lparr>as_hasSmpMod := True, as_smpMod := smpMod\<rparr>"

definition SVPublisher_ASDU_setSmpRate :: "SVPublisher_ASDU \<Rightarrow> u16 \<Rightarrow> SVPublisher_ASDU" where
  "SVPublisher_ASDU_setSmpRate self smpRate = self\<lparr>as_hasSmpRate := True, as_smpRate := smpRate\<rparr>"

definition SVPublisher_ASDU_setGmIdentity :: "SVPublisher_ASDU \<Rightarrow> bytes \<Rightarrow> SVPublisher_ASDU option" where
  "SVPublisher_ASDU_setGmIdentity self gmIdentity = do {
     octets \<leftarrow> rdn gmIdentity 0 8;
     Some (self\<lparr>as_hasGmIdentity := True, as_gmIdentity := octets\<rparr>) }"

subsection \<open>Encoding\<close>

definition encodeUInt16FixedSize :: "u16 \<Rightarrow> writer" where
  "encodeUInt16FixedSize value = puts (rev (mem16 value))"

definition encodeUInt32FixedSize :: "u32 \<Rightarrow> writer" where
  "encodeUInt32FixedSize value = puts (rev (mem32 value))"

definition encodeInt32FixedSize :: "u32 \<Rightarrow> writer" where
  "encodeInt32FixedSize value = puts (rev (mem32 value))"

definition encodeInt64FixedSize :: "u64 \<Rightarrow> writer" where
  "encodeInt64FixedSize value = puts (rev (mem64 value))"

definition SVPublisher_ASDU_getEncodedSize :: "SVPublisher_ASDU \<Rightarrow> nat" where
  "SVPublisher_ASDU_getEncodedSize self =
     (1 + BerEncoder_determineLengthSize (length (as_svID self)) + length (as_svID self))
     + (case as_datset self of None \<Rightarrow> 0 | Some d \<Rightarrow> 1 + BerEncoder_determineLengthSize (length d) + length d)
     + 4 + 6
     + (if as_hasRefrTm self then 10 else 0)
     + 3
     + (if as_hasSmpRate self then 4 else 0)
     + (1 + BerEncoder_determineLengthSize (as_dataSize self)) + as_dataSize self
     + (if as_hasSmpMod self then 4 else 0)
     + (if as_hasGmIdentity self then 10 else 0)"

text \<open>\<open>bufPos += n\<close> leaves what the buffer holds.\<close>

definition skip_bytes :: "nat \<Rightarrow> writer" where
  "skip_bytes n buffer bufPos = Some (buffer, bufPos + n)"

definition optional :: "bool \<Rightarrow> writer \<Rightarrow> writer" where
  "optional b w buffer bufPos = (if b then w buffer bufPos else Some (buffer, bufPos))"

definition SVPublisher_ASDU_encodeToBuffer :: "SVPublisher_ASDU \<Rightarrow> bytes \<Rightarrow> nat \<Rightarrow> (SVPublisher_ASDU \<times> bytes \<times> nat) option" where
  "SVPublisher_ASDU_encodeToBuffer self buffer bufPos = do {
     (buffer, bufPos) \<leftarrow> BerEncoder_encodeTL 0x30 (SVPublisher_ASDU_getEncodedSize self) buffer bufPos;
     (buffer, bufPos) \<leftarrow> BerEncoder_encodeStringWithTag 0x80 (Some (as_svID self)) buffer bufPos;
     (buffer, bufPos) \<leftarrow> optional (as_datset self \<noteq> None) (BerEncoder_encodeStringWithTag 0x81 (as_datset self)) buffer bufPos;
     (buffer, bufPos) \<leftarrow> BerEncoder_encodeTL 0x82 2 buffer bufPos;
     let smpCntBuf = bufPos;
     (buffer, bufPos) \<leftarrow> encodeUInt16FixedSize (as_smpCnt self) buffer bufPos;
     (buffer, bufPos) \<leftarrow> BerEncoder_encodeTL 0x83 4 buffer bufPos;
     (buffer, bufPos) \<leftarrow> encodeUInt32FixedSize (as_confRev self) buffer bufPos;
     (buffer, bufPos) \<leftarrow> optional (as_hasRefrTm self) (BerEncoder_encodeTL 0x84 8) buffer bufPos;
     let refrTm = bufPos;
     (buffer, bufPos) \<leftarrow> optional (as_hasRefrTm self) (skip_bytes 8) buffer bufPos;
     (buffer, bufPos) \<leftarrow> BerEncoder_encodeTL 0x85 1 buffer bufPos;
     let smpSynchBuf = bufPos;
     (buffer, bufPos) \<leftarrow> put (as_smpSynch self) buffer bufPos;
     (buffer, bufPos) \<leftarrow> optional (as_hasSmpRate self) (BerEncoder_encodeTL 0x86 2) buffer bufPos;
     (buffer, bufPos) \<leftarrow> optional (as_hasSmpRate self) (encodeUInt16FixedSize (as_smpRate self)) buffer bufPos;
     (buffer, bufPos) \<leftarrow> BerEncoder_encodeTL 0x87 (as_dataSize self) buffer bufPos;
     let dataBuffer = bufPos;
     (buffer, bufPos) \<leftarrow> skip_bytes (as_dataSize self) buffer bufPos;
     (buffer, bufPos) \<leftarrow> optional (as_hasSmpMod self) (BerEncoder_encodeTL 0x88 2) buffer bufPos;
     (buffer, bufPos) \<leftarrow> optional (as_hasSmpMod self) (encodeUInt16FixedSize (ucast (as_smpMod self))) buffer bufPos;
     (buffer, bufPos) \<leftarrow> optional (as_hasGmIdentity self) (BerEncoder_encodeOctetString 0x89 (as_gmIdentity self) 8) buffer bufPos;
     Some (self\<lparr>as_smpCntBuf := Some smpCntBuf, as_refrTm := (if as_hasRefrTm self then Some refrTm else as_refrTm self),
                as_smpSynchBuf := Some smpSynchBuf, as_dataBuffer := Some dataBuffer\<rparr>, buffer, bufPos) }"

fun encode_asdus :: "SVPublisher_ASDU list \<Rightarrow> bytes \<Rightarrow> nat \<Rightarrow> (SVPublisher_ASDU list \<times> bytes \<times> nat) option" where
  "encode_asdus [] buffer bufPos = Some ([], buffer, bufPos)"
| "encode_asdus (a # as) buffer bufPos = do {
     (a, buffer, bufPos) \<leftarrow> SVPublisher_ASDU_encodeToBuffer a buffer bufPos;
     (as, buffer, bufPos) \<leftarrow> encode_asdus as buffer bufPos;
     Some (a # as, buffer, bufPos) }"

definition asdu_length :: "SVPublisher_ASDU \<Rightarrow> nat" where
  "asdu_length a = SVPublisher_ASDU_getEncodedSize a + BerEncoder_determineLengthSize (SVPublisher_ASDU_getEncodedSize a) + 1"

text \<open>The positions are those of the whole buffer, \<open>payloadStart\<close> included.\<close>

definition SVPublisher_setupComplete :: "SVPublisher \<Rightarrow> SVPublisher option" where
  "SVPublisher_setupComplete self = do {
     let numberOfAsdu = length (sp_asduList self);
     let totalASDULength = sum_list (map asdu_length (sp_asduList self));
     let sequenceSize = 1 + BerEncoder_determineLengthSize totalASDULength + totalASDULength;
     let innerSize = 2 + BerEncoder_UInt32determineEncodedSize (word_of_nat numberOfAsdu) + sequenceSize;
     (buffer, bufPos) \<leftarrow> BerEncoder_encodeTL 0x60 innerSize (sp_buffer self) (sp_payloadStart self);
     (buffer, bufPos) \<leftarrow> BerEncoder_encodeUInt32WithTL 0x80 (word_of_nat numberOfAsdu) buffer bufPos;
     (buffer, bufPos) \<leftarrow> BerEncoder_encodeTL 0xa2 totalASDULength buffer bufPos;
     (asdus, buffer, bufPos) \<leftarrow> encode_asdus (sp_asduList self) buffer bufPos;
     let payloadLength = bufPos - sp_payloadStart self;
     let msgLength = payloadLength + 8;
     buffer \<leftarrow> (if sp_lengthField self \<noteq> 0 then do {
         (buffer, _) \<leftarrow> put (word_of_nat (msgLength div 256)) buffer (sp_lengthField self);
         (buffer, _) \<leftarrow> put (word_of_nat msgLength) buffer (sp_lengthField self + 1);
         Some buffer }
       else Some buffer);
     Some (self\<lparr>sp_buffer := buffer, sp_asduList := asdus, sp_payloadLength := payloadLength\<rparr>) }"

definition SVPublisher_publish :: "SVPublisher \<Rightarrow> bytes option option" where
  "SVPublisher_publish self =
     (if sp_ethernetSocket self then map_option Some (rdn (sp_buffer self) 0 (sp_payloadStart self + sp_payloadLength self))
      else Some None)"

subsection \<open>Time stamps\<close>

definition time_octets :: "u32 \<Rightarrow> u32 \<Rightarrow> bytes" where
  "time_octets timeval32 fractionOfSecond =
     rev (mem32 timeval32) @ [ucast (drop_bit 16 fractionOfSecond), ucast (drop_bit 8 fractionOfSecond), ucast fractionOfSecond]"

text \<open>A \<open>Timestamp\<close> is its eight octets; the last one, the time quality, is kept.\<close>

definition Timestamp_setTimeInMilliseconds :: "bytes \<Rightarrow> u64 \<Rightarrow> bytes option" where
  "Timestamp_setTimeInMilliseconds self millisSinceEpoch =
     (let remainder = unat millisSinceEpoch mod 1000
      in map_option fst (puts (time_octets (word_of_nat (unat millisSinceEpoch div 1000))
           (word_of_nat (remainder * 16777 + remainder * 216 div 1000))) self 0))"

definition Timestamp_setTimeInNanoseconds :: "bytes \<Rightarrow> u64 \<Rightarrow> bytes option" where
  "Timestamp_setTimeInNanoseconds self nsTime =
     (let remainder = unat nsTime mod 1000000000 * 2 ^ 24 div 1000000000
      in map_option fst (puts (time_octets (word_of_nat (unat nsTime div 1000000000)) (word_of_nat remainder)) self 0))"

definition Timestamp_setSubsecondPrecision :: "bytes \<Rightarrow> nat \<Rightarrow> bytes option" where
  "Timestamp_setSubsecondPrecision self subsecondPrecision = do {
     q \<leftarrow> rd self 7;
     Some (self[7 := (q AND 0xe0) + (word_of_nat subsecondPrecision AND 0x1f)]) }"

subsection \<open>Samples\<close>

definition get_asdu :: "SVPublisher \<Rightarrow> nat \<Rightarrow> SVPublisher_ASDU option" where
  "get_asdu self i = (if i < length (sp_asduList self) then Some (sp_asduList self ! i) else None)"

definition put_asdu :: "SVPublisher \<Rightarrow> nat \<Rightarrow> SVPublisher_ASDU \<Rightarrow> SVPublisher" where
  "put_asdu self i a = self\<lparr>sp_asduList := (sp_asduList self)[i := a]\<rparr>"

definition write_at :: "SVPublisher \<Rightarrow> nat \<Rightarrow> bytes \<Rightarrow> SVPublisher option" where
  "write_at self pos octets = do { (buffer, _) \<leftarrow> puts octets (sp_buffer self) pos; Some (self\<lparr>sp_buffer := buffer\<rparr>) }"

text \<open>The octets of one sample, written at an index of the data of an ASDU.\<close>

definition set_element :: "SVPublisher \<Rightarrow> nat \<Rightarrow> nat \<Rightarrow> bytes \<Rightarrow> SVPublisher option" where
  "set_element self i index octets = do {
     a \<leftarrow> get_asdu self i;
     dataBuffer \<leftarrow> as_dataBuffer a;
     write_at self (dataBuffer + index) octets }"

definition SVPublisher_ASDU_setINT8 :: "SVPublisher \<Rightarrow> nat \<Rightarrow> nat \<Rightarrow> u8 \<Rightarrow> SVPublisher option" where
  "SVPublisher_ASDU_setINT8 self i index value = set_element self i index [value]"

definition SVPublisher_ASDU_setINT32 :: "SVPublisher \<Rightarrow> nat \<Rightarrow> nat \<Rightarrow> u32 \<Rightarrow> SVPublisher option" where
  "SVPublisher_ASDU_setINT32 self i index value = set_element self i index (rev (mem32 value))"

definition SVPublisher_ASDU_setINT64 :: "SVPublisher \<Rightarrow> nat \<Rightarrow> nat \<Rightarrow> u64 \<Rightarrow> SVPublisher option" where
  "SVPublisher_ASDU_setINT64 self i index value = set_element self i index (rev (mem64 value))"

text \<open>A \<open>float\<close> or \<open>double\<close> is its memory, four or eight bytes, lowest byte first.\<close>

definition SVPublisher_ASDU_setFLOAT :: "SVPublisher \<Rightarrow> nat \<Rightarrow> nat \<Rightarrow> bytes \<Rightarrow> SVPublisher option" where
  "SVPublisher_ASDU_setFLOAT self i index value = do {
     buf \<leftarrow> rdn value 0 4;
     set_element self i index (BerEncoder_revertByteOrder buf 4) }"

definition SVPublisher_ASDU_setFLOAT64 :: "SVPublisher \<Rightarrow> nat \<Rightarrow> nat \<Rightarrow> bytes \<Rightarrow> SVPublisher option" where
  "SVPublisher_ASDU_setFLOAT64 self i index value = do {
     buf \<leftarrow> rdn value 0 8;
     set_element self i index (BerEncoder_revertByteOrder buf 8) }"

definition SVPublisher_ASDU_setTimestamp :: "SVPublisher \<Rightarrow> nat \<Rightarrow> nat \<Rightarrow> bytes \<Rightarrow> SVPublisher option" where
  "SVPublisher_ASDU_setTimestamp self i index value = do {
     octets \<leftarrow> rdn value 0 8;
     set_element self i index octets }"

definition SVPublisher_ASDU_setQuality :: "SVPublisher \<Rightarrow> nat \<Rightarrow> nat \<Rightarrow> u16 \<Rightarrow> SVPublisher option" where
  "SVPublisher_ASDU_setQuality self i index value =
     set_element self i index [0, 0, word_of_nat (unat value div 256), word_of_nat (unat value mod 256)]"

definition SVPublisher_ASDU_getSmpCnt :: "SVPublisher \<Rightarrow> nat \<Rightarrow> u16 option" where
  "SVPublisher_ASDU_getSmpCnt self i = map_option as_smpCnt (get_asdu self i)"

definition SVPublisher_ASDU_setSmpCnt :: "SVPublisher \<Rightarrow> nat \<Rightarrow> u16 \<Rightarrow> SVPublisher option" where
  "SVPublisher_ASDU_setSmpCnt self i value = do {
     a \<leftarrow> get_asdu self i;
     let self = put_asdu self i (a\<lparr>as_smpCnt := value\<rparr>);
     (case as_smpCntBuf a of None \<Rightarrow> Some self | Some pos \<Rightarrow> write_at self pos (rev (mem16 value))) }"

text \<open>A limit of zero is a division by zero.\<close>

definition SVPublisher_ASDU_increaseSmpCnt :: "SVPublisher \<Rightarrow> nat \<Rightarrow> SVPublisher option" where
  "SVPublisher_ASDU_increaseSmpCnt self i = do {
     a \<leftarrow> get_asdu self i;
     if as_smpCntLimit a = 0 then None
     else SVPublisher_ASDU_setSmpCnt self i (word_of_nat ((unat (as_smpCnt a) + 1) mod unat (as_smpCntLimit a))) }"

definition SVPublisher_ASDU_setSmpSynch :: "SVPublisher \<Rightarrow> nat \<Rightarrow> u16 \<Rightarrow> SVPublisher option" where
  "SVPublisher_ASDU_setSmpSynch self i smpSynch = do {
     a \<leftarrow> get_asdu self i;
     pos \<leftarrow> as_smpSynchBuf a;
     write_at (put_asdu self i (a\<lparr>as_smpSynch := ucast smpSynch\<rparr>)) pos [ucast smpSynch] }"

text \<open>The reference time: what is done to the eight octets the pointer \<open>refrTm\<close> points to.\<close>

definition set_refrTm :: "SVPublisher \<Rightarrow> nat \<Rightarrow> (bytes \<Rightarrow> bytes option) \<Rightarrow> SVPublisher option" where
  "set_refrTm self i f = do {
     a \<leftarrow> get_asdu self i;
     let self = put_asdu self i (a\<lparr>as_hasRefrTm := True\<rparr>);
     (case as_refrTm a of
        None \<Rightarrow> Some self
      | Some pos \<Rightarrow> do {
          t \<leftarrow> rdn (sp_buffer self) pos 8;
          t \<leftarrow> f t;
          write_at self pos t }) }"

definition SVPublisher_ASDU_setRefrTmNs :: "SVPublisher \<Rightarrow> nat \<Rightarrow> u64 \<Rightarrow> SVPublisher option" where
  "SVPublisher_ASDU_setRefrTmNs self i refrTmNs =
     set_refrTm self i (\<lambda>t. do { t \<leftarrow> Timestamp_setTimeInNanoseconds t refrTmNs; Timestamp_setSubsecondPrecision t 20 })"

definition SVPublisher_ASDU_setRefrTm :: "SVPublisher \<Rightarrow> nat \<Rightarrow> u64 \<Rightarrow> SVPublisher option" where
  "SVPublisher_ASDU_setRefrTm self i refrTm =
     set_refrTm self i (\<lambda>t. do { t \<leftarrow> Timestamp_setTimeInMilliseconds t refrTm; Timestamp_setSubsecondPrecision t 10 })"

definition SVPublisher_ASDU_setRefrTmByTimestamp :: "SVPublisher \<Rightarrow> nat \<Rightarrow> bytes \<Rightarrow> SVPublisher option" where
  "SVPublisher_ASDU_setRefrTmByTimestamp self i refrTm = set_refrTm self i (\<lambda>_. rdn refrTm 0 8)"

subsection \<open>Reference message\<close>

text \<open>The memory of an ASDU that is written in place: the reference time and the samples.\<close>

type_synonym asdu_mem = "bytes \<times> bytes"

definition mem_ok :: "SVPublisher_ASDU \<Rightarrow> asdu_mem \<Rightarrow> bool" where
  "mem_ok a m \<longleftrightarrow> length (fst m) = 8 \<and> length (snd m) = as_dataSize a"

definition datset_bytes :: "SVPublisher_ASDU \<Rightarrow> bytes" where
  "datset_bytes a = (case as_datset a of None \<Rightarrow> [] | Some d \<Rightarrow> ber_tlv 0x81 d)"

definition opt :: "bool \<Rightarrow> bytes \<Rightarrow> bytes" where
  "opt b xs = (if b then xs else [])"

definition asdu_names :: "SVPublisher_ASDU \<Rightarrow> bytes" where
  "asdu_names a = ber_tlv 0x80 (as_svID a) @ datset_bytes a"

definition asdu_content :: "SVPublisher_ASDU \<Rightarrow> asdu_mem \<Rightarrow> bytes" where
  "asdu_content a m =
     asdu_names a @ ber_tlv 0x82 (rev (mem16 (as_smpCnt a))) @ ber_tlv 0x83 (rev (mem32 (as_confRev a))) @
     opt (as_hasRefrTm a) (ber_tlv 0x84 (fst m)) @ ber_tlv 0x85 [as_smpSynch a] @
     opt (as_hasSmpRate a) (ber_tlv 0x86 (rev (mem16 (as_smpRate a)))) @ ber_tlv 0x87 (snd m) @
     opt (as_hasSmpMod a) (ber_tlv 0x88 (rev (mem16 (ucast (as_smpMod a))))) @
     opt (as_hasGmIdentity a) (ber_tlv 0x89 (take 8 (as_gmIdentity a)))"

definition asdu_bytes :: "SVPublisher_ASDU \<Rightarrow> asdu_mem \<Rightarrow> bytes" where
  "asdu_bytes a m = ber_tlv 0x30 (asdu_content a m)"

definition asdus_bytes :: "SVPublisher_ASDU list \<Rightarrow> asdu_mem list \<Rightarrow> bytes" where
  "asdus_bytes as ms = concat (map2 asdu_bytes as ms)"

definition sv_pdu :: "SVPublisher_ASDU list \<Rightarrow> asdu_mem list \<Rightarrow> bytes" where
  "sv_pdu as ms = ber_tlv 0x60 (ber_tlv 0x80 (ber_u32 (word_of_nat (length as))) @ ber_tlv 0xa2 (asdus_bytes as ms))"

text \<open>What the pointers of an ASDU point to when its octets start at \<open>pos\<close>.\<close>

definition head_len :: "SVPublisher_ASDU \<Rightarrow> nat" where
  "head_len a = 1 + length (ber_len (SVPublisher_ASDU_getEncodedSize a)) + length (asdu_names a)"

definition set_pointers :: "SVPublisher_ASDU \<Rightarrow> nat \<Rightarrow> SVPublisher_ASDU" where
  "set_pointers a pos =
     (let h = pos + head_len a; r = (if as_hasRefrTm a then 10 else 0); s = (if as_hasSmpRate a then 4 else 0)
      in a\<lparr>as_smpCntBuf := Some (h + 2), as_refrTm := (if as_hasRefrTm a then Some (h + 12) else as_refrTm a),
           as_smpSynchBuf := Some (h + 12 + r),
           as_dataBuffer := Some (h + 13 + r + s + 1 + length (ber_len (as_dataSize a)))\<rparr>)"

subsection \<open>Encoding writes the reference message\<close>

lemma step_put:
  "q = pos + length xs \<Longrightarrow> q + length ys \<le> length buf \<Longrightarrow>
     puts ys (overlay buf pos xs) q = Some (overlay buf pos (xs @ ys), q + length ys)"
  by (simp add: puts_eq) (simp add: overlay_def ac_simps)

lemma step_skip:
  "q = pos + length xs \<Longrightarrow> q + n \<le> length buf \<Longrightarrow>
     skip_bytes n (overlay buf pos xs) q = Some (overlay buf pos (xs @ take n (drop q buf)), q + n)"
  by (auto simp: skip_bytes_def overlay_def ac_simps min_def) (metis add.commute append_take_drop_id drop_drop)

lemma optional_writes: "optional b (puts xs) = puts (opt b xs)" "optional b (skip_bytes n) = skip_bytes (if b then n else 0)"
  by (auto intro!: ext simp: optional_def opt_def skip_bytes_def)

definition asdu_ok :: "SVPublisher_ASDU \<Rightarrow> bool" where
  "asdu_ok a \<longleftrightarrow> SVPublisher_ASDU_getEncodedSize a < 65535 \<and> length (as_gmIdentity a) = 8"

lemma length_opt [simp]: "length (opt b xs) = (if b then length xs else 0)"
  by (simp add: opt_def)

lemma length_short_tlv: "length c < 128 \<Longrightarrow> length (ber_tlv tag c) = 2 + length c"
  by (simp add: ber_tlv_def length_ber_len)

lemma length_asdu_names:
  assumes "asdu_ok a"
  shows "length (asdu_names a) = 1 + BerEncoder_determineLengthSize (length (as_svID a)) + length (as_svID a)
     + (case as_datset a of None \<Rightarrow> 0 | Some d \<Rightarrow> 1 + BerEncoder_determineLengthSize (length d) + length d)"
proof -
  have "length (as_svID a) \<noteq> 65535" "\<And>d. as_datset a = Some d \<Longrightarrow> length d \<noteq> 65535"
    using assms by (auto simp: asdu_ok_def SVPublisher_ASDU_getEncodedSize_def)
  then show ?thesis by (auto simp: asdu_names_def datset_bytes_def wire_simps split: option.splits)
qed

lemma length_asdu_content:
  assumes "asdu_ok a" and "mem_ok a m"
  shows "length (asdu_content a m) = SVPublisher_ASDU_getEncodedSize a"
proof -
  have "as_dataSize a \<noteq> 65535" using assms(1) by (simp add: asdu_ok_def SVPublisher_ASDU_getEncodedSize_def)
  then have "length (ber_tlv 0x87 (snd m)) = 1 + BerEncoder_determineLengthSize (as_dataSize a) + as_dataSize a"
    using assms(2) by (simp add: mem_ok_def wire_simps)
  then show ?thesis using assms length_asdu_names [OF assms(1)]
    by (simp add: asdu_content_def length_short_tlv mem_ok_def asdu_ok_def SVPublisher_ASDU_getEncodedSize_def)
qed

lemma length_asdu_bytes:
  assumes "asdu_ok a" and "mem_ok a m"
  shows "length (asdu_bytes a m) = asdu_length a"
  using length_asdu_content [OF assms] assms(1) by (simp add: asdu_bytes_def asdu_length_def wire_simps asdu_ok_def)

lemma tl_writes: "BerEncoder_encodeTL tag n = puts (tag # ber_len n)"
  by (intro ext) (simp add: encodeTL_writes)

lemma short_tlv: "length c < 128 \<Longrightarrow> ber_tlv tag c = tag # word_of_nat (length c) # c"
  by (simp add: ber_tlv_def ber_len_def)

lemma asdu_bytes_expand:
  assumes "asdu_ok a" and "mem_ok a m"
  shows "asdu_bytes a m = 0x30 # ber_len (SVPublisher_ASDU_getEncodedSize a) @ asdu_names a @
     [0x82, 2] @ rev (mem16 (as_smpCnt a)) @ [0x83, 4] @ rev (mem32 (as_confRev a)) @
     opt (as_hasRefrTm a) ([0x84, 8] @ fst m) @ [0x85, 1, as_smpSynch a] @
     opt (as_hasSmpRate a) ([0x86, 2] @ rev (mem16 (as_smpRate a))) @
     (0x87 # ber_len (as_dataSize a)) @ snd m @
     opt (as_hasSmpMod a) ([0x88, 2] @ rev (mem16 (ucast (as_smpMod a)))) @
     opt (as_hasGmIdentity a) (ber_tlv 0x89 (take 8 (as_gmIdentity a)))"
  using assms(2) unfolding asdu_bytes_def ber_tlv_def [of "0x30"] length_asdu_content [OF assms]
  by (simp add: ber_tlv_def [of "0x87"] asdu_content_def mem_ok_def short_tlv)

lemma encode_asdu:
  assumes "asdu_ok a" and "pos + asdu_length a \<le> length buf"
  shows "\<exists>m. mem_ok a m \<and> SVPublisher_ASDU_encodeToBuffer a buf pos
      = Some (set_pointers a pos, overlay buf pos (asdu_bytes a m), pos + asdu_length a)"
proof -
  let ?h = "pos + head_len a"
  let ?r = "if as_hasRefrTm a then 10 else 0 :: nat" and ?s = "if as_hasSmpRate a then 4 else 0 :: nat"
  let ?d = "?h + 13 + ?r + ?s + 1 + length (ber_len (as_dataSize a))"
  define m where "m = (if as_hasRefrTm a then take 8 (drop (?h + 12) buf) else replicate 8 0, take (as_dataSize a) (drop ?d buf))"
  have gm: "length (as_gmIdentity a) = 8" using assms(1) by (simp add: asdu_ok_def)
  have names: "optional (as_datset a \<noteq> None) (BerEncoder_encodeStringWithTag 0x81 (as_datset a)) = puts (datset_bytes a)"
    by (intro ext) (auto simp: optional_def datset_bytes_def encodeStringWithTag_writes ber_string_def)
  have ds: "as_dataSize a \<noteq> 65535" using assms(1) by (simp add: asdu_ok_def SVPublisher_ASDU_getEncodedSize_def)
  have sz: "asdu_length a = head_len a + 14 + ?r + ?s + length (ber_len (as_dataSize a)) + as_dataSize a
      + (if as_hasSmpMod a then 4 else 0) + (if as_hasGmIdentity a then 10 else 0)"
  proof -
    have "SVPublisher_ASDU_getEncodedSize a = length (asdu_names a) + 14 + ?r + ?s + length (ber_len (as_dataSize a)) + as_dataSize a
      + (if as_hasSmpMod a then 4 else 0) + (if as_hasGmIdentity a then 10 else 0)"
      unfolding SVPublisher_ASDU_getEncodedSize_def length_asdu_names [OF assms(1)] by (simp add: determineLengthSize_eq [OF ds])
    moreover have "BerEncoder_determineLengthSize (SVPublisher_ASDU_getEncodedSize a) = length (ber_len (SVPublisher_ASDU_getEncodedSize a))"
      using assms(1) by (intro determineLengthSize_eq) (simp add: asdu_ok_def)
    ultimately show ?thesis by (simp add: asdu_length_def head_len_def)
  qed
  let ?x = "[0x82, 2] @ rev (mem16 (as_smpCnt a)) @ [0x83, 4] @ rev (mem32 (as_confRev a))"
  have h: "head_len a = Suc (length (ber_len (SVPublisher_ASDU_getEncodedSize a)) + length (ber_tlv 0x80 (as_svID a)) + length (datset_bytes a))"
    by (simp add: head_len_def asdu_names_def)
  have gmw: "BerEncoder_encodeOctetString 0x89 (as_gmIdentity a) 8 = puts (ber_tlv 0x89 (take 8 (as_gmIdentity a)))"
    using gm by (intro ext) (simp add: encodeOctetString_writes)
  have one: "ber_len 2 = [2]" "ber_len 4 = [4]" "ber_len 8 = [8]" "ber_len 1 = [1]" by (simp_all add: ber_len_def)
  have z: "overlay buf pos [] = buf" by simp
  have bound: "pos + head_len a + 14 + ?r + ?s + length (ber_len (as_dataSize a)) + as_dataSize a
      + (if as_hasSmpMod a then 4 else 0) + (if as_hasGmIdentity a then 10 else 0) \<le> length buf"
    using assms(2) sz by simp
  have first: "puts ys buf pos = Some (overlay buf pos ys, pos + length ys)" if "pos + length ys \<le> length buf" for ys
    using that by (simp add: puts_eq)
  have fm: "fst m = (if as_hasRefrTm a then take 8 (drop (?h + 12) buf) else replicate 8 0)"
    "snd m = take (as_dataSize a) (drop ?d buf)" by (simp_all add: m_def)
  have ok: "mem_ok a m" using bound by (auto simp: m_def mem_ok_def)
  show ?thesis
  proof (intro exI conjI)
    show "mem_ok a m" by (rule ok)
    show "SVPublisher_ASDU_encodeToBuffer a buf pos
      = Some (set_pointers a pos, overlay buf pos (asdu_bytes a m), pos + asdu_length a)"
      using bound
      unfolding SVPublisher_ASDU_encodeToBuffer_def names gmw asdu_bytes_expand [OF assms(1) ok] fm
      unfolding tl_writes one encodeUInt16FixedSize_def encodeUInt32FixedSize_def
        put_eq_puts optional_writes encodeStringWithTag_writes
      by (cases "as_hasRefrTm a"; cases "as_hasSmpRate a"; cases "as_hasSmpMod a"; cases "as_hasGmIdentity a")
        (simp_all add: first step_put step_skip h Let_def ber_string_def length_short_tlv gm opt_def sz
          set_pointers_def asdu_names_def ac_simps)
  qed
qed

subsection \<open>All ASDUs\<close>

fun place :: "SVPublisher_ASDU list \<Rightarrow> nat \<Rightarrow> SVPublisher_ASDU list" where
  "place [] pos = []"
| "place (a # as) pos = set_pointers a pos # place as (pos + asdu_length a)"

definition asdu_offset :: "SVPublisher_ASDU list \<Rightarrow> nat \<Rightarrow> nat" where
  "asdu_offset as i = sum_list (map asdu_length (take i as))"

lemma set_pointers_size [simp]:
  "SVPublisher_ASDU_getEncodedSize (set_pointers a pos) = SVPublisher_ASDU_getEncodedSize a"
  "asdu_length (set_pointers a pos) = asdu_length a" "asdu_ok (set_pointers a pos) = asdu_ok a"
  "mem_ok (set_pointers a pos) m = mem_ok a m"
  by (simp_all add: set_pointers_def Let_def SVPublisher_ASDU_getEncodedSize_def asdu_length_def asdu_ok_def mem_ok_def)

lemma set_pointers_bytes [simp]: "asdu_bytes (set_pointers a pos) m = asdu_bytes a m"
  by (simp add: set_pointers_def Let_def asdu_bytes_def asdu_content_def asdu_names_def datset_bytes_def)

lemma set_pointers_again [simp]: "set_pointers (set_pointers a p) q = set_pointers a q"
  by (simp add: set_pointers_def Let_def head_len_def SVPublisher_ASDU_getEncodedSize_def asdu_names_def datset_bytes_def)

lemma length_place [simp]: "length (place as pos) = length as"
  by (induction as pos rule: place.induct) simp_all

lemma place_nth: "i < length as \<Longrightarrow> place as pos ! i = set_pointers (as ! i) (pos + asdu_offset as i)"
  by (induction as pos arbitrary: i rule: place.induct) (auto simp: nth_Cons' asdu_offset_def take_Cons' ac_simps)

lemma map_length_place [simp]: "map asdu_length (place as pos) = map asdu_length as"
  by (induction as pos rule: place.induct) simp_all

lemma place_place [simp]: "place (place as p) q = place as q"
  by (induction as p arbitrary: q rule: place.induct) simp_all

lemma asdus_bytes_place [simp]: "asdus_bytes (place as pos) ms = asdus_bytes as ms"
proof (induction as pos arbitrary: ms rule: place.induct)
  case (2 a as pos)
  then show ?case by (cases ms) (simp_all add: asdus_bytes_def)
qed (simp add: asdus_bytes_def)

lemma list_all_place [simp]: "list_all asdu_ok (place as pos) = list_all asdu_ok as" "list_all2 mem_ok (place as pos) ms = list_all2 mem_ok as ms"
proof -
  show "list_all asdu_ok (place as pos) = list_all asdu_ok as" by (induction as pos rule: place.induct) simp_all
  show "list_all2 mem_ok (place as pos) ms = list_all2 mem_ok as ms"
    by (induction as pos arbitrary: ms rule: place.induct) (auto simp: list_all2_Cons1)
qed

lemma length_asdus_bytes:
  "list_all asdu_ok as \<Longrightarrow> list_all2 mem_ok as ms \<Longrightarrow> length (asdus_bytes as ms) = sum_list (map asdu_length as)"
proof (induction as arbitrary: ms)
  case (Cons a as)
  then show ?case by (auto simp: list_all2_Cons1 asdus_bytes_def length_asdu_bytes)
qed (simp add: asdus_bytes_def)

lemma encode_asdus_writes:
  "list_all asdu_ok as \<Longrightarrow> pos + sum_list (map asdu_length as) \<le> length buf \<Longrightarrow>
    \<exists>ms. list_all2 mem_ok as ms
      \<and> encode_asdus as buf pos = Some (place as pos, overlay buf pos (asdus_bytes as ms), pos + sum_list (map asdu_length as))"
proof (induction as arbitrary: buf pos)
  case (Cons a as)
  from encode_asdu [of a pos buf] Cons.prems obtain m where m: "mem_ok a m"
    "SVPublisher_ASDU_encodeToBuffer a buf pos = Some (set_pointers a pos, overlay buf pos (asdu_bytes a m), pos + asdu_length a)" by auto
  let ?b = "overlay buf pos (asdu_bytes a m)"
  have l: "length (asdu_bytes a m) = asdu_length a" "length ?b = length buf"
    using Cons.prems m(1) by (auto simp: length_asdu_bytes)
  obtain ms where ms: "list_all2 mem_ok as ms" "encode_asdus as ?b (pos + asdu_length a)
      = Some (place as (pos + asdu_length a), overlay ?b (pos + asdu_length a) (asdus_bytes as ms),
          pos + asdu_length a + sum_list (map asdu_length as))"
    using Cons.IH [of "pos + asdu_length a" ?b] Cons.prems l(2) by auto
  have "overlay ?b (pos + asdu_length a) (asdus_bytes as ms) = overlay buf pos (asdus_bytes (a # as) (m # ms))"
    using overlay_append [of pos "asdu_bytes a m" "asdus_bytes as ms" buf] Cons.prems ms(1) l(1)
      length_asdus_bytes [of as ms] by (simp add: asdus_bytes_def)
  with m ms show ?case by (intro exI [of _ "m # ms"]) (simp add: add.assoc)
qed (simp add: asdus_bytes_def)

subsection \<open>The message in the buffer\<close>

text \<open>The octets in front of the first ASDU.\<close>

definition seq_len :: "SVPublisher_ASDU list \<Rightarrow> nat" where
  "seq_len as = sum_list (map asdu_length as)"

definition pdu_head :: "SVPublisher_ASDU list \<Rightarrow> bytes" where
  "pdu_head as =
     (let count = ber_tlv 0x80 (ber_u32 (word_of_nat (length as))); seq = 0xa2 # ber_len (seq_len as)
      in 0x60 # ber_len (length count + length seq + seq_len as) @ count @ seq)"

definition sv_ready :: "SVPublisher \<Rightarrow> bytes \<Rightarrow> asdu_mem list \<Rightarrow> bool" where
  "sv_ready p hdr ms \<longleftrightarrow>
     list_all asdu_ok (sp_asduList p) \<and> list_all2 mem_ok (sp_asduList p) ms
     \<and> (\<exists>rest. sp_buffer p = hdr @ pdu_head (sp_asduList p) @ asdus_bytes (sp_asduList p) ms @ rest)
     \<and> length hdr = sp_payloadStart p \<and> sp_payloadLength p = length (pdu_head (sp_asduList p)) + seq_len (sp_asduList p)
     \<and> sp_asduList p = place (sp_asduList p) (sp_payloadStart p + length (pdu_head (sp_asduList p))) \<and> sp_ethernetSocket p"

lemma sv_pdu_split:
  assumes "list_all asdu_ok as" and "list_all2 mem_ok as ms"
  shows "sv_pdu as ms = pdu_head as @ asdus_bytes as ms"
  using length_asdus_bytes [OF assms]
  by (simp add: sv_pdu_def pdu_head_def ber_tlv_def [of "0x60"] ber_tlv_def [of "0xa2"] seq_len_def Let_def add.assoc)

lemma publish_ready:
  assumes "sv_ready p hdr ms"
  shows "SVPublisher_publish p = Some (Some (hdr @ sv_pdu (sp_asduList p) ms))"
proof -
  from assms obtain rest where b: "sp_buffer p = hdr @ pdu_head (sp_asduList p) @ asdus_bytes (sp_asduList p) ms @ rest"
    and ok: "list_all asdu_ok (sp_asduList p)" "list_all2 mem_ok (sp_asduList p) ms" by (auto simp: sv_ready_def)
  have "length (asdus_bytes (sp_asduList p) ms) = seq_len (sp_asduList p)"
    using length_asdus_bytes [OF ok] by (simp add: seq_len_def)
  then show ?thesis using assms b sv_pdu_split [OF ok] by (auto simp: SVPublisher_publish_def sv_ready_def rdn_def)
qed

text \<open>A publisher as it is created, and with any ASDUs added to it.\<close>

definition sp_wf :: "SVPublisher \<Rightarrow> bool" where
  "sp_wf p \<longleftrightarrow> length (sp_buffer p) = SV_MAX_MESSAGE_SIZE \<and> (sp_payloadStart p = 22 \<or> sp_payloadStart p = 26)
     \<and> sp_lengthField p + 6 = sp_payloadStart p \<and> sp_ethernetSocket p \<and> list_all asdu_ok (sp_asduList p)"

definition sv_header :: "SVPublisher \<Rightarrow> nat \<Rightarrow> bytes" where
  "sv_header p n = take (sp_lengthField p) (sp_buffer p) @ [word_of_nat ((n + 8) div 256), word_of_nat (n + 8)]
     @ take 4 (drop (sp_lengthField p + 2) (sp_buffer p))"

lemma pdu_head_place [simp]: "pdu_head (place as pos) = pdu_head as" "seq_len (place as pos) = seq_len as"
  by (simp_all add: pdu_head_def seq_len_def)

lemma setup_ready:
  assumes "sp_wf p" and "sp_payloadStart p + length (pdu_head (sp_asduList p)) + seq_len (sp_asduList p) \<le> SV_MAX_MESSAGE_SIZE"
  shows "\<exists>ms p'. SVPublisher_setupComplete p = Some p'
    \<and> sv_ready p' (sv_header p (length (pdu_head (sp_asduList p)) + seq_len (sp_asduList p))) ms
    \<and> sp_asduList p' = place (sp_asduList p) (sp_payloadStart p + length (pdu_head (sp_asduList p)))
    \<and> sp_payloadStart p' = sp_payloadStart p"
proof -
  let ?as = "sp_asduList p" and ?st = "sp_payloadStart p" and ?lf = "sp_lengthField p"
  let ?head = "pdu_head ?as" and ?n = "length (pdu_head ?as) + seq_len ?as"
  have w: "length (sp_buffer p) = SV_MAX_MESSAGE_SIZE" "?st = ?lf + 6" "?lf \<noteq> 0" "sp_ethernetSocket p" "list_all asdu_ok ?as"
    using assms(1) by (auto simp: sp_wf_def)
  have sl: "seq_len ?as \<noteq> 65535" using assms(2) by (simp add: SV_MAX_MESSAGE_SIZE_def)
  let ?count = "ber_tlv 0x80 (ber_u32 (word_of_nat (length ?as)))"
  let ?b0 = "overlay (sp_buffer p) ?st ?head"
  have lb0: "length ?b0 = SV_MAX_MESSAGE_SIZE" using w(1) assms(2) by simp
  have inner: "2 + BerEncoder_UInt32determineEncodedSize (word_of_nat (length ?as)) + (1 + BerEncoder_determineLengthSize (seq_len ?as) + seq_len ?as)
      = length ?count + length (0xa2 # ber_len (seq_len ?as)) + seq_len ?as"
    by (simp add: length_u32_tlv determineLengthSize_eq [OF sl])
  have puts_head: "puts (pdu_head ?as) (sp_buffer p) ?st = Some (?b0, ?st + length ?head)"
    using w(1) assms(2) by (simp add: puts_eq)
  obtain ms where ms: "list_all2 mem_ok ?as ms" "encode_asdus ?as ?b0 (?st + length ?head)
      = Some (place ?as (?st + length ?head), overlay ?b0 (?st + length ?head) (asdus_bytes ?as ms), ?st + length ?head + seq_len ?as)"
    using encode_asdus_writes [OF w(5), of "?st + length ?head" ?b0] assms(2) lb0 by (auto simp: seq_len_def)
  have la: "length (asdus_bytes ?as ms) = seq_len ?as" using length_asdus_bytes [OF w(5) ms(1)] by (simp add: seq_len_def)
  let ?b1 = "overlay (sp_buffer p) ?st (?head @ asdus_bytes ?as ms)"
  have b1: "overlay ?b0 (?st + length ?head) (asdus_bytes ?as ms) = ?b1"
    using overlay_append [of ?st ?head "asdus_bytes ?as ms" "sp_buffer p"] w(1) assms(2) la by simp
  let ?b2 = "?b1[?lf := word_of_nat ((?n + 8) div 256), Suc ?lf := word_of_nat (?n + 8)]"
  have lb1: "length ?b1 = SV_MAX_MESSAGE_SIZE" using w(1) assms(2) la by simp
  let ?p = "p\<lparr>sp_buffer := ?b2, sp_asduList := place ?as (?st + length ?head), sp_payloadLength := ?n\<rparr>"
  have head: "puts (0x60 # ber_len (length ?count + length (0xa2 # ber_len (seq_len ?as)) + seq_len ?as)) (sp_buffer p) ?st \<bind> (\<lambda>(b, q).
      puts ?count b q \<bind> (\<lambda>(b, q). puts (0xa2 # ber_len (seq_len ?as)) b q \<bind> k)) = k (?b0, ?st + length ?head)" for k :: "bytes \<times> nat \<Rightarrow> SVPublisher option"
    unfolding puts_bind_assoc using puts_head by (simp add: pdu_head_def Let_def)
  have complete: "SVPublisher_setupComplete p = Some ?p"
    unfolding SVPublisher_setupComplete_def Let_def seq_len_def [symmetric] inner tl_writes encodeUInt32WithTL_writes head
    unfolding prod.case ms(2) bind.bind_lunit b1 using w(2,3) lb1 assms(2) by (simp add: put_def)
  have "?b2 = (take ?st (sp_buffer p))[?lf := word_of_nat ((?n + 8) div 256), Suc ?lf := word_of_nat (?n + 8)]
      @ ?head @ asdus_bytes ?as ms @ drop (?st + ?n) (sp_buffer p)"
    using w(1,2) assms(2) la by (simp add: overlay_def list_update_append add.assoc)
  also have "(take ?st (sp_buffer p))[?lf := word_of_nat ((?n + 8) div 256), Suc ?lf := word_of_nat (?n + 8)] = sv_header p ?n"
    using take_two_updates [of ?lf ?st "sp_buffer p"] w(1,2) assms(2) by (simp add: sv_header_def take_update_swap)
  finally have "?b2 = sv_header p ?n @ ?head @ asdus_bytes ?as ms @ drop (?st + ?n) (sp_buffer p)" .
  moreover have "length (sv_header p ?n) = ?st" using w(1,2) assms(2) by (simp add: sv_header_def)
  ultimately have "sv_ready ?p (sv_header p ?n) ms" using w(4,5) ms(1) by (auto simp: sv_ready_def)
  with complete show ?thesis by (intro exI [of _ ms] exI [of _ ?p]) simp
qed

subsection \<open>Writing in place\<close>

definition asdu_pos :: "SVPublisher \<Rightarrow> nat \<Rightarrow> nat" where
  "asdu_pos p i = sp_payloadStart p + length (pdu_head (sp_asduList p)) + asdu_offset (sp_asduList p) i"

lemma asdus_bytes_split:
  assumes "i < length as" and "length ms = length as"
  shows "asdus_bytes as ms = asdus_bytes (take i as) (take i ms) @ asdu_bytes (as ! i) (ms ! i) @ asdus_bytes (drop (Suc i) as) (drop (Suc i) ms)"
proof -
  have "zip as ms = zip (take i as) (take i ms) @ (as ! i, ms ! i) # zip (drop (Suc i) as) (drop (Suc i) ms)"
    using assms by (metis (no_types, lifting) id_take_nth_drop length_zip min.idem nth_zip take_zip drop_zip)
  then show ?thesis by (simp add: asdus_bytes_def)
qed

lemma asdus_bytes_update:
  assumes "i < length as" and "length ms = length as"
  shows "asdus_bytes (as[i := a]) (ms[i := m])
    = asdus_bytes (take i as) (take i ms) @ asdu_bytes a m @ asdus_bytes (drop (Suc i) as) (drop (Suc i) ms)"
  using asdus_bytes_split [of i "as[i := a]" "ms[i := m]"] assms by simp

lemma map_length_update: "i < length as \<Longrightarrow> asdu_length a = asdu_length (as ! i) \<Longrightarrow> map asdu_length (as[i := a]) = map asdu_length as"
  by (simp add: map_update) (metis list_update_id length_map nth_map)

lemma placed_nth:
  "sv_ready p hdr ms \<Longrightarrow> i < length (sp_asduList p) \<Longrightarrow> sp_asduList p ! i = set_pointers (sp_asduList p ! i) (asdu_pos p i)"
  by (metis sv_ready_def place_nth asdu_pos_def)

lemma write_field:
  assumes ready: "sv_ready p hdr ms" and i: "i < length (sp_asduList p)"
    and old: "asdu_bytes (sp_asduList p ! i) (ms ! i) = x @ y @ z" and new: "asdu_bytes a m = x @ y' @ z"
    and len: "length y' = length y" and ok: "asdu_ok a" "mem_ok a m" "asdu_length a = asdu_length (sp_asduList p ! i)"
    and ptr: "a = set_pointers a (asdu_pos p i)"
  shows "\<exists>p'. write_at (put_asdu p i a) (asdu_pos p i + length x) y' = Some p' \<and> sv_ready p' hdr (ms[i := m])
    \<and> sp_asduList p' = (sp_asduList p)[i := a]"
proof -
  let ?as = "sp_asduList p"
  let ?as' = "?as[i := a]" and ?A = "asdus_bytes (take i ?as) (take i ms)" and ?B = "asdus_bytes (drop (Suc i) ?as) (drop (Suc i) ms)"
  from ready obtain rest where b: "sp_buffer p = hdr @ pdu_head ?as @ asdus_bytes ?as ms @ rest"
    and w: "list_all asdu_ok ?as" "list_all2 mem_ok ?as ms" "length hdr = sp_payloadStart p"
    "?as = place ?as (sp_payloadStart p + length (pdu_head ?as))" by (auto simp: sv_ready_def)
  have lm: "length ms = length ?as" using w(2) by (simp add: list_all2_lengthD)
  have lA: "length ?A = asdu_offset ?as i"
    unfolding asdu_offset_def using w(1,2) by (intro length_asdus_bytes) (auto simp: list_all_iff dest: in_set_takeD intro: list_all2_takeI)
  note ml = map_length_update [OF i ok(3)]
  have head: "pdu_head ?as' = pdu_head ?as" "seq_len ?as' = seq_len ?as" "asdu_offset ?as' = asdu_offset ?as"
    using ml by (auto simp: pdu_head_def seq_len_def asdu_offset_def take_map [symmetric] intro!: ext)
  have buf: "sp_buffer p = (hdr @ pdu_head ?as @ ?A @ x) @ y @ (z @ ?B @ rest)"
    unfolding b asdus_bytes_split [OF i lm] old by simp
  have pos: "asdu_pos p i + length x = length (hdr @ pdu_head ?as @ ?A @ x)" using w(3) lA by (simp add: asdu_pos_def)
  define new_buf where "new_buf = (hdr @ pdu_head ?as @ ?A @ x) @ y' @ (z @ ?B @ rest)"
  have "puts y' (sp_buffer p) (asdu_pos p i + length x) = Some (new_buf, asdu_pos p i + length x + length y')"
    unfolding buf pos new_buf_def using len by (simp add: puts_eq overlay_def)
  then have wr: "write_at (put_asdu p i a) (asdu_pos p i + length x) y' = Some (p\<lparr>sp_asduList := ?as', sp_buffer := new_buf\<rparr>)"
    by (simp add: write_at_def put_asdu_def)
  have nb: "new_buf = hdr @ pdu_head ?as' @ asdus_bytes ?as' (ms[i := m]) @ rest"
    unfolding asdus_bytes_update [OF i lm] new head new_buf_def by simp
  have pl: "?as' = place ?as' (sp_payloadStart p + length (pdu_head ?as'))"
  proof (rule nth_equalityI)
    fix j assume "j < length ?as'"
    then show "?as' ! j = place ?as' (sp_payloadStart p + length (pdu_head ?as')) ! j"
      using ptr placed_nth [OF ready, of j] by (cases "j = i") (simp_all add: place_nth head asdu_pos_def)
  qed simp
  have "list_all asdu_ok ?as'" using w(1) ok(1) by (auto simp: list_all_iff dest!: set_update_subset_insert [THEN subsetD])
  moreover have "list_all2 mem_ok ?as' (ms[i := m])" using w(2) ok(2) by (simp add: list_all2_update_cong)
  ultimately have "sv_ready (p\<lparr>sp_asduList := ?as', sp_buffer := new_buf\<rparr>) hdr (ms[i := m])"
    using ready nb pl head by (auto simp: sv_ready_def)
  with wr show ?thesis by simp
qed

text \<open>The octets of an ASDU around its counter, its synchronisation flag, its reference time and its samples.\<close>

definition before_count :: "SVPublisher_ASDU \<Rightarrow> bytes" where
  "before_count a = 0x30 # ber_len (SVPublisher_ASDU_getEncodedSize a) @ asdu_names a @ [0x82, 2]"

definition before_time :: "SVPublisher_ASDU \<Rightarrow> bytes" where
  "before_time a = before_count a @ rev (mem16 (as_smpCnt a)) @ [0x83, 4] @ rev (mem32 (as_confRev a)) @ opt (as_hasRefrTm a) [0x84, 8]"

definition before_synch :: "SVPublisher_ASDU \<Rightarrow> asdu_mem \<Rightarrow> bytes" where
  "before_synch a m = before_time a @ opt (as_hasRefrTm a) (fst m) @ [0x85, 1]"

definition before_data :: "SVPublisher_ASDU \<Rightarrow> asdu_mem \<Rightarrow> bytes" where
  "before_data a m = before_synch a m @ [as_smpSynch a] @ opt (as_hasSmpRate a) ([0x86, 2] @ rev (mem16 (as_smpRate a)))
     @ 0x87 # ber_len (as_dataSize a)"

definition after_data :: "SVPublisher_ASDU \<Rightarrow> bytes" where
  "after_data a = opt (as_hasSmpMod a) ([0x88, 2] @ rev (mem16 (ucast (as_smpMod a))))
     @ opt (as_hasGmIdentity a) (ber_tlv 0x89 (take 8 (as_gmIdentity a)))"

lemmas parts = before_count_def before_time_def before_synch_def before_data_def after_data_def

lemma asdu_parts:
  assumes "asdu_ok a" and "mem_ok a m"
  shows "asdu_bytes a m = before_data a m @ snd m @ after_data a"
  using asdu_bytes_expand [OF assms] by (simp add: parts opt_def)

lemma part_lengths:
  assumes "mem_ok a m"
  shows "length (before_count a) = head_len a + 2" "length (before_time a) = head_len a + 10 + (if as_hasRefrTm a then 2 else 0)"
    "length (before_synch a m) = head_len a + 12 + (if as_hasRefrTm a then 10 else 0)"
    "length (before_data a m) = head_len a + 14 + (if as_hasRefrTm a then 10 else 0) + (if as_hasSmpRate a then 4 else 0)
       + length (ber_len (as_dataSize a))"
  using assms by (simp_all add: parts head_len_def mem_ok_def)

lemma pointers:
  assumes "sv_ready p hdr ms" and "i < length (sp_asduList p)"
  defines "a \<equiv> sp_asduList p ! i"
  shows "as_smpCntBuf a = Some (asdu_pos p i + head_len a + 2)" "as_smpSynchBuf a = Some (asdu_pos p i + head_len a + 12 + (if as_hasRefrTm a then 10 else 0))"
    "as_hasRefrTm a \<Longrightarrow> as_refrTm a = Some (asdu_pos p i + head_len a + 12)"
    "as_dataBuffer a = Some (asdu_pos p i + head_len a + 14 + (if as_hasRefrTm a then 10 else 0) + (if as_hasSmpRate a then 4 else 0)
       + length (ber_len (as_dataSize a)))"
proof -
  have e: "a = set_pointers a (asdu_pos p i)" unfolding a_def by (rule placed_nth [OF assms(1,2)])
  show "as_smpCntBuf a = Some (asdu_pos p i + head_len a + 2)" by (subst e) (simp add: set_pointers_def Let_def)
  show "as_smpSynchBuf a = Some (asdu_pos p i + head_len a + 12 + (if as_hasRefrTm a then 10 else 0))"
    by (subst e) (simp add: set_pointers_def Let_def)
  show "as_refrTm a = Some (asdu_pos p i + head_len a + 12)" if "as_hasRefrTm a"
    by (subst e) (simp add: set_pointers_def Let_def that)
  show "as_dataBuffer a = Some (asdu_pos p i + head_len a + 14 + (if as_hasRefrTm a then 10 else 0) + (if as_hasSmpRate a then 4 else 0)
       + length (ber_len (as_dataSize a)))" by (subst e) (simp add: set_pointers_def Let_def)
qed

lemma ready_nth:
  assumes "sv_ready p hdr ms" and "i < length (sp_asduList p)"
  shows "asdu_ok (sp_asduList p ! i)" "mem_ok (sp_asduList p ! i) (ms ! i)" "i < length ms"
proof -
  from assms have "list_all asdu_ok (sp_asduList p)" "list_all2 mem_ok (sp_asduList p) ms" by (auto simp: sv_ready_def)
  then show "asdu_ok (sp_asduList p ! i)" "mem_ok (sp_asduList p ! i) (ms ! i)" "i < length ms"
    using assms(2) by (auto simp: list_all_length list_all2_conv_all_nth)
qed

lemma put_same: "i < length (sp_asduList p) \<Longrightarrow> put_asdu p i (sp_asduList p ! i) = p"
  by (simp add: put_asdu_def)

lemma middle: "take k xs @ take n (drop k xs) @ drop (k + n) xs = xs"
  by (metis add.commute append_take_drop_id drop_drop)

text \<open>A sample inside the data of its ASDU.\<close>

lemma set_element_ready:
  assumes ready: "sv_ready p hdr ms" and i: "i < length (sp_asduList p)" and k: "index + length octets \<le> as_dataSize (sp_asduList p ! i)"
  shows "\<exists>p'. set_element p i index octets = Some p' \<and> sv_ready p' hdr (ms[i := (fst (ms ! i), overlay (snd (ms ! i)) index octets)])
    \<and> sp_asduList p' = sp_asduList p"
proof -
  let ?a = "sp_asduList p ! i" and ?m = "ms ! i"
  let ?m' = "(fst ?m, overlay (snd ?m) index octets)"
  note ok = ready_nth [OF ready i]
  have ld: "length (snd ?m) = as_dataSize ?a" using ok(2) by (simp add: mem_ok_def)
  have ok': "mem_ok ?a ?m'" using ok(2) k ld by (simp add: mem_ok_def)
  let ?x = "before_data ?a ?m @ take index (snd ?m)" and ?z = "drop (index + length octets) (snd ?m) @ after_data ?a"
  have old: "asdu_bytes ?a ?m = ?x @ take (length octets) (drop index (snd ?m)) @ ?z"
    unfolding asdu_parts [OF ok(1,2)] append_assoc by (subst middle [of index "snd (ms ! i)" "length octets", symmetric]) (simp only: append_assoc)
  have new: "asdu_bytes ?a ?m' = ?x @ octets @ ?z"
    unfolding asdu_parts [OF ok(1) ok'] by (simp add: overlay_def parts)
  obtain q where q: "as_dataBuffer ?a = Some q" "asdu_pos p i + length ?x = q + index"
    using pointers(4) [OF ready i] part_lengths(4) [OF ok(2)] k ld by simp
  from write_field [OF ready i old new _ ok(1) ok' refl placed_nth [OF ready i]] k ld
  obtain p' where "write_at (put_asdu p i ?a) (asdu_pos p i + length ?x) octets = Some p'" "sv_ready p' hdr (ms[i := ?m'])"
    "sp_asduList p' = (sp_asduList p)[i := ?a]" by auto
  with q i show ?thesis by (simp add: set_element_def get_asdu_def put_same)
qed

text \<open>The sample counter and the synchronisation flag do not change the layout.\<close>

definition with_sample :: "SVPublisher_ASDU \<Rightarrow> u16 \<Rightarrow> u8 \<Rightarrow> SVPublisher_ASDU" where
  "with_sample a c y = a\<lparr>as_smpCnt := c, as_smpSynch := y\<rparr>"

lemma with_sample_layout [simp]:
  "SVPublisher_ASDU_getEncodedSize (with_sample a c y) = SVPublisher_ASDU_getEncodedSize a" "asdu_names (with_sample a c y) = asdu_names a"
  "asdu_ok (with_sample a c y) = asdu_ok a" "mem_ok (with_sample a c y) m = mem_ok a m" "asdu_length (with_sample a c y) = asdu_length a"
  "set_pointers (with_sample a c y) pos = with_sample (set_pointers a pos) c y"
  by (simp_all add: with_sample_def SVPublisher_ASDU_getEncodedSize_def asdu_names_def datset_bytes_def asdu_ok_def mem_ok_def
      asdu_length_def set_pointers_def Let_def head_len_def)

lemma with_sample_bytes:
  assumes "asdu_ok a" and "mem_ok a m"
  shows "asdu_bytes (with_sample a c y) m = before_count a @ rev (mem16 c) @ [0x83, 4] @ rev (mem32 (as_confRev a)) @
     opt (as_hasRefrTm a) ([0x84, 8] @ fst m) @ [0x85, 1] @ [y] @
     opt (as_hasSmpRate a) ([0x86, 2] @ rev (mem16 (as_smpRate a))) @ (0x87 # ber_len (as_dataSize a)) @ snd m @ after_data a"
  using asdu_bytes_expand [of "with_sample a c y" m] assms by (simp add: parts) (simp add: with_sample_def)

lemma with_sample_same: "with_sample a (as_smpCnt a) (as_smpSynch a) = a"
  by (simp add: with_sample_def)

lemma set_sample_ready:
  assumes ready: "sv_ready p hdr ms" and i: "i < length (sp_asduList p)" and a: "a = sp_asduList p ! i"
    and old: "asdu_bytes a (ms ! i) = x @ y @ z" and new: "asdu_bytes (with_sample a c f) (ms ! i) = x @ y' @ z" and len: "length y' = length y"
  shows "\<exists>p'. write_at (put_asdu p i (with_sample a c f)) (asdu_pos p i + length x) y' = Some p' \<and> sv_ready p' hdr ms
    \<and> sp_asduList p' = (sp_asduList p)[i := with_sample a c f]"
proof -
  note ok = ready_nth [OF ready i, folded a]
  have "with_sample a c f = set_pointers (with_sample a c f) (asdu_pos p i)"
    using placed_nth [OF ready i] by (simp add: a)
  with write_field [OF ready i old [unfolded a] new len, unfolded with_sample_layout] ok a show ?thesis by simp
qed

lemma setSmpCnt_ready:
  assumes ready: "sv_ready p hdr ms" and i: "i < length (sp_asduList p)" and a: "a = sp_asduList p ! i"
  shows "\<exists>p'. SVPublisher_ASDU_setSmpCnt p i v = Some p' \<and> sv_ready p' hdr ms
    \<and> sp_asduList p' = (sp_asduList p)[i := with_sample a v (as_smpSynch a)]"
proof -
  note ok = ready_nth [OF ready i, folded a]
  have "\<exists>p'. write_at (put_asdu p i (with_sample a v (as_smpSynch a))) (asdu_pos p i + length (before_count a)) (rev (mem16 v)) = Some p'
      \<and> sv_ready p' hdr ms \<and> sp_asduList p' = (sp_asduList p)[i := with_sample a v (as_smpSynch a)]"
    by (rule set_sample_ready [OF ready i a with_sample_bytes [OF ok(1,2), of "as_smpCnt a" "as_smpSynch a", unfolded with_sample_same]
          with_sample_bytes [OF ok(1,2)]]) simp
  moreover have "as_smpCntBuf a = Some (asdu_pos p i + length (before_count a))"
    using pointers(1) [OF ready i] part_lengths(1) [OF ok(2)] by (simp add: a)
  moreover have "a\<lparr>as_smpCnt := v\<rparr> = with_sample a v (as_smpSynch a)" by (simp add: with_sample_def)
  ultimately show ?thesis using i by (simp add: SVPublisher_ASDU_setSmpCnt_def get_asdu_def a [symmetric])
qed

lemma setSmpSynch_ready:
  assumes ready: "sv_ready p hdr ms" and i: "i < length (sp_asduList p)" and a: "a = sp_asduList p ! i"
  shows "\<exists>p'. SVPublisher_ASDU_setSmpSynch p i v = Some p' \<and> sv_ready p' hdr ms
    \<and> sp_asduList p' = (sp_asduList p)[i := with_sample a (as_smpCnt a) (ucast v)]"
proof -
  note ok = ready_nth [OF ready i, folded a]
  have bytes: "asdu_bytes (with_sample a (as_smpCnt a) y) (ms ! i) = before_synch a (ms ! i) @ [y] @
      opt (as_hasSmpRate a) ([0x86, 2] @ rev (mem16 (as_smpRate a))) @ (0x87 # ber_len (as_dataSize a)) @ snd (ms ! i) @ after_data a" for y
    using with_sample_bytes [OF ok(1,2)] by (simp add: parts opt_def)
  have "\<exists>p'. write_at (put_asdu p i (with_sample a (as_smpCnt a) (ucast v))) (asdu_pos p i + length (before_synch a (ms ! i))) [ucast v] = Some p'
      \<and> sv_ready p' hdr ms \<and> sp_asduList p' = (sp_asduList p)[i := with_sample a (as_smpCnt a) (ucast v)]"
    by (rule set_sample_ready [OF ready i a bytes [of "as_smpSynch a", unfolded with_sample_same] bytes]) simp
  moreover have "as_smpSynchBuf a = Some (asdu_pos p i + length (before_synch a (ms ! i)))"
    using pointers(2) [OF ready i] part_lengths(3) [OF ok(2)] by (simp add: a)
  moreover have "a\<lparr>as_smpSynch := ucast v\<rparr> = with_sample a (as_smpCnt a) (ucast v)" by (simp add: with_sample_def)
  ultimately show ?thesis using i by (simp add: SVPublisher_ASDU_setSmpSynch_def get_asdu_def a [symmetric])
qed

text \<open>The reference time.\<close>

lemma read_field:
  assumes ready: "sv_ready p hdr ms" and i: "i < length (sp_asduList p)"
    and parts: "asdu_bytes (sp_asduList p ! i) (ms ! i) = x @ y @ z"
  shows "rdn (sp_buffer p) (asdu_pos p i + length x) (length y) = Some y"
proof -
  let ?as = "sp_asduList p"
  let ?A = "asdus_bytes (take i ?as) (take i ms)" and ?B = "asdus_bytes (drop (Suc i) ?as) (drop (Suc i) ms)"
  from ready obtain rest where b: "sp_buffer p = hdr @ pdu_head ?as @ asdus_bytes ?as ms @ rest"
    and w: "list_all asdu_ok ?as" "list_all2 mem_ok ?as ms" "length hdr = sp_payloadStart p" by (auto simp: sv_ready_def)
  have lm: "length ms = length ?as" using w(2) by (simp add: list_all2_lengthD)
  have lA: "length ?A = asdu_offset ?as i"
    unfolding asdu_offset_def using w(1,2) by (intro length_asdus_bytes) (auto simp: list_all_iff dest: in_set_takeD intro: list_all2_takeI)
  have buf: "sp_buffer p = (hdr @ pdu_head ?as @ ?A @ x) @ y @ (z @ ?B @ rest)"
    unfolding b asdus_bytes_split [OF i lm] parts by simp
  have pos: "asdu_pos p i + length x = length (hdr @ pdu_head ?as @ ?A @ x)" using w(3) lA by (simp add: asdu_pos_def)
  show ?thesis unfolding buf pos by (rule rdn_append)
qed

lemma set_refrTm_ready:
  assumes ready: "sv_ready p hdr ms" and i: "i < length (sp_asduList p)" and a: "a = sp_asduList p ! i"
    and t: "as_hasRefrTm a" "f (fst (ms ! i)) = Some t" "length t = 8"
  shows "\<exists>p'. set_refrTm p i f = Some p' \<and> sv_ready p' hdr (ms[i := (t, snd (ms ! i))]) \<and> sp_asduList p' = sp_asduList p"
proof -
  note ok = ready_nth [OF ready i, folded a]
  have ok': "mem_ok a (t, snd (ms ! i))" using ok(2) t(3) by (simp add: mem_ok_def)
  let ?z = "[0x85, 1] @ [as_smpSynch a] @ opt (as_hasSmpRate a) ([0x86, 2] @ rev (mem16 (as_smpRate a))) @ (0x87 # ber_len (as_dataSize a)) @
      snd (ms ! i) @ after_data a"
  have old: "asdu_bytes a (ms ! i) = before_time a @ fst (ms ! i) @ ?z"
    using asdu_parts [OF ok(1,2)] t(1) by (simp add: parts opt_def)
  have new: "asdu_bytes a (t, snd (ms ! i)) = before_time a @ t @ ?z"
    using asdu_parts [OF ok(1) ok'] t(1) by (simp add: parts opt_def)
  have "\<exists>p'. write_at (put_asdu p i a) (asdu_pos p i + length (before_time a)) t = Some p'
      \<and> sv_ready p' hdr (ms[i := (t, snd (ms ! i))]) \<and> sp_asduList p' = (sp_asduList p)[i := a]"
    using write_field [OF ready i old [unfolded a] new [unfolded a] _ ok(1) [unfolded a] ok' [unfolded a] refl placed_nth [OF ready i]]
      ok(2) t(3) by (simp add: a mem_ok_def)
  moreover have pos: "as_refrTm a = Some (asdu_pos p i + length (before_time a))"
    using pointers(3) [OF ready i] part_lengths(2) [OF ok(2)] t(1) by (simp add: a)
  moreover have "rdn (sp_buffer p) (asdu_pos p i + length (before_time a)) 8 = Some (fst (ms ! i))"
    using read_field [OF ready i old [unfolded a]] ok(2) by (simp add: a mem_ok_def)
  moreover have "a\<lparr>as_hasRefrTm := True\<rparr> = a" using t(1) by simp
  ultimately show ?thesis using i t(2) put_same [OF i] by (simp add: set_refrTm_def get_asdu_def a)
qed

subsection \<open>Samples written in any order\<close>

datatype sample_value =
    INT8 u8 | INT32 u32 | INT64 u64 | FLOAT bytes | FLOAT64 bytes | TIMESTAMP bytes | QUALITY u16

fun set_sample :: "SVPublisher \<Rightarrow> nat \<Rightarrow> nat \<Rightarrow> sample_value \<Rightarrow> SVPublisher option" where
  "set_sample p i k (INT8 v) = SVPublisher_ASDU_setINT8 p i k v"
| "set_sample p i k (INT32 v) = SVPublisher_ASDU_setINT32 p i k v"
| "set_sample p i k (INT64 v) = SVPublisher_ASDU_setINT64 p i k v"
| "set_sample p i k (FLOAT v) = SVPublisher_ASDU_setFLOAT p i k v"
| "set_sample p i k (FLOAT64 v) = SVPublisher_ASDU_setFLOAT64 p i k v"
| "set_sample p i k (TIMESTAMP v) = SVPublisher_ASDU_setTimestamp p i k v"
| "set_sample p i k (QUALITY v) = SVPublisher_ASDU_setQuality p i k v"

text \<open>The octets of a sample on the wire.\<close>

fun sample_octets :: "sample_value \<Rightarrow> bytes" where
  "sample_octets (INT8 v) = [v]"
| "sample_octets (INT32 v) = rev (mem32 v)"
| "sample_octets (INT64 v) = rev (mem64 v)"
| "sample_octets (FLOAT v) = rev v"
| "sample_octets (FLOAT64 v) = rev v"
| "sample_octets (TIMESTAMP v) = v"
| "sample_octets (QUALITY v) = 0 # 0 # rev (mem16 v)"

fun sv_sample_ok :: "sample_value \<Rightarrow> bool" where
  "sv_sample_ok (FLOAT v) = (length v = 4)"
| "sv_sample_ok (FLOAT64 v) = (length v = 8)"
| "sv_sample_ok (TIMESTAMP v) = (length v = 8)"
| "sv_sample_ok _ = True"

lemma mem16_div: "rev (mem16 v) = [word_of_nat (unat v div 256), word_of_nat (unat v mod 256)]"
proof -
  have "ucast (drop_bit 8 v) = (word_of_nat (unat v div 256) :: u8)"
    by (rule word_unat_eq_iff [THEN iffD2]) (simp add: unsigned_ucast_eq unsigned_drop_bit_eq drop_bit_eq_div take_bit_eq_mod unat_of_nat unat_div)
  moreover have "ucast v = (word_of_nat (unat v mod 256) :: u8)"
    by (rule word_unat_eq_iff [THEN iffD2]) (simp add: unsigned_ucast_eq take_bit_eq_mod unat_of_nat)
  ultimately show ?thesis by (simp add: mem16_def)
qed

lemma set_sample_octets: "sv_sample_ok v \<Longrightarrow> set_sample p i k v = set_element p i k (sample_octets v)"
  by (cases v) (simp_all add: SVPublisher_ASDU_setINT8_def SVPublisher_ASDU_setINT32_def SVPublisher_ASDU_setINT64_def
      SVPublisher_ASDU_setFLOAT_def SVPublisher_ASDU_setFLOAT64_def SVPublisher_ASDU_setTimestamp_def SVPublisher_ASDU_setQuality_def
      rdn_def mem16_div revertByteOrder_eq)

datatype sv_op =
    SetSample nat nat sample_value | SetSmpCnt nat u16 | IncreaseSmpCnt nat | SetSmpSynch nat u16
  | SetRefrTm nat u64 | SetRefrTmNs nat u64 | SetRefrTmByTimestamp nat bytes

fun sv_step :: "SVPublisher \<Rightarrow> sv_op \<Rightarrow> SVPublisher option" where
  "sv_step p (SetSample i k v) = set_sample p i k v"
| "sv_step p (SetSmpCnt i v) = SVPublisher_ASDU_setSmpCnt p i v"
| "sv_step p (IncreaseSmpCnt i) = SVPublisher_ASDU_increaseSmpCnt p i"
| "sv_step p (SetSmpSynch i v) = SVPublisher_ASDU_setSmpSynch p i v"
| "sv_step p (SetRefrTm i v) = SVPublisher_ASDU_setRefrTm p i v"
| "sv_step p (SetRefrTmNs i v) = SVPublisher_ASDU_setRefrTmNs p i v"
| "sv_step p (SetRefrTmByTimestamp i v) = SVPublisher_ASDU_setRefrTmByTimestamp p i v"

fun sv_run :: "SVPublisher \<Rightarrow> sv_op list \<Rightarrow> SVPublisher option" where
  "sv_run p [] = Some p"
| "sv_run p (op # ops) = sv_step p op \<bind> (\<lambda>p. sv_run p ops)"

text \<open>The specification: the ASDUs as records, the reference time and the samples of each as octets.\<close>

type_synonym sv_state = "SVPublisher_ASDU list \<times> asdu_mem list"

fun op_asdu :: "sv_op \<Rightarrow> nat" where
  "op_asdu (SetSample i _ _) = i" | "op_asdu (SetSmpCnt i _) = i" | "op_asdu (IncreaseSmpCnt i) = i" | "op_asdu (SetSmpSynch i _) = i"
| "op_asdu (SetRefrTm i _) = i" | "op_asdu (SetRefrTmNs i _) = i" | "op_asdu (SetRefrTmByTimestamp i _) = i"

definition stamp_quality :: "u8 \<Rightarrow> nat \<Rightarrow> u8" where
  "stamp_quality q prec = (q AND 0xe0) + (word_of_nat prec AND 0x1f)"

definition ms_octets :: "u64 \<Rightarrow> bytes" where
  "ms_octets t = time_octets (word_of_nat (unat t div 1000)) (word_of_nat (unat t mod 1000 * 16777 + unat t mod 1000 * 216 div 1000))"

definition ns_octets :: "u64 \<Rightarrow> bytes" where
  "ns_octets t = time_octets (word_of_nat (unat t div 1000000000)) (word_of_nat (unat t mod 1000000000 * 2 ^ 24 div 1000000000))"

fun spec_asdu :: "sv_op \<Rightarrow> SVPublisher_ASDU \<Rightarrow> SVPublisher_ASDU" where
  "spec_asdu (SetSmpCnt _ v) a = with_sample a v (as_smpSynch a)"
| "spec_asdu (IncreaseSmpCnt _) a =
     with_sample a (word_of_nat ((unat (as_smpCnt a) + 1) mod unat (as_smpCntLimit a))) (as_smpSynch a)"
| "spec_asdu (SetSmpSynch _ v) a = with_sample a (as_smpCnt a) (ucast v)"
| "spec_asdu _ a = a"

fun spec_mem :: "sv_op \<Rightarrow> asdu_mem \<Rightarrow> asdu_mem" where
  "spec_mem (SetSample _ k v) m = (fst m, overlay (snd m) k (sample_octets v))"
| "spec_mem (SetRefrTm _ v) m = (ms_octets v @ [stamp_quality (fst m ! 7) 10], snd m)"
| "spec_mem (SetRefrTmNs _ v) m = (ns_octets v @ [stamp_quality (fst m ! 7) 20], snd m)"
| "spec_mem (SetRefrTmByTimestamp _ v) m = (v, snd m)"
| "spec_mem _ m = m"

definition spec_step :: "sv_op \<Rightarrow> sv_state \<Rightarrow> sv_state" where
  "spec_step op s = (let i = op_asdu op in ((fst s)[i := spec_asdu op (fst s ! i)], (snd s)[i := spec_mem op (snd s ! i)]))"

fun op_fits :: "SVPublisher_ASDU \<Rightarrow> sv_op \<Rightarrow> bool" where
  "op_fits a (SetSample _ k v) = (sv_sample_ok v \<and> k + length (sample_octets v) \<le> as_dataSize a)"
| "op_fits a (IncreaseSmpCnt _) = (as_smpCntLimit a \<noteq> 0)"
| "op_fits a (SetRefrTm _ _) = as_hasRefrTm a"
| "op_fits a (SetRefrTmNs _ _) = as_hasRefrTm a"
| "op_fits a (SetRefrTmByTimestamp _ v) = (as_hasRefrTm a \<and> length v = 8)"
| "op_fits a _ = True"

definition sv_op_ok :: "SVPublisher_ASDU list \<Rightarrow> sv_op \<Rightarrow> bool" where
  "sv_op_ok as op \<longleftrightarrow> op_asdu op < length as \<and> op_fits (as ! op_asdu op) op"

lemma spec_keeps_layout: "op_fits (spec_asdu op a) op' = op_fits a op'"
  by (cases op; cases op') (simp_all add: with_sample_def)

lemma spec_op_ok: "op_asdu op < length (fst s) \<Longrightarrow> sv_op_ok (fst (spec_step op s)) op' = sv_op_ok (fst s) op'"
  by (auto simp: sv_op_ok_def spec_step_def Let_def nth_list_update spec_keeps_layout)

lemma length_time_octets [simp]: "length (time_octets s f) = 7" "length (ms_octets t) = 7" "length (ns_octets t) = 7"
  by (simp_all add: time_octets_def ms_octets_def ns_octets_def)

lemma stamp_octets:
  assumes "length t = 8"
  shows "Timestamp_setTimeInMilliseconds t v \<bind> (\<lambda>t. Timestamp_setSubsecondPrecision t n) = Some (ms_octets v @ [stamp_quality (t ! 7) n])"
    "Timestamp_setTimeInNanoseconds t v \<bind> (\<lambda>t. Timestamp_setSubsecondPrecision t n) = Some (ns_octets v @ [stamp_quality (t ! 7) n])"
proof -
  have q: "drop 7 t = [t ! 7]" using assms Cons_nth_drop_Suc [of 7 t] by simp
  show "Timestamp_setTimeInMilliseconds t v \<bind> (\<lambda>t. Timestamp_setSubsecondPrecision t n) = Some (ms_octets v @ [stamp_quality (t ! 7) n])"
    "Timestamp_setTimeInNanoseconds t v \<bind> (\<lambda>t. Timestamp_setSubsecondPrecision t n) = Some (ns_octets v @ [stamp_quality (t ! 7) n])"
    using assms q by (simp_all add: Timestamp_setTimeInMilliseconds_def Timestamp_setTimeInNanoseconds_def Timestamp_setSubsecondPrecision_def
      Let_def puts_eq overlay_def rd_def ms_octets_def ns_octets_def stamp_quality_def nth_append list_update_append)
qed

lemma step_refines:
  assumes ready: "sv_ready p hdr ms" and ok: "sv_op_ok (sp_asduList p) op"
  shows "\<exists>p'. sv_step p op = Some p' \<and> sv_ready p' hdr (snd (spec_step op (sp_asduList p, ms)))
    \<and> sp_asduList p' = fst (spec_step op (sp_asduList p, ms))"
proof -
  let ?i = "op_asdu op"
  let ?a = "sp_asduList p ! ?i" and ?m = "ms ! ?i"
  have i: "?i < length (sp_asduList p)" and fits: "op_fits ?a op" using ok by (auto simp: sv_op_ok_def)
  have l8: "length (fst ?m) = 8" using ready_nth(2) [OF ready i] by (simp add: mem_ok_def)
  note set_time = set_refrTm_ready [OF ready i refl]
  show ?thesis
  proof (cases op)
    case (SetSample j k v)
    then show ?thesis using set_element_ready [OF ready i] fits
      by (simp add: spec_step_def set_sample_octets Let_def)
  next
    case (IncreaseSmpCnt j)
    then show ?thesis using setSmpCnt_ready [OF ready i refl] fits i
      by (simp add: spec_step_def Let_def SVPublisher_ASDU_increaseSmpCnt_def get_asdu_def)
  next
    case (SetRefrTm j v)
    then show ?thesis using set_time fits stamp_octets [OF l8]
      by (simp add: spec_step_def Let_def SVPublisher_ASDU_setRefrTm_def)
  next
    case (SetRefrTmNs j v)
    then show ?thesis using set_time fits stamp_octets [OF l8]
      by (simp add: spec_step_def Let_def SVPublisher_ASDU_setRefrTmNs_def)
  next
    case (SetRefrTmByTimestamp j v)
    then show ?thesis using set_time fits
      by (simp add: spec_step_def Let_def SVPublisher_ASDU_setRefrTmByTimestamp_def rdn_def)
  qed (use setSmpCnt_ready [OF ready i refl] setSmpSynch_ready [OF ready i refl] in \<open>simp_all add: spec_step_def Let_def\<close>)
qed

lemma run_refines:
  "sv_ready p hdr ms \<Longrightarrow> list_all (sv_op_ok (sp_asduList p)) ops \<Longrightarrow>
    \<exists>q. sv_run p ops = Some q \<and> sv_ready q hdr (snd (fold spec_step ops (sp_asduList p, ms)))
      \<and> sp_asduList q = fst (fold spec_step ops (sp_asduList p, ms))"
proof (induction ops arbitrary: p ms)
  case (Cons op ops)
  from step_refines [of p hdr ms op] Cons.prems obtain p' where p': "sv_step p op = Some p'"
    "sv_ready p' hdr (snd (spec_step op (sp_asduList p, ms)))" "sp_asduList p' = fst (spec_step op (sp_asduList p, ms))" by auto
  have "op_asdu op < length (sp_asduList p)" using Cons.prems by (simp add: sv_op_ok_def)
  then have "list_all (sv_op_ok (sp_asduList p')) ops" using Cons.prems spec_op_ok [of op "(sp_asduList p, ms)"] p'(3) by (simp add: list_all_iff)
  from Cons.IH [OF p'(2) this] p' show ?case by simp
qed simp

text \<open>The pointers are not part of the specification.\<close>

lemma spec_asdu_pointers: "spec_asdu op (set_pointers a pos) = set_pointers (spec_asdu op a) pos"
proof -
  have "as_smpSynch (set_pointers a pos) = as_smpSynch a" "as_smpCnt (set_pointers a pos) = as_smpCnt a"
    "as_smpCntLimit (set_pointers a pos) = as_smpCntLimit a" by (simp_all add: set_pointers_def Let_def)
  then show ?thesis by (cases op) simp_all
qed

lemma spec_asdu_length: "asdu_length (spec_asdu op a) = asdu_length a"
  by (cases op) simp_all

lemma place_update:
  assumes "i < length as" and "asdu_length a = asdu_length (as ! i)"
  shows "(place as pos)[i := set_pointers a (pos + asdu_offset as i)] = place (as[i := a]) pos"
proof -
  have o: "asdu_offset (as[i := a]) = asdu_offset as"
    using map_length_update [OF assms] by (auto simp: asdu_offset_def take_map [symmetric] intro!: ext)
  then show ?thesis using assms(1) by (intro nth_equalityI) (auto simp: nth_list_update place_nth)
qed

lemma spec_step_place:
  assumes "op_asdu op < length as"
  shows "spec_step op (place as pos, ms) = (place (fst (spec_step op (as, ms))) pos, snd (spec_step op (as, ms)))"
  using assms place_update [of "op_asdu op" as "spec_asdu op (as ! op_asdu op)" pos]
  by (simp add: spec_step_def Let_def place_nth spec_asdu_pointers spec_asdu_length)

lemma length_spec_step [simp]: "length (fst (spec_step op s)) = length (fst s)"
  by (simp add: spec_step_def Let_def)

lemma spec_run_place:
  "list_all (\<lambda>op. op_asdu op < length as) ops \<Longrightarrow>
    fold spec_step ops (place as pos, ms) = (place (fst (fold spec_step ops (as, ms))) pos, snd (fold spec_step ops (as, ms)))"
proof (induction ops arbitrary: as ms)
  case (Cons op ops)
  obtain as' ms' where s: "spec_step op (as, ms) = (as', ms')" by fastforce
  have "length as' = length as" using length_spec_step [of op "(as, ms)"] s by simp
  then show ?case using Cons.prems Cons.IH [of as' ms'] spec_step_place [of op as pos ms] s by simp
qed simp

lemma op_ok_place: "sv_op_ok (place as pos) op = sv_op_ok as op"
proof -
  have "op_fits (set_pointers a q) op = op_fits a op" for a q by (cases op) (simp_all add: set_pointers_def Let_def)
  then show ?thesis by (auto simp: sv_op_ok_def place_nth)
qed

subsection \<open>Configuration\<close>

text \<open>What an application does to an ASDU before the setup is complete.\<close>

inductive asdu_config :: "SVPublisher_ASDU \<Rightarrow> SVPublisher_ASDU \<Rightarrow> bool" where
  "asdu_config a (SVPublisher_ASDU_resetBuffer a)"
| "f \<in> {SVPublisher_ASDU_addINT8, SVPublisher_ASDU_addINT32, SVPublisher_ASDU_addINT64, SVPublisher_ASDU_addFLOAT,
     SVPublisher_ASDU_addFLOAT64, SVPublisher_ASDU_addTimestamp, SVPublisher_ASDU_addQuality} \<Longrightarrow> asdu_config a (snd (f a))"
| "asdu_config a (SVPublisher_ASDU_setSmpCntWrap a v)"
| "asdu_config a (SVPublisher_ASDU_enableRefrTm a)"
| "asdu_config a (SVPublisher_ASDU_setSmpMod a m)"
| "asdu_config a (SVPublisher_ASDU_setSmpRate a r)"
| "SVPublisher_ASDU_setGmIdentity a gm = Some b \<Longrightarrow> asdu_config a b"

inductive sv_configured :: "CommParameters \<Rightarrow> bytes \<Rightarrow> bool \<Rightarrow> SVPublisher \<Rightarrow> bool" for ps srcAddr vlan where
  created: "SVPublisher_createEx (Some ps) srcAddr True vlan = Some (Some p) \<Longrightarrow> sv_configured ps srcAddr vlan p"
| added: "sv_configured ps srcAddr vlan p \<Longrightarrow> sv_configured ps srcAddr vlan (SVPublisher_addASDU p svID datset confRev)"
| configured: "sv_configured ps srcAddr vlan p \<Longrightarrow> i < length (sp_asduList p) \<Longrightarrow> asdu_config (sp_asduList p ! i) a \<Longrightarrow>
    sv_configured ps srcAddr vlan (put_asdu p i a)"
| early: "sv_configured ps srcAddr vlan p \<Longrightarrow> sv_step p op = Some p' \<Longrightarrow> sv_configured ps srcAddr vlan p'"

definition sv_frame_header :: "CommParameters \<Rightarrow> bytes \<Rightarrow> bool \<Rightarrow> bytes" where
  "sv_frame_header p srcAddr vlan = dstAddress p @ srcAddr @ (if vlan then vlan_tag p else []) @
     [0x88, 0xba, word_of_nat (unat (appId p) div 256), word_of_nat (unat (appId p) mod 256)]"

definition fresh_asdu :: "SVPublisher_ASDU \<Rightarrow> bool" where
  "fresh_asdu a \<longleftrightarrow> length (as_gmIdentity a) = 8 \<and> as_dataBuffer a = None \<and> as_refrTm a = None \<and> as_smpCntBuf a = None \<and> as_smpSynchBuf a = None"

definition sv_fresh :: "CommParameters \<Rightarrow> bytes \<Rightarrow> bool \<Rightarrow> SVPublisher \<Rightarrow> bool" where
  "sv_fresh ps srcAddr vlan p \<longleftrightarrow>
     sp_buffer p = sv_frame_header ps srcAddr vlan @ [0, 8, 0, 0, 0, 0] @ replicate (SV_MAX_MESSAGE_SIZE - sp_payloadStart p) 0
     \<and> sp_payloadStart p = (if vlan then 26 else 22) \<and> sp_lengthField p + 6 = sp_payloadStart p \<and> sp_ethernetSocket p
     \<and> list_all fresh_asdu (sp_asduList p)"

lemma createEx_fresh:
  assumes "length (dstAddress ps) = 6" and "length srcAddr = 6"
  shows "\<exists>p. SVPublisher_createEx (Some ps) srcAddr True vlan = Some (Some p) \<and> sv_fresh ps srcAddr vlan p \<and> sp_asduList p = []"
  using assms
  by (simp add: SVPublisher_createEx_def preparePacketBuffer_def Let_def rdn_def puts_eq overlay_def SV_MAX_MESSAGE_SIZE_def
      sv_frame_header_def vlan_tag_def sv_fresh_def)

lemma asdu_config_fresh: "asdu_config a b \<Longrightarrow> fresh_asdu a \<Longrightarrow> fresh_asdu b"
  by (cases rule: asdu_config.cases)
    (auto simp: fresh_asdu_def SVPublisher_ASDU_resetBuffer_def SVPublisher_ASDU_addINT8_def SVPublisher_ASDU_addINT32_def
      SVPublisher_ASDU_addINT64_def SVPublisher_ASDU_addFLOAT_def SVPublisher_ASDU_addFLOAT64_def SVPublisher_ASDU_addTimestamp_def
      SVPublisher_ASDU_addQuality_def add_element_def SVPublisher_ASDU_setSmpCntWrap_def SVPublisher_ASDU_enableRefrTm_def
      SVPublisher_ASDU_setSmpMod_def SVPublisher_ASDU_setSmpRate_def SVPublisher_ASDU_setGmIdentity_def rdn_def
      split: bind_splits if_splits)

lemma put_asdu_fresh: "sv_fresh ps src vlan p \<Longrightarrow> fresh_asdu a \<Longrightarrow> sv_fresh ps src vlan (put_asdu p i a)"
  by (auto simp: sv_fresh_def put_asdu_def list_all_iff dest!: set_update_subset_insert [THEN subsetD])

lemma get_asdu_fresh: "sv_fresh ps src vlan p \<Longrightarrow> get_asdu p i = Some a \<Longrightarrow> fresh_asdu a"
  by (auto simp: sv_fresh_def get_asdu_def list_all_length split: if_splits)

lemma set_element_early: "sv_fresh ps src vlan p \<Longrightarrow> set_element p i k xs = None"
  by (cases "get_asdu p i") (auto simp: set_element_def fresh_asdu_def dest!: get_asdu_fresh)

lemma sv_step_fresh:
  assumes "sv_fresh ps src vlan p" and "sv_step p op = Some p'"
  shows "sv_fresh ps src vlan p'"
proof -
  have keep: "fresh_asdu (a\<lparr>as_smpCnt := v\<rparr>) = fresh_asdu a" "fresh_asdu (a\<lparr>as_hasRefrTm := b\<rparr>) = fresh_asdu a" for a v b
    by (simp_all add: fresh_asdu_def)
  have cnt: "sv_fresh ps src vlan q" if "SVPublisher_ASDU_setSmpCnt p i v = Some q" for i v q
    using that assms(1) get_asdu_fresh [OF assms(1)]
    by (auto simp: SVPublisher_ASDU_setSmpCnt_def keep fresh_asdu_def split: bind_splits intro!: put_asdu_fresh)
  have time: "sv_fresh ps src vlan q" if "set_refrTm p i f = Some q" for i f q
    using that assms(1) get_asdu_fresh [OF assms(1)]
    by (auto simp: set_refrTm_def keep fresh_asdu_def split: bind_splits intro!: put_asdu_fresh)
  have "sv_step p (SetSample i k v) = None" for i k v
    using set_element_early [OF assms(1)]
    by (cases v) (auto simp: SVPublisher_ASDU_setINT8_def SVPublisher_ASDU_setINT32_def SVPublisher_ASDU_setINT64_def
      SVPublisher_ASDU_setFLOAT_def SVPublisher_ASDU_setFLOAT64_def SVPublisher_ASDU_setTimestamp_def SVPublisher_ASDU_setQuality_def
      split: bind_split)
  moreover have "sv_step p (SetSmpSynch i v) = None" for i v
    using get_asdu_fresh [OF assms(1), of i] by (auto simp: SVPublisher_ASDU_setSmpSynch_def fresh_asdu_def split: bind_split)
  ultimately show ?thesis using assms(2) cnt time
    by (cases op) (auto simp: SVPublisher_ASDU_increaseSmpCnt_def SVPublisher_ASDU_setRefrTm_def SVPublisher_ASDU_setRefrTmNs_def
      SVPublisher_ASDU_setRefrTmByTimestamp_def split: bind_splits if_splits)
qed

lemma configured_fresh:
  assumes "length (dstAddress ps) = 6" and "length srcAddr = 6" and "sv_configured ps srcAddr vlan p"
  shows "sv_fresh ps srcAddr vlan p"
  using assms(3)
proof (induction rule: sv_configured.induct)
  case (created p)
  then show ?case using createEx_fresh [OF assms(1,2), of vlan] by auto
next
  case (added p svID datset confRev)
  then show ?case by (simp add: sv_fresh_def SVPublisher_addASDU_def fresh_asdu_def)
next
  case (configured p i a)
  then have "fresh_asdu (sp_asduList p ! i)" by (simp add: sv_fresh_def list_all_length)
  then show ?case using configured asdu_config_fresh put_asdu_fresh by blast
next
  case (early p op p')
  then show ?case by (blast intro: sv_step_fresh)
qed

definition sv_size :: "SVPublisher_ASDU list \<Rightarrow> nat" where
  "sv_size as = length (pdu_head as) + seq_len as"

definition sv_packet :: "CommParameters \<Rightarrow> bytes \<Rightarrow> bool \<Rightarrow> sv_state \<Rightarrow> bytes" where
  "sv_packet ps srcAddr vlan s =
     (let n = sv_size (fst s) + 8 in sv_frame_header ps srcAddr vlan @ [word_of_nat (n div 256), word_of_nat n, 0, 0, 0, 0] @ sv_pdu (fst s) (snd s))"

lemma asdu_length_le: "a \<in> set as \<Longrightarrow> asdu_length a \<le> seq_len as"
  by (auto simp: seq_len_def intro: member_le_sum_list)

lemma fresh_wf:
  assumes "length (dstAddress ps) = 6" and "length srcAddr = 6" and "sv_fresh ps srcAddr vlan p"
    and "sv_size (sp_asduList p) \<le> SV_MAX_MESSAGE_SIZE"
  shows "sp_wf p" "sv_header p n = sv_frame_header ps srcAddr vlan @ [word_of_nat ((n + 8) div 256), word_of_nat (n + 8), 0, 0, 0, 0]"
proof -
  have l: "length (sv_frame_header ps srcAddr vlan) = sp_lengthField p" "length (sv_frame_header ps srcAddr vlan) + 6 = sp_payloadStart p"
    using assms(1-3) by (auto simp: sv_frame_header_def vlan_tag_def sv_fresh_def split: if_splits)
  have "asdu_ok a" if "a \<in> set (sp_asduList p)" for a
  proof -
    have "length (as_gmIdentity a) = 8" using that assms(3) by (auto simp: sv_fresh_def list_all_iff fresh_asdu_def)
    moreover have "asdu_length a \<le> SV_MAX_MESSAGE_SIZE"
      using asdu_length_le [OF that] assms(4) by (simp add: sv_size_def)
    ultimately show ?thesis by (simp add: asdu_ok_def asdu_length_def SV_MAX_MESSAGE_SIZE_def)
  qed
  then show "sp_wf p" using assms(3) l by (auto simp: sp_wf_def sv_fresh_def list_all_iff SV_MAX_MESSAGE_SIZE_def)
  show "sv_header p n = sv_frame_header ps srcAddr vlan @ [word_of_nat ((n + 8) div 256), word_of_nat (n + 8), 0, 0, 0, 0]"
    using assms(3) l by (simp add: sv_header_def sv_fresh_def)
qed

lemma spec_size:
  "list_all (\<lambda>op. op_asdu op < length as) ops \<Longrightarrow> sv_size (fst (fold spec_step ops (as, ms))) = sv_size as"
proof (induction ops arbitrary: as ms)
  case (Cons op ops)
  obtain as' ms' where s: "spec_step op (as, ms) = (as', ms')" by fastforce
  then have as': "as' = as[op_asdu op := spec_asdu op (as ! op_asdu op)]" by (simp add: spec_step_def Let_def)
  then have "map asdu_length as' = map asdu_length as" using Cons.prems by (simp add: map_length_update spec_asdu_length)
  then have "sv_size as' = sv_size as" using as' by (simp add: sv_size_def pdu_head_def seq_len_def)
  moreover have "sv_size (fst (fold spec_step ops (as', ms'))) = sv_size as'" using Cons as' by (intro Cons.IH) simp
  ultimately show ?case using s by simp
qed simp

lemma sv_pdu_place: "sv_pdu (place as pos) ms = sv_pdu as ms"
  by (simp add: sv_pdu_def)

lemma configured_run:
  assumes "length (dstAddress ps) = 6" and "length srcAddr = 6" and "sv_configured ps srcAddr vlan p"
    and "sp_payloadStart p + sv_size (sp_asduList p) \<le> SV_MAX_MESSAGE_SIZE" and "list_all (sv_op_ok (sp_asduList p)) ops"
  shows "\<exists>p' q ms. SVPublisher_setupComplete p = Some p' \<and> list_all2 mem_ok (sp_asduList p) ms \<and> sv_run p' ops = Some q
    \<and> SVPublisher_publish q = Some (Some (sv_packet ps srcAddr vlan (fold spec_step ops (sp_asduList p, ms))))
    \<and> list_all asdu_ok (fst (fold spec_step ops (sp_asduList p, ms)))
    \<and> list_all2 mem_ok (fst (fold spec_step ops (sp_asduList p, ms))) (snd (fold spec_step ops (sp_asduList p, ms)))"
proof -
  let ?as = "sp_asduList p"
  note fresh = configured_fresh [OF assms(1-3)]
  have fits: "sv_size ?as \<le> SV_MAX_MESSAGE_SIZE" using assms(4) by simp
  note wf = fresh_wf [OF assms(1,2) fresh fits]
  from setup_ready [OF wf(1)] assms(4) obtain ms p' where p': "SVPublisher_setupComplete p = Some p'"
    "sv_ready p' (sv_header p (sv_size ?as)) ms" "sp_asduList p' = place ?as (sp_payloadStart p + length (pdu_head ?as))"
    by (auto simp: sv_size_def)
  have ok: "list_all (sv_op_ok (sp_asduList p')) ops" using assms(5) by (simp add: p'(3) list_all_iff op_ok_place)
  from run_refines [OF p'(2) ok] obtain q where q: "sv_run p' ops = Some q"
    "sv_ready q (sv_header p (sv_size ?as)) (snd (fold spec_step ops (sp_asduList p', ms)))"
    "sp_asduList q = fst (fold spec_step ops (sp_asduList p', ms))" by auto
  have i: "list_all (\<lambda>op. op_asdu op < length ?as) ops" using assms(5) by (auto simp: list_all_iff sv_op_ok_def)
  have "list_all2 mem_ok ?as ms" using p'(2,3) by (simp add: sv_ready_def)
  moreover have "SVPublisher_publish q = Some (Some (sv_packet ps srcAddr vlan (fold spec_step ops (?as, ms))))"
    using publish_ready [OF q(2)] q(3)
    by (simp add: p'(3) spec_run_place [OF i] sv_packet_def Let_def spec_size [OF i] wf(2) sv_pdu_place)
  moreover have "list_all asdu_ok (fst (fold spec_step ops (?as, ms)))"
    "list_all2 mem_ok (fst (fold spec_step ops (?as, ms))) (snd (fold spec_step ops (?as, ms)))"
    using q(2,3) by (auto simp: sv_ready_def p'(3) spec_run_place [OF i])
  ultimately show ?thesis using p'(1) q(1) by blast
qed

text \<open>
  C6: The publisher of sampled values.  However it is configured (ASDUs added, elements, reference time, sample rate,
  sample mode and clock identity set in any order), when the message fits into the buffer the setup completes, and
  then any sequence of writes into the ASDUs succeeds and leaves a buffer that \<open>SVPublisher_publish\<close> sends as the
  frame of the specification: the header with the right length, and the BER message of the ASDUs with the sample
  counters, the synchronisation flags, the reference times and the samples last written.
\<close>

theorem sv_samples_published:
  assumes "length (dstAddress ps) = 6" and "length srcAddr = 6" and "sv_configured ps srcAddr vlan p"
    and "sp_payloadStart p + sv_size (sp_asduList p) \<le> SV_MAX_MESSAGE_SIZE" and "list_all (sv_op_ok (sp_asduList p)) ops"
  shows "\<exists>p' q ms. SVPublisher_setupComplete p = Some p' \<and> list_all2 mem_ok (sp_asduList p) ms \<and> sv_run p' ops = Some q
    \<and> SVPublisher_publish q = Some (Some (sv_packet ps srcAddr vlan (fold spec_step ops (sp_asduList p, ms))))"
  using configured_run [OF assms] by blast

definition sv_sample_publisher :: "SVPublisher" where
  "sv_sample_publisher =
     (let p = SVPublisher_addASDU (the (the (SVPublisher_createEx (Some sv_default_parameters) [2, 0, 0, 0, 0, 1] True False)))
                [115, 118, 49] None 1
      in put_asdu p 0 (snd (SVPublisher_ASDU_addINT32 (sp_asduList p ! 0))))"

lemma sv_sample_publisher_configured: "sv_configured sv_default_parameters [2, 0, 0, 0, 0, 1] False sv_sample_publisher"
proof -
  obtain p where p: "SVPublisher_createEx (Some sv_default_parameters) [2, 0, 0, 0, 0, 1] True False = Some (Some p)" "sp_asduList p = []"
    using createEx_fresh [of sv_default_parameters "[2, 0, 0, 0, 0, 1]" False] by (auto simp: sv_default_parameters_def)
  let ?q = "SVPublisher_addASDU p [115, 118, 49] None 1"
  have "sv_configured sv_default_parameters [2, 0, 0, 0, 0, 1] False (put_asdu ?q 0 (snd (SVPublisher_ASDU_addINT32 (sp_asduList ?q ! 0))))"
    by (rule sv_configured.intros(3) [OF sv_configured.intros(2) [OF sv_configured.intros(1) [OF p(1)]]])
      (auto simp: p(2) SVPublisher_addASDU_def intro: asdu_config.intros)
  then show ?thesis by (simp add: sv_sample_publisher_def p(1) Let_def)
qed

definition sample_asdu :: SVPublisher_ASDU where
  "sample_asdu = snd (SVPublisher_ASDU_addINT32 (sp_asduList (SVPublisher_addASDU \<lparr>sp_buffer = [], sp_ethernetSocket = True,
     sp_lengthField = 0, sp_payloadStart = 0, sp_payloadLength = 0, sp_asduList = []\<rparr> [115, 118, 49] None 1) ! 0))"

lemma sv_sample_publisher_parts: "sp_payloadStart sv_sample_publisher = 22" "sp_asduList sv_sample_publisher = [sample_asdu]"
  by (simp_all add: sv_sample_publisher_def Let_def sv_default_parameters_def SVPublisher_createEx_def preparePacketBuffer_def
     rdn_def puts_eq overlay_def SV_MAX_MESSAGE_SIZE_def SVPublisher_addASDU_def put_asdu_def SVPublisher_ASDU_addINT32_def add_element_def
     sample_asdu_def)

lemma sample_count: "ber_u32 1 = [1]"
  by code_simp

lemma sample_asdu_size: "sv_size [sample_asdu] = 33" "as_dataSize sample_asdu = 4" "as_smpCntLimit sample_asdu = 0xffff" "as_smpCnt sample_asdu = 0"
  by code_simp+

lemma sample_content:
  "asdu_content (with_sample sample_asdu 8 2) (t, [0, 0, 1, 2])
    = [0x80, 3, 115, 118, 49, 0x82, 2, 0, 8, 0x83, 4, 0, 0, 0, 1, 0x85, 1, 2, 0x87, 4, 0, 0, 1, 2]"
  by (simp add: sample_asdu_def SVPublisher_addASDU_def SVPublisher_ASDU_addINT32_def add_element_def
      with_sample_def asdu_content_def asdu_names_def datset_bytes_def opt_def short_tlv mem16_def mem32_def)

lemma sample_packet:
  "sv_packet sv_default_parameters [2, 0, 0, 0, 0, 1] False ([with_sample sample_asdu 8 2], [(t, [0, 0, 1, 2])])
    = [1, 12, 205, 1, 0, 1, 2, 0, 0, 0, 0, 1, 0x88, 0xba, 0x40, 0, 0, 41, 0, 0, 0, 0] @
      [0x60, 31, 0x80, 1, 1, 0xa2, 26, 0x30, 24, 0x80, 3, 115, 118, 49, 0x82, 2, 0, 8, 0x83, 4, 0, 0, 0, 1, 0x85, 1, 2, 0x87, 4, 0, 0, 1, 2]"
proof -
  have size: "sv_size [with_sample sample_asdu 8 2] = 33"
    using sample_asdu_size(1) by (simp add: sv_size_def pdu_head_def seq_len_def)
  have pdu: "sv_pdu [with_sample sample_asdu 8 2] [(t, [0, 0, 1, 2])] = [0x60, 31, 0x80, 1, 1, 0xa2, 26, 0x30, 24] @
      [0x80, 3, 115, 118, 49, 0x82, 2, 0, 8, 0x83, 4, 0, 0, 0, 1, 0x85, 1, 2, 0x87, 4, 0, 0, 1, 2]"
    by (simp add: sv_pdu_def asdus_bytes_def asdu_bytes_def sample_content short_tlv sample_count)
  show ?thesis unfolding sv_packet_def Let_def fst_conv snd_conv size pdu
    by (simp add: sv_frame_header_def sv_default_parameters_def)
qed

theorem sv_samples_published_witness:
  "\<exists>p' q. SVPublisher_setupComplete sv_sample_publisher = Some p'
    \<and> sv_run p' [SetSample 0 0 (INT32 258), SetSmpCnt 0 7, IncreaseSmpCnt 0, SetSmpSynch 0 2] = Some q
    \<and> SVPublisher_publish q = Some (Some ([1, 12, 205, 1, 0, 1, 2, 0, 0, 0, 0, 1, 0x88, 0xba, 0x40, 0, 0, 41, 0, 0, 0, 0] @
        [0x60, 31, 0x80, 1, 1, 0xa2, 26, 0x30, 24, 0x80, 3, 115, 118, 49, 0x82, 2, 0, 8, 0x83, 4, 0, 0, 0, 1, 0x85, 1, 2, 0x87, 4, 0, 0, 1, 2]))"
proof -
  let ?ops = "[SetSample 0 0 (INT32 258), SetSmpCnt 0 7, IncreaseSmpCnt 0, SetSmpSynch 0 2]"
  have ok: "list_all (sv_op_ok (sp_asduList sv_sample_publisher)) ?ops"
    unfolding sv_sample_publisher_parts by code_simp
  have fits: "sp_payloadStart sv_sample_publisher + sv_size (sp_asduList sv_sample_publisher) \<le> SV_MAX_MESSAGE_SIZE"
    by (simp add: sv_sample_publisher_parts sample_asdu_size SV_MAX_MESSAGE_SIZE_def)
  have addr: "length (dstAddress sv_default_parameters) = 6" "length ([2, 0, 0, 0, 0, 1] :: bytes) = 6" by (simp_all add: sv_default_parameters_def)
  from sv_samples_published [OF addr sv_sample_publisher_configured fits ok]
  obtain p' q ms where r: "SVPublisher_setupComplete sv_sample_publisher = Some p'" "list_all2 mem_ok (sp_asduList sv_sample_publisher) ms"
    "sv_run p' ?ops = Some q"
    "SVPublisher_publish q = Some (Some (sv_packet sv_default_parameters [2, 0, 0, 0, 0, 1] False (fold spec_step ?ops (sp_asduList sv_sample_publisher, ms))))"
    by blast
  obtain t d1 d2 d3 d4 where ms: "ms = [(t, [d1, d2, d3, d4])]"
    using r(2) by (auto simp: sv_sample_publisher_parts mem_ok_def sample_asdu_size list_all2_Cons1 length_Suc_conv numeral_eq_Suc)
  have "spec_step (SetSample 0 0 (INT32 258)) ([sample_asdu], ms) = ([sample_asdu], [(t, [0, 0, 1, 2])])"
    by (simp add: spec_step_def ms overlay_def mem32_def)
  moreover have "fold spec_step [SetSmpCnt 0 7, IncreaseSmpCnt 0, SetSmpSynch 0 2] ([sample_asdu], [(t, [0, 0, 1, 2])])
      = ([with_sample sample_asdu 8 2], [(t, [0, 0, 1, 2])])"
    by (simp add: spec_step_def sample_asdu_size with_sample_def)
  moreover note sample_packet [of t]
  ultimately show ?thesis using r by (simp add: sv_sample_publisher_parts)
qed

subsection \<open>The sample counter\<close>

lemma spec_increase:
  assumes "as_smpCnt a < as_smpCntLimit a"
  shows "(spec_asdu (IncreaseSmpCnt i) ^^ n) a = with_sample a (word_of_nat ((unat (as_smpCnt a) + n) mod unat (as_smpCntLimit a))) (as_smpSynch a)"
proof (induction n)
  case 0
  have "unat (as_smpCnt a) < unat (as_smpCntLimit a)" using assms by (simp add: word_less_nat_alt)
  then show ?case by (simp add: with_sample_same)
next
  case (Suc n)
  have "unat (as_smpCntLimit a) < 65536" using unsigned_less [of "as_smpCntLimit a", where 'a = nat] by simp
  moreover have "0 < unat (as_smpCntLimit a)" using assms by (metis bot_nat_0.not_eq_extremum not_less_zero word_less_nat_alt)
  ultimately have "(unat (as_smpCnt a) + n) mod unat (as_smpCntLimit a) < 65536" by (meson less_trans mod_less_divisor)
  then show ?case using Suc by (simp add: with_sample_def unat_of_nat mod_Suc_eq)
qed

lemma spec_repeat:
  "i < length as \<Longrightarrow> length ms = length as \<Longrightarrow> fold spec_step (replicate n (IncreaseSmpCnt i)) (as, ms) = (as[i := (spec_asdu (IncreaseSmpCnt i) ^^ n) (as ! i)], ms)"
  by (induction n arbitrary: as) (simp_all add: spec_step_def Let_def funpow_swap1)

text \<open>
  The sample counter.  After the setup, increasing the counter of an ASDU \<open>n\<close> times always succeeds, leaves it at
  the old value plus \<open>n\<close> modulo the limit of the ASDU, and the frame sent then carries that value.
\<close>

theorem sample_counter_cycles:
  assumes "sv_ready p hdr ms" and "i < length (sp_asduList p)" and "a = sp_asduList p ! i" and "as_smpCnt a < as_smpCntLimit a"
  shows "\<exists>q. sv_run p (replicate n (IncreaseSmpCnt i)) = Some q
    \<and> SVPublisher_ASDU_getSmpCnt q i = Some (word_of_nat ((unat (as_smpCnt a) + n) mod unat (as_smpCntLimit a)))
    \<and> SVPublisher_publish q = Some (Some (hdr @ sv_pdu (sp_asduList q) ms))"
proof -
  have "as_smpCntLimit a \<noteq> 0" using assms(4) by auto
  then have ok: "list_all (sv_op_ok (sp_asduList p)) (replicate n (IncreaseSmpCnt i))"
    using assms(2,3) by (auto simp: list_all_iff sv_op_ok_def)
  have l: "length ms = length (sp_asduList p)" using assms(1) by (auto simp: sv_ready_def dest: list_all2_lengthD)
  from run_refines [OF assms(1) ok] obtain q where q: "sv_run p (replicate n (IncreaseSmpCnt i)) = Some q"
    "sv_ready q hdr ms" "sp_asduList q = (sp_asduList p)[i := (spec_asdu (IncreaseSmpCnt i) ^^ n) a]"
    unfolding spec_repeat [OF assms(2) l] assms(3) [symmetric] by auto
  then show ?thesis using assms(2) publish_ready [OF q(2)]
    by (simp add: SVPublisher_ASDU_getSmpCnt_def get_asdu_def spec_increase [OF assms(4)]) (simp add: with_sample_def)
qed

theorem sample_counter_cycles_witness:
  "\<exists>p' q. SVPublisher_setupComplete sv_sample_publisher = Some p' \<and> sv_run p' (replicate 65537 (IncreaseSmpCnt 0)) = Some q
    \<and> SVPublisher_ASDU_getSmpCnt q 0 = Some 2"
proof -
  have addr: "length (dstAddress sv_default_parameters) = 6" "length ([2, 0, 0, 0, 0, 1] :: bytes) = 6" by (simp_all add: sv_default_parameters_def)
  have "sp_wf sv_sample_publisher"
    using fresh_wf(1) [OF addr configured_fresh [OF addr sv_sample_publisher_configured]]
    by (simp add: sv_sample_publisher_parts sample_asdu_size SV_MAX_MESSAGE_SIZE_def)
  from setup_ready [OF this] obtain ms p' h k where p': "SVPublisher_setupComplete sv_sample_publisher = Some p'"
    "sv_ready p' h ms" "sp_asduList p' = place [sample_asdu] k"
    using sample_asdu_size(1) unfolding sv_sample_publisher_parts sv_size_def SV_MAX_MESSAGE_SIZE_def by auto
  have a: "as_smpCnt (sp_asduList p' ! 0) = 0" "as_smpCntLimit (sp_asduList p' ! 0) = 0xffff"
    by (simp_all add: p'(3) set_pointers_def Let_def sample_asdu_size)
  from sample_counter_cycles [OF p'(2) _ refl, of 0 65537] show ?thesis using p' a by auto
qed

subsection \<open>Faults\<close>

text \<open>
  \<open>SVPublisher_setupComplete\<close> does not compare the size of the message with the buffer: a long \<open>svID\<close> is written
  past its end.  \<open>SVPublisher_ASDU_setSmpSynch\<close> writes through a null pointer when it is called before the setup, and a
  counter limit of zero divides by zero.
\<close>

lemma setup_overflow:
  assumes "sp_asduList p = [a]" and "length (sp_buffer p) = SV_MAX_MESSAGE_SIZE" and "SV_MAX_MESSAGE_SIZE \<le> length (as_svID a)"
  shows "SVPublisher_setupComplete p = None"
  using assms unfolding SVPublisher_setupComplete_def tl_writes encodeUInt32WithTL_writes
  by (auto simp: Let_def SVPublisher_ASDU_encodeToBuffer_def tl_writes encodeStringWithTag_writes ber_string_def puts_eq ber_tlv_def
      split: bind_split)

lemma early_synch_faults: "fresh_asdu a \<Longrightarrow> get_asdu p i = Some a \<Longrightarrow> SVPublisher_ASDU_setSmpSynch p i v = None"
  by (simp add: SVPublisher_ASDU_setSmpSynch_def fresh_asdu_def)

lemma zero_limit_faults: "get_asdu p i = Some a \<Longrightarrow> as_smpCntLimit a = 0 \<Longrightarrow> SVPublisher_ASDU_increaseSmpCnt p i = None"
  by (simp add: SVPublisher_ASDU_increaseSmpCnt_def)

end
