(* ===== verification/SvSubscriber.thy ===== *)
theory SvSubscriber
  imports SvPublisher
begin

text \<open>
  The receiver of sampled values, \<open>src/libiec61850/src/sampled_values/sv_subscriber.c\<close>, in its Ethernet
  configuration and without debug output.  The parsers work in place on the receive buffer of the receiver: a
  pointer into it is an offset (\<open>None\<close> is \<open>NULL\<close>), the pointer argument \<open>buffer\<close> of a parser is the offset \<open>base\<close>.
  \<open>parseASDU\<close> ends the two names with a NUL written into the buffer, so the parsers return the changed buffer.
  A call of a listener is an output: the ASDU it is given and the buffer at that moment, which its pointers
  point into.
\<close>

subsection \<open>State\<close>

record SVSubscriber =
  ss_ethAddr :: bytes
  ss_appId :: u16
  ss_listener :: bool
  ss_addr :: nat

record SVSubscriber_ASDU =
  sa_svId :: "nat option"
  sa_datSet :: "nat option"
  sa_smpCnt :: "nat option"
  sa_confRev :: "nat option"
  sa_refrTm :: "nat option"
  sa_smpSynch :: "nat option"
  sa_smpMod :: "nat option"
  sa_smpRate :: "nat option"
  sa_dataBufferLength :: nat
  sa_dataBuffer :: "nat option"

text \<open>A socket that \<open>SVReceiver_stopThreadless\<close> destroyed stays in the receiver.\<close>

datatype eth_socket = NoSocket | OpenSocket | DestroyedSocket

record SVReceiver =
  sr_running :: bool
  sr_stopped :: bool
  sr_checkDestAddr :: bool
  sr_interfaceId :: "cstring option"
  sr_buffer :: bytes
  sr_ethSocket :: eth_socket
  sr_subscriberList :: "SVSubscriber list"
  sr_thread :: bool

type_synonym sv_call = "SVSubscriber_ASDU \<times> bytes"

definition SV_ETH_BUFFER_LENGTH :: nat where
  "SV_ETH_BUFFER_LENGTH = 1518"

definition SVReceiver_create :: SVReceiver where
  "SVReceiver_create = \<lparr>sr_running = False, sr_stopped = False, sr_checkDestAddr = False, sr_interfaceId = None,
     sr_buffer = replicate SV_ETH_BUFFER_LENGTH 0, sr_ethSocket = NoSocket, sr_subscriberList = [],
     sr_thread = False\<rparr>"

definition SVReceiver_setInterfaceId :: "SVReceiver \<Rightarrow> cstring \<Rightarrow> SVReceiver" where
  "SVReceiver_setInterfaceId self interfaceId = self\<lparr>sr_interfaceId := Some interfaceId\<rparr>"

definition SVReceiver_disableDestAddrCheck :: "SVReceiver \<Rightarrow> SVReceiver" where
  "SVReceiver_disableDestAddrCheck self = self\<lparr>sr_checkDestAddr := False\<rparr>"

definition SVReceiver_enableDestAddrCheck :: "SVReceiver \<Rightarrow> SVReceiver" where
  "SVReceiver_enableDestAddrCheck self = self\<lparr>sr_checkDestAddr := True\<rparr>"

definition SVReceiver_addSubscriber :: "SVReceiver \<Rightarrow> SVSubscriber \<Rightarrow> SVReceiver" where
  "SVReceiver_addSubscriber self subscriber = self\<lparr>sr_subscriberList := sr_subscriberList self @ [subscriber]\<rparr>"

fun remove_subscriber :: "nat \<Rightarrow> SVSubscriber list \<Rightarrow> SVSubscriber list" where
  "remove_subscriber addr [] = []"
| "remove_subscriber addr (s # rest) = (if ss_addr s = addr then rest else s # remove_subscriber addr rest)"

definition SVReceiver_removeSubscriber :: "SVReceiver \<Rightarrow> nat \<Rightarrow> SVReceiver" where
  "SVReceiver_removeSubscriber self addr = self\<lparr>sr_subscriberList := remove_subscriber addr (sr_subscriberList self)\<rparr>"

definition SVSubscriber_create :: "bytes option \<Rightarrow> u16 \<Rightarrow> nat \<Rightarrow> SVSubscriber option" where
  "SVSubscriber_create ethAddr appID addr = do {
     a \<leftarrow> (case ethAddr of None \<Rightarrow> Some (replicate 6 0) | Some a \<Rightarrow> rdn a 0 6);
     Some \<lparr>ss_ethAddr = a, ss_appId = appID, ss_listener = False, ss_addr = addr\<rparr> }"

definition SVSubscriber_setListener :: "SVSubscriber \<Rightarrow> bool \<Rightarrow> SVSubscriber" where
  "SVSubscriber_setListener self listener = self\<lparr>ss_listener := listener\<rparr>"

subsection \<open>Parsing\<close>

text \<open>The ASDU and the lengths of its two names.\<close>

type_synonym asdu_locals = "SVSubscriber_ASDU \<times> nat \<times> nat"

definition asdu_init :: asdu_locals where
  "asdu_init = (\<lparr>sa_svId = None, sa_datSet = None, sa_smpCnt = None, sa_confRev = None, sa_refrTm = None, sa_smpSynch = None,
     sa_smpMod = None, sa_smpRate = None, sa_dataBufferLength = 0, sa_dataBuffer = None\<rparr>, 0, 0)"

definition asdu_field :: "u8 \<Rightarrow> nat \<Rightarrow> nat \<Rightarrow> asdu_locals \<Rightarrow> asdu_locals" where
  "asdu_field tag pos elementLength l =
     (case l of (asdu, svIdLength, datSetLength) \<Rightarrow>
      if tag = 0x80 then (asdu\<lparr>sa_svId := Some pos\<rparr>, elementLength, datSetLength)
      else if tag = 0x81 then (asdu\<lparr>sa_datSet := Some pos\<rparr>, svIdLength, elementLength)
      else if tag = 0x82 then (asdu\<lparr>sa_smpCnt := Some pos\<rparr>, svIdLength, datSetLength)
      else if tag = 0x83 then (asdu\<lparr>sa_confRev := Some pos\<rparr>, svIdLength, datSetLength)
      else if tag = 0x84 then (asdu\<lparr>sa_refrTm := Some pos\<rparr>, svIdLength, datSetLength)
      else if tag = 0x85 then (asdu\<lparr>sa_smpSynch := Some pos\<rparr>, svIdLength, datSetLength)
      else if tag = 0x86 then (asdu\<lparr>sa_smpRate := Some pos\<rparr>, svIdLength, datSetLength)
      else if tag = 0x87 then (asdu\<lparr>sa_dataBuffer := Some pos, sa_dataBufferLength := elementLength\<rparr>, svIdLength, datSetLength)
      else if tag = 0x88 then (asdu\<lparr>sa_smpMod := Some pos\<rparr>, svIdLength, datSetLength)
      else l)"

text \<open>The loop over the elements of an ASDU; an inner \<open>None\<close> is the return on a malformed length.\<close>

function asdu_loop :: "bytes \<Rightarrow> nat \<Rightarrow> nat \<Rightarrow> nat \<Rightarrow> asdu_locals \<Rightarrow> asdu_locals option option" where
  "asdu_loop buffer base bufPos len l =
     (if bufPos < len then do {
        tag \<leftarrow> rd buffer (base + bufPos);
        r \<leftarrow> BerDecoder_decodeLength (drop base buffer) (bufPos + 1) len;
        (case r of
           LenErr \<Rightarrow> Some None
         | LenOk bufPos' elementLength \<Rightarrow>
             asdu_loop buffer base (bufPos' + elementLength) len (asdu_field tag (base + bufPos') elementLength l)) }
      else Some (Some l))"
  by pat_completeness auto
termination
  by (relation "measure (\<lambda>(_, _, bufPos, len, _). len - bufPos)") (auto dest!: decodeLength_bounds)

definition end_name :: "nat option \<Rightarrow> nat \<Rightarrow> bytes \<Rightarrow> bytes option" where
  "end_name name n buffer =
     (case name of
        None \<Rightarrow> Some buffer
      | Some pos \<Rightarrow> if pos + n < length buffer then Some (buffer[pos + n := 0]) else None)"

definition parseASDU :: "SVSubscriber \<Rightarrow> bytes \<Rightarrow> nat \<Rightarrow> nat \<Rightarrow> (bytes \<times> sv_call list) option" where
  "parseASDU subscriber buffer base len = do {
     l \<leftarrow> asdu_loop buffer base 0 len asdu_init;
     (case l of
        None \<Rightarrow> Some (buffer, [])
      | Some (asdu, svIdLength, datSetLength) \<Rightarrow> do {
          buffer \<leftarrow> end_name (sa_svId asdu) svIdLength buffer;
          buffer \<leftarrow> end_name (sa_datSet asdu) datSetLength buffer;
          Some (buffer, if ss_listener subscriber then [(asdu, buffer)] else []) }) }"

function parseSequenceOfASDU :: "SVSubscriber \<Rightarrow> bytes \<Rightarrow> nat \<Rightarrow> nat \<Rightarrow> nat \<Rightarrow> (bytes \<times> sv_call list) option" where
  "parseSequenceOfASDU subscriber buffer base bufPos len =
     (if bufPos < len then do {
        tag \<leftarrow> rd buffer (base + bufPos);
        r \<leftarrow> BerDecoder_decodeLength (drop base buffer) (bufPos + 1) len;
        (case r of
           LenErr \<Rightarrow> Some (buffer, [])
         | LenOk bufPos' elementLength \<Rightarrow> do {
             (buffer', calls) \<leftarrow> (if tag = 0x30 then parseASDU subscriber buffer (base + bufPos') elementLength else Some (buffer, []));
             (buffer'', rest) \<leftarrow> parseSequenceOfASDU subscriber buffer' base (bufPos' + elementLength) len;
             Some (buffer'', calls @ rest) }) }
      else Some (buffer, []))"
  by pat_completeness auto
termination
  by (relation "measure (\<lambda>(_, _, _, bufPos, len). len - bufPos)") (auto dest!: decodeLength_bounds)

function sv_payload_loop :: "SVSubscriber \<Rightarrow> bytes \<Rightarrow> nat \<Rightarrow> nat \<Rightarrow> nat \<Rightarrow> (bytes \<times> sv_call list) option" where
  "sv_payload_loop subscriber buffer base bufPos svEnd =
     (if bufPos < svEnd then do {
        tag \<leftarrow> rd buffer (base + bufPos);
        r \<leftarrow> BerDecoder_decodeLength (drop base buffer) (bufPos + 1) svEnd;
        (case r of
           LenErr \<Rightarrow> Some (buffer, [])
         | LenOk bufPos' elementLength \<Rightarrow> do {
             (buffer', calls) \<leftarrow> (if tag = 0xa2 then parseSequenceOfASDU subscriber buffer (base + bufPos') 0 elementLength else Some (buffer, []));
             (buffer'', rest) \<leftarrow> sv_payload_loop subscriber buffer' base (bufPos' + elementLength) svEnd;
             Some (buffer'', calls @ rest) }) }
      else Some (buffer, []))"
  by pat_completeness auto
termination
  by (relation "measure (\<lambda>(_, _, _, bufPos, svEnd). svEnd - bufPos)") (auto dest!: decodeLength_bounds)

text \<open>
  The length of the APDU may be negative; the length decoder rejects every position when its bound is negative or
  zero.
\<close>

definition parseSVPayload :: "SVSubscriber \<Rightarrow> bytes \<Rightarrow> nat \<Rightarrow> int \<Rightarrow> (bytes \<times> sv_call list) option" where
  "parseSVPayload subscriber buffer base apduLength = do {
     b \<leftarrow> rd buffer base;
     if b = 0x60 then do {
       r \<leftarrow> BerDecoder_decodeLength (drop base buffer) 1 (nat apduLength);
       (case r of
          LenErr \<Rightarrow> Some (buffer, [])
        | LenOk bufPos elementLength \<Rightarrow> sv_payload_loop subscriber buffer base bufPos (bufPos + elementLength)) }
     else Some (buffer, []) }"

definition sv_matches :: "SVReceiver \<Rightarrow> u16 \<Rightarrow> bytes \<Rightarrow> SVSubscriber \<Rightarrow> bool" where
  "sv_matches self app dstAddr s \<longleftrightarrow>
     ss_appId s = app \<and> (if sr_checkDestAddr self then sr_ethSocket self \<noteq> NoSocket \<and> dstAddr = ss_ethAddr s else True)"

definition handleSVApdu :: "SVReceiver \<Rightarrow> u16 \<Rightarrow> nat \<Rightarrow> int \<Rightarrow> bytes \<Rightarrow> (SVReceiver \<times> sv_call list) option" where
  "handleSVApdu self app apdu apduLength dstAddr =
     (case find (sv_matches self app dstAddr) (sr_subscriberList self) of
        None \<Rightarrow> Some (self, [])
      | Some subscriber \<Rightarrow> do {
          (buffer, calls) \<leftarrow> parseSVPayload subscriber (sr_buffer self) apdu apduLength;
          Some (self\<lparr>sr_buffer := buffer\<rparr>, calls) })"

definition parseSVMessage :: "SVReceiver \<Rightarrow> nat \<Rightarrow> (SVReceiver \<times> sv_call list) option" where
  "parseSVMessage self numbytes =
     (if numbytes < 22 then Some (self, [])
      else do {
        let buffer = sr_buffer self;
        dstAddr \<leftarrow> rdn buffer 0 6;
        b0 \<leftarrow> rd buffer 12;
        b1 \<leftarrow> rd buffer 13;
        let vlan = (b0 = 0x81 \<and> b1 = 0x00);
        let bufPos = (if vlan then 16 else 12);
        let headerLength = (if vlan then 18 else 14);
        e0 \<leftarrow> rd buffer bufPos;
        e1 \<leftarrow> rd buffer (bufPos + 1);
        if e0 \<noteq> 0x88 \<or> e1 \<noteq> 0xba then Some (self, [])
        else do {
          a0 \<leftarrow> rd buffer (bufPos + 2);
          a1 \<leftarrow> rd buffer (bufPos + 3);
          l0 \<leftarrow> rd buffer (bufPos + 4);
          l1 \<leftarrow> rd buffer (bufPos + 5);
          let len = unat l0 * 256 + unat l1;
          if numbytes < len + headerLength then Some (self, [])
          else handleSVApdu self (word_of_nat (unat a0 * 256 + unat a1)) (bufPos + 10) (int len - 8) dstAddr } })"

text \<open>\<open>packet\<close> is what \<open>Ethernet_receivePacket\<close> stored; it uses the socket, which must not be destroyed.\<close>

definition SVReceiver_tick :: "SVReceiver \<Rightarrow> bytes \<Rightarrow> (bool \<times> SVReceiver \<times> sv_call list) option" where
  "SVReceiver_tick self packet =
     (case sr_ethSocket self of
        NoSocket \<Rightarrow> Some (False, self, [])
      | DestroyedSocket \<Rightarrow> None
      | OpenSocket \<Rightarrow>
          if packet \<noteq> [] then do {
            (self, calls) \<leftarrow> parseSVMessage (self\<lparr>sr_buffer := overlay (sr_buffer self) 0 packet\<rparr>) (length packet);
            Some (True, self, calls) }
          else Some (False, self, []))"

subsection \<open>Start and stop\<close>

definition SVReceiver_startThreadless :: "SVReceiver \<Rightarrow> bool \<Rightarrow> bool \<times> SVReceiver" where
  "SVReceiver_startThreadless self socketOk =
     (if socketOk then (True, self\<lparr>sr_ethSocket := OpenSocket, sr_running := True\<rparr>)
      else (False, self\<lparr>sr_ethSocket := NoSocket\<rparr>))"

definition SVReceiver_stopThreadless :: "SVReceiver \<Rightarrow> SVReceiver option" where
  "SVReceiver_stopThreadless self =
     (case sr_ethSocket self of
        NoSocket \<Rightarrow> Some (self\<lparr>sr_running := False\<rparr>)
      | OpenSocket \<Rightarrow> Some (self\<lparr>sr_ethSocket := DestroyedSocket, sr_running := False\<rparr>)
      | DestroyedSocket \<Rightarrow> None)"

text \<open>
  The loop of the receiver thread, for the outcomes of its waits until \<open>SVReceiver_stop\<close> clears \<open>running\<close>: a wait
  fails, times out or reports a packet.
\<close>

datatype wait_result = WaitFailed | WaitTimeout | WaitReady bytes

fun sv_loop :: "SVReceiver \<Rightarrow> wait_result list \<Rightarrow> (SVReceiver \<times> sv_call list) option" where
  "sv_loop self [] = Some (self, [])"
| "sv_loop self (w # ws) =
     (case w of
        WaitReady packet \<Rightarrow> do {
          (_, self, calls) \<leftarrow> SVReceiver_tick self packet;
          (self, rest) \<leftarrow> sv_loop self ws;
          Some (self, calls @ rest) }
      | _ \<Rightarrow> sv_loop self ws)"

definition svReceiverLoop :: "SVReceiver \<Rightarrow> wait_result list \<Rightarrow> (SVReceiver \<times> sv_call list) option" where
  "svReceiverLoop self ws =
     (if sr_ethSocket self \<noteq> NoSocket then do {
        (self, calls) \<leftarrow> sv_loop (self\<lparr>sr_stopped := False\<rparr>) (if sr_running self then ws else []);
        Some (self\<lparr>sr_stopped := True\<rparr>, calls) }
      else Some (self\<lparr>sr_stopped := True\<rparr>, []))"

definition SVReceiver_start :: "SVReceiver \<Rightarrow> bool \<Rightarrow> bool \<Rightarrow> SVReceiver" where
  "SVReceiver_start self socketOk threadOk =
     (let (ok, self) = SVReceiver_startThreadless self socketOk in if ok then self\<lparr>sr_thread := threadOk\<rparr> else self)"

definition SVReceiver_isRunning :: "SVReceiver \<Rightarrow> bool" where
  "SVReceiver_isRunning self = sr_running self"

definition SVReceiver_stop :: "SVReceiver \<Rightarrow> SVReceiver option" where
  "SVReceiver_stop self =
     (if sr_running self then SVReceiver_stopThreadless (self\<lparr>sr_running := False, sr_thread := False\<rparr>) else Some self)"

text \<open>The memory itself is not modelled: what is left of the destruction is the end of the thread and the socket.\<close>

definition SVReceiver_destroy :: "SVReceiver \<Rightarrow> unit option" where
  "SVReceiver_destroy self = map_option (\<lambda>_. ()) (SVReceiver_stop self)"

subsection \<open>Access to an ASDU\<close>

text \<open>\<open>None\<close> is a read through a null pointer or outside the buffer.\<close>

definition field_bytes :: "bytes \<Rightarrow> nat option \<Rightarrow> nat \<Rightarrow> nat \<Rightarrow> bytes option" where
  "field_bytes buffer p index n = (case p of None \<Rightarrow> None | Some pos \<Rightarrow> rdn buffer (pos + index) n)"

definition SVSubscriber_ASDU_getSmpSynch :: "sv_call \<Rightarrow> u8 option" where
  "SVSubscriber_ASDU_getSmpSynch c = map_option hd (field_bytes (snd c) (sa_smpSynch (fst c)) 0 1)"

definition SVSubscriber_ASDU_getSmpCnt :: "sv_call \<Rightarrow> u16 option" where
  "SVSubscriber_ASDU_getSmpCnt c = map_option (\<lambda>b. word_of_nat (be_nat b)) (field_bytes (snd c) (sa_smpCnt (fst c)) 0 2)"

text \<open>The \<open>timeQuality\<close> argument is \<open>NULL\<close> in every call.\<close>

definition decodeUtcTimeToNsTime :: "bytes \<Rightarrow> nat \<Rightarrow> u64 option" where
  "decodeUtcTimeToNsTime buffer pos = do {
     b \<leftarrow> rdn buffer pos 7;
     let timeval32 = (word_of_nat (be_nat (take 4 b)) :: u32);
     let fractionOfSecond = (word_of_nat (be_nat (drop 4 b)) :: u32);
     let nsVal = drop_bit 24 (ucast fractionOfSecond * 1000000000 :: u64);
     Some (ucast timeval32 * 1000000000 + nsVal) }"

definition SVSubscriber_ASDU_getRefrTmAsNs :: "sv_call \<Rightarrow> u64 option" where
  "SVSubscriber_ASDU_getRefrTmAsNs c = (case sa_refrTm (fst c) of None \<Rightarrow> Some 0 | Some pos \<Rightarrow> decodeUtcTimeToNsTime (snd c) pos)"

definition SVSubscriber_ASDU_getRefrTmAsMs :: "sv_call \<Rightarrow> u64 option" where
  "SVSubscriber_ASDU_getRefrTmAsMs c =
     map_option (\<lambda>t. t div 1000000) (case sa_refrTm (fst c) of None \<Rightarrow> Some 0 | Some pos \<Rightarrow> decodeUtcTimeToNsTime (snd c) pos)"

definition SVSubscriber_ASDU_hasRefrTm :: "sv_call \<Rightarrow> bool" where
  "SVSubscriber_ASDU_hasRefrTm c \<longleftrightarrow> sa_refrTm (fst c) \<noteq> None"

definition SVSubscriber_ASDU_hasDatSet :: "sv_call \<Rightarrow> bool" where
  "SVSubscriber_ASDU_hasDatSet c \<longleftrightarrow> sa_datSet (fst c) \<noteq> None"

definition SVSubscriber_ASDU_hasSmpRate :: "sv_call \<Rightarrow> bool" where
  "SVSubscriber_ASDU_hasSmpRate c \<longleftrightarrow> sa_smpRate (fst c) \<noteq> None"

definition SVSubscriber_ASDU_hasSmpMod :: "sv_call \<Rightarrow> bool" where
  "SVSubscriber_ASDU_hasSmpMod c \<longleftrightarrow> sa_smpMod (fst c) \<noteq> None"

text \<open>A returned string is its characters up to the NUL in the buffer; the inner \<open>None\<close> is \<open>NULL\<close>.\<close>

definition string_at :: "bytes \<Rightarrow> nat option \<Rightarrow> cstring option option" where
  "string_at buffer p =
     (case p of
        None \<Rightarrow> Some None
      | Some pos \<Rightarrow> if 0 \<in> set (drop pos buffer) then Some (Some (takeWhile (\<lambda>b. b \<noteq> 0) (drop pos buffer))) else None)"

definition SVSubscriber_ASDU_getSvId :: "sv_call \<Rightarrow> cstring option option" where
  "SVSubscriber_ASDU_getSvId c = string_at (snd c) (sa_svId (fst c))"

definition SVSubscriber_ASDU_getDatSet :: "sv_call \<Rightarrow> cstring option option" where
  "SVSubscriber_ASDU_getDatSet c = string_at (snd c) (sa_datSet (fst c))"

text \<open>\<open>memcpy_reverse\<close> on a little-endian machine: the octets in the order of the memory of the result.\<close>

definition memcpy_reverse :: "bytes \<Rightarrow> bytes" where
  "memcpy_reverse from = rev from"

definition mem_nat :: "bytes \<Rightarrow> nat" where
  "mem_nat m = be_nat (rev m)"

definition SVSubscriber_ASDU_getConfRev :: "sv_call \<Rightarrow> u32 option" where
  "SVSubscriber_ASDU_getConfRev c = map_option (\<lambda>b. word_of_nat (mem_nat (memcpy_reverse b))) (field_bytes (snd c) (sa_confRev (fst c)) 0 4)"

definition SVSubscriber_ASDU_getSmpMod :: "sv_call \<Rightarrow> u8 option" where
  "SVSubscriber_ASDU_getSmpMod c = map_option hd (field_bytes (snd c) (sa_smpMod (fst c)) 0 1)"

definition SVSubscriber_ASDU_getSmpRate :: "sv_call \<Rightarrow> u16 option" where
  "SVSubscriber_ASDU_getSmpRate c = map_option (\<lambda>b. word_of_nat (mem_nat (memcpy_reverse b))) (field_bytes (snd c) (sa_smpRate (fst c)) 0 2)"

text \<open>Samples; an integer of either signedness is its word, a float its memory.\<close>

definition sample_bytes :: "sv_call \<Rightarrow> nat \<Rightarrow> nat \<Rightarrow> bytes option" where
  "sample_bytes c index n = field_bytes (snd c) (sa_dataBuffer (fst c)) index n"

definition SVSubscriber_ASDU_getINT8 :: "sv_call \<Rightarrow> nat \<Rightarrow> u8 option" where
  "SVSubscriber_ASDU_getINT8 c index = map_option hd (sample_bytes c index 1)"

definition SVSubscriber_ASDU_getINT16 :: "sv_call \<Rightarrow> nat \<Rightarrow> u16 option" where
  "SVSubscriber_ASDU_getINT16 c index = map_option (\<lambda>b. word_of_nat (mem_nat (memcpy_reverse b))) (sample_bytes c index 2)"

definition SVSubscriber_ASDU_getINT32 :: "sv_call \<Rightarrow> nat \<Rightarrow> u32 option" where
  "SVSubscriber_ASDU_getINT32 c index = map_option (\<lambda>b. word_of_nat (mem_nat (memcpy_reverse b))) (sample_bytes c index 4)"

definition SVSubscriber_ASDU_getINT64 :: "sv_call \<Rightarrow> nat \<Rightarrow> u64 option" where
  "SVSubscriber_ASDU_getINT64 c index = map_option (\<lambda>b. word_of_nat (mem_nat (memcpy_reverse b))) (sample_bytes c index 8)"

definition SVSubscriber_ASDU_getINT8U :: "sv_call \<Rightarrow> nat \<Rightarrow> u8 option" where
  "SVSubscriber_ASDU_getINT8U c index = map_option hd (sample_bytes c index 1)"

definition SVSubscriber_ASDU_getINT16U :: "sv_call \<Rightarrow> nat \<Rightarrow> u16 option" where
  "SVSubscriber_ASDU_getINT16U c index = map_option (\<lambda>b. word_of_nat (mem_nat (memcpy_reverse b))) (sample_bytes c index 2)"

definition SVSubscriber_ASDU_getINT32U :: "sv_call \<Rightarrow> nat \<Rightarrow> u32 option" where
  "SVSubscriber_ASDU_getINT32U c index = map_option (\<lambda>b. word_of_nat (mem_nat (memcpy_reverse b))) (sample_bytes c index 4)"

definition SVSubscriber_ASDU_getINT64U :: "sv_call \<Rightarrow> nat \<Rightarrow> u64 option" where
  "SVSubscriber_ASDU_getINT64U c index = map_option (\<lambda>b. word_of_nat (mem_nat (memcpy_reverse b))) (sample_bytes c index 8)"

definition SVSubscriber_ASDU_getFLOAT32 :: "sv_call \<Rightarrow> nat \<Rightarrow> bytes option" where
  "SVSubscriber_ASDU_getFLOAT32 c index = map_option memcpy_reverse (sample_bytes c index 4)"

definition SVSubscriber_ASDU_getFLOAT64 :: "sv_call \<Rightarrow> nat \<Rightarrow> bytes option" where
  "SVSubscriber_ASDU_getFLOAT64 c index = map_option memcpy_reverse (sample_bytes c index 8)"

definition SVSubscriber_ASDU_getTimestamp :: "sv_call \<Rightarrow> nat \<Rightarrow> bytes option" where
  "SVSubscriber_ASDU_getTimestamp c index = sample_bytes c index 8"

definition SVSubscriber_ASDU_getQuality :: "sv_call \<Rightarrow> nat \<Rightarrow> u16 option" where
  "SVSubscriber_ASDU_getQuality c index =
     map_option (\<lambda>b. word_of_nat (unat (b ! 3)) + word_of_nat (unat (b ! 2) * 256)) (sample_bytes c index 4)"

definition SVSubscriber_ASDU_getDataSize :: "sv_call \<Rightarrow> nat" where
  "SVSubscriber_ASDU_getDataSize c = sa_dataBufferLength (fst c)"

subsection \<open>Safety\<close>

definition ptr_in :: "nat option \<Rightarrow> nat \<Rightarrow> nat \<Rightarrow> bool" where
  "ptr_in p n e \<longleftrightarrow> (case p of None \<Rightarrow> True | Some pos \<Rightarrow> pos + n \<le> e)"

definition sv_locals_ok :: "asdu_locals \<Rightarrow> nat \<Rightarrow> bool" where
  "sv_locals_ok l e \<longleftrightarrow> (case l of (a, n, d) \<Rightarrow>
     ptr_in (sa_svId a) n e \<and> ptr_in (sa_datSet a) d e \<and> ptr_in (sa_dataBuffer a) (sa_dataBufferLength a) e)"

lemma asdu_field_ok:
  "sv_locals_ok l e \<Longrightarrow> pos + n \<le> e \<Longrightarrow> sv_locals_ok (asdu_field tag pos n l) e"
  by (cases l) (simp add: sv_locals_ok_def asdu_field_def, simp add: ptr_in_def split: option.splits)

lemma decode_step:
  assumes "p < n" and "base + n \<le> length buf" and "n < 2 ^ 22"
  shows "\<exists>r. BerDecoder_decodeLength (drop base buf) (p + 1) n = Some r \<and> (\<forall>q k. r = LenOk q k \<longrightarrow> p < q \<and> q + k \<le> n)"
    "rd buf (base + p) = Some (buf ! (base + p))"
proof -
  obtain r where "BerDecoder_decodeLength (drop base buf) (p + 1) n = Some r"
    using ber.dec_total [of n "drop base buf" "p + 1"] assms by fastforce
  then show "\<exists>r. BerDecoder_decodeLength (drop base buf) (p + 1) n = Some r \<and> (\<forall>q k. r = LenOk q k \<longrightarrow> p < q \<and> q + k \<le> n)"
    using ber.dec_bounds by fastforce
qed (use assms in \<open>simp add: rd_def\<close>)

declare asdu_loop.simps [simp del] parseSequenceOfASDU.simps [simp del] sv_payload_loop.simps [simp del]

lemma asdu_loop_safe:
  assumes "base + n \<le> length buf" and "n < 2 ^ 22" and "sv_locals_ok l (base + n)"
  shows "\<exists>r. asdu_loop buf base p n l = Some r \<and> (\<forall>l'. r = Some l' \<longrightarrow> sv_locals_ok l' (base + n))"
  using assms
proof (induction buf base p n l rule: asdu_loop.induct)
  case (1 buf base p n l)
  show ?case
  proof (cases "p < n")
    case True
    note step = decode_step [OF True "1.prems"(1,2)]
    from step(1) obtain r where r: "BerDecoder_decodeLength (drop base buf) (p + 1) n = Some r"
      "\<forall>q k. r = LenOk q k \<longrightarrow> p < q \<and> q + k \<le> n" by blast
    show ?thesis
    proof (cases r)
      case LenErr
      with True step(2) r show ?thesis by (simp add: asdu_loop.simps [of buf base p])
    next
      case (LenOk q k)
      with r have "sv_locals_ok (asdu_field (buf ! (base + p)) (base + q) k l) (base + n)"
        using "1.prems"(3) by (intro asdu_field_ok) auto
      from "1.IH" [OF True step(2) r(1) LenOk "1.prems"(1,2) this] True step(2) r LenOk show ?thesis
        by (simp add: asdu_loop.simps [of buf base p])
    qed
  qed (use "1.prems" in \<open>auto simp: asdu_loop.simps [of buf base p]\<close>)
qed

text \<open>What a listener can rely on: the samples lie in the buffer, and the names end there.\<close>

definition call_ok :: "sv_call \<Rightarrow> bool" where
  "call_ok c \<longleftrightarrow> ptr_in (sa_dataBuffer (fst c)) (sa_dataBufferLength (fst c)) (length (snd c))
     \<and> string_at (snd c) (sa_svId (fst c)) \<noteq> None \<and> string_at (snd c) (sa_datSet (fst c)) \<noteq> None"

lemma end_name_safe:
  assumes "ptr_in name n e" and "e < length buf"
  shows "\<exists>buf'. end_name name n buf = Some buf' \<and> length buf' = length buf \<and> string_at buf' name \<noteq> None
    \<and> (\<forall>other. string_at buf other \<noteq> None \<longrightarrow> string_at buf' other \<noteq> None)"
proof (cases name)
  case (Some p)
  have zero: "0 \<in> set (drop q (buf[i := 0]))" if "0 \<in> set (drop q buf)" for q i
    using that by (cases "q \<le> i \<and> i < length buf") (auto simp: drop_update_swap drop_update_cancel set_update_memI not_le list_update_beyond)
  have "0 \<in> set (drop p (buf[p + n := 0]))"
    using assms Some by (simp add: ptr_in_def drop_update_swap set_update_memI)
  then show ?thesis using assms Some zero by (auto simp: end_name_def ptr_in_def string_at_def split: option.splits)
qed (simp add: end_name_def string_at_def)

lemma parseASDU_safe:
  assumes "base + n < length buf" and "n < 2 ^ 22"
  shows "\<exists>buf' cs. parseASDU s buf base n = Some (buf', cs) \<and> length buf' = length buf \<and> list_all call_ok cs"
proof -
  have "sv_locals_ok asdu_init (base + n)" by (simp add: sv_locals_ok_def asdu_init_def ptr_in_def)
  with asdu_loop_safe [of base n buf asdu_init 0] assms obtain r where
    r: "asdu_loop buf base 0 n asdu_init = Some r" "\<forall>l'. r = Some l' \<longrightarrow> sv_locals_ok l' (base + n)" by auto
  show ?thesis
  proof (cases r)
    case None
    with r(1) show ?thesis by (simp add: parseASDU_def)
  next
    case (Some l)
    obtain a i d where l: "l = (a, i, d)" by (cases l)
    with r(2) Some have ok: "ptr_in (sa_svId a) i (base + n)" "ptr_in (sa_datSet a) d (base + n)"
      "ptr_in (sa_dataBuffer a) (sa_dataBufferLength a) (base + n)" by (auto simp: sv_locals_ok_def)
    obtain b1 where b1: "end_name (sa_svId a) i buf = Some b1" "length b1 = length buf" "string_at b1 (sa_svId a) \<noteq> None"
      using end_name_safe [OF ok(1) assms(1)] by blast
    obtain b2 where b2: "end_name (sa_datSet a) d b1 = Some b2" "length b2 = length b1" "string_at b2 (sa_datSet a) \<noteq> None"
      "string_at b2 (sa_svId a) \<noteq> None"
      using end_name_safe [OF ok(2), of b1] assms(1) b1 by auto
    have "call_ok (a, b2)" using b1 b2 ok(3) assms(1) by (auto simp: call_ok_def ptr_in_def split: option.splits)
    with r(1) Some l b1 b2 show ?thesis by (simp add: parseASDU_def)
  qed
qed

lemma parseSequenceOfASDU_safe:
  assumes "base + n < length buf" and "n < 2 ^ 22"
  shows "\<exists>buf' cs. parseSequenceOfASDU s buf base p n = Some (buf', cs) \<and> length buf' = length buf \<and> list_all call_ok cs"
  using assms
proof (induction s buf base p n rule: parseSequenceOfASDU.induct)
  case (1 s buf base p n)
  show ?case
  proof (cases "p < n")
    case True
    note step = decode_step [OF True less_imp_le [OF "1.prems"(1)] "1.prems"(2)]
    from step(1) obtain r where r: "BerDecoder_decodeLength (drop base buf) (p + 1) n = Some r"
      "\<forall>q k. r = LenOk q k \<longrightarrow> p < q \<and> q + k \<le> n" by blast
    show ?thesis
    proof (cases r)
      case LenErr
      with True step(2) r show ?thesis by (simp add: parseSequenceOfASDU.simps [of s buf base p])
    next
      case (LenOk q k)
      let ?body = "if buf ! (base + p) = 0x30 then parseASDU s buf (base + q) k else Some (buf, [])"
      obtain b cs where b: "?body = Some (b, cs)" "length b = length buf" "list_all call_ok cs"
        using parseASDU_safe [of "base + q" k buf s] r LenOk "1.prems" by (cases "buf ! (base + p) = 0x30") auto
      from "1.IH" [OF True step(2) r(1) LenOk b(1) refl] b "1.prems" True step(2) r LenOk show ?thesis
        by (auto simp: parseSequenceOfASDU.simps [of s buf base p])
    qed
  qed (simp add: parseSequenceOfASDU.simps [of s buf base p])
qed

lemma sv_payload_loop_safe:
  assumes "base + n < length buf" and "n < 2 ^ 22"
  shows "\<exists>buf' cs. sv_payload_loop s buf base p n = Some (buf', cs) \<and> length buf' = length buf \<and> list_all call_ok cs"
  using assms
proof (induction s buf base p n rule: sv_payload_loop.induct)
  case (1 s buf base p n)
  show ?case
  proof (cases "p < n")
    case True
    note step = decode_step [OF True less_imp_le [OF "1.prems"(1)] "1.prems"(2)]
    from step(1) obtain r where r: "BerDecoder_decodeLength (drop base buf) (p + 1) n = Some r"
      "\<forall>q k. r = LenOk q k \<longrightarrow> p < q \<and> q + k \<le> n" by blast
    show ?thesis
    proof (cases r)
      case LenErr
      with True step(2) r show ?thesis by (simp add: sv_payload_loop.simps [of s buf base p])
    next
      case (LenOk q k)
      let ?body = "if buf ! (base + p) = 0xa2 then parseSequenceOfASDU s buf (base + q) 0 k else Some (buf, [])"
      obtain b cs where b: "?body = Some (b, cs)" "length b = length buf" "list_all call_ok cs"
        using parseSequenceOfASDU_safe [of "base + q" k buf s 0] r LenOk "1.prems" by (cases "buf ! (base + p) = 0xa2") auto
      from "1.IH" [OF True step(2) r(1) LenOk b(1) refl] b "1.prems" True step(2) r LenOk show ?thesis
        by (auto simp: sv_payload_loop.simps [of s buf base p])
    qed
  qed (simp add: sv_payload_loop.simps [of s buf base p])
qed

lemma parseSVPayload_safe:
  assumes "base + nat n < length buf" and "length buf < 2 ^ 22"
  shows "\<exists>buf' cs. parseSVPayload s buf base n = Some (buf', cs) \<and> length buf' = length buf \<and> list_all call_ok cs"
proof -
  obtain r where r: "BerDecoder_decodeLength (drop base buf) 1 (nat n) = Some r"
    using ber.dec_total [of "nat n" "drop base buf" 1] assms by fastforce
  have t: "rd buf base = Some (buf ! base)" using assms by (simp add: rd_def)
  show ?thesis
  proof (cases r)
    case LenErr
    with r t show ?thesis by (simp add: parseSVPayload_def)
  next
    case (LenOk q k)
    with r ber.dec_bounds have "q + k \<le> nat n" by fastforce
    with sv_payload_loop_safe [of base "q + k" buf s q] r t LenOk assms show ?thesis by (auto simp: parseSVPayload_def)
  qed
qed

lemma handleSVApdu_safe:
  assumes "apdu + nat n < length (sr_buffer self)" and "length (sr_buffer self) < 2 ^ 22"
  shows "\<exists>self' cs. handleSVApdu self app apdu n dst = Some (self', cs) \<and> length (sr_buffer self') = length (sr_buffer self) \<and> list_all call_ok cs
    \<and> self' = self\<lparr>sr_buffer := sr_buffer self'\<rparr>"
proof (cases "find (sv_matches self app dst) (sr_subscriberList self)")
  case (Some s)
  with parseSVPayload_safe [OF assms, of s] show ?thesis by (auto simp: handleSVApdu_def)
qed (simp add: handleSVApdu_def)

lemma parseSVMessage_total:
  assumes "numbytes < length (sr_buffer self)" and "27 \<le> length (sr_buffer self)" and "length (sr_buffer self) < 2 ^ 22"
  shows "\<exists>self' cs. parseSVMessage self numbytes = Some (self', cs) \<and> length (sr_buffer self') = length (sr_buffer self) \<and> list_all call_ok cs
    \<and> self' = self\<lparr>sr_buffer := sr_buffer self'\<rparr>"
proof (cases "numbytes < 22")
  case False
  let ?b = "sr_buffer self"
  have rd: "rd ?b i = Some (?b ! i)" if "i < 27" for i using that assms by (simp add: rd_def)
  have dst: "rdn ?b 0 6 = Some (take 6 ?b)" using assms by (simp add: rdn_def)
  let ?vlan = "?b ! 12 = 0x81 \<and> ?b ! 13 = 0"
  define p where "p = (if ?vlan then 16 else 12 :: nat)"
  define len where "len = unat (?b ! (p + 4)) * 256 + unat (?b ! (p + 5))"
  have p: "p = 16 \<or> p = 12" "(if ?vlan then 18 else 14 :: nat) = p + 2" by (auto simp: p_def)
  have eq: "parseSVMessage self numbytes =
      (if ?b ! p \<noteq> 0x88 \<or> ?b ! (p + 1) \<noteq> 0xba then Some (self, [])
       else if numbytes < len + (p + 2) then Some (self, [])
       else handleSVApdu self (word_of_nat (unat (?b ! (p + 2)) * 256 + unat (?b ! (p + 3)))) (p + 10) (int len - 8) (take 6 ?b))"
    using False p(1) unfolding parseSVMessage_def Let_def dst p_def [symmetric] len_def
    by (elim disjE) (simp_all add: rd p_def split: if_splits)
  show ?thesis
  proof (cases "?b ! p \<noteq> 0x88 \<or> ?b ! (p + 1) \<noteq> 0xba \<or> numbytes < len + (p + 2)")
    case True
    then show ?thesis by (auto simp: eq)
  next
    case c: False
    then have "p + 10 + nat (int len - 8) < length ?b" using assms(1,2) p by auto
    from handleSVApdu_safe [OF this assms(3)] c show ?thesis by (auto simp: eq)
  qed
qed (simp add: parseSVMessage_def)

subsection \<open>Elements of a message\<close>

fun walk :: "nat \<Rightarrow> (u8 \<times> bytes) list \<Rightarrow> asdu_locals \<Rightarrow> asdu_locals" where
  "walk q [] l = l"
| "walk q ((t, c) # fs) l =
     walk (q + length (ber_tlv t c)) fs (asdu_field t (q + 1 + length (ber_len (length c))) (length c) l)"

lemma element_step:
  assumes "drop (base + p) buf = ber_tlv t c @ r" and "length c < 65535" and "p + length (ber_tlv t c) \<le> n" and "n < 2 ^ 31"
  shows "rd buf (base + p) = Some t"
    "BerDecoder_decodeLength (drop base buf) (p + 1) n = Some (LenOk (p + 1 + length (ber_len (length c))) (length c))"
    "p + 1 + length (ber_len (length c)) + length c = p + length (ber_tlv t c)"
    "p < n"
proof -
  have d: "drop p (drop base buf) = ber_tlv t c @ r" using assms(1) by (simp add: add.commute)
  note t = tlv_parts [OF d assms(2-4)]
  show "BerDecoder_decodeLength (drop base buf) (p + 1) n = Some (LenOk (p + 1 + length (ber_len (length c))) (length c))" by (rule t(2))
  show "p + 1 + length (ber_len (length c)) + length c = p + length (ber_tlv t c)" using t(4) by simp
  show "p < n" using assms(3) by (simp add: ber_tlv_def)
  show "rd buf (base + p) = Some t" using assms(1) by (metis ber_tlv_def append_Cons length_drop length_greater_0_conv list.distinct(1) nth_via_drop rd_def zero_less_diff)
qed

lemma asdu_loop_fields:
  assumes "drop (base + p) buf = fields_bytes fs @ r" and "list_all (\<lambda>(t, c). length c < 65535) fs"
    and "n = p + length (fields_bytes fs)" and "n < 2 ^ 31"
  shows "asdu_loop buf base p n l = Some (Some (walk (base + p) fs l))"
  using assms
proof (induction fs arbitrary: p l)
  case Nil
  then show ?case by (simp add: asdu_loop.simps [of buf base p])
next
  case (Cons f fs)
  obtain t c where f: "f = (t, c)" by (cases f)
  have d: "drop (base + p) buf = ber_tlv t c @ fields_bytes fs @ r" using Cons.prems f by simp
  have le: "length c < 65535" "p + length (ber_tlv t c) \<le> n" using Cons.prems f by auto
  note step = element_step [OF d le Cons.prems(4)]
  have d': "drop (base + (p + length (ber_tlv t c))) buf = fields_bytes fs @ r" using drop_append [OF d] by (simp add: add.assoc)
  have "asdu_loop buf base p n l = asdu_loop buf base (p + length (ber_tlv t c)) n
      (asdu_field t (base + p + 1 + length (ber_len (length c))) (length c) l)"
    unfolding step(3) [symmetric] using step(1,2,4) by (simp add: asdu_loop.simps [of buf base p] add.assoc)
  with Cons.IH [OF d'] Cons.prems f show ?case by (simp add: add.assoc)
qed

text \<open>The pointer that an element sets, and what the elements behind it leave of it.\<close>

definition field_ptr :: "u8 \<Rightarrow> asdu_locals \<Rightarrow> nat option" where
  "field_ptr t l = (let a = fst l in
     if t = 0x80 then sa_svId a else if t = 0x81 then sa_datSet a else if t = 0x82 then sa_smpCnt a
     else if t = 0x83 then sa_confRev a else if t = 0x84 then sa_refrTm a else if t = 0x85 then sa_smpSynch a
     else if t = 0x86 then sa_smpRate a else if t = 0x87 then sa_dataBuffer a else if t = 0x88 then sa_smpMod a else None)"

definition sv_tags :: "u8 set" where
  "sv_tags = {0x80, 0x81, 0x82, 0x83, 0x84, 0x85, 0x86, 0x87, 0x88}"

lemma field_ptr_set: "t \<in> sv_tags \<Longrightarrow> field_ptr t (asdu_field t pos n l) = Some pos"
  by (cases l) (auto simp: sv_tags_def field_ptr_def asdu_field_def)

lemma field_ptr_other: "t \<noteq> t' \<Longrightarrow> field_ptr t (asdu_field t' pos n l) = field_ptr t l"
  by (cases l) (auto simp: field_ptr_def asdu_field_def Let_def)

lemma field_lengths:
  "fst (snd (asdu_field t pos n l)) = (if t = 0x80 then n else fst (snd l))"
  "snd (snd (asdu_field t pos n l)) = (if t = 0x81 then n else snd (snd l))"
  "sa_dataBufferLength (fst (asdu_field t pos n l)) = (if t = 0x87 then n else sa_dataBufferLength (fst l))"
  by (cases l; simp add: asdu_field_def)+

lemma walk_other: "t \<notin> fst ` set fs \<Longrightarrow> field_ptr t (walk q fs l) = field_ptr t l"
  by (induction q fs l rule: walk.induct) (simp_all add: field_ptr_other)

lemma walk_append: "walk q (pre @ fs) l = walk (q + length (fields_bytes pre)) fs (walk q pre l)"
  by (induction q pre l rule: walk.induct) (simp_all add: add.assoc)

lemma walk_at:
  "t \<in> sv_tags \<Longrightarrow> t \<notin> fst ` set post \<Longrightarrow>
    field_ptr t (walk q (pre @ (t, c) # post) l) = Some (q + length (fields_bytes pre) + 1 + length (ber_len (length c)))"
  by (simp add: walk_append walk_other field_ptr_set)

lemma walk_lengths:
  "0x80 \<notin> fst ` set fs \<Longrightarrow> fst (snd (walk q fs l)) = fst (snd l)"
  "0x81 \<notin> fst ` set fs \<Longrightarrow> snd (snd (walk q fs l)) = snd (snd l)"
  "0x87 \<notin> fst ` set fs \<Longrightarrow> sa_dataBufferLength (fst (walk q fs l)) = sa_dataBufferLength (fst l)"
  by (induction q fs l rule: walk.induct) (simp_all add: field_lengths)

subsection \<open>An ASDU from publisher to subscriber\<close>

definition datset_field :: "SVPublisher_ASDU \<Rightarrow> (u8 \<times> bytes) list" where
  "datset_field a = (case as_datset a of None \<Rightarrow> [] | Some d \<Rightarrow> [(0x81, d)])"

definition asdu_rest :: "SVPublisher_ASDU \<Rightarrow> asdu_mem \<Rightarrow> (u8 \<times> bytes) list" where
  "asdu_rest a m =
     [(0x82, rev (mem16 (as_smpCnt a))), (0x83, rev (mem32 (as_confRev a)))]
     @ (if as_hasRefrTm a then [(0x84, fst m)] else []) @ [(0x85, [as_smpSynch a])]
     @ (if as_hasSmpRate a then [(0x86, rev (mem16 (as_smpRate a)))] else []) @ [(0x87, snd m)]
     @ (if as_hasSmpMod a then [(0x88, rev (mem16 (ucast (as_smpMod a))))] else [])
     @ (if as_hasGmIdentity a then [(0x89, take 8 (as_gmIdentity a))] else [])"

definition asdu_fields :: "SVPublisher_ASDU \<Rightarrow> asdu_mem \<Rightarrow> (u8 \<times> bytes) list" where
  "asdu_fields a m = (0x80, as_svID a) # datset_field a @ asdu_rest a m"

lemma asdu_content_fields: "asdu_content a m = fields_bytes (asdu_fields a m)"
  by (simp add: asdu_content_def asdu_names_def datset_bytes_def asdu_fields_def datset_field_def asdu_rest_def opt_def split: option.splits)

lemma asdu_fields_short:
  assumes "asdu_ok a" and "mem_ok a m"
  shows "list_all (\<lambda>(t, c). length c < 65535) (asdu_fields a m)"
proof -
  have "length (as_svID a) < 65535" "\<And>d. as_datset a = Some d \<Longrightarrow> length d < 65535" "as_dataSize a < 65535"
    using assms(1) by (auto simp: asdu_ok_def SVPublisher_ASDU_getEncodedSize_def)
  with assms(2) show ?thesis by (auto simp: asdu_fields_def datset_field_def asdu_rest_def mem_ok_def split: option.splits)
qed

lemma asdu_tags_distinct: "distinct (map fst (asdu_fields a m))"
  by (simp add: asdu_fields_def datset_field_def asdu_rest_def split: option.splits)

text \<open>The offset of the contents of an element, and the buffer with the tags behind the names cleared.\<close>

definition content_pos :: "nat \<Rightarrow> (u8 \<times> bytes) list \<Rightarrow> bytes \<Rightarrow> nat" where
  "content_pos q pre c = q + length (fields_bytes pre) + 1 + length (ber_len (length c))"

lemma rdn_update_other: "i < pos \<or> pos + n \<le> i \<Longrightarrow> rdn (buf[i := v]) pos n = rdn buf pos n"
  by (auto simp: rdn_def take_drop drop_update_cancel take_update_swap take_update_cancel list_update_beyond)

lemma content_read:
  assumes "drop q buf = fields_bytes (pre @ (t, c) # post) @ r"
  shows "rdn buf (content_pos q pre c) (length c) = Some c"
proof -
  have d: "drop (content_pos q pre c) buf = c @ fields_bytes post @ r"
    unfolding content_pos_def by (rule item_content [OF assms])
  show ?thesis
  proof (cases "c = []")
    case True
    have "length buf - q = length (fields_bytes (pre @ (t, c) # post)) + length r" using arg_cong [OF assms, of length] by simp
    then show ?thesis using True by (simp add: rdn_def content_pos_def ber_tlv_def)
  next
    case False
    then have "content_pos q pre c + length c \<le> length buf" using arg_cong [OF d, of length] by (simp flip: length_greater_0_conv)
    then show ?thesis using d by (simp add: rdn_def)
  qed
qed

text \<open>A NUL in the place of a tag leaves the contents of all elements.\<close>

lemma content_read_nul:
  assumes "rdn buf (content_pos q pre c) (length c) = Some c" and "pre @ (t, c) # post = pre' @ post'"
  shows "rdn (buf[q + length (fields_bytes pre') := 0]) (content_pos q pre c) (length c) = Some c"
proof -
  from assms(2) consider k where "pre = pre' @ k" | k where "pre' = pre @ (t, c) # k"
    by (auto simp: append_eq_append_conv2 append_eq_Cons_conv Cons_eq_append_conv)
  then have "q + length (fields_bytes pre') < content_pos q pre c \<or> content_pos q pre c + length c \<le> q + length (fields_bytes pre')"
    by cases (simp_all add: content_pos_def ber_tlv_def)
  then show ?thesis using assms(1) by (simp add: rdn_update_other)
qed

definition sv_received :: "sv_call \<Rightarrow> SVPublisher_ASDU \<Rightarrow> asdu_mem \<Rightarrow> bool" where
  "sv_received c a m \<longleftrightarrow>
     SVSubscriber_ASDU_getSvId c = Some (Some (as_svID a)) \<and> SVSubscriber_ASDU_getDatSet c = Some (as_datset a)
     \<and> SVSubscriber_ASDU_getSmpCnt c = Some (as_smpCnt a) \<and> SVSubscriber_ASDU_getConfRev c = Some (as_confRev a)
     \<and> SVSubscriber_ASDU_getSmpSynch c = Some (as_smpSynch a)
     \<and> SVSubscriber_ASDU_hasRefrTm c = as_hasRefrTm a \<and> (as_hasRefrTm a \<longrightarrow> field_bytes (snd c) (sa_refrTm (fst c)) 0 8 = Some (fst m))
     \<and> SVSubscriber_ASDU_hasSmpRate c = as_hasSmpRate a \<and> (as_hasSmpRate a \<longrightarrow> SVSubscriber_ASDU_getSmpRate c = Some (as_smpRate a))
     \<and> SVSubscriber_ASDU_hasSmpMod c = as_hasSmpMod a \<and> (as_hasSmpMod a \<longrightarrow> SVSubscriber_ASDU_getSmpMod c = Some 0)
     \<and> SVSubscriber_ASDU_getDataSize c = as_dataSize a \<and> sample_bytes c 0 (as_dataSize a) = Some (snd m)"

lemma field_bytes_part:
  "field_bytes buf p 0 n = Some xs \<Longrightarrow> i + k \<le> n \<Longrightarrow> field_bytes buf p i k = Some (take k (drop i xs))"
  by (auto simp: field_bytes_def rdn_def take_drop min_def ac_simps split: option.splits if_splits)

lemma string_at_content:
  assumes "rdn buf pos (length s) = Some s" and "rd buf (pos + length s) = Some 0" and "0 \<notin> set s"
  shows "string_at buf (Some pos) = Some (Some s)"
proof -
  have b: "pos + length s < length buf" "buf ! (pos + length s) = 0" using assms(2) by (auto simp: rd_def split: if_splits)
  have "drop pos buf = s @ drop (pos + length s) buf"
    using assms(1) b by (auto simp: rdn_def) (metis add.commute append_take_drop_id drop_drop)
  also have "drop (pos + length s) buf = 0 # drop (Suc (pos + length s)) buf" using b by (simp flip: Cons_nth_drop_Suc)
  finally have "drop pos buf = s @ 0 # drop (Suc (pos + length s)) buf" .
  then show ?thesis using assms(3) by (auto simp: string_at_def takeWhile_append)
qed

text \<open>The buffer after the parser has ended the names.\<close>

definition nul_prefixes :: "SVPublisher_ASDU \<Rightarrow> (u8 \<times> bytes) list list" where
  "nul_prefixes a = [(0x80, as_svID a)] # (case as_datset a of None \<Rightarrow> [] | Some d \<Rightarrow> [[(0x80, as_svID a), (0x81, d)]])"

definition with_nuls :: "nat \<Rightarrow> SVPublisher_ASDU \<Rightarrow> bytes \<Rightarrow> bytes" where
  "with_nuls base a buf = fold (\<lambda>pre b. b[base + length (fields_bytes pre) := 0]) (nul_prefixes a) buf"

lemma nul_prefix: "pre \<in> set (nul_prefixes a) \<Longrightarrow> \<exists>post. asdu_fields a m = pre @ post \<and> post \<noteq> []"
  by (auto simp: nul_prefixes_def asdu_fields_def datset_field_def asdu_rest_def split: option.splits)

lemma nul_inside:
  assumes "pre \<in> set (nul_prefixes a)"
  shows "length (fields_bytes pre) < length (fields_bytes (asdu_fields a m))"
proof -
  obtain post where "asdu_fields a m = pre @ post" "post \<noteq> []" using nul_prefix [OF assms] by blast
  then show ?thesis by (cases post) (auto simp: ber_tlv_def)
qed

lemma nul_in_buffer:
  assumes "drop base buf = fields_bytes (asdu_fields a m) @ r" and "pre \<in> set (nul_prefixes a)"
  shows "base + length (fields_bytes pre) < length buf"
  using arg_cong [OF assms(1), of length] nul_inside [OF assms(2), of m] by simp

lemma length_with_nuls [simp]: "length (with_nuls base a buf) = length buf"
  by (simp add: with_nuls_def nul_prefixes_def split: option.split)

lemma with_nuls_content:
  assumes "drop base buf = fields_bytes (asdu_fields a m) @ r" and "asdu_fields a m = pre @ (t, c) # post"
  shows "rdn (with_nuls base a buf) (content_pos base pre c) (length c) = Some c"
proof -
  have step: "rdn (b[base + length (fields_bytes pre') := 0]) (content_pos base pre c) (length c) = Some c"
    if "rdn b (content_pos base pre c) (length c) = Some c" "pre' \<in> set (nul_prefixes a)" for b pre'
    using that(1) nul_prefix [OF that(2), of m] assms(2) content_read_nul [of b base pre c t post pre'] by auto
  have "rdn buf (content_pos base pre c) (length c) = Some c"
    using content_read [of base buf pre t c post r] assms by simp
  moreover have "rdn (fold (\<lambda>pre b. b[base + length (fields_bytes pre) := 0]) ps b) (content_pos base pre c) (length c) = Some c"
    if "set ps \<subseteq> set (nul_prefixes a)" "rdn b (content_pos base pre c) (length c) = Some c" for ps b
    using that by (induction ps arbitrary: b) (simp_all add: step)
  ultimately show ?thesis by (simp add: with_nuls_def)
qed

lemma field_holds:
  assumes "drop base buf = fields_bytes (asdu_fields a m) @ r" and "(t, c) \<in> set (asdu_fields a m)" and "t \<in> sv_tags"
  shows "\<exists>pos. field_ptr t (walk base (asdu_fields a m) asdu_init) = Some pos \<and> rdn (with_nuls base a buf) pos (length c) = Some c"
proof -
  from assms(2) obtain pre post where s: "asdu_fields a m = pre @ (t, c) # post" by (meson split_list)
  then have "t \<notin> fst ` set post" using asdu_tags_distinct [of a m] by simp
  from walk_at [OF assms(3) this, of base pre c asdu_init] with_nuls_content [OF assms(1) s] show ?thesis
    by (simp add: s content_pos_def)
qed

lemma field_missing: "t \<notin> fst ` set (asdu_fields a m) \<Longrightarrow> field_ptr t (walk base (asdu_fields a m) asdu_init) = None"
  by (simp add: walk_other) (simp add: field_ptr_def asdu_init_def Let_def)

lemma rest_tags: "fst ` set (asdu_rest a m) \<subseteq> {0x82, 0x83, 0x84, 0x85, 0x86, 0x87, 0x88, 0x89}"
  by (auto simp: asdu_rest_def)

lemma walk_fields:
  fixes base :: nat
  assumes "mem_ok a m"
  defines "l \<equiv> walk base (asdu_fields a m) asdu_init"
  shows "sa_svId (fst l) = Some (content_pos base [] (as_svID a))" "fst (snd l) = length (as_svID a)"
    "sa_datSet (fst l) = map_option (content_pos base [(0x80, as_svID a)]) (as_datset a)"
    "\<And>d. as_datset a = Some d \<Longrightarrow> snd (snd l) = length d" "sa_dataBufferLength (fst l) = as_dataSize a"
proof -
  have tags: "0x80 \<notin> fst ` set (datset_field a @ asdu_rest a m)" "0x81 \<notin> fst ` set (asdu_rest a m)"
    using rest_tags [of a m] by (auto simp: datset_field_def split: option.splits)
  show "sa_svId (fst l) = Some (content_pos base [] (as_svID a))"
    using walk_at [of "0x80" "datset_field a @ asdu_rest a m" base "[]" "as_svID a" asdu_init] tags(1)
    by (simp add: l_def asdu_fields_def content_pos_def sv_tags_def field_ptr_def)
  show "fst (snd l) = length (as_svID a)"
    using tags(1) by (simp add: l_def asdu_fields_def walk_lengths field_lengths)
  show "sa_datSet (fst l) = map_option (content_pos base [(0x80, as_svID a)]) (as_datset a)"
  proof (cases "as_datset a")
    case None
    then have "0x81 \<notin> fst ` set (asdu_fields a m)" using tags(2) by (simp add: asdu_fields_def datset_field_def)
    from field_missing [OF this] None show ?thesis by (simp add: l_def field_ptr_def)
  next
    case (Some d)
    then show ?thesis
      using walk_at [of "0x81" "asdu_rest a m" base "[(0x80, as_svID a)]" d asdu_init] tags(2)
      by (simp add: l_def asdu_fields_def datset_field_def content_pos_def sv_tags_def field_ptr_def)
  qed
  show "snd (snd l) = length d" if "as_datset a = Some d" for d
    using that tags(2) by (simp add: l_def asdu_fields_def datset_field_def walk_lengths field_lengths)
  obtain pre post where s: "asdu_fields a m = pre @ (0x87, snd m) # post"
    by (rule split_list [of "(0x87, snd m)" "asdu_fields a m", THEN exE]) (auto simp: asdu_fields_def asdu_rest_def)
  then have "0x87 \<notin> fst ` set post" using asdu_tags_distinct [of a m] by simp
  then show "sa_dataBufferLength (fst l) = as_dataSize a"
    using assms(1) by (simp add: l_def s walk_append walk_lengths field_lengths mem_ok_def)
qed

lemma end_names:
  assumes "mem_ok a m" and "drop base buf = fields_bytes (asdu_fields a m) @ r"
  defines "l \<equiv> walk base (asdu_fields a m) asdu_init"
  shows "end_name (sa_svId (fst l)) (fst (snd l)) buf \<bind> end_name (sa_datSet (fst l)) (snd (snd l)) = Some (with_nuls base a buf)"
proof -
  note w = walk_fields [OF assms(1), where base = base, folded l_def]
  have p1: "content_pos base [] (as_svID a) + length (as_svID a) = base + length (fields_bytes [(0x80, as_svID a)])"
    "content_pos base [(0x80, as_svID a)] d + length d = base + length (fields_bytes [(0x80, as_svID a), (0x81, d)])" for d
    by (simp_all add: content_pos_def ber_tlv_def)
  have i1: "base + length (fields_bytes [(0x80, as_svID a)]) < length buf" by (rule nul_in_buffer [OF assms(2)]) (simp add: nul_prefixes_def)
  show ?thesis
  proof (cases "as_datset a")
    case None
    with w i1 show ?thesis by (simp add: end_name_def with_nuls_def nul_prefixes_def p1 del: fields_bytes_simps)
  next
    case (Some d)
    then have "base + length (fields_bytes [(0x80, as_svID a), (0x81, d)]) < length buf" by (intro nul_in_buffer [OF assms(2)]) (simp add: nul_prefixes_def)
    with Some w w(4) [OF Some] i1 show ?thesis by (simp add: end_name_def with_nuls_def nul_prefixes_def p1 del: fields_bytes_simps)
  qed
qed

lemma with_nuls_zero:
  assumes "drop base buf = fields_bytes (asdu_fields a m) @ r" and "pre \<in> set (nul_prefixes a)"
  shows "rd (with_nuls base a buf) (base + length (fields_bytes pre)) = Some 0"
  using assms(2) nul_in_buffer [OF assms]
  by (auto simp: with_nuls_def nul_prefixes_def rd_def ber_tlv_def nth_list_update_neq split: option.splits)

lemma with_nuls_names:
  assumes "drop base buf = fields_bytes (asdu_fields a m) @ r" and "0 \<notin> set (as_svID a)" and "\<forall>d. as_datset a = Some d \<longrightarrow> 0 \<notin> set d"
  shows "string_at (with_nuls base a buf) (Some (content_pos base [] (as_svID a))) = Some (Some (as_svID a))"
    "string_at (with_nuls base a buf) (map_option (content_pos base [(0x80, as_svID a)]) (as_datset a)) = Some (as_datset a)"
proof -
  let ?b = "with_nuls base a buf"
  have "rd ?b (content_pos base [] (as_svID a) + length (as_svID a)) = Some 0"
    using with_nuls_zero [OF assms(1), of "[(0x80, as_svID a)]"] by (simp add: nul_prefixes_def content_pos_def ber_tlv_def add.assoc)
  moreover have "rdn ?b (content_pos base [] (as_svID a)) (length (as_svID a)) = Some (as_svID a)"
    by (rule with_nuls_content [OF assms(1), of "[]" "0x80"]) (simp add: asdu_fields_def)
  ultimately show "string_at ?b (Some (content_pos base [] (as_svID a))) = Some (Some (as_svID a))"
    using assms(2) by (intro string_at_content)
  show "string_at ?b (map_option (content_pos base [(0x80, as_svID a)]) (as_datset a)) = Some (as_datset a)"
  proof (cases "as_datset a")
    case (Some d)
    have "rd ?b (content_pos base [(0x80, as_svID a)] d + length d) = Some 0"
      using with_nuls_zero [OF assms(1), of "[(0x80, as_svID a), (0x81, d)]"] Some
      by (simp add: nul_prefixes_def content_pos_def ber_tlv_def add.assoc)
    moreover have "rdn ?b (content_pos base [(0x80, as_svID a)] d) (length d) = Some d"
      by (rule with_nuls_content [OF assms(1), of "[(0x80, as_svID a)]" "0x81"]) (simp add: asdu_fields_def datset_field_def Some)
    ultimately show ?thesis using assms(3) Some by (simp add: string_at_content)
  qed (simp add: string_at_def)
qed

lemma with_nuls_behind:
  assumes "drop base buf = fields_bytes (asdu_fields a m) @ r"
  shows "drop (base + length (fields_bytes (asdu_fields a m))) (with_nuls base a buf) = r"
proof -
  have "drop (base + length (fields_bytes (asdu_fields a m))) (fold (\<lambda>pre b. b[base + length (fields_bytes pre) := 0]) ps b) =
      drop (base + length (fields_bytes (asdu_fields a m))) b" if "set ps \<subseteq> set (nul_prefixes a)" for ps b
    using that by (induction ps arbitrary: b) (simp_all add: nul_inside drop_update_cancel)
  from this [OF subset_refl, of buf] show ?thesis using drop_append [OF assms] by (simp add: with_nuls_def)
qed

lemma walk_received:
  assumes "mem_ok a m" and d: "drop base buf = fields_bytes (asdu_fields a m) @ r"
    and "0 \<notin> set (as_svID a)" and "\<forall>d. as_datset a = Some d \<longrightarrow> 0 \<notin> set d"
  shows "sv_received (fst (walk base (asdu_fields a m) asdu_init), with_nuls base a buf) a m"
proof -
  let ?l = "walk base (asdu_fields a m) asdu_init" and ?b = "with_nuls base a buf"
  note w = walk_fields [OF assms(1), where base = base]
  note names = with_nuls_names [OF d assms(3,4)]
  have get: "field_bytes ?b (field_ptr t ?l) 0 (length c) = Some c" "field_ptr t ?l \<noteq> None"
    if "(t, c) \<in> set (asdu_fields a m)" "t \<in> sv_tags" for t c
    using field_holds [OF d that] by (auto simp: field_bytes_def)
  have rest: "x \<in> set (asdu_rest a m) \<Longrightarrow> x \<in> set (asdu_fields a m)" for x by (simp add: asdu_fields_def)
  have cnt: "field_bytes ?b (sa_smpCnt (fst ?l)) 0 2 = Some (rev (mem16 (as_smpCnt a)))"
    using get(1) [OF rest, of "0x82" "rev (mem16 (as_smpCnt a))"] by (simp add: sv_tags_def asdu_rest_def field_ptr_def)
  have rev: "field_bytes ?b (sa_confRev (fst ?l)) 0 4 = Some (rev (mem32 (as_confRev a)))"
    using get(1) [OF rest, of "0x83" "rev (mem32 (as_confRev a))"] by (simp add: sv_tags_def asdu_rest_def field_ptr_def)
  have syn: "field_bytes ?b (sa_smpSynch (fst ?l)) 0 1 = Some [as_smpSynch a]"
    using get(1) [OF rest, of "0x85" "[as_smpSynch a]"] by (simp add: sv_tags_def asdu_rest_def field_ptr_def)
  have data: "field_bytes ?b (sa_dataBuffer (fst ?l)) 0 (as_dataSize a) = Some (snd m)"
    using get(1) [OF rest, of "0x87" "snd m"] assms(1) by (simp add: sv_tags_def asdu_rest_def field_ptr_def mem_ok_def)
  have opt: "(sa_refrTm (fst ?l) \<noteq> None) = as_hasRefrTm a" "(sa_smpRate (fst ?l) \<noteq> None) = as_hasSmpRate a"
    "(sa_smpMod (fst ?l) \<noteq> None) = as_hasSmpMod a"
    using get(2) [OF rest, of "0x84" "fst m"] field_missing [of "0x84" a m base] get(2) [OF rest, of "0x86" "rev (mem16 (as_smpRate a))"]
      field_missing [of "0x86" a m base] get(2) [OF rest, of "0x88" "rev (mem16 (ucast (as_smpMod a)))"] field_missing [of "0x88" a m base]
    by (auto simp: sv_tags_def asdu_rest_def field_ptr_def asdu_fields_def datset_field_def split: option.splits if_splits)
  have time: "field_bytes ?b (sa_refrTm (fst ?l)) 0 8 = Some (fst m)" if "as_hasRefrTm a"
    using get(1) [OF rest, of "0x84" "fst m"] assms(1) that by (simp add: sv_tags_def asdu_rest_def field_ptr_def mem_ok_def)
  have rate: "field_bytes ?b (sa_smpRate (fst ?l)) 0 2 = Some (rev (mem16 (as_smpRate a)))" if "as_hasSmpRate a"
    using get(1) [OF rest, of "0x86" "rev (mem16 (as_smpRate a))"] that by (simp add: sv_tags_def asdu_rest_def field_ptr_def)
  have mode: "field_bytes ?b (sa_smpMod (fst ?l)) 0 2 = Some (rev (mem16 (ucast (as_smpMod a))))" if "as_hasSmpMod a"
    using get(1) [OF rest, of "0x88" "rev (mem16 (ucast (as_smpMod a)))"] that by (simp add: sv_tags_def asdu_rest_def field_ptr_def)
  have w16: "word_of_nat (be_nat (rev (mem16 v))) = v" "word_of_nat (mem_nat (mem16 v)) = v" for v
    by (simp_all add: be_nat_be16 mem_nat_def)
  have w32: "word_of_nat (mem_nat (mem32 v)) = v" for v by (simp add: be_nat_mem32 mem_nat_def)
  have high: "hd (rev (mem16 (ucast v))) = 0" for v :: u8
  proof -
    have b: "unat v < 256" using unsigned_less [of v, where 'a = nat] by simp
    then have "unat v mod 65536 = unat v" by (intro mod_less) linarith
    then have small: "unat v mod 65536 div 256 = 0" using div_less [OF b] by (simp only:)
    show ?thesis
      by (simp add: mem16_def) (simp add: small word_unat_eq_iff unsigned_ucast_eq unsigned_drop_bit_eq drop_bit_eq_div take_bit_eq_mod unat_div)
  qed
  have one: "field_bytes ?b (sa_smpMod (fst ?l)) 0 1 = Some [hd (rev (mem16 (ucast (as_smpMod a))))]" if "as_hasSmpMod a"
    using field_bytes_part [OF mode [OF that], of 0 1] by (simp add: mem16_def)
  show ?thesis
    unfolding sv_received_def SVSubscriber_ASDU_getSvId_def SVSubscriber_ASDU_getDatSet_def SVSubscriber_ASDU_getSmpCnt_def
      SVSubscriber_ASDU_getConfRev_def SVSubscriber_ASDU_getSmpSynch_def SVSubscriber_ASDU_hasRefrTm_def SVSubscriber_ASDU_hasSmpRate_def
      SVSubscriber_ASDU_getSmpRate_def SVSubscriber_ASDU_hasSmpMod_def SVSubscriber_ASDU_getSmpMod_def SVSubscriber_ASDU_getDataSize_def
      sample_bytes_def fst_conv snd_conv w names cnt rev syn data opt memcpy_reverse_def
    using one by (auto simp: time rate high w16 w32)
qed

lemma asdu_delivered:
  assumes "asdu_ok a" and "mem_ok a m" and "drop base buf = asdu_content a m @ r" and "ss_listener s"
    and "0 \<notin> set (as_svID a)" and "\<forall>d. as_datset a = Some d \<longrightarrow> 0 \<notin> set d"
  shows "\<exists>x buf'. parseASDU s buf base (length (asdu_content a m)) = Some (buf', [(x, buf')]) \<and> sv_received (x, buf') a m
    \<and> length buf' = length buf \<and> drop (base + length (asdu_content a m)) buf' = r"
proof -
  let ?l = "walk base (asdu_fields a m) asdu_init"
  have d: "drop base buf = fields_bytes (asdu_fields a m) @ r" using assms(3) by (simp add: asdu_content_fields)
  have n: "length (asdu_content a m) < 2 ^ 31" using assms(1) length_asdu_content [OF assms(1,2)] by (simp add: asdu_ok_def)
  have loop: "asdu_loop buf base 0 (length (asdu_content a m)) asdu_init = Some (Some ?l)"
    using asdu_loop_fields [of base 0 buf "asdu_fields a m" r "length (asdu_content a m)" asdu_init] d asdu_fields_short [OF assms(1,2)] n
    by (simp add: asdu_content_fields)
  note names = end_names [OF assms(2) d]
  have "parseASDU s buf base (length (asdu_content a m)) = Some (with_nuls base a buf, [(fst ?l, with_nuls base a buf)])"
    using names assms(4) by (cases ?l) (auto simp: parseASDU_def loop split: bind_splits)
  with walk_received [OF assms(2) d assms(5,6)] with_nuls_behind [OF d] show ?thesis
    by (intro exI [of _ "fst ?l"] exI [of _ "with_nuls base a buf"]) (simp add: asdu_content_fields)
qed

definition asdu_names_ok :: "SVPublisher_ASDU \<Rightarrow> bool" where
  "asdu_names_ok a \<longleftrightarrow> 0 \<notin> set (as_svID a) \<and> (\<forall>d. as_datset a = Some d \<longrightarrow> 0 \<notin> set d)"

lemma asdus_delivered:
  assumes "list_all asdu_ok as" and "list_all2 mem_ok as ms" and "list_all asdu_names_ok as" and "ss_listener s"
    and "drop (base + p) buf = asdus_bytes as ms @ r" and "n = p + length (asdus_bytes as ms)" and "n < 2 ^ 31"
  shows "\<exists>cs buf'. parseSequenceOfASDU s buf base p n = Some (buf', cs) \<and> list_all2 (\<lambda>c (a, m). sv_received c a m) cs (zip as ms)
    \<and> length buf' = length buf \<and> drop (base + n) buf' = r"
  using assms
proof (induction as arbitrary: ms p buf)
  case Nil
  then show ?case by (simp add: parseSequenceOfASDU.simps [of s buf base p] asdus_bytes_def)
next
  case (Cons a as)
  then obtain m ms' where ms: "ms = m # ms'" "mem_ok a m" "list_all2 mem_ok as ms'" by (auto simp: list_all2_Cons1)
  let ?c = "asdu_content a m"
  have ok: "asdu_ok a" "0 \<notin> set (as_svID a)" "\<forall>d. as_datset a = Some d \<longrightarrow> 0 \<notin> set d"
    using Cons.prems by (auto simp: asdu_names_ok_def)
  have d: "drop (base + p) buf = ber_tlv 0x30 ?c @ asdus_bytes as ms' @ r"
    using Cons.prems(5) ms(1) by (simp add: asdus_bytes_def asdu_bytes_def)
  have le: "length ?c < 65535" "p + length (ber_tlv 0x30 ?c) \<le> n" "n = p + length (ber_tlv 0x30 ?c) + length (asdus_bytes as ms')"
    using length_asdu_content [OF ok(1) ms(2)] ok(1) Cons.prems(6) ms(1) by (simp_all add: asdus_bytes_def asdu_bytes_def asdu_ok_def)
  note step = element_step [OF d le(1,2) Cons.prems(7)]
  let ?q = "p + 1 + length (ber_len (length ?c))"
  have "drop (base + ?q) buf = ?c @ asdus_bytes as ms' @ r"
    using item_content [of "base + p" buf "[]" "0x30" ?c "[]" "asdus_bytes as ms' @ r"] d by (simp add: add.assoc)
  from asdu_delivered [OF ok(1) ms(2) this Cons.prems(4) ok(2,3)] obtain x b where x:
    "parseASDU s buf (base + ?q) (length ?c) = Some (b, [(x, b)])" "sv_received (x, b) a m" "length b = length buf"
    "drop (base + ?q + length ?c) b = asdus_bytes as ms' @ r" by blast
  have "drop (base + (p + length (ber_tlv 0x30 ?c))) b = asdus_bytes as ms' @ r"
    using x(4) unfolding step(3) [symmetric] by (simp add: add.assoc)
  from Cons.IH [OF _ ms(3) _ Cons.prems(4) this le(3) Cons.prems(7)] Cons.prems obtain cs b' where cs:
    "parseSequenceOfASDU s b base (p + length (ber_tlv 0x30 ?c)) n = Some (b', cs)" "list_all2 (\<lambda>c (a, m). sv_received c a m) cs (zip as ms')"
    "length b' = length b" "drop (base + n) b' = r" by auto
  have "parseSequenceOfASDU s buf base p n = Some (b', (x, b) # cs)"
    using step(1,2,4) x(1) cs(1) unfolding step(3) [symmetric] by (simp add: parseSequenceOfASDU.simps [of s buf base p])
  with x cs ms(1) show ?case by auto
qed

subsection \<open>Frames\<close>

lemma payload_skip:
  assumes "drop (base + p) buf = ber_tlv t c @ r" and "length c < 65535" and "p + length (ber_tlv t c) \<le> e" and "e < 2 ^ 31" and "t \<noteq> 0xa2"
  shows "sv_payload_loop s buf base p e = sv_payload_loop s buf base (p + length (ber_tlv t c)) e"
  using element_step [OF assms(1-4)] assms(5) unfolding element_step(3) [OF assms(1-4), symmetric]
  by (simp add: sv_payload_loop.simps [of s buf base p] case_prod_beta)

lemma payload_sequence:
  assumes "drop (base + p) buf = ber_tlv 0xa2 c @ r" and "length c < 65535" and "e = p + length (ber_tlv 0xa2 c)" and "e < 2 ^ 31"
    and "parseSequenceOfASDU s buf (base + (p + 1 + length (ber_len (length c)))) 0 (length c) = Some (b, cs)"
  shows "sv_payload_loop s buf base p e = Some (b, cs)"
proof -
  note step = element_step [OF assms(1,2) eq_refl [OF assms(3) [symmetric]] assms(4)]
  have "sv_payload_loop s b base e e = Some (b, [])" by (simp add: sv_payload_loop.simps [of s b base e])
  then show ?thesis using step(1,2,4) assms(5) unfolding assms(3) step(3) [symmetric]
    by (simp add: sv_payload_loop.simps [of s buf base p])
qed

lemma payload_enter:
  assumes "drop base buf = ber_tlv 0x60 c @ r" and "length c < 65535" and "n = length (ber_tlv 0x60 c)"
  shows "parseSVPayload s buf base (int n) = sv_payload_loop s buf base (1 + length (ber_len (length c))) n"
proof -
  have "drop (base + 0) buf = ber_tlv 0x60 c @ r" "0 + length (ber_tlv 0x60 c) \<le> n" "n < 2 ^ 31"
    using assms by (simp_all add: ber_tlv_def length_ber_len)
  from element_step [OF this(1) assms(2) this(2,3)] assms(3) show ?thesis by (simp add: parseSVPayload_def)
qed

lemma message_delivered:
  assumes "list_all asdu_ok as" and "list_all2 mem_ok as ms" and "list_all asdu_names_ok as" and "ss_listener s"
    and d: "drop base buf = sv_pdu as ms @ r" and n: "length (sv_pdu as ms) < 65535"
  shows "\<exists>cs buf'. parseSVPayload s buf base (int (length (sv_pdu as ms))) = Some (buf', cs)
    \<and> list_all2 (\<lambda>c (a, m). sv_received c a m) cs (zip as ms) \<and> length buf' = length buf"
proof -
  let ?cnt = "ber_u32 (word_of_nat (length as))" and ?A = "asdus_bytes as ms" and ?n = "length (sv_pdu as ms)"
  let ?body = "ber_tlv 0x80 ?cnt @ ber_tlv 0xa2 ?A"
  let ?q = "1 + length (ber_len (length ?body))"
  have pdu: "sv_pdu as ms = ber_tlv 0x60 ?body" by (simp add: sv_pdu_def)
  have ln: "?n = ?q + length ?body" "length ?body < 65535" "length ?A < 65535" "length ?cnt < 65535"
    using n unfolding pdu by (simp_all add: ber_tlv_def)
  have n31: "?n < 2 ^ 31" using n by simp
  have d0: "drop base buf = ber_tlv 0x60 ?body @ r" using d pdu by simp
  have d1: "drop (base + ?q) buf = ber_tlv 0x80 ?cnt @ ber_tlv 0xa2 ?A @ r"
    using item_content [of base buf "[]" "0x60" ?body "[]" r] d0 by (simp add: add.assoc)
  have "?q + length (ber_tlv 0x80 ?cnt) \<le> ?n" using ln(1) by simp
  from payload_skip [OF d1 ln(4) this n31]
  have skip: "sv_payload_loop s buf base ?q ?n = sv_payload_loop s buf base (?q + length (ber_tlv 0x80 ?cnt)) ?n" by simp
  let ?p = "?q + length (ber_tlv 0x80 ?cnt)"
  have d2: "drop (base + ?p) buf = ber_tlv 0xa2 ?A @ r" using drop_append [OF d1] by (simp add: add.assoc)
  let ?k = "?p + 1 + length (ber_len (length ?A))"
  have "drop (base + ?k + 0) buf = ?A @ r"
    using item_content [of "base + ?p" buf "[]" "0xa2" ?A "[]" r] d2 by (simp add: add.assoc)
  from asdus_delivered [OF assms(1-4) this refl] ln(3) obtain cs b where cs:
    "parseSequenceOfASDU s buf (base + ?k) 0 (length ?A) = Some (b, cs)" "list_all2 (\<lambda>c (a, m). sv_received c a m) cs (zip as ms)"
    "length b = length buf" by auto
  have "?n = ?p + length (ber_tlv 0xa2 ?A)" using ln(1) by simp
  from payload_sequence [OF d2 ln(3) this n31] cs(1)
  have "sv_payload_loop s buf base ?p ?n = Some (b, cs)" by (simp only: add.assoc)
  then have "parseSVPayload s buf base (int ?n) = Some (b, cs)"
    using payload_enter [OF d0 ln(2), of ?n s] skip pdu by simp
  with cs show ?thesis by blast
qed

lemma sv_header_parsed:
  assumes "length (dstAddress ps) = 6" and "length srcAddr = 6" and "m < 65536" and "length pdu = n"
    and b: "sr_buffer self = sv_frame_header ps srcAddr vlan @ [word_of_nat (m div 256), word_of_nat m, 0, 0, 0, 0] @ pdu @ r"
    and "N = length (sv_frame_header ps srcAddr vlan) + 6 + n" and "m = n + 8"
  shows "parseSVMessage self N = handleSVApdu self (appId ps) (length (sv_frame_header ps srcAddr vlan) + 6) (int n) (dstAddress ps)"
proof -
  let ?L = "[word_of_nat (m div 256), word_of_nat m, 0, 0, 0, 0] :: u8 list"
  let ?A = "[0x88, 0xba, word_of_nat (unat (appId ps) div 256), word_of_nat (unat (appId ps) mod 256)] :: u8 list"
  have app: "unat (appId ps) div 256 mod 256 * 256 + unat (appId ps) mod 256 = unat (appId ps)"
    using unsigned_less [of "appId ps", where 'a = nat] by (simp add: div_less_iff_less_mult)
  have len: "m div 256 mod 256 * 256 + m mod 256 = m"
    using assms(3) by (simp add: div_less_iff_less_mult)
  have dst: "rdn (sr_buffer self) 0 6 = Some (dstAddress ps)"
    using assms(1) by (simp add: b rdn_def sv_frame_header_def)
  have tail: "rd (sr_buffer self) (12 + k) = rd ((if vlan then vlan_tag ps else []) @ ?A @ ?L @ pdu @ r) k" for k
    using assms(1,2) by (auto simp: b rd_def sv_frame_header_def nth_append)
  have lf: "length (sv_frame_header ps srcAddr vlan) = (if vlan then 20 else 16)" using assms by (simp add: sv_frame_header_def vlan_tag_def)
  have "unat (word_of_nat (unat (appId ps) div 256) :: u8) = unat (appId ps) div 256 mod 256"
    "unat (word_of_nat (unat (appId ps) mod 256) :: u8) = unat (appId ps) mod 256" by (simp_all add: unat_of_nat)
  then have app': "(word_of_nat (unat (word_of_nat (unat (appId ps) div 256) :: u8) * 256 + unat (word_of_nat (unat (appId ps) mod 256) :: u8)) :: u16) = appId ps"
    by (simp only: app) simp
  then have app'': "ucast (word_of_nat (unat (appId ps) div 256) :: u8) * 256 + ucast (word_of_nat (unat (appId ps) mod 256) :: u8) = appId ps"
    by (simp only: of_nat_add of_nat_mult of_nat_numeral of_nat_unat)
  have m: "n = m - 8" "8 \<le> m" using assms(7) by simp_all
  show ?thesis
    using tail [of 0] tail [of 1] tail [of 2] tail [of 3] tail [of 4] tail [of 5] tail [of 6] tail [of 7] tail [of 8] tail [of 9]
      dst lf len assms(3,6) m
    by (cases vlan) (simp_all add: parseSVMessage_def Let_def rd_def vlan_tag_def of_nat_diff app'' split: if_splits)
qed

lemma length_sv_pdu:
  assumes "list_all asdu_ok as" and "list_all2 mem_ok as ms"
  shows "length (sv_pdu as ms) = sv_size as"
  using sv_pdu_split [OF assms] length_asdus_bytes [OF assms] by (simp add: sv_size_def seq_len_def)

lemma frame_delivered:
  assumes "length (dstAddress ps) = 6" and "length srcAddr = 6" and "list_all asdu_ok as" and "list_all2 mem_ok as ms"
    and "list_all asdu_names_ok as" and "sv_size as + 8 < 65535"
    and "sr_buffer self = sv_packet ps srcAddr vlan (as, ms) @ r"
    and "find (sv_matches self (appId ps) (dstAddress ps)) (sr_subscriberList self) = Some s" and "ss_listener s"
  shows "\<exists>self' cs. parseSVMessage self (length (sv_packet ps srcAddr vlan (as, ms))) = Some (self', cs)
    \<and> list_all2 (\<lambda>c (a, m). sv_received c a m) cs (zip as ms)"
proof -
  let ?n = "sv_size as" and ?h = "sv_frame_header ps srcAddr vlan"
  note n = length_sv_pdu [OF assms(3,4)]
  have buf: "sr_buffer self = ?h @ [word_of_nat ((?n + 8) div 256), word_of_nat (?n + 8), 0, 0, 0, 0] @ sv_pdu as ms @ r"
    using assms(7) by (simp add: sv_packet_def Let_def)
  have N: "length (sv_packet ps srcAddr vlan (as, ms)) = length ?h + 6 + ?n" by (simp add: sv_packet_def Let_def n)
  have "?n + 8 < 65536" using assms(6) by simp
  note parsed = sv_header_parsed [OF assms(1,2) this n buf N refl]
  have "drop (length ?h + 6) (sr_buffer self) = sv_pdu as ms @ r" by (simp add: buf)
  from message_delivered [OF assms(3-5,9) this] assms(6) obtain cs b where
    "parseSVPayload s (sr_buffer self) (length ?h + 6) (int ?n) = Some (b, cs)" "list_all2 (\<lambda>c (a, m). sv_received c a m) cs (zip as ms)"
    unfolding n by auto
  then show ?thesis using parsed assms(8) by (simp add: handleSVApdu_def)
qed

lemma sv_matches_buffer: "sv_matches (self\<lparr>sr_buffer := b\<rparr>) = sv_matches self"
  by (intro ext) (simp add: sv_matches_def)

lemma spec_names: "asdu_names_ok (spec_asdu op a) = asdu_names_ok a"
  by (cases op) (simp_all add: asdu_names_ok_def with_sample_def)

lemma spec_run_names:
  "list_all asdu_names_ok as \<Longrightarrow> list_all asdu_names_ok (fst (fold spec_step ops (as, ms)))"
proof (induction ops arbitrary: as ms)
  case (Cons op ops)
  have "list_all asdu_names_ok (as[i := spec_asdu op (as ! i)])" for i
    using Cons.prems by (cases "i < length as") (auto simp: list_all_length nth_list_update spec_names)
  then show ?case using Cons.IH by (simp add: spec_step_def Let_def)
qed simp

text \<open>
  C5: Sampled values from end to end.  The frame that a configured publisher sends after any sequence of writes into its
  ASDUs is taken by a receiver whose first subscriber for the application id (and, when asked for, the destination
  address) has a listener; the listener is called once for each ASDU, in order, and reads through the access functions
  the names, the sample counter, the configuration revision, the synchronisation flag, the reference time, the sample
  rate and all sample octets that the publisher holds for the ASDU.  The sample mode alone is read as 0.
\<close>

theorem sv_samples_received:
  assumes "length (dstAddress ps) = 6" and "length srcAddr = 6" and "sv_configured ps srcAddr vlan p"
    and "sp_payloadStart p + sv_size (sp_asduList p) \<le> SV_MAX_MESSAGE_SIZE" and "list_all (sv_op_ok (sp_asduList p)) ops"
    and "list_all asdu_names_ok (sp_asduList p)" and "length (sr_buffer rcv) = SV_ETH_BUFFER_LENGTH" and "sr_ethSocket rcv = OpenSocket"
    and "find (sv_matches rcv (appId ps) (dstAddress ps)) (sr_subscriberList rcv) = Some s" and "ss_listener s"
  shows "\<exists>p' q ms packet rcv' cs. SVPublisher_setupComplete p = Some p' \<and> list_all2 mem_ok (sp_asduList p) ms \<and> sv_run p' ops = Some q
    \<and> SVPublisher_publish q = Some (Some packet) \<and> SVReceiver_tick rcv packet = Some (True, rcv', cs)
    \<and> list_all2 (\<lambda>c (a, m). sv_received c a m) cs (case fold spec_step ops (sp_asduList p, ms) of (as, ms) \<Rightarrow> zip as ms)"
proof -
  from configured_run [OF assms(1-5)] obtain p' q ms where q: "SVPublisher_setupComplete p = Some p'" "list_all2 mem_ok (sp_asduList p) ms"
    "sv_run p' ops = Some q"
    "SVPublisher_publish q = Some (Some (sv_packet ps srcAddr vlan (fold spec_step ops (sp_asduList p, ms))))"
    "list_all asdu_ok (fst (fold spec_step ops (sp_asduList p, ms)))"
    "list_all2 mem_ok (fst (fold spec_step ops (sp_asduList p, ms))) (snd (fold spec_step ops (sp_asduList p, ms)))" by blast
  obtain as ms' where st: "fold spec_step ops (sp_asduList p, ms) = (as, ms')" by fastforce
  let ?packet = "sv_packet ps srcAddr vlan (as, ms')"
  have "list_all (\<lambda>op. op_asdu op < length (sp_asduList p)) ops" using assms(5) by (auto simp: list_all_iff sv_op_ok_def)
  from spec_size [OF this, of ms] have size: "sv_size as = sv_size (sp_asduList p)" using st by simp
  have names: "list_all asdu_names_ok as" using spec_run_names [OF assms(6), of ops ms] st by simp
  have ok: "list_all asdu_ok as" "list_all2 mem_ok as ms'" using q(5,6) st by simp_all
  have start: "sp_payloadStart p = (if vlan then 26 else 22)" using configured_fresh [OF assms(1-3)] by (simp add: sv_fresh_def)
  have N: "length ?packet \<le> SV_ETH_BUFFER_LENGTH"
    using assms(1,2,4) start size length_sv_pdu [OF ok]
    by (auto simp: sv_packet_def Let_def sv_frame_header_def vlan_tag_def SV_ETH_BUFFER_LENGTH_def SV_MAX_MESSAGE_SIZE_def split: if_splits)
  let ?rcv = "rcv\<lparr>sr_buffer := overlay (sr_buffer rcv) 0 ?packet\<rparr>"
  have small: "sv_size as + 8 < 65535" using assms(4) size by (simp add: SV_MAX_MESSAGE_SIZE_def)
  have buf: "sr_buffer ?rcv = ?packet @ drop (length ?packet) (sr_buffer rcv)" by (simp add: overlay_def)
  have m: "find (sv_matches ?rcv (appId ps) (dstAddress ps)) (sr_subscriberList ?rcv) = Some s"
    using assms(9) by (simp add: sv_matches_buffer)
  from frame_delivered [OF assms(1,2) ok names small buf m assms(10)] obtain rcv' cs where
    "parseSVMessage ?rcv (length ?packet) = Some (rcv', cs)" "list_all2 (\<lambda>c (a, m). sv_received c a m) cs (zip as ms')" by blast
  moreover have "?packet \<noteq> []" by (simp add: sv_packet_def Let_def)
  ultimately show ?thesis using q(1-4) st assms(8)
    by (intro exI [of _ p'] exI [of _ q] exI [of _ ms] exI [of _ ?packet] exI [of _ rcv'] exI [of _ cs]) (simp add: SVReceiver_tick_def)
qed

definition sample_receiver :: SVReceiver where
  "sample_receiver = (snd (SVReceiver_startThreadless SVReceiver_create True))\<lparr>sr_subscriberList :=
     [\<lparr>ss_ethAddr = replicate 6 0, ss_appId = 0x4000, ss_listener = True, ss_addr = 1\<rparr>]\<rparr>"

theorem sv_samples_received_witness:
  "\<exists>p' q packet rcv' c. SVPublisher_setupComplete sv_sample_publisher = Some p'
    \<and> sv_run p' [SetSample 0 0 (INT32 258), SetSmpCnt 0 7] = Some q \<and> SVPublisher_publish q = Some (Some packet)
    \<and> SVReceiver_tick sample_receiver packet = Some (True, rcv', [c])
    \<and> SVSubscriber_ASDU_getSmpCnt c = Some 7 \<and> sample_bytes c 0 4 = Some [0, 0, 1, 2]"
proof -
  let ?ops = "[SetSample 0 0 (INT32 258), SetSmpCnt 0 7]"
  have ok: "list_all (sv_op_ok (sp_asduList sv_sample_publisher)) ?ops"
    unfolding sv_sample_publisher_parts by code_simp
  have fits: "sp_payloadStart sv_sample_publisher + sv_size (sp_asduList sv_sample_publisher) \<le> SV_MAX_MESSAGE_SIZE"
    by (simp add: sv_sample_publisher_parts sample_asdu_size SV_MAX_MESSAGE_SIZE_def)
  have addr: "length (dstAddress sv_default_parameters) = 6" "length ([2, 0, 0, 0, 0, 1] :: bytes) = 6" by (simp_all add: sv_default_parameters_def)
  have names: "list_all asdu_names_ok (sp_asduList sv_sample_publisher)"
    by (simp add: sv_sample_publisher_parts sample_asdu_def asdu_names_ok_def SVPublisher_addASDU_def SVPublisher_ASDU_addINT32_def add_element_def)
  have rcv: "length (sr_buffer sample_receiver) = SV_ETH_BUFFER_LENGTH" "sr_ethSocket sample_receiver = OpenSocket"
    "\<exists>s. find (sv_matches sample_receiver (appId sv_default_parameters) (dstAddress sv_default_parameters)) (sr_subscriberList sample_receiver) = Some s \<and> ss_listener s"
    by (simp_all add: sample_receiver_def SVReceiver_create_def SVReceiver_startThreadless_def sv_matches_def sv_default_parameters_def)
  then obtain s where s: "find (sv_matches sample_receiver (appId sv_default_parameters) (dstAddress sv_default_parameters)) (sr_subscriberList sample_receiver) = Some s"
    "ss_listener s" by blast
  from sv_samples_received [OF addr sv_sample_publisher_configured fits ok names rcv(1,2) s]
  obtain p' q ms packet rcv' cs where r: "SVPublisher_setupComplete sv_sample_publisher = Some p'" "list_all2 mem_ok (sp_asduList sv_sample_publisher) ms"
    "sv_run p' ?ops = Some q" "SVPublisher_publish q = Some (Some packet)" "SVReceiver_tick sample_receiver packet = Some (True, rcv', cs)"
    "list_all2 (\<lambda>c (a, m). sv_received c a m) cs (case fold spec_step ?ops (sp_asduList sv_sample_publisher, ms) of (as, ms) \<Rightarrow> zip as ms)"
    by blast
  obtain t d1 d2 d3 d4 where ms: "ms = [(t, [d1, d2, d3, d4])]"
    using r(2) by (auto simp: sv_sample_publisher_parts mem_ok_def sample_asdu_size list_all2_Cons1 length_Suc_conv numeral_eq_Suc)
  have "fold spec_step ?ops (sp_asduList sv_sample_publisher, ms) = ([with_sample sample_asdu 7 (as_smpSynch sample_asdu)], [(t, [0, 0, 1, 2])])"
    by (simp add: spec_step_def ms overlay_def mem32_def sv_sample_publisher_parts)
  with r(6) obtain c where c: "cs = [c]" "sv_received c (with_sample sample_asdu 7 (as_smpSynch sample_asdu)) (t, [0, 0, 1, 2])"
    by (auto simp: list_all2_Cons2)
  then have "SVSubscriber_ASDU_getSmpCnt c = Some 7" "sample_bytes c 0 4 = Some [0, 0, 1, 2]"
    using sample_asdu_size(2) by (simp_all add: sv_received_def with_sample_def)
  with r c(1) show ?thesis by blast
qed

subsection \<open>Samples and reference times\<close>

text \<open>Reading a sample with the function for its type.\<close>

fun sample_read :: "sv_call \<Rightarrow> nat \<Rightarrow> sample_value \<Rightarrow> bool" where
  "sample_read c k (INT8 v) = (SVSubscriber_ASDU_getINT8 c k = Some v \<and> SVSubscriber_ASDU_getINT8U c k = Some v)"
| "sample_read c k (INT32 v) = (SVSubscriber_ASDU_getINT32 c k = Some v \<and> SVSubscriber_ASDU_getINT32U c k = Some v)"
| "sample_read c k (INT64 v) = (SVSubscriber_ASDU_getINT64 c k = Some v \<and> SVSubscriber_ASDU_getINT64U c k = Some v)"
| "sample_read c k (FLOAT v) = (SVSubscriber_ASDU_getFLOAT32 c k = Some v)"
| "sample_read c k (FLOAT64 v) = (SVSubscriber_ASDU_getFLOAT64 c k = Some v)"
| "sample_read c k (TIMESTAMP v) = (SVSubscriber_ASDU_getTimestamp c k = Some v)"
| "sample_read c k (QUALITY v) = (SVSubscriber_ASDU_getQuality c k = Some v)"

lemma quality_octets: "ucast (rev (mem16 v) ! Suc 0) + ucast (rev (mem16 v) ! 0) * 256 = v"
proof -
  obtain lo hi where m: "mem16 v = [lo, hi]" by (simp add: mem16_def)
  have "word_of_nat (be_nat [hi, lo]) = v" using be_nat_be16 [of v] by (simp add: m del: of_nat_unat) (simp)
  then show ?thesis by (simp add: m be_nat_def add.commute)
qed

lemma sample_read_octets:
  assumes "sample_bytes c k (length (sample_octets v)) = Some (sample_octets v)" and "sv_sample_ok v"
  shows "sample_read c k v"
  using assms
  by (cases v) (simp_all add: SVSubscriber_ASDU_getINT8_def SVSubscriber_ASDU_getINT8U_def SVSubscriber_ASDU_getINT32_def SVSubscriber_ASDU_getINT32U_def
      SVSubscriber_ASDU_getINT64_def SVSubscriber_ASDU_getINT64U_def SVSubscriber_ASDU_getFLOAT32_def SVSubscriber_ASDU_getFLOAT64_def
      SVSubscriber_ASDU_getTimestamp_def SVSubscriber_ASDU_getQuality_def memcpy_reverse_def mem_nat_def be_nat_mem32 be_nat_mem64 quality_octets)

text \<open>
  Every sample, of whatever type, is read back by the access function for its type as it was written: when the octets
  of an ASDU hold a sample at an index, the listener that receives the ASDU reads that sample there.
\<close>

theorem sample_roundtrip:
  assumes "sv_received c a m" and "sv_sample_ok v" and "k + length (sample_octets v) \<le> as_dataSize a" and "length d = as_dataSize a"
    and "snd m = overlay d k (sample_octets v)"
  shows "sample_read c k v"
proof -
  have "field_bytes (snd c) (sa_dataBuffer (fst c)) 0 (as_dataSize a) = Some (snd m)" using assms(1) by (simp add: sv_received_def sample_bytes_def)
  from field_bytes_part [OF this assms(3)] have "sample_bytes c k (length (sample_octets v)) = Some (sample_octets v)"
    using assms(3-5) by (simp add: sample_bytes_def overlay_content)
  then show ?thesis using assms(2) by (rule sample_read_octets)
qed

theorem sample_roundtrip_witness:
  "\<exists>x buf. parseASDU \<lparr>ss_ethAddr = [], ss_appId = 0, ss_listener = True, ss_addr = 1\<rparr>
      (asdu_content sample_asdu (replicate 8 0, [0, 0, 1, 2])) 0 (length (asdu_content sample_asdu (replicate 8 0, [0, 0, 1, 2])))
      = Some (buf, [(x, buf)]) \<and> SVSubscriber_ASDU_getINT32 (x, buf) 0 = Some 258"
proof -
  let ?m = "(replicate 8 0, [0, 0, 1, 2]) :: asdu_mem" and ?s = "\<lparr>ss_ethAddr = [], ss_appId = 0, ss_listener = True, ss_addr = 1\<rparr>"
  have ok: "mem_ok sample_asdu ?m" by (simp add: mem_ok_def sample_asdu_size)
  have wf: "asdu_ok sample_asdu" by code_simp
  have names: "0 \<notin> set (as_svID sample_asdu)" "\<forall>d. as_datset sample_asdu = Some d \<longrightarrow> 0 \<notin> set d"
    by (simp_all add: sample_asdu_def SVPublisher_addASDU_def SVPublisher_ASDU_addINT32_def add_element_def)
  from asdu_delivered [OF wf ok _ _ names, of 0 _ "[]" ?s] obtain x buf where
    r: "parseASDU ?s (asdu_content sample_asdu ?m) 0 (length (asdu_content sample_asdu ?m)) = Some (buf, [(x, buf)])"
    "sv_received (x, buf) sample_asdu ?m" by auto
  have "sample_read (x, buf) 0 (INT32 258)"
    by (rule sample_roundtrip [OF r(2), where d = "replicate 4 0"]) (simp_all add: sample_asdu_size overlay_def mem32_def)
  with r(1) show ?thesis by auto
qed

lemma fraction_octets:
  assumes "unat f < 2 ^ 24"
  shows "be_nat [ucast (drop_bit 16 f), ucast (drop_bit 8 f), ucast f] = unat (f :: u32)"
proof -
  have "unat (drop_bit 24 f) = 0" using assms by (simp add: unsigned_drop_bit_eq drop_bit_eq_div unat_div)
  then have "drop_bit 24 f = 0" by (simp add: unat_eq_0)
  then have "rev (mem32 f) = 0 # [ucast (drop_bit 16 f), ucast (drop_bit 8 f), ucast f]" by (simp add: mem32_def)
  then show ?thesis using be_nat_mem32 [of f] by (simp add: be_nat_Cons)
qed

lemma decode_time:
  assumes "rdn buf pos 7 = Some (time_octets s f)" and "unat f < 2 ^ 24"
  shows "\<exists>r. decodeUtcTimeToNsTime buf pos = Some r \<and> unat r = unat s * 1000000000 + unat f * 1000000000 div 2 ^ 24"
proof -
  have o: "take 4 (time_octets s f) = rev (mem32 s)" "drop 4 (time_octets s f) = [ucast (drop_bit 16 f), ucast (drop_bit 8 f), ucast f]"
    by (simp_all add: time_octets_def)
  let ?ns = "drop_bit 24 (ucast f * 1000000000 :: u64)"
  have sb: "unat s < 2 ^ 32" using unsigned_less [of s, where 'a = nat] by simp
  have f64: "unat (ucast f :: u64) = unat f" "unat (ucast s :: u64) = unat s"
    using assms(2) sb by (simp_all add: unsigned_ucast_eq take_bit_eq_mod mod_less del: unsigned_less)
  have "unat (ucast f * 1000000000 :: u64) = unat f * 1000000000"
    using assms(2) by (subst unat_word_ariths(2)) (simp add: f64)
  then have ns: "unat ?ns = unat f * 1000000000 div 2 ^ 24"
    by (simp add: drop_bit_eq_div unat_div)
  have "unat (ucast s * 1000000000 :: u64) = unat s * 1000000000"
    using sb by (subst unat_word_ariths(2)) (simp add: f64)
  moreover have "unat f * 1000000000 div 2 ^ 24 < 1000000000" using assms(2) by (simp add: div_less_iff_less_mult)
  ultimately have "unat (ucast s * 1000000000 + ?ns) = unat s * 1000000000 + unat f * 1000000000 div 2 ^ 24"
    using sb ns by (subst unat_word_ariths(1)) simp
  then show ?thesis using assms(1)
    by (simp add: decodeUtcTimeToNsTime_def Let_def o be_nat_mem32 fraction_octets [OF assms(2)])
qed

lemma ns_fraction:
  fixes n :: nat
  defines "b \<equiv> n * 2 ^ 24 div 1000000000 * 1000000000 div 2 ^ 24"
  shows "b \<le> n" "n \<le> b + 60"
proof -
  let ?f = "n * 2 ^ 24 div 1000000000 :: nat"
  have f: "?f * 1000000000 \<le> n * 2 ^ 24" "n * 2 ^ 24 < ?f * 1000000000 + 1000000000"
    using div_mult_mod_eq [of "n * 2 ^ 24" 1000000000] mod_less_divisor [of 1000000000 "n * 2 ^ 24"] by linarith+
  have b: "b * 2 ^ 24 \<le> ?f * 1000000000" "?f * 1000000000 < b * 2 ^ 24 + 2 ^ 24"
    unfolding b_def using div_mult_mod_eq [of "?f * 1000000000" "2 ^ 24"] mod_less_divisor [OF zero_less_power [of 2 24], of "?f * 1000000000"] by linarith+
  show "b \<le> n" using f b by simp
  show "n \<le> b + 60" using f b by simp
qed

lemma ms_fraction:
  "(r * 16777 + r * 216 div 1000) * 1000000000 div 2 ^ 24 div 1000000 = (if 125 dvd r then r else r - 1)" for r :: nat
proof -
  let ?N = "r * 16777216"
  have "?N = r * 16777 * 1000 + r * 216" by simp
  then have f: "r * 16777 + r * 216 div 1000 = ?N div 1000" by (metis add.commute div_mult_self1 zero_neq_numeral)
  have "(?N div 1000) * 1000000000 div 2 ^ 24 div 1000000 = (?N div 1000 * 1000) * 1000000 div (2 ^ 24 * 1000000)"
    by (simp only: div_mult2_eq mult.assoc) simp
  also have "\<dots> = ?N div 1000 * 1000 div 2 ^ 24" by (rule div_mult_mult2) simp
  also have "\<dots> = (if 125 dvd r then r else r - 1)"
  proof (cases "125 dvd r")
    case True
    then obtain k where "r = 125 * k" by (elim dvdE)
    then show ?thesis by simp
  next
    case False
    have nd: "\<not> 1000 dvd ?N"
    proof
      assume "1000 dvd ?N"
      then have "125 dvd ?N" by (rule dvd_trans [rotated]) simp
      moreover have "coprime ((5 :: nat) ^ 3) (2 ^ 24)" by (simp only: coprime_power_left_iff coprime_power_right_iff) simp
      then have "coprime 125 (16777216 :: nat)" by simp
      ultimately show False using False by (simp add: coprime_dvd_mult_left_iff)
    qed
    define e where "e = ?N mod 1000"
    have e: "?N div 1000 * 1000 + e = ?N" "0 < e" "e < 1000" unfolding e_def by (rule div_mult_mod_eq) (use nd in \<open>simp_all add: dvd_eq_mod_eq_0\<close>)
    have "0 < r" using False by (cases r) auto
    then obtain k where k: "r = Suc k" by (cases r) auto
    have "?N div 1000 * 1000 div 2 ^ 24 = r - 1"
      by (rule div_nat_eqI) (use e k in auto)
    with False show ?thesis by simp
  qed
  finally show ?thesis unfolding f .
qed

lemma received_time:
  assumes "sv_received c a m" and "as_hasRefrTm a" and "fst m = time_octets s f @ [q]" and "unat f < 2 ^ 24"
  shows "\<exists>r. SVSubscriber_ASDU_getRefrTmAsNs c = Some r \<and> SVSubscriber_ASDU_getRefrTmAsMs c = Some (r div 1000000)
    \<and> unat r = unat s * 1000000000 + unat f * 1000000000 div 2 ^ 24"
proof -
  have "field_bytes (snd c) (sa_refrTm (fst c)) 0 8 = Some (time_octets s f @ [q])" using assms(1-3) by (simp add: sv_received_def)
  from field_bytes_part [OF this, of 0 7] obtain pos where pos: "sa_refrTm (fst c) = Some pos" "rdn (snd c) pos 7 = Some (time_octets s f)"
    by (auto simp: field_bytes_def split: option.splits)
  from decode_time [OF pos(2) assms(4)] show ?thesis
    by (auto simp: SVSubscriber_ASDU_getRefrTmAsNs_def SVSubscriber_ASDU_getRefrTmAsMs_def pos(1))
qed

lemma unat_word32: "n < 2 ^ 32 \<Longrightarrow> unat (word_of_nat n :: u32) = n"
  by (simp add: unat_of_nat)

text \<open>An ASDU with a reference time, and what a listener reads from it.\<close>

definition time_asdu :: SVPublisher_ASDU where
  "time_asdu = SVPublisher_ASDU_enableRefrTm sample_asdu"

definition any_listener :: SVSubscriber where
  "any_listener = \<lparr>ss_ethAddr = [], ss_appId = 0, ss_listener = True, ss_addr = 1\<rparr>"

lemma time_asdu_delivered:
  assumes "length t = 8"
  shows "\<exists>x buf. parseASDU any_listener (asdu_content time_asdu (t, replicate 4 0)) 0 (length (asdu_content time_asdu (t, replicate 4 0)))
    = Some (buf, [(x, buf)]) \<and> sv_received (x, buf) time_asdu (t, replicate 4 0)"
proof -
  have "asdu_ok time_asdu" by code_simp
  moreover have "mem_ok time_asdu (t, replicate 4 0)"
    using assms by (simp add: mem_ok_def time_asdu_def SVPublisher_ASDU_enableRefrTm_def sample_asdu_size)
  moreover have "0 \<notin> set (as_svID time_asdu)" "\<forall>d. as_datset time_asdu = Some d \<longrightarrow> 0 \<notin> set d"
    by (simp_all add: time_asdu_def SVPublisher_ASDU_enableRefrTm_def sample_asdu_def SVPublisher_addASDU_def SVPublisher_ASDU_addINT32_def add_element_def)
  ultimately show ?thesis
    using asdu_delivered [of time_asdu "(t, replicate 4 0)" 0 "asdu_content time_asdu (t, replicate 4 0)" "[]" any_listener]
    by (auto simp: any_listener_def)
qed

text \<open>
  A reference time written in nanoseconds (before the year 2106) is read back at most 60 nanoseconds too early and
  never too late: that is the resolution of its 24 fraction bits.
\<close>

theorem reference_time_ns:
  assumes "sv_received c a m" and "as_hasRefrTm a" and "fst m = ns_octets t @ [q]" and "unat t div 1000000000 < 2 ^ 32"
  shows "\<exists>r. SVSubscriber_ASDU_getRefrTmAsNs c = Some r \<and> unat r \<le> unat t \<and> unat t \<le> unat r + 60"
proof -
  let ?n = "unat t mod 1000000000"
  let ?f = "?n * 2 ^ 24 div 1000000000"
  have "?n < 1000000000" by simp
  then have f: "?f < 2 ^ 24" by (simp add: div_less_iff_less_mult)
  then have uf: "unat (word_of_nat ?f :: u32) = ?f" by (intro unat_word32) (erule less_trans, simp)
  from received_time [OF assms(1,2) assms(3) [unfolded ns_octets_def], unfolded uf unat_word32 [OF assms(4)], OF f] obtain r where
    r: "SVSubscriber_ASDU_getRefrTmAsNs c = Some r" "unat r = unat t div 1000000000 * 1000000000 + ?f * 1000000000 div 2 ^ 24" by blast
  have "unat t = unat t div 1000000000 * 1000000000 + ?n" by (rule div_mult_mod_eq [symmetric])
  then have "unat r \<le> unat t" "unat t \<le> unat r + 60" unfolding r(2) using ns_fraction [of ?n] by linarith+
  with r(1) show ?thesis by blast
qed

theorem reference_time_ns_witness:
  "\<exists>x buf r. parseASDU any_listener (asdu_content time_asdu (ns_octets 1000000999 @ [20], replicate 4 0)) 0
      (length (asdu_content time_asdu (ns_octets 1000000999 @ [20], replicate 4 0))) = Some (buf, [(x, buf)])
    \<and> SVSubscriber_ASDU_getRefrTmAsNs (x, buf) = Some r \<and> unat r \<le> 1000000999 \<and> 1000000939 \<le> unat r"
proof -
  obtain x buf where r: "parseASDU any_listener (asdu_content time_asdu (ns_octets 1000000999 @ [20], replicate 4 0)) 0
      (length (asdu_content time_asdu (ns_octets 1000000999 @ [20], replicate 4 0))) = Some (buf, [(x, buf)])"
    "sv_received (x, buf) time_asdu (ns_octets 1000000999 @ [20], replicate 4 0)"
    using time_asdu_delivered [of "ns_octets 1000000999 @ [20]"] by auto
  from reference_time_ns [OF r(2), of 1000000999 20] r(1) show ?thesis
    by (auto simp: time_asdu_def SVPublisher_ASDU_enableRefrTm_def)
qed

text \<open>
  A reference time written in milliseconds is read back in milliseconds one too small, unless it is a multiple of
  125: writing and reading both round down.
\<close>

theorem reference_time_ms:
  assumes "sv_received c a m" and "as_hasRefrTm a" and "fst m = ms_octets t @ [q]" and "unat t div 1000 < 2 ^ 32"
  shows "\<exists>r. SVSubscriber_ASDU_getRefrTmAsMs c = Some r \<and> unat r = (if 125 dvd unat t then unat t else unat t - 1)"
proof -
  let ?n = "unat t mod 1000"
  let ?f = "?n * 16777 + ?n * 216 div 1000"
  have n: "?n < 1000" by simp
  then have "?n * 216 div 1000 < 216" by (simp add: div_less_iff_less_mult)
  then have f: "?f < 2 ^ 24" using n by simp
  then have uf: "unat (word_of_nat ?f :: u32) = ?f" by (intro unat_word32) (erule less_trans, simp)
  from received_time [OF assms(1,2) assms(3) [unfolded ms_octets_def], unfolded uf unat_word32 [OF assms(4)], OF f] obtain r where
    r: "SVSubscriber_ASDU_getRefrTmAsMs c = Some (r div 1000000)" "unat r = unat t div 1000 * 1000000000 + ?f * 1000000000 div 2 ^ 24" by blast
  have "unat r div 1000000 = unat t div 1000 * 1000 + ?f * 1000000000 div 2 ^ 24 div 1000000"
    unfolding r(2) using div_mult_self3 [of 1000000 "unat t div 1000 * 1000" "?f * 1000000000 div 2 ^ 24"] by (simp add: mult.assoc)
  also have "?f * 1000000000 div 2 ^ 24 div 1000000 = (if 125 dvd ?n then ?n else ?n - 1)" by (rule ms_fraction)
  finally have e: "unat (r div 1000000) = unat t div 1000 * 1000 + (if 125 dvd ?n then ?n else ?n - 1)" by (simp add: unat_div)
  have t: "unat t = unat t div 1000 * 1000 + ?n" by (rule div_mult_mod_eq [symmetric])
  have "125 dvd unat t \<longleftrightarrow> 125 dvd ?n" by (simp add: dvd_mod_iff)
  moreover have "\<not> 125 dvd ?n \<Longrightarrow> 0 < ?n" by (cases "?n = 0") auto
  ultimately show ?thesis using r(1) e t by auto
qed

theorem reference_time_ms_witness:
  "\<exists>x buf r. parseASDU any_listener (asdu_content time_asdu (ms_octets 1001 @ [10], replicate 4 0)) 0
      (length (asdu_content time_asdu (ms_octets 1001 @ [10], replicate 4 0))) = Some (buf, [(x, buf)])
    \<and> SVSubscriber_ASDU_getRefrTmAsMs (x, buf) = Some r \<and> unat r = 1000"
proof -
  obtain x buf where r: "parseASDU any_listener (asdu_content time_asdu (ms_octets 1001 @ [10], replicate 4 0)) 0
      (length (asdu_content time_asdu (ms_octets 1001 @ [10], replicate 4 0))) = Some (buf, [(x, buf)])"
    "sv_received (x, buf) time_asdu (ms_octets 1001 @ [10], replicate 4 0)"
    using time_asdu_delivered [of "ms_octets 1001 @ [10]"] by auto
  from reference_time_ms [OF r(2), of 1001 10] r(1) show ?thesis
    by (auto simp: time_asdu_def SVPublisher_ASDU_enableRefrTm_def)
qed

subsection \<open>Any frame\<close>

lemma sv_tick_safe:
  assumes "length (sr_buffer rcv) = SV_ETH_BUFFER_LENGTH" and "sr_ethSocket rcv \<noteq> DestroyedSocket" and "length packet < SV_ETH_BUFFER_LENGTH"
  shows "\<exists>b rcv' cs. SVReceiver_tick rcv packet = Some (b, rcv', cs) \<and> list_all call_ok cs
    \<and> rcv' = rcv\<lparr>sr_buffer := sr_buffer rcv'\<rparr> \<and> length (sr_buffer rcv') = SV_ETH_BUFFER_LENGTH"
proof -
  let ?rcv = "rcv\<lparr>sr_buffer := overlay (sr_buffer rcv) 0 packet\<rparr>"
  have "length (sr_buffer ?rcv) = SV_ETH_BUFFER_LENGTH" using assms(1,3) by simp
  from parseSVMessage_total [of "length packet" ?rcv, unfolded this] assms(3) obtain rcv' cs where
    "parseSVMessage ?rcv (length packet) = Some (rcv', cs)" "length (sr_buffer rcv') = SV_ETH_BUFFER_LENGTH" "list_all call_ok cs"
    "rcv' = ?rcv\<lparr>sr_buffer := sr_buffer rcv'\<rparr>" by (auto simp: SV_ETH_BUFFER_LENGTH_def)
  then show ?thesis using assms by (cases "sr_ethSocket rcv") (auto simp: SVReceiver_tick_def)
qed

fun short_wait :: "wait_result \<Rightarrow> bool" where
  "short_wait (WaitReady packet) = (length packet < SV_ETH_BUFFER_LENGTH)"
| "short_wait _ = True"

lemma sv_loop_safe:
  "length (sr_buffer rcv) = SV_ETH_BUFFER_LENGTH \<Longrightarrow> sr_ethSocket rcv \<noteq> DestroyedSocket \<Longrightarrow> list_all short_wait ws \<Longrightarrow>
    \<exists>rcv' cs. sv_loop rcv ws = Some (rcv', cs) \<and> list_all call_ok cs \<and> rcv' = rcv\<lparr>sr_buffer := sr_buffer rcv'\<rparr>
      \<and> length (sr_buffer rcv') = SV_ETH_BUFFER_LENGTH"
proof (induction ws arbitrary: rcv)
  case (Cons w ws)
  show ?case
  proof (cases w)
    case (WaitReady packet)
    with sv_tick_safe [OF Cons.prems(1,2), of packet] Cons.prems obtain b r1 cs where r1: "SVReceiver_tick rcv packet = Some (b, r1, cs)"
      "list_all call_ok cs" "r1 = rcv\<lparr>sr_buffer := sr_buffer r1\<rparr>" "length (sr_buffer r1) = SV_ETH_BUFFER_LENGTH" by auto
    have "sr_ethSocket r1 = sr_ethSocket rcv" by (subst r1(3)) simp
    with Cons.IH [OF r1(4)] Cons.prems obtain r2 ds where r2: "sv_loop r1 ws = Some (r2, ds)" "list_all call_ok ds"
      "r2 = r1\<lparr>sr_buffer := sr_buffer r2\<rparr>" "length (sr_buffer r2) = SV_ETH_BUFFER_LENGTH" by auto
    have "r2 = rcv\<lparr>sr_buffer := sr_buffer r2\<rparr>" by (subst r2(3), subst r1(3)) simp
    with WaitReady r1 r2 show ?thesis by simp
  qed (use Cons in simp_all)
qed (simp)

text \<open>
  C7: The receiver of sampled values is safe for whatever arrives, up to the frames that fill its buffer: for every
  sequence of waits and of packets of less than 1518 octets the loop of the receiver makes no access outside its
  memory, ends, keeps the receiver as it is but for its buffer and the flag \<open>stopped\<close>, and gives every listener only
  ASDUs whose samples lie in the buffer and whose names end there.
\<close>

theorem sv_receiver_safe:
  assumes "length (sr_buffer rcv) = SV_ETH_BUFFER_LENGTH" and "sr_ethSocket rcv \<noteq> DestroyedSocket" and "list_all short_wait ws"
  shows "\<exists>rcv' cs. svReceiverLoop rcv ws = Some (rcv', cs) \<and> list_all call_ok cs
    \<and> rcv' = rcv\<lparr>sr_buffer := sr_buffer rcv', sr_stopped := True\<rparr> \<and> length (sr_buffer rcv') = SV_ETH_BUFFER_LENGTH"
proof -
  let ?rcv = "rcv\<lparr>sr_stopped := False\<rparr>" and ?ws = "if sr_running rcv then ws else []"
  have "list_all short_wait ?ws" using assms(3) by simp
  from sv_loop_safe [OF _ _ this, of ?rcv] assms(1,2) obtain r cs where r: "sv_loop ?rcv ?ws = Some (r, cs)" "list_all call_ok cs"
    "r = ?rcv\<lparr>sr_buffer := sr_buffer r\<rparr>" "length (sr_buffer r) = SV_ETH_BUFFER_LENGTH" by auto
  have "r\<lparr>sr_stopped := True\<rparr> = rcv\<lparr>sr_buffer := sr_buffer r, sr_stopped := True\<rparr>" by (subst r(3)) simp
  then show ?thesis using r assms(1) by (auto simp: svReceiverLoop_def)
qed

theorem sv_receiver_safe_witness:
  "\<exists>rcv' cs. svReceiverLoop sample_receiver [WaitTimeout, WaitReady (replicate 1517 0xff), WaitFailed, WaitReady []] = Some (rcv', cs)"
  using sv_receiver_safe [of sample_receiver "[WaitTimeout, WaitReady (replicate 1517 0xff), WaitFailed, WaitReady []]"]
  by (auto simp: sample_receiver_def SVReceiver_create_def SVReceiver_startThreadless_def SV_ETH_BUFFER_LENGTH_def)

subsection \<open>Frames that fill the buffer\<close>

text \<open>
  A frame whose last element is a name: the NUL behind it is written behind the frame, for a frame of 1518 octets
  behind the buffer.
\<close>

definition name_pdu :: "bytes \<Rightarrow> bytes" where
  "name_pdu name = ber_tlv 0x60 (ber_tlv 0xa2 (ber_tlv 0x30 (ber_tlv 0x80 name)))"

lemma last_name_faults:
  assumes "drop base buf = ber_tlv 0x80 name" and "length name < 65535"
  shows "parseASDU s buf base (length (ber_tlv 0x80 name)) = None"
proof -
  let ?c = "content_pos base [] name" and ?a = "fst (asdu_init)"
  have n: "length (ber_tlv 0x80 name) < 2 ^ 31" using assms(2) by (simp add: ber_tlv_def length_ber_len)
  have len: "?c + length name = length buf"
    using arg_cong [OF assms(1), of length] by (simp add: content_pos_def ber_tlv_def)
  have "asdu_loop buf base 0 (length (ber_tlv 0x80 name)) asdu_init = Some (Some (asdu_field 0x80 ?c (length name) asdu_init))"
    using asdu_loop_fields [of base 0 buf "[(0x80, name)]" "[]"] assms n by (simp add: content_pos_def)
  moreover have "asdu_field 0x80 ?c (length name) asdu_init = (?a\<lparr>sa_svId := Some ?c\<rparr>, length name, 0)"
    by (simp add: asdu_field_def asdu_init_def)
  ultimately show ?thesis using len by (simp add: parseASDU_def end_name_def)
qed

lemma last_sequence_faults:
  assumes "drop base buf = ber_tlv 0x30 (ber_tlv 0x80 name)" and "length (ber_tlv 0x80 name) < 65535"
  shows "parseSequenceOfASDU s buf base 0 (length (ber_tlv 0x30 (ber_tlv 0x80 name))) = None"
proof -
  let ?x = "ber_tlv 0x80 name"
  have d: "drop (base + 0) buf = ber_tlv 0x30 ?x @ []" using assms(1) by simp
  have "0 + length (ber_tlv 0x30 ?x) \<le> length (ber_tlv 0x30 ?x)" "length (ber_tlv 0x30 ?x) < 2 ^ 31"
    using assms(2) by (simp_all add: ber_tlv_def [of "0x30"] length_ber_len)
  note step = element_step [OF d assms(2) this]
  have "drop (base + (1 + length (ber_len (length ?x)))) buf = ?x"
    using item_content [of base buf "[]" "0x30" ?x "[]" "[]"] assms(1) by simp
  moreover have "length name < 65535" using assms(2) by (simp add: ber_tlv_def)
  ultimately show ?thesis using last_name_faults step(1,2,4) by (simp add: parseSequenceOfASDU.simps [of s buf base 0])
qed

lemma last_payload_faults:
  assumes "drop (base + p) buf = ber_tlv 0xa2 c" and "length c < 65535" and "e = p + length (ber_tlv 0xa2 c)" and "e < 2 ^ 31"
    and "parseSequenceOfASDU s buf (base + (p + 1 + length (ber_len (length c)))) 0 (length c) = None"
  shows "sv_payload_loop s buf base p e = None"
proof -
  have "drop (base + p) buf = ber_tlv 0xa2 c @ []" using assms(1) by simp
  note step = element_step [OF this assms(2) eq_refl [OF assms(3) [symmetric]] assms(4)]
  then show ?thesis using assms(5) by (simp add: sv_payload_loop.simps [of s buf base p])
qed

lemma name_pdu_faults:
  assumes "drop base buf = name_pdu name" and "length (name_pdu name) < 65535"
  shows "parseSVPayload s buf base (int (length (name_pdu name))) = None"
proof -
  let ?y = "ber_tlv 0x30 (ber_tlv 0x80 name)"
  let ?z = "ber_tlv 0xa2 ?y"
  let ?n = "length (name_pdu name)" and ?q = "1 + length (ber_len (length ?z))"
  have l: "length (ber_tlv 0x80 name) < 65535" "length ?y < 65535" "length ?z < 65535" "?n < 2 ^ 31"
    using assms(2) by (simp_all add: name_pdu_def ber_tlv_def)
  have d0: "drop base buf = ber_tlv 0x60 ?z @ []" using assms(1) by (simp add: name_pdu_def)
  have nq: "?n = ?q + length ?z" by (simp add: name_pdu_def ber_tlv_def [of "0x60"])
  have d1: "drop (base + ?q) buf = ?z" using item_content [of base buf "[]" "0x60" ?z "[]" "[]"] d0 by simp
  have "drop (base + (?q + 1 + length (ber_len (length ?y)))) buf = ?y"
    using item_content [of "base + ?q" buf "[]" "0xa2" ?y "[]" "[]"] d1 by (simp add: add.assoc)
  from last_payload_faults [OF d1 l(2) nq l(4) last_sequence_faults [OF this l(1)]] show ?thesis
    using payload_enter [OF d0 l(3), of ?n s] by (simp add: name_pdu_def)
qed

text \<open>
  C40: A frame of the full size of the receive buffer can make the receiver write behind it: when the last element of
  the last ASDU is the \<open>svId\<close>, \<open>parseASDU\<close> ends the name with a NUL one octet behind the frame.
\<close>

theorem full_frame_overflows:
  assumes "length (sr_buffer rcv) = SV_ETH_BUFFER_LENGTH" and "sr_ethSocket rcv = OpenSocket"
    and "find (sv_matches rcv (appId ps) (dstAddress ps)) (sr_subscriberList rcv) = Some s"
    and "length (dstAddress ps) = 6" and "length srcAddr = 6" and "length name = 1480"
  shows "SVReceiver_tick rcv (sv_frame_header ps srcAddr False @ [5, 0xe0, 0, 0, 0, 0] @ name_pdu name) = None"
proof -
  let ?h = "sv_frame_header ps srcAddr False"
  let ?packet = "?h @ [5, 0xe0, 0, 0, 0, 0] @ name_pdu name"
  have lh: "length ?h = 16" using assms(4,5) by (simp add: sv_frame_header_def)
  have l1: "length (ber_tlv 0x80 name) = 1484" using assms(6) by (simp add: ber_tlv_def length_ber_len)
  have l2: "length (ber_tlv 0x30 (ber_tlv 0x80 name)) = 1488" by (simp add: ber_tlv_def [of "0x30"] l1 length_ber_len)
  have l3: "length (ber_tlv 0xa2 (ber_tlv 0x30 (ber_tlv 0x80 name))) = 1492" by (simp add: ber_tlv_def [of "0xa2"] l2 length_ber_len)
  have pdu: "length (name_pdu name) = 1496" by (simp add: name_pdu_def ber_tlv_def [of "0x60"] l3 length_ber_len)
  let ?rcv = "rcv\<lparr>sr_buffer := overlay (sr_buffer rcv) 0 ?packet\<rparr>"
  have n: "length ?packet = 1518" using lh pdu by simp
  have buf: "sr_buffer ?rcv = ?h @ [word_of_nat (1504 div 256), word_of_nat 1504, 0, 0, 0, 0] @ name_pdu name @ []"
    using assms(1) n by (simp add: overlay_def SV_ETH_BUFFER_LENGTH_def)
  have N: "length ?packet = length ?h + 6 + 1496" using n lh by simp
  have "parseSVMessage ?rcv (length ?packet) = handleSVApdu ?rcv (appId ps) (length ?h + 6) (int 1496) (dstAddress ps)"
    by (rule sv_header_parsed [OF assms(4,5) _ pdu buf N]) simp_all
  moreover have "find (sv_matches ?rcv (appId ps) (dstAddress ps)) (sr_subscriberList ?rcv) = Some s"
    using assms(3) by (simp add: sv_matches_buffer)
  moreover have "parseSVPayload s (sr_buffer ?rcv) (length ?h + 6) (int (length (name_pdu name))) = None"
  proof (rule name_pdu_faults)
    show "drop (length ?h + 6) (sr_buffer ?rcv) = name_pdu name" unfolding buf by simp
  qed (simp add: pdu)
  ultimately have "parseSVMessage ?rcv (length ?packet) = None" by (simp add: handleSVApdu_def pdu)
  then show ?thesis using assms(2) by (simp add: SVReceiver_tick_def)
qed

theorem full_frame_overflows_witness:
  "SVReceiver_tick sample_receiver (sv_frame_header sv_default_parameters (replicate 6 2) False @ [5, 0xe0, 0, 0, 0, 0]
     @ name_pdu (replicate 1480 65)) = None"
  by (rule full_frame_overflows [where s = "\<lparr>ss_ethAddr = replicate 6 0, ss_appId = 0x4000, ss_listener = True, ss_addr = 1\<rparr>"])
    (simp_all add: sample_receiver_def SVReceiver_create_def SVReceiver_startThreadless_def sv_matches_def sv_default_parameters_def)

text \<open>The socket stays in the receiver after it is destroyed.\<close>

lemma stop_keeps_socket:
  assumes "sr_ethSocket rcv = OpenSocket" and "sr_running rcv"
  shows "\<exists>rcv'. SVReceiver_stop rcv = Some rcv' \<and> \<not> SVReceiver_isRunning rcv' \<and> SVReceiver_stop rcv' = Some rcv'
    \<and> SVReceiver_tick rcv' packet = None \<and> SVReceiver_stopThreadless rcv' = None"
  using assms by (simp add: SVReceiver_stop_def SVReceiver_stopThreadless_def SVReceiver_isRunning_def SVReceiver_tick_def)

end
