(* ===== verification/Cotp.thy ===== *)
theory Cotp
  imports Prelude "HOL-Library.Signed_Division"
begin

text \<open>
  The transport layer under MMS, \<open>src/libiec61850/src/mms/iso_cotp/cotp.c\<close> (ISO 8073 class 0 over TCP, RFC 1006), with
  the byte buffers of \<open>src/libiec61850/src/common/byte_buffer.c\<close> and the buffer chains of
  \<open>src/libiec61850/src/common/buffer_chain.c\<close>.  The TCP socket (with or without TLS) is a script of the answers of the
  operating system: how many octets each write accepts and each read finds, a negative number for an error, and
  the octets sent so far and still to come.  A connection is the record of its members with its socket.
\<close>

subsection \<open>Byte buffers\<close>

record ByteBuffer =
  bb_buffer :: bytes
  bb_maxSize :: nat
  bb_size :: nat

definition ByteBuffer_create :: "nat \<Rightarrow> ByteBuffer" where
  "ByteBuffer_create maxSize = \<lparr>bb_buffer = replicate maxSize 0, bb_maxSize = maxSize, bb_size = 0\<rparr>"

definition ByteBuffer_wrap :: "bytes \<Rightarrow> nat \<Rightarrow> nat \<Rightarrow> ByteBuffer" where
  "ByteBuffer_wrap buf n maxSize = \<lparr>bb_buffer = buf, bb_maxSize = maxSize, bb_size = n\<rparr>"

definition ByteBuffer_append :: "ByteBuffer \<Rightarrow> bytes \<Rightarrow> nat \<Rightarrow> (int \<times> ByteBuffer) option" where
  "ByteBuffer_append self octets dataSize =
     (if bb_size self + dataSize \<le> bb_maxSize self then do {
        octets \<leftarrow> rdn octets 0 dataSize;
        (buf, _) \<leftarrow> puts octets (bb_buffer self) (bb_size self);
        Some (int dataSize, self\<lparr>bb_buffer := buf, bb_size := bb_size self + dataSize\<rparr>) }
      else Some (- 1, self))"

definition ByteBuffer_appendByte :: "ByteBuffer \<Rightarrow> u8 \<Rightarrow> (int \<times> ByteBuffer) option" where
  "ByteBuffer_appendByte self byte =
     (if bb_size self < bb_maxSize self then do {
        (buf, _) \<leftarrow> put byte (bb_buffer self) (bb_size self);
        Some (1, self\<lparr>bb_buffer := buf, bb_size := bb_size self + 1\<rparr>) }
      else Some (0, self))"

definition ByteBuffer_setSize :: "ByteBuffer \<Rightarrow> nat \<Rightarrow> nat \<times> ByteBuffer" where
  "ByteBuffer_setSize self n =
     (let self = (if n \<le> bb_maxSize self then self\<lparr>bb_size := n\<rparr> else self) in (bb_size self, self))"

text \<open>A chain of buffers: the length of the whole and its parts, each with the octets that count.\<close>

record BufferChain =
  bc_length :: nat
  bc_parts :: "bytes list"

record MemoryArea =
  ma_size :: nat
  ma_currentPos :: nat

definition MemoryArea_initialize :: "nat \<Rightarrow> MemoryArea" where
  "MemoryArea_initialize n = \<lparr>ma_size = n, ma_currentPos = 0\<rparr>"

text \<open>The block is its offset in the memory; \<open>None\<close> is \<open>NULL\<close>.\<close>

definition MemoryArea_getNextBlock :: "MemoryArea \<Rightarrow> nat \<Rightarrow> nat option \<times> MemoryArea" where
  "MemoryArea_getNextBlock self n =
     (if int n \<le> int (ma_size self) - int (ma_currentPos self)
      then (Some (ma_currentPos self), self\<lparr>ma_currentPos := ma_currentPos self + n\<rparr>) else (None, self))"

subsection \<open>State\<close>

record socket =
  so_writes :: "int list"
  so_sent :: bytes
  so_reads :: "int list"
  so_incoming :: bytes

record TSelector =
  ts_size :: nat
  ts_value :: bytes

record CotpConnection =
  co_remoteRef :: int
  co_localRef :: int
  co_protocolClass :: int
  co_tSelSrc :: TSelector
  co_tSelDst :: TSelector
  co_tpduSize :: nat
  co_isLastDataUnit :: bool
  co_payload :: ByteBuffer
  co_writeBuffer :: "ByteBuffer option"
  co_readBuffer :: ByteBuffer
  co_packetSize :: nat
  co_extensionBuffer :: "bytes option"
  co_extensionBufferSize :: nat
  co_extensionBufferFill :: nat
  co_socket :: socket

datatype CotpIndication =
    COTP_OK | COTP_ERROR | COTP_CONNECT_INDICATION | COTP_DATA_INDICATION | COTP_DISCONNECT_INDICATION
  | COTP_MORE_FRAGMENTS_FOLLOW

datatype TpktState = TPKT_PACKET_COMPLETE | TPKT_WAITING | TPKT_ERROR

definition COTP_MAX_TPDU_SIZE :: nat where
  "COTP_MAX_TPDU_SIZE = 8192"

definition COTP_DATA_HEADER_SIZE :: nat where
  "COTP_DATA_HEADER_SIZE = 3"

definition TPKT_RFC1006_HEADER_SIZE :: nat where
  "TPKT_RFC1006_HEADER_SIZE = 4"

definition CotpConnection_getTpduSize :: "CotpConnection \<Rightarrow> nat" where
  "CotpConnection_getTpduSize self = 2 ^ co_tpduSize self"

text \<open>The loop that looks for the exponent.\<close>

function tpdu_loop :: "nat \<Rightarrow> nat \<Rightarrow> nat" where
  "tpdu_loop newTpduSize tpduSize = (if 2 ^ newTpduSize < tpduSize then tpdu_loop (newTpduSize + 1) tpduSize else newTpduSize)"
  by pat_completeness auto
termination
  by (relation "measure (\<lambda>(n, size). size - 2 ^ n)") (auto intro: diff_less_mono2)

declare tpdu_loop.simps [simp del]

definition CotpConnection_setTpduSize :: "CotpConnection \<Rightarrow> nat \<Rightarrow> CotpConnection" where
  "CotpConnection_setTpduSize self tpduSize =
     (let tpduSize = (if COTP_MAX_TPDU_SIZE < tpduSize then COTP_MAX_TPDU_SIZE else tpduSize);
          newTpduSize = tpdu_loop 1 tpduSize;
          newTpduSize = (if tpduSize < 2 ^ newTpduSize then newTpduSize - 1 else newTpduSize)
      in self\<lparr>co_tpduSize := newTpduSize\<rparr>)"

definition CotpConnection_resetPayload :: "CotpConnection \<Rightarrow> CotpConnection" where
  "CotpConnection_resetPayload self = self\<lparr>co_payload := (co_payload self)\<lparr>bb_size := 0\<rparr>\<rparr>"

definition CotpConnection_init ::
    "socket \<Rightarrow> ByteBuffer \<Rightarrow> ByteBuffer \<Rightarrow> ByteBuffer option \<Rightarrow> bytes option \<Rightarrow> nat \<Rightarrow> CotpConnection" where
  "CotpConnection_init s payloadBuffer readBuffer writeBuffer extensionBuffer extensionBufferSize =
     (let tsel = \<lparr>ts_size = 2, ts_value = [0, 1, 0, 0]\<rparr>;
          self = \<lparr>co_remoteRef = - 1, co_localRef = 1, co_protocolClass = - 1, co_tSelSrc = tsel, co_tSelDst = tsel,
            co_tpduSize = 0, co_isLastDataUnit = False, co_payload = payloadBuffer, co_writeBuffer = writeBuffer,
            co_readBuffer = readBuffer, co_packetSize = 0, co_extensionBuffer = extensionBuffer,
            co_extensionBufferSize = extensionBufferSize, co_extensionBufferFill = 0, co_socket = s\<rparr>
      in CotpConnection_setTpduSize (CotpConnection_resetPayload self) COTP_MAX_TPDU_SIZE)"

subsection \<open>Sending\<close>

text \<open>At most \<open>n\<close> octets of \<open>buf\<close>; when the script ends, the system accepts everything.\<close>

definition writeToSocket :: "CotpConnection \<Rightarrow> bytes \<Rightarrow> nat \<Rightarrow> (int \<times> CotpConnection) option" where
  "writeToSocket self buf n = do {
     octets \<leftarrow> rdn buf 0 n;
     let s = co_socket self;
     Some (case so_writes s of
        [] \<Rightarrow> (int n, self\<lparr>co_socket := s\<lparr>so_sent := so_sent s @ octets\<rparr>\<rparr>)
      | r # rs \<Rightarrow>
          if r < 0 then (- 1, self\<lparr>co_socket := s\<lparr>so_writes := rs\<rparr>\<rparr>)
          else (let k = min (nat r) n
                in (int k, self\<lparr>co_socket := s\<lparr>so_writes := rs, so_sent := so_sent s @ take k octets\<rparr>\<rparr>))) }"

definition flushBuffer :: "CotpConnection \<Rightarrow> (bool \<times> CotpConnection) option" where
  "flushBuffer self =
     (let fill = co_extensionBufferFill self
      in if 0 < fill then do {
           buf \<leftarrow> co_extensionBuffer self;
           (sentBytes, self) \<leftarrow> writeToSocket self buf fill;
           if 0 < sentBytes then
             (if sentBytes \<noteq> int fill
              then Some (True, self\<lparr>co_extensionBuffer := Some (overlay buf 0 (drop (nat sentBytes) (take fill buf))),
                     co_extensionBufferFill := fill - nat sentBytes\<rparr>)
              else Some (True, self\<lparr>co_extensionBufferFill := 0\<rparr>))
           else if sentBytes = - 1 then Some (False, self)
           else Some (True, self) }
         else Some (True, self))"

definition sendBuffer :: "CotpConnection \<Rightarrow> (bool \<times> CotpConnection) option" where
  "sendBuffer self = do {
     wb \<leftarrow> co_writeBuffer self;
     let remainingSize = bb_size wb;
     let buffer = bb_buffer wb;
     (ok, self) \<leftarrow> flushBuffer self;
     if \<not> ok then Some (False, self)
     else do {
       (sentBytes, self) \<leftarrow> (if co_extensionBufferFill self = 0 then writeToSocket self buffer remainingSize else Some (0, self));
       if sentBytes = - 1 then Some (False, self)
       else if sentBytes \<noteq> int remainingSize then
         (case co_extensionBuffer self of
            None \<Rightarrow> Some (False, self)
          | Some extBuf \<Rightarrow> do {
              octets \<leftarrow> rdn buffer (nat sentBytes) (remainingSize - nat sentBytes);
              (extBuf, fill) \<leftarrow> puts octets extBuf (co_extensionBufferFill self);
              Some (True, self\<lparr>co_extensionBuffer := Some extBuf, co_extensionBufferFill := fill,
                     co_writeBuffer := Some (snd (ByteBuffer_setSize wb 0))\<rparr>) })
       else Some (True, self\<lparr>co_writeBuffer := Some (snd (ByteBuffer_setSize wb 0))\<rparr>) } }"

text \<open>Octets stored into the write buffer at a position, and its size behind them.\<close>

definition write_octets :: "CotpConnection \<Rightarrow> bytes \<Rightarrow> nat \<Rightarrow> CotpConnection option" where
  "write_octets self octets pos = do {
     wb \<leftarrow> co_writeBuffer self;
     (buf, pos) \<leftarrow> puts octets (bb_buffer wb) pos;
     Some (self\<lparr>co_writeBuffer := Some (wb\<lparr>bb_buffer := buf, bb_size := pos\<rparr>)\<rparr>) }"

definition writeRfc1006Header :: "CotpConnection \<Rightarrow> nat \<Rightarrow> CotpConnection option" where
  "writeRfc1006Header self len = write_octets self [0x03, 0x00, word_of_nat (len div 256), word_of_nat len] 0"

definition writeDataTpduHeader :: "CotpConnection \<Rightarrow> bool \<Rightarrow> CotpConnection option" where
  "writeDataTpduHeader self isLastUnit = write_octets self [0x02, 0xf0, if isLastUnit then 0x80 else 0x00] 4"

text \<open>
  One octet of the chain: the rest of the current part, the parts behind it.  The pointer of the code moves to the next
  part when the current one is used up.
\<close>

fun next_octet :: "bytes \<Rightarrow> bytes list \<Rightarrow> (u8 \<times> bytes \<times> bytes list) option" where
  "next_octet (x # xs) ps = Some (x, xs, ps)"
| "next_octet [] ((x # xs) # ps) = Some (x, xs, ps)"
| "next_octet [] ([] # ps) = None"
| "next_octet [] [] = None"

fun copy_chain :: "nat \<Rightarrow> bytes \<Rightarrow> bytes list \<Rightarrow> (bytes \<times> bytes \<times> bytes list) option" where
  "copy_chain 0 cur ps = Some ([], cur, ps)"
| "copy_chain (Suc n) cur ps = do {
     (x, cur, ps) \<leftarrow> next_octet cur ps;
     (xs, cur, ps) \<leftarrow> copy_chain n cur ps;
     Some (x # xs, cur, ps) }"

fun fragment_loop :: "nat \<Rightarrow> CotpConnection \<Rightarrow> nat \<Rightarrow> nat \<Rightarrow> nat \<Rightarrow> bytes \<Rightarrow> bytes list \<Rightarrow> (CotpIndication \<times> CotpConnection) option" where
  "fragment_loop 0 self fragmentPayloadSize len currentBufPos cur ps = Some (COTP_OK, self)"
| "fragment_loop (Suc fragments) self fragmentPayloadSize len currentBufPos cur ps = do {
     let currentLimit = (if 0 < fragments then currentBufPos + fragmentPayloadSize else len);
     self \<leftarrow> writeRfc1006Header self (7 + (currentLimit - currentBufPos));
     self \<leftarrow> writeDataTpduHeader self (fragments = 0);
     (octets, cur, ps) \<leftarrow> copy_chain (currentLimit - currentBufPos) cur ps;
     self \<leftarrow> write_octets self octets 7;
     (ok, self) \<leftarrow> sendBuffer self;
     if \<not> ok then Some (COTP_ERROR, self)
     else fragment_loop fragments self fragmentPayloadSize len currentLimit cur ps }"

text \<open>
  The number of fragments is computed with C's division, which rounds towards zero: it is not positive when the TPDU
  size is smaller than the header.
\<close>

definition CotpConnection_sendDataMessage :: "CotpConnection \<Rightarrow> BufferChain \<Rightarrow> (CotpIndication \<times> CotpConnection) option" where
  "CotpConnection_sendDataMessage self payload = do {
     let fragmentPayloadSize = int (CotpConnection_getTpduSize self) - int COTP_DATA_HEADER_SIZE;
     let len = int (bc_length payload);
     let fragments = (if fragmentPayloadSize < len
                      then len sdiv fragmentPayloadSize + (if len smod fragmentPayloadSize \<noteq> 0 then 1 else 0) else 1);
     let totalSize = fragments * (int COTP_DATA_HEADER_SIZE + 4) + len;
     (ok, self) \<leftarrow> flushBuffer self;
     if \<not> ok then Some (COTP_ERROR, self)
     else if co_extensionBuffer self \<noteq> None
         \<and> int (co_extensionBufferSize self) - int (co_extensionBufferFill self) < totalSize then Some (COTP_ERROR, self)
     else (case bc_parts payload of
             [] \<Rightarrow> None
           | cur # ps \<Rightarrow> fragment_loop (nat fragments) self (nat fragmentPayloadSize) (bc_length payload) 0 cur ps) }"

definition CotpConnection_flushBuffer :: "CotpConnection \<Rightarrow> CotpConnection option" where
  "CotpConnection_flushBuffer self =
     (if 0 < co_extensionBufferFill self then map_option snd (flushBuffer self) else Some self)"

subsection \<open>Connection messages\<close>

definition writeOptions :: "CotpConnection \<Rightarrow> CotpConnection option" where
  "writeOptions self = do {
     wb \<leftarrow> co_writeBuffer self;
     let buffer = bb_buffer wb;
     let bufPos = bb_size wb;
     (buffer, bufPos) \<leftarrow> (if co_tpduSize self \<noteq> 0 then puts [0xc0, 0x01, word_of_nat (co_tpduSize self)] buffer bufPos
                          else Some (buffer, bufPos));
     dst \<leftarrow> rdn (ts_value (co_tSelDst self)) 0 (ts_size (co_tSelDst self));
     (buffer, bufPos) \<leftarrow> (if ts_size (co_tSelDst self) \<noteq> 0
                          then puts ([0xc2, word_of_nat (ts_size (co_tSelDst self))] @ dst) buffer bufPos else Some (buffer, bufPos));
     src \<leftarrow> rdn (ts_value (co_tSelSrc self)) 0 (ts_size (co_tSelSrc self));
     (buffer, bufPos) \<leftarrow> (if ts_size (co_tSelSrc self) \<noteq> 0
                          then puts ([0xc1, word_of_nat (ts_size (co_tSelSrc self))] @ src) buffer bufPos else Some (buffer, bufPos));
     Some (self\<lparr>co_writeBuffer := Some (wb\<lparr>bb_buffer := buffer, bb_size := bufPos\<rparr>)\<rparr>) }"

definition getOptionsLength :: "CotpConnection \<Rightarrow> nat" where
  "getOptionsLength self =
     (if co_tpduSize self \<noteq> 0 then 3 else 0)
     + (if ts_size (co_tSelDst self) \<noteq> 0 then 2 + ts_size (co_tSelDst self) else 0)
     + (if ts_size (co_tSelSrc self) \<noteq> 0 then 2 + ts_size (co_tSelSrc self) else 0)"

text \<open>The octets of a reference; an \<open>int\<close> that may be \<open>-1\<close>.\<close>

definition ref_octets :: "int \<Rightarrow> bytes" where
  "ref_octets r = [word_of_int (r sdiv 256), word_of_int r]"

definition writeStaticConnectResponseHeader :: "CotpConnection \<Rightarrow> nat \<Rightarrow> CotpConnection option" where
  "writeStaticConnectResponseHeader self optionsLength =
     write_octets self ([word_of_nat (6 + optionsLength), 0xd0] @ ref_octets (co_remoteRef self) @ ref_octets (co_localRef self)
       @ [word_of_int (co_protocolClass self)]) 4"

definition allocateWriteBuffer :: "CotpConnection \<Rightarrow> CotpConnection" where
  "allocateWriteBuffer self =
     (if co_writeBuffer self = None
      then self\<lparr>co_writeBuffer := Some (ByteBuffer_create (CotpConnection_getTpduSize self + TPKT_RFC1006_HEADER_SIZE))\<rparr> else self)"

definition sent_indication :: "bool \<times> CotpConnection \<Rightarrow> CotpIndication \<times> CotpConnection" where
  "sent_indication r = (if fst r then COTP_OK else COTP_ERROR, snd r)"

definition CotpConnection_sendConnectionRequestMessage ::
    "CotpConnection \<Rightarrow> TSelector \<Rightarrow> TSelector \<Rightarrow> (CotpIndication \<times> CotpConnection) option" where
  "CotpConnection_sendConnectionRequestMessage self remoteTSelector localTSelector = do {
     let self = (allocateWriteBuffer self)\<lparr>co_tSelDst := remoteTSelector, co_tSelSrc := localTSelector\<rparr>;
     let cotpRequestSize = getOptionsLength self + 6;
     let conRequestSize = cotpRequestSize + 5;
     wb \<leftarrow> co_writeBuffer self;
     if bb_maxSize wb < conRequestSize then Some (COTP_ERROR, self)
     else do {
       self \<leftarrow> writeRfc1006Header self conRequestSize;
       self \<leftarrow> write_octets self ([word_of_nat cotpRequestSize, 0xe0, 0, 0] @ ref_octets (co_localRef self) @ [0]) 4;
       self \<leftarrow> writeOptions self;
       map_option sent_indication (sendBuffer self) } }"

definition CotpConnection_sendConnectionResponseMessage :: "CotpConnection \<Rightarrow> (CotpIndication \<times> CotpConnection) option" where
  "CotpConnection_sendConnectionResponseMessage self = do {
     let self = allocateWriteBuffer self;
     let optionsLength = getOptionsLength self;
     let messageLength = 11 + optionsLength;
     self \<leftarrow> writeRfc1006Header self messageLength;
     self \<leftarrow> writeStaticConnectResponseHeader self optionsLength;
     self \<leftarrow> writeOptions self;
     map_option sent_indication (sendBuffer self) }"

subsection \<open>Parsing\<close>

text \<open>A selector option overwrites the first octets of the stored selector.\<close>

definition store_selector :: "TSelector \<Rightarrow> bytes \<Rightarrow> TSelector option" where
  "store_selector s octets = do {
     (value, _) \<leftarrow> puts octets (ts_value s) 0;
     Some \<lparr>ts_size = length octets, ts_value = value\<rparr> }"

text \<open>\<open>buffer\<close> is an offset in the read buffer.  \<open>1 << v\<close> is undefined from 31 on.\<close>

function parseOptions :: "CotpConnection \<Rightarrow> nat \<Rightarrow> nat \<Rightarrow> nat \<Rightarrow> (bool \<times> CotpConnection) option" where
  "parseOptions self buffer bufPos bufLen =
     (if bufPos < bufLen then do {
        let mem = bb_buffer (co_readBuffer self);
        optionType \<leftarrow> rd mem (buffer + bufPos);
        b \<leftarrow> rd mem (buffer + bufPos + 1);
        let optionLen = unat b;
        let bufPos = bufPos + 2;
        if bufLen < bufPos + optionLen then Some (False, self)
        else if optionType = 0xc0 then
          (if optionLen = 1 then do {
             v \<leftarrow> rd mem (buffer + bufPos);
             if 31 \<le> v then None
             else parseOptions (CotpConnection_setTpduSize self (2 ^ unat v)) buffer (bufPos + 1) bufLen }
           else Some (False, self))
        else if optionType = 0xc1 then
          (if optionLen < 5 then do {
             octets \<leftarrow> rdn mem (buffer + bufPos) optionLen;
             sel \<leftarrow> store_selector (co_tSelSrc self) octets;
             parseOptions (self\<lparr>co_tSelSrc := sel\<rparr>) buffer (bufPos + optionLen) bufLen }
           else Some (False, self))
        else if optionType = 0xc2 then
          (if optionLen < 5 then do {
             octets \<leftarrow> rdn mem (buffer + bufPos) optionLen;
             sel \<leftarrow> store_selector (co_tSelDst self) octets;
             parseOptions (self\<lparr>co_tSelDst := sel\<rparr>) buffer (bufPos + optionLen) bufLen }
           else Some (False, self))
        else if optionType = 0xc6 then
          (if optionLen = 1 then parseOptions self buffer (bufPos + 1) bufLen else Some (False, self))
        else parseOptions self buffer (bufPos + optionLen) bufLen }
      else Some (True, self))"
  by pat_completeness auto
termination
  by (relation "measure (\<lambda>(_, _, bufPos, bufLen). bufLen - bufPos)") (auto split: if_splits)

declare parseOptions.simps [simp del]

definition getUint16 :: "bytes \<Rightarrow> nat \<Rightarrow> int option" where
  "getUint16 buffer pos = do { b0 \<leftarrow> rd buffer pos; b1 \<leftarrow> rd buffer (pos + 1); Some (int (unat b0) * 256 + int (unat b1)) }"

definition parse_connect :: "CotpConnection \<Rightarrow> nat \<Rightarrow> nat \<Rightarrow> nat \<Rightarrow> (bool \<times> CotpConnection) option" where
  "parse_connect self refPos buffer len =
     (if len < 6 then Some (False, self)
      else do {
        remoteRef \<leftarrow> getUint16 (bb_buffer (co_readBuffer self)) refPos;
        c \<leftarrow> rd (bb_buffer (co_readBuffer self)) (buffer + 4);
        parseOptions (self\<lparr>co_remoteRef := remoteRef, co_protocolClass := int (unat c)\<rparr>) (buffer + 5) 0 (len - 6) })"

definition parseConnectRequestTpdu :: "CotpConnection \<Rightarrow> nat \<Rightarrow> nat \<Rightarrow> (bool \<times> CotpConnection) option" where
  "parseConnectRequestTpdu self buffer len = parse_connect self (buffer + 2) buffer len"

definition parseConnectConfirmTpdu :: "CotpConnection \<Rightarrow> nat \<Rightarrow> nat \<Rightarrow> (bool \<times> CotpConnection) option" where
  "parseConnectConfirmTpdu self buffer len = parse_connect self buffer buffer len"

definition parseDataTpdu :: "CotpConnection \<Rightarrow> nat \<Rightarrow> nat \<Rightarrow> (bool \<times> CotpConnection) option" where
  "parseDataTpdu self buffer len =
     (if len \<noteq> 2 then Some (False, self)
      else do {
        flowControl \<leftarrow> rd (bb_buffer (co_readBuffer self)) buffer;
        Some (True, self\<lparr>co_isLastDataUnit := (flowControl AND 0x80 \<noteq> 0)\<rparr>) })"

definition addPayloadToBuffer :: "CotpConnection \<Rightarrow> nat \<Rightarrow> int \<Rightarrow> (bool \<times> CotpConnection) option" where
  "addPayloadToBuffer self buffer payloadLength =
     (let p = co_payload self
      in if payloadLength < 1 then Some (False, self)
         else if bb_maxSize p < bb_size p + nat payloadLength then Some (False, self)
         else do {
           octets \<leftarrow> rdn (bb_buffer (co_readBuffer self)) buffer (nat payloadLength);
           (buf, n) \<leftarrow> puts octets (bb_buffer p) (bb_size p);
           Some (True, self\<lparr>co_payload := p\<lparr>bb_buffer := buf, bb_size := n\<rparr>\<rparr>) })"

definition parseCotpMessage :: "CotpConnection \<Rightarrow> (CotpIndication \<times> CotpConnection) option" where
  "parseCotpMessage self = do {
     let mem = bb_buffer (co_readBuffer self);
     let tpduLength = int (bb_size (co_readBuffer self)) - 4;
     len \<leftarrow> rd mem 4;
     if tpduLength < int (unat len) then Some (COTP_ERROR, self)
     else do {
       tpduType \<leftarrow> rd mem 5;
       if tpduType = 0xe0 then do {
         (ok, self) \<leftarrow> parseConnectRequestTpdu self 6 (unat len);
         Some (if ok then COTP_CONNECT_INDICATION else COTP_ERROR, self) }
       else if tpduType = 0xd0 then do {
         (ok, self) \<leftarrow> parseConnectConfirmTpdu self 6 (unat len);
         Some (if ok then COTP_CONNECT_INDICATION else COTP_ERROR, self) }
       else if tpduType = 0xf0 then do {
         (ok, self) \<leftarrow> parseDataTpdu self 6 (unat len);
         if ok then do {
           (ok, self) \<leftarrow> addPayloadToBuffer self 7 (tpduLength - 3);
           Some (if \<not> ok then COTP_ERROR
                 else if co_isLastDataUnit self then COTP_DATA_INDICATION else COTP_MORE_FRAGMENTS_FOLLOW, self) }
         else Some (COTP_ERROR, self) }
       else Some (COTP_ERROR, self) } }"

definition CotpConnection_parseIncomingMessage :: "CotpConnection \<Rightarrow> (CotpIndication \<times> CotpConnection) option" where
  "CotpConnection_parseIncomingMessage self = do {
     (indication, self) \<leftarrow> parseCotpMessage self;
     Some (indication, self\<lparr>co_readBuffer := (co_readBuffer self)\<lparr>bb_size := 0\<rparr>, co_packetSize := 0\<rparr>) }"

subsection \<open>Receiving\<close>

text \<open>The octets that a read delivers; when the script ends, nothing is ready.\<close>

definition readFromSocket :: "CotpConnection \<Rightarrow> nat \<Rightarrow> int \<times> bytes \<times> CotpConnection" where
  "readFromSocket self n =
     (let s = co_socket self
      in case so_reads s of
           [] \<Rightarrow> (0, [], self)
         | r # rs \<Rightarrow>
             if r < 0 then (- 1, [], self\<lparr>co_socket := s\<lparr>so_reads := rs\<rparr>\<rparr>)
             else (let octets = take (min (nat r) n) (so_incoming s)
                   in (int (length octets), octets,
                       self\<lparr>co_socket := s\<lparr>so_reads := rs, so_incoming := drop (length octets) (so_incoming s)\<rparr>\<rparr>)))"

definition set_read :: "CotpConnection \<Rightarrow> bytes \<Rightarrow> nat \<Rightarrow> CotpConnection" where
  "set_read self buf n = self\<lparr>co_readBuffer := (co_readBuffer self)\<lparr>bb_buffer := buf, bb_size := n\<rparr>\<rparr>"

text \<open>The second half of the function: the rest of a packet whose header is complete.\<close>

definition read_rest :: "CotpConnection \<Rightarrow> bytes \<Rightarrow> nat \<Rightarrow> (TpktState \<times> CotpConnection) option" where
  "read_rest self buffer bufPos =
     (if co_packetSize self \<le> bufPos then Some (TPKT_ERROR, set_read self buffer 0)
      else do {
        let (readBytes, octets, self) = readFromSocket self (co_packetSize self - bufPos);
        if readBytes < 0 then Some (TPKT_ERROR, set_read self buffer 0)
        else do {
          (buffer, bufPos) \<leftarrow> puts octets buffer bufPos;
          Some (if bufPos < co_packetSize self then TPKT_WAITING else TPKT_PACKET_COMPLETE, set_read self buffer bufPos) } })"

definition read_packet :: "CotpConnection \<Rightarrow> (TpktState \<times> CotpConnection) option" where
  "read_packet self = do {
     let buffer = bb_buffer (co_readBuffer self);
     let bufPos = bb_size (co_readBuffer self);
     if bufPos < 4 then do {
       let (readBytes, octets, self) = readFromSocket self (4 - bufPos);
       if readBytes < 0 then Some (TPKT_ERROR, set_read self buffer 0)
       else do {
         (buffer, bufPos) \<leftarrow> puts octets buffer bufPos;
         if bufPos = 4 then do {
           b0 \<leftarrow> rd buffer 0;
           b1 \<leftarrow> rd buffer 1;
           b2 \<leftarrow> rd buffer 2;
           b3 \<leftarrow> rd buffer 3;
           if b0 = 3 \<and> b1 = 0 then do {
             let self = self\<lparr>co_packetSize := unat b2 * 256 + unat b3\<rparr>;
             if bb_maxSize (co_readBuffer self) < co_packetSize self then Some (TPKT_ERROR, set_read self buffer 0)
             else read_rest self buffer bufPos }
           else Some (TPKT_ERROR, set_read self buffer 0) }
         else Some (TPKT_WAITING, set_read self buffer bufPos) } }
     else read_rest self buffer bufPos }"

definition CotpConnection_readToTpktBuffer :: "CotpConnection \<Rightarrow> (TpktState \<times> CotpConnection) option" where
  "CotpConnection_readToTpktBuffer self =
     (if bb_maxSize (co_readBuffer self) \<le> 4 then None
      else if 0 < co_extensionBufferFill self then do {
        (ok, self) \<leftarrow> flushBuffer self;
        if \<not> ok then Some (TPKT_ERROR, self\<lparr>co_readBuffer := (co_readBuffer self)\<lparr>bb_size := 0\<rparr>\<rparr>)
        else if 0 < co_extensionBufferFill self then Some (TPKT_WAITING, self)
        else read_packet self }
      else read_packet self)"

end
