(* ===== verification/CotpSend.thy ===== *)
theory CotpSend
  imports Cotp
begin

text \<open>
  Sending over the transport layer: the octets a connection owes the network are those its socket has taken and
  those that wait in the extension buffer.  Whatever the operating system answers, flushing never changes this
  stream, a frame is appended to it whole, and a message is appended as the sequence of its data TPDUs.
\<close>

subsection \<open>The stream of a connection and its invariant\<close>

definition pending :: "CotpConnection \<Rightarrow> bytes" where
  "pending c = (case co_extensionBuffer c of None \<Rightarrow> [] | Some b \<Rightarrow> take (co_extensionBufferFill c) b)"

definition wire :: "CotpConnection \<Rightarrow> bytes" where
  "wire c = so_sent (co_socket c) @ pending c"

definition conn_ok :: "CotpConnection \<Rightarrow> bool" where
  "conn_ok c \<longleftrightarrow>
     (case co_extensionBuffer c of None \<Rightarrow> co_extensionBufferFill c = 0
      | Some b \<Rightarrow> length b = co_extensionBufferSize c \<and> co_extensionBufferFill c \<le> co_extensionBufferSize c)"

definition wb_ok :: "CotpConnection \<Rightarrow> nat \<Rightarrow> bool" where
  "wb_ok c n \<longleftrightarrow> (case co_writeBuffer c of None \<Rightarrow> False | Some wb \<Rightarrow> n \<le> bb_maxSize wb \<and> length (bb_buffer wb) = bb_maxSize wb)"

text \<open>What sending leaves alone.\<close>

definition send_frame :: "CotpConnection \<Rightarrow> CotpConnection \<Rightarrow> bool" where
  "send_frame c d \<longleftrightarrow>
     d\<lparr>co_socket := co_socket c, co_extensionBuffer := co_extensionBuffer c, co_extensionBufferFill := co_extensionBufferFill c,
       co_writeBuffer := co_writeBuffer c\<rparr> = c
     \<and> (co_extensionBuffer d = None \<longleftrightarrow> co_extensionBuffer c = None)
     \<and> so_reads (co_socket d) = so_reads (co_socket c) \<and> so_incoming (co_socket d) = so_incoming (co_socket c)
     \<and> set (so_writes (co_socket d)) \<subseteq> set (so_writes (co_socket c))"

text \<open>The system never refuses a write with an error.\<close>

definition no_error :: "CotpConnection \<Rightarrow> bool" where
  "no_error c \<longleftrightarrow> (\<forall>r \<in> set (so_writes (co_socket c)). 0 \<le> r)"

lemma send_frame_refl: "send_frame c c"
  by (simp add: send_frame_def)

lemma send_frame_trans:
  assumes "send_frame c d" and "send_frame d e"
  shows "send_frame c e"
proof -
  let ?r = "\<lambda>c d. d\<lparr>co_socket := co_socket c, co_extensionBuffer := co_extensionBuffer c,
    co_extensionBufferFill := co_extensionBufferFill c, co_writeBuffer := co_writeBuffer c\<rparr>"
  have "?r c d = c" and "?r d e = d" using assms by (simp_all add: send_frame_def)
  moreover have "?r c (?r d e) = ?r c e" by simp
  ultimately have "?r c e = c" by simp
  then show ?thesis using assms by (auto simp: send_frame_def)
qed

lemma send_frameD:
  assumes "send_frame c d"
  shows "co_extensionBuffer d = None \<longleftrightarrow> co_extensionBuffer c = None"
    and "co_extensionBufferSize d = co_extensionBufferSize c" and "co_tpduSize d = co_tpduSize c"
    and "no_error c \<Longrightarrow> no_error d"
proof -
  let ?e = "d\<lparr>co_socket := co_socket c, co_extensionBuffer := co_extensionBuffer c, co_extensionBufferFill := co_extensionBufferFill c,
       co_writeBuffer := co_writeBuffer c\<rparr>"
  have e: "?e = c" using assms by (simp add: send_frame_def)
  show "co_extensionBufferSize d = co_extensionBufferSize c" using arg_cong [OF e, of co_extensionBufferSize] by simp
  show "co_tpduSize d = co_tpduSize c" using arg_cong [OF e, of co_tpduSize] by simp
qed (use assms in \<open>auto simp: send_frame_def no_error_def\<close>)

lemma conn_ok_pending: "conn_ok c \<Longrightarrow> length (pending c) = co_extensionBufferFill c"
  by (auto simp: conn_ok_def pending_def split: option.splits)

subsection \<open>The socket\<close>

lemma writeToSocket_cases:
  assumes "n \<le> length buf"
  obtains s where "writeToSocket c buf n = Some (- 1, c\<lparr>co_socket := s\<rparr>)" "so_sent s = so_sent (co_socket c)"
      "send_frame c (c\<lparr>co_socket := s\<rparr>)" "\<not> no_error c"
  | k s where "writeToSocket c buf n = Some (int k, c\<lparr>co_socket := s\<rparr>)" "k \<le> n"
      "so_sent s = so_sent (co_socket c) @ take k buf" "send_frame c (c\<lparr>co_socket := s\<rparr>)"
proof -
  have frame: "send_frame c (c\<lparr>co_socket := s\<rparr>)" if "so_reads s = so_reads (co_socket c)"
      "so_incoming s = so_incoming (co_socket c)" "set (so_writes s) \<subseteq> set (so_writes (co_socket c))" for s
    using that by (simp add: send_frame_def)
  show ?thesis
  proof (cases "so_writes (co_socket c)")
    case Nil
    then show ?thesis using assms
      by (intro that(2) [of n "co_socket c\<lparr>so_sent := so_sent (co_socket c) @ take n buf\<rparr>"] frame)
         (auto simp: writeToSocket_def rdn_in Let_def)
  next
    case (Cons r rs)
    show ?thesis
    proof (cases "r < 0")
      case True
      then show ?thesis using assms Cons
        by (intro that(1) [of "co_socket c\<lparr>so_writes := rs\<rparr>"] frame) (auto simp: writeToSocket_def rdn_in no_error_def)
    next
      case False
      then show ?thesis using assms Cons
        by (intro that(2) [of "min (nat r) n" "co_socket c\<lparr>so_writes := rs, so_sent := so_sent (co_socket c) @ take (min (nat r) n) buf\<rparr>"] frame)
           (auto simp: writeToSocket_def rdn_in Let_def)
    qed
  qed
qed

lemma overlay_take_drop:
  assumes "k \<le> n" and "n \<le> length b"
  shows "take (n - k) (overlay b 0 (drop k (take n b))) = drop k (take n b)"
    and "length (overlay b 0 (drop k (take n b))) = length b"
  using assms by (simp_all add: overlay_def)

text \<open>Flushing moves octets from the extension buffer to the socket; the stream stays.\<close>

lemma flushBuffer_stream:
  assumes ok: "conn_ok c"
  obtains r d where "flushBuffer c = Some (r, d)" "conn_ok d" "wire d = wire c" "send_frame c d"
    "co_writeBuffer d = co_writeBuffer c" "co_extensionBufferFill d \<le> co_extensionBufferFill c" "no_error c \<longrightarrow> r"
proof (cases "co_extensionBufferFill c = 0")
  case True
  then show ?thesis using ok by (intro that [of True c]) (auto simp: flushBuffer_def send_frame_refl)
next
  case False
  let ?n = "co_extensionBufferFill c"
  obtain b where b: "co_extensionBuffer c = Some b" "length b = co_extensionBufferSize c" "?n \<le> length b"
    using ok False by (auto simp: conn_ok_def split: option.splits)
  show ?thesis
  proof (rule writeToSocket_cases [OF b(3), of c])
    fix s assume s: "writeToSocket c b ?n = Some (- 1, c\<lparr>co_socket := s\<rparr>)" "so_sent s = so_sent (co_socket c)"
      "send_frame c (c\<lparr>co_socket := s\<rparr>)" "\<not> no_error c"
    show thesis using s b False ok
      by (intro that [of False "c\<lparr>co_socket := s\<rparr>"]) (auto simp: flushBuffer_def conn_ok_def wire_def pending_def)
  next
    fix k s assume s: "writeToSocket c b ?n = Some (int k, c\<lparr>co_socket := s\<rparr>)" "k \<le> ?n"
      "so_sent s = so_sent (co_socket c) @ take k b" "send_frame c (c\<lparr>co_socket := s\<rparr>)"
    define d where "d = (if k = 0 then c\<lparr>co_socket := s\<rparr>
      else if k = ?n then c\<lparr>co_socket := s, co_extensionBufferFill := 0\<rparr>
      else c\<lparr>co_socket := s, co_extensionBuffer := Some (overlay b 0 (drop k (take ?n b))), co_extensionBufferFill := ?n - k\<rparr>)"
    have frame: "send_frame c d" using s(4) b(1) by (simp add: d_def send_frame_def)
    have split: "take k b @ drop k (take ?n b) = take ?n b"
      using s(2) append_take_drop_id [of k "take ?n b"] by (simp add: min_absorb1)
    show thesis
    proof (rule that [of True d])
      show "flushBuffer c = Some (True, d)" using s b False by (auto simp: flushBuffer_def Let_def d_def)
      show "conn_ok d" using s b ok False by (auto simp: d_def conn_ok_def overlay_take_drop)
      show "wire d = wire c"
      proof -
        consider "k = 0" | "k = ?n" "k \<noteq> 0" | "k \<noteq> 0" "k \<noteq> ?n" by blast
        then show ?thesis
        proof cases
          case 3
          then show ?thesis using s(2) by (simp add: d_def wire_def pending_def b(1) s(3) split overlay_take_drop [OF s(2) b(3)])
        qed (simp_all add: d_def wire_def pending_def b(1) s(3))
      qed
    qed (use frame in \<open>auto simp: d_def\<close>)
  qed
qed

subsection \<open>Frames\<close>

text \<open>A frame that fits behind what waits is appended to the stream; when the socket fails a part of it may have gone.\<close>

lemma sendBuffer_stream:
  assumes ok: "conn_ok c" and wb: "co_writeBuffer c = Some wb" "bb_size wb \<le> length (bb_buffer wb)"
    and room: "co_extensionBuffer c = None \<or> co_extensionBufferFill c + bb_size wb \<le> co_extensionBufferSize c"
  obtains r d where "sendBuffer c = Some (r, d)" "conn_ok d" "send_frame c d"
    "r \<longrightarrow> wire d = wire c @ take (bb_size wb) (bb_buffer wb)"
    "\<not> r \<longrightarrow> (\<exists>k \<le> bb_size wb. wire d = wire c @ take k (bb_buffer wb))"
    "co_writeBuffer d = Some (if r then wb\<lparr>bb_size := 0\<rparr> else wb)"
    "co_extensionBufferFill d \<le> co_extensionBufferFill c + bb_size wb"
    "no_error c \<and> co_extensionBuffer c \<noteq> None \<longrightarrow> r"
proof -
  let ?n = "bb_size wb" and ?b = "bb_buffer wb"
  obtain r d where f: "flushBuffer c = Some (r, d)" "conn_ok d" "wire d = wire c" "send_frame c d"
    "co_writeBuffer d = co_writeBuffer c" "co_extensionBufferFill d \<le> co_extensionBufferFill c" "no_error c \<longrightarrow> r"
    by (rule flushBuffer_stream [OF ok])
  note fd = send_frameD [OF f(4)]
  consider (fail) "\<not> r" | (wait) "r" "co_extensionBufferFill d \<noteq> 0" | (go) "r" "co_extensionBufferFill d = 0" by blast
  then show ?thesis
  proof cases
    case fail
    then show ?thesis using f wb by (intro that [of False d]) (auto simp: sendBuffer_def intro: exI [of _ 0])
  next
    case wait
    then obtain x where x: "co_extensionBuffer d = Some x" "length x = co_extensionBufferSize d"
      "co_extensionBufferFill d \<le> co_extensionBufferSize d"
      using f(2) by (auto simp: conn_ok_def split: option.splits)
    then have fit: "co_extensionBufferFill d + ?n \<le> length x" using room f(6) fd by auto
    define e where "e = (if ?n = 0 then d\<lparr>co_writeBuffer := Some (wb\<lparr>bb_size := 0\<rparr>)\<rparr>
      else d\<lparr>co_extensionBuffer := Some (overlay x (co_extensionBufferFill d) (take ?n ?b)),
        co_extensionBufferFill := co_extensionBufferFill d + ?n, co_writeBuffer := Some (wb\<lparr>bb_size := 0\<rparr>)\<rparr>)"
    have "sendBuffer c = Some (True, e)"
      using wait f wb x fit by (auto simp: sendBuffer_def Let_def e_def rdn_in puts_fits ByteBuffer_setSize_def)
    moreover have "send_frame c e" by (rule send_frame_trans [OF f(4)]) (use x in \<open>simp add: send_frame_def e_def\<close>)
    moreover have "wire e = wire d @ take ?n ?b"
      using x fit wb(2) by (simp add: e_def wire_def pending_def overlay_def)
    moreover have "conn_ok e" using f(2) x fit wb(2) by (simp add: e_def conn_ok_def)
    ultimately show ?thesis using f(3,6) by (intro that [of True e]) (auto simp: e_def)
  next
    case go
    then have pend: "pending d = []" by (simp add: pending_def split: option.split)
    show ?thesis
    proof (rule writeToSocket_cases [OF wb(2), of d])
      fix s assume s: "writeToSocket d ?b ?n = Some (- 1, d\<lparr>co_socket := s\<rparr>)" "so_sent s = so_sent (co_socket d)"
        "send_frame d (d\<lparr>co_socket := s\<rparr>)" "\<not> no_error d"
      then show thesis using go f wb fd send_frame_trans [OF f(4) s(3)]
        by (intro that [of False "d\<lparr>co_socket := s\<rparr>"])
           (auto simp: sendBuffer_def Let_def conn_ok_def wire_def pending_def intro: exI [of _ 0])
    next
      fix k s assume s: "writeToSocket d ?b ?n = Some (int k, d\<lparr>co_socket := s\<rparr>)" "k \<le> ?n"
        "so_sent s = so_sent (co_socket d) @ take k ?b" "send_frame d (d\<lparr>co_socket := s\<rparr>)"
      show thesis
      proof (cases "co_extensionBuffer d")
        case None
        define e where "e = (if k = ?n then d\<lparr>co_socket := s, co_writeBuffer := Some (wb\<lparr>bb_size := 0\<rparr>)\<rparr> else d\<lparr>co_socket := s\<rparr>)"
        have "sendBuffer c = Some (k = ?n, e)" using s go f wb None by (auto simp: sendBuffer_def Let_def e_def ByteBuffer_setSize_def)
        moreover have "send_frame c e" by (rule send_frame_trans [OF f(4)]) (use s(4) in \<open>auto simp: send_frame_def e_def\<close>)
        moreover have "wire e = wire d @ take k ?b" using s by (simp add: e_def wire_def pending_def None)
        moreover have "conn_ok e" using f(2) by (simp add: e_def conn_ok_def None)
        ultimately show thesis using s(2) f None fd wb(1) by (intro that [of "k = ?n" e]) (auto simp: e_def)
      next
        case (Some x)
        then have x: "length x = co_extensionBufferSize d" "?n \<le> length x" using f(2) room fd by (auto simp: conn_ok_def)
        define e where "e = (if k = ?n then d\<lparr>co_socket := s, co_writeBuffer := Some (wb\<lparr>bb_size := 0\<rparr>)\<rparr>
          else d\<lparr>co_socket := s, co_extensionBuffer := Some (overlay x 0 (drop k (take ?n ?b))),
            co_extensionBufferFill := ?n - k, co_writeBuffer := Some (wb\<lparr>bb_size := 0\<rparr>)\<rparr>)"
        have rest: "take (?n - k) (drop k ?b) = drop k (take ?n ?b)" by (simp add: drop_take)
        have joined: "take k ?b @ drop k (take ?n ?b) = take ?n ?b"
          using s(2) append_take_drop_id [of k "take ?n ?b"] by (simp add: min_absorb1)
        have "sendBuffer c = Some (True, e)" using s go f wb x Some
          by (auto simp: sendBuffer_def Let_def e_def rdn_in rest puts_fits ByteBuffer_setSize_def)
        moreover have "send_frame c e" by (rule send_frame_trans [OF f(4)]) (use s(4) Some in \<open>auto simp: send_frame_def e_def\<close>)
        moreover have "wire e = wire d @ take ?n ?b"
          using s pend x go(2) joined by (auto simp: e_def wire_def pending_def overlay_def Some wb(2))
        moreover have "conn_ok e" using f(2) x s(2) wb(2) by (auto simp: e_def conn_ok_def Some)
        ultimately show thesis using s(2) f by (intro that [of True e]) (auto simp: e_def)
      qed
    qed
  qed
qed

text \<open>The reference: the data TPDU in its RFC 1006 envelope, and a message cut into TPDUs of at most \<open>n\<close> octets.\<close>

definition data_tpdu :: "bool \<Rightarrow> bytes \<Rightarrow> bytes" where
  "data_tpdu lst xs =
     [3, 0, word_of_nat ((7 + length xs) div 256), word_of_nat (7 + length xs), 2, 0xf0, if lst then 0x80 else 0] @ xs"

function tpdus :: "nat \<Rightarrow> bytes \<Rightarrow> bytes list" where
  "tpdus n xs = (if n = 0 \<or> length xs \<le> n then [data_tpdu True xs] else data_tpdu False (take n xs) # tpdus n (drop n xs))"
  by pat_completeness auto
termination
  by (relation "measure (\<lambda>(n, xs). length xs)") auto

declare tpdus.simps [simp del]

lemma tpdus_last: "length xs \<le> n \<Longrightarrow> tpdus n xs = [data_tpdu True xs]"
  by (simp add: tpdus.simps)

lemma tpdus_more: "0 < n \<Longrightarrow> n < length xs \<Longrightarrow> tpdus n xs = data_tpdu False (take n xs) # tpdus n (drop n xs)"
  by (subst tpdus.simps) simp

lemma length_data_tpdu [simp]: "length (data_tpdu lst xs) = 7 + length xs"
  by (simp add: data_tpdu_def)

lemma tpdus_neq_Nil [simp]: "tpdus n xs \<noteq> []"
  by (subst tpdus.simps) simp

text \<open>The number of fragments the code computes is that of the reference.\<close>

lemma length_tpdus:
  assumes "0 < n"
  shows "length (tpdus n xs) = (if n < length xs then length xs div n + (if length xs mod n \<noteq> 0 then 1 else 0) else 1)"
  using assms
proof (induction n xs rule: tpdus.induct)
  case (1 n xs)
  show ?case
  proof (cases "n < length xs")
    case True
    then have "length (tpdus n xs) = Suc (length (tpdus n (drop n xs)))" using 1(2) by (simp add: tpdus_more)
    moreover have "length xs div n = Suc ((length xs - n) div n)" "length xs mod n = (length xs - n) mod n"
      using True 1(2) by (simp_all add: le_div_geq le_mod_geq)
    moreover have "length xs - n \<le> n \<Longrightarrow> (length xs - n) div n + (if (length xs - n) mod n \<noteq> 0 then 1 else 0) = 1"
      using True 1(2) by (cases "length xs - n = n") simp_all
    ultimately show ?thesis using 1 True by simp
  qed (simp add: tpdus_last)
qed

lemma length_concat_tpdus: "0 < n \<Longrightarrow> length (concat (tpdus n xs)) = 7 * length (tpdus n xs) + length xs"
proof (induction n xs rule: tpdus.induct)
  case (1 n xs)
  then show ?case by (cases "length xs \<le> n") (simp_all add: tpdus_last tpdus_more)
qed

lemma copy_chain_eq:
  "n \<le> length (cur @ concat ps) \<Longrightarrow> [] \<notin> set ps \<Longrightarrow>
     \<exists>cur' ps'. copy_chain n cur ps = Some (take n (cur @ concat ps), cur', ps')
       \<and> cur' @ concat ps' = drop n (cur @ concat ps) \<and> [] \<notin> set ps'"
proof (induction n arbitrary: cur ps)
  case (Suc n)
  have "\<exists>x xs qs. next_octet cur ps = Some (x, xs, qs) \<and> cur @ concat ps = x # xs @ concat qs \<and> [] \<notin> set qs"
    using Suc.prems by (cases "(cur, ps)" rule: next_octet.cases) auto
  then obtain x xs qs where x: "next_octet cur ps = Some (x, xs, qs)" "cur @ concat ps = x # xs @ concat qs" "[] \<notin> set qs"
    by blast
  then have "n \<le> length (xs @ concat qs)" using Suc.prems(1) by simp
  from Suc.IH [OF this x(3)] show ?case using x by auto
qed auto

text \<open>Stores into the write buffer one behind the other are one store.\<close>

lemma write_octets_append:
  assumes "length xs = n"
  shows "write_octets c xs 0 \<bind> (\<lambda>c. write_octets c ys n \<bind> f) = write_octets c (xs @ ys) 0 \<bind> f"
proof (cases "co_writeBuffer c")
  case (Some wb)
  have "puts (xs @ ys) (bb_buffer wb) 0 = puts xs (bb_buffer wb) 0 \<bind> (\<lambda>(b, p). puts ys b p)"
    by (simp only: puts_bind_puts)
  then show ?thesis using Some assms by (auto simp: write_octets_def puts_eq)
qed (simp add: write_octets_def)

lemma write_octets_0:
  assumes "co_writeBuffer c = Some wb" and "length xs \<le> length (bb_buffer wb)"
  shows "write_octets c xs 0 = Some (c\<lparr>co_writeBuffer := Some (wb\<lparr>bb_buffer := overlay (bb_buffer wb) 0 xs, bb_size := length xs\<rparr>)\<rparr>)"
  using assms by (simp add: write_octets_def puts_fits)

lemma write_fragment:
  "do { c \<leftarrow> writeRfc1006Header c (7 + length xs); c \<leftarrow> writeDataTpduHeader c lst; c \<leftarrow> write_octets c xs 7; f c }
    = do { c \<leftarrow> write_octets c (data_tpdu lst xs) 0; f c }"
  unfolding writeRfc1006Header_def writeDataTpduHeader_def
  by (subst write_octets_append, simp, subst write_octets_append, simp, simp add: data_tpdu_def)

text \<open>One TPDU, written and sent.\<close>

lemma send_tpdu_stream:
  assumes ok: "conn_ok c" and wb: "wb_ok c (length t)"
    and room: "co_extensionBuffer c = None \<or> co_extensionBufferFill c + length t \<le> co_extensionBufferSize c"
  obtains r d where "write_octets c t 0 \<bind> sendBuffer = Some (r, d)" "conn_ok d" "send_frame c d" "\<forall>m. wb_ok c m \<longrightarrow> wb_ok d m"
    "r \<longrightarrow> wire d = wire c @ t" "\<not> r \<longrightarrow> (\<exists>k. wire d = wire c @ take k t)"
    "co_extensionBufferFill d \<le> co_extensionBufferFill c + length t"
    "no_error c \<and> co_extensionBuffer c \<noteq> None \<longrightarrow> r"
proof -
  obtain w where w: "co_writeBuffer c = Some w" "length t \<le> length (bb_buffer w)" "length (bb_buffer w) = bb_maxSize w"
    using wb by (auto simp: wb_ok_def split: option.splits)
  define w' where "w' = w\<lparr>bb_buffer := overlay (bb_buffer w) 0 t, bb_size := length t\<rparr>"
  define c' where "c' = c\<lparr>co_writeBuffer := Some w'\<rparr>"
  have wr: "write_octets c t 0 = Some c'" using w by (simp add: write_octets_0 c'_def w'_def)
  have c': "conn_ok c'" "wire c' = wire c" "no_error c' \<longleftrightarrow> no_error c" "co_writeBuffer c' = Some w'"
    "co_extensionBuffer c' = co_extensionBuffer c" "co_extensionBufferFill c' = co_extensionBufferFill c"
    "co_extensionBufferSize c' = co_extensionBufferSize c" "send_frame c c'"
    using ok by (simp_all add: c'_def conn_ok_def wire_def pending_def no_error_def send_frame_def split: option.splits)
  have w': "bb_size w' = length t" "length (bb_buffer w') = bb_maxSize w" "bb_maxSize w' = bb_maxSize w" "take (length t) (bb_buffer w') = t"
    using w by (simp_all add: w'_def take_overlay_0)
  then have "take k (bb_buffer w') = take k t" if "k \<le> length t" for k
    using that by (metis min.absorb1 take_take)
  moreover have "bb_size w' \<le> length (bb_buffer w')" "co_extensionBuffer c' = None \<or> co_extensionBufferFill c' + bb_size w' \<le> co_extensionBufferSize c'"
    using w w' c' room by auto
  note sent = sendBuffer_stream [OF c'(1,4) this]
  obtain r d where d: "sendBuffer c' = Some (r, d)" "conn_ok d" "send_frame c' d"
    "r \<longrightarrow> wire d = wire c' @ take (bb_size w') (bb_buffer w')"
    "\<not> r \<longrightarrow> (\<exists>k \<le> bb_size w'. wire d = wire c' @ take k (bb_buffer w'))"
    "co_writeBuffer d = Some (if r then w'\<lparr>bb_size := 0\<rparr> else w')"
    "co_extensionBufferFill d \<le> co_extensionBufferFill c' + bb_size w'"
    "no_error c' \<and> co_extensionBuffer c' \<noteq> None \<longrightarrow> r"
    by (rule sent)
  moreover have "\<forall>m. wb_ok c m \<longrightarrow> wb_ok d m" using w w' d(6) by (simp add: wb_ok_def)
  ultimately show ?thesis using wr c' w' send_frame_trans [OF c'(8) d(3)] by (intro that [of r d]) auto
qed

lemma fragment_step:
  assumes lim: "(if 0 < k then pos + n else len) = pos + length ys"
    and copy: "copy_chain (length ys) cur ps = Some (ys, cur', ps')"
  shows "fragment_loop (Suc k) c n len pos cur ps =
    (write_octets c (data_tpdu (k = 0) ys) 0 \<bind> sendBuffer) \<bind>
      (\<lambda>(r, d). if \<not> r then Some (COTP_ERROR, d) else fragment_loop k d n len (pos + length ys) cur' ps')"
proof -
  have "fragment_loop (Suc k) c n len pos cur ps =
    do { c \<leftarrow> writeRfc1006Header c (7 + length ys); c \<leftarrow> writeDataTpduHeader c (k = 0); c \<leftarrow> write_octets c ys 7;
         (r, d) \<leftarrow> sendBuffer c;
         if \<not> r then Some (COTP_ERROR, d) else fragment_loop k d n len (pos + length ys) cur' ps' }"
    by (simp add: Let_def lim copy)
  then show ?thesis by (simp only: write_fragment bind_assoc)
qed

text \<open>The whole loop: the TPDUs of the rest of the message, in order.\<close>

definition sent_stream :: "CotpConnection \<Rightarrow> bytes \<Rightarrow> CotpIndication \<times> CotpConnection \<Rightarrow> bool" where
  "sent_stream c xs = (\<lambda>(ind, d). conn_ok d \<and> send_frame c d \<and> (\<forall>m. wb_ok c m \<longrightarrow> wb_ok d m)
     \<and> (ind = COTP_OK \<and> wire d = wire c @ xs \<or> ind = COTP_ERROR \<and> (\<exists>k. wire d = wire c @ take k xs)))"

lemma fragment_loop_stream:
  assumes "0 < n" and "conn_ok c" and "wb_ok c (7 + n)" and "[] \<notin> set ps" and "cur @ concat ps = xs" and "pos + length xs = len"
    and "co_extensionBuffer c = None \<or> co_extensionBufferFill c + length (concat (tpdus n xs)) \<le> co_extensionBufferSize c"
  shows "\<exists>res. fragment_loop (length (tpdus n xs)) c n len pos cur ps = Some res \<and> sent_stream c (concat (tpdus n xs)) res
    \<and> (no_error c \<and> co_extensionBuffer c \<noteq> None \<longrightarrow> fst res = COTP_OK)"
  using assms
proof (induction n xs arbitrary: c cur ps pos rule: tpdus.induct)
  case (1 n xs)
  let ?last = "length xs \<le> n"
  define ys where "ys = take n xs"
  define t where "t = data_tpdu ?last ys"
  define ts where "ts = (if ?last then [] else tpdus n (drop n xs))"
  have xs: "tpdus n xs = t # ts" using 1(2) by (simp add: t_def ts_def ys_def tpdus_last tpdus_more)
  have last: "?last \<longleftrightarrow> length ts = 0" by (simp add: ts_def)
  obtain cur' ps' where cp: "copy_chain (length ys) cur ps = Some (ys, cur', ps')" "cur' @ concat ps' = drop n xs" "[] \<notin> set ps'"
  proof -
    have ys: "length ys \<le> length xs" "take (length ys) xs = ys" "drop (length ys) xs = drop n xs" by (auto simp: ys_def min_def)
    then show thesis using copy_chain_eq [of "length ys" cur ps] that 1(5) unfolding 1(6) by auto
  qed
  have lim: "(if 0 < length ts then pos + n else len) = pos + length ys" using 1(7) by (auto simp: ts_def ys_def)
  have t: "length t \<le> 7 + n" "wb_ok c (length t)" using 1(4) by (auto simp: t_def ys_def wb_ok_def split: option.splits)
  obtain r d where d: "write_octets c t 0 \<bind> sendBuffer = Some (r, d)" "conn_ok d" "send_frame c d" "\<forall>m. wb_ok c m \<longrightarrow> wb_ok d m"
    "r \<longrightarrow> wire d = wire c @ t" "\<not> r \<longrightarrow> (\<exists>k. wire d = wire c @ take k t)"
    "co_extensionBufferFill d \<le> co_extensionBufferFill c + length t"
    "no_error c \<and> co_extensionBuffer c \<noteq> None \<longrightarrow> r"
    by (rule send_tpdu_stream [OF 1(3) t(2)]) (use 1(8) xs in auto)
  have step: "fragment_loop (length (tpdus n xs)) c n len pos cur ps =
      (if \<not> r then Some (COTP_ERROR, d) else fragment_loop (length ts) d n len (pos + length ys) cur' ps')"
    using fragment_step [OF lim cp(1), of c] unfolding last [symmetric] t_def [symmetric] d(1) xs by simp
  consider (fail) "\<not> r" | (finish) r ?last | (more) r "\<not> ?last" by blast
  then show ?case
  proof cases
    case fail
    then obtain k where "wire d = wire c @ take k t" using d(6) by blast
    then have "wire d = wire c @ take (min k (length t)) (concat (t # ts))" by (simp add: min_def)
    then show ?thesis using step d(2-8) fail unfolding xs by (auto simp: sent_stream_def simp del: take_append)
  next
    case finish
    then show ?thesis using step d unfolding xs by (auto simp: sent_stream_def ts_def)
  next
    case more
    then have ts: "ts = tpdus n (drop n xs)" by (simp add: ts_def)
    note fr = send_frameD [OF d(3)]
    have room: "co_extensionBuffer d = None \<or> co_extensionBufferFill d + length (concat ts) \<le> co_extensionBufferSize d"
      using 1(8) d(7) fr(1,2) unfolding xs by auto
    obtain res where res: "fragment_loop (length ts) d n len (pos + length ys) cur' ps' = Some res" "sent_stream d (concat ts) res"
        "no_error d \<and> co_extensionBuffer d \<noteq> None \<longrightarrow> fst res = COTP_OK"
      using 1(1) [of d ps' cur' "pos + length ys"] 1(2,4,7) d(2,4) cp(2,3) more room unfolding ts by (auto simp: ys_def)
    have "sent_stream c (concat (t # ts)) res"
      using res(2) d more send_frame_trans [OF d(3)] unfolding sent_stream_def by (auto simp: take_add intro: exI [of _ "length t + _"])
    then show ?thesis using step d res fr more unfolding xs by auto
  qed
qed

subsection \<open>Messages\<close>

text \<open>A chain whose length is that of its parts, none of which but the first is empty.\<close>

definition chain_ok :: "BufferChain \<Rightarrow> bool" where
  "chain_ok p \<longleftrightarrow> bc_parts p \<noteq> [] \<and> [] \<notin> set (tl (bc_parts p)) \<and> bc_length p = length (concat (bc_parts p))"

definition payload_size :: "CotpConnection \<Rightarrow> nat" where
  "payload_size c = 2 ^ co_tpduSize c - 3"

definition stream_of :: "CotpConnection \<Rightarrow> BufferChain \<Rightarrow> bytes" where
  "stream_of c p = concat (tpdus (payload_size c) (concat (bc_parts p)))"

lemma payload_size_pos:
  assumes "2 \<le> co_tpduSize c"
  shows "0 < payload_size c" "int (CotpConnection_getTpduSize c) - int COTP_DATA_HEADER_SIZE = int (payload_size c)"
proof -
  have "(2 :: nat) ^ 2 \<le> 2 ^ co_tpduSize c" using assms by (intro power_increasing) auto
  then have "3 < (2 :: nat) ^ co_tpduSize c" by simp
  then show "0 < payload_size c" "int (CotpConnection_getTpduSize c) - int COTP_DATA_HEADER_SIZE = int (payload_size c)"
    by (simp_all add: payload_size_def CotpConnection_getTpduSize_def COTP_DATA_HEADER_SIZE_def)
qed

text \<open>The counts the code computes with C's division are those of the reference.\<close>

lemma signed_division_nat: "int m sdiv int n = int (m div n)" "int m smod int n = int (m mod n)"
  by (cases "m = 0"; cases "n = 0"; simp add: signed_divide_int_def signed_modulo_int_def zdiv_int zmod_int)+

lemma sendDataMessage_eq:
  assumes "2 \<le> co_tpduSize c" and "chain_ok p"
  shows "CotpConnection_sendDataMessage c p = do {
    (ok, d) \<leftarrow> flushBuffer c;
    if \<not> ok then Some (COTP_ERROR, d)
    else if co_extensionBuffer d \<noteq> None \<and> co_extensionBufferSize d < co_extensionBufferFill d + length (stream_of c p)
    then Some (COTP_ERROR, d)
    else fragment_loop (length (tpdus (payload_size c) (concat (bc_parts p)))) d (payload_size c) (bc_length p) 0
           (hd (bc_parts p)) (tl (bc_parts p)) }"
proof -
  let ?n = "payload_size c" and ?xs = "concat (bc_parts p)"
  note n = payload_size_pos [OF assms(1)]
  obtain cur ps where ps: "bc_parts p = cur # ps" using assms(2) by (cases "bc_parts p") (auto simp: chain_ok_def)
  have len: "bc_length p = length ?xs" using assms(2) by (simp add: chain_ok_def)
  have count: "(if int ?n < int (length ?xs) then int (length ?xs) sdiv int ?n + (if int (length ?xs) smod int ?n \<noteq> 0 then 1 else 0) else 1)
      = int (length (tpdus ?n ?xs))"
    by (simp add: signed_division_nat length_tpdus [OF n(1)] del: length_concat)
  have total: "int (length (tpdus ?n ?xs)) * (int COTP_DATA_HEADER_SIZE + 4) + int (length ?xs) = int (length (stream_of c p))"
    using length_concat_tpdus [OF n(1), of ?xs] by (simp add: stream_of_def COTP_DATA_HEADER_SIZE_def)
  have free: "int a - int b < int m \<longleftrightarrow> a < b + m" for a b m by linarith
  show ?thesis unfolding CotpConnection_sendDataMessage_def Let_def n(2) len count total nat_int free
    by (simp add: ps cong: if_cong)
qed

text \<open>Both outcomes of the call at once; the two properties below read it.\<close>

lemma sendDataMessage_cases:
  assumes ok: "conn_ok c" and size: "2 \<le> co_tpduSize c" and wb: "wb_ok c (2 ^ co_tpduSize c + 4)" and p: "chain_ok p"
  obtains ind d where "CotpConnection_sendDataMessage c p = Some (ind, d)" "sent_stream c (stream_of c p) (ind, d)"
    "no_error c \<and> co_extensionBuffer c \<noteq> None \<longrightarrow>
       ind = COTP_OK \<or> wire d = wire c \<and> co_extensionBufferSize d < co_extensionBufferFill d + length (stream_of c p)"
    "no_error c \<and> co_extensionBuffer c \<noteq> None \<and> co_extensionBufferFill c + length (stream_of c p) \<le> co_extensionBufferSize c
       \<longrightarrow> ind = COTP_OK"
proof -
  let ?xs = "concat (bc_parts p)"
  obtain r d where f: "flushBuffer c = Some (r, d)" "conn_ok d" "wire d = wire c" "send_frame c d"
    "co_writeBuffer d = co_writeBuffer c" "co_extensionBufferFill d \<le> co_extensionBufferFill c" "no_error c \<longrightarrow> r"
    by (rule flushBuffer_stream [OF ok])
  note eq = sendDataMessage_eq [OF size p, unfolded f(1)] and fr = send_frameD [OF f(4)]
  have wb': "\<forall>m. wb_ok c m \<longrightarrow> wb_ok d m" using f(5) by (simp add: wb_ok_def)
  let ?full = "co_extensionBuffer d \<noteq> None \<and> co_extensionBufferSize d < co_extensionBufferFill d + length (stream_of c p)"
  consider "\<not> r" | r ?full | (go) r "\<not> ?full" by blast
  then show ?thesis
  proof cases
    case go
    have n: "7 + payload_size c = 2 ^ co_tpduSize c + 4" using payload_size_pos(1) [OF size] by (simp add: payload_size_def)
    have parts: "[] \<notin> set (tl (bc_parts p))" "hd (bc_parts p) @ concat (tl (bc_parts p)) = ?xs" "0 + length ?xs = bc_length p"
      using p by (auto simp: chain_ok_def) (metis concat.simps(2) list.collapse)
    obtain res where res: "fragment_loop (length (tpdus (payload_size c) ?xs)) d (payload_size c) (bc_length p) 0
        (hd (bc_parts p)) (tl (bc_parts p)) = Some res" "sent_stream d (stream_of c p) res"
        "no_error d \<and> co_extensionBuffer d \<noteq> None \<longrightarrow> fst res = COTP_OK"
      using fragment_loop_stream [OF payload_size_pos(1) [OF size] f(2) _ parts] wb wb' go n
      by (auto simp: stream_of_def not_less)
    moreover have "CotpConnection_sendDataMessage c p = Some res" using eq go res(1) by (auto split: if_splits)
    moreover have "sent_stream c (stream_of c p) res"
      using res(2) f(3) wb' send_frame_trans [OF f(4)] by (auto simp: sent_stream_def)
    ultimately show ?thesis using fr by (intro that [of "fst res" "snd res"]) auto
  qed (use eq f wb' fr in \<open>auto intro!: that [of COTP_ERROR d] simp: sent_stream_def intro: exI [of _ 0]\<close>)
qed

text \<open>
  Sending a message over the transport layer, whatever the operating system accepts of each write: the call returns;
  when it returns \<open>COTP_OK\<close> the octets sent and waiting are those of before followed by the whole message cut into data
  TPDUs of the negotiated size, each in its RFC 1006 envelope and only the last one marked; when it returns
  \<open>COTP_ERROR\<close> at most a front part of them was added.  The extension buffer stays within its bounds.
\<close>

theorem sendDataMessage_stream:
  assumes "conn_ok c" and "2 \<le> co_tpduSize c" and "wb_ok c (2 ^ co_tpduSize c + 4)" and "chain_ok p"
  shows "\<exists>ind d. CotpConnection_sendDataMessage c p = Some (ind, d) \<and> conn_ok d \<and> send_frame c d
    \<and> (ind = COTP_OK \<and> wire d = wire c @ stream_of c p \<or> ind = COTP_ERROR \<and> (\<exists>k. wire d = wire c @ take k (stream_of c p)))"
  by (rule sendDataMessage_cases [OF assms]) (auto simp: sent_stream_def)

text \<open>
  C19: With an extension buffer and as long as no write fails, a message is sent whole or not at all: either the call
  returns \<open>COTP_OK\<close> and all of its TPDUs follow what was sent before, or it returns \<open>COTP_ERROR\<close>, nothing was
  added, and the message does not fit beside what still waits.  A message that fits is always accepted, however
  little the socket takes.
\<close>

theorem sendDataMessage_all_or_nothing:
  assumes "conn_ok c" and "2 \<le> co_tpduSize c" and "wb_ok c (2 ^ co_tpduSize c + 4)" and "chain_ok p"
    and "no_error c" and "co_extensionBuffer c \<noteq> None"
  shows "\<exists>ind d. CotpConnection_sendDataMessage c p = Some (ind, d)
    \<and> (ind = COTP_OK \<and> wire d = wire c @ stream_of c p
       \<or> ind = COTP_ERROR \<and> wire d = wire c \<and> co_extensionBufferSize d < co_extensionBufferFill d + length (stream_of c p))
    \<and> (co_extensionBufferFill c + length (stream_of c p) \<le> co_extensionBufferSize c \<longrightarrow> ind = COTP_OK)"
  by (rule sendDataMessage_cases [OF assms(1-4)]) (use assms(5,6) in \<open>auto simp: sent_stream_def\<close>)

subsection \<open>A connection with small buffers\<close>

definition ex_conn :: "socket \<Rightarrow> bytes option \<Rightarrow> nat \<Rightarrow> CotpConnection" where
  "ex_conn s ext n = \<lparr>co_remoteRef = - 1, co_localRef = 1, co_protocolClass = 0, co_tSelSrc = \<lparr>ts_size = 2, ts_value = [0, 1, 0, 0]\<rparr>,
     co_tSelDst = \<lparr>ts_size = 2, ts_value = [0, 1, 0, 0]\<rparr>, co_tpduSize = 3, co_isLastDataUnit = False, co_payload = ByteBuffer_create 20,
     co_writeBuffer = Some (ByteBuffer_create 26), co_readBuffer = ByteBuffer_create 30, co_packetSize = 0, co_extensionBuffer = ext,
     co_extensionBufferSize = n, co_extensionBufferFill = 0, co_socket = s\<rparr>"

definition ex_sender :: CotpConnection where
  "ex_sender = ex_conn \<lparr>so_writes = [5, 0, 9], so_sent = [], so_reads = [], so_incoming = []\<rparr> (Some (replicate 40 0)) 40"

definition ex_chain :: BufferChain where
  "ex_chain = \<lparr>bc_length = 7, bc_parts = [[1, 2], [3, 4, 5, 6, 7]]\<rparr>"

definition ex_stream :: bytes where
  "ex_stream = [3, 0, 0, 12, 2, 0xf0, 0, 1, 2, 3, 4, 5, 3, 0, 0, 9, 2, 0xf0, 0x80, 6, 7]"

lemma ex_sender_eval: "conn_ok ex_sender" "wb_ok ex_sender 26" "wb_ok ex_sender 12" "no_error ex_sender" "co_extensionBuffer ex_sender \<noteq> None"
    "co_extensionBufferFill ex_sender = 0" "co_extensionBufferSize ex_sender = 40" "chain_ok ex_chain" "stream_of ex_sender ex_chain = ex_stream"
    "wire ex_sender = []" "length ex_stream = 21"
proof -
  show "conn_ok ex_sender" by code_simp
  show "wb_ok ex_sender 26" by code_simp
  show "wb_ok ex_sender 12" by code_simp
  show "no_error ex_sender" by code_simp
  show "co_extensionBuffer ex_sender \<noteq> None" by code_simp
  show "co_extensionBufferFill ex_sender = 0" by code_simp
  show "co_extensionBufferSize ex_sender = 40" by code_simp
  show "chain_ok ex_chain" by code_simp
  show "stream_of ex_sender ex_chain = ex_stream" by code_simp
  show "wire ex_sender = []" by code_simp
  show "length ex_stream = 21" by code_simp
qed

lemma ex_sender_size: "co_tpduSize ex_sender = 3"
  by (simp add: ex_sender_def ex_conn_def)

lemma ex_sender_ok: "conn_ok ex_sender" "2 \<le> co_tpduSize ex_sender" "wb_ok ex_sender (2 ^ co_tpduSize ex_sender + 4)"
    "no_error ex_sender" "co_extensionBuffer ex_sender \<noteq> None" "co_tpduSize ex_sender < 16"
    "co_extensionBufferFill ex_sender + length (stream_of ex_sender ex_chain) \<le> co_extensionBufferSize ex_sender"
    "chain_ok ex_chain" "stream_of ex_sender ex_chain = ex_stream" "wire ex_sender = []"
  using ex_sender_eval by (simp_all add: ex_sender_size)

theorem sendDataMessage_stream_witness:
  "\<exists>ind d. CotpConnection_sendDataMessage ex_sender ex_chain = Some (ind, d) \<and> conn_ok d \<and> send_frame ex_sender d
    \<and> (ind = COTP_OK \<and> wire d = ex_stream \<or> ind = COTP_ERROR \<and> (\<exists>k. wire d = take k ex_stream))"
  using sendDataMessage_stream [OF ex_sender_ok(1-3,8)] by (simp add: ex_sender_ok)

theorem sendDataMessage_all_or_nothing_witness:
  "\<exists>d. CotpConnection_sendDataMessage ex_sender ex_chain = Some (COTP_OK, d) \<and> wire d = ex_stream"
  using sendDataMessage_all_or_nothing [OF ex_sender_ok(1-3,8,4,5)] ex_sender_ok(7) by (auto simp: ex_sender_ok)

end
