(* ===== verification/CotpReceive.thy ===== *)
theory CotpReceive
  imports CotpSend
begin

text \<open>
  Receiving over the transport layer.  The loop is that of \<open>IsoConnection_handleTcpConnection\<close> in
  \<open>src/libiec61850/src/mms/iso_server/iso_connection.c\<close>, down to the transport indication: one call reads what the
  socket has and, when a packet is complete, parses it.
\<close>

datatype poll_event = Waiting | Stopped | Indication CotpIndication

definition cotp_poll :: "CotpConnection \<Rightarrow> (poll_event \<times> CotpConnection) option" where
  "cotp_poll self = do {
     (tpktState, self) \<leftarrow> CotpConnection_readToTpktBuffer self;
     if tpktState = TPKT_ERROR then Some (Stopped, self)
     else if tpktState \<noteq> TPKT_PACKET_COMPLETE then Some (Waiting, self)
     else do {
       (ind, self) \<leftarrow> CotpConnection_parseIncomingMessage self;
       Some (Indication ind, self) } }"

text \<open>The calls up to the first that leaves the transport layer, at most \<open>fuel\<close> of them.\<close>

fun cotp_receive :: "nat \<Rightarrow> CotpConnection \<Rightarrow> (poll_event \<times> CotpConnection) option" where
  "cotp_receive 0 self = Some (Waiting, self)"
| "cotp_receive (Suc fuel) self = do {
     (ev, self) \<leftarrow> cotp_poll self;
     if ev = Waiting \<or> ev = Indication COTP_MORE_FRAGMENTS_FOLLOW then cotp_receive fuel self else Some (ev, self) }"

subsection \<open>A packet in pieces\<close>

text \<open>A packet with its RFC 1006 header.\<close>

definition is_tpkt :: "bytes \<Rightarrow> bool" where
  "is_tpkt t \<longleftrightarrow> 4 < length t \<and> t ! 0 = 3 \<and> t ! 1 = 0 \<and> unat (t ! 2) * 256 + unat (t ! 3) = length t"

text \<open>\<open>k\<close> octets of the packet \<open>t\<close> are read; the rest of it and \<open>rest\<close> are to come, in pieces of any positive size.\<close>

definition reading :: "CotpConnection \<Rightarrow> bytes \<Rightarrow> nat \<Rightarrow> bytes \<Rightarrow> bool" where
  "reading c t k rest \<longleftrightarrow>
     (let r = co_readBuffer c; s = co_socket c
      in length (bb_buffer r) = bb_maxSize r \<and> length t \<le> bb_maxSize r \<and> is_tpkt t \<and> k \<le> length t
         \<and> bb_size r = k \<and> take k (bb_buffer r) = take k t
         \<and> so_incoming s = drop k t @ rest \<and> (\<forall>n \<in> set (so_reads s). 0 < n) \<and> length t + length rest \<le> k + length (so_reads s)
         \<and> co_extensionBufferFill c = 0)"

text \<open>What reading changes.\<close>

definition recv_frame :: "CotpConnection \<Rightarrow> CotpConnection \<Rightarrow> bool" where
  "recv_frame c d \<longleftrightarrow>
     d\<lparr>co_socket := co_socket c, co_readBuffer := co_readBuffer c, co_packetSize := co_packetSize c\<rparr> = c
     \<and> bb_maxSize (co_readBuffer d) = bb_maxSize (co_readBuffer c)"

lemma recv_frame_trans: "recv_frame c d \<Longrightarrow> recv_frame d e \<Longrightarrow> recv_frame c e"
proof -
  let ?r = "\<lambda>c d. d\<lparr>co_socket := co_socket c, co_readBuffer := co_readBuffer c, co_packetSize := co_packetSize c\<rparr>"
  assume a: "recv_frame c d" and b: "recv_frame d e"
  then have "?r c d = c" and "?r d e = d" by (simp_all add: recv_frame_def)
  moreover have "?r c (?r d e) = ?r c e" by simp
  ultimately have "?r c e = c" by simp
  then show ?thesis using a b by (simp add: recv_frame_def)
qed

lemma recv_frameD:
  assumes "recv_frame c d"
  shows "co_payload d = co_payload c" "co_tSelDst d = co_tSelDst c" "co_tSelSrc d = co_tSelSrc c" "co_tpduSize d = co_tpduSize c"
proof -
  have e: "d\<lparr>co_socket := co_socket c, co_readBuffer := co_readBuffer c, co_packetSize := co_packetSize c\<rparr> = c"
    using assms by (simp add: recv_frame_def)
  show "co_payload d = co_payload c" "co_tSelDst d = co_tSelDst c" "co_tSelSrc d = co_tSelSrc c" "co_tpduSize d = co_tpduSize c"
    using arg_cong [OF e, of co_payload] arg_cong [OF e, of co_tSelDst] arg_cong [OF e, of co_tSelSrc] arg_cong [OF e, of co_tpduSize]
    by simp_all
qed

lemma readingD:
  assumes "reading c t k rest"
  shows "length (bb_buffer (co_readBuffer c)) = bb_maxSize (co_readBuffer c)" "length t \<le> bb_maxSize (co_readBuffer c)"
    "is_tpkt t" "k \<le> length t" "bb_size (co_readBuffer c) = k" "take k (bb_buffer (co_readBuffer c)) = take k t"
    "so_incoming (co_socket c) = drop k t @ rest" "\<forall>n \<in> set (so_reads (co_socket c)). 0 < n"
    "length t + length rest \<le> k + length (so_reads (co_socket c))" "co_extensionBufferFill c = 0"
  using assms by (simp_all add: reading_def Let_def)

text \<open>Between packets: nothing is read, \<open>inc\<close> is to come.\<close>

definition idle :: "CotpConnection \<Rightarrow> bytes \<Rightarrow> bool" where
  "idle c inc \<longleftrightarrow>
     (let r = co_readBuffer c; s = co_socket c
      in length (bb_buffer r) = bb_maxSize r \<and> bb_size r = 0 \<and> so_incoming s = inc \<and> (\<forall>n \<in> set (so_reads s). 0 < n)
         \<and> length inc \<le> length (so_reads s) \<and> co_extensionBufferFill c = 0)"

lemma idle_reading: "idle c (t @ rest) \<Longrightarrow> is_tpkt t \<Longrightarrow> length t \<le> bb_maxSize (co_readBuffer c) \<Longrightarrow> reading c t 0 rest"
  by (simp add: idle_def reading_def Let_def)

lemma readingI:
  assumes "length (bb_buffer (co_readBuffer c)) = bb_maxSize (co_readBuffer c)" "length t \<le> bb_maxSize (co_readBuffer c)"
    "is_tpkt t" "k \<le> length t" "bb_size (co_readBuffer c) = k" "take k (bb_buffer (co_readBuffer c)) = take k t"
    "so_incoming (co_socket c) = drop k t @ rest" "\<forall>n \<in> set (so_reads (co_socket c)). 0 < n"
    "length t + length rest \<le> k + length (so_reads (co_socket c))" "co_extensionBufferFill c = 0"
  shows "reading c t k rest"
  using assms by (simp add: reading_def Let_def)

text \<open>One read delivers at least one octet of what is asked for.\<close>

lemma readFromSocket_some:
  assumes "0 < n" and "so_incoming (co_socket c) \<noteq> []" and "\<forall>n \<in> set (so_reads (co_socket c)). 0 < n"
    and "length (so_incoming (co_socket c)) \<le> length (so_reads (co_socket c))"
  obtains m rs where "0 < m" "m \<le> n" "m \<le> length (so_incoming (co_socket c))"
    "readFromSocket c n = (int m, take m (so_incoming (co_socket c)),
       c\<lparr>co_socket := co_socket c\<lparr>so_reads := rs, so_incoming := drop m (so_incoming (co_socket c))\<rparr>\<rparr>)"
    "\<forall>n \<in> set rs. 0 < n" "length (so_incoming (co_socket c)) - m \<le> length rs"
proof -
  let ?s = "co_socket c"
  obtain r rs where r: "so_reads ?s = r # rs" using assms(2,4) by (cases "so_reads ?s") auto
  define m where "m = min (min (nat r) n) (length (so_incoming ?s))"
  have m: "length (take (min (nat r) n) (so_incoming ?s)) = m" "take (min (nat r) n) (so_incoming ?s) = take m (so_incoming ?s)"
    by (auto simp: m_def min_def)
  have "m \<le> length (so_incoming ?s)" by (simp add: m_def)
  note m = m this
  have "0 < r" using assms(3) r by simp
  then have "0 < m" using assms(1,2) by (simp add: m_def)
  moreover have "readFromSocket c n = (int m, take m (so_incoming ?s),
      c\<lparr>co_socket := ?s\<lparr>so_reads := rs, so_incoming := drop m (so_incoming ?s)\<rparr>\<rparr>)"
    unfolding readFromSocket_def Let_def r using \<open>0 < r\<close> by (simp only: list.case m) (simp add: m min_absorb2)
  ultimately show ?thesis using assms(3,4) r by (intro that [of m rs]) (auto simp: m_def)
qed

lemma set_read_simps [simp]:
  "co_socket (set_read c b n) = co_socket c" "bb_buffer (co_readBuffer (set_read c b n)) = b" "bb_size (co_readBuffer (set_read c b n)) = n"
  "bb_maxSize (co_readBuffer (set_read c b n)) = bb_maxSize (co_readBuffer c)" "co_packetSize (set_read c b n) = co_packetSize c"
  "co_extensionBufferFill (set_read c b n) = co_extensionBufferFill c" "co_payload (set_read c b n) = co_payload c"
  by (simp_all add: set_read_def)

lemma set_read_id: "set_read c (bb_buffer (co_readBuffer c)) (bb_size (co_readBuffer c)) = c"
  by (simp add: set_read_def)

lemma recv_frame_set_read: "recv_frame c d \<Longrightarrow> recv_frame c (set_read d b n)"
  by (simp add: recv_frame_def set_read_def)

lemma reading_more:
  assumes st: "reading (set_read c b k) t k rest" and lt: "k < length t" and n: "0 < n" "k + n \<le> length t"
  obtains m c' octets where "0 < m" "m \<le> n" "readFromSocket c n = (int m, octets, c')" "recv_frame c c'"
    "co_packetSize c' = co_packetSize c" "co_readBuffer c' = co_readBuffer c"
    "puts octets b k = Some (overlay b k octets, k + m)" "reading (set_read c' (overlay b k octets) (k + m)) t (k + m) rest"
proof -
  let ?s = "co_socket c"
  note r = readingD [OF st, unfolded set_read_simps]
  have inc: "so_incoming ?s \<noteq> []" "length (so_incoming ?s) \<le> length (so_reads ?s)" using r(7,9) lt by simp_all
  obtain m rs where m: "0 < m" "m \<le> n" "m \<le> length (so_incoming ?s)" "readFromSocket c n = (int m, take m (so_incoming ?s),
       c\<lparr>co_socket := ?s\<lparr>so_reads := rs, so_incoming := drop m (so_incoming ?s)\<rparr>\<rparr>)"
    "\<forall>n \<in> set rs. 0 < n" "length (so_incoming ?s) - m \<le> length rs"
    by (rule readFromSocket_some [OF n(1) inc(1) r(8) inc(2)])
  have oct: "take m (so_incoming ?s) = take m (drop k t)" "drop m (so_incoming ?s) = drop (k + m) t @ rest"
    using m(2) n(2) by (simp_all add: r(7) ac_simps)
  have km: "k + m \<le> length t" "k + m \<le> length b" using m(2) n(2) r(1,2) by simp_all
  have rs: "length t + length rest \<le> k + m + length rs" using m(6) km(1) unfolding r(7) by simp
  have "take (k + m) (overlay b k (take m (drop k t))) = take (k + m) t"
    using km r(6) by (simp add: overlay_def take_add)
  then have "reading (set_read (c\<lparr>co_socket := ?s\<lparr>so_reads := rs, so_incoming := drop m (so_incoming ?s)\<rparr>\<rparr>)
      (overlay b k (take m (drop k t))) (k + m)) t (k + m) rest"
    using r(1-3,10) m(5) rs km by (intro readingI) (simp_all add: oct(2))
  then show ?thesis using km oct
    by (intro that [OF m(1,2) m(4)]) (simp_all add: recv_frame_def puts_fits)
qed

text \<open>The body of a packet whose length is known.\<close>

definition sized :: "CotpConnection \<Rightarrow> bytes \<Rightarrow> nat \<Rightarrow> bool" where
  "sized c t k \<longleftrightarrow> (4 \<le> k \<longrightarrow> co_packetSize c = length t)"

definition tpkt_state :: "bytes \<Rightarrow> nat \<Rightarrow> TpktState" where
  "tpkt_state t k = (if k = length t then TPKT_PACKET_COMPLETE else TPKT_WAITING)"

lemma read_rest_more:
  assumes st: "reading (set_read c buf k) t k rest" and k: "k < length t" and size: "co_packetSize c = length t"
  shows "\<exists>k' d. k < k' \<and> k' \<le> length t \<and> read_rest c buf k = Some (tpkt_state t k', d) \<and> reading d t k' rest
    \<and> sized d t k' \<and> recv_frame c d"
proof -
  have n: "0 < length t - k" "k + (length t - k) \<le> length t" using k by simp_all
  obtain m c' octets where m: "0 < m" "m \<le> length t - k" "readFromSocket c (length t - k) = (int m, octets, c')" "recv_frame c c'"
    "co_packetSize c' = co_packetSize c" "co_readBuffer c' = co_readBuffer c"
    "puts octets buf k = Some (overlay buf k octets, k + m)" "reading (set_read c' (overlay buf k octets) (k + m)) t (k + m) rest"
    by (rule reading_more [OF st k n])
  let ?d = "set_read c' (overlay buf k octets) (k + m)"
  have "read_rest c buf k = Some (tpkt_state t (k + m), ?d)"
    using k m(2,3,5,7) size by (auto simp: read_rest_def tpkt_state_def)
  then show ?thesis using m size k
    by (intro exI [of _ "k + m"] exI [of _ ?d]) (auto simp: sized_def recv_frame_set_read)
qed

lemma is_tpkt_header: "is_tpkt t \<Longrightarrow> take 4 b = take 4 t \<Longrightarrow> 4 \<le> length b \<Longrightarrow>
   rd b 0 = Some 3 \<and> rd b 1 = Some 0 \<and> rd b 2 = Some (t ! 2) \<and> rd b 3 = Some (t ! 3) \<and> unat (t ! 2) * 256 + unat (t ! 3) = length t"
  using nth_take [of 0 4 b] nth_take [of 0 4 t] nth_take [of 1 4 b] nth_take [of 1 4 t]
    nth_take [of 2 4 b] nth_take [of 2 4 t] nth_take [of 3 4 b] nth_take [of 3 4 t]
  by (auto simp: is_tpkt_def rd_def)

text \<open>Every call makes progress: at least one more octet of the packet.\<close>

lemma readToTpktBuffer_more:
  assumes st: "reading c t k rest" and k: "k < length t" and sz: "sized c t k"
  shows "\<exists>k' d. k < k' \<and> k' \<le> length t \<and> CotpConnection_readToTpktBuffer c = Some (tpkt_state t k', d) \<and> reading d t k' rest
    \<and> sized d t k' \<and> recv_frame c d"
proof -
  let ?r = "co_readBuffer c"
  note r = readingD [OF st]
  have max: "4 < bb_maxSize ?r" using r(2,3) by (auto simp: is_tpkt_def)
  have top: "CotpConnection_readToTpktBuffer c = read_packet c" using max r(10) by (simp add: CotpConnection_readToTpktBuffer_def)
  have st': "reading (set_read c (bb_buffer ?r) k) t k rest" using st r(5) set_read_id [of c] by simp
  show ?thesis
  proof (cases "4 \<le> k")
    case True
    then show ?thesis using read_rest_more [OF st' k] sz r(5) by (simp add: top read_packet_def sized_def)
  next
    case False
    then have n: "0 < 4 - k" "k + (4 - k) \<le> length t" using r(3) by (auto simp: is_tpkt_def)
    obtain m c' octets where m: "0 < m" "m \<le> 4 - k" "readFromSocket c (4 - k) = (int m, octets, c')" "recv_frame c c'"
      "co_packetSize c' = co_packetSize c" "co_readBuffer c' = co_readBuffer c"
      "puts octets (bb_buffer ?r) k = Some (overlay (bb_buffer ?r) k octets, k + m)"
      "reading (set_read c' (overlay (bb_buffer ?r) k octets) (k + m)) t (k + m) rest"
      by (rule reading_more [OF st' k n])
    let ?b = "overlay (bb_buffer ?r) k octets"
    show ?thesis
    proof (cases "k + m = 4")
      case True
      let ?c = "c'\<lparr>co_packetSize := length t\<rparr>"
      note r' = readingD [OF m(8), unfolded True set_read_simps]
      have "read_packet c = read_rest ?c ?b 4"
        using False m(3,6,7) True r(2,5) is_tpkt_header [OF r(3) r'(6)] r'(1) max by (simp add: read_packet_def)
      moreover have "reading (set_read ?c ?b 4) t 4 rest" using m(8) True by (simp add: reading_def Let_def)
      moreover have "recv_frame c ?c" using m(4) by (simp add: recv_frame_def)
      moreover have "4 < length t" using r(3) by (simp add: is_tpkt_def)
      moreover obtain k' d where "4 < k'" "k' \<le> length t" "read_rest ?c ?b 4 = Some (tpkt_state t k', d)" "reading d t k' rest"
          "sized d t k'" "recv_frame ?c d"
        using read_rest_more [of ?c ?b 4 t rest] calculation by auto
      ultimately show ?thesis using \<open>\<not> 4 \<le> k\<close> recv_frame_trans [of c ?c d] unfolding top
        by (intro exI [of _ k'] exI [of _ d]) simp
    next
      case False
      then have "read_packet c = Some (TPKT_WAITING, set_read c' ?b (k + m))"
        using \<open>\<not> 4 \<le> k\<close> m(3,7) r(5) by (simp add: read_packet_def)
      then show ?thesis using m False r(3) \<open>\<not> 4 \<le> k\<close>
        by (intro exI [of _ "k + m"]) (auto simp: top tpkt_state_def is_tpkt_def sized_def recv_frame_set_read)
    qed
  qed
qed

text \<open>So a packet arrives after at most as many calls as it has octets.\<close>

lemma packet_arrives:
  assumes "reading c t k rest" and "k < length t" and "sized c t k"
  shows "\<exists>j d. j \<le> length t - k \<and> reading d t (length t) rest \<and> recv_frame c d \<and>
    (\<forall>f. cotp_receive (j + f) c = do { (ind, e) \<leftarrow> CotpConnection_parseIncomingMessage d;
       if ind = COTP_MORE_FRAGMENTS_FOLLOW then cotp_receive f e else Some (Indication ind, e) })"
  using assms
proof (induction "length t - k" arbitrary: c k rule: less_induct)
  case less
  obtain k' d where d: "k < k'" "k' \<le> length t" "CotpConnection_readToTpktBuffer c = Some (tpkt_state t k', d)"
    "reading d t k' rest" "sized d t k'" "recv_frame c d"
    using readToTpktBuffer_more [OF less(2-4)] by blast
  show ?case
  proof (cases "k' = length t")
    case True
    then have "cotp_poll c = do { (ind, e) \<leftarrow> CotpConnection_parseIncomingMessage d; Some (Indication ind, e) }"
      using d(3) by (simp add: cotp_poll_def tpkt_state_def)
    then show ?thesis using True d
      by (intro exI [of _ 1] exI [of _ d]) (cases "CotpConnection_parseIncomingMessage d"; auto)
  next
    case False
    then have poll: "cotp_poll c = Some (Waiting, d)" using d(3) by (simp add: cotp_poll_def tpkt_state_def)
    obtain j e where "j \<le> length t - k'" "reading e t (length t) rest" "recv_frame d e"
      "\<forall>f. cotp_receive (j + f) d = do { (ind, e) \<leftarrow> CotpConnection_parseIncomingMessage e;
         if ind = COTP_MORE_FRAGMENTS_FOLLOW then cotp_receive f e else Some (Indication ind, e) }"
      using less(1) [of k' d] d False less(3) by fastforce
    then show ?thesis using poll d recv_frame_trans [OF d(6)]
      by (intro exI [of _ "Suc j"] exI [of _ e]) auto
  qed
qed

subsection \<open>Data TPDUs\<close>

text \<open>The octets collected so far.\<close>

definition collected :: "CotpConnection \<Rightarrow> bytes \<Rightarrow> bool" where
  "collected c xs \<longleftrightarrow>
     (let p = co_payload c
      in length (bb_buffer p) = bb_maxSize p \<and> bb_size p = length xs \<and> length xs \<le> bb_maxSize p \<and> take (length xs) (bb_buffer p) = xs)"

lemma is_tpkt_data: "length ys < 65529 \<Longrightarrow> ys \<noteq> [] \<Longrightarrow> is_tpkt (data_tpdu lst ys)"
proof -
  assume "length ys < 65529" and "ys \<noteq> []"
  then have "unat (word_of_nat ((7 + length ys) div 256) :: u8) * 256 + unat (word_of_nat (7 + length ys) :: u8) = 7 + length ys"
    by (simp del: of_nat_add)
  then show ?thesis by (simp add: is_tpkt_def data_tpdu_def)
qed

lemma parse_data_tpdu:
  assumes st: "reading c (data_tpdu lst ys) (7 + length ys) rest" and col: "collected c xs" and ys: "ys \<noteq> []"
    and room: "length xs + length ys \<le> bb_maxSize (co_payload c)"
  shows "\<exists>d. CotpConnection_parseIncomingMessage c = Some (if lst then COTP_DATA_INDICATION else COTP_MORE_FRAGMENTS_FOLLOW, d)
    \<and> collected d (xs @ ys) \<and> bb_maxSize (co_payload d) = bb_maxSize (co_payload c)
    \<and> idle d rest \<and> bb_maxSize (co_readBuffer d) = bb_maxSize (co_readBuffer c)"
proof -
  let ?r = "co_readBuffer c" and ?p = "co_payload c"
  note r = readingD [OF st]
  obtain tail where b: "bb_buffer ?r = data_tpdu lst ys @ tail"
    using r(6) append_take_drop_id [of "7 + length ys" "bb_buffer ?r"] by simp metis
  have rd: "rd (bb_buffer ?r) 4 = Some 2" "rd (bb_buffer ?r) 5 = Some 0xf0" "rd (bb_buffer ?r) 6 = Some (if lst then 0x80 else 0)"
    "rdn (bb_buffer ?r) 7 (length ys) = Some ys"
    unfolding b by (simp_all add: data_tpdu_def rd_def rdn_def)
  have p: "puts ys (bb_buffer ?p) (bb_size ?p) = Some (overlay (bb_buffer ?p) (length xs) ys, length xs + length ys)"
    using col room by (simp add: collected_def Let_def puts_fits)
  define d where "d = c\<lparr>co_isLastDataUnit := lst, co_payload := ?p\<lparr>bb_buffer := overlay (bb_buffer ?p) (length xs) ys, bb_size := length xs + length ys\<rparr>,
    co_readBuffer := ?r\<lparr>bb_size := 0\<rparr>, co_packetSize := 0\<rparr>"
  have "CotpConnection_parseIncomingMessage c = Some (if lst then COTP_DATA_INDICATION else COTP_MORE_FRAGMENTS_FOLLOW, d)"
    using rd p r(5) ys room col by (simp add: CotpConnection_parseIncomingMessage_def parseCotpMessage_def parseDataTpdu_def
      addPayloadToBuffer_def d_def collected_def Let_def nat_add_distrib)
  moreover have "collected d (xs @ ys)" using col room by (simp add: collected_def d_def Let_def overlay_def)
  moreover have "idle d rest" using r(1,7-10) by (simp add: idle_def d_def Let_def)
  ultimately show ?thesis by (intro exI [of _ d]) (simp add: d_def)
qed

subsection \<open>Messages\<close>

text \<open>One TPDU of a message, in pieces of any size.\<close>

lemma data_tpdu_received:
  assumes st: "idle c (data_tpdu lst ys @ rest)" and ys: "ys \<noteq> []" "length ys < 65529" "7 + length ys \<le> bb_maxSize (co_readBuffer c)"
    and col: "collected c xs" "length xs + length ys \<le> bb_maxSize (co_payload c)" and fuel: "7 + length ys \<le> fuel"
  shows "\<exists>d f. fuel \<le> f + (7 + length ys) \<and> collected d (xs @ ys) \<and> bb_maxSize (co_payload d) = bb_maxSize (co_payload c)
    \<and> idle d rest \<and> bb_maxSize (co_readBuffer d) = bb_maxSize (co_readBuffer c)
    \<and> cotp_receive fuel c = (if lst then Some (Indication COTP_DATA_INDICATION, d) else cotp_receive f d)"
proof -
  let ?t = "data_tpdu lst ys"
  have rd: "reading c ?t 0 rest" using idle_reading [OF st is_tpkt_data] ys by simp
  have "0 < length ?t" "sized c ?t 0" by (simp_all add: sized_def)
  from packet_arrives [OF rd this] obtain j d where j: "j \<le> length ?t" "reading d ?t (length ?t) rest" "recv_frame c d"
    "\<forall>f. cotp_receive (j + f) c = do { (ind, e) \<leftarrow> CotpConnection_parseIncomingMessage d;
       if ind = COTP_MORE_FRAGMENTS_FOLLOW then cotp_receive f e else Some (Indication ind, e) }"
    by auto
  note p = recv_frameD(1) [OF j(3)]
  have "collected d xs" "length xs + length ys \<le> bb_maxSize (co_payload d)" using col p by (simp_all add: collected_def)
  with parse_data_tpdu [of d lst ys rest xs] j(2) ys(1) obtain e where
    e: "CotpConnection_parseIncomingMessage d = Some (if lst then COTP_DATA_INDICATION else COTP_MORE_FRAGMENTS_FOLLOW, e)"
      "collected e (xs @ ys)" "bb_maxSize (co_payload e) = bb_maxSize (co_payload d)" "idle e rest"
      "bb_maxSize (co_readBuffer e) = bb_maxSize (co_readBuffer d)" by auto
  have "cotp_receive fuel c = (if lst then Some (Indication COTP_DATA_INDICATION, e) else cotp_receive (fuel - j) e)"
    using j(1) spec [OF j(4), of "fuel - j"] e(1) fuel by simp
  then show ?thesis using e p j(1,3) by (intro exI [of _ e] exI [of _ "fuel - j"]) (auto simp: recv_frame_def)
qed

lemma tpdus_received:
  assumes "0 < n" and "n < 65529" and "n + 7 \<le> bb_maxSize (co_readBuffer c)" and "ys \<noteq> []" and "collected c xs"
    and "length xs + length ys \<le> bb_maxSize (co_payload c)"
    and "idle c (concat (tpdus n ys) @ rest)" and "length (concat (tpdus n ys)) \<le> fuel"
  shows "\<exists>d. cotp_receive fuel c = Some (Indication COTP_DATA_INDICATION, d) \<and> collected d (xs @ ys) \<and> idle d rest
    \<and> bb_maxSize (co_readBuffer d) = bb_maxSize (co_readBuffer c) \<and> bb_maxSize (co_payload d) = bb_maxSize (co_payload c)"
  using assms
proof (induction n ys arbitrary: c xs fuel rule: tpdus.induct)
  case (1 n ys)
  show ?case
  proof (cases "length ys \<le> n")
    case True
    then show ?thesis using 1(2-9) data_tpdu_received [of c True ys rest xs fuel] by (auto simp: tpdus_last)
  next
    case False
    let ?y = "take n ys" and ?rest = "concat (tpdus n (drop n ys)) @ rest"
    have t: "tpdus n ys = data_tpdu False ?y # tpdus n (drop n ys)" using 1(2) False by (simp add: tpdus_more)
    have len: "length ?y = n" using False by simp
    have "\<exists>d f. fuel \<le> f + (7 + length ?y) \<and> collected d (xs @ ?y) \<and> bb_maxSize (co_payload d) = bb_maxSize (co_payload c)
      \<and> idle d ?rest \<and> bb_maxSize (co_readBuffer d) = bb_maxSize (co_readBuffer c)
      \<and> cotp_receive fuel c = (if False then Some (Indication COTP_DATA_INDICATION, d) else cotp_receive f d)"
      by (rule data_tpdu_received) (use 1(2-9) False t len in auto)
    then obtain d f where d: "fuel \<le> f + (7 + n)" "collected d (xs @ ?y)" "bb_maxSize (co_payload d) = bb_maxSize (co_payload c)"
      "idle d ?rest" "bb_maxSize (co_readBuffer d) = bb_maxSize (co_readBuffer c)" "cotp_receive fuel c = cotp_receive f d"
      using len by auto
    have "length (concat (tpdus n (drop n ys))) \<le> f" using 1(9) d(1) len unfolding t by simp
    then show ?thesis using 1(1) [of d "xs @ ?y" f] 1(2-9) False d by auto
  qed
qed

text \<open>Messages one after the other, as the layer above takes them: the payload is read and reset.\<close>

fun receive_all :: "nat \<Rightarrow> nat \<Rightarrow> CotpConnection \<Rightarrow> (bytes list \<times> CotpConnection) option" where
  "receive_all fuel 0 c = Some ([], c)"
| "receive_all fuel (Suc n) c = do {
     (ev, c) \<leftarrow> cotp_receive fuel c;
     if ev \<noteq> Indication COTP_DATA_INDICATION then None
     else do {
       (ms, d) \<leftarrow> receive_all fuel n (CotpConnection_resetPayload c);
       Some (take (bb_size (co_payload c)) (bb_buffer (co_payload c)) # ms, d) } }"

fun send_all :: "CotpConnection \<Rightarrow> BufferChain list \<Rightarrow> CotpConnection option" where
  "send_all c [] = Some c"
| "send_all c (p # ps) = do {
     (ind, c) \<leftarrow> CotpConnection_sendDataMessage c p;
     if ind = COTP_OK then send_all c ps else None }"

lemma send_all_wire:
  assumes "send_all c ps = Some d" and "conn_ok c" and "2 \<le> co_tpduSize c" and "wb_ok c (2 ^ co_tpduSize c + 4)"
    and "\<forall>p \<in> set ps. chain_ok p"
  shows "wire d = wire c @ concat (map (stream_of c) ps)"
  using assms
proof (induction ps arbitrary: c)
  case (Cons p ps)
  obtain ind e where e: "CotpConnection_sendDataMessage c p = Some (ind, e)" "sent_stream c (stream_of c p) (ind, e)"
    by (rule sendDataMessage_cases [OF Cons(3-5), of p]) (use Cons(6) in auto)
  have ok: "ind = COTP_OK" "send_all e ps = Some d" using Cons(2) e(1) by (auto split: if_splits)
  have e': "wire e = wire c @ stream_of c p" "conn_ok e" "send_frame c e" "wb_ok e (2 ^ co_tpduSize c + 4)"
    using e(2) ok(1) Cons(5) by (auto simp: sent_stream_def)
  have "stream_of e = stream_of c" "co_tpduSize e = co_tpduSize c"
    using send_frameD(3) [OF e'(3)] by (auto simp: stream_of_def payload_size_def fun_eq_iff)
  then show ?case using Cons(1) [OF ok(2) e'(2)] Cons(4,6) e' by simp
qed simp

lemma receive_all_streams:
  assumes "0 < n" and "n < 65529" and "n + 7 \<le> bb_maxSize (co_readBuffer s)"
    and "\<forall>m \<in> set ms. m \<noteq> [] \<and> length m \<le> bb_maxSize (co_payload s) \<and> length (concat (tpdus n m)) \<le> fuel"
    and "collected s []" and "idle s (concat (map (\<lambda>m. concat (tpdus n m)) ms) @ rest)"
  shows "\<exists>e. receive_all fuel (length ms) s = Some (ms, e) \<and> idle e rest \<and> collected e []"
  using assms
proof (induction ms arbitrary: s)
  case (Cons m ms)
  have st: "idle s (concat (tpdus n m) @ concat (map (\<lambda>m. concat (tpdus n m)) ms) @ rest)" using Cons(7) by simp
  obtain d where d: "cotp_receive fuel s = Some (Indication COTP_DATA_INDICATION, d)" "collected d m"
    "idle d (concat (map (\<lambda>m. concat (tpdus n m)) ms) @ rest)"
    "bb_maxSize (co_readBuffer d) = bb_maxSize (co_readBuffer s)" "bb_maxSize (co_payload d) = bb_maxSize (co_payload s)"
    using tpdus_received [OF Cons(2-4) _ Cons(6) _ st, of fuel] Cons(5) by auto
  let ?d = "CotpConnection_resetPayload d"
  have r: "collected ?d []" "idle ?d (concat (map (\<lambda>m. concat (tpdus n m)) ms) @ rest)"
    using d(2,3) by (simp_all add: CotpConnection_resetPayload_def collected_def idle_def Let_def)
  have "\<exists>e. receive_all fuel (length ms) ?d = Some (ms, e) \<and> idle e rest \<and> collected e []"
    by (rule Cons(1) [OF Cons(2,3) _ _ r]) (use d(4,5) Cons(4,5) in \<open>simp_all add: CotpConnection_resetPayload_def\<close>)
  then obtain e where e: "receive_all fuel (length ms) ?d = Some (ms, e)" "idle e rest" "collected e []" by blast
  then show ?case using d(1,2) by (simp add: collected_def Let_def)
qed simp

text \<open>
  C8: Messages over a transport connection: whenever a side accepts a sequence of messages for sending, the octets it
  sends for them, however the system splits them into writes on one side and reads on the other, are received at the
  other side as exactly these messages, in order, with nothing left over; the sender's fragmentation and the receiver's
  reassembly, and the partial writes and reads of both, are not visible.
\<close>

theorem cotp_messages_delivered:
  assumes "conn_ok c" and "2 \<le> co_tpduSize c" and "co_tpduSize c < 16" and "wb_ok c (2 ^ co_tpduSize c + 4)"
    and "\<forall>p \<in> set ps. chain_ok p \<and> bc_length p \<noteq> 0 \<and> bc_length p \<le> bb_maxSize (co_payload s) \<and> length (stream_of c p) \<le> fuel"
    and "send_all c ps = Some d"
    and "2 ^ co_tpduSize c + 4 \<le> bb_maxSize (co_readBuffer s)" and "collected s []"
    and "idle s stream" and "wire d = wire c @ stream"
  shows "\<exists>e. receive_all fuel (length ps) s = Some (map (\<lambda>p. concat (bc_parts p)) ps, e) \<and> idle e []"
proof -
  let ?n = "payload_size c" and ?ms = "map (\<lambda>p. concat (bc_parts p)) ps"
  note n = payload_size_pos(1) [OF assms(2)]
  have "(2 :: nat) ^ co_tpduSize c \<le> 2 ^ 15" using assms(3) by (intro power_increasing) auto
  then have n': "?n < 65529" "?n + 7 \<le> bb_maxSize (co_readBuffer s)" using assms(7) n by (auto simp: payload_size_def)
  have "stream = concat (map (stream_of c) ps)"
    using send_all_wire [OF assms(6,1,2,4)] assms(5,10) by auto
  then have st: "idle s (concat (map (\<lambda>m. concat (tpdus ?n m)) ?ms) @ [])" using assms(9) by (simp add: stream_of_def [abs_def] o_def)
  have "\<forall>m \<in> set ?ms. m \<noteq> [] \<and> length m \<le> bb_maxSize (co_payload s) \<and> length (concat (tpdus ?n m)) \<le> fuel"
    using assms(5) by (auto simp: chain_ok_def stream_of_def)
  from receive_all_streams [OF n n' this assms(8) st] show ?thesis by auto
qed

definition ex_receiver :: "bytes \<Rightarrow> CotpConnection" where
  "ex_receiver inc = ex_conn \<lparr>so_writes = [], so_sent = [], so_reads = replicate 40 3, so_incoming = inc\<rparr> None 0"

lemma ex_receiver_ok: "idle (ex_receiver ex_stream) ex_stream" "collected (ex_receiver ex_stream) []"
    "bb_maxSize (co_readBuffer (ex_receiver ex_stream)) = 30" "bb_maxSize (co_payload (ex_receiver ex_stream)) = 20"
    "map_option wire (send_all ex_sender [ex_chain]) = Some ex_stream"
proof -
  show "idle (ex_receiver ex_stream) ex_stream" by code_simp
  show "collected (ex_receiver ex_stream) []" by code_simp
  show "bb_maxSize (co_readBuffer (ex_receiver ex_stream)) = 30" by code_simp
  show "bb_maxSize (co_payload (ex_receiver ex_stream)) = 20" by code_simp
  show "map_option wire (send_all ex_sender [ex_chain]) = Some ex_stream" by code_simp
qed

theorem cotp_messages_delivered_witness:
  "\<exists>e. receive_all 30 1 (ex_receiver ex_stream) = Some ([[1, 2, 3, 4, 5, 6, 7]], e) \<and> idle e []"
proof -
  obtain d where d: "send_all ex_sender [ex_chain] = Some d" "wire d = wire ex_sender @ ex_stream"
    using ex_receiver_ok(5) ex_sender_ok(10) by auto
  have p: "\<forall>p \<in> set [ex_chain]. chain_ok p \<and> bc_length p \<noteq> 0 \<and> bc_length p \<le> bb_maxSize (co_payload (ex_receiver ex_stream))
      \<and> length (stream_of ex_sender p) \<le> 30"
    using ex_sender_ok(8,9) ex_sender_eval(11) ex_receiver_ok(4) by (simp add: ex_chain_def)
  have "2 ^ co_tpduSize ex_sender + 4 \<le> bb_maxSize (co_readBuffer (ex_receiver ex_stream))"
    using ex_receiver_ok(3) by (simp add: ex_sender_size)
  from cotp_messages_delivered [OF ex_sender_ok(1,2,6,3) p d(1) this ex_receiver_ok(2,1) d(2)] show ?thesis
    by (simp add: ex_chain_def)
qed

end
