(* ===== verification/CotpConnect.thy ===== *)
theory CotpConnect
  imports CotpReceive
begin

text \<open>
  Setting up a transport connection: the TPDU size, the connect request and its confirmation, and what parsing an
  arbitrary packet may do.
\<close>

subsection \<open>The TPDU size\<close>

lemma tpdu_loop_bounds:
  "sz \<le> 2 ^ tpdu_loop n sz \<and> n \<le> tpdu_loop n sz \<and> (n < tpdu_loop n sz \<longrightarrow> 2 ^ (tpdu_loop n sz - 1) < sz)"
proof (induction n sz rule: tpdu_loop.induct)
  case (1 n sz)
  show ?case
  proof (cases "2 ^ n < sz")
    case True
    then have "tpdu_loop n sz = tpdu_loop (n + 1) sz" by (subst tpdu_loop.simps) simp
    moreover have "tpdu_loop (n + 1) sz - 1 = n" if "\<not> n + 1 < tpdu_loop (n + 1) sz" using 1 [OF True] that by linarith
    ultimately show ?thesis using 1 [OF True] True by (cases "n + 1 < tpdu_loop (n + 1) sz") auto
  next
    case False
    then have "tpdu_loop n sz = n" by (subst tpdu_loop.simps) simp
    then show ?thesis using False by simp
  qed
qed

lemma setTpduSize_frame: "\<exists>k. CotpConnection_setTpduSize c sz = c\<lparr>co_tpduSize := k\<rparr>"
  unfolding CotpConnection_setTpduSize_def Let_def by blast

text \<open>The exponent is the floor of the binary logarithm, at most that of the maximal size.\<close>

lemma setTpduSize_log:
  assumes "0 < sz"
  shows "2 ^ co_tpduSize (CotpConnection_setTpduSize c sz) \<le> min sz 8192"
    and "min sz 8192 < 2 ^ (co_tpduSize (CotpConnection_setTpduSize c sz) + 1)"
proof -
  define m where "m = min sz 8192"
  define k where "k = tpdu_loop 1 m"
  have set: "co_tpduSize (CotpConnection_setTpduSize c sz) = (if m < 2 ^ k then k - 1 else k)"
    by (simp add: CotpConnection_setTpduSize_def COTP_MAX_TPDU_SIZE_def m_def k_def Let_def min_def)
  have k: "m \<le> 2 ^ k" "1 \<le> k" "1 < k \<longrightarrow> 2 ^ (k - 1) < m" using tpdu_loop_bounds [of m 1] by (simp_all add: k_def)
  have "0 < m" using assms by (simp add: m_def)
  have "2 ^ (if m < 2 ^ k then k - 1 else k) \<le> m \<and> m < 2 ^ ((if m < 2 ^ k then k - 1 else k) + 1)"
  proof (cases "m < 2 ^ k")
    case True
    then show ?thesis using k(2,3) \<open>0 < m\<close> by (cases "k = 1") auto
  qed (use k(1) in auto)
  then show "2 ^ co_tpduSize (CotpConnection_setTpduSize c sz) \<le> min sz 8192"
    and "min sz 8192 < 2 ^ (co_tpduSize (CotpConnection_setTpduSize c sz) + 1)" by (simp_all only: set m_def)
qed

lemma setTpduSize_exp:
  assumes "k \<le> 13"
  shows "CotpConnection_setTpduSize c (2 ^ k) = c\<lparr>co_tpduSize := k\<rparr>"
proof -
  let ?j = "co_tpduSize (CotpConnection_setTpduSize c (2 ^ k))"
  have "(2 :: nat) ^ k \<le> 2 ^ 13" using assms by (intro power_increasing) auto
  then have "min (2 ^ k) 8192 = (2 :: nat) ^ k" by simp
  then have "(2 :: nat) ^ ?j \<le> 2 ^ k" "(2 :: nat) ^ k < 2 ^ (?j + 1)" using setTpduSize_log [of "2 ^ k" c] by simp_all
  then have "?j \<le> k" "k < ?j + 1" by (simp_all only: power_increasing_iff power_strict_increasing_iff)
  then have "?j = k" by simp
  moreover obtain j where "CotpConnection_setTpduSize c (2 ^ k) = c\<lparr>co_tpduSize := j\<rparr>" using setTpduSize_frame by blast
  ultimately show ?thesis by simp
qed

text \<open>
  Setting the TPDU size takes the largest power of two that is not above the wanted size and the maximal size of 8192
  octets: the loop over the exponent ends and the size in use afterwards is between half of the wanted size and the wanted size.
\<close>

theorem setTpduSize_largest_power:
  assumes "0 < sz"
  shows "CotpConnection_getTpduSize (CotpConnection_setTpduSize c sz) \<le> min sz 8192
    \<and> min sz 8192 < 2 * CotpConnection_getTpduSize (CotpConnection_setTpduSize c sz)"
  using setTpduSize_log [OF assms, of c] by (simp add: CotpConnection_getTpduSize_def)

subsection \<open>Options\<close>

definition option_octets :: "u8 \<Rightarrow> TSelector \<Rightarrow> bytes" where
  "option_octets code s = (if ts_size s \<noteq> 0 then [code, word_of_nat (ts_size s)] @ take (ts_size s) (ts_value s) else [])"

definition options_octets :: "CotpConnection \<Rightarrow> bytes" where
  "options_octets c =
     (if co_tpduSize c \<noteq> 0 then [0xc0, 1, word_of_nat (co_tpduSize c)] else [])
     @ option_octets 0xc2 (co_tSelDst c) @ option_octets 0xc1 (co_tSelSrc c)"

definition sel_ok :: "TSelector \<Rightarrow> bool" where
  "sel_ok s \<longleftrightarrow> ts_size s \<le> 4 \<and> length (ts_value s) = 4"

lemma length_options: "sel_ok (co_tSelDst c) \<Longrightarrow> sel_ok (co_tSelSrc c) \<Longrightarrow> length (options_octets c) = getOptionsLength c"
  by (simp add: options_octets_def option_octets_def getOptionsLength_def sel_ok_def)

lemma writeOptions_puts:
  assumes "sel_ok (co_tSelDst c)" and "sel_ok (co_tSelSrc c)" and "co_writeBuffer c = Some wb"
  shows "writeOptions c = do { (buf, pos) \<leftarrow> puts (options_octets c) (bb_buffer wb) (bb_size wb);
     Some (c\<lparr>co_writeBuffer := Some (wb\<lparr>bb_buffer := buf, bb_size := pos\<rparr>)\<rparr>) }"
proof -
  have "rdn (ts_value (co_tSelDst c)) 0 (ts_size (co_tSelDst c)) = Some (take (ts_size (co_tSelDst c)) (ts_value (co_tSelDst c)))"
    "rdn (ts_value (co_tSelSrc c)) 0 (ts_size (co_tSelSrc c)) = Some (take (ts_size (co_tSelSrc c)) (ts_value (co_tSelSrc c)))"
    using assms(1,2) by (simp_all add: sel_ok_def rdn_in)
  then show ?thesis unfolding writeOptions_def Let_def assms(3) puts_if
    by (simp add: options_octets_def option_octets_def puts_bind_assoc [symmetric] case_prod_beta' cong: if_cong)
qed

lemma writeOptions_eq:
  assumes "sel_ok (co_tSelDst c)" and "sel_ok (co_tSelSrc c)"
  shows "write_octets c xs 0 \<bind> (\<lambda>c. writeOptions c \<bind> f) = write_octets c (xs @ options_octets c) 0 \<bind> f"
proof -
  have "write_octets c xs 0 \<bind> (\<lambda>c. writeOptions c \<bind> f) = write_octets c xs 0 \<bind> (\<lambda>d. write_octets d (options_octets c) (length xs) \<bind> f)"
  proof (cases "write_octets c xs 0")
    case (Some d)
    then obtain wb b where d: "d = c\<lparr>co_writeBuffer := Some (wb\<lparr>bb_buffer := b, bb_size := length xs\<rparr>)\<rparr>"
      by (auto simp: write_octets_def puts_eq split: option.splits bind_splits if_splits)
    then have "options_octets d = options_octets c" by (simp add: options_octets_def)
    then show ?thesis using Some d assms writeOptions_puts [of d "wb\<lparr>bb_buffer := b, bb_size := length xs\<rparr>"]
      by (simp add: write_octets_def)
  qed simp
  then show ?thesis by (simp add: write_octets_append)
qed

text \<open>The two connection messages.\<close>

definition tpkt :: "bytes \<Rightarrow> bytes" where
  "tpkt xs = [3, 0, word_of_nat ((4 + length xs) div 256), word_of_nat (4 + length xs)] @ xs"

definition connect_request :: "CotpConnection \<Rightarrow> bytes" where
  "connect_request c = tpkt ([word_of_nat (6 + length (options_octets c)), 0xe0, 0, 0] @ ref_octets (co_localRef c) @ [0] @ options_octets c)"

definition connect_confirm :: "CotpConnection \<Rightarrow> bytes" where
  "connect_confirm c = tpkt ([word_of_nat (6 + length (options_octets c)), 0xd0] @ ref_octets (co_remoteRef c)
     @ ref_octets (co_localRef c) @ [word_of_int (co_protocolClass c)] @ options_octets c)"

lemma length_ref_octets [simp]: "length (ref_octets r) = 2"
  by (simp add: ref_octets_def)

lemma write_octets_bind_cong:
  assumes "\<And>w. f (c\<lparr>co_writeBuffer := w\<rparr>) = g (c\<lparr>co_writeBuffer := w\<rparr>)"
  shows "write_octets c xs p \<bind> f = write_octets c xs p \<bind> g"
  using assms by (cases "write_octets c xs p") (auto simp: write_octets_def split: bind_splits)

lemma connect_writes:
  assumes "sel_ok (co_tSelDst c)" and "sel_ok (co_tSelSrc c)" and "length ys = 7" and "n = 11 + length (options_octets c)"
    and "\<And>w. fixed (c\<lparr>co_writeBuffer := w\<rparr>) = ys"
  shows "do { d \<leftarrow> writeRfc1006Header c n; e \<leftarrow> write_octets d (fixed d) 4; e \<leftarrow> writeOptions e; map_option sent_indication (sendBuffer e) }
    = map_option sent_indication (write_octets c (tpkt (ys @ options_octets c)) 0 \<bind> sendBuffer)"
proof -
  let ?h = "[3, 0, word_of_nat (n div 256), word_of_nat n] :: bytes"
  let ?k = "\<lambda>e. writeOptions e \<bind> (\<lambda>e. map_option sent_indication (sendBuffer e))"
  have "do { d \<leftarrow> writeRfc1006Header c n; e \<leftarrow> write_octets d (fixed d) 4; ?k e } = write_octets c ?h 0 \<bind> (\<lambda>d. write_octets d ys 4 \<bind> ?k)"
    unfolding writeRfc1006Header_def by (rule write_octets_bind_cong) (simp add: assms(5))
  also have "\<dots> = write_octets c (?h @ ys) 0 \<bind> ?k" by (rule write_octets_append) simp
  also have "\<dots> = write_octets c ((?h @ ys) @ options_octets c) 0 \<bind> (\<lambda>e. map_option sent_indication (sendBuffer e))"
    by (rule writeOptions_eq [OF assms(1,2)])
  also have "(?h @ ys) @ options_octets c = tpkt (ys @ options_octets c)" using assms(3,4) by (simp add: tpkt_def)
  finally show ?thesis by (simp add: map_option_bind)
qed

lemma sendConnectionRequest_eq:
  assumes "sel_ok r" and "sel_ok l" and c': "c' = (allocateWriteBuffer c)\<lparr>co_tSelDst := r, co_tSelSrc := l\<rparr>"
    and "wb_ok c' (length (connect_request c'))"
  shows "CotpConnection_sendConnectionRequestMessage c r l =
    map_option sent_indication (write_octets c' (connect_request c') 0 \<bind> sendBuffer)"
proof -
  have sel: "sel_ok (co_tSelDst c')" "sel_ok (co_tSelSrc c')" using assms(1,2) c' by simp_all
  note len = length_options [OF sel]
  obtain wb where wb: "co_writeBuffer c' = Some wb" "\<not> bb_maxSize wb < getOptionsLength c' + 6 + 5"
    using assms(4) len by (auto simp: wb_ok_def connect_request_def tpkt_def split: option.splits)
  have "connect_request c' = tpkt (([word_of_nat (getOptionsLength c' + 6), 0xe0, 0, 0] @ ref_octets (co_localRef c') @ [0]) @ options_octets c')"
    using len by (simp add: connect_request_def ac_simps)
  then show ?thesis
    unfolding CotpConnection_sendConnectionRequestMessage_def Let_def c' [symmetric] wb(1) Option.bind.simps if_not_P [OF wb(2)]
    by (simp only:) (rule connect_writes [OF sel], simp_all add: len)
qed

lemma sendConnectionResponse_eq:
  assumes c': "c' = allocateWriteBuffer c" and "sel_ok (co_tSelDst c')" and "sel_ok (co_tSelSrc c')"
  shows "CotpConnection_sendConnectionResponseMessage c =
    map_option sent_indication (write_octets c' (connect_confirm c') 0 \<bind> sendBuffer)"
proof -
  note len = length_options [OF assms(2,3)]
  have "connect_confirm c' = tpkt (([word_of_nat (6 + getOptionsLength c'), 0xd0] @ ref_octets (co_remoteRef c') @ ref_octets (co_localRef c')
      @ [word_of_int (co_protocolClass c')]) @ options_octets c')"
    using len by (simp add: connect_confirm_def)
  then show ?thesis
    unfolding CotpConnection_sendConnectionResponseMessage_def Let_def c' [symmetric] writeStaticConnectResponseHeader_def
    by (simp only:) (rule connect_writes [OF assms(2,3)], simp_all add: len)
qed

subsection \<open>Parsing the options\<close>

lemma parse_size_option:
  assumes d: "drop (buffer + pos) (bb_buffer (co_readBuffer c)) = [0xc0, 1, v] @ zs" and v: "unat v < 31" and len: "pos + 3 \<le> len"
  shows "parseOptions c buffer pos len = parseOptions (CotpConnection_setTpduSize c (2 ^ unat v)) buffer (pos + 3) len"
    and "drop (buffer + (pos + 3)) (bb_buffer (co_readBuffer c)) = zs"
proof -
  have "drop (buffer + pos) (bb_buffer (co_readBuffer c)) = 0xc0 # 1 # (v # zs)" using d by simp
  note r = drop_Cons2 [OF this]
  then have v': "rd (bb_buffer (co_readBuffer c)) (buffer + pos + 2) = Some v" "drop (buffer + pos + 2 + 1) (bb_buffer (co_readBuffer c)) = zs"
    using rd_drop [of "buffer + pos + 2" "bb_buffer (co_readBuffer c)" 0] drop_drop [of 1 "buffer + pos + 2" "bb_buffer (co_readBuffer c)"]
    by (auto simp: rd_def)
  then show "drop (buffer + (pos + 3)) (bb_buffer (co_readBuffer c)) = zs" by (simp add: numeral_3_eq_3)
  have "\<not> 31 \<le> v" using v by (simp add: word_le_nat_alt)
  then show "parseOptions c buffer pos len = parseOptions (CotpConnection_setTpduSize c (2 ^ unat v)) buffer (pos + 3) len"
    using r v' len by (subst parseOptions.simps) (simp add: add.assoc [symmetric] numeral_3_eq_3)
qed

definition stored_sel :: "TSelector \<Rightarrow> TSelector \<Rightarrow> TSelector" where
  "stored_sel old s = (if ts_size s \<noteq> 0 then \<lparr>ts_size = ts_size s, ts_value = overlay (ts_value old) 0 (take (ts_size s) (ts_value s))\<rparr> else old)"

lemma parse_selector_option:
  assumes d: "drop (buffer + pos) (bb_buffer (co_readBuffer c)) = option_octets code s @ zs" and s: "sel_ok s"
    and len: "pos + length (option_octets code s) \<le> len" and old: "sel_ok (co_tSelSrc c)" "sel_ok (co_tSelDst c)"
  shows "code = 0xc1 \<Longrightarrow> parseOptions c buffer pos len =
      parseOptions (c\<lparr>co_tSelSrc := stored_sel (co_tSelSrc c) s\<rparr>) buffer (pos + length (option_octets code s)) len"
    and "code = 0xc2 \<Longrightarrow> parseOptions c buffer pos len =
      parseOptions (c\<lparr>co_tSelDst := stored_sel (co_tSelDst c) s\<rparr>) buffer (pos + length (option_octets code s)) len"
    and "drop (buffer + (pos + length (option_octets code s))) (bb_buffer (co_readBuffer c)) = zs"
proof -
  let ?m = "bb_buffer (co_readBuffer c)" and ?n = "ts_size s" and ?x = "take (ts_size s) (ts_value s)"
  show "drop (buffer + (pos + length (option_octets code s))) ?m = zs"
    using drop_append_drop [OF d] by (simp add: add.assoc)
  have goal: "(code = 0xc1 \<longrightarrow> parseOptions c buffer pos len =
      parseOptions (c\<lparr>co_tSelSrc := stored_sel (co_tSelSrc c) s\<rparr>) buffer (pos + length (option_octets code s)) len)
    \<and> (code = 0xc2 \<longrightarrow> parseOptions c buffer pos len =
      parseOptions (c\<lparr>co_tSelDst := stored_sel (co_tSelDst c) s\<rparr>) buffer (pos + length (option_octets code s)) len)"
  proof (cases "?n = 0")
    case True
    then show ?thesis by (simp add: option_octets_def stored_sel_def)
  next
    case False
    then have "drop (buffer + pos) ?m = code # word_of_nat ?n # (?x @ zs)" using d by (simp add: option_octets_def)
    note r = drop_Cons2 [OF this]
    have x: "length ?x = ?n" "?n \<le> 4" "unat (word_of_nat ?n :: u8) = ?n" using s by (simp_all add: sel_ok_def)
    have "rdn ?m (buffer + pos + 2) ?n = Some ?x" using r rdn_drop_append [of "buffer + pos + 2" ?m ?x zs] x(1) False by fastforce
    moreover have "store_selector old ?x = Some (stored_sel old s)" if "sel_ok old" for old
      using that x False by (simp add: store_selector_def stored_sel_def puts_fits sel_ok_def)
    moreover have "length (option_octets x s) = 2 + ?n" for x using False x by (simp add: option_octets_def)
    ultimately show ?thesis using r x len old by (subst (1 3) parseOptions.simps) (simp add: add.assoc [symmetric])
  qed
  show "code = 0xc1 \<Longrightarrow> parseOptions c buffer pos len =
      parseOptions (c\<lparr>co_tSelSrc := stored_sel (co_tSelSrc c) s\<rparr>) buffer (pos + length (option_octets code s)) len"
    and "code = 0xc2 \<Longrightarrow> parseOptions c buffer pos len =
      parseOptions (c\<lparr>co_tSelDst := stored_sel (co_tSelDst c) s\<rparr>) buffer (pos + length (option_octets code s)) len"
    using goal by blast+
qed

text \<open>What a connection knows after the options of \<open>c\<close>.\<close>

definition negotiated :: "CotpConnection \<Rightarrow> CotpConnection \<Rightarrow> CotpConnection" where
  "negotiated c s = s\<lparr>co_tpduSize := (if co_tpduSize c \<noteq> 0 then co_tpduSize c else co_tpduSize s),
     co_tSelDst := stored_sel (co_tSelDst s) (co_tSelDst c), co_tSelSrc := stored_sel (co_tSelSrc s) (co_tSelSrc c)\<rparr>"

lemma parseOptions_options:
  assumes d: "drop buffer (bb_buffer (co_readBuffer s)) = options_octets c @ zs" and "co_tpduSize c \<le> 13"
    and c: "sel_ok (co_tSelDst c)" "sel_ok (co_tSelSrc c)" and s: "sel_ok (co_tSelDst s)" "sel_ok (co_tSelSrc s)"
  shows "parseOptions s buffer 0 (length (options_octets c)) = Some (True, negotiated c s)"
proof -
  let ?A = "if co_tpduSize c \<noteq> 0 then [0xc0, 1, word_of_nat (co_tpduSize c)] else [] :: bytes"
  let ?B = "option_octets 0xc2 (co_tSelDst c)" and ?C = "option_octets 0xc1 (co_tSelSrc c)" and ?m = "bb_buffer (co_readBuffer s)"
  let ?s1 = "s\<lparr>co_tpduSize := (if co_tpduSize c \<noteq> 0 then co_tpduSize c else co_tpduSize s)\<rparr>"
  let ?s2 = "?s1\<lparr>co_tSelDst := stored_sel (co_tSelDst s) (co_tSelDst c)\<rparr>"
  let ?n = "length (options_octets c)"
  have len: "?n = length ?A + length ?B + length ?C" by (simp add: options_octets_def)
  have st: "sel_ok (stored_sel o' s')" if "sel_ok o'" "sel_ok s'" for o' s'
    using that by (auto simp: stored_sel_def sel_ok_def)
  have size: "unat (word_of_nat (co_tpduSize c) :: u8) = co_tpduSize c" using assms(2) by simp
  have 1: "parseOptions s buffer 0 ?n = parseOptions ?s1 buffer (length ?A) ?n \<and> drop (buffer + length ?A) ?m = ?B @ ?C @ zs"
  proof (cases "co_tpduSize c = 0")
    case True
    then show ?thesis using d by (simp add: options_octets_def)
  next
    case False
    then have "drop (buffer + 0) ?m = [0xc0, 1, word_of_nat (co_tpduSize c)] @ (?B @ ?C @ zs)" using d by (simp add: options_octets_def)
    from parse_size_option [OF this, of ?n] show ?thesis
      using False assms(2) size len setTpduSize_exp [OF assms(2), of s] by (simp add: numeral_3_eq_3)
  qed
  have d1: "drop (buffer + length ?A) (bb_buffer (co_readBuffer ?s1)) = ?B @ (?C @ zs)" using 1 by simp
  have s1: "sel_ok (co_tSelSrc ?s1)" "sel_ok (co_tSelDst ?s1)" using s by simp_all
  note 2 = parse_selector_option [OF d1 c(1) _ s1, of ?n]
  have d2: "drop (buffer + (length ?A + length ?B)) (bb_buffer (co_readBuffer ?s2)) = ?C @ zs" using 2(3) len by simp
  have s2: "sel_ok (co_tSelSrc ?s2)" "sel_ok (co_tSelDst ?s2)" using s st c by simp_all
  note 3 = parse_selector_option [OF d2 c(2) _ s2, of ?n]
  have "parseOptions s buffer 0 ?n = parseOptions (?s2\<lparr>co_tSelSrc := stored_sel (co_tSelSrc s) (co_tSelSrc c)\<rparr>) buffer ?n ?n"
    using 1 2(2) 3(1) len by simp
  also have "?s2\<lparr>co_tSelSrc := stored_sel (co_tSelSrc s) (co_tSelSrc c)\<rparr> = negotiated c s" by (simp add: negotiated_def)
  finally show ?thesis by (subst (asm) (2) parseOptions.simps) simp
qed

subsection \<open>The handshake\<close>

lemma ref_octets_value:
  assumes "0 \<le> r" and "r < 65536"
  shows "ref_octets r = [a, b] \<Longrightarrow> int (unat a) * 256 + int (unat b) = r"
proof -
  have "r sdiv 256 = r div 256" using assms by (cases "r = 0") (simp_all add: signed_divide_int_def)
  moreover have "int (unat (word_of_int x :: u8)) = x mod 256" for x by (simp add: unsigned_of_int take_bit_eq_mod)
  moreover have "r div 256 mod 256 = r div 256" using assms by simp
  ultimately show "ref_octets r = [a, b] \<Longrightarrow> int (unat a) * 256 + int (unat b) = r" using assms by (auto simp: ref_octets_def)
qed

lemma is_tpkt_tpkt: "xs \<noteq> [] \<Longrightarrow> length xs < 65532 \<Longrightarrow> is_tpkt (tpkt xs)"
proof -
  assume "xs \<noteq> []" and "length xs < 65532"
  then have "unat (word_of_nat ((4 + length xs) div 256) :: u8) * 256 + unat (word_of_nat (4 + length xs) :: u8) = 4 + length xs"
    by (simp del: of_nat_add)
  then show ?thesis using \<open>xs \<noteq> []\<close> by (simp add: is_tpkt_def tpkt_def)
qed

text \<open>A whole packet that arrives is parsed with its octets at the front of the read buffer.\<close>

lemma packet_parsed:
  assumes st: "idle s (t @ rest)" and t: "is_tpkt t" "length t \<le> bb_maxSize (co_readBuffer s)" "length t \<le> fuel"
    and parse: "\<And>d tail. bb_buffer (co_readBuffer d) = t @ tail \<Longrightarrow> bb_size (co_readBuffer d) = length t \<Longrightarrow> recv_frame s d \<Longrightarrow>
      parseCotpMessage d = Some (ind, g d)"
    and g: "\<And>d. co_readBuffer (g d) = co_readBuffer d \<and> co_socket (g d) = co_socket d \<and> co_extensionBufferFill (g d) = co_extensionBufferFill d"
    and ind: "ind \<noteq> COTP_MORE_FRAGMENTS_FOLLOW"
  shows "\<exists>d. recv_frame s d \<and> cotp_receive fuel s = Some (Indication ind, (g d)\<lparr>co_readBuffer := (co_readBuffer d)\<lparr>bb_size := 0\<rparr>, co_packetSize := 0\<rparr>)
    \<and> idle ((g d)\<lparr>co_readBuffer := (co_readBuffer d)\<lparr>bb_size := 0\<rparr>, co_packetSize := 0\<rparr>) rest"
proof -
  have rd: "reading s t 0 rest" by (rule idle_reading [OF st t(1,2)])
  have "0 < length t" "sized s t 0" using t(1) by (auto simp: sized_def is_tpkt_def)
  from packet_arrives [OF rd this] obtain j d where j: "j \<le> length t" "reading d t (length t) rest" "recv_frame s d"
    "\<forall>f. cotp_receive (j + f) s = do { (ind, e) \<leftarrow> CotpConnection_parseIncomingMessage d;
       if ind = COTP_MORE_FRAGMENTS_FOLLOW then cotp_receive f e else Some (Indication ind, e) }"
    by auto
  note r = readingD [OF j(2)]
  have "bb_buffer (co_readBuffer d) = t @ drop (length t) (bb_buffer (co_readBuffer d))"
    using r(6) append_take_drop_id [of "length t" "bb_buffer (co_readBuffer d)"] by simp
  note p = parse [OF this r(5) j(3)]
  have "cotp_receive fuel s = Some (Indication ind, (g d)\<lparr>co_readBuffer := (co_readBuffer d)\<lparr>bb_size := 0\<rparr>, co_packetSize := 0\<rparr>)"
    using j(1) t(3) spec [OF j(4), of "fuel - j"] p ind g [of d] by (simp add: CotpConnection_parseIncomingMessage_def)
  moreover have "idle ((g d)\<lparr>co_readBuffer := (co_readBuffer d)\<lparr>bb_size := 0\<rparr>, co_packetSize := 0\<rparr>) rest"
    using r(1,7-10) g [of d] by (simp add: idle_def Let_def)
  ultimately show ?thesis using j(3) by blast
qed

text \<open>The fixed part and the options of both connection messages.\<close>

lemma parse_connect_options:
  assumes b: "bb_buffer (co_readBuffer d) = tpkt ([li, code] @ refs @ [cls] @ options_octets c) @ tail" and refs: "length refs = 4"
    and li: "unat li = 6 + length (options_octets c)" and pos: "refPos = 6 \<or> refPos = 8"
    and size: "co_tpduSize c \<le> 13" and c: "sel_ok (co_tSelDst c)" "sel_ok (co_tSelSrc c)" and s: "sel_ok (co_tSelDst d)" "sel_ok (co_tSelSrc d)"
  shows "parse_connect d refPos 6 (unat li) = Some (True, negotiated c
     (d\<lparr>co_remoteRef := int (unat (refs ! (refPos - 6))) * 256 + int (unat (refs ! (refPos - 5))), co_protocolClass := int (unat cls)\<rparr>))"
proof -
  let ?m = "bb_buffer (co_readBuffer d)"
  obtain a1 a2 a3 a4 where r: "refs = [a1, a2, a3, a4]" using refs by (auto simp: length_Suc_conv numeral_eq_Suc)
  have m: "drop 11 ?m = options_octets c @ tail" "rd ?m 10 = Some cls"
    "getUint16 ?m refPos = Some (int (unat (refs ! (refPos - 6))) * 256 + int (unat (refs ! (refPos - 5))))"
    using pos unfolding b by (auto simp: tpkt_def r rd_def getUint16_def)
  show ?thesis unfolding parse_connect_def m(3)
    using m(1,2) li parseOptions_options [of 11 "d\<lparr>co_remoteRef := x, co_protocolClass := y\<rparr>" c tail for x y] size c s by simp
qed

definition selector :: "TSelector \<Rightarrow> bytes" where
  "selector s = take (ts_size s) (ts_value s)"

lemma selector_stored: "sel_ok old \<Longrightarrow> sel_ok s \<Longrightarrow> ts_size s \<noteq> 0 \<Longrightarrow> selector (stored_sel old s) = selector s"
  by (simp add: selector_def stored_sel_def sel_ok_def overlay_def)

lemma length_options_le: "sel_ok (co_tSelDst c) \<Longrightarrow> sel_ok (co_tSelSrc c) \<Longrightarrow> length (options_octets c) \<le> 15"
  by (simp add: length_options getOptionsLength_def sel_ok_def)

text \<open>A connection message that is sent whole is appended to the stream.\<close>

lemma connect_message_sent:
  assumes "map_option sent_indication (write_octets c t 0 \<bind> sendBuffer) = Some (COTP_OK, d)"
    and "conn_ok c" and "wb_ok c (length t)"
    and "co_extensionBuffer c = None \<or> co_extensionBufferFill c + length t \<le> co_extensionBufferSize c"
  shows "wire d = wire c @ t"
  using send_tpdu_stream [OF assms(2-4)] assms(1) by (auto simp: sent_indication_def split: if_splits)

text \<open>The common part of both directions: the message of \<open>c\<close> reaches \<open>s\<close>.\<close>

lemma connect_message_received:
  assumes msg: "t = tpkt ([word_of_nat (6 + length (options_octets c)), code] @ refs @ [cls] @ options_octets c)"
    and code: "code = 0xe0 \<and> refPos = 8 \<or> code = 0xd0 \<and> refPos = 6" and refs: "length refs = 4"
    and c: "co_tpduSize c \<le> 13" "sel_ok (co_tSelDst c)" "sel_ok (co_tSelSrc c)"
    and s: "sel_ok (co_tSelDst s)" "sel_ok (co_tSelSrc s)" "idle s (t @ rest)" "26 \<le> bb_maxSize (co_readBuffer s)" "26 \<le> fuel"
  shows "\<exists>e. cotp_receive fuel s = Some (Indication COTP_CONNECT_INDICATION, e) \<and> idle e rest
    \<and> co_remoteRef e = int (unat (refs ! (refPos - 6))) * 256 + int (unat (refs ! (refPos - 5))) \<and> co_protocolClass e = int (unat cls)
    \<and> co_tSelDst e = stored_sel (co_tSelDst s) (co_tSelDst c) \<and> co_tSelSrc e = stored_sel (co_tSelSrc s) (co_tSelSrc c)
    \<and> co_tpduSize e = (if co_tpduSize c \<noteq> 0 then co_tpduSize c else co_tpduSize s)"
proof -
  let ?o = "options_octets c"
  define li where "li = (word_of_nat (6 + length (options_octets c)) :: u8)"
  note len = length_options_le [OF c(2,3)]
  have li: "unat li = 6 + length ?o" using len by (simp add: li_def del: of_nat_add)
  have "uint li = int (unat li)" by simp
  then have li': "uint li = 6 + int (length ?o)" unfolding li by simp
  note msg = msg [folded li_def]
  have t: "length t = 11 + length ?o" "is_tpkt t" using refs len by (simp_all add: msg is_tpkt_tpkt) (simp add: tpkt_def)
  define g where "g = (\<lambda>d. negotiated c (d\<lparr>co_remoteRef := int (unat (refs ! (refPos - 6))) * 256 + int (unat (refs ! (refPos - 5))),
    co_protocolClass := int (unat cls)\<rparr>))"
  have "\<exists>d. recv_frame s d \<and> cotp_receive fuel s = Some (Indication COTP_CONNECT_INDICATION,
      (g d)\<lparr>co_readBuffer := (co_readBuffer d)\<lparr>bb_size := 0\<rparr>, co_packetSize := 0\<rparr>)
    \<and> idle ((g d)\<lparr>co_readBuffer := (co_readBuffer d)\<lparr>bb_size := 0\<rparr>, co_packetSize := 0\<rparr>) rest"
  proof (rule packet_parsed [OF s(3) t(2)])
    fix d tail assume d: "bb_buffer (co_readBuffer d) = t @ tail" "bb_size (co_readBuffer d) = length t" "recv_frame s d"
    have sel: "sel_ok (co_tSelDst d)" "sel_ok (co_tSelSrc d)" using recv_frameD [OF d(3)] s(1,2) by simp_all
    have "parse_connect d refPos 6 (unat li) = Some (True, g d)"
      unfolding g_def by (rule parse_connect_options [OF d(1) [unfolded msg] refs li _ c sel]) (use code in auto)
    moreover have "rd (bb_buffer (co_readBuffer d)) 4 = Some li" "rd (bb_buffer (co_readBuffer d)) 5 = Some code"
      by (simp_all add: d(1) msg tpkt_def rd_def)
    ultimately show "parseCotpMessage d = Some (COTP_CONNECT_INDICATION, g d)"
      using code t(1) d(2) li li' by (auto simp: parseCotpMessage_def Let_def parseConnectRequestTpdu_def parseConnectConfirmTpdu_def)
  qed (use t len s(4,5) in \<open>auto simp: g_def negotiated_def\<close>)
  then obtain d where "recv_frame s d" "cotp_receive fuel s = Some (Indication COTP_CONNECT_INDICATION,
      (g d)\<lparr>co_readBuffer := (co_readBuffer d)\<lparr>bb_size := 0\<rparr>, co_packetSize := 0\<rparr>)"
    "idle ((g d)\<lparr>co_readBuffer := (co_readBuffer d)\<lparr>bb_size := 0\<rparr>, co_packetSize := 0\<rparr>) rest" by blast
  then show ?thesis using recv_frameD [of s d]
    by (intro exI [of _ "(g d)\<lparr>co_readBuffer := (co_readBuffer d)\<lparr>bb_size := 0\<rparr>, co_packetSize := 0\<rparr>"]) (simp add: g_def negotiated_def)
qed

lemma allocateWriteBuffer_simps [simp]:
  "wire (allocateWriteBuffer c) = wire c" "conn_ok (allocateWriteBuffer c) = conn_ok c" "co_tpduSize (allocateWriteBuffer c) = co_tpduSize c"
  "co_localRef (allocateWriteBuffer c) = co_localRef c" "co_remoteRef (allocateWriteBuffer c) = co_remoteRef c"
  "co_protocolClass (allocateWriteBuffer c) = co_protocolClass c"
  "co_tSelDst (allocateWriteBuffer c) = co_tSelDst c" "co_tSelSrc (allocateWriteBuffer c) = co_tSelSrc c"
  "co_extensionBuffer (allocateWriteBuffer c) = co_extensionBuffer c" "co_extensionBufferFill (allocateWriteBuffer c) = co_extensionBufferFill c"
  "co_extensionBufferSize (allocateWriteBuffer c) = co_extensionBufferSize c"
  by (simp_all add: allocateWriteBuffer_def wire_def pending_def conn_ok_def split: option.splits)

text \<open>
  C20: A connect request of a client, once sent, arrives at the server as a connect indication, in pieces of any size: the
  server then has the client's reference as the remote one, class 0, the TPDU size the client offered, and both transport
  selectors; the octets behind the request stay for the next packet.
\<close>

theorem connect_request_received:
  assumes "sel_ok r" "sel_ok l" "ts_size r \<noteq> 0" "ts_size l \<noteq> 0" and "conn_ok c" "wb_ok (allocateWriteBuffer c) 26"
    and "co_extensionBuffer c = None \<or> co_extensionBufferFill c + 26 \<le> co_extensionBufferSize c"
    and "0 \<le> co_localRef c" "co_localRef c < 65536" and "1 \<le> co_tpduSize c" "co_tpduSize c \<le> 13"
    and "CotpConnection_sendConnectionRequestMessage c r l = Some (COTP_OK, d)" and "wire d = wire c @ t"
    and "sel_ok (co_tSelDst s)" "sel_ok (co_tSelSrc s)" "idle s (t @ rest)" "26 \<le> bb_maxSize (co_readBuffer s)" "26 \<le> fuel"
  shows "\<exists>e. cotp_receive fuel s = Some (Indication COTP_CONNECT_INDICATION, e) \<and> idle e rest
    \<and> co_remoteRef e = co_localRef c \<and> co_protocolClass e = 0 \<and> co_tpduSize e = co_tpduSize c
    \<and> selector (co_tSelDst e) = selector r \<and> selector (co_tSelSrc e) = selector l"
proof -
  define c' where "c' = (allocateWriteBuffer c)\<lparr>co_tSelDst := r, co_tSelSrc := l\<rparr>"
  obtain a b where ab: "ref_octets (co_localRef c) = [a, b]" by (simp add: ref_octets_def)
  have sel: "sel_ok (co_tSelDst c')" "sel_ok (co_tSelSrc c')" "co_tpduSize c' \<le> 13" using assms by (simp_all add: c'_def)
  have msg: "connect_request c' = tpkt ([word_of_nat (6 + length (options_octets c')), 0xe0] @ [0, 0, a, b] @ [0] @ options_octets c')"
    by (simp add: connect_request_def c'_def ab)
  have len: "length (connect_request c') \<le> 26" using length_options_le [OF sel(1,2)] by (simp add: msg tpkt_def)
  have wb: "wb_ok c' (length (connect_request c'))" using assms(6) len by (auto simp: wb_ok_def c'_def split: option.splits)
  have c': "conn_ok c'" "wire c' = wire c" using assms(5) by (simp_all add: c'_def conn_ok_def wire_def pending_def allocateWriteBuffer_def split: option.splits)
  have "wire d = wire c' @ connect_request c'"
    by (rule connect_message_sent [OF _ c'(1) wb])
       (use sendConnectionRequest_eq [OF assms(1,2) c'_def wb] assms(7,12) len in \<open>auto simp: c'_def\<close>)
  then have "t = connect_request c'" using assms(13) c'(2) by simp
  from connect_message_received [OF trans [OF this msg] _ _ sel(3,1,2) assms(14-18), of 8]
  show ?thesis using ref_octets_value [OF assms(8,9) ab] assms(1-4,10,14,15) by (auto simp: c'_def selector_stored)
qed

text \<open>
  C21: The confirmation of the server, once sent, arrives at the client as a connect indication and both sides agree on the TPDU
  size and the selectors.  As the remote reference the client takes the destination reference of the confirmation, which is
  its own reference, and not the one of the server.
\<close>

theorem connect_confirm_received:
  assumes "sel_ok (co_tSelDst s)" "sel_ok (co_tSelSrc s)" "ts_size (co_tSelDst s) \<noteq> 0" "ts_size (co_tSelSrc s) \<noteq> 0"
    and "conn_ok s" "wb_ok (allocateWriteBuffer s) 26"
    and "co_extensionBuffer s = None \<or> co_extensionBufferFill s + 26 \<le> co_extensionBufferSize s"
    and "0 \<le> co_remoteRef s" "co_remoteRef s < 65536" and "1 \<le> co_tpduSize s" "co_tpduSize s \<le> 13"
    and "CotpConnection_sendConnectionResponseMessage s = Some (COTP_OK, d)" and "wire d = wire s @ t"
    and "sel_ok (co_tSelDst c)" "sel_ok (co_tSelSrc c)" "idle c (t @ rest)" "26 \<le> bb_maxSize (co_readBuffer c)" "26 \<le> fuel"
  shows "\<exists>e. cotp_receive fuel c = Some (Indication COTP_CONNECT_INDICATION, e) \<and> idle e rest
    \<and> co_remoteRef e = co_remoteRef s \<and> co_protocolClass e = co_protocolClass s mod 256 \<and> co_tpduSize e = co_tpduSize s
    \<and> selector (co_tSelDst e) = selector (co_tSelDst s) \<and> selector (co_tSelSrc e) = selector (co_tSelSrc s)"
proof -
  define s' where "s' = allocateWriteBuffer s"
  obtain a b where ab: "ref_octets (co_remoteRef s) = [a, b]" by (simp add: ref_octets_def)
  obtain x y where xy: "ref_octets (co_localRef s) = [x, y]" by (simp add: ref_octets_def)
  have sel: "sel_ok (co_tSelDst s')" "sel_ok (co_tSelSrc s')" "co_tpduSize s' \<le> 13" using assms by (simp_all add: s'_def)
  have msg: "connect_confirm s' = tpkt ([word_of_nat (6 + length (options_octets s')), 0xd0] @ [a, b, x, y]
      @ [word_of_int (co_protocolClass s)] @ options_octets s')"
    by (simp add: connect_confirm_def s'_def ab xy)
  have len: "length (connect_confirm s') \<le> 26" using length_options_le [OF sel(1,2)] by (simp add: msg tpkt_def)
  have wb: "wb_ok s' (length (connect_confirm s'))" using assms(6) len by (auto simp: wb_ok_def s'_def split: option.splits)
  have s': "conn_ok s'" "wire s' = wire s" using assms(5) by (simp_all add: s'_def)
  have "wire d = wire s' @ connect_confirm s'"
    by (rule connect_message_sent [OF _ s'(1) wb])
       (use sendConnectionResponse_eq [OF s'_def sel(1,2)] assms(7,12) len in \<open>auto simp: s'_def\<close>)
  then have t: "t = connect_confirm s'" using assms(13) s'(2) by simp
  have "int (unat (word_of_int z :: u8)) = z mod 256" for z by (simp add: unsigned_of_int take_bit_eq_mod)
  with connect_message_received [OF trans [OF t msg] _ _ sel(3,1,2) assms(14-18), of 6]
  show ?thesis using ref_octets_value [OF assms(8,9) ab] assms(1-4,10,14,15) by (auto simp: s'_def selector_stored)
qed

subsection \<open>Arbitrary packets\<close>

text \<open>
  The only fault of the option parser is a TPDU size option of 31 or more.  The options of a connect
  TPDU up to such a one: every option before it lies within the TPDU and has a length the parser accepts.
\<close>

function huge_option :: "bytes \<Rightarrow> nat \<Rightarrow> nat \<Rightarrow> nat \<Rightarrow> bool" where
  "huge_option mem buffer pos bufLen \<longleftrightarrow>
     (if pos < bufLen then
        (let ty = mem ! (buffer + pos); n = unat (mem ! (buffer + pos + 1))
         in if bufLen < pos + 2 + n then False
            else if ty = 0xc0 then n = 1 \<and> (31 \<le> mem ! (buffer + pos + 2) \<or> huge_option mem buffer (pos + 3) bufLen)
            else (ty = 0xc1 \<or> ty = 0xc2 \<longrightarrow> n < 5) \<and> (ty = 0xc6 \<longrightarrow> n = 1) \<and> huge_option mem buffer (pos + 2 + n) bufLen)
      else False)"
  by pat_completeness auto
termination
  by (relation "measure (\<lambda>(_, _, pos, bufLen). bufLen - pos)") auto

declare huge_option.simps [simp del]

text \<open>The packet is a connect TPDU that lies within the packet and has such an option.\<close>

definition asks_huge_size :: "CotpConnection \<Rightarrow> bool" where
  "asks_huge_size c \<longleftrightarrow>
     (let mem = bb_buffer (co_readBuffer c); li = unat (mem ! 4)
      in li + 4 \<le> bb_size (co_readBuffer c) \<and> mem ! 5 \<in> {0xe0, 0xd0} \<and> 6 \<le> li \<and> huge_option mem 11 0 (li - 6))"

lemma setTpduSize_simps [simp]:
  "co_readBuffer (CotpConnection_setTpduSize c sz) = co_readBuffer c" "co_tSelDst (CotpConnection_setTpduSize c sz) = co_tSelDst c"
  "co_tSelSrc (CotpConnection_setTpduSize c sz) = co_tSelSrc c" "co_payload (CotpConnection_setTpduSize c sz) = co_payload c"
  by (simp_all add: CotpConnection_setTpduSize_def Let_def)

lemma store_selector_ok:
  assumes "sel_ok s" and "length xs < 5"
  shows "\<exists>s'. store_selector s xs = Some s' \<and> sel_ok s'"
  using assms by (auto simp: store_selector_def puts_eq sel_ok_def)

lemma parseOptions_safe:
  assumes "sel_ok (co_tSelDst c)" and "sel_ok (co_tSelSrc c)" and "buffer + bufLen < length (bb_buffer (co_readBuffer c))"
  shows "if huge_option (bb_buffer (co_readBuffer c)) buffer pos bufLen then parseOptions c buffer pos bufLen = None
    else \<exists>ok d. parseOptions c buffer pos bufLen = Some (ok, d) \<and> co_payload d = co_payload c"
  using assms
proof (induction "bufLen - pos" arbitrary: c pos rule: less_induct)
  case less
  let ?m = "bb_buffer (co_readBuffer c)"
  show ?case
  proof (cases "pos < bufLen")
    case False
    then have "parseOptions c buffer pos bufLen = Some (True, c)" by (subst parseOptions.simps) simp
    with False show ?thesis by (subst huge_option.simps) auto
  next
    case True
    then obtain ty l where r: "rd ?m (buffer + pos) = Some ty" "rd ?m (buffer + pos + 1) = Some l"
        "ty = ?m ! (buffer + pos)" "l = ?m ! (buffer + pos + 1)"
      using less(4) by (simp add: rd_def)
    let ?n = "unat l"
    have go: "if huge_option ?m buffer (pos + 2 + k) bufLen then parseOptions c' buffer (pos + 2 + k) bufLen = None
      else \<exists>ok d. parseOptions c' buffer (pos + 2 + k) bufLen = Some (ok, d) \<and> co_payload d = co_payload c"
      if "sel_ok (co_tSelDst c')" "sel_ok (co_tSelSrc c')" "co_readBuffer c' = co_readBuffer c" "co_payload c' = co_payload c" for c' k
      using less(1) [of "pos + 2 + k" c'] True that less(4) by (simp cong: if_cong)
    show ?thesis
    proof (cases "bufLen < pos + 2 + ?n")
      case True
      then have "parseOptions c buffer pos bufLen = Some (False, c)" using r \<open>pos < bufLen\<close> by (subst parseOptions.simps) simp
      with True r(4) show ?thesis by (subst huge_option.simps) (auto simp: Let_def)
    next
      case fit: False
      have oct: "\<exists>xs. rdn ?m (buffer + pos + 2) ?n = Some xs \<and> length xs = ?n" using less(4) fit by (simp add: rdn_def)
      then obtain xs where xs: "rdn ?m (buffer + pos + 2) ?n = Some xs" "length xs = ?n" by blast
      have v: "rd ?m (buffer + pos + 2) = Some (?m ! (buffer + pos + 2))" if "?n = 1" using less(4) fit that by (simp add: rd_def)
      have huge: "huge_option ?m buffer pos bufLen \<longleftrightarrow>
         (if ty = 0xc0 then ?n = 1 \<and> (31 \<le> ?m ! (buffer + pos + 2) \<or> huge_option ?m buffer (pos + 2 + 1) bufLen)
          else (ty = 0xc1 \<or> ty = 0xc2 \<longrightarrow> ?n < 5) \<and> (ty = 0xc6 \<longrightarrow> ?n = 1) \<and> huge_option ?m buffer (pos + 2 + ?n) bufLen)"
        using fit \<open>pos < bufLen\<close> r(3,4) by (subst huge_option.simps) (simp add: Let_def numeral_3_eq_3)
      obtain d' where d': "?n < 5 \<longrightarrow> store_selector (co_tSelDst c) xs = Some d' \<and> sel_ok d'"
        using store_selector_ok [OF less(2)] xs(2) by metis
      obtain s' where s': "?n < 5 \<longrightarrow> store_selector (co_tSelSrc c) xs = Some s' \<and> sel_ok s'"
        using store_selector_ok [OF less(3)] xs(2) by metis
      let ?p = "pos + 2"
      have eq: "parseOptions c buffer pos bufLen =
        (if ty = 0xc0 then
           (if ?n = 1 then do { v \<leftarrow> rd ?m (buffer + pos + 2); if 31 \<le> v then None
              else parseOptions (CotpConnection_setTpduSize c (2 ^ unat v)) buffer (?p + 1) bufLen } else Some (False, c))
         else if ty = 0xc1 then
           (if ?n < 5 then do { sel \<leftarrow> store_selector (co_tSelSrc c) xs;
              parseOptions (c\<lparr>co_tSelSrc := sel\<rparr>) buffer (?p + ?n) bufLen } else Some (False, c))
         else if ty = 0xc2 then
           (if ?n < 5 then do { sel \<leftarrow> store_selector (co_tSelDst c) xs;
              parseOptions (c\<lparr>co_tSelDst := sel\<rparr>) buffer (?p + ?n) bufLen } else Some (False, c))
         else if ty = 0xc6 then (if ?n = 1 then parseOptions c buffer (?p + 1) bufLen else Some (False, c))
         else parseOptions c buffer (?p + ?n) bufLen)"
        using r(1,2) xs fit \<open>pos < bufLen\<close> by (subst parseOptions.simps) (simp add: add.assoc [symmetric] cong: if_cong)
      show ?thesis unfolding eq huge
        using v d' s' go [of "CotpConnection_setTpduSize c (2 ^ unat (?m ! (buffer + pos + 2)))" 1] go [of c 1] go [of c ?n]
          go [of "c\<lparr>co_tSelSrc := s'\<rparr>" ?n] go [of "c\<lparr>co_tSelDst := d'\<rparr>" ?n] less(2,3)
        by (auto simp del: bind_eq_Some_conv)
    qed
  qed
qed

definition payload_ok :: "CotpConnection \<Rightarrow> bool" where
  "payload_ok c \<longleftrightarrow> length (bb_buffer (co_payload c)) = bb_maxSize (co_payload c) \<and> bb_size (co_payload c) \<le> bb_maxSize (co_payload c)"

lemma parse_connect_safe:
  assumes "sel_ok (co_tSelDst c)" and "sel_ok (co_tSelSrc c)" and "refPos + 1 < buffer + 5" and "buffer + len < length (bb_buffer (co_readBuffer c)) + 1"
  shows "if 6 \<le> len \<and> huge_option (bb_buffer (co_readBuffer c)) (buffer + 5) 0 (len - 6) then parse_connect c refPos buffer len = None
    else \<exists>ok d. parse_connect c refPos buffer len = Some (ok, d) \<and> co_payload d = co_payload c"
proof (cases "len < 6")
  case True
  then show ?thesis by (auto simp: parse_connect_def)
next
  case False
  let ?m = "bb_buffer (co_readBuffer c)"
  obtain r cl where r: "getUint16 ?m refPos = Some r" "rd ?m (buffer + 4) = Some cl" using assms(3,4) False by (simp add: getUint16_def rd_def)
  have "buffer + 5 + (len - 6) < length ?m" using assms(4) False by linarith
  with parseOptions_safe [of "c\<lparr>co_remoteRef := r, co_protocolClass := int (unat cl)\<rparr>" "buffer + 5" "len - 6" 0] assms(1,2)
  show ?thesis using r False by (simp add: parse_connect_def cong: if_cong)
qed

lemma parse_data_safe:
  assumes "payload_ok c" and "7 \<le> length (bb_buffer (co_readBuffer c))" and "bb_size (co_readBuffer c) \<le> length (bb_buffer (co_readBuffer c))"
  shows "\<exists>ok d. parseDataTpdu c 6 len = Some (ok, d) \<and> payload_ok d
    \<and> (\<exists>ok' e. addPayloadToBuffer d 7 (int (bb_size (co_readBuffer c)) - 7) = Some (ok', e) \<and> payload_ok e)"
  using assms by (auto simp: parseDataTpdu_def addPayloadToBuffer_def payload_ok_def Let_def rd_def rdn_def puts_eq nat_diff_distrib')

text \<open>
  C18: A complete packet of any content is parsed without an access outside the buffers, provided the read buffer has at least
  262 octets: the parser returns an indication, never writes past the payload buffer, and is ready for the next packet.  The
  exception is exact: parsing is undefined in C if and only if the packet is a connect TPDU whose options, followed as the parser follows
  them, reach one that asks for a TPDU size of \<open>2\<close> to the power \<open>31\<close> or more.
\<close>

theorem parseIncomingMessage_safe:
  assumes "5 \<le> bb_size (co_readBuffer c)" and "bb_size (co_readBuffer c) \<le> length (bb_buffer (co_readBuffer c))"
    and "262 \<le> length (bb_buffer (co_readBuffer c))"
    and "sel_ok (co_tSelDst c)" and "sel_ok (co_tSelSrc c)" and "payload_ok c"
  shows "if asks_huge_size c then CotpConnection_parseIncomingMessage c = None
    else \<exists>ind d. CotpConnection_parseIncomingMessage c = Some (ind, d) \<and> bb_size (co_readBuffer d) = 0 \<and> co_packetSize d = 0 \<and> payload_ok d"
proof -
  let ?m = "bb_buffer (co_readBuffer c)"
  obtain li ty where r: "rd ?m 4 = Some li" "rd ?m 5 = Some ty" "ty = ?m ! 5" "li = ?m ! 4" using assms(3) by (simp add: rd_def)
  have "if asks_huge_size c then parseCotpMessage c = None else \<exists>ind d. parseCotpMessage c = Some (ind, d) \<and> payload_ok d"
  proof (cases "int (bb_size (co_readBuffer c)) - 4 < int (unat li)")
    case True
    then have "\<not> unat li + 4 \<le> bb_size (co_readBuffer c)" by linarith
    then have "\<not> asks_huge_size c" using r(4) by (auto simp: asks_huge_size_def Let_def)
    with True show ?thesis using r(1) assms(6) by (simp add: parseCotpMessage_def)
  next
    case False
    then have fit: "6 + unat li < length ?m + 1" "unat li + 4 \<le> bb_size (co_readBuffer c)" using assms(3) unat_u8_le [of li] by linarith+
    have con: "if 6 \<le> unat li \<and> huge_option ?m 11 0 (unat li - 6) then parse_connect c p 6 (unat li) = None
        else \<exists>ok d. parse_connect c p 6 (unat li) = Some (ok, d) \<and> payload_ok d" if "p = 6 \<or> p = 8" for p
      using parse_connect_safe [OF assms(4,5) _ fit(1), of p] assms(6) that by (auto simp: payload_ok_def split: if_splits)
    show ?thesis
    proof (cases "ty \<in> {0xe0, 0xd0}")
      case True
      have huge: "asks_huge_size c \<longleftrightarrow> 6 \<le> unat li \<and> huge_option ?m 11 0 (unat li - 6)"
        using True fit(2) r(3,4) by (auto simp: asks_huge_size_def Let_def)
      show ?thesis unfolding huge using con [of 8] con [of 6] r(1,2) True False
        by (auto simp: parseCotpMessage_def Let_def parseConnectRequestTpdu_def parseConnectConfirmTpdu_def split: if_splits)
    next
      case other: False
      then have "\<not> asks_huge_size c" using r(3) by (auto simp: asks_huge_size_def Let_def)
      moreover have "7 \<le> length ?m" "bb_size (co_readBuffer c) \<le> length ?m" using assms(2,3) by simp_all
      from parse_data_safe [OF assms(6) this, of "unat li"] have "\<exists>ind d. parseCotpMessage c = Some (ind, d) \<and> payload_ok d"
        using other r(1,2) False assms(6) by (auto simp: parseCotpMessage_def Let_def split: if_splits)
      ultimately show ?thesis by simp
    qed
  qed
  then show ?thesis by (auto simp: CotpConnection_parseIncomingMessage_def payload_ok_def split: if_splits)
qed

text \<open>
  C22: A connection whose TPDU size was negotiated down to two octets no longer sends: the number of fragments is negative, the
  loop does not run, and \<open>COTP_OK\<close> is returned for a message of which nothing was added to the stream.
\<close>

theorem tiny_tpdu_size_sends_nothing:
  assumes "conn_ok c" and "no_error c" and "co_tpduSize c = 1" and "chain_ok p" and "bc_length p \<noteq> 0"
  shows "\<exists>d. CotpConnection_sendDataMessage c p = Some (COTP_OK, d) \<and> wire d = wire c"
proof -
  obtain r d where f: "flushBuffer c = Some (r, d)" "conn_ok d" "wire d = wire c" "no_error c \<longrightarrow> r"
    by (rule flushBuffer_stream [OF assms(1)])
  obtain cur ps where p: "bc_parts p = cur # ps" using assms(4) by (cases "bc_parts p") (auto simp: chain_ok_def)
  have "int m sdiv - 1 = - int m" "int m smod - 1 = 0" for m by (auto simp: signed_divide_int_def signed_modulo_int_def)
  moreover have "co_extensionBufferFill d \<le> co_extensionBufferSize d \<or> co_extensionBuffer d = None"
    using f(2) by (auto simp: conn_ok_def split: option.splits)
  ultimately show ?thesis using f assms(2,3,5) p
    by (auto simp: CotpConnection_sendDataMessage_def CotpConnection_getTpduSize_def COTP_DATA_HEADER_SIZE_def)
qed

subsection \<open>Witnesses\<close>

theorem setTpduSize_largest_power_witness: "CotpConnection_getTpduSize (CotpConnection_setTpduSize ex_sender 1000) \<le> 1000
    \<and> 1000 < 2 * CotpConnection_getTpduSize (CotpConnection_setTpduSize ex_sender 1000)"
  using setTpduSize_largest_power [of 1000 ex_sender] by simp

definition ex_sel :: "u8 \<Rightarrow> TSelector" where
  "ex_sel x = \<lparr>ts_size = 2, ts_value = [0, x, 0, 0]\<rparr>"

definition ex_request :: bytes where
  "ex_request = [3, 0, 0, 22, 17, 0xe0, 0, 0, 0, 1, 0, 0xc0, 1, 3, 0xc2, 2, 0, 7, 0xc1, 2, 0, 8]"

lemma ex_request_ok:
  "sel_ok (ex_sel 7)" "sel_ok (ex_sel 8)" "ts_size (ex_sel 7) \<noteq> 0" "ts_size (ex_sel 8) \<noteq> 0"
  "conn_ok ex_sender" "wb_ok (allocateWriteBuffer ex_sender) 26"
  "map_option (\<lambda>(i, d). (i, wire d)) (CotpConnection_sendConnectionRequestMessage ex_sender (ex_sel 7) (ex_sel 8)) = Some (COTP_OK, wire ex_sender @ ex_request)"
  "sel_ok (co_tSelDst (ex_receiver ex_request))" "sel_ok (co_tSelSrc (ex_receiver ex_request))" "idle (ex_receiver ex_request) (ex_request @ [])"
  "bb_maxSize (co_readBuffer (ex_receiver ex_request)) = 30" "selector (ex_sel 7) = [0, 7]" "selector (ex_sel 8) = [0, 8]"
  "co_localRef ex_sender = 1"
proof -
  show "sel_ok (ex_sel 7)" by code_simp
  show "sel_ok (ex_sel 8)" by code_simp
  show "ts_size (ex_sel 7) \<noteq> 0" by code_simp
  show "ts_size (ex_sel 8) \<noteq> 0" by code_simp
  show "conn_ok ex_sender" by code_simp
  show "wb_ok (allocateWriteBuffer ex_sender) 26" by code_simp
  show "map_option (\<lambda>(i, d). (i, wire d)) (CotpConnection_sendConnectionRequestMessage ex_sender (ex_sel 7) (ex_sel 8)) = Some (COTP_OK, wire ex_sender @ ex_request)" by code_simp
  show "sel_ok (co_tSelDst (ex_receiver ex_request))" by code_simp
  show "sel_ok (co_tSelSrc (ex_receiver ex_request))" by code_simp
  show "idle (ex_receiver ex_request) (ex_request @ [])" by code_simp
  show "bb_maxSize (co_readBuffer (ex_receiver ex_request)) = 30" by code_simp
  show "selector (ex_sel 7) = [0, 7]" by code_simp
  show "selector (ex_sel 8) = [0, 8]" by code_simp
  show "co_localRef ex_sender = 1" by code_simp
qed

theorem connect_request_received_witness:
  "\<exists>e. cotp_receive 26 (ex_receiver ex_request) = Some (Indication COTP_CONNECT_INDICATION, e) \<and> co_remoteRef e = 1
    \<and> co_tpduSize e = 3 \<and> selector (co_tSelDst e) = [0, 7] \<and> selector (co_tSelSrc e) = [0, 8]"
proof -
  obtain d where d: "CotpConnection_sendConnectionRequestMessage ex_sender (ex_sel 7) (ex_sel 8) = Some (COTP_OK, d)"
      "wire d = wire ex_sender @ ex_request" using ex_request_ok(7) by auto
  have "\<exists>e. cotp_receive 26 (ex_receiver ex_request) = Some (Indication COTP_CONNECT_INDICATION, e) \<and> idle e []
      \<and> co_remoteRef e = co_localRef ex_sender \<and> co_protocolClass e = 0 \<and> co_tpduSize e = co_tpduSize ex_sender
      \<and> selector (co_tSelDst e) = selector (ex_sel 7) \<and> selector (co_tSelSrc e) = selector (ex_sel 8)"
    by (rule connect_request_received [OF ex_request_ok(1-6) _ _ _ _ _ d])
       (use ex_request_ok ex_sender_eval in \<open>simp_all add: ex_sender_size\<close>)
  then show ?thesis using ex_request_ok ex_sender_size by auto
qed

definition ex_confirm :: bytes where
  "ex_confirm = [3, 0, 0, 22, 17, 0xd0, 0, 5, 0, 1, 0, 0xc0, 1, 3, 0xc2, 2, 0, 1, 0xc1, 2, 0, 1]"

definition ex_server :: CotpConnection where
  "ex_server = ex_sender\<lparr>co_remoteRef := 5, co_protocolClass := 0\<rparr>"

lemma ex_confirm_ok:
  "sel_ok (co_tSelDst ex_server)" "sel_ok (co_tSelSrc ex_server)" "ts_size (co_tSelDst ex_server) \<noteq> 0" "ts_size (co_tSelSrc ex_server) \<noteq> 0"
  "conn_ok ex_server" "wb_ok (allocateWriteBuffer ex_server) 26"
  "map_option (\<lambda>(i, d). (i, wire d)) (CotpConnection_sendConnectionResponseMessage ex_server) = Some (COTP_OK, wire ex_server @ ex_confirm)"
  "sel_ok (co_tSelDst (ex_receiver ex_confirm))" "sel_ok (co_tSelSrc (ex_receiver ex_confirm))" "idle (ex_receiver ex_confirm) (ex_confirm @ [])"
  "bb_maxSize (co_readBuffer (ex_receiver ex_confirm)) = 30" "co_remoteRef ex_server = 5" "co_extensionBufferFill ex_server = 0"
  "co_extensionBufferSize ex_server = 40"
proof -
  show "sel_ok (co_tSelDst ex_server)" by code_simp
  show "sel_ok (co_tSelSrc ex_server)" by code_simp
  show "ts_size (co_tSelDst ex_server) \<noteq> 0" by code_simp
  show "ts_size (co_tSelSrc ex_server) \<noteq> 0" by code_simp
  show "conn_ok ex_server" by code_simp
  show "wb_ok (allocateWriteBuffer ex_server) 26" by code_simp
  show "map_option (\<lambda>(i, d). (i, wire d)) (CotpConnection_sendConnectionResponseMessage ex_server) = Some (COTP_OK, wire ex_server @ ex_confirm)" by code_simp
  show "sel_ok (co_tSelDst (ex_receiver ex_confirm))" by code_simp
  show "sel_ok (co_tSelSrc (ex_receiver ex_confirm))" by code_simp
  show "idle (ex_receiver ex_confirm) (ex_confirm @ [])" by code_simp
  show "bb_maxSize (co_readBuffer (ex_receiver ex_confirm)) = 30" by code_simp
  show "co_remoteRef ex_server = 5" by code_simp
  show "co_extensionBufferFill ex_server = 0" by code_simp
  show "co_extensionBufferSize ex_server = 40" by code_simp
qed

theorem connect_confirm_received_witness:
  "\<exists>e. cotp_receive 26 (ex_receiver ex_confirm) = Some (Indication COTP_CONNECT_INDICATION, e) \<and> co_remoteRef e = 5 \<and> co_tpduSize e = 3"
proof -
  obtain d where d: "CotpConnection_sendConnectionResponseMessage ex_server = Some (COTP_OK, d)" "wire d = wire ex_server @ ex_confirm"
    using ex_confirm_ok(7) by auto
  have sz: "co_tpduSize ex_server = 3" by (simp add: ex_server_def ex_sender_def ex_conn_def)
  have "\<exists>e. cotp_receive 26 (ex_receiver ex_confirm) = Some (Indication COTP_CONNECT_INDICATION, e) \<and> idle e []
      \<and> co_remoteRef e = co_remoteRef ex_server \<and> co_protocolClass e = co_protocolClass ex_server mod 256 \<and> co_tpduSize e = co_tpduSize ex_server
      \<and> selector (co_tSelDst e) = selector (co_tSelDst ex_server) \<and> selector (co_tSelSrc e) = selector (co_tSelSrc ex_server)"
    by (rule connect_confirm_received [OF ex_confirm_ok(1-6) _ _ _ _ _ d]) (use ex_confirm_ok in \<open>simp_all add: sz\<close>)
  then show ?thesis using ex_confirm_ok sz by auto
qed

text \<open>
  A connect request with a selector that contains the octets of a huge size option, which is parsed, and one with
  such an option of its own.
\<close>

definition ex_packet :: "bytes \<Rightarrow> CotpConnection" where
  "ex_packet t = (ex_receiver [])\<lparr>co_readBuffer := \<lparr>bb_buffer = t @ replicate 260 0, bb_maxSize = length t + 260, bb_size = length t\<rparr>\<rparr>"

definition ex_packet_ok :: bytes where
  "ex_packet_ok = [3, 0, 0, 20, 15, 0xe0, 0, 0, 0, 1, 0, 0xc1, 4, 0xc0, 1, 0x20, 0, 0xc0, 1, 10]"

definition ex_packet_huge :: bytes where
  "ex_packet_huge = [3, 0, 0, 14, 9, 0xe0, 0, 0, 0, 1, 0, 0xc0, 1, 32]"

lemma ex_packet_sizes: "\<not> asks_huge_size (ex_packet ex_packet_ok)" "asks_huge_size (ex_packet ex_packet_huge)"
  by code_simp+

theorem parseIncomingMessage_safe_witness:
  "(\<exists>ind d. CotpConnection_parseIncomingMessage (ex_packet ex_packet_ok) = Some (ind, d) \<and> bb_size (co_readBuffer d) = 0)
   \<and> CotpConnection_parseIncomingMessage (ex_packet ex_packet_huge) = None"
proof -
  have c: "5 \<le> bb_size (co_readBuffer (ex_packet t))" "bb_size (co_readBuffer (ex_packet t)) \<le> length (bb_buffer (co_readBuffer (ex_packet t)))"
    "262 \<le> length (bb_buffer (co_readBuffer (ex_packet t)))" "sel_ok (co_tSelDst (ex_packet t))" "sel_ok (co_tSelSrc (ex_packet t))"
    "payload_ok (ex_packet t)" if "5 \<le> length t" for t
    using that by (simp_all add: ex_packet_def ex_receiver_def ex_conn_def ByteBuffer_create_def sel_ok_def payload_ok_def Let_def)
  have l: "5 \<le> length ex_packet_ok" "5 \<le> length ex_packet_huge" by (simp_all add: ex_packet_ok_def ex_packet_huge_def)
  show ?thesis
    using parseIncomingMessage_safe [OF c [OF l(1)]] parseIncomingMessage_safe [OF c [OF l(2)]] ex_packet_sizes by auto
qed

theorem tiny_tpdu_size_sends_nothing_witness:
  "\<exists>d. CotpConnection_sendDataMessage (ex_sender\<lparr>co_tpduSize := 1\<rparr>) ex_chain = Some (COTP_OK, d) \<and> wire d = []"
proof -
  let ?c = "ex_sender\<lparr>co_tpduSize := 1\<rparr>"
  have "conn_ok ?c \<and> no_error ?c \<and> co_tpduSize ?c = 1 \<and> bc_length ex_chain \<noteq> 0 \<and> wire ?c = []" by code_simp
  then show ?thesis using tiny_tpdu_size_sends_nothing [of ?c ex_chain] ex_sender_ok(8) by simp
qed

end
