(* ===== verification/IsoSession.thy ===== *)
theory IsoSession
  imports Cotp
begin

text \<open>
  The session layer, \<open>src/libiec61850/src/mms/iso_session/iso_session.c\<close> (ISO 8327).  Creating an SPDU puts its header
  into the buffer of a new front part of the chain; parsing one yields an indication and the user data, a window of the message.
  The size of the window is an \<open>int\<close> in C and may be negative.
\<close>

subsection \<open>State\<close>

record SSelector =
  ss_size :: nat
  ss_value :: bytes

text \<open>A window of a message: a pointer into its buffer with a size and a maximal size.\<close>

record slice =
  sl_pos :: nat
  sl_size :: int
  sl_maxSize :: int

record IsoSession =
  se_callingSessionSelector :: SSelector
  se_calledSessionSelector :: SSelector
  se_sessionRequirement :: u16
  se_protocolOptions :: u8
  se_userData :: slice

datatype IsoSessionIndication =
    SESSION_OK | SESSION_ERROR | SESSION_CONNECT | SESSION_GIVE_TOKEN | SESSION_DATA | SESSION_ABORT | SESSION_FINISH
  | SESSION_DISCONNECT | SESSION_NOT_FINISHED

definition IsoSession_init :: IsoSession where
  "IsoSession_init =
     (let sel = \<lparr>ss_size = 2, ss_value = [0, 1] @ replicate 14 0\<rparr>
      in \<lparr>se_callingSessionSelector = sel, se_calledSessionSelector = sel, se_sessionRequirement = 2, se_protocolOptions = 0,
          se_userData = \<lparr>sl_pos = 0, sl_size = 0, sl_maxSize = 0\<rparr>\<rparr>)"

subsection \<open>Creating\<close>

text \<open>A front part before a chain.\<close>

definition chain_front :: "bytes \<Rightarrow> BufferChain \<Rightarrow> BufferChain" where
  "chain_front part payload = \<lparr>bc_length = length part + bc_length payload, bc_parts = part # bc_parts payload\<rparr>"

definition dataSpdu :: bytes where
  "dataSpdu = [0x01, 0x00, 0x01, 0x00]"

definition IsoSession_createDataSpdu :: "BufferChain \<Rightarrow> BufferChain" where
  "IsoSession_createDataSpdu payload = chain_front dataSpdu payload"

definition encodeConnectAcceptItem :: "u8 \<Rightarrow> writer" where
  "encodeConnectAcceptItem options buf offset = puts [5, 6, 0x13, 1, options, 0x16, 1, 2] buf offset"

definition encodeConnectionIdentifier :: "u8 \<Rightarrow> writer" where
  "encodeConnectionIdentifier reasonCode buf offset = puts [1, 2, 17, 1, 1, 50, 1, reasonCode] buf offset"

definition encodeSessionRequirement :: "IsoSession \<Rightarrow> writer" where
  "encodeSessionRequirement self buf offset =
     puts [0x14, 2, ucast (se_sessionRequirement self div 0x100), ucast (se_sessionRequirement self AND 0x00ff)] buf offset"

definition encode_selector :: "u8 \<Rightarrow> SSelector \<Rightarrow> writer" where
  "encode_selector code sel buf offset = do {
     octets \<leftarrow> rdn (ss_value sel) 0 (ss_size sel);
     puts ([code, word_of_nat (ss_size sel)] @ octets) buf offset }"

definition encodeCallingSessionSelector :: "IsoSession \<Rightarrow> writer" where
  "encodeCallingSessionSelector self = encode_selector 0x33 (se_callingSessionSelector self)"

definition encodeCalledSessionSelector :: "IsoSession \<Rightarrow> writer" where
  "encodeCalledSessionSelector self = encode_selector 0x34 (se_calledSessionSelector self)"

definition encodeSessionUserData :: "nat \<Rightarrow> writer" where
  "encodeSessionUserData payloadLength buf offset = puts [0xc1, word_of_nat payloadLength] buf offset"

text \<open>The length octet of an SPDU is filled in last; lengths are cut to eight bits.\<close>

definition IsoSession_createConnectSpdu ::
    "IsoSession \<Rightarrow> SSelector \<Rightarrow> SSelector \<Rightarrow> bytes \<Rightarrow> BufferChain \<Rightarrow> (IsoSession \<times> BufferChain) option" where
  "IsoSession_createConnectSpdu self remoteSSelector localSSelector buf payload = do {
     (buf, offset) \<leftarrow> put 13 buf 0;
     let lengthOffset = offset;
     let offset = offset + 1;
     let self = self\<lparr>se_calledSessionSelector := remoteSSelector, se_callingSessionSelector := localSSelector\<rparr>;
     (buf, offset) \<leftarrow> encodeConnectAcceptItem 0 buf offset;
     (buf, offset) \<leftarrow> encodeSessionRequirement self buf offset;
     (buf, offset) \<leftarrow> encodeCallingSessionSelector self buf offset;
     (buf, offset) \<leftarrow> encodeCalledSessionSelector self buf offset;
     (buf, offset) \<leftarrow> encodeSessionUserData (bc_length payload) buf offset;
     let spduLength = (offset - lengthOffset - 1) + bc_length payload;
     (buf, _) \<leftarrow> put (word_of_nat spduLength) buf lengthOffset;
     Some (self, chain_front (take offset buf) payload) }"

definition IsoSession_createAbortSpdu :: "bytes \<Rightarrow> BufferChain \<Rightarrow> BufferChain option" where
  "IsoSession_createAbortSpdu buf payload = do {
     (buf, offset) \<leftarrow> puts [25, word_of_nat (5 + bc_length payload), 17, 1, 11, 193, word_of_nat (bc_length payload)] buf 0;
     Some (chain_front (take offset buf) payload) }"

definition IsoSession_createFinishSpdu :: "bytes \<Rightarrow> BufferChain \<Rightarrow> BufferChain option" where
  "IsoSession_createFinishSpdu buf payload = do {
     (buf, offset) \<leftarrow> puts [9, word_of_nat (2 + bc_length payload), 193, word_of_nat (bc_length payload)] buf 0;
     Some (chain_front (take offset buf) payload) }"

definition IsoSession_createDisconnectSpdu :: "bytes \<Rightarrow> BufferChain \<Rightarrow> BufferChain option" where
  "IsoSession_createDisconnectSpdu buf payload = do {
     (buf, offset) \<leftarrow> puts [10, word_of_nat (2 + bc_length payload), 193, word_of_nat (bc_length payload)] buf 0;
     Some (chain_front (take offset buf) payload) }"

definition IsoSession_createAcceptSpdu :: "IsoSession \<Rightarrow> bytes \<Rightarrow> BufferChain \<Rightarrow> BufferChain option" where
  "IsoSession_createAcceptSpdu self buf payload = do {
     let payloadLength = bc_length payload;
     (buf, offset) \<leftarrow> put 14 buf 0;
     let lengthOffset = offset;
     let offset = offset + 1;
     (buf, offset) \<leftarrow> encodeConnectAcceptItem (se_protocolOptions self) buf offset;
     (buf, offset) \<leftarrow> encodeSessionRequirement self buf offset;
     (buf, offset) \<leftarrow> encodeCalledSessionSelector self buf offset;
     (buf, offset) \<leftarrow> encodeSessionUserData payloadLength buf offset;
     let spduLength = (offset - lengthOffset - 1) + payloadLength;
     (buf, _) \<leftarrow> put (word_of_nat spduLength) buf lengthOffset;
     Some (chain_front (take offset buf) payload) }"

text \<open>The refuse SPDU sets neither its length octet nor the lengths of the chain; only the octets written remain.\<close>

definition IsoSession_createRefuseSpdu :: "bytes \<Rightarrow> u8 \<Rightarrow> bytes option" where
  "IsoSession_createRefuseSpdu buf reasonCode = do {
     (buf, offset) \<leftarrow> put 12 buf 0;
     (buf, offset) \<leftarrow> encodeConnectionIdentifier reasonCode buf (offset + 1);
     Some buf }"

subsection \<open>Parsing\<close>

text \<open>The parameters of a connect/accept item: \<open>None\<close> is the return value \<open>-1\<close>.\<close>

function accept_loop :: "IsoSession \<Rightarrow> bytes \<Rightarrow> nat \<Rightarrow> nat \<Rightarrow> bool \<Rightarrow> bool \<Rightarrow> ((nat \<times> bool \<times> bool) option \<times> IsoSession) option" where
  "accept_loop session mem offset maxOffset hasProtocolOptions hasProtocolVersion =
     (if offset < maxOffset then do {
        pi \<leftarrow> rd mem offset;
        param_len \<leftarrow> rd mem (offset + 1);
        let offset = offset + 2;
        if pi = 19 then
          (if param_len \<noteq> 1 then Some (None, session)
           else do {
             v \<leftarrow> rd mem offset;
             accept_loop (session\<lparr>se_protocolOptions := v\<rparr>) mem (offset + 1) maxOffset True hasProtocolVersion })
        else if pi = 21 then accept_loop session mem (offset + 4) maxOffset hasProtocolOptions hasProtocolVersion
        else if pi = 22 then do {
          v \<leftarrow> rd mem offset;
          if v \<noteq> 2 then Some (None, session) else accept_loop session mem (offset + 1) maxOffset hasProtocolOptions True }
        else if pi = 26 then do {
          v \<leftarrow> rd mem offset;
          accept_loop session mem (offset + 1) maxOffset hasProtocolOptions hasProtocolVersion }
        else if pi = 23 \<or> pi = 55 \<or> pi = 56 \<or> pi = 57 \<or> pi = 58
        then accept_loop session mem (offset + unat param_len) maxOffset hasProtocolOptions hasProtocolVersion
        else accept_loop session mem offset maxOffset hasProtocolOptions hasProtocolVersion }
      else Some (Some (offset, hasProtocolOptions, hasProtocolVersion), session))"
  by pat_completeness auto
termination
  by (relation "measure (\<lambda>(_, _, offset, maxOffset, _, _). maxOffset - offset)") auto

declare accept_loop.simps [simp del]

definition parseAcceptParameters :: "IsoSession \<Rightarrow> bytes \<Rightarrow> nat \<Rightarrow> nat \<Rightarrow> (nat option \<times> IsoSession) option" where
  "parseAcceptParameters session mem startOffset parameterLength = do {
     (r, session) \<leftarrow> accept_loop session mem startOffset (startOffset + parameterLength) False False;
     Some (case r of
        Some (offset, hasProtocolOptions, hasProtocolVersion) \<Rightarrow>
          if hasProtocolOptions \<and> hasProtocolVersion then Some (offset - startOffset) else None
      | None \<Rightarrow> None, session) }"

definition store_ssel :: "bytes \<Rightarrow> nat \<Rightarrow> nat \<Rightarrow> SSelector \<Rightarrow> SSelector option" where
  "store_ssel mem offset n sel = do {
     octets \<leftarrow> rdn mem offset n;
     (value, _) \<leftarrow> puts octets (ss_value sel) 0;
     Some \<lparr>ss_size = n, ss_value = value\<rparr> }"

function header_loop :: "IsoSession \<Rightarrow> ByteBuffer \<Rightarrow> nat \<Rightarrow> nat \<Rightarrow> (IsoSessionIndication \<times> IsoSession) option" where
  "header_loop session message offset limit =
     (if offset < limit then do {
        let mem = bb_buffer message;
        pgi \<leftarrow> rd mem offset;
        b \<leftarrow> rd mem (offset + 1);
        let parameterLength = unat b;
        let offset = offset + 2;
        if pgi = 1 \<or> pgi = 17 \<or> pgi = 25 \<or> pgi = 49 \<or> pgi = 60 then header_loop session message (offset + parameterLength) limit
        else if pgi = 5 then do {
          (r, session) \<leftarrow> parseAcceptParameters session mem offset parameterLength;
          (case r of
             None \<Rightarrow> Some (SESSION_ERROR, session)
           | Some connectAcceptLen \<Rightarrow> header_loop session message (offset + connectAcceptLen) limit) }
        else if pgi = 20 then
          (if parameterLength \<noteq> 2 then Some (SESSION_ERROR, session)
           else do {
             hi \<leftarrow> rd mem offset;
             lo \<leftarrow> rd mem (offset + 1);
             header_loop (session\<lparr>se_sessionRequirement := ucast hi * 0x100 + ucast lo\<rparr>) message (offset + 2) limit })
        else if pgi = 51 then
          (if 16 < parameterLength then Some (SESSION_ERROR, session)
           else do {
             sel \<leftarrow> store_ssel mem offset parameterLength (se_callingSessionSelector session);
             header_loop (session\<lparr>se_callingSessionSelector := sel\<rparr>) message (offset + parameterLength) limit })
        else if pgi = 52 then
          (if 16 < parameterLength then Some (SESSION_ERROR, session)
           else do {
             sel \<leftarrow> store_ssel mem offset parameterLength (se_calledSessionSelector session);
             header_loop (session\<lparr>se_calledSessionSelector := sel\<rparr>) message (offset + parameterLength) limit })
        else if pgi = 193 then
          Some (SESSION_OK, session\<lparr>se_userData := \<lparr>sl_pos = offset, sl_size = int (bb_size message) - int offset,
            sl_maxSize = int (bb_maxSize message) - int offset\<rparr>\<rparr>)
        else header_loop session message offset limit }
      else Some (SESSION_ERROR, session))"
  by pat_completeness auto
termination
  by (relation "measure (\<lambda>(_, _, offset, limit). limit - offset)") auto

declare header_loop.simps [simp del]

definition parseSessionHeaderParameters :: "IsoSession \<Rightarrow> ByteBuffer \<Rightarrow> nat \<Rightarrow> (IsoSessionIndication \<times> IsoSession) option" where
  "parseSessionHeaderParameters session message parametersOctets = header_loop session message 2 (parametersOctets + 2)"

text \<open>An SPDU whose parameters must fill the message.\<close>

definition parse_spdu :: "IsoSession \<Rightarrow> ByteBuffer \<Rightarrow> u8 \<Rightarrow> IsoSessionIndication \<Rightarrow> (IsoSessionIndication \<times> IsoSession) option" where
  "parse_spdu self message len indication =
     (if int (unat len) \<noteq> int (bb_size message) - 2 then Some (SESSION_ERROR, self)
      else do {
        (r, self) \<leftarrow> parseSessionHeaderParameters self message (unat len);
        Some (if r = SESSION_OK then indication else SESSION_ERROR, self) })"

definition IsoSession_parseMessage :: "IsoSession \<Rightarrow> ByteBuffer \<Rightarrow> (IsoSessionIndication \<times> IsoSession) option" where
  "IsoSession_parseMessage self message =
     (if bb_size message \<le> 1 then Some (SESSION_ERROR, self)
      else do {
        let mem = bb_buffer message;
        id \<leftarrow> rd mem 0;
        len \<leftarrow> rd mem 1;
        if id = 13 then parse_spdu self message len SESSION_CONNECT
        else if id = 14 then parse_spdu self message len SESSION_CONNECT
        else if id = 1 then
          (if bb_size message < 4 then Some (SESSION_ERROR, self)
           else do {
             b2 \<leftarrow> rd mem 2;
             b3 \<leftarrow> rd mem 3;
             if len = 0 \<and> b2 = 1 \<and> b3 = 0
             then Some (SESSION_DATA, self\<lparr>se_userData := \<lparr>sl_pos = 4, sl_size = int (bb_size message) - 4,
                    sl_maxSize = int (bb_maxSize message) - 4\<rparr>\<rparr>)
             else Some (SESSION_ERROR, self) })
        else if id = 8 then Some (SESSION_NOT_FINISHED, self)
        else if id = 9 then parse_spdu self message len SESSION_FINISH
        else if id = 10 then parse_spdu self message len SESSION_DISCONNECT
        else if id = 25 then Some (SESSION_ABORT, self)
        else Some (SESSION_ERROR, self) })"

subsection \<open>What is created\<close>

definition ssel_ok :: "SSelector \<Rightarrow> bool" where
  "ssel_ok s \<longleftrightarrow> ss_size s \<le> 16 \<and> length (ss_value s) = 16"

definition sselector :: "SSelector \<Rightarrow> bytes" where
  "sselector s = take (ss_size s) (ss_value s)"

lemma length_sselector [simp]: "ssel_ok s \<Longrightarrow> length (sselector s) = ss_size s"
  by (simp add: sselector_def ssel_ok_def)

definition accept_item :: "u8 \<Rightarrow> bytes" where
  "accept_item options = [5, 6, 0x13, 1, options, 0x16, 1, 2]"

definition requirement_item :: "u16 \<Rightarrow> bytes" where
  "requirement_item r = [0x14, 2, ucast (r div 0x100), ucast (r AND 0x00ff)]"

definition selector_item :: "u8 \<Rightarrow> SSelector \<Rightarrow> bytes" where
  "selector_item code s = [code, word_of_nat (ss_size s)] @ sselector s"

definition spdu :: "u8 \<Rightarrow> bytes \<Rightarrow> nat \<Rightarrow> bytes" where
  "spdu t params n = [t, word_of_nat (length params + 2 + n)] @ params @ [0xc1, word_of_nat n]"

definition connect_spdu :: "IsoSession \<Rightarrow> nat \<Rightarrow> bytes" where
  "connect_spdu s n = spdu 13 (accept_item 0 @ requirement_item (se_sessionRequirement s)
     @ selector_item 0x33 (se_callingSessionSelector s) @ selector_item 0x34 (se_calledSessionSelector s)) n"

definition accept_spdu :: "IsoSession \<Rightarrow> nat \<Rightarrow> bytes" where
  "accept_spdu s n = spdu 14 (accept_item (se_protocolOptions s) @ requirement_item (se_sessionRequirement s)
     @ selector_item 0x34 (se_calledSessionSelector s)) n"

lemma encode_selector_puts: "ssel_ok s \<Longrightarrow> encode_selector code s = puts (selector_item code s)"
  by (intro ext) (simp add: encode_selector_def selector_item_def sselector_def ssel_ok_def rdn_in)

text \<open>A type octet, a length octet that is filled in behind the body.\<close>

lemma spdu_chain:
  assumes items: "items = params @ [0xc1, word_of_nat n]" and len: "2 + length items \<le> length buf"
  shows "do { (b, p) \<leftarrow> puts items (buf[0 := t]) 2; (b, q) \<leftarrow> put (word_of_nat (p - 1 - 1 + n)) b 1; f (take p b) } = f (spdu t params n)"
proof -
  obtain x y zs where buf: "buf = x # y # zs" using len by (cases buf; cases "tl buf") auto
  have "puts items (buf[0 := t]) 2 = Some (t # y # items @ drop (length items) zs, 2 + length items)"
    using len by (subst puts_fits) (simp_all add: buf overlay_def)
  then show ?thesis using len by (simp add: put_def spdu_def items ac_simps)
qed

lemma createConnectSpdu_eq:
  assumes "ssel_ok r" and "ssel_ok l" and "52 \<le> length buf"
    and s': "s' = s\<lparr>se_calledSessionSelector := r, se_callingSessionSelector := l\<rparr>"
  shows "IsoSession_createConnectSpdu s r l buf p = Some (s', chain_front (connect_spdu s' (bc_length p)) p)"
proof -
  let ?params = "accept_item 0 @ requirement_item (se_sessionRequirement s') @ selector_item 0x33 l @ selector_item 0x34 r"
  have put: "put 13 buf 0 = Some (buf[0 := 13], 1)" using assms(3) by (auto simp: put_def)
  have sel: "se_callingSessionSelector s' = l" "se_calledSessionSelector s' = r" by (simp_all add: s')
  have len: "2 + length (?params @ [0xc1, word_of_nat (bc_length p)]) \<le> length buf"
    using assms(1-3) by (simp add: accept_item_def requirement_item_def selector_item_def ssel_ok_def)
  have "IsoSession_createConnectSpdu s r l buf p = do { (b, pos) \<leftarrow> puts (?params @ [0xc1, word_of_nat (bc_length p)]) (buf[0 := 13]) 2;
      (b, q) \<leftarrow> put (word_of_nat (pos - 1 - 1 + bc_length p)) b 1; Some (s', chain_front (take pos b) p) }"
    unfolding IsoSession_createConnectSpdu_def s' [symmetric] put Let_def encodeCallingSessionSelector_def encodeCalledSessionSelector_def
      sel encode_selector_puts [OF assms(1)] encode_selector_puts [OF assms(2)] encodeConnectAcceptItem_def accept_item_def [symmetric]
      encodeSessionRequirement_def requirement_item_def [symmetric] encodeSessionUserData_def puts_bind_assoc
    by (simp add: puts_bind_assoc numeral_2_eq_2)
  then show ?thesis using spdu_chain [OF refl len] by (simp add: connect_spdu_def sel)
qed

lemma createAcceptSpdu_eq:
  assumes "ssel_ok (se_calledSessionSelector s)" and "34 \<le> length buf"
  shows "IsoSession_createAcceptSpdu s buf p = Some (chain_front (accept_spdu s (bc_length p)) p)"
proof -
  let ?params = "accept_item (se_protocolOptions s) @ requirement_item (se_sessionRequirement s) @ selector_item 0x34 (se_calledSessionSelector s)"
  have put: "put 14 buf 0 = Some (buf[0 := 14], 1)" using assms(2) by (auto simp: put_def)
  have len: "2 + length (?params @ [0xc1, word_of_nat (bc_length p)]) \<le> length buf"
    using assms by (simp add: accept_item_def requirement_item_def selector_item_def ssel_ok_def)
  have "IsoSession_createAcceptSpdu s buf p = do { (b, pos) \<leftarrow> puts (?params @ [0xc1, word_of_nat (bc_length p)]) (buf[0 := 14]) 2;
      (b, q) \<leftarrow> put (word_of_nat (pos - 1 - 1 + bc_length p)) b 1; Some (chain_front (take pos b) p) }"
    unfolding IsoSession_createAcceptSpdu_def put Let_def encodeCalledSessionSelector_def encode_selector_puts [OF assms(1)]
      encodeConnectAcceptItem_def accept_item_def [symmetric] encodeSessionRequirement_def requirement_item_def [symmetric]
      encodeSessionUserData_def
    by (simp add: puts_bind_assoc numeral_2_eq_2)
  then show ?thesis using spdu_chain [OF refl len] by (simp add: accept_spdu_def)
qed

lemma createFinishSpdu_eq: "4 \<le> length buf \<Longrightarrow> IsoSession_createFinishSpdu buf p = Some (chain_front (spdu 9 [] (bc_length p)) p)"
  "4 \<le> length buf \<Longrightarrow> IsoSession_createDisconnectSpdu buf p = Some (chain_front (spdu 10 [] (bc_length p)) p)"
  by (simp_all add: IsoSession_createFinishSpdu_def IsoSession_createDisconnectSpdu_def puts_fits overlay_def spdu_def)

subsection \<open>What is parsed\<close>

lemma rd_drop_nth: "drop n mem = xs @ zs \<Longrightarrow> k < length xs \<Longrightarrow> rd mem (n + k) = Some (xs ! k)"
  using rd_drop [of n mem k] by (auto simp: rd_def nth_append split: if_splits)

lemma parseAcceptParameters_item:
  assumes d: "drop off mem = [0x13, 1, opt, 0x16, 1, 2] @ zs"
  shows "parseAcceptParameters s mem off 6 = Some (Some 6, s\<lparr>se_protocolOptions := opt\<rparr>)"
proof -
  have r: "rd mem off = Some 19" "rd mem (off + 1) = Some 1" "rd mem (off + 2) = Some opt" "rd mem (off + 3) = Some 22"
    "rd mem (off + 4) = Some 1" "rd mem (off + 5) = Some 2"
    using rd_drop_nth [OF d, of 0] rd_drop_nth [OF d, of 1] rd_drop_nth [OF d, of 2] rd_drop_nth [OF d, of 3] rd_drop_nth [OF d, of 4]
      rd_drop_nth [OF d, of 5] by simp_all
  have 1: "accept_loop s mem off (off + 6) False False = accept_loop (s\<lparr>se_protocolOptions := opt\<rparr>) mem (off + 3) (off + 6) True False"
    using r(1-3) by (subst accept_loop.simps) (simp add: ac_simps del: add_2_eq_Suc' add_2_eq_Suc One_nat_def)
  have 2: "accept_loop c mem (off + 3) (off + 6) True False = accept_loop c mem (off + 6) (off + 6) True True" for c
    using r(4-6) by (subst accept_loop.simps) (simp add: ac_simps del: add_2_eq_Suc' add_2_eq_Suc One_nat_def)
  have 3: "accept_loop c mem (off + 6) (off + 6) True True = Some (Some (off + 6, True, True), c)" for c
    by (subst accept_loop.simps) simp
  show ?thesis by (simp add: parseAcceptParameters_def 1 2 3)
qed

lemma header_accept_item:
  assumes d: "drop off (bb_buffer m) = accept_item opt @ zs" and lim: "off < lim"
  shows "header_loop s m off lim = header_loop (s\<lparr>se_protocolOptions := opt\<rparr>) m (off + 8) lim"
    and "drop (off + 8) (bb_buffer m) = zs"
proof -
  have d': "drop off (bb_buffer m) = 5 # 6 # ([0x13, 1, opt, 0x16, 1, 2] @ zs)" using d by (simp add: accept_item_def)
  note r = drop_Cons2 [OF d']
  then have a: "parseAcceptParameters s (bb_buffer m) (off + 2) 6 = Some (Some 6, s\<lparr>se_protocolOptions := opt\<rparr>)"
    by (intro parseAcceptParameters_item) simp
  show "header_loop s m off lim = header_loop (s\<lparr>se_protocolOptions := opt\<rparr>) m (off + 8) lim"
    using r a lim by (subst header_loop.simps) (simp add: ac_simps del: add_2_eq_Suc' add_2_eq_Suc One_nat_def)
  show "drop (off + 8) (bb_buffer m) = zs" using drop_append_drop [OF d] by (simp add: accept_item_def eval_nat_numeral)
qed

lemma requirement_value: "(ucast (ucast ((r :: u16) div 0x100) :: u8) * 0x100 + ucast (ucast (r AND 0x00ff) :: u8) :: u16) = r"
proof -
  have a: "r AND 0x00ff = take_bit 8 r" by (simp add: take_bit_eq_mask mask_eq_exp_minus_1)
  have r: "unat r < 65536" using unsigned_less [of r, where 'a = nat] by simp
  have hi: "unat (ucast (ucast (r div 0x100) :: u8) :: u16) = unat r div 256"
    using r by (simp add: unsigned_ucast_eq unat_div unat_mod take_bit_eq_mod)
  have lo: "unat (ucast (ucast (r AND 0x00ff) :: u8) :: u16) = unat r mod 256"
    unfolding a by (simp add: unsigned_ucast_eq unsigned_take_bit_eq take_bit_eq_mod unat_mod)
  have "unat (ucast (ucast (r div 0x100) :: u8) * 0x100 + ucast (ucast (r AND 0x00ff) :: u8) :: u16) = unat r div 256 * 256 + unat r mod 256"
    using r by (simp add: unat_word_ariths hi lo)
  then have "unat (ucast (ucast (r div 0x100) :: u8) * 0x100 + ucast (ucast (r AND 0x00ff) :: u8) :: u16) = unat r" by simp
  then show ?thesis by (rule unsigned_word_eqI)
qed

lemma header_requirement_item:
  assumes d: "drop off (bb_buffer m) = requirement_item r @ zs" and lim: "off < lim"
  shows "header_loop s m off lim = header_loop (s\<lparr>se_sessionRequirement := r\<rparr>) m (off + 4) lim"
    and "drop (off + 4) (bb_buffer m) = zs"
proof -
  have d': "drop off (bb_buffer m) = [0x14, 2, ucast (r div 0x100), ucast (r AND 0x00ff)] @ zs" using d by (simp add: requirement_item_def)
  have rd: "rd (bb_buffer m) off = Some 20" "rd (bb_buffer m) (off + 1) = Some 2" "rd (bb_buffer m) (off + 2) = Some (ucast (r div 0x100))"
    "rd (bb_buffer m) (off + 3) = Some (ucast (r AND 0x00ff))"
    using rd_drop_nth [OF d', of 0] rd_drop_nth [OF d', of 1] rd_drop_nth [OF d', of 2] rd_drop_nth [OF d', of 3] by simp_all
  show "header_loop s m off lim = header_loop (s\<lparr>se_sessionRequirement := r\<rparr>) m (off + 4) lim"
    using rd lim requirement_value [of r] by (subst header_loop.simps) (simp add: ac_simps del: add_2_eq_Suc' add_2_eq_Suc One_nat_def)
  show "drop (off + 4) (bb_buffer m) = zs" using drop_append_drop [OF d'] by (simp add: eval_nat_numeral)
qed

definition stored_ssel :: "SSelector \<Rightarrow> SSelector \<Rightarrow> SSelector" where
  "stored_ssel old s = \<lparr>ss_size = ss_size s, ss_value = overlay (ss_value old) 0 (sselector s)\<rparr>"

lemma stored_ssel_ok: "ssel_ok old \<Longrightarrow> ssel_ok s \<Longrightarrow> ssel_ok (stored_ssel old s) \<and> sselector (stored_ssel old s) = sselector s"
  by (simp add: stored_ssel_def ssel_ok_def sselector_def overlay_def)

lemma store_ssel_item:
  assumes "drop off mem = sselector sel @ zs" and "off \<le> length mem" and "ssel_ok sel" and "ssel_ok old"
  shows "store_ssel mem off (ss_size sel) old = Some (stored_ssel old sel)"
proof -
  have "rdn mem off (ss_size sel) = Some (sselector sel)"
    using rdn_drop_append [OF assms(1)] assms(2) length_sselector [OF assms(3)] by (cases "sselector sel = []") (auto simp: rdn_def)
  then show ?thesis using assms(3,4) by (simp add: store_ssel_def stored_ssel_def puts_fits ssel_ok_def)
qed

lemma header_selector_item:
  assumes d: "drop off (bb_buffer m) = selector_item code sel @ zs" and lim: "off < lim" and sel: "ssel_ok sel"
    and old: "ssel_ok (se_callingSessionSelector s)" "ssel_ok (se_calledSessionSelector s)"
  shows "code = 0x33 \<Longrightarrow> header_loop s m off lim = header_loop (s\<lparr>se_callingSessionSelector := stored_ssel (se_callingSessionSelector s) sel\<rparr>)
      m (off + 2 + ss_size sel) lim"
    and "code = 0x34 \<Longrightarrow> header_loop s m off lim = header_loop (s\<lparr>se_calledSessionSelector := stored_ssel (se_calledSessionSelector s) sel\<rparr>)
      m (off + 2 + ss_size sel) lim"
    and "drop (off + 2 + ss_size sel) (bb_buffer m) = zs"
proof -
  have d': "drop off (bb_buffer m) = code # word_of_nat (ss_size sel) # (sselector sel @ zs)" using d by (simp add: selector_item_def)
  note r = drop_Cons2 [OF d']
  have n: "unat (word_of_nat (ss_size sel) :: u8) = ss_size sel" "ss_size sel \<le> 16" using sel by (simp_all add: ssel_ok_def)
  have "off + 2 \<le> length (bb_buffer m)" using r by (auto simp: rd_def split: if_splits)
  then have st: "store_ssel (bb_buffer m) (off + 2) (ss_size sel) x = Some (stored_ssel x sel)" if "ssel_ok x" for x
    using store_ssel_item [of "off + 2" "bb_buffer m" sel zs x] r sel that by simp
  show "code = 0x33 \<Longrightarrow> header_loop s m off lim = header_loop (s\<lparr>se_callingSessionSelector := stored_ssel (se_callingSessionSelector s) sel\<rparr>)
      m (off + 2 + ss_size sel) lim"
    and "code = 0x34 \<Longrightarrow> header_loop s m off lim = header_loop (s\<lparr>se_calledSessionSelector := stored_ssel (se_calledSessionSelector s) sel\<rparr>)
      m (off + 2 + ss_size sel) lim"
    using r n st old lim by (subst header_loop.simps; simp add: ac_simps del: add_2_eq_Suc' add_2_eq_Suc One_nat_def)+
  show "drop (off + 2 + ss_size sel) (bb_buffer m) = zs" using drop_append_drop [of "off + 2" "bb_buffer m" "sselector sel" zs] r sel by simp
qed

text \<open>The user data of a message are everything behind its parameter header.\<close>

definition user_data :: "ByteBuffer \<Rightarrow> nat \<Rightarrow> slice" where
  "user_data m off = \<lparr>sl_pos = off, sl_size = int (bb_size m) - int off, sl_maxSize = int (bb_maxSize m) - int off\<rparr>"

lemma header_user_data:
  assumes "drop off (bb_buffer m) = [0xc1, x] @ zs" and "off < lim"
  shows "header_loop s m off lim = Some (SESSION_OK, s\<lparr>se_userData := user_data m (off + 2)\<rparr>)"
  using drop_Cons2 [of off "bb_buffer m" "0xc1" x zs] assms by (subst header_loop.simps) (simp add: user_data_def)

text \<open>A message in the receive buffer, with anything behind it.\<close>

definition holds :: "ByteBuffer \<Rightarrow> bytes \<Rightarrow> bool" where
  "holds m xs \<longleftrightarrow> bb_size m = length xs \<and> take (length xs) (bb_buffer m) = xs \<and> length xs \<le> length (bb_buffer m)"

lemma holds_drop: "holds m (xs @ ys) \<Longrightarrow> drop (length xs) (bb_buffer m) = ys @ drop (length xs + length ys) (bb_buffer m)"
proof -
  assume h: "holds m (xs @ ys)"
  then have "bb_buffer m = (xs @ ys) @ drop (length (xs @ ys)) (bb_buffer m)"
    unfolding holds_def by (metis append_take_drop_id)
  then have "drop (length xs) (bb_buffer m) = drop (length xs) ((xs @ ys) @ drop (length (xs @ ys)) (bb_buffer m))" by simp
  then show ?thesis by simp
qed

text \<open>The front of an SPDU whose length fits into its octet.\<close>

lemma parse_spdu_eq:
  assumes h: "holds m (spdu t params n @ payload)" and n: "length payload = n" "length params + 2 + n < 256"
    and loop: "header_loop s m 2 (length params + 2 + n + 2) = Some (SESSION_OK, s')"
  shows "parse_spdu s m (word_of_nat (length params + 2 + n)) ind = Some (ind, s')"
    and "rd (bb_buffer m) 0 = Some t" and "rd (bb_buffer m) 1 = Some (word_of_nat (length params + 2 + n))"
    and "bb_size m = length params + 4 + n"
proof -
  have len: "unat (word_of_nat (length params + 2 + n) :: u8) = length params + 2 + n" using n(2) by (simp only: unat_u8_of_nat) simp
  show size: "bb_size m = length params + 4 + n" using h n(1) by (simp add: holds_def spdu_def)
  have d: "drop 0 (bb_buffer m) = (spdu t params n @ payload) @ drop (length (spdu t params n @ payload)) (bb_buffer m)"
    using holds_drop [of m "[]" "spdu t params n @ payload"] h by simp
  show "rd (bb_buffer m) 0 = Some t" using rd_drop_nth [OF d, of 0] by (simp add: spdu_def)
  show "rd (bb_buffer m) 1 = Some (word_of_nat (length params + 2 + n))" using rd_drop_nth [OF d, of 1] by (simp add: spdu_def)
  show "parse_spdu s m (word_of_nat (length params + 2 + n)) ind = Some (ind, s')"
    unfolding parse_spdu_def parseSessionHeaderParameters_def len size using loop by simp
qed

text \<open>
  A data SPDU around any message is recognised as session data and its user data are exactly the message.
\<close>

theorem data_spdu_roundtrip:
  assumes "holds m (concat (bc_parts (IsoSession_createDataSpdu p)))" and "bc_length p = length (concat (bc_parts p))"
  shows "IsoSession_parseMessage s m = Some (SESSION_DATA, s\<lparr>se_userData := user_data m 4\<rparr>)
    \<and> sl_size (user_data m 4) = int (bc_length p) \<and> take (bc_length p) (drop 4 (bb_buffer m)) = concat (bc_parts p)"
proof -
  let ?xs = "concat (bc_parts p)"
  have h: "holds m ([1, 0, 1, 0] @ ?xs)" using assms(1) by (simp add: IsoSession_createDataSpdu_def chain_front_def dataSpdu_def)
  then have d: "drop 0 (bb_buffer m) = [1, 0, 1, 0] @ (?xs @ drop (length ([1, 0, 1, 0 :: u8] @ ?xs)) (bb_buffer m))"
    using holds_drop [of m "[]" "[1, 0, 1, 0] @ ?xs"] by simp
  have r: "rd (bb_buffer m) 0 = Some 1" "rd (bb_buffer m) 1 = Some 0" "rd (bb_buffer m) 2 = Some 1" "rd (bb_buffer m) 3 = Some 0"
    using rd_drop_nth [OF d, of 0] rd_drop_nth [OF d, of 1] rd_drop_nth [OF d, of 2] rd_drop_nth [OF d, of 3]
    by (simp_all add: numeral_2_eq_2)
  have size: "bb_size m = 4 + length ?xs" using h by (simp add: holds_def)
  then have "IsoSession_parseMessage s m = Some (SESSION_DATA, s\<lparr>se_userData := user_data m 4\<rparr>)"
    using r by (simp add: IsoSession_parseMessage_def user_data_def Let_def)
  moreover have "take (bc_length p) (drop 4 (bb_buffer m)) = ?xs" using drop_append_drop [OF d] assms(2) by (simp add: eval_nat_numeral)
  ultimately show ?thesis using size assms(2) by (simp add: user_data_def)
qed

text \<open>The items of a connect or accept SPDU, read from the second octet on.\<close>

lemma header_items:
  assumes d: "drop 2 (bb_buffer m) = accept_item opt @ requirement_item rq @ (if calling then selector_item 0x33 l else [])
      @ selector_item 0x34 r @ [0xc1, x] @ zs"
    and sel: "ssel_ok l" "ssel_ok r" and s: "ssel_ok (se_callingSessionSelector s)" "ssel_ok (se_calledSessionSelector s)"
    and lim: "18 + (if calling then 2 + ss_size l else 0) + ss_size r \<le> lim"
    and pos: "pos = 18 + (if calling then 2 + ss_size l else 0) + ss_size r"
  shows "header_loop s m 2 lim = Some (SESSION_OK, s\<lparr>se_protocolOptions := opt, se_sessionRequirement := rq,
      se_callingSessionSelector := (if calling then stored_ssel (se_callingSessionSelector s) l else se_callingSessionSelector s),
      se_calledSessionSelector := stored_ssel (se_calledSessionSelector s) r, se_userData := user_data m pos\<rparr>)"
    and "drop pos (bb_buffer m) = zs"
proof -
  let ?s1 = "s\<lparr>se_protocolOptions := opt\<rparr>" and ?B = "if calling then selector_item 0x33 l else []"
  let ?s2 = "?s1\<lparr>se_sessionRequirement := rq\<rparr>" and ?p3 = "14 + (if calling then 2 + ss_size l else 0)"
  let ?s3 = "?s2\<lparr>se_callingSessionSelector := (if calling then stored_ssel (se_callingSessionSelector s) l else se_callingSessionSelector s)\<rparr>"
  have lim2: "2 < lim" "10 < lim" "14 < lim" "?p3 < lim" "?p3 + 2 + ss_size r < lim" using lim by auto
  note 1 = header_accept_item(1) [OF d lim2(1), of s] header_accept_item(2) [OF d lim2(1)]
  have d2: "drop 10 (bb_buffer m) = requirement_item rq @ ?B @ selector_item 0x34 r @ [0xc1, x] @ zs" using 1(2) by simp
  note 2 = header_requirement_item(1) [OF d2 lim2(2), of ?s1] header_requirement_item(2) [OF d2 lim2(2)]
  have 3: "header_loop ?s2 m 14 lim = header_loop ?s3 m ?p3 lim \<and> drop ?p3 (bb_buffer m) = selector_item 0x34 r @ [0xc1, x] @ zs"
  proof (cases calling)
    case True
    have "drop 14 (bb_buffer m) = selector_item 0x33 l @ (selector_item 0x34 r @ [0xc1, x] @ zs)" using 2(2) True by simp
    from header_selector_item [OF this lim2(3) sel(1), of ?s2] s show ?thesis using True by (simp add: ac_simps)
  next
    case False
    then show ?thesis using 2(2) by simp
  qed
  have s3: "ssel_ok (se_callingSessionSelector ?s3)" "ssel_ok (se_calledSessionSelector ?s3)" using s sel stored_ssel_ok by auto
  note 4 = header_selector_item [OF conjunct2 [OF 3] lim2(4) sel(2) s3]
  note 5 = header_user_data [OF 4(3) lim2(5)]
  have p: "?p3 + 2 + ss_size r + 2 = pos" using pos by simp
  show "header_loop s m 2 lim = Some (SESSION_OK, s\<lparr>se_protocolOptions := opt, se_sessionRequirement := rq,
      se_callingSessionSelector := (if calling then stored_ssel (se_callingSessionSelector s) l else se_callingSessionSelector s),
      se_calledSessionSelector := stored_ssel (se_calledSessionSelector s) r, se_userData := user_data m pos\<rparr>)"
    using 1(1) 2(1) conjunct1 [OF 3] 4(2) 5 unfolding p by simp
  show "drop pos (bb_buffer m) = zs" using drop_append_drop [OF 4(3)] p by simp
qed

lemma holds_tail: "holds m (xs @ ys) \<Longrightarrow> length xs = n \<Longrightarrow> \<exists>tail. drop n (bb_buffer m) = ys @ tail"
  using holds_drop [of m xs ys] by auto

text \<open>
  C16: A connect SPDU is parsed as a session connect with what the client put in: both session selectors, the session
  requirement, protocol options 0, and the user data are exactly the payload.  All lengths must fit into one octet.
\<close>

theorem connect_spdu_roundtrip:
  assumes "ssel_ok r" "ssel_ok l" "52 \<le> length buf" and "IsoSession_createConnectSpdu c r l buf p = Some (c', q)"
    and "bc_length p = length (concat (bc_parts p))" and "bc_length p + 50 < 256"
    and "holds m (concat (bc_parts q))" and "ssel_ok (se_callingSessionSelector s)" "ssel_ok (se_calledSessionSelector s)"
  shows "\<exists>s'. IsoSession_parseMessage s m = Some (SESSION_CONNECT, s') \<and> sselector (se_calledSessionSelector s') = sselector r
    \<and> sselector (se_callingSessionSelector s') = sselector l \<and> se_sessionRequirement s' = se_sessionRequirement c
    \<and> se_protocolOptions s' = 0 \<and> sl_size (se_userData s') = int (bc_length p)
    \<and> take (bc_length p) (drop (sl_pos (se_userData s')) (bb_buffer m)) = concat (bc_parts p)"
proof -
  let ?n = "bc_length p" and ?xs = "concat (bc_parts p)"
  let ?params = "accept_item 0 @ requirement_item (se_sessionRequirement c) @ selector_item 0x33 l @ selector_item 0x34 r"
  have q: "concat (bc_parts q) = spdu 13 ?params ?n @ ?xs"
    using assms(4) by (auto simp: createConnectSpdu_eq [OF assms(1-3) refl] connect_spdu_def chain_front_def)
  have lp: "length ?params = 16 + ss_size l + ss_size r"
    using assms(1,2) by (simp add: accept_item_def requirement_item_def selector_item_def)
  have h: "holds m (spdu 13 ?params ?n @ ?xs)" using assms(7) q by simp
  have "holds m ([13, word_of_nat (length ?params + 2 + ?n)] @ (?params @ [0xc1, word_of_nat ?n] @ ?xs))" using h by (simp add: spdu_def)
  from holds_tail [OF this, of 2] obtain tail where
    d: "drop 2 (bb_buffer m) = accept_item 0 @ requirement_item (se_sessionRequirement c)
      @ (if True then selector_item 0x33 l else []) @ selector_item 0x34 r @ [0xc1, word_of_nat ?n] @ (?xs @ tail)" by auto
  note it = header_items [OF d assms(2,1,8,9), of "length ?params + 2 + ?n + 2", OF _ refl]
  have lt: "length ?params + 2 + ?n < 256" using lp assms(1,2,6) by (simp add: ssel_ok_def)
  note p = parse_spdu_eq [OF h assms(5) [symmetric] lt it(1)]
  have pos: "18 + (if True then 2 + ss_size l else 0) + ss_size r = 20 + ss_size l + ss_size r" by simp
  show ?thesis using p it(2) lp assms(1,2,5,8,9) unfolding IsoSession_parseMessage_def
    by (auto simp: stored_ssel_ok user_data_def Let_def)
qed

text \<open>
  An accept SPDU is parsed as a session connect with what the server put in: the called selector, the requirement, the
  protocol options, and the user data are exactly the payload.
\<close>

theorem accept_spdu_roundtrip:
  assumes "ssel_ok (se_calledSessionSelector c)" "34 \<le> length buf" and "IsoSession_createAcceptSpdu c buf p = Some q"
    and "bc_length p = length (concat (bc_parts p))" and "bc_length p + 32 < 256"
    and "holds m (concat (bc_parts q))" and "ssel_ok (se_callingSessionSelector s)" "ssel_ok (se_calledSessionSelector s)"
  shows "\<exists>s'. IsoSession_parseMessage s m = Some (SESSION_CONNECT, s')
    \<and> sselector (se_calledSessionSelector s') = sselector (se_calledSessionSelector c)
    \<and> se_sessionRequirement s' = se_sessionRequirement c \<and> se_protocolOptions s' = se_protocolOptions c
    \<and> sl_size (se_userData s') = int (bc_length p)
    \<and> take (bc_length p) (drop (sl_pos (se_userData s')) (bb_buffer m)) = concat (bc_parts p)"
proof -
  let ?n = "bc_length p" and ?xs = "concat (bc_parts p)" and ?r = "se_calledSessionSelector c"
  let ?params = "accept_item (se_protocolOptions c) @ requirement_item (se_sessionRequirement c) @ selector_item 0x34 ?r"
  have q: "concat (bc_parts q) = spdu 14 ?params ?n @ ?xs"
    using assms(3) by (auto simp: createAcceptSpdu_eq [OF assms(1,2)] accept_spdu_def chain_front_def)
  have lp: "length ?params = 14 + ss_size ?r" using assms(1) by (simp add: accept_item_def requirement_item_def selector_item_def)
  have h: "holds m (spdu 14 ?params ?n @ ?xs)" using assms(6) q by simp
  have "holds m ([14, word_of_nat (length ?params + 2 + ?n)] @ (?params @ [0xc1, word_of_nat ?n] @ ?xs))" using h by (simp add: spdu_def)
  from holds_tail [OF this, of 2] obtain tail where
    d: "drop 2 (bb_buffer m) = accept_item (se_protocolOptions c) @ requirement_item (se_sessionRequirement c)
      @ (if False then selector_item 0x33 ?r else []) @ selector_item 0x34 ?r @ [0xc1, word_of_nat ?n] @ (?xs @ tail)" by auto
  note it = header_items [OF d assms(1,1,7,8), of "length ?params + 2 + ?n + 2", OF _ refl]
  have lt: "length ?params + 2 + ?n < 256" using lp assms(1,5) by (simp add: ssel_ok_def)
  note p = parse_spdu_eq [OF h assms(4) [symmetric] lt it(1)]
  show ?thesis using p it(2) lp assms(1,4,7,8) unfolding IsoSession_parseMessage_def
    by (auto simp: stored_ssel_ok user_data_def Let_def)
qed

text \<open>
  The lengths of an SPDU are cut to eight bits.  A connect or accept SPDU around a payload that makes the parameters longer
  than 255 octets is rejected by the parser of the other side, although it was created without an error.
\<close>

theorem long_connect_rejected:
  assumes "ssel_ok r" "ssel_ok l" "52 \<le> length buf" and "IsoSession_createConnectSpdu c r l buf p = Some (c', q)"
    and "bc_length p = length (concat (bc_parts p))" and "256 \<le> bc_length p + 18" and "holds m (concat (bc_parts q))"
  shows "IsoSession_parseMessage s m = Some (SESSION_ERROR, s)"
proof -
  let ?n = "bc_length p" and ?xs = "concat (bc_parts p)"
  let ?params = "accept_item 0 @ requirement_item (se_sessionRequirement c) @ selector_item 0x33 l @ selector_item 0x34 r"
  have q: "concat (bc_parts q) = spdu 13 ?params ?n @ ?xs"
    using assms(4) by (auto simp: createConnectSpdu_eq [OF assms(1-3) refl] connect_spdu_def chain_front_def)
  have h: "holds m ([13, word_of_nat (length ?params + 2 + ?n)] @ (?params @ [0xc1, word_of_nat ?n] @ ?xs))"
    using assms(7) q by (simp add: spdu_def)
  then have d: "\<exists>tail. drop 0 (bb_buffer m) = [13, word_of_nat (length ?params + 2 + ?n)] @ tail"
    using holds_tail [of m "[]", OF _ refl] by fastforce
  then obtain tail where d: "drop 0 (bb_buffer m) = [13, word_of_nat (length ?params + 2 + ?n)] @ tail" by blast
  have r: "rd (bb_buffer m) 0 = Some 13" "rd (bb_buffer m) 1 = Some (word_of_nat (length ?params + 2 + ?n))"
    using rd_drop_nth [OF d, of 0] rd_drop_nth [OF d, of 1] by simp_all
  have "16 \<le> length ?params" by (simp add: accept_item_def requirement_item_def selector_item_def)
  moreover have "bb_size m = 4 + length ?params + ?n" using h assms(5) by (simp add: holds_def)
  ultimately have "258 \<le> bb_size m" using assms(6) by linarith
  then have "int (unat x) \<noteq> int (bb_size m) - 2" for x :: u8 using unat_u8_less [of x] by linarith
  then show ?thesis using r \<open>258 \<le> bb_size m\<close> unfolding IsoSession_parseMessage_def parse_spdu_def Let_def by simp
qed

subsection \<open>Arbitrary messages\<close>

lemma accept_loop_safe:
  assumes "maxOffset + 259 \<le> length mem" and "offset \<le> maxOffset + 257"
  shows "\<exists>r s'. accept_loop s mem offset maxOffset a b = Some (r, s') \<and> se_callingSessionSelector s' = se_callingSessionSelector s \<and> se_calledSessionSelector s' = se_calledSessionSelector s
    \<and> (\<forall>off x y. r = Some (off, x, y) \<longrightarrow> offset \<le> off)"
  using assms
proof (induction "maxOffset - offset" arbitrary: offset s a b rule: less_induct)
  case less
  show ?case
  proof (cases "offset < maxOffset")
    case False
    then have "accept_loop s mem offset maxOffset a b = Some (Some (offset, a, b), s)" by (subst accept_loop.simps) simp
    then show ?thesis by auto
  next
    case True
    obtain x l v where r: "rd mem offset = Some x" "rd mem (offset + 1) = Some l" "rd mem (offset + 2) = Some v"
      using True less(2) by (simp add: rd_def)
    have go: "\<exists>r s'. accept_loop c mem (offset + 2 + k) maxOffset a' b' = Some (r, s') \<and> se_callingSessionSelector s' = se_callingSessionSelector s \<and> se_calledSessionSelector s' = se_calledSessionSelector s
        \<and> (\<forall>off x y. r = Some (off, x, y) \<longrightarrow> offset \<le> off)"
      if c: "se_callingSessionSelector c = se_callingSessionSelector s" "se_calledSessionSelector c = se_calledSessionSelector s"
        and k: "k \<le> 255" for c k a' b'
    proof -
      have "maxOffset - (offset + 2 + k) < maxOffset - offset" "offset + 2 + k \<le> maxOffset + 257" using True k by simp_all
      from less(1) [OF this(1) less(2) this(2), of c a' b'] show ?thesis unfolding c by fastforce
    qed
    have eq: "accept_loop s mem offset maxOffset a b =
      (if x = 19 then (if l \<noteq> 1 then Some (None, s) else accept_loop (s\<lparr>se_protocolOptions := v\<rparr>) mem (offset + 2 + 1) maxOffset True b)
       else if x = 21 then accept_loop s mem (offset + 2 + 4) maxOffset a b
       else if x = 22 then (if v \<noteq> 2 then Some (None, s) else accept_loop s mem (offset + 2 + 1) maxOffset a True)
       else if x = 26 then accept_loop s mem (offset + 2 + 1) maxOffset a b
       else if x = 23 \<or> x = 55 \<or> x = 56 \<or> x = 57 \<or> x = 58 then accept_loop s mem (offset + 2 + unat l) maxOffset a b
       else accept_loop s mem (offset + 2 + 0) maxOffset a b)"
      using True r by (subst accept_loop.simps) (simp add: Let_def cong: if_cong)
    note g = go [of "s\<lparr>se_protocolOptions := v\<rparr>"] go [of s]
    show ?thesis unfolding eq using g(1) [of 1] g(2) [of 4] g(2) [of 1] g(2) [of "unat l"] g(2) [of 0] unat_u8_le [of l]
      by (auto simp del: add_2_eq_Suc')
  qed
qed

lemma parseAcceptParameters_safe:
  assumes "off + len + 259 \<le> length mem"
  shows "\<exists>r s'. parseAcceptParameters s mem off len = Some (r, s') \<and> se_callingSessionSelector s' = se_callingSessionSelector s
    \<and> se_calledSessionSelector s' = se_calledSessionSelector s"
proof -
  obtain r s' where "accept_loop s mem off (off + len) False False = Some (r, s')" "se_callingSessionSelector s' = se_callingSessionSelector s"
    "se_calledSessionSelector s' = se_calledSessionSelector s" using accept_loop_safe [of "off + len" mem off s False False] assms by auto
  then show ?thesis by (simp add: parseAcceptParameters_def)
qed

lemma store_ssel_safe:
  assumes "off + n \<le> length mem" and "n \<le> 16" and "ssel_ok sel"
  shows "\<exists>sel'. store_ssel mem off n sel = Some sel' \<and> ssel_ok sel'"
  using assms by (auto simp: store_ssel_def rdn_in puts_eq ssel_ok_def)

definition session_ok :: "IsoSession \<Rightarrow> bool" where
  "session_ok s \<longleftrightarrow> ssel_ok (se_callingSessionSelector s) \<and> ssel_ok (se_calledSessionSelector s)"

lemma header_loop_safe:
  assumes "limit \<le> 257" and "800 \<le> length (bb_buffer m)" and "session_ok s" and "limit \<le> bb_size m"
  shows "\<exists>r s'. header_loop s m offset limit = Some (r, s') \<and> session_ok s'
    \<and> (r = SESSION_OK \<longrightarrow> - 1 \<le> sl_size (se_userData s') \<and> int (sl_pos (se_userData s')) + sl_size (se_userData s') = int (bb_size m))"
  using assms(3)
proof (induction "limit - offset" arbitrary: offset s rule: less_induct)
  case less
  let ?m = "bb_buffer m"
  show ?case
  proof (cases "offset < limit")
    case False
    then have "header_loop s m offset limit = Some (SESSION_ERROR, s)" by (subst header_loop.simps) simp
    then show ?thesis using less(2) by simp
  next
    case True
    obtain x b hi lo where r: "rd ?m offset = Some x" "rd ?m (offset + 1) = Some b" "rd ?m (offset + 2) = Some hi" "rd ?m (offset + 2 + 1) = Some lo"
      using True assms(1,2) by (simp add: rd_def)
    let ?n = "unat b"
    have n: "?n \<le> 255" by (rule unat_u8_le)
    define P where "P = (\<lambda>z. \<exists>r s'. z = Some (r, s') \<and> session_ok s'
      \<and> (r = SESSION_OK \<longrightarrow> - 1 \<le> sl_size (se_userData s') \<and> int (sl_pos (se_userData s')) + sl_size (se_userData s') = int (bb_size m)))"
    have go: "P (header_loop c m (offset + 2 + k) limit)" if "session_ok c" for c k
      using less(1) [of "offset + 2 + k" c] True that by (simp add: P_def)
    have err: "P (Some (SESSION_ERROR, c))" if "session_ok c" for c using that by (simp add: P_def)
    obtain q t where q: "parseAcceptParameters s ?m (offset + 2) ?n = Some (q, t)" "session_ok t"
      using parseAcceptParameters_safe [of "offset + 2" ?n ?m s] True assms(1,2) n less(2) by (auto simp: session_ok_def)
    obtain c1 where c1: "?n \<le> 16 \<longrightarrow> store_ssel ?m (offset + 2) ?n (se_callingSessionSelector s) = Some c1 \<and> ssel_ok c1"
      using store_ssel_safe [of "offset + 2" ?n ?m "se_callingSessionSelector s"] True assms(1,2) less(2) by (auto simp: session_ok_def)
    obtain c2 where c2: "?n \<le> 16 \<longrightarrow> store_ssel ?m (offset + 2) ?n (se_calledSessionSelector s) = Some c2 \<and> ssel_ok c2"
      using store_ssel_safe [of "offset + 2" ?n ?m "se_calledSessionSelector s"] True assms(1,2) less(2) by (auto simp: session_ok_def)
    have eq: "header_loop s m offset limit =
      (if x = 1 \<or> x = 17 \<or> x = 25 \<or> x = 49 \<or> x = 60 then header_loop s m (offset + 2 + ?n) limit
       else if x = 5 then (case q of None \<Rightarrow> Some (SESSION_ERROR, t) | Some k \<Rightarrow> header_loop t m (offset + 2 + k) limit)
       else if x = 20 then (if ?n \<noteq> 2 then Some (SESSION_ERROR, s)
         else header_loop (s\<lparr>se_sessionRequirement := ucast hi * 0x100 + ucast lo\<rparr>) m (offset + 2 + 2) limit)
       else if x = 51 then (if 16 < ?n then Some (SESSION_ERROR, s)
         else header_loop (s\<lparr>se_callingSessionSelector := c1\<rparr>) m (offset + 2 + ?n) limit)
       else if x = 52 then (if 16 < ?n then Some (SESSION_ERROR, s)
         else header_loop (s\<lparr>se_calledSessionSelector := c2\<rparr>) m (offset + 2 + ?n) limit)
       else if x = 193 then Some (SESSION_OK, s\<lparr>se_userData := user_data m (offset + 2)\<rparr>)
       else header_loop s m (offset + 2 + 0) limit)"
      using True r q(1) c1 c2 by (subst header_loop.simps) (simp add: Let_def user_data_def cong: if_cong split: option.split)
    have sel: "session_ok (s\<lparr>se_sessionRequirement := v\<rparr>)" "?n \<le> 16 \<longrightarrow> session_ok (s\<lparr>se_callingSessionSelector := c1\<rparr>)"
        "?n \<le> 16 \<longrightarrow> session_ok (s\<lparr>se_calledSessionSelector := c2\<rparr>)" for v
      using less(2) c1 c2 by (simp_all add: session_ok_def)
    have ud: "P (Some (SESSION_OK, s\<lparr>se_userData := user_data m (offset + 2)\<rparr>))"
      using less(2) True assms(4) by (simp add: session_ok_def user_data_def P_def)
    have g1: "\<not> 16 < ?n \<Longrightarrow> P (header_loop (s\<lparr>se_callingSessionSelector := c1\<rparr>) m (offset + 2 + ?n) limit)"
      and g2: "\<not> 16 < ?n \<Longrightarrow> P (header_loop (s\<lparr>se_calledSessionSelector := c2\<rparr>) m (offset + 2 + ?n) limit)"
      using go sel(2,3) by (simp_all only: not_less)
    have "P (header_loop s m offset limit)" unfolding eq
      using go [OF less(2)] go [OF q(2)] go [OF sel(1)] g1 g2 err [OF less(2)] err [OF q(2)] ud by (auto simp only: split: if_split option.split)
    then show ?thesis by (simp only: P_def)
  qed
qed

lemma parse_spdu_safe:
  assumes "800 \<le> length (bb_buffer m)" and "session_ok s"
  shows "\<exists>r s'. parse_spdu s m len ind = Some (r, s') \<and> session_ok s' \<and> (r = ind \<and> ind \<noteq> SESSION_ERROR \<longrightarrow>
    - 1 \<le> sl_size (se_userData s') \<and> int (sl_pos (se_userData s')) + sl_size (se_userData s') = int (bb_size m))"
proof (cases "int (unat len) = int (bb_size m) - 2")
  case True
  then have "unat len + 2 \<le> 257" "unat len + 2 \<le> bb_size m" using unat_u8_le [of len] by linarith+
  from header_loop_safe [OF this(1) assms this(2), of 2] show ?thesis
    using True by (auto simp: parse_spdu_def parseSessionHeaderParameters_def)
qed (use assms(2) in \<open>auto simp: parse_spdu_def\<close>)

text \<open>
  C17: A message of any content in a receive buffer of at least 800 octets is parsed without an access outside the buffer or the
  selectors; the parser returns, and when it indicates a connect, data, finish or disconnect the user data end where the
  message ends and are at most one octet short of being empty: the size is \<open>-1\<close> when the user data item is the last octet.
\<close>

theorem parseMessage_safe:
  assumes "800 \<le> length (bb_buffer m)" and "session_ok s"
  shows "\<exists>ind s'. IsoSession_parseMessage s m = Some (ind, s') \<and> session_ok s' \<and>
    (ind \<in> {SESSION_CONNECT, SESSION_DATA, SESSION_FINISH, SESSION_DISCONNECT} \<longrightarrow>
       - 1 \<le> sl_size (se_userData s') \<and> int (sl_pos (se_userData s')) + sl_size (se_userData s') = int (bb_size m))"
proof (cases "bb_size m \<le> 1")
  case True
  then show ?thesis using assms(2) by (simp add: IsoSession_parseMessage_def)
next
  case False
  let ?m = "bb_buffer m"
  have len: "0 < length ?m" "1 < length ?m" "2 < length ?m" "3 < length ?m" using assms(1) by linarith+
  obtain i l b2 b3 where r: "rd ?m 0 = Some i" "rd ?m 1 = Some l" "rd ?m 2 = Some b2" "rd ?m 3 = Some b3"
    using rd_in [OF len(1)] rd_in [OF len(2)] rd_in [OF len(3)] rd_in [OF len(4)] by blast
  define P where "P = (\<lambda>z. \<exists>ind s'. z = Some (ind, s') \<and> session_ok s' \<and>
    (ind \<in> {SESSION_CONNECT, SESSION_DATA, SESSION_FINISH, SESSION_DISCONNECT} \<longrightarrow>
       - 1 \<le> sl_size (se_userData s') \<and> int (sl_pos (se_userData s')) + sl_size (se_userData s') = int (bb_size m)))"
  have spdu: "P (parse_spdu s m k ind)" if "ind \<noteq> SESSION_ERROR" for k ind
  proof -
    have "\<exists>r s'. parse_spdu s m k ind = Some (r, s') \<and> session_ok s' \<and> (r = ind \<or> r = SESSION_ERROR) \<and> (r = ind \<longrightarrow>
        - 1 \<le> sl_size (se_userData s') \<and> int (sl_pos (se_userData s')) + sl_size (se_userData s') = int (bb_size m))"
      using parse_spdu_safe [OF assms, of k ind] that by (auto simp: parse_spdu_def split: if_splits bind_splits)
    then show ?thesis by (auto simp: P_def)
  qed
  have data: "P (Some (SESSION_DATA, s\<lparr>se_userData := \<lparr>sl_pos = 4, sl_size = int (bb_size m) - 4, sl_maxSize = int (bb_maxSize m) - 4\<rparr>\<rparr>))"
    if "\<not> bb_size m < 4" using that assms(2) by (simp add: session_ok_def P_def)
  have rest: "P (Some (ind, s))" if "ind \<in> {SESSION_ERROR, SESSION_NOT_FINISHED, SESSION_ABORT}" for ind using that assms(2) by (auto simp: P_def)
  have eq: "IsoSession_parseMessage s m =
    (if i = 13 then parse_spdu s m l SESSION_CONNECT else if i = 14 then parse_spdu s m l SESSION_CONNECT
     else if i = 1 then (if bb_size m < 4 then Some (SESSION_ERROR, s) else if l = 0 \<and> b2 = 1 \<and> b3 = 0
       then Some (SESSION_DATA, s\<lparr>se_userData := \<lparr>sl_pos = 4, sl_size = int (bb_size m) - 4, sl_maxSize = int (bb_maxSize m) - 4\<rparr>\<rparr>)
       else Some (SESSION_ERROR, s))
     else if i = 8 then Some (SESSION_NOT_FINISHED, s) else if i = 9 then parse_spdu s m l SESSION_FINISH
     else if i = 10 then parse_spdu s m l SESSION_DISCONNECT else if i = 25 then Some (SESSION_ABORT, s) else Some (SESSION_ERROR, s))"
    using False r by (simp add: IsoSession_parseMessage_def Let_def cong: if_cong)
  have "P (IsoSession_parseMessage s m)" unfolding eq by (simp add: spdu data rest split: if_split)
  then show ?thesis by (simp only: P_def)
qed

subsection \<open>Witnesses\<close>

definition ex_payload :: BufferChain where
  "ex_payload = \<lparr>bc_length = 3, bc_parts = [[7, 8, 9]]\<rparr>"

definition ex_message :: "bytes \<Rightarrow> ByteBuffer" where
  "ex_message xs = \<lparr>bb_buffer = xs @ replicate 800 0, bb_maxSize = length xs + 800, bb_size = length xs\<rparr>"

definition ex_ssel :: "u8 \<Rightarrow> SSelector" where
  "ex_ssel x = \<lparr>ss_size = 2, ss_value = [0, x] @ replicate 14 0\<rparr>"

lemma ex_message_holds: "holds (ex_message xs) xs"
  by (simp add: holds_def ex_message_def)

lemma ex_ssel_ok: "ssel_ok (ex_ssel x)" "sselector (ex_ssel x) = [0, x]" "session_ok IsoSession_init"
  "ssel_ok (se_callingSessionSelector IsoSession_init)" "ssel_ok (se_calledSessionSelector IsoSession_init)"
  by (simp_all add: ex_ssel_def ssel_ok_def sselector_def session_ok_def IsoSession_init_def Let_def)

theorem data_spdu_roundtrip_witness:
  "IsoSession_parseMessage IsoSession_init (ex_message [1, 0, 1, 0, 7, 8, 9])
     = Some (SESSION_DATA, IsoSession_init\<lparr>se_userData := \<lparr>sl_pos = 4, sl_size = 3, sl_maxSize = 803\<rparr>\<rparr>)"
  using data_spdu_roundtrip [of "ex_message [1, 0, 1, 0, 7, 8, 9]" ex_payload IsoSession_init]
    ex_message_holds [of "[1, 0, 1, 0, 7, 8, 9]"]
  by (simp add: IsoSession_createDataSpdu_def chain_front_def dataSpdu_def ex_payload_def user_data_def ex_message_def)

theorem connect_spdu_roundtrip_witness:
  "\<exists>c' q s'. IsoSession_createConnectSpdu IsoSession_init (ex_ssel 5) (ex_ssel 6) (replicate 52 0) ex_payload = Some (c', q)
    \<and> IsoSession_parseMessage IsoSession_init (ex_message (concat (bc_parts q))) = Some (SESSION_CONNECT, s')
    \<and> sselector (se_calledSessionSelector s') = [0, 5] \<and> sselector (se_callingSessionSelector s') = [0, 6] \<and> sl_size (se_userData s') = 3"
proof -
  obtain c' q where q: "IsoSession_createConnectSpdu IsoSession_init (ex_ssel 5) (ex_ssel 6) (replicate 52 0) ex_payload = Some (c', q)"
    using createConnectSpdu_eq [OF ex_ssel_ok(1) ex_ssel_ok(1) _ refl, of "replicate 52 0"] by simp
  have "52 \<le> length (replicate 52 (0 :: u8))" "bc_length ex_payload = length (concat (bc_parts ex_payload))" "bc_length ex_payload + 50 < 256"
    by (simp_all add: ex_payload_def)
  from connect_spdu_roundtrip [OF ex_ssel_ok(1) ex_ssel_ok(1) this(1) q this(2,3) ex_message_holds ex_ssel_ok(4,5)] q show ?thesis
    by (auto simp: ex_ssel_ok ex_payload_def)
qed

theorem accept_spdu_roundtrip_witness:
  "\<exists>q s'. IsoSession_createAcceptSpdu IsoSession_init (replicate 34 0) ex_payload = Some q
    \<and> IsoSession_parseMessage IsoSession_init (ex_message (concat (bc_parts q))) = Some (SESSION_CONNECT, s') \<and> sl_size (se_userData s') = 3"
proof -
  obtain q where q: "IsoSession_createAcceptSpdu IsoSession_init (replicate 34 0) ex_payload = Some q"
    using createAcceptSpdu_eq [OF ex_ssel_ok(5), of "replicate 34 0"] by simp
  have "34 \<le> length (replicate 34 (0 :: u8))" "bc_length ex_payload = length (concat (bc_parts ex_payload))" "bc_length ex_payload + 32 < 256"
    by (simp_all add: ex_payload_def)
  from accept_spdu_roundtrip [OF ex_ssel_ok(5) this(1) q this(2,3) ex_message_holds ex_ssel_ok(4,5)] q show ?thesis
    by (auto simp: ex_payload_def)
qed

theorem long_connect_rejected_witness:
  "\<exists>c' q. IsoSession_createConnectSpdu IsoSession_init (ex_ssel 5) (ex_ssel 6) (replicate 52 0) \<lparr>bc_length = 238, bc_parts = [replicate 238 0]\<rparr> = Some (c', q)
    \<and> IsoSession_parseMessage IsoSession_init (ex_message (concat (bc_parts q))) = Some (SESSION_ERROR, IsoSession_init)"
proof -
  let ?p = "\<lparr>bc_length = 238, bc_parts = [replicate 238 0]\<rparr> :: BufferChain"
  obtain c' q where q: "IsoSession_createConnectSpdu IsoSession_init (ex_ssel 5) (ex_ssel 6) (replicate 52 0) ?p = Some (c', q)"
    using createConnectSpdu_eq [OF ex_ssel_ok(1) ex_ssel_ok(1) _ refl, of "replicate 52 0"] by simp
  have "52 \<le> length (replicate 52 (0 :: u8))" "bc_length ?p = length (concat (bc_parts ?p))" "256 \<le> bc_length ?p + 18" by simp_all
  from long_connect_rejected [OF ex_ssel_ok(1) ex_ssel_ok(1) this(1) q this(2,3) ex_message_holds, of IsoSession_init] q show ?thesis by blast
qed

theorem parseMessage_safe_witness:
  "\<exists>ind s'. IsoSession_parseMessage IsoSession_init (ex_message [13, 1, 0xc1]) = Some (ind, s') \<and> session_ok s'"
  using parseMessage_safe [of "ex_message [13, 1, 0xc1]" IsoSession_init] ex_ssel_ok(3) by (auto simp: ex_message_def)

text \<open>The user data item in the last octet.\<close>

lemma user_data_size_negative:
  "map_option (\<lambda>(ind, s). (ind, sl_size (se_userData s))) (IsoSession_parseMessage IsoSession_init
     \<lparr>bb_buffer = [13, 1, 0xc1, 0], bb_maxSize = 4, bb_size = 3\<rparr>) = Some (SESSION_CONNECT, - 1)"
  by code_simp

end
