(* ===== verification/IsoPresentation.thy ===== *)
theory IsoPresentation
  imports IsoSession BerDecoder
begin

text \<open>
  The presentation layer, \<open>src/libiec61850/src/mms/iso_presentation/iso_presentation.c\<close> (ISO 8823).  The parsers read the
  message from its first octet; the payload for the next layer is a window of it.  A returned position of \<open>-1\<close> is \<open>None\<close>; the maximal
  position is an \<open>int\<close> that may be negative, which no test of the code tells from 0.
\<close>

subsection \<open>State\<close>

record PSelector =
  ps_size :: nat
  ps_value :: bytes

record IsoPresentation =
  pr_callingPresentationSelector :: PSelector
  pr_calledPresentationSelector :: PSelector
  pr_nextContextId :: u8
  pr_acseContextId :: u8
  pr_mmsContextId :: u8
  pr_nextPayload :: slice

definition calledPresentationSelector :: bytes where
  "calledPresentationSelector = [0x00, 0x00, 0x00, 0x01]"

definition asn_id_as_acse :: bytes where
  "asn_id_as_acse = [0x52, 0x01, 0x00, 0x01]"

definition asn_id_mms :: bytes where
  "asn_id_mms = [0x28, 0xca, 0x22, 0x02, 0x01]"

definition ber_id :: bytes where
  "ber_id = [0x51, 0x01]"

subsection \<open>Creating\<close>

definition encodeAcceptBer :: writer where
  "encodeAcceptBer buffer bufPos = do {
     (buffer, bufPos) \<leftarrow> BerEncoder_encodeTL 0x30 7 buffer bufPos;
     (buffer, bufPos) \<leftarrow> BerEncoder_encodeTL 0x80 1 buffer bufPos;
     (buffer, bufPos) \<leftarrow> put 0 buffer bufPos;
     (buffer, bufPos) \<leftarrow> BerEncoder_encodeTL 0x81 2 buffer bufPos;
     (buffer, bufPos) \<leftarrow> put 0x51 buffer bufPos;
     put 0x01 buffer bufPos }"

text \<open>The lengths of the data set and of the fully encoded data, and the two ways to call the encoder.\<close>

definition encodedDataSetLength :: "nat \<Rightarrow> nat" where
  "encodedDataSetLength payloadLength = 3 + (payloadLength + 1) + BerEncoder_determineLengthSize payloadLength"

definition fullyEncodedDataLength :: "nat \<Rightarrow> nat" where
  "fullyEncodedDataLength payloadLength =
     encodedDataSetLength payloadLength + (BerEncoder_determineLengthSize (encodedDataSetLength payloadLength) + 1)"

definition encodeUserData_size :: "nat \<Rightarrow> nat" where
  "encodeUserData_size payloadLength =
     fullyEncodedDataLength payloadLength + 1 + BerEncoder_determineLengthSize (fullyEncodedDataLength payloadLength)"

definition encodeUserData :: "nat \<Rightarrow> u8 \<Rightarrow> writer" where
  "encodeUserData payloadLength contextId buffer bufPos = do {
     (buffer, bufPos) \<leftarrow> BerEncoder_encodeTL 0x61 (fullyEncodedDataLength payloadLength) buffer bufPos;
     (buffer, bufPos) \<leftarrow> BerEncoder_encodeTL 0x30 (encodedDataSetLength payloadLength) buffer bufPos;
     (buffer, bufPos) \<leftarrow> BerEncoder_encodeTL 0x02 1 buffer bufPos;
     (buffer, bufPos) \<leftarrow> put contextId buffer bufPos;
     BerEncoder_encodeTL 0xa0 payloadLength buffer bufPos }"

definition encode_psel :: "u8 \<Rightarrow> PSelector \<Rightarrow> writer" where
  "encode_psel tag sel buffer bufPos = do {
     (buffer, bufPos) \<leftarrow> BerEncoder_encodeTL tag (ps_size sel) buffer bufPos;
     octets \<leftarrow> rdn (ps_value sel) 0 (ps_size sel);
     puts octets buffer bufPos }"

definition encode_context :: "nat \<Rightarrow> u8 \<Rightarrow> bytes \<Rightarrow> writer" where
  "encode_context len contextId name buffer bufPos = do {
     (buffer, bufPos) \<leftarrow> BerEncoder_encodeTL 0x30 len buffer bufPos;
     (buffer, bufPos) \<leftarrow> BerEncoder_encodeTL 0x02 1 buffer bufPos;
     (buffer, bufPos) \<leftarrow> put contextId buffer bufPos;
     (buffer, bufPos) \<leftarrow> BerEncoder_encodeTL 0x06 (length name) buffer bufPos;
     (buffer, bufPos) \<leftarrow> puts name buffer bufPos;
     (buffer, bufPos) \<leftarrow> BerEncoder_encodeTL 0x30 4 buffer bufPos;
     (buffer, bufPos) \<leftarrow> BerEncoder_encodeTL 0x06 2 buffer bufPos;
     puts ber_id buffer bufPos }"

definition createConnectPdu :: "IsoPresentation \<Rightarrow> bytes \<Rightarrow> BufferChain \<Rightarrow> BufferChain option" where
  "createConnectPdu self buffer payload = do {
     let pclLength = 27 + ps_size (pr_callingPresentationSelector self) + ps_size (pr_calledPresentationSelector self);
     let normalModeLength = 12 + pclLength + encodeUserData_size (bc_length payload) + 2;
     let contentLength = 5 + normalModeLength + (1 + BerEncoder_determineLengthSize normalModeLength);
     (buffer, bufPos) \<leftarrow> BerEncoder_encodeTL 0x31 contentLength buffer 0;
     (buffer, bufPos) \<leftarrow> BerEncoder_encodeTL 0xa0 3 buffer bufPos;
     (buffer, bufPos) \<leftarrow> BerEncoder_encodeTL 0x80 1 buffer bufPos;
     (buffer, bufPos) \<leftarrow> put 1 buffer bufPos;
     (buffer, bufPos) \<leftarrow> BerEncoder_encodeTL 0xa2 normalModeLength buffer bufPos;
     (buffer, bufPos) \<leftarrow> encode_psel 0x81 (pr_callingPresentationSelector self) buffer bufPos;
     (buffer, bufPos) \<leftarrow> encode_psel 0x82 (pr_calledPresentationSelector self) buffer bufPos;
     (buffer, bufPos) \<leftarrow> BerEncoder_encodeTL 0xa4 35 buffer bufPos;
     (buffer, bufPos) \<leftarrow> encode_context 15 1 asn_id_as_acse buffer bufPos;
     (buffer, bufPos) \<leftarrow> encode_context 16 3 asn_id_mms buffer bufPos;
     (buffer, bufPos) \<leftarrow> encodeUserData (bc_length payload) (pr_acseContextId self) buffer bufPos;
     Some (chain_front (take bufPos buffer) payload) }"

definition IsoPresentation_createConnectPdu ::
    "IsoPresentation \<Rightarrow> PSelector \<Rightarrow> PSelector \<Rightarrow> bytes \<Rightarrow> BufferChain \<Rightarrow> (IsoPresentation \<times> BufferChain) option" where
  "IsoPresentation_createConnectPdu self localPSelector remotePSelector buffer payload = do {
     let self = self\<lparr>pr_acseContextId := 1, pr_mmsContextId := 3, pr_callingPresentationSelector := localPSelector,
       pr_calledPresentationSelector := remotePSelector\<rparr>;
     chain \<leftarrow> createConnectPdu self buffer payload;
     Some (self, chain) }"

definition create_user_data :: "u8 \<Rightarrow> bytes \<Rightarrow> BufferChain \<Rightarrow> BufferChain option" where
  "create_user_data contextId buffer payload = do {
     let payloadLength = bc_length payload;
     let userDataLengthFieldSize = BerEncoder_determineLengthSize payloadLength;
     let pdvListLength = payloadLength + (userDataLengthFieldSize + 4);
     let pdvListLengthFieldSize = BerEncoder_determineLengthSize pdvListLength;
     let presentationLength = pdvListLength + (pdvListLengthFieldSize + 1);
     (buffer, bufPos) \<leftarrow> BerEncoder_encodeTL 0x61 presentationLength buffer 0;
     (buffer, bufPos) \<leftarrow> BerEncoder_encodeTL 0x30 pdvListLength buffer bufPos;
     (buffer, bufPos) \<leftarrow> puts [0x02, 0x01, contextId] buffer bufPos;
     (buffer, bufPos) \<leftarrow> BerEncoder_encodeTL 0xa0 payloadLength buffer bufPos;
     Some (chain_front (take bufPos buffer) payload) }"

definition IsoPresentation_createUserData :: "IsoPresentation \<Rightarrow> bytes \<Rightarrow> BufferChain \<Rightarrow> BufferChain option" where
  "IsoPresentation_createUserData self = create_user_data (pr_mmsContextId self)"

definition IsoPresentation_createUserDataACSE :: "IsoPresentation \<Rightarrow> bytes \<Rightarrow> BufferChain \<Rightarrow> BufferChain option" where
  "IsoPresentation_createUserDataACSE self = create_user_data (pr_acseContextId self)"

definition IsoPresentation_createAbortUserMessage :: "IsoPresentation \<Rightarrow> bytes \<Rightarrow> BufferChain \<Rightarrow> BufferChain option" where
  "IsoPresentation_createAbortUserMessage self buffer payload = do {
     (buffer, bufPos) \<leftarrow> BerEncoder_encodeTL 0xa0 (encodeUserData_size (bc_length payload)) buffer 0;
     (buffer, bufPos) \<leftarrow> encodeUserData (bc_length payload) (pr_acseContextId self) buffer bufPos;
     Some (chain_front (take bufPos buffer) payload) }"

definition IsoPresentation_createCpaMessage :: "IsoPresentation \<Rightarrow> bytes \<Rightarrow> BufferChain \<Rightarrow> BufferChain option" where
  "IsoPresentation_createCpaMessage self buffer payload = do {
     let normalModeLength = 6 + 20 + encodeUserData_size (bc_length payload);
     let contentLength = 5 + normalModeLength + (BerEncoder_determineLengthSize normalModeLength + 1);
     (buffer, bufPos) \<leftarrow> BerEncoder_encodeTL 0x31 contentLength buffer 0;
     (buffer, bufPos) \<leftarrow> BerEncoder_encodeTL 0xa0 3 buffer bufPos;
     (buffer, bufPos) \<leftarrow> BerEncoder_encodeTL 0x80 1 buffer bufPos;
     (buffer, bufPos) \<leftarrow> put 1 buffer bufPos;
     (buffer, bufPos) \<leftarrow> BerEncoder_encodeTL 0xa2 normalModeLength buffer bufPos;
     (buffer, bufPos) \<leftarrow> BerEncoder_encodeTL 0x83 4 buffer bufPos;
     (buffer, bufPos) \<leftarrow> puts calledPresentationSelector buffer bufPos;
     (buffer, bufPos) \<leftarrow> BerEncoder_encodeTL 0xa5 18 buffer bufPos;
     (buffer, bufPos) \<leftarrow> encodeAcceptBer buffer bufPos;
     (buffer, bufPos) \<leftarrow> encodeAcceptBer buffer bufPos;
     (buffer, bufPos) \<leftarrow> encodeUserData (bc_length payload) (pr_acseContextId self) buffer bufPos;
     Some (chain_front (take bufPos buffer) payload) }"

subsection \<open>Parsing\<close>

function fed_loop :: "IsoPresentation \<Rightarrow> bytes \<Rightarrow> nat \<Rightarrow> nat \<Rightarrow> bool \<Rightarrow> (nat option \<times> IsoPresentation) option" where
  "fed_loop self buffer bufPos endPos userDataPresent =
     (if bufPos < endPos then do {
        tag \<leftarrow> rd buffer bufPos;
        r \<leftarrow> BerDecoder_decodeLength buffer (bufPos + 1) endPos;
        case r of
          LenErr \<Rightarrow> Some (None, self)
        | LenOk bufPos len \<Rightarrow>
            if tag = 0x02 then do {
              v \<leftarrow> BerDecoder_decodeUint32 buffer len bufPos;
              fed_loop (self\<lparr>pr_nextContextId := ucast v\<rparr>) buffer (bufPos + len) endPos userDataPresent }
            else if tag = 0xa0
            then fed_loop (self\<lparr>pr_nextPayload := (pr_nextPayload self)\<lparr>sl_pos := bufPos, sl_size := int len\<rparr>\<rparr>) buffer (bufPos + len) endPos True
            else if tag = 0x00 then fed_loop self buffer bufPos endPos userDataPresent
            else fed_loop self buffer (bufPos + len) endPos userDataPresent }
      else Some (if userDataPresent then Some bufPos else None, self))"
  by pat_completeness auto
termination
  by (relation "measure (\<lambda>(_, _, bufPos, endPos, _). endPos - bufPos)") (auto dest!: decodeLength_bounds)

declare fed_loop.simps [simp del]

definition parseFullyEncodedData :: "IsoPresentation \<Rightarrow> bytes \<Rightarrow> nat \<Rightarrow> nat \<Rightarrow> (nat option \<times> IsoPresentation) option" where
  "parseFullyEncodedData self buffer len bufPos = do {
     let endPos = bufPos + len;
     b \<leftarrow> rd buffer bufPos;
     if b \<noteq> 0x30 then Some (None, self)
     else do {
       r \<leftarrow> BerDecoder_decodeLength buffer (bufPos + 1) endPos;
       case r of
         LenErr \<Rightarrow> Some (None, self)
       | LenOk bufPos len \<Rightarrow> fed_loop self buffer bufPos (bufPos + len) False } }"

text \<open>One entry of the context definition list: the context number, a signed 32-bit value, and which syntaxes were named.\<close>

function pcdl_loop :: "bytes \<Rightarrow> nat \<Rightarrow> nat \<Rightarrow> u32 \<Rightarrow> bool \<Rightarrow> bool \<Rightarrow> (nat \<times> u32 \<times> bool \<times> bool) option option" where
  "pcdl_loop buffer bufPos endPos contextId isAcse isMms =
     (if bufPos < endPos then do {
        tag \<leftarrow> rd buffer bufPos;
        r \<leftarrow> BerDecoder_decodeLength buffer (bufPos + 1) endPos;
        case r of
          LenErr \<Rightarrow> Some None
        | LenOk bufPos len \<Rightarrow>
            if tag = 0x02 then do {
              v \<leftarrow> BerDecoder_decodeUint32 buffer len bufPos;
              pcdl_loop buffer (bufPos + len) endPos v isAcse isMms }
            else if tag = 0x06 then do {
              isMms' \<leftarrow> (if len = 5 then map_option (\<lambda>xs. isMms \<or> xs = asn_id_mms) (rdn buffer bufPos 5) else Some isMms);
              isAcse' \<leftarrow> (if len = 4 then map_option (\<lambda>xs. isAcse \<or> xs = asn_id_as_acse) (rdn buffer bufPos 4) else Some isAcse);
              pcdl_loop buffer (bufPos + len) endPos contextId isAcse' isMms' }
            else if tag = 0x00 then pcdl_loop buffer bufPos endPos contextId isAcse isMms
            else pcdl_loop buffer (bufPos + len) endPos contextId isAcse isMms }
      else Some (Some (bufPos, contextId, isAcse, isMms)))"
  by pat_completeness auto
termination
  by (relation "measure (\<lambda>(_, bufPos, endPos, _). endPos - bufPos)") (auto dest!: decodeLength_bounds)

declare pcdl_loop.simps [simp del]

definition parsePCDLEntry :: "IsoPresentation \<Rightarrow> bytes \<Rightarrow> nat \<Rightarrow> nat \<Rightarrow> (nat option \<times> IsoPresentation) option" where
  "parsePCDLEntry self buffer totalLength bufPos = do {
     r \<leftarrow> pcdl_loop buffer bufPos (bufPos + totalLength) (- 1) False False;
     Some (case r of
        None \<Rightarrow> (None, self)
      | Some (bufPos, contextId, isAcse, isMms) \<Rightarrow>
          if bit contextId 31 then (None, self)
          else if \<not> isAcse \<and> \<not> isMms then (None, self)
          else if isMms then (Some bufPos, self\<lparr>pr_mmsContextId := ucast contextId\<rparr>)
          else (Some bufPos, self\<lparr>pr_acseContextId := ucast contextId\<rparr>)) }"

lemma pcdl_loop_pos: "pcdl_loop buffer bufPos endPos cid a m = Some (Some (p, r)) \<Longrightarrow> bufPos \<le> p \<and> endPos \<le> p"
proof (induction "endPos - bufPos" arbitrary: bufPos cid a m rule: less_induct)
  case less
  show ?case
  proof (cases "bufPos < endPos")
    case True
    then show ?thesis using less(2)
      by (subst (asm) pcdl_loop.simps)
         (auto split: bind_splits len_result.splits if_splits dest!: decodeLength_bounds less(1) [rotated])
  next
    case False
    then show ?thesis using less(2) by (subst (asm) pcdl_loop.simps) simp
  qed
qed

lemma parsePCDLEntry_pos: "parsePCDLEntry self buffer n bufPos = Some (Some p, s) \<Longrightarrow> bufPos + n \<le> p"
  by (auto simp: parsePCDLEntry_def split: bind_splits option.splits if_splits dest: pcdl_loop_pos)

function parsePresentationContextDefinitionList_loop :: "IsoPresentation \<Rightarrow> bytes \<Rightarrow> nat \<Rightarrow> nat \<Rightarrow> (nat option \<times> IsoPresentation) option" where
  "parsePresentationContextDefinitionList_loop self buffer bufPos endPos =
     (if bufPos < endPos then do {
        tag \<leftarrow> rd buffer bufPos;
        r \<leftarrow> BerDecoder_decodeLength buffer (bufPos + 1) endPos;
        case r of
          LenErr \<Rightarrow> Some (None, self)
        | LenOk bufPos len \<Rightarrow>
            if tag = 0x30 then do {
              (p, self) \<leftarrow> parsePCDLEntry self buffer len bufPos;
              case p of
                None \<Rightarrow> Some (None, self)
              | Some bufPos \<Rightarrow> parsePresentationContextDefinitionList_loop self buffer bufPos endPos }
            else if tag = 0x00 then parsePresentationContextDefinitionList_loop self buffer bufPos endPos
            else parsePresentationContextDefinitionList_loop self buffer (bufPos + len) endPos }
      else Some (Some bufPos, self))"
  by pat_completeness auto
termination
  by (relation "measure (\<lambda>(_, _, bufPos, endPos). endPos - bufPos)") (auto dest!: decodeLength_bounds parsePCDLEntry_pos)

declare parsePresentationContextDefinitionList_loop.simps [simp del]

definition parsePresentationContextDefinitionList :: "IsoPresentation \<Rightarrow> bytes \<Rightarrow> nat \<Rightarrow> nat \<Rightarrow> (nat option \<times> IsoPresentation) option" where
  "parsePresentationContextDefinitionList self buffer totalLength bufPos =
     parsePresentationContextDefinitionList_loop self buffer bufPos (bufPos + totalLength)"

lemma fed_loop_pos: "fed_loop self buffer bufPos endPos u = Some (Some p, s) \<Longrightarrow> bufPos \<le> p"
proof (induction "endPos - bufPos" arbitrary: self bufPos u rule: less_induct)
  case less
  show ?case
  proof (cases "bufPos < endPos")
    case True
    then show ?thesis using less(2)
      by (subst (asm) fed_loop.simps)
         (auto split: bind_splits len_result.splits if_splits dest!: decodeLength_bounds less(1) [rotated])
  next
    case False
    then show ?thesis using less(2) by (subst (asm) fed_loop.simps) (auto split: if_splits)
  qed
qed

lemma parseFullyEncodedData_pos: "parseFullyEncodedData self buffer len bufPos = Some (Some p, s) \<Longrightarrow> bufPos < p"
  by (auto simp: parseFullyEncodedData_def Let_def split: bind_splits len_result.splits if_splits
      dest!: decodeLength_bounds fed_loop_pos)

lemma pcd_list_pos: "parsePresentationContextDefinitionList_loop self buffer bufPos endPos = Some (Some p, s) \<Longrightarrow> bufPos \<le> p"
proof (induction "endPos - bufPos" arbitrary: self bufPos rule: less_induct)
  case less
  show ?case
  proof (cases "bufPos < endPos")
    case True
    then show ?thesis using less(2)
      by (subst (asm) parsePresentationContextDefinitionList_loop.simps)
         (auto split: bind_splits len_result.splits if_splits option.splits
           dest!: decodeLength_bounds parsePCDLEntry_pos less(1) [rotated])
  next
    case False
    then show ?thesis using less(2) by (subst (asm) parsePresentationContextDefinitionList_loop.simps) simp
  qed
qed

text \<open>A selector of at most 16 octets is copied; a longer one is skipped.\<close>

definition copy_psel :: "bytes \<Rightarrow> nat \<Rightarrow> nat \<Rightarrow> PSelector \<Rightarrow> PSelector option" where
  "copy_psel buffer bufPos len sel =
     (if 16 < len then Some sel
      else do {
        octets \<leftarrow> rdn buffer bufPos len;
        (value, _) \<leftarrow> puts octets (ps_value sel) 0;
        Some \<lparr>ps_size = len, ps_value = value\<rparr> })"

function normal_loop :: "IsoPresentation \<Rightarrow> bytes \<Rightarrow> nat \<Rightarrow> nat \<Rightarrow> bool \<Rightarrow> (nat option \<times> IsoPresentation) option" where
  "normal_loop self buffer bufPos endPos hasUserData =
     (if bufPos < endPos then do {
        tag \<leftarrow> rd buffer bufPos;
        if bufPos + 1 = endPos then Some (None, self)
        else do {
          r \<leftarrow> BerDecoder_decodeLength buffer (bufPos + 1) endPos;
          case r of
            LenErr \<Rightarrow> Some (None, self)
          | LenOk bufPos len \<Rightarrow>
              if tag = 0x81 then do {
                sel \<leftarrow> copy_psel buffer bufPos len (pr_callingPresentationSelector self);
                normal_loop (self\<lparr>pr_callingPresentationSelector := sel\<rparr>) buffer (bufPos + len) endPos hasUserData }
              else if tag = 0x82 then do {
                sel \<leftarrow> copy_psel buffer bufPos len (pr_calledPresentationSelector self);
                normal_loop (self\<lparr>pr_calledPresentationSelector := sel\<rparr>) buffer (bufPos + len) endPos hasUserData }
              else if tag = 0xa4 then do {
                (p, self) \<leftarrow> parsePresentationContextDefinitionList self buffer len bufPos;
                case p of
                  None \<Rightarrow> Some (None, self)
                | Some bufPos \<Rightarrow> normal_loop self buffer bufPos endPos hasUserData }
              else if tag = 0x61 then do {
                (p, self) \<leftarrow> parseFullyEncodedData self buffer len bufPos;
                case p of
                  None \<Rightarrow> Some (None, self)
                | Some bufPos \<Rightarrow> normal_loop self buffer bufPos endPos (if 0 < sl_size (pr_nextPayload self) then True else hasUserData) }
              else if tag = 0x00 then normal_loop self buffer bufPos endPos hasUserData
              else normal_loop self buffer (bufPos + len) endPos hasUserData } }
      else Some (if hasUserData then Some bufPos else None, self))"
  by pat_completeness auto
termination
  by (relation "measure (\<lambda>(_, _, bufPos, endPos, _). endPos - bufPos)")
     (auto simp: parsePresentationContextDefinitionList_def dest!: decodeLength_bounds parseFullyEncodedData_pos pcd_list_pos)

declare normal_loop.simps [simp del]

definition parseNormalModeParameters :: "IsoPresentation \<Rightarrow> bytes \<Rightarrow> nat \<Rightarrow> nat \<Rightarrow> (nat option \<times> IsoPresentation) option" where
  "parseNormalModeParameters self buffer totalLength bufPos =
     normal_loop (self\<lparr>pr_calledPresentationSelector := (pr_calledPresentationSelector self)\<lparr>ps_size := 0\<rparr>,
       pr_callingPresentationSelector := (pr_callingPresentationSelector self)\<lparr>ps_size := 0\<rparr>\<rparr>) buffer bufPos (bufPos + totalLength) False"

lemma normal_loop_pos: "normal_loop self buffer bufPos endPos u = Some (Some p, s) \<Longrightarrow> bufPos \<le> p"
proof (induction "endPos - bufPos" arbitrary: self bufPos u rule: less_induct)
  case less
  show ?case
  proof (cases "bufPos < endPos")
    case True
    then show ?thesis using less(2)
      by (subst (asm) normal_loop.simps)
         (auto simp: parsePresentationContextDefinitionList_def split: bind_splits len_result.splits if_splits option.splits
           dest!: decodeLength_bounds parseFullyEncodedData_pos pcd_list_pos less(1) [rotated])
  next
    case False
    then show ?thesis using less(2) by (subst (asm) normal_loop.simps) (auto split: if_splits)
  qed
qed

function accept_message_loop :: "IsoPresentation \<Rightarrow> bytes \<Rightarrow> nat \<Rightarrow> nat \<Rightarrow> (bool \<times> IsoPresentation) option" where
  "accept_message_loop self buffer bufPos maxBufPos =
     (if bufPos < maxBufPos then do {
        tag \<leftarrow> rd buffer bufPos;
        r \<leftarrow> BerDecoder_decodeLength buffer (bufPos + 1) maxBufPos;
        case r of
          LenErr \<Rightarrow> Some (False, self)
        | LenOk bufPos len \<Rightarrow>
            if tag = 0xa2 then do {
              (p, self) \<leftarrow> parseNormalModeParameters self buffer len bufPos;
              case p of
                None \<Rightarrow> Some (False, self)
              | Some bufPos \<Rightarrow> accept_message_loop self buffer bufPos maxBufPos }
            else if tag = 0x00 then accept_message_loop self buffer bufPos maxBufPos
            else accept_message_loop self buffer (bufPos + len) maxBufPos }
      else Some (True, self))"
  by pat_completeness auto
termination
  by (relation "measure (\<lambda>(_, _, bufPos, endPos). endPos - bufPos)")
     (auto simp: parseNormalModeParameters_def dest!: decodeLength_bounds normal_loop_pos)

declare accept_message_loop.simps [simp del]

definition IsoPresentation_parseAcceptMessage :: "IsoPresentation \<Rightarrow> bytes \<Rightarrow> int \<Rightarrow> (bool \<times> IsoPresentation) option" where
  "IsoPresentation_parseAcceptMessage self buffer n = do {
     let maxBufPos = nat n;
     cpTag \<leftarrow> rd buffer 0;
     if cpTag \<noteq> 0x31 then Some (False, self)
     else do {
       r \<leftarrow> BerDecoder_decodeLength buffer 1 maxBufPos;
       case r of
         LenErr \<Rightarrow> Some (False, self)
       | LenOk bufPos len \<Rightarrow> accept_message_loop self buffer bufPos maxBufPos } }"

function connect_loop :: "IsoPresentation \<Rightarrow> bytes \<Rightarrow> nat \<Rightarrow> nat \<Rightarrow> bool \<Rightarrow> (bool \<times> IsoPresentation) option" where
  "connect_loop self buffer bufPos maxBufPos hasNormalModeParameters =
     (if bufPos < maxBufPos then do {
        tag \<leftarrow> rd buffer bufPos;
        r \<leftarrow> BerDecoder_decodeLength buffer (bufPos + 1) maxBufPos;
        case r of
          LenErr \<Rightarrow> Some (False, self)
        | LenOk bufPos len \<Rightarrow>
            if tag = 0xa0 then do {
              b \<leftarrow> rd buffer bufPos;
              if b \<noteq> 0x80 then Some (False, self)
              else do {
                r \<leftarrow> BerDecoder_decodeLength buffer (bufPos + 1) maxBufPos;
                case r of
                  LenErr \<Rightarrow> Some (False, self)
                | LenOk bufPos len \<Rightarrow> do {
                    modeSelector \<leftarrow> BerDecoder_decodeUint32 buffer len bufPos;
                    connect_loop self buffer (bufPos + len) maxBufPos hasNormalModeParameters } } }
            else if tag = 0xa2 then do {
              (p, self) \<leftarrow> parseNormalModeParameters self buffer len bufPos;
              case p of
                None \<Rightarrow> Some (False, self)
              | Some bufPos \<Rightarrow> connect_loop self buffer bufPos maxBufPos True }
            else if tag = 0x00 then connect_loop self buffer bufPos maxBufPos hasNormalModeParameters
            else connect_loop self buffer (bufPos + len) maxBufPos hasNormalModeParameters }
      else Some (hasNormalModeParameters, self))"
  by pat_completeness auto
termination
  by (relation "measure (\<lambda>(_, _, bufPos, endPos, _). endPos - bufPos)")
     (auto simp: parseNormalModeParameters_def dest!: decodeLength_bounds normal_loop_pos)

declare connect_loop.simps [simp del]

definition IsoPresentation_parseConnect :: "IsoPresentation \<Rightarrow> bytes \<Rightarrow> int \<Rightarrow> (bool \<times> IsoPresentation) option" where
  "IsoPresentation_parseConnect self buffer n = do {
     let maxBufPos = nat n;
     cpTag \<leftarrow> rd buffer 0;
     if cpTag \<noteq> 0x31 then Some (False, self)
     else do {
       r \<leftarrow> BerDecoder_decodeLength buffer 1 maxBufPos;
       case r of
         LenErr \<Rightarrow> Some (False, self)
       | LenOk bufPos len \<Rightarrow> connect_loop self buffer bufPos maxBufPos False } }"

text \<open>User data: an unknown element is not skipped, its content is read as elements.\<close>

function user_data_loop :: "IsoPresentation \<Rightarrow> bytes \<Rightarrow> nat \<Rightarrow> nat \<Rightarrow> bool \<Rightarrow> (bool \<times> IsoPresentation) option" where
  "user_data_loop self buffer bufPos maxBufPos hasAbstractSyntaxName =
     (if bufPos < maxBufPos then do {
        tag \<leftarrow> rd buffer bufPos;
        lenField \<leftarrow> rd buffer (bufPos + 1);
        r \<leftarrow> BerDecoder_decodeLength buffer (bufPos + 1) maxBufPos;
        case r of
          LenErr \<Rightarrow> Some (False, self)
        | LenOk bufPos len \<Rightarrow>
            if tag = 0x02 then do {
              b \<leftarrow> rd buffer bufPos;
              user_data_loop (self\<lparr>pr_nextContextId := b\<rparr>) buffer (bufPos + len) maxBufPos True }
            else if tag = 0x06 then do {
              b0 \<leftarrow> rd buffer bufPos;
              if b0 \<noteq> 0x51 then Some (False, self)
              else do {
                b1 \<leftarrow> rd buffer (bufPos + 1);
                if b1 \<noteq> 0x01 then Some (False, self)
                else user_data_loop self buffer (bufPos + len) maxBufPos hasAbstractSyntaxName } }
            else if tag = 0xa0 then
              (if \<not> hasAbstractSyntaxName then Some (False, self)
               else (let userDataLength = (if lenField = 0x80 then int len - 2 else int len)
                     in Some (True, self\<lparr>pr_nextPayload := \<lparr>sl_pos = bufPos, sl_size = userDataLength, sl_maxSize = userDataLength\<rparr>\<rparr>)))
            else user_data_loop self buffer bufPos maxBufPos hasAbstractSyntaxName }
      else Some (False, self))"
  by pat_completeness auto
termination
  by (relation "measure (\<lambda>(_, _, bufPos, endPos, _). endPos - bufPos)") (auto dest!: decodeLength_bounds)

declare user_data_loop.simps [simp del]

definition IsoPresentation_parseUserData :: "IsoPresentation \<Rightarrow> bytes \<Rightarrow> int \<Rightarrow> (bool \<times> IsoPresentation) option" where
  "IsoPresentation_parseUserData self buffer n =
     (if n < 9 then Some (False, self)
      else do {
        let maxBufPos = nat n;
        b \<leftarrow> rd buffer 0;
        if b \<noteq> 0x61 then Some (False, self)
        else do {
          r \<leftarrow> BerDecoder_decodeLength buffer 1 maxBufPos;
          case r of
            LenErr \<Rightarrow> Some (False, self)
          | LenOk bufPos len \<Rightarrow> do {
              b \<leftarrow> rd buffer bufPos;
              if b \<noteq> 0x30 then Some (False, self)
              else do {
                r \<leftarrow> BerDecoder_decodeLength buffer (bufPos + 1) maxBufPos;
                case r of
                  LenErr \<Rightarrow> Some (False, self)
                | LenOk bufPos len \<Rightarrow> user_data_loop self buffer bufPos maxBufPos False } } } })"

end
