(* ===== verification/Acse.thy ===== *)
theory Acse
  imports IsoPresentation
begin

text \<open>
  The association control layer, \<open>src/libiec61850/src/mms/iso_acse/acse.c\<close> (ISO 8650).  A message is a window of the receive
  buffer: positions are those of the whole buffer and \<open>base\<close> is where the message starts, so that the position \<open>-1\<close> of the C code
  is the octet before the message.  The authenticator is a callback of the application, a function of the parameter, the token and
  the application reference.  The stack is the one without TLS; \<open>nextReference\<close>, a \<open>long\<close>, only ever holds a \<open>uint32_t\<close>.
\<close>

subsection \<open>State\<close>

datatype AcseIndication =
  ACSE_ERROR | ACSE_ASSOCIATE | ACSE_ASSOCIATE_FAILED | ACSE_OK | ACSE_ABORT | ACSE_RELEASE_REQUEST | ACSE_RELEASE_RESPONSE

datatype AcseAuthenticationMechanism = ACSE_AUTH_NONE | ACSE_AUTH_PASSWORD | ACSE_AUTH_CERTIFICATE | ACSE_AUTH_TLS

text \<open>The password is the octets the pointer of the parameter points to; no password is the null pointer.\<close>

record AcseAuthenticationParameter =
  ap_mechanism :: AcseAuthenticationMechanism
  ap_password :: "bytes option"

record IsoApplicationReference =
  ar_apTitle :: "u16 list \<times> nat"
  ar_aeQualifier :: u32

type_synonym AcseAuthenticator =
  "AcseAuthenticationParameter \<Rightarrow> nat option \<Rightarrow> IsoApplicationReference \<Rightarrow> bool \<times> nat option \<times> IsoApplicationReference"

record AcseConnection =
  ac_nextReference :: u32
  ac_userDataBuffer :: "nat option"
  ac_userDataBufferSize :: nat
  ac_authenticator :: "AcseAuthenticator option"
  ac_applicationReference :: IsoApplicationReference
  ac_securityToken :: "nat option"

record IsoConnectionParameters =
  ip_remoteApTitle :: bytes
  ip_remoteApTitleLen :: int
  ip_remoteAEQualifier :: u32
  ip_localApTitle :: bytes
  ip_localApTitleLen :: int
  ip_localAEQualifier :: u32

definition appContextNameMms :: bytes where
  "appContextNameMms = [0x28, 0xca, 0x22, 0x02, 0x03]"

definition auth_mech_password_oid :: bytes where
  "auth_mech_password_oid = [0x52, 0x03, 0x01]"

definition AcseConnection_init :: "AcseAuthenticator option \<Rightarrow> AcseConnection \<Rightarrow> AcseConnection" where
  "AcseConnection_init authenticator self = self\<lparr>ac_nextReference := 0, ac_userDataBuffer := None, ac_userDataBufferSize := 0,
     ac_authenticator := authenticator, ac_applicationReference := \<lparr>ar_apTitle = (replicate 10 0, 0), ar_aeQualifier = 0\<rparr>\<rparr>"

subsection \<open>Authentication\<close>

definition checkAuthMechanismName :: "bytes option \<Rightarrow> AcseAuthenticationMechanism" where
  "checkAuthMechanismName authMechanism = (if authMechanism = Some auth_mech_password_oid then ACSE_AUTH_PASSWORD else ACSE_AUTH_NONE)"

definition authenticateClient ::
    "AcseAuthenticator \<Rightarrow> AcseConnection \<Rightarrow> AcseAuthenticationMechanism \<Rightarrow> bytes option \<Rightarrow> bool \<times> AcseConnection" where
  "authenticateClient authenticator self mechanism authValue =
     (let param = \<lparr>ap_mechanism = mechanism, ap_password = (if mechanism = ACSE_AUTH_PASSWORD then authValue else None)\<rparr>;
          (ok, token, ref) = authenticator param (ac_securityToken self) (ac_applicationReference self)
      in (ok, self\<lparr>ac_securityToken := token, ac_applicationReference := ref\<rparr>))"

definition checkAuthentication :: "AcseConnection \<Rightarrow> bytes option \<Rightarrow> bytes option \<Rightarrow> bool \<times> AcseConnection" where
  "checkAuthentication self authMechanism authValue =
     (let self = self\<lparr>ac_securityToken := None\<rparr>
      in case ac_authenticator self of
           Some authenticator \<Rightarrow> authenticateClient authenticator self (checkAuthMechanismName authMechanism) authValue
         | None \<Rightarrow> (True, self))"

subsection \<open>Parsing\<close>

text \<open>
  What the length decoder leaves in its result variable when it fails: nothing when there is no length octet, else the octets read
  so far.
\<close>

fun length_octets_left :: "bytes \<Rightarrow> nat \<Rightarrow> nat \<Rightarrow> nat \<Rightarrow> nat \<Rightarrow> int option" where
  "length_octets_left buffer 0 bufPos maxBufPos len = Some (int len)"
| "length_octets_left buffer (Suc i) bufPos maxBufPos len =
     (if maxBufPos \<le> bufPos then Some (int len)
      else if maxBufPos < bufPos + len then Some (int len)
      else do {
        b \<leftarrow> rd buffer bufPos;
        length_octets_left buffer i (bufPos + 1) maxBufPos (len * 256 + unat b) })"

definition length_left :: "bytes \<Rightarrow> nat \<Rightarrow> nat \<Rightarrow> int option" where
  "length_left buffer bufPos maxBufPos =
     (if maxBufPos \<le> bufPos then None
      else do {
        len1 \<leftarrow> rd buffer bufPos;
        if len1 AND 0x80 = 0 then Some (uint len1)
        else if len1 AND 0x7f = 0 then Some (- 1)
        else length_octets_left buffer (unat (len1 AND 0x7f)) (bufPos + 1) maxBufPos 0 })"

text \<open>
  One round of the loop over the user information: the state of the next round, or the position reached, if any, and whether the
  information is valid.  A length of zero is tested before a failed decoder: a length field that is cut off after zeros sends
  the loop to position \<open>-1\<close>.
\<close>

definition user_info_step ::
    "AcseConnection \<Rightarrow> bytes \<Rightarrow> nat \<Rightarrow> nat \<Rightarrow> nat \<Rightarrow> bool \<Rightarrow> bool
      \<Rightarrow> ((AcseConnection \<times> nat \<times> bool \<times> bool) + (nat option \<times> bool \<times> AcseConnection)) option" where
  "user_info_step self buffer base bufPos maxBufPos hasindirectReference isDataValid =
     (if bufPos < maxBufPos then do {
        tag \<leftarrow> rd buffer bufPos;
        r \<leftarrow> BerDecoder_decodeLength buffer (bufPos + 1) maxBufPos;
        case r of
          LenErr \<Rightarrow> do {
            left \<leftarrow> length_left buffer (bufPos + 1) maxBufPos;
            if left \<noteq> 0 then Some (Inr (None, False, self))
            else if base = 0 then None
            else Some (Inl (self, base - 1, hasindirectReference, isDataValid)) }
        | LenOk bufPos len \<Rightarrow>
            if len = 0 then Some (Inl (self, bufPos, hasindirectReference, isDataValid))
            else if tag = 0x02 then do {
              ref \<leftarrow> BerDecoder_decodeUint32 buffer len bufPos;
              Some (Inl (self\<lparr>ac_nextReference := ref\<rparr>, bufPos + len, True, isDataValid)) }
            else if tag = 0xa0
            then Some (Inl (self\<lparr>ac_userDataBufferSize := len, ac_userDataBuffer := Some bufPos\<rparr>, bufPos + len, hasindirectReference, True))
            else Some (Inl (self, bufPos + len, hasindirectReference, isDataValid)) }
      else Some (Inr (Some bufPos, hasindirectReference \<and> isDataValid, self)))"

partial_function (option) user_info_loop ::
    "AcseConnection \<Rightarrow> bytes \<Rightarrow> nat \<Rightarrow> nat \<Rightarrow> nat \<Rightarrow> bool \<Rightarrow> bool \<Rightarrow> (nat option \<times> bool \<times> AcseConnection) option" where
  "user_info_loop self buffer base bufPos maxBufPos hasindirectReference isDataValid = do {
     r \<leftarrow> user_info_step self buffer base bufPos maxBufPos hasindirectReference isDataValid;
     case r of
       Inl (self, bufPos, hasindirectReference, isDataValid) \<Rightarrow>
         user_info_loop self buffer base bufPos maxBufPos hasindirectReference isDataValid
     | Inr res \<Rightarrow> Some res }"

definition parseUserInformation ::
    "AcseConnection \<Rightarrow> bytes \<Rightarrow> nat \<Rightarrow> nat \<Rightarrow> nat \<Rightarrow> (nat option \<times> bool \<times> AcseConnection) option" where
  "parseUserInformation self buffer base bufPos maxBufPos = user_info_loop self buffer base bufPos maxBufPos False False"

lemma user_info_step_done:
  "user_info_step self buffer base bufPos maxBufPos h v = Some (Inr (p, b, s)) \<Longrightarrow> s = self \<and> (\<forall>q. p = Some q \<longrightarrow> q = bufPos \<and> maxBufPos \<le> q)"
  by (auto simp: user_info_step_def split: if_splits bind_splits len_result.splits)

lemma user_info_step_authenticator:
  "user_info_step self buffer base bufPos maxBufPos h v = Some (Inl (s, q, h', v')) \<Longrightarrow>
     ac_authenticator s = ac_authenticator self \<and> ac_securityToken s = ac_securityToken self"
  by (auto simp: user_info_step_def split: if_splits bind_splits len_result.splits)

lemma user_info_loop_result:
  "user_info_loop self buffer base bufPos maxBufPos h v = Some r \<Longrightarrow>
     (\<forall>q. fst r = Some q \<longrightarrow> maxBufPos \<le> q) \<and> ac_authenticator (snd (snd r)) = ac_authenticator self
       \<and> ac_securityToken (snd (snd r)) = ac_securityToken self"
proof (rule user_info_loop.raw_induct [of "\<lambda>self buffer base bufPos maxBufPos h v r. (\<forall>q. fst r = Some q \<longrightarrow> maxBufPos \<le> q)
    \<and> ac_authenticator (snd (snd r)) = ac_authenticator self \<and> ac_securityToken (snd (snd r)) = ac_securityToken self"], goal_cases)
  case (1 loop self buffer base bufPos maxBufPos h v r)
  then show ?case by (cases r) (auto split: bind_splits sum.splits dest!: user_info_step_done user_info_step_authenticator)
qed

lemma user_info_loop_pos: "user_info_loop self buffer base bufPos maxBufPos h v = Some (Some p, b, s) \<Longrightarrow> maxBufPos \<le> p"
  using user_info_loop_result by fastforce

text \<open>The user information inside a PDU: an element with another tag than \<open>0x28\<close> is skipped.\<close>

definition user_information ::
    "AcseConnection \<Rightarrow> bytes \<Rightarrow> nat \<Rightarrow> nat \<Rightarrow> nat \<Rightarrow> nat \<Rightarrow> bool \<Rightarrow> (nat option \<times> bool \<times> AcseConnection) option" where
  "user_information self buffer base bufPos len maxBufPos userInfoValid = do {
     b \<leftarrow> rd buffer bufPos;
     if b \<noteq> 0x28 then Some (Some (bufPos + len), userInfoValid, self)
     else do {
       r \<leftarrow> BerDecoder_decodeLength buffer (bufPos + 1) maxBufPos;
       case r of
         LenErr \<Rightarrow> Some (None, userInfoValid, self)
       | LenOk bufPos len \<Rightarrow> parseUserInformation self buffer base bufPos (bufPos + len) } }"

lemma user_information_pos: "user_information self buffer base bufPos len maxBufPos v = Some (Some p, b, s) \<Longrightarrow> bufPos \<le> p"
  by (auto simp: user_information_def parseUserInformation_def split: bind_splits if_splits len_result.splits
      dest!: user_info_loop_pos decodeLength_bounds)

function aare_loop :: "AcseConnection \<Rightarrow> bytes \<Rightarrow> nat \<Rightarrow> nat \<Rightarrow> nat \<Rightarrow> bool \<Rightarrow> u32 \<Rightarrow> (AcseIndication \<times> AcseConnection) option" where
  "aare_loop self buffer base bufPos maxBufPos userInfoValid res =
     (if bufPos < maxBufPos then do {
        tag \<leftarrow> rd buffer bufPos;
        r \<leftarrow> BerDecoder_decodeLength buffer (bufPos + 1) maxBufPos;
        case r of
          LenErr \<Rightarrow> Some (ACSE_ERROR, self)
        | LenOk bufPos len \<Rightarrow>
            if len = 0 then aare_loop self buffer base bufPos maxBufPos userInfoValid res
            else if tag = 0xa2 then do {
              r \<leftarrow> BerDecoder_decodeLength buffer (bufPos + 1) maxBufPos;
              case r of
                LenErr \<Rightarrow> Some (ACSE_ERROR, self)
              | LenOk bufPos len \<Rightarrow> do {
                  res \<leftarrow> BerDecoder_decodeUint32 buffer len bufPos;
                  aare_loop self buffer base (bufPos + len) maxBufPos userInfoValid res } }
            else if tag = 0xbe then do {
              (p, userInfoValid, self) \<leftarrow> user_information self buffer base bufPos len maxBufPos userInfoValid;
              case p of
                None \<Rightarrow> Some (ACSE_ERROR, self)
              | Some bufPos \<Rightarrow> aare_loop self buffer base bufPos maxBufPos userInfoValid res }
            else if tag = 0x00 then aare_loop self buffer base bufPos maxBufPos userInfoValid res
            else aare_loop self buffer base (bufPos + len) maxBufPos userInfoValid res }
      else Some (if \<not> userInfoValid then ACSE_ERROR else if res \<noteq> 0 then ACSE_ASSOCIATE_FAILED else ACSE_ASSOCIATE, self))"
  by pat_completeness auto
termination
  by (relation "measure (\<lambda>(_, _, _, bufPos, maxBufPos, _). maxBufPos - bufPos)") (auto dest!: decodeLength_bounds user_information_pos)

declare aare_loop.simps [simp del]

definition parseAarePdu :: "AcseConnection \<Rightarrow> bytes \<Rightarrow> nat \<Rightarrow> nat \<Rightarrow> nat \<Rightarrow> (AcseIndication \<times> AcseConnection) option" where
  "parseAarePdu self buffer base bufPos maxBufPos = aare_loop self buffer base bufPos maxBufPos False 99"

text \<open>The calling AP title and AE qualifier are taken over only when the inner length fits the element.\<close>

definition calling_ap_title :: "AcseConnection \<Rightarrow> bytes \<Rightarrow> nat \<Rightarrow> nat \<Rightarrow> AcseConnection option" where
  "calling_ap_title self buffer bufPos len = do {
     b \<leftarrow> rd buffer bufPos;
     if b = 0x06 then do {
       innerLength \<leftarrow> rd buffer (bufPos + 1);
       if int (unat innerLength) = int len - 2 then do {
         oid \<leftarrow> BerDecoder_decodeOID buffer (bufPos + 2) (unat innerLength);
         Some (self\<lparr>ac_applicationReference := (ac_applicationReference self)\<lparr>ar_apTitle := oid\<rparr>\<rparr>) }
       else Some self }
     else Some self }"

definition calling_ae_qualifier :: "AcseConnection \<Rightarrow> bytes \<Rightarrow> nat \<Rightarrow> nat \<Rightarrow> AcseConnection option" where
  "calling_ae_qualifier self buffer bufPos len = do {
     b \<leftarrow> rd buffer bufPos;
     if b = 0x02 then do {
       innerLength \<leftarrow> rd buffer (bufPos + 1);
       if int (unat innerLength) = int len - 2 then do {
         q \<leftarrow> BerDecoder_decodeInt32 buffer (unat innerLength) (bufPos + 2);
         Some (self\<lparr>ac_applicationReference := (ac_applicationReference self)\<lparr>ar_aeQualifier := q\<rparr>\<rparr>) }
       else Some self }
     else Some self }"

definition finish_aarq :: "AcseConnection \<Rightarrow> bytes option \<Rightarrow> bytes option \<Rightarrow> bool \<Rightarrow> AcseIndication \<times> AcseConnection" where
  "finish_aarq self authMechanism authValue userInfoValid =
     (let (ok, self) = checkAuthentication self authMechanism authValue
      in (if \<not> ok then ACSE_ASSOCIATE_FAILED else if \<not> userInfoValid then ACSE_ASSOCIATE_FAILED else ACSE_ASSOCIATE, self))"

function aarq_loop ::
    "AcseConnection \<Rightarrow> bytes \<Rightarrow> nat \<Rightarrow> nat \<Rightarrow> nat \<Rightarrow> bytes option \<Rightarrow> bytes option \<Rightarrow> bool \<Rightarrow> (AcseIndication \<times> AcseConnection) option" where
  "aarq_loop self buffer base bufPos maxBufPos authMechanism authValue userInfoValid =
     (if bufPos < maxBufPos then do {
        tag \<leftarrow> rd buffer bufPos;
        r \<leftarrow> BerDecoder_decodeLength buffer (bufPos + 1) maxBufPos;
        case r of
          LenErr \<Rightarrow> Some (ACSE_ASSOCIATE_FAILED, self)
        | LenOk bufPos len \<Rightarrow>
            if len = 0 then aarq_loop self buffer base bufPos maxBufPos authMechanism authValue userInfoValid
            else if tag = 0xa6 then do {
              self \<leftarrow> calling_ap_title self buffer bufPos len;
              aarq_loop self buffer base (bufPos + len) maxBufPos authMechanism authValue userInfoValid }
            else if tag = 0xa7 then do {
              self \<leftarrow> calling_ae_qualifier self buffer bufPos len;
              aarq_loop self buffer base (bufPos + len) maxBufPos authMechanism authValue userInfoValid }
            else if tag = 0x8b then do {
              name \<leftarrow> rdn buffer bufPos len;
              aarq_loop self buffer base (bufPos + len) maxBufPos (Some name) authValue userInfoValid }
            else if tag = 0xac then do {
              r \<leftarrow> BerDecoder_decodeLength buffer (bufPos + 1) maxBufPos;
              case r of
                LenErr \<Rightarrow> Some (ACSE_ASSOCIATE_FAILED, self)
              | LenOk bufPos len \<Rightarrow> do {
                  val \<leftarrow> rdn buffer bufPos len;
                  aarq_loop self buffer base (bufPos + len) maxBufPos authMechanism (Some val) userInfoValid } }
            else if tag = 0xbe then do {
              (p, userInfoValid, self) \<leftarrow> user_information self buffer base bufPos len maxBufPos userInfoValid;
              case p of
                None \<Rightarrow> Some (ACSE_ASSOCIATE_FAILED, self)
              | Some bufPos \<Rightarrow> aarq_loop self buffer base bufPos maxBufPos authMechanism authValue userInfoValid }
            else if tag = 0x00 then aarq_loop self buffer base bufPos maxBufPos authMechanism authValue userInfoValid
            else aarq_loop self buffer base (bufPos + len) maxBufPos authMechanism authValue userInfoValid }
      else Some (finish_aarq self authMechanism authValue userInfoValid))"
  by pat_completeness auto
termination
  by (relation "measure (\<lambda>(_, _, _, bufPos, maxBufPos, _). maxBufPos - bufPos)") (auto dest!: decodeLength_bounds user_information_pos)

declare aarq_loop.simps [simp del]

definition parseAarqPdu :: "AcseConnection \<Rightarrow> bytes \<Rightarrow> nat \<Rightarrow> nat \<Rightarrow> nat \<Rightarrow> (AcseIndication \<times> AcseConnection) option" where
  "parseAarqPdu self buffer base bufPos maxBufPos = aarq_loop self buffer base bufPos maxBufPos None None False"

definition AcseConnection_parseMessage :: "AcseConnection \<Rightarrow> bytes \<Rightarrow> slice \<Rightarrow> (AcseIndication \<times> AcseConnection) option" where
  "AcseConnection_parseMessage self buffer message =
     (if sl_size message < 1 then Some (ACSE_ERROR, self)
      else do {
        let base = sl_pos message;
        let maxBufPos = base + nat (sl_size message);
        messageType \<leftarrow> rd buffer base;
        r \<leftarrow> BerDecoder_decodeLength buffer (base + 1) maxBufPos;
        case r of
          LenErr \<Rightarrow> Some (ACSE_ERROR, self)
        | LenOk bufPos len \<Rightarrow>
            if messageType = 0x60 then parseAarqPdu self buffer base bufPos maxBufPos
            else if messageType = 0x61 then parseAarePdu self buffer base bufPos maxBufPos
            else if messageType = 0x62 then Some (ACSE_RELEASE_REQUEST, self)
            else if messageType = 0x63 then Some (ACSE_RELEASE_RESPONSE, self)
            else if messageType = 0x64 then Some (ACSE_ABORT, self)
            else Some (ACSE_ERROR, self) })"

subsection \<open>Creating\<close>

text \<open>A payload that is the null pointer fails the assertion.\<close>

definition AcseConnection_createAssociateResponseMessage ::
    "AcseConnection \<Rightarrow> u8 \<Rightarrow> bytes \<Rightarrow> BufferChain option \<Rightarrow> BufferChain option" where
  "AcseConnection_createAssociateResponseMessage self acseResult buffer payload = do {
     payload \<leftarrow> payload;
     let fixedContentLength = 9 + 5 + (5 :: nat);
     let payloadLength = bc_length payload;
     let nextRefLength = BerEncoder_UInt32determineEncodedSize (ac_nextReference self);
     let assocDataLength = payloadLength + 1 + BerEncoder_determineLengthSize payloadLength + nextRefLength + 2;
     let userInfoLength = assocDataLength + BerEncoder_determineLengthSize assocDataLength + 1;
     let variableContentLength = userInfoLength + BerEncoder_determineLengthSize userInfoLength + 1 + 2;
     let contentLength = fixedContentLength + variableContentLength;
     (buffer, bufPos) \<leftarrow> BerEncoder_encodeTL 0x61 contentLength buffer 0;
     (buffer, bufPos) \<leftarrow> BerEncoder_encodeTL 0xa1 7 buffer bufPos;
     (buffer, bufPos) \<leftarrow> BerEncoder_encodeTL 0x06 5 buffer bufPos;
     (buffer, bufPos) \<leftarrow> puts appContextNameMms buffer bufPos;
     (buffer, bufPos) \<leftarrow> BerEncoder_encodeTL 0xa2 3 buffer bufPos;
     (buffer, bufPos) \<leftarrow> BerEncoder_encodeTL 0x02 1 buffer bufPos;
     (buffer, bufPos) \<leftarrow> put acseResult buffer bufPos;
     (buffer, bufPos) \<leftarrow> BerEncoder_encodeTL 0xa3 5 buffer bufPos;
     (buffer, bufPos) \<leftarrow> BerEncoder_encodeTL 0xa1 3 buffer bufPos;
     (buffer, bufPos) \<leftarrow> BerEncoder_encodeTL 0x02 1 buffer bufPos;
     (buffer, bufPos) \<leftarrow> put 0 buffer bufPos;
     (buffer, bufPos) \<leftarrow> BerEncoder_encodeTL 0xbe userInfoLength buffer bufPos;
     (buffer, bufPos) \<leftarrow> BerEncoder_encodeTL 0x28 assocDataLength buffer bufPos;
     (buffer, bufPos) \<leftarrow> BerEncoder_encodeTL 0x02 nextRefLength buffer bufPos;
     (buffer, bufPos) \<leftarrow> BerEncoder_encodeUInt32 (ac_nextReference self) buffer bufPos;
     (buffer, bufPos) \<leftarrow> BerEncoder_encodeTL 0xa0 payloadLength buffer bufPos;
     Some (chain_front (take bufPos buffer) payload) }"

definition AcseConnection_createAssociateFailedMessage :: "AcseConnection \<Rightarrow> bytes \<Rightarrow> BufferChain option" where
  "AcseConnection_createAssociateFailedMessage self buffer = AcseConnection_createAssociateResponseMessage self 1 buffer None"

text \<open>One application title with its qualifier, absent when the title is empty: its size in the content, and how it is written.\<close>

definition application_title_size :: "int \<Rightarrow> u32 \<Rightarrow> nat" where
  "application_title_size titleLen qualifier =
     (if 0 < titleLen then (4 + nat titleLen) + (4 + BerEncoder_UInt32determineEncodedSize qualifier) else 0)"

definition encode_application_title :: "u8 \<Rightarrow> u8 \<Rightarrow> bytes \<Rightarrow> int \<Rightarrow> u32 \<Rightarrow> writer" where
  "encode_application_title titleTag qualifierTag title titleLen qualifier buffer bufPos =
     (if 0 < titleLen then do {
        let qualifierLength = BerEncoder_UInt32determineEncodedSize qualifier;
        (buffer, bufPos) \<leftarrow> BerEncoder_encodeTL titleTag (nat titleLen + 2) buffer bufPos;
        (buffer, bufPos) \<leftarrow> BerEncoder_encodeTL 0x06 (nat titleLen) buffer bufPos;
        octets \<leftarrow> rdn title 0 (nat titleLen);
        (buffer, bufPos) \<leftarrow> puts octets buffer bufPos;
        (buffer, bufPos) \<leftarrow> BerEncoder_encodeTL qualifierTag (qualifierLength + 2) buffer bufPos;
        (buffer, bufPos) \<leftarrow> BerEncoder_encodeTL 0x02 qualifierLength buffer bufPos;
        BerEncoder_encodeUInt32 qualifier buffer bufPos }
      else Some (buffer, bufPos))"

text \<open>The authentication: 11 octets are counted for a mechanism other than a password, of which only four are written.\<close>

definition authentication_size :: "AcseAuthenticationParameter option \<Rightarrow> nat option" where
  "authentication_size authParameter =
     (case authParameter of
        None \<Rightarrow> Some 0
      | Some p \<Rightarrow>
          if ap_mechanism p = ACSE_AUTH_PASSWORD then do {
            password \<leftarrow> ap_password p;
            let passwordLength = length password;
            let authValueStringLength = BerEncoder_determineLengthSize passwordLength;
            let authValueLength = BerEncoder_determineLengthSize (passwordLength + authValueStringLength + 1);
            Some (4 + 5 + 2 + (passwordLength + authValueStringLength) + authValueLength) }
          else Some (4 + 5 + 2))"

definition encode_authentication :: "AcseAuthenticationParameter option \<Rightarrow> writer" where
  "encode_authentication authParameter buffer bufPos =
     (case authParameter of
        None \<Rightarrow> Some (buffer, bufPos)
      | Some p \<Rightarrow> do {
          (buffer, bufPos) \<leftarrow> BerEncoder_encodeTL 0x8a 2 buffer bufPos;
          (buffer, bufPos) \<leftarrow> put 0x04 buffer bufPos;
          if ap_mechanism p = ACSE_AUTH_PASSWORD then do {
            password \<leftarrow> ap_password p;
            let passwordLength = length password;
            (buffer, bufPos) \<leftarrow> put 0x80 buffer bufPos;
            (buffer, bufPos) \<leftarrow> BerEncoder_encodeTL 0x8b 3 buffer bufPos;
            (buffer, bufPos) \<leftarrow> puts auth_mech_password_oid buffer bufPos;
            (buffer, bufPos) \<leftarrow> BerEncoder_encodeTL 0xac (BerEncoder_determineLengthSize passwordLength + passwordLength + 1) buffer bufPos;
            (buffer, bufPos) \<leftarrow> BerEncoder_encodeTL 0x80 passwordLength buffer bufPos;
            puts password buffer bufPos }
          else put 0 buffer bufPos })"

definition AcseConnection_createAssociateRequestMessage ::
    "IsoConnectionParameters \<Rightarrow> bytes \<Rightarrow> BufferChain \<Rightarrow> AcseAuthenticationParameter option \<Rightarrow> BufferChain option" where
  "AcseConnection_createAssociateRequestMessage isoParameters buffer payload authParameter = do {
     let payloadLength = bc_length payload;
     authLength \<leftarrow> authentication_size authParameter;
     let assocDataLength = payloadLength + 1 + BerEncoder_determineLengthSize payloadLength + 1 + 2;
     let userInfoLen = assocDataLength + BerEncoder_determineLengthSize assocDataLength + 1;
     let contentLength = 9 + application_title_size (ip_remoteApTitleLen isoParameters) (ip_remoteAEQualifier isoParameters)
       + application_title_size (ip_localApTitleLen isoParameters) (ip_localAEQualifier isoParameters) + authLength
       + (userInfoLen + BerEncoder_determineLengthSize userInfoLen + 1);
     (buffer, bufPos) \<leftarrow> BerEncoder_encodeTL 0x60 contentLength buffer 0;
     (buffer, bufPos) \<leftarrow> BerEncoder_encodeTL 0xa1 7 buffer bufPos;
     (buffer, bufPos) \<leftarrow> BerEncoder_encodeTL 0x06 5 buffer bufPos;
     (buffer, bufPos) \<leftarrow> puts appContextNameMms buffer bufPos;
     (buffer, bufPos) \<leftarrow> encode_application_title 0xa2 0xa3 (ip_remoteApTitle isoParameters) (ip_remoteApTitleLen isoParameters)
       (ip_remoteAEQualifier isoParameters) buffer bufPos;
     (buffer, bufPos) \<leftarrow> encode_application_title 0xa6 0xa7 (ip_localApTitle isoParameters) (ip_localApTitleLen isoParameters)
       (ip_localAEQualifier isoParameters) buffer bufPos;
     (buffer, bufPos) \<leftarrow> encode_authentication authParameter buffer bufPos;
     (buffer, bufPos) \<leftarrow> BerEncoder_encodeTL 0xbe userInfoLen buffer bufPos;
     (buffer, bufPos) \<leftarrow> BerEncoder_encodeTL 0x28 assocDataLength buffer bufPos;
     (buffer, bufPos) \<leftarrow> BerEncoder_encodeTL 0x02 1 buffer bufPos;
     (buffer, bufPos) \<leftarrow> put 3 buffer bufPos;
     (buffer, bufPos) \<leftarrow> BerEncoder_encodeTL 0xa0 payloadLength buffer bufPos;
     Some (chain_front (take bufPos buffer) payload) }"

definition AcseConnection_createAbortMessage :: "bytes \<Rightarrow> bool \<Rightarrow> BufferChain option" where
  "AcseConnection_createAbortMessage buffer isProvider = do {
     (buffer, bufPos) \<leftarrow> puts [0x64, 3, 0x80, 1, if isProvider then 1 else 0] buffer 0;
     Some \<lparr>bc_length = 5, bc_parts = [take 5 buffer]\<rparr> }"

definition AcseConnection_createReleaseRequestMessage :: "bytes \<Rightarrow> BufferChain option" where
  "AcseConnection_createReleaseRequestMessage buffer = do {
     (buffer, bufPos) \<leftarrow> puts [0x62, 3, 0x80, 1, 0] buffer 0;
     Some \<lparr>bc_length = 5, bc_parts = [take 5 buffer]\<rparr> }"

definition AcseConnection_createReleaseResponseMessage :: "bytes \<Rightarrow> BufferChain option" where
  "AcseConnection_createReleaseResponseMessage buffer = do {
     (buffer, bufPos) \<leftarrow> puts [0x63, 0] buffer 0;
     Some \<lparr>bc_length = 2, bc_parts = [take 2 buffer]\<rparr> }"

end
