(* ===== verification/PresentationPdu.thy ===== *)
theory PresentationPdu
  imports IsoPresentation
begin

text \<open>
  The PDUs of the presentation layer: what is created, and that it is parsed back to what was put in.
\<close>

subsection \<open>What is created\<close>

text \<open>The header in front of a payload of \<open>n\<close> octets, and the element it starts.\<close>

definition pdv_header :: "u8 \<Rightarrow> nat \<Rightarrow> bytes" where
  "pdv_header ctx n =
     (let l = 4 + length (ber_len n) + n; f = 1 + length (ber_len l) + l
      in (0x61 # ber_len f) @ (0x30 # ber_len l) @ [2, 1, ctx] @ (0xa0 # ber_len n))"

definition pdv :: "u8 \<Rightarrow> bytes \<Rightarrow> bytes" where
  "pdv ctx xs = ber_tlv 0x61 (ber_tlv 0x30 ([2, 1, ctx] @ ber_tlv 0xa0 xs))"

lemma pdv_header_append: "length xs = n \<Longrightarrow> pdv_header ctx n @ xs = pdv ctx xs"
  by (simp add: pdv_header_def pdv_def ber_tlv_def Let_def eval_nat_numeral)

lemma ber_len_le [simp]: "length (ber_len n) \<le> 4"
  by (simp add: length_ber_len)

lemma length_pdv_header: "length (pdv_header ctx n) \<le> 18"
  using ber_len_le [of n] ber_len_le [of "4 + length (ber_len n) + n"]
    ber_len_le [of "1 + length (ber_len (4 + length (ber_len n) + n)) + (4 + length (ber_len n) + n)"]
  by (simp add: pdv_header_def Let_def del: ber_len_le)

lemma user_data_lengths:
  assumes "n \<le> 65400"
  shows "encodedDataSetLength n = 4 + length (ber_len n) + n"
    and "fullyEncodedDataLength n = 1 + length (ber_len (4 + length (ber_len n) + n)) + (4 + length (ber_len n) + n)"
    and "encodeUserData_size n = length (pdv_header ctx n) + n"
proof -
  let ?l = "4 + length (ber_len n) + n"
  let ?f = "1 + length (ber_len ?l) + ?l"
  have le: "length (ber_len n) \<le> 4" "length (ber_len ?l) \<le> 4" by simp_all
  then have ne: "n \<noteq> 65535" "?l \<noteq> 65535" "?f \<noteq> 65535" using assms by linarith+
  show 1: "encodedDataSetLength n = ?l" using ne(1) by (simp add: encodedDataSetLength_def determineLengthSize_eq)
  show 2: "fullyEncodedDataLength n = ?f" using ne(2) by (simp add: fullyEncodedDataLength_def 1 determineLengthSize_eq)
  show "encodeUserData_size n = length (pdv_header ctx n) + n"
    using ne(3) by (simp add: encodeUserData_size_def 2 determineLengthSize_eq pdv_header_def Let_def)
qed

lemma encodeUserData_puts: "n \<le> 65400 \<Longrightarrow> encodeUserData n ctx = puts (pdv_header ctx n)"
proof (intro ext)
  fix buf pos assume "n \<le> 65400"
  note l = user_data_lengths(1,2) [OF this]
  show "encodeUserData n ctx buf pos = puts (pdv_header ctx n) buf pos"
    by (simp add: encodeUserData_def l writer_simps puts_bind_assoc pdv_header_def Let_def)
       (simp add: ber_len_def [of "Suc 0"])
qed

lemma chain_written:
  assumes "length xs \<le> length buf"
  shows "do { (b, p) \<leftarrow> puts xs buf 0; Some (chain_front (take p b) q) } = Some (chain_front xs q)"
  using assms by (simp add: puts_fits take_overlay_0)

lemma create_user_data_eq:
  assumes "bc_length p \<le> 65400" and "18 \<le> length buf"
  shows "create_user_data ctx buf p = Some (chain_front (pdv_header ctx (bc_length p)) p)"
proof -
  let ?n = "bc_length p"
  have le: "length (ber_len ?n) \<le> 4" "length (ber_len (?n + (length (ber_len ?n) + 4))) \<le> 4" by simp_all
  then have ne: "?n \<noteq> 65535" "?n + (length (ber_len ?n) + 4) \<noteq> 65535" using assms(1) by linarith+
  have "create_user_data ctx buf p = do { (b, pos) \<leftarrow> puts (pdv_header ctx ?n) buf 0; Some (chain_front (take pos b) p) }"
    unfolding create_user_data_def Let_def determineLengthSize_eq [OF ne(1)] determineLengthSize_eq [OF ne(2)]
    by (simp add: writer_simps puts_bind_assoc pdv_header_def Let_def ac_simps)
  also have "\<dots> = Some (chain_front (pdv_header ctx ?n) p)"
    using length_pdv_header [of ctx ?n] assms(2) by (intro chain_written) simp
  finally show ?thesis .
qed

definition psel_ok :: "PSelector \<Rightarrow> bool" where
  "psel_ok s \<longleftrightarrow> ps_size s \<le> 16 \<and> length (ps_value s) = 16"

definition pselector :: "PSelector \<Rightarrow> bytes" where
  "pselector s = take (ps_size s) (ps_value s)"

lemma length_pselector [simp]: "psel_ok s \<Longrightarrow> length (pselector s) = ps_size s"
  by (simp add: pselector_def psel_ok_def)

definition context_item :: "u8 \<Rightarrow> bytes \<Rightarrow> bytes" where
  "context_item i name = ber_tlv 0x30 ([2, 1, i] @ ber_tlv 0x06 name @ ber_tlv 0x30 (ber_tlv 0x06 ber_id))"

definition context_list :: bytes where
  "context_list = context_item 1 asn_id_as_acse @ context_item 3 asn_id_mms"

definition normal_parameters :: "IsoPresentation \<Rightarrow> bytes" where
  "normal_parameters s = ber_tlv 0x81 (pselector (pr_callingPresentationSelector s))
     @ ber_tlv 0x82 (pselector (pr_calledPresentationSelector s)) @ ber_tlv 0xa4 context_list"

definition mode_item :: bytes where
  "mode_item = [0xa0, 3, 0x80, 1, 1]"

text \<open>A message in normal mode: its parameters and the user data.\<close>

definition normal_header :: "bytes \<Rightarrow> u8 \<Rightarrow> nat \<Rightarrow> bytes" where
  "normal_header params ctx n =
     (let m = length params + (length (pdv_header ctx n) + n); c = 6 + length (ber_len m) + m
      in (0x31 # ber_len c) @ mode_item @ (0xa2 # ber_len m) @ params @ pdv_header ctx n)"

definition normal_pdu :: "bytes \<Rightarrow> u8 \<Rightarrow> bytes \<Rightarrow> bytes" where
  "normal_pdu params ctx xs = ber_tlv 0x31 (mode_item @ ber_tlv 0xa2 (params @ pdv ctx xs))"

lemma normal_header_append: "length xs = n \<Longrightarrow> normal_header params ctx n @ xs = normal_pdu params ctx xs"
proof -
  assume n: "length xs = n"
  note p = pdv_header_append [OF n, of ctx]
  then have "length (pdv ctx xs) = length (pdv_header ctx n) + n" using n by (metis length_append)
  then show ?thesis unfolding normal_header_def normal_pdu_def ber_tlv_def Let_def p [symmetric] using n
    by (simp add: mode_item_def eval_nat_numeral)
qed

definition cpa_parameters :: bytes where
  "cpa_parameters = ber_tlv 0x83 calledPresentationSelector @ ber_tlv 0xa5 ([0x30, 7, 0x80, 1, 0, 0x81, 2, 0x51, 1] @ [0x30, 7, 0x80, 1, 0, 0x81, 2, 0x51, 1])"

lemma ber_len_small: "n < 128 \<Longrightarrow> ber_len n = [word_of_nat n]"
  by (simp add: ber_len_def)

lemma encodeAcceptBer_puts: "encodeAcceptBer = puts [0x30, 7, 0x80, 1, 0, 0x81, 2, 0x51, 1]"
  by (intro ext) (simp add: encodeAcceptBer_def writer_simps ber_len_small)

lemma encode_psel_puts: "psel_ok s \<Longrightarrow> encode_psel tag s = puts (ber_tlv tag (pselector s))"
  by (intro ext) (simp add: encode_psel_def writer_simps puts_bind_assoc pselector_def psel_ok_def rdn_in ber_tlv_def min_absorb2)

lemma encode_context_puts:
  "encode_context 15 1 asn_id_as_acse = puts (context_item 1 asn_id_as_acse)"
  "encode_context 16 3 asn_id_mms = puts (context_item 3 asn_id_mms)"
  by (intro ext; simp add: encode_context_def writer_simps puts_bind_assoc ber_tlv_def context_item_def ber_len_small
    asn_id_as_acse_def asn_id_mms_def ber_id_def)+

lemma length_context_list: "length context_list = 35"
  by (simp add: context_list_def context_item_def ber_tlv_def ber_len_small asn_id_as_acse_def asn_id_mms_def ber_id_def)

lemma length_normal_parameters:
  assumes "psel_ok (pr_callingPresentationSelector s)" "psel_ok (pr_calledPresentationSelector s)"
  shows "length (normal_parameters s) = 41 + ps_size (pr_callingPresentationSelector s) + ps_size (pr_calledPresentationSelector s)"
  using assms by (simp add: normal_parameters_def ber_tlv_def length_context_list length_ber_len psel_ok_def)

lemma length_normal_header: "length (normal_header params ctx n) \<le> 15 + length params + length (pdv_header ctx n)"
proof -
  let ?m = "length params + (length (pdv_header ctx n) + n)"
  have "length (ber_len ?m) \<le> 4" "length (ber_len (6 + length (ber_len ?m) + ?m)) \<le> 4" by simp_all
  then show ?thesis by (simp add: normal_header_def Let_def mode_item_def del: ber_len_le)
qed

lemma createConnectPdu_eq:
  assumes sel: "psel_ok (pr_callingPresentationSelector s)" "psel_ok (pr_calledPresentationSelector s)" and n: "bc_length p \<le> 65400" and buf: "150 \<le> length buf"
  shows "createConnectPdu s buf p = Some (chain_front (normal_header (normal_parameters s) (pr_acseContextId s) (bc_length p)) p)"
proof -
  let ?n = "bc_length p" and ?ctx = "pr_acseContextId s"
  let ?m = "length (normal_parameters s) + (length (pdv_header ?ctx ?n) + ?n)"
  let ?c = "6 + length (ber_len ?m) + ?m"
  have len: "length (normal_parameters s) \<le> 73" using sel by (simp add: length_normal_parameters psel_ok_def)
  have m: "12 + (27 + ps_size (pr_callingPresentationSelector s) + ps_size (pr_calledPresentationSelector s)) + encodeUserData_size ?n + 2 = ?m"
    using user_data_lengths(3) [OF n, of ?ctx] by (simp add: length_normal_parameters [OF sel])
  have "?m \<noteq> 65535" using len n length_pdv_header [of ?ctx ?n] by linarith
  then have c: "5 + ?m + (1 + BerEncoder_determineLengthSize ?m) = ?c" by (simp add: determineLengthSize_eq)
  have "createConnectPdu s buf p = do {
     (buffer, bufPos) \<leftarrow> puts (0x31 # ber_len ?c) buf 0;
     (buffer, bufPos) \<leftarrow> puts (0xa0 # ber_len 3) buffer bufPos;
     (buffer, bufPos) \<leftarrow> puts (0x80 # ber_len 1) buffer bufPos;
     (buffer, bufPos) \<leftarrow> puts [1] buffer bufPos;
     (buffer, bufPos) \<leftarrow> puts (0xa2 # ber_len ?m) buffer bufPos;
     (buffer, bufPos) \<leftarrow> puts (ber_tlv 0x81 (pselector (pr_callingPresentationSelector s))) buffer bufPos;
     (buffer, bufPos) \<leftarrow> puts (ber_tlv 0x82 (pselector (pr_calledPresentationSelector s))) buffer bufPos;
     (buffer, bufPos) \<leftarrow> puts (0xa4 # ber_len 35) buffer bufPos;
     (buffer, bufPos) \<leftarrow> puts (context_item 1 asn_id_as_acse) buffer bufPos;
     (buffer, bufPos) \<leftarrow> puts (context_item 3 asn_id_mms) buffer bufPos;
     (buffer, bufPos) \<leftarrow> puts (pdv_header ?ctx ?n) buffer bufPos;
     Some (chain_front (take bufPos buffer) p) }"
    unfolding createConnectPdu_def Let_def m c encodeTL_writes put_eq_puts encode_psel_puts [OF sel(1)] encode_psel_puts [OF sel(2)]
      encode_context_puts encodeUserData_puts [OF n] ..
  also have "\<dots> = do { (b, pos) \<leftarrow> puts (normal_header (normal_parameters s) ?ctx ?n) buf 0; Some (chain_front (take pos b) p) }"
  proof -
    have params: "normal_parameters s = ber_tlv 0x81 (pselector (pr_callingPresentationSelector s))
      @ ber_tlv 0x82 (pselector (pr_calledPresentationSelector s)) @ (0xa4 # ber_len 35) @ context_item 1 asn_id_as_acse @ context_item 3 asn_id_mms"
      unfolding normal_parameters_def ber_tlv_def [of "0xa4"] length_context_list by (simp add: context_list_def)
    have "normal_header (normal_parameters s) ?ctx ?n = (0x31 # ber_len ?c) @ (0xa0 # ber_len 3) @ (0x80 # ber_len 1) @ [1] @ (0xa2 # ber_len ?m)
      @ normal_parameters s @ pdv_header ?ctx ?n" by (simp add: normal_header_def Let_def mode_item_def ber_len_small)
    then show ?thesis unfolding params by (simp only: puts_bind_assoc append_assoc)
  qed
  also have "\<dots> = Some (chain_front (normal_header (normal_parameters s) ?ctx ?n) p)"
    using length_normal_header [of "normal_parameters s" ?ctx ?n] length_pdv_header [of ?ctx ?n] len buf by (intro chain_written) linarith
  finally show ?thesis .
qed

lemma createCpaMessage_eq:
  assumes n: "bc_length p \<le> 65400" and buf: "150 \<le> length buf"
  shows "IsoPresentation_createCpaMessage s buf p = Some (chain_front (normal_header cpa_parameters (pr_acseContextId s) (bc_length p)) p)"
proof -
  let ?n = "bc_length p" and ?ctx = "pr_acseContextId s"
  let ?m = "length cpa_parameters + (length (pdv_header ?ctx ?n) + ?n)"
  let ?c = "6 + length (ber_len ?m) + ?m"
  have len: "length cpa_parameters = 26" by (simp add: cpa_parameters_def ber_tlv_def ber_len_small calledPresentationSelector_def)
  have m: "6 + 20 + encodeUserData_size ?n = ?m" using user_data_lengths(3) [OF n, of ?ctx] len by simp
  have "?m \<noteq> 65535" using len n length_pdv_header [of ?ctx ?n] by linarith
  then have c: "5 + ?m + (BerEncoder_determineLengthSize ?m + 1) = ?c" by (simp add: determineLengthSize_eq)
  have "IsoPresentation_createCpaMessage s buf p = do {
     (buffer, bufPos) \<leftarrow> puts (0x31 # ber_len ?c) buf 0;
     (buffer, bufPos) \<leftarrow> puts (0xa0 # ber_len 3) buffer bufPos;
     (buffer, bufPos) \<leftarrow> puts (0x80 # ber_len 1) buffer bufPos;
     (buffer, bufPos) \<leftarrow> puts [1] buffer bufPos;
     (buffer, bufPos) \<leftarrow> puts (0xa2 # ber_len ?m) buffer bufPos;
     (buffer, bufPos) \<leftarrow> puts (0x83 # ber_len 4) buffer bufPos;
     (buffer, bufPos) \<leftarrow> puts calledPresentationSelector buffer bufPos;
     (buffer, bufPos) \<leftarrow> puts (0xa5 # ber_len 18) buffer bufPos;
     (buffer, bufPos) \<leftarrow> puts [0x30, 7, 0x80, 1, 0, 0x81, 2, 0x51, 1] buffer bufPos;
     (buffer, bufPos) \<leftarrow> puts [0x30, 7, 0x80, 1, 0, 0x81, 2, 0x51, 1] buffer bufPos;
     (buffer, bufPos) \<leftarrow> puts (pdv_header ?ctx ?n) buffer bufPos;
     Some (chain_front (take bufPos buffer) p) }"
    unfolding IsoPresentation_createCpaMessage_def Let_def m c encodeTL_writes put_eq_puts encodeAcceptBer_puts encodeUserData_puts [OF n] ..
  also have "\<dots> = do { (b, pos) \<leftarrow> puts (normal_header cpa_parameters ?ctx ?n) buf 0; Some (chain_front (take pos b) p) }"
    unfolding normal_header_def Let_def
    by (simp add: puts_bind_assoc cpa_parameters_def ber_tlv_def calledPresentationSelector_def mode_item_def ber_len_small)
  also have "\<dots> = Some (chain_front (normal_header cpa_parameters ?ctx ?n) p)"
    using length_normal_header [of cpa_parameters ?ctx ?n] length_pdv_header [of ?ctx ?n] len buf by (intro chain_written) linarith
  finally show ?thesis .
qed

subsection \<open>Elements\<close>

text \<open>An element at a position, as the parsers read it.\<close>

lemma element:
  assumes d: "drop pos buf = ber_tlv tag xs @ zs" and "length xs < 2 ^ 24" and "pos + length (ber_tlv tag xs) \<le> e" and "e < 2 ^ 31"
  obtains q where "rd buf pos = Some tag" "BerDecoder_decodeLength buf (pos + 1) e = Some (LenOk q (length xs))"
    "q + length xs = pos + length (ber_tlv tag xs)" "drop q buf = xs @ zs" "drop (pos + length (ber_tlv tag xs)) buf = zs" "pos + 1 < q"
proof -
  let ?q = "pos + 1 + length (ber_len (length xs))"
  have d1: "drop (pos + 1) buf = ber_len (length xs) @ (xs @ zs)"
    using d drop_append_drop [of pos buf "[tag]"] by (simp add: ber_tlv_def)
  have "rd buf pos = Some tag" using rd_drop_nth [OF d, of 0] by (simp add: ber_tlv_def)
  moreover have "BerDecoder_decodeLength buf (pos + 1) e = Some (LenOk ?q (length xs))"
    using decodeLength_ber_len [OF d1 assms(2) _ assms(4)] assms(3) by (simp add: length_ber_tlv)
  moreover have "0 < length (ber_len (length xs))" by (simp add: length_ber_len)
  ultimately show ?thesis using drop_append_drop [OF d1] drop_append_drop [OF d]
    by (intro that [of ?q]) (simp_all add: length_ber_tlv)
qed

lemma octet_element: "[t, 1, x] = ber_tlv t [x]"
  by (simp add: ber_tlv_def ber_len_small)

lemma decodeUint32_octet: "drop pos buf = x # zs \<Longrightarrow> BerDecoder_decodeUint32 buf (Suc 0) pos = Some (ucast x)"
  using decodeUint32_be [of pos buf "[x]" zs] be_nat_snoc [of "[]" x] by simp

lemma ucast_up_down [simp]: "(ucast (ucast (x :: u8) :: u32) :: u8) = x"
  by (rule bit_word_eqI) (auto simp: bit_unsigned_iff dest: bit_imp_le_length)

text \<open>What the payload of a PDU looks like to the next layer.\<close>

definition has_payload :: "bytes \<Rightarrow> slice \<Rightarrow> bytes \<Rightarrow> bool" where
  "has_payload buf sl xs \<longleftrightarrow> sl_size sl = int (length xs) \<and> take (length xs) (drop (sl_pos sl) buf) = xs"

lemma fed_loop_pdv:
  assumes d: "drop pos buf = ber_tlv 0x02 [ctx] @ ber_tlv 0xa0 xs @ zs" and xs: "length xs < 2 ^ 24"
    and e: "e = pos + length (ber_tlv 0x02 [ctx] @ ber_tlv 0xa0 xs)" "e < 2 ^ 31"
  shows "\<exists>sl. fed_loop s buf pos e False = Some (Some e, s\<lparr>pr_nextContextId := ctx, pr_nextPayload := sl\<rparr>) \<and> has_payload buf sl xs"
proof -
  obtain q where q: "rd buf pos = Some 0x02" "BerDecoder_decodeLength buf (pos + 1) e = Some (LenOk q (length [ctx]))"
    "q + length [ctx] = pos + length (ber_tlv 0x02 [ctx])" "drop q buf = [ctx] @ (ber_tlv 0xa0 xs @ zs)"
    "drop (pos + length (ber_tlv 0x02 [ctx])) buf = ber_tlv 0xa0 xs @ zs" "pos + 1 < q"
    by (rule element [OF d _ _ e(2)]) (use e(1) in auto)
  let ?p = "pos + length (ber_tlv 0x02 [ctx])" and ?s = "s\<lparr>pr_nextContextId := ctx\<rparr>"
  have pos: "pos < e" "?p < e" using e(1) by (simp_all add: ber_tlv_def)
  have 1: "fed_loop s buf pos e False = fed_loop ?s buf ?p e False"
    using q pos decodeUint32_octet [of q buf ctx] by (subst fed_loop.simps) simp
  obtain r where r: "rd buf ?p = Some 0xa0" "BerDecoder_decodeLength buf (?p + 1) e = Some (LenOk r (length xs))"
    "r + length xs = ?p + length (ber_tlv 0xa0 xs)" "drop r buf = xs @ zs"
    by (rule element [OF q(5) xs _ e(2)]) (use e(1) in auto)
  let ?sl = "(pr_nextPayload s)\<lparr>sl_pos := r, sl_size := int (length xs)\<rparr>"
  have "r + length xs = e" using r(3) e(1) by simp
  then have "fed_loop ?s buf ?p e False = fed_loop (?s\<lparr>pr_nextPayload := ?sl\<rparr>) buf e e True"
    using r(1,2) pos by (subst fed_loop.simps) simp
  also have "\<dots> = Some (Some e, ?s\<lparr>pr_nextPayload := ?sl\<rparr>)" by (subst fed_loop.simps) simp
  finally show ?thesis using 1 r(4) by (auto simp: has_payload_def)
qed

lemma parseFullyEncodedData_pdv:
  assumes d: "drop pos buf = ber_tlv 0x30 ([2, 1, ctx] @ ber_tlv 0xa0 xs) @ zs" and xs: "length xs \<le> 65400"
    and len: "len = length (ber_tlv 0x30 ([2, 1, ctx] @ ber_tlv 0xa0 xs))" "pos + len < 2 ^ 31"
  shows "\<exists>sl. parseFullyEncodedData s buf len pos = Some (Some (pos + len), s\<lparr>pr_nextContextId := ctx, pr_nextPayload := sl\<rparr>)
    \<and> has_payload buf sl xs"
proof -
  let ?c = "[2, 1, ctx] @ ber_tlv 0xa0 xs"
  have c: "length ?c < 2 ^ 24" using xs ber_len_le [of "length xs"] by (simp add: length_ber_tlv del: ber_len_le)
  obtain q where q: "rd buf pos = Some 0x30" "BerDecoder_decodeLength buf (pos + 1) (pos + len) = Some (LenOk q (length ?c))"
    "q + length ?c = pos + length (ber_tlv 0x30 ?c)" "drop q buf = ?c @ zs"
    by (rule element [OF d c _ len(2)]) (use len(1) in auto)
  have "drop q buf = ber_tlv 0x02 [ctx] @ ber_tlv 0xa0 xs @ zs" using q(4) octet_element [of 2 ctx] by simp
  from fed_loop_pdv [OF this, of "q + length ?c" s] show ?thesis
    using q(1-3) len xs by (auto simp: parseFullyEncodedData_def Let_def ber_tlv_def [of 2] ber_len_small)
qed

text \<open>The length octet of an element is never that of the indefinite form.\<close>

lemma ber_len_hd: "ber_len n = b # r \<Longrightarrow> b \<noteq> 0x80"
proof -
  assume b: "ber_len n = b # r"
  have "unat (word_of_nat n :: u8) \<noteq> 128" if "n < 128" using that by simp
  moreover have "unat (0x80 :: u8) = 128" by simp
  ultimately have "n < 128 \<Longrightarrow> (word_of_nat n :: u8) \<noteq> 0x80" by metis
  then show ?thesis using b by (auto simp: ber_len_def split: if_splits)
qed

lemma length_octet:
  assumes "drop pos buf = ber_tlv tag xs @ zs"
  obtains b where "rd buf (pos + 1) = Some b" "b \<noteq> 0x80"
proof -
  obtain b r where b: "ber_len (length xs) = b # r" by (cases "ber_len (length xs)") (auto simp: ber_len_def split: if_splits)
  have "rd buf (pos + 1) = Some b" using rd_drop_nth [OF assms, of 1] b by (simp add: ber_tlv_def)
  then show thesis using that ber_len_hd [OF b] by blast
qed

text \<open>
  C15: A message of the presentation layer with user data is parsed back: the context of the payload is the one it was created
  with, and the payload is the message put in, of any size up to 65400 octets.
\<close>

theorem user_data_roundtrip:
  assumes "create_user_data ctx wbuf p = Some q" and "bc_length p = length (concat (bc_parts p))" and "bc_length p \<le> 65400"
    and "18 \<le> length wbuf" and "buf = concat (bc_parts q) @ zs"
  shows "\<exists>sl. IsoPresentation_parseUserData s buf (int (bc_length q)) = Some (True, s\<lparr>pr_nextContextId := ctx, pr_nextPayload := sl\<rparr>)
    \<and> has_payload buf sl (concat (bc_parts p))"
proof -
  let ?xs = "concat (bc_parts p)" and ?c = "[2, 1, ctx] @ ber_tlv 0xa0 (concat (bc_parts p))"
  have q: "concat (bc_parts q) = pdv ctx ?xs" "bc_length q = length (pdv ctx ?xs)"
    using assms(1) create_user_data_eq [OF assms(3,4), of ctx] pdv_header_append [of ?xs "bc_length p" ctx] assms(2)
    by (auto simp: chain_front_def) (metis length_append)
  let ?n = "length (pdv ctx ?xs)"
  have lx: "length ?xs \<le> 65400" "length ?xs < 2 ^ 24" using assms(2,3) by simp_all
  have c: "length ?c < 2 ^ 24" "length (ber_tlv 0x30 ?c) < 2 ^ 24" "?n < 2 ^ 31" "9 \<le> ?n"
    using lx ber_len_le [of "length ?xs"] ber_len_le [of "length ?c"] ber_len_le [of "length (ber_tlv 0x30 ?c)"]
    by (simp_all add: pdv_def length_ber_tlv del: ber_len_le) (simp_all add: length_ber_len)
  have d: "drop 0 buf = ber_tlv 0x61 (ber_tlv 0x30 ?c) @ zs" using assms(5) q(1) by (simp add: pdv_def)
  obtain q1 where q1: "rd buf 0 = Some 0x61" "BerDecoder_decodeLength buf (0 + 1) ?n = Some (LenOk q1 (length (ber_tlv 0x30 ?c)))"
    "q1 + length (ber_tlv 0x30 ?c) = 0 + length (ber_tlv 0x61 (ber_tlv 0x30 ?c))" "drop q1 buf = ber_tlv 0x30 ?c @ zs"
    by (rule element [OF d c(2) _ c(3)]) (auto simp: pdv_def)
  have e1: "q1 + length (ber_tlv 0x30 ?c) = ?n" using q1(3) by (simp add: pdv_def)
  obtain q2 where q2: "rd buf q1 = Some 0x30" "BerDecoder_decodeLength buf (q1 + 1) ?n = Some (LenOk q2 (length ?c))"
    "q2 + length ?c = q1 + length (ber_tlv 0x30 ?c)" "drop q2 buf = ?c @ zs"
    by (rule element [OF q1(4) c(1) _ c(3)]) (use e1 in auto)
  have d3: "drop q2 buf = ber_tlv 0x02 [ctx] @ (ber_tlv 0xa0 ?xs @ zs)" using q2(4) octet_element [of 2 ctx] by simp
  obtain q3 where q3: "rd buf q2 = Some 0x02" "BerDecoder_decodeLength buf (q2 + 1) ?n = Some (LenOk q3 (length [ctx]))"
    "q3 + length [ctx] = q2 + length (ber_tlv 0x02 [ctx])" "drop q3 buf = [ctx] @ (ber_tlv 0xa0 ?xs @ zs)"
    "drop (q2 + length (ber_tlv 0x02 [ctx])) buf = ber_tlv 0xa0 ?xs @ zs"
    by (rule element [OF d3 _ _ c(3)]) (use e1 q2(3) octet_element [of 2 ctx] in auto)
  let ?p = "q2 + length (ber_tlv 0x02 [ctx])" and ?s = "s\<lparr>pr_nextContextId := ctx\<rparr>"
  have p: "?p + length (ber_tlv 0xa0 ?xs) = ?n" using e1 q2(3) octet_element [of 2 ctx] by simp
  then have lt: "q2 < ?n" "?p < ?n" by (simp_all add: ber_tlv_def)
  obtain q4 where q4: "rd buf ?p = Some 0xa0" "BerDecoder_decodeLength buf (?p + 1) ?n = Some (LenOk q4 (length ?xs))" "drop q4 buf = ?xs @ zs"
    by (rule element [OF q3(5) lx(2) _ c(3)]) (use p in auto)
  obtain b1 where b1: "rd buf (q2 + 1) = Some b1" using length_octet [OF d3] by blast
  obtain b2 where b2: "rd buf (?p + 1) = Some b2" "b2 \<noteq> 0x80" using length_octet [OF q3(5)] by blast
  have "rd buf q3 = Some ctx" using rd_drop_nth [of q3 buf "[ctx]" _ 0] q3(4) by simp
  then have "user_data_loop s buf q2 ?n False = user_data_loop ?s buf ?p ?n True"
    using q3(1-3) b1 lt by (subst user_data_loop.simps) simp
  also have "\<dots> = Some (True, ?s\<lparr>pr_nextPayload := \<lparr>sl_pos = q4, sl_size = int (length ?xs), sl_maxSize = int (length ?xs)\<rparr>\<rparr>)"
    using q4 b2 lt by (subst user_data_loop.simps) (simp add: Let_def)
  finally show ?thesis using q q1(1,2) q2(1,2) q4(3) c(4) by (auto simp: IsoPresentation_parseUserData_def Let_def has_payload_def)
qed

subsection \<open>The context definition list\<close>

lemma context_entry:
  assumes d: "drop pos buf = ([2, 1, i] @ ber_tlv 0x06 name @ ber_tlv 0x30 ys) @ zs" and name: "name = asn_id_as_acse \<or> name = asn_id_mms"
    and ys: "length ys < 100" and n: "n = length ([2, 1, i] @ ber_tlv 0x06 name @ ber_tlv 0x30 ys)" "pos + n < 2 ^ 31"
  shows "parsePCDLEntry s buf n pos = Some (Some (pos + n),
    if name = asn_id_mms then s\<lparr>pr_mmsContextId := i\<rparr> else s\<lparr>pr_acseContextId := i\<rparr>)"
proof -
  let ?e = "pos + n"
  have d1: "drop pos buf = ber_tlv 0x02 [i] @ (ber_tlv 0x06 name @ ber_tlv 0x30 ys @ zs)" using d octet_element [of 2 i] by simp
  have ln: "length name = 4 \<or> length name = 5" using name by (auto simp: asn_id_as_acse_def asn_id_mms_def)
  have e: "?e = pos + length (ber_tlv 0x02 [i]) + length (ber_tlv 0x06 name) + length (ber_tlv 0x30 ys)" using n(1) octet_element [of 2 i] by simp
  obtain q where q: "rd buf pos = Some 0x02" "BerDecoder_decodeLength buf (pos + 1) ?e = Some (LenOk q (length [i]))"
    "q + length [i] = pos + length (ber_tlv 0x02 [i])" "drop q buf = [i] @ (ber_tlv 0x06 name @ ber_tlv 0x30 ys @ zs)"
    "drop (pos + length (ber_tlv 0x02 [i])) buf = ber_tlv 0x06 name @ (ber_tlv 0x30 ys @ zs)"
    by (rule element [OF d1 _ _ n(2)]) (use e in auto)
  let ?p = "pos + length (ber_tlv 0x02 [i])"
  obtain r where r: "rd buf ?p = Some 0x06" "BerDecoder_decodeLength buf (?p + 1) ?e = Some (LenOk r (length name))"
    "r + length name = ?p + length (ber_tlv 0x06 name)" "drop r buf = name @ (ber_tlv 0x30 ys @ zs)"
    "drop (?p + length (ber_tlv 0x06 name)) buf = ber_tlv 0x30 ys @ zs"
    by (rule element [OF q(5) _ _ n(2)]) (use e ln in auto)
  let ?t = "?p + length (ber_tlv 0x06 name)"
  obtain u where u: "rd buf ?t = Some 0x30" "BerDecoder_decodeLength buf (?t + 1) ?e = Some (LenOk u (length ys))"
    "u + length ys = ?t + length (ber_tlv 0x30 ys)"
    by (rule element [OF r(5) _ _ n(2)]) (use e ys in auto)
  have lt: "pos < ?e" "?p < ?e" "?t < ?e" using e by (simp_all add: ber_tlv_def)
  have nm: "rdn buf r (length name) = Some name" using rdn_drop_append [OF r(4)] ln by fastforce
  let ?a = "name = asn_id_as_acse" and ?m = "name = asn_id_mms"
  have "pcdl_loop buf pos ?e (- 1) False False = pcdl_loop buf ?p ?e (ucast i) False False"
    using q lt decodeUint32_octet [of q buf i] by (subst pcdl_loop.simps) simp
  also have "\<dots> = pcdl_loop buf ?t ?e (ucast i) ?a ?m"
  proof -
    have len: "length asn_id_as_acse = 4" "length asn_id_mms = 5" "asn_id_as_acse \<noteq> asn_id_mms" by (simp_all add: asn_id_as_acse_def asn_id_mms_def)
    show ?thesis using name
    proof
      assume "name = asn_id_as_acse"
      then show ?thesis using r(1-3) lt nm len by (subst pcdl_loop.simps) simp
    next
      assume "name = asn_id_mms"
      then show ?thesis using r(1-3) lt nm len by (subst pcdl_loop.simps) simp
    qed
  qed
  also have "\<dots> = pcdl_loop buf ?e ?e (ucast i) ?a ?m"
  proof -
    have "u + length ys = ?e" using u(3) e by simp
    then show ?thesis using u(1,2) lt(3) by (subst pcdl_loop.simps) simp
  qed
  also have "\<dots> = Some (Some (?e, ucast i, ?a, ?m))" by (subst pcdl_loop.simps) simp
  finally have "pcdl_loop buf pos ?e (- 1) False False = Some (Some (?e, ucast i, ?a, ?m))" .
  moreover have "\<not> bit (ucast i :: u32) 31" by (auto simp: bit_unsigned_iff dest: bit_imp_le_length)
  ultimately show ?thesis using name by (auto simp: parsePCDLEntry_def)
qed

lemma context_list_parsed:
  assumes d: "drop pos buf = context_list @ zs" and e: "pos + 35 < 2 ^ 31"
  shows "parsePresentationContextDefinitionList s buf 35 pos = Some (Some (pos + 35), s\<lparr>pr_acseContextId := 1, pr_mmsContextId := 3\<rparr>)"
proof -
  let ?e = "pos + 35" and ?loop = parsePresentationContextDefinitionList_loop
  let ?A = "[2, 1, 1] @ ber_tlv 0x06 asn_id_as_acse @ ber_tlv 0x30 (ber_tlv 0x06 ber_id)"
  let ?M = "[2, 1, 3] @ ber_tlv 0x06 asn_id_mms @ ber_tlv 0x30 (ber_tlv 0x06 ber_id)"
  have len: "length ?A = 15" "length ?M = 16" "length (ber_tlv 0x30 ?A) = 17" "length (ber_tlv 0x30 ?M) = 18" "length (ber_tlv 0x06 ber_id) < 100"
    by (simp_all add: ber_tlv_def ber_len_small asn_id_as_acse_def asn_id_mms_def ber_id_def)
  have d1: "drop pos buf = ber_tlv 0x30 ?A @ (ber_tlv 0x30 ?M @ zs)" using d by (simp add: context_list_def context_item_def)
  obtain q where q: "rd buf pos = Some 0x30" "BerDecoder_decodeLength buf (pos + 1) ?e = Some (LenOk q (length ?A))"
    "q + length ?A = pos + length (ber_tlv 0x30 ?A)" "drop q buf = ?A @ (ber_tlv 0x30 ?M @ zs)"
    "drop (pos + length (ber_tlv 0x30 ?A)) buf = ber_tlv 0x30 ?M @ zs"
    by (rule element [OF d1 _ _ e]) (simp_all only: len, simp_all)
  have d2: "drop (pos + 17) buf = ber_tlv 0x30 ?M @ zs" "q + 15 = pos + 17" using q(3,5) unfolding len by simp_all
  obtain r where r: "rd buf (pos + 17) = Some 0x30" "BerDecoder_decodeLength buf (pos + 17 + 1) ?e = Some (LenOk r (length ?M))"
    "r + length ?M = pos + 17 + length (ber_tlv 0x30 ?M)" "drop r buf = ?M @ zs"
    by (rule element [OF d2(1) _ _ e]) (simp_all only: len, simp_all)
  have a: "parsePCDLEntry s buf 15 q = Some (Some (pos + 17), s\<lparr>pr_acseContextId := 1\<rparr>)"
    using context_entry [OF q(4) _ len(5) len(1) [symmetric], of s] e d2(2) by (simp add: asn_id_as_acse_def asn_id_mms_def)
  have m: "parsePCDLEntry t buf 16 r = Some (Some ?e, t\<lparr>pr_mmsContextId := 3\<rparr>)" for t
    using context_entry [OF r(4) _ len(5) len(2) [symmetric], of t] e r(3) unfolding len by simp
  have "?loop s buf pos ?e = ?loop (s\<lparr>pr_acseContextId := 1\<rparr>) buf (pos + 17) ?e"
    using q(1,2) a unfolding len by (subst parsePresentationContextDefinitionList_loop.simps) simp
  also have "\<dots> = ?loop (s\<lparr>pr_acseContextId := 1, pr_mmsContextId := 3\<rparr>) buf ?e ?e"
    using r(1,2) m unfolding len by (subst parsePresentationContextDefinitionList_loop.simps) simp
  also have "\<dots> = Some (Some ?e, s\<lparr>pr_acseContextId := 1, pr_mmsContextId := 3\<rparr>)"
    by (subst parsePresentationContextDefinitionList_loop.simps) simp
  finally show ?thesis by (simp add: parsePresentationContextDefinitionList_def)
qed

subsection \<open>Messages in normal mode\<close>

definition stored_psel :: "PSelector \<Rightarrow> PSelector \<Rightarrow> PSelector" where
  "stored_psel old s = \<lparr>ps_size = ps_size s, ps_value = overlay (ps_value old) 0 (pselector s)\<rparr>"

lemma stored_psel_ok: "length (ps_value old) = 16 \<Longrightarrow> psel_ok s \<Longrightarrow> psel_ok (stored_psel old s) \<and> pselector (stored_psel old s) = pselector s"
  by (simp add: stored_psel_def psel_ok_def pselector_def overlay_def)

lemma copy_psel_eq:
  assumes "drop pos buf = pselector s @ zs" and "pos \<le> length buf" and "psel_ok s" and "length (ps_value old) = 16"
  shows "copy_psel buf pos (ps_size s) old = Some (stored_psel old s)"
proof -
  have "rdn buf pos (ps_size s) = Some (pselector s)"
    using rdn_drop_append [OF assms(1)] assms(2) length_pselector [OF assms(3)] by (cases "pselector s = []") (auto simp: rdn_def)
  then show ?thesis using assms(3,4) by (simp add: copy_psel_def stored_psel_def puts_fits psel_ok_def)
qed

text \<open>The elements of the normal mode parameters, one step each.\<close>

lemma normal_step:
  assumes d: "drop pos buf = ber_tlv tag xs @ zs" and xs: "length xs < 2 ^ 24" and e: "pos + length (ber_tlv tag xs) \<le> e" "e < 2 ^ 31"
  obtains q where "normal_loop s buf pos e u =
      (if tag = 0x81 then do {
         sel \<leftarrow> copy_psel buf q (length xs) (pr_callingPresentationSelector s);
         normal_loop (s\<lparr>pr_callingPresentationSelector := sel\<rparr>) buf (pos + length (ber_tlv tag xs)) e u }
       else if tag = 0x82 then do {
         sel \<leftarrow> copy_psel buf q (length xs) (pr_calledPresentationSelector s);
         normal_loop (s\<lparr>pr_calledPresentationSelector := sel\<rparr>) buf (pos + length (ber_tlv tag xs)) e u }
       else if tag = 0xa4 then do {
         (p, s) \<leftarrow> parsePresentationContextDefinitionList s buf (length xs) q;
         case p of None \<Rightarrow> Some (None, s) | Some pos \<Rightarrow> normal_loop s buf pos e u }
       else if tag = 0x61 then do {
         (p, s) \<leftarrow> parseFullyEncodedData s buf (length xs) q;
         case p of None \<Rightarrow> Some (None, s) | Some pos \<Rightarrow> normal_loop s buf pos e (if 0 < sl_size (pr_nextPayload s) then True else u) }
       else if tag = 0x00 then normal_loop s buf q e u
       else normal_loop s buf (pos + length (ber_tlv tag xs)) e u)"
    "q + length xs = pos + length (ber_tlv tag xs)" "drop q buf = xs @ zs" "drop (pos + length (ber_tlv tag xs)) buf = zs" "q \<le> length buf"
proof -
  obtain q where q: "rd buf pos = Some tag" "BerDecoder_decodeLength buf (pos + 1) e = Some (LenOk q (length xs))"
    "q + length xs = pos + length (ber_tlv tag xs)" "drop q buf = xs @ zs" "drop (pos + length (ber_tlv tag xs)) buf = zs" "pos + 1 < q"
    by (rule element [OF d xs e])
  have lt: "pos < e" "pos + 1 \<noteq> e" using q(3,6) e(1) by linarith+
  have "pos + length (ber_tlv tag xs) \<le> length buf"
    using arg_cong [OF d, of length] by (simp add: ber_tlv_def)
  then show thesis using q lt by (intro that [of q]) (subst normal_loop.simps, simp_all cong: if_cong)
qed

text \<open>The user data end the parameters.\<close>

lemma normal_user_data:
  assumes d: "drop pos buf = pdv ctx xs @ zs" and xs: "xs \<noteq> []" "length xs \<le> 65400" and e: "e = pos + length (pdv ctx xs)" "e < 2 ^ 31"
  shows "\<exists>sl. normal_loop s buf pos e False = Some (Some e, s\<lparr>pr_nextContextId := ctx, pr_nextPayload := sl\<rparr>) \<and> has_payload buf sl xs"
proof -
  let ?c = "ber_tlv 0x30 ([2, 1, ctx] @ ber_tlv 0xa0 xs)"
  have d': "drop pos buf = ber_tlv 0x61 ?c @ zs" using d by (simp add: pdv_def)
  have c: "length ?c < 2 ^ 24" using xs(2) ber_len_le [of "length xs"] ber_len_le [of "length ([2, 1, ctx] @ ber_tlv 0xa0 xs)"]
    by (simp add: length_ber_tlv del: ber_len_le)
  have e': "e = pos + length (ber_tlv 0x61 ?c)" using e(1) by (simp add: pdv_def)
  obtain q where q: "normal_loop s buf pos e False = do {
      (p, s) \<leftarrow> parseFullyEncodedData s buf (length ?c) q;
      case p of None \<Rightarrow> Some (None, s) | Some pos \<Rightarrow> normal_loop s buf pos e (if 0 < sl_size (pr_nextPayload s) then True else False) }"
    "q + length ?c = e" "drop q buf = ?c @ zs"
    using normal_step [OF d' c _ e(2), of s False] e' by auto
  obtain sl where sl: "parseFullyEncodedData s buf (length ?c) q = Some (Some e, s\<lparr>pr_nextContextId := ctx, pr_nextPayload := sl\<rparr>)" "has_payload buf sl xs"
    using parseFullyEncodedData_pdv [OF q(3) xs(2) refl, of s] q(2) e(2) by auto
  have "0 < sl_size sl" using sl(2) xs(1) by (simp add: has_payload_def)
  then have "normal_loop s buf pos e False = normal_loop (s\<lparr>pr_nextContextId := ctx, pr_nextPayload := sl\<rparr>) buf e e True"
    using q(1) sl(1) by simp
  also have "\<dots> = Some (Some e, s\<lparr>pr_nextContextId := ctx, pr_nextPayload := sl\<rparr>)" by (subst normal_loop.simps) simp
  finally show ?thesis using sl(2) by blast
qed

text \<open>The parameters of a connect PDU.\<close>

lemma normal_parameters_parsed:
  assumes d: "drop pos buf = (normal_parameters c @ pdv ctx xs) @ zs" and xs: "xs \<noteq> []" "length xs \<le> 65400"
    and c: "psel_ok (pr_callingPresentationSelector c)" "psel_ok (pr_calledPresentationSelector c)"
    and s: "length (ps_value (pr_callingPresentationSelector s)) = 16" "length (ps_value (pr_calledPresentationSelector s)) = 16"
    and n: "n = length (normal_parameters c @ pdv ctx xs)" "pos + n < 2 ^ 31"
  shows "\<exists>t. parseNormalModeParameters s buf n pos = Some (Some (pos + n), t) \<and> pr_nextContextId t = ctx \<and> has_payload buf (pr_nextPayload t) xs
    \<and> pselector (pr_callingPresentationSelector t) = pselector (pr_callingPresentationSelector c)
    \<and> pselector (pr_calledPresentationSelector t) = pselector (pr_calledPresentationSelector c) \<and> pr_acseContextId t = 1 \<and> pr_mmsContextId t = 3"
proof -
  let ?e = "pos + n" and ?cs = "pr_callingPresentationSelector c" and ?ds = "pr_calledPresentationSelector c"
  let ?A = "ber_tlv 0x81 (pselector ?cs)" and ?B = "ber_tlv 0x82 (pselector ?ds)" and ?C = "ber_tlv 0xa4 context_list"
  define s0 where "s0 = s\<lparr>pr_calledPresentationSelector := (pr_calledPresentationSelector s)\<lparr>ps_size := 0\<rparr>,
       pr_callingPresentationSelector := (pr_callingPresentationSelector s)\<lparr>ps_size := 0\<rparr>\<rparr>"
  have len: "?e = pos + length ?A + length ?B + length ?C + length (pdv ctx xs)" using n(1) by (simp add: normal_parameters_def)
  have small: "length (pselector ?cs) \<le> 16" "length (pselector ?ds) \<le> 16" using c by (simp_all add: psel_ok_def pselector_def)
  have dA: "drop pos buf = ?A @ (?B @ ?C @ pdv ctx xs @ zs)" using d by (simp add: normal_parameters_def)
  obtain qA where qA: "normal_loop s0 buf pos ?e False = do {
      sel \<leftarrow> copy_psel buf qA (length (pselector ?cs)) (pr_callingPresentationSelector s0);
      normal_loop (s0\<lparr>pr_callingPresentationSelector := sel\<rparr>) buf (pos + length ?A) ?e False }"
    "drop qA buf = pselector ?cs @ (?B @ ?C @ pdv ctx xs @ zs)" "drop (pos + length ?A) buf = ?B @ (?C @ pdv ctx xs @ zs)" "qA \<le> length buf"
    by (rule normal_step [OF dA _ _ n(2), of s0 False]) (use small len in auto)
  define s1 where "s1 = s0\<lparr>pr_callingPresentationSelector := stored_psel (pr_callingPresentationSelector s0) ?cs\<rparr>"
  have 1: "normal_loop s0 buf pos ?e False = normal_loop s1 buf (pos + length ?A) ?e False"
    using qA(1) copy_psel_eq [OF qA(2,4) c(1), of "pr_callingPresentationSelector s0"] s(1) c(1) by (simp add: s1_def s0_def)
  obtain qB where qB: "normal_loop s1 buf (pos + length ?A) ?e False = do {
      sel \<leftarrow> copy_psel buf qB (length (pselector ?ds)) (pr_calledPresentationSelector s1);
      normal_loop (s1\<lparr>pr_calledPresentationSelector := sel\<rparr>) buf (pos + length ?A + length ?B) ?e False }"
    "drop qB buf = pselector ?ds @ (?C @ pdv ctx xs @ zs)" "drop (pos + length ?A + length ?B) buf = ?C @ (pdv ctx xs @ zs)" "qB \<le> length buf"
    by (rule normal_step [OF qA(3) _ _ n(2), of s1 False]) (use small len in auto)
  define s2 where "s2 = s1\<lparr>pr_calledPresentationSelector := stored_psel (pr_calledPresentationSelector s1) ?ds\<rparr>"
  have 2: "normal_loop s1 buf (pos + length ?A) ?e False = normal_loop s2 buf (pos + length ?A + length ?B) ?e False"
    using qB(1) copy_psel_eq [OF qB(2,4) c(2), of "pr_calledPresentationSelector s1"] s(2) c(2) by (simp add: s2_def s1_def s0_def)
  let ?p = "pos + length ?A + length ?B"
  obtain qC where qC: "normal_loop s2 buf ?p ?e False = do {
      (p, s) \<leftarrow> parsePresentationContextDefinitionList s2 buf (length context_list) qC;
      case p of None \<Rightarrow> Some (None, s) | Some pos \<Rightarrow> normal_loop s buf pos ?e False }"
    "qC + length context_list = ?p + length ?C" "drop qC buf = context_list @ (pdv ctx xs @ zs)" "drop (?p + length ?C) buf = pdv ctx xs @ zs"
    by (rule normal_step [OF qB(3) _ _ n(2), of s2 False]) (use len in \<open>auto simp: length_context_list\<close>)
  let ?s3 = "s2\<lparr>pr_acseContextId := 1, pr_mmsContextId := 3\<rparr>"
  have 3: "normal_loop s2 buf ?p ?e False = normal_loop ?s3 buf (?p + length ?C) ?e False"
  proof -
    have qe: "qC + 35 = ?p + length ?C" using qC(2) by (simp only: length_context_list)
    have "qC + 35 < 2 ^ 31" using qe len n(2) by linarith
    note list = context_list_parsed [OF qC(3) this, of s2]
    show ?thesis unfolding qC(1) length_context_list list qe by simp
  qed
  have "?e = ?p + length ?C + length (pdv ctx xs)" using len by simp
  from normal_user_data [OF qC(4) xs this n(2), of ?s3] obtain sl where
    4: "normal_loop ?s3 buf (?p + length ?C) ?e False = Some (Some ?e, ?s3\<lparr>pr_nextContextId := ctx, pr_nextPayload := sl\<rparr>)" "has_payload buf sl xs" by blast
  show ?thesis using 1 2 3 4 stored_psel_ok c s unfolding parseNormalModeParameters_def s0_def [symmetric]
    by (simp add: s2_def s1_def) (simp add: s0_def)
qed


text \<open>The parameters of an accept PDU: the responding selector and the results are skipped.\<close>

lemma cpa_parameters_parsed:
  assumes d: "drop pos buf = (cpa_parameters @ pdv ctx xs) @ zs" and xs: "xs \<noteq> []" "length xs \<le> 65400"
    and n: "n = length (cpa_parameters @ pdv ctx xs)" "pos + n < 2 ^ 31"
  shows "\<exists>t. parseNormalModeParameters s buf n pos = Some (Some (pos + n), t) \<and> pr_nextContextId t = ctx \<and> has_payload buf (pr_nextPayload t) xs
    \<and> pr_acseContextId t = pr_acseContextId s \<and> pr_mmsContextId t = pr_mmsContextId s"
proof -
  let ?e = "pos + n" and ?R = "[0x30, 7, 0x80, 1, 0, 0x81, 2, 0x51, 1] @ [0x30, 7, 0x80, 1, 0, 0x81, 2, 0x51, 1] :: bytes"
  let ?A = "ber_tlv 0x83 calledPresentationSelector" and ?B = "ber_tlv 0xa5 ?R"
  define s0 where "s0 = s\<lparr>pr_calledPresentationSelector := (pr_calledPresentationSelector s)\<lparr>ps_size := 0\<rparr>,
       pr_callingPresentationSelector := (pr_callingPresentationSelector s)\<lparr>ps_size := 0\<rparr>\<rparr>"
  have len: "?e = pos + length ?A + length ?B + length (pdv ctx xs)" using n(1) by (simp only: cpa_parameters_def length_append add.assoc)
  have dA: "drop pos buf = ?A @ (?B @ pdv ctx xs @ zs)" using d by (simp only: cpa_parameters_def append_assoc)
  have A: "normal_loop s0 buf pos ?e False = normal_loop s0 buf (pos + length ?A) ?e False" "drop (pos + length ?A) buf = ?B @ (pdv ctx xs @ zs)"
    by (rule normal_step [OF dA _ _ n(2), of s0 False], simp add: calledPresentationSelector_def, (use len in linarith), simp_all)+
  have B: "normal_loop s0 buf (pos + length ?A) ?e False = normal_loop s0 buf (pos + length ?A + length ?B) ?e False"
    "drop (pos + length ?A + length ?B) buf = pdv ctx xs @ zs"
    by (rule normal_step [OF A(2) _ _ n(2), of s0 False], simp, (use len in linarith), simp_all)+
  from normal_user_data [OF B(2) xs len n(2), of s0] obtain sl where
    C: "normal_loop s0 buf (pos + length ?A + length ?B) ?e False = Some (Some ?e, s0\<lparr>pr_nextContextId := ctx, pr_nextPayload := sl\<rparr>)" "has_payload buf sl xs" by blast
  have "parseNormalModeParameters s buf n pos = Some (Some ?e, s0\<lparr>pr_nextContextId := ctx, pr_nextPayload := sl\<rparr>)"
    unfolding parseNormalModeParameters_def s0_def [symmetric] A(1) B(1) C(1) ..
  then show ?thesis using C(2) by (simp add: s0_def)
qed

text \<open>The whole message: the mode, and then the parameters.\<close>

lemma normal_pdu_elements:
  assumes buf: "buf = normal_pdu params ctx xs @ zs" and len: "length params \<le> 1000" "length xs \<le> 65400"
    and n: "n = length (normal_pdu params ctx xs)"
  obtains q r v w where "n < 2 ^ 31" "rd buf 0 = Some 0x31" "\<exists>l. BerDecoder_decodeLength buf 1 n = Some (LenOk q l)" "q < n"
    "rd buf q = Some 0xa0" "BerDecoder_decodeLength buf (q + 1) n = Some (LenOk r 3)" "r + 3 = q + 5"
    "rd buf r = Some 0x80" "BerDecoder_decodeLength buf (r + 1) n = Some (LenOk v 1)" "v + 1 = q + 5" "BerDecoder_decodeUint32 buf 1 v = Some 1"
    "q + 5 < n" "rd buf (q + 5) = Some 0xa2" "BerDecoder_decodeLength buf (q + 5 + 1) n = Some (LenOk w (length (params @ pdv ctx xs)))"
    "w + length (params @ pdv ctx xs) = n" "drop w buf = (params @ pdv ctx xs) @ zs"
proof -
  let ?m = "params @ pdv ctx xs" let ?c = "mode_item @ ber_tlv 0xa2 ?m"
  have pl: "length (pdv ctx xs) \<le> 18 + length xs"
    using pdv_header_append [of xs "length xs" ctx] length_pdv_header [of ctx "length xs"] by (metis add_le_cancel_right length_append)
  have lm: "length ?m \<le> 70000" using len pl by simp
  then have lc: "length ?c \<le> 70010" using ber_len_le [of "length ?m"] by (simp add: length_ber_tlv mode_item_def del: ber_len_le)
  then have b: "length ?m < 2 ^ 24" "length ?c < 2 ^ 24" "n < 2 ^ 31" using lm ber_len_le [of "length ?c"]
    by (simp_all add: n normal_pdu_def length_ber_tlv del: ber_len_le)
  have d: "drop 0 buf = ber_tlv 0x31 ?c @ zs" using buf by (simp add: normal_pdu_def)
  obtain q where q: "rd buf 0 = Some 0x31" "BerDecoder_decodeLength buf (0 + 1) n = Some (LenOk q (length ?c))"
    "q + length ?c = 0 + length (ber_tlv 0x31 ?c)" "drop q buf = ?c @ zs"
    by (rule element [OF d b(2) _ b(3)]) (auto simp: n normal_pdu_def)
  have mode: "mode_item = ber_tlv 0xa0 (ber_tlv 0x80 [1])" "length (ber_tlv 0x80 [1]) = 3" "length (ber_tlv 0xa0 (ber_tlv 0x80 [1])) = 5"
    by (simp_all add: mode_item_def ber_tlv_def ber_len_small)
  have d1: "drop q buf = ber_tlv 0xa0 (ber_tlv 0x80 [1]) @ (ber_tlv 0xa2 ?m @ zs)" using q(4) by (simp only: mode append_assoc)
  have e: "q + 5 + length (ber_tlv 0xa2 ?m) = n" using q(3) by (simp add: n normal_pdu_def mode_item_def)
  obtain r where r: "rd buf q = Some 0xa0" "BerDecoder_decodeLength buf (q + 1) n = Some (LenOk r (length (ber_tlv 0x80 [1])))"
    "r + length (ber_tlv 0x80 [1]) = q + length (ber_tlv 0xa0 (ber_tlv 0x80 [1]))" "drop r buf = ber_tlv 0x80 [1] @ (ber_tlv 0xa2 ?m @ zs)"
    "drop (q + length (ber_tlv 0xa0 (ber_tlv 0x80 [1]))) buf = ber_tlv 0xa2 ?m @ zs"
    by (rule element [OF d1 _ _ b(3)]) (use e in \<open>simp_all add: mode(2,3)\<close>)
  note r' = r(2,3,5) [unfolded mode(2,3)]
  obtain v where v: "rd buf r = Some 0x80" "BerDecoder_decodeLength buf (r + 1) n = Some (LenOk v (length [1 :: u8]))"
    "v + length [1 :: u8] = r + length (ber_tlv 0x80 [1])" "drop v buf = [1] @ (ber_tlv 0xa2 ?m @ zs)"
    by (rule element [OF r(4) _ _ b(3)]) (use e r'(2) in \<open>simp_all add: mode(2)\<close>)
  obtain w where w: "rd buf (q + 5) = Some 0xa2" "BerDecoder_decodeLength buf (q + 5 + 1) n = Some (LenOk w (length ?m))"
    "w + length ?m = q + 5 + length (ber_tlv 0xa2 ?m)" "drop w buf = ?m @ zs"
    by (rule element [OF r'(3) b(1) _ b(3)]) (use e in simp_all)
  have "0 < length (ber_tlv 0xa2 ?m)" by (simp add: ber_tlv_def)
  then have "q < n" "q + 5 < n" using e by linarith+
  then show thesis using that [of q r v w] b(3) q(1,2) r(1) r' v w e decodeUint32_octet [of v buf 1] unfolding mode(2) by simp
qed

lemma normal_pdu_parsed:
  assumes buf: "buf = normal_pdu params ctx xs @ zs" and len: "length params \<le> 1000" "length xs \<le> 65400"
    and n: "n = length (normal_pdu params ctx xs)"
    and params: "\<And>pos. drop pos buf = (params @ pdv ctx xs) @ zs \<Longrightarrow> pos + length (params @ pdv ctx xs) < 2 ^ 31 \<Longrightarrow>
      \<exists>t. parseNormalModeParameters s buf (length (params @ pdv ctx xs)) pos = Some (Some (pos + length (params @ pdv ctx xs)), t) \<and> P t"
  shows "\<exists>t. IsoPresentation_parseConnect s buf (int n) = Some (True, t) \<and> IsoPresentation_parseAcceptMessage s buf (int n) = Some (True, t) \<and> P t"
proof -
  obtain q r v w where e: "n < 2 ^ 31" "rd buf 0 = Some 0x31" "\<exists>l. BerDecoder_decodeLength buf 1 n = Some (LenOk q l)" "q < n"
    "rd buf q = Some 0xa0" "BerDecoder_decodeLength buf (q + 1) n = Some (LenOk r 3)" "r + 3 = q + 5"
    "rd buf r = Some 0x80" "BerDecoder_decodeLength buf (r + 1) n = Some (LenOk v 1)" "v + 1 = q + 5" "BerDecoder_decodeUint32 buf 1 v = Some 1"
    "q + 5 < n" "rd buf (q + 5) = Some 0xa2" "BerDecoder_decodeLength buf (q + 5 + 1) n = Some (LenOk w (length (params @ pdv ctx xs)))"
    "w + length (params @ pdv ctx xs) = n" "drop w buf = (params @ pdv ctx xs) @ zs"
    by (rule normal_pdu_elements [OF buf len n])
  have "w + length (params @ pdv ctx xs) < 2 ^ 31" using e(1,15) by simp
  from params [OF e(16) this] obtain t where
    t: "parseNormalModeParameters s buf (length (params @ pdv ctx xs)) w = Some (Some n, t)" "P t" unfolding e(15) by blast
  have "connect_loop s buf q n False = connect_loop s buf (q + 5) n False" using e(4-11) by (subst connect_loop.simps) (simp add: add.commute [of 5 q])
  also have "\<dots> = connect_loop t buf n n True" using e(12-14) t(1) by (subst connect_loop.simps) simp
  also have "\<dots> = Some (True, t)" by (subst connect_loop.simps) simp
  finally have 1: "IsoPresentation_parseConnect s buf (int n) = Some (True, t)"
    using e(2,3) by (auto simp: IsoPresentation_parseConnect_def Let_def)
  have "accept_message_loop s buf q n = accept_message_loop s buf (q + 5) n" using e(4-7) by (subst accept_message_loop.simps) (simp add: add.commute [of 5 q])
  also have "\<dots> = accept_message_loop t buf n n" using e(12-14) t(1) by (subst accept_message_loop.simps) simp
  also have "\<dots> = Some (True, t)" by (subst accept_message_loop.simps) simp
  finally have "IsoPresentation_parseAcceptMessage s buf (int n) = Some (True, t)"
    using e(2,3) by (auto simp: IsoPresentation_parseAcceptMessage_def Let_def)
  then show ?thesis using 1 t(2) by blast
qed

lemma normal_chain:
  assumes "q = chain_front (normal_header params ctx (bc_length p)) p" and "bc_length p = length (concat (bc_parts p))"
  shows "concat (bc_parts q) = normal_pdu params ctx (concat (bc_parts p))" and "bc_length q = length (normal_pdu params ctx (concat (bc_parts p)))"
  using assms normal_header_append [of "concat (bc_parts p)" "bc_length p" params ctx]
  by (auto simp: chain_front_def) (metis length_append)

text \<open>
  C14: The connect PDU a client creates is read by the server with both selectors, the context numbers 1 for ACSE and 3 for MMS,
  and the user data it carries, under the context number of ACSE.
\<close>

theorem presentation_connect_roundtrip:
  assumes "IsoPresentation_createConnectPdu c calling called wbuf p = Some (c', q)" and "psel_ok calling" and "psel_ok called"
    and "bc_length p = length (concat (bc_parts p))" and "0 < bc_length p" and "bc_length p \<le> 65400" and "150 \<le> length wbuf"
    and "buf = concat (bc_parts q) @ zs"
    and "length (ps_value (pr_callingPresentationSelector s)) = 16" and "length (ps_value (pr_calledPresentationSelector s)) = 16"
  shows "\<exists>t. IsoPresentation_parseConnect s buf (int (bc_length q)) = Some (True, t)
    \<and> pselector (pr_callingPresentationSelector t) = pselector calling \<and> pselector (pr_calledPresentationSelector t) = pselector called
    \<and> pr_acseContextId t = 1 \<and> pr_mmsContextId t = 3
    \<and> pr_nextContextId t = 1 \<and> has_payload buf (pr_nextPayload t) (concat (bc_parts p))"
proof -
  let ?xs = "concat (bc_parts p)"
  define d where "d = c\<lparr>pr_acseContextId := 1, pr_mmsContextId := 3, pr_callingPresentationSelector := calling, pr_calledPresentationSelector := called\<rparr>"
  have sel: "psel_ok (pr_callingPresentationSelector d)" "psel_ok (pr_calledPresentationSelector d)" using assms(2,3) by (simp_all add: d_def)
  have acse: "pr_acseContextId d = 1" by (simp add: d_def)
  have q: "q = chain_front (normal_header (normal_parameters d) 1 (bc_length p)) p"
    using assms(1) createConnectPdu_eq [OF sel assms(6,7)] unfolding IsoPresentation_createConnectPdu_def Let_def d_def [symmetric]
    by (auto simp: acse)
  have xs: "?xs \<noteq> []" "length ?xs \<le> 65400" using assms(4-6) by auto
  have len: "length (normal_parameters d) \<le> 1000" using sel by (simp add: length_normal_parameters psel_ok_def)
  have "\<exists>t. IsoPresentation_parseConnect s buf (int (bc_length q)) = Some (True, t)
    \<and> IsoPresentation_parseAcceptMessage s buf (int (bc_length q)) = Some (True, t)
    \<and> (pr_nextContextId t = 1 \<and> has_payload buf (pr_nextPayload t) ?xs
    \<and> pselector (pr_callingPresentationSelector t) = pselector (pr_callingPresentationSelector d)
    \<and> pselector (pr_calledPresentationSelector t) = pselector (pr_calledPresentationSelector d) \<and> pr_acseContextId t = 1 \<and> pr_mmsContextId t = 3)"
    using normal_chain [OF q assms(4)] assms(8) by (intro normal_pdu_parsed [OF _ len xs(2)]) (simp, simp, rule normal_parameters_parsed [OF _ xs sel assms(9,10) refl])
  then show ?thesis by (auto simp: d_def)
qed

text \<open>
  The accept PDU the server answers with is read by the client as accepted, with the user data it carries under the context
  number of ACSE the server has; the client keeps its own context numbers, whatever the server answered.
\<close>

theorem presentation_accept_roundtrip:
  assumes "IsoPresentation_createCpaMessage c wbuf p = Some q"
    and "bc_length p = length (concat (bc_parts p))" and "0 < bc_length p" and "bc_length p \<le> 65400" and "150 \<le> length wbuf"
    and "buf = concat (bc_parts q) @ zs"
  shows "\<exists>t. IsoPresentation_parseAcceptMessage s buf (int (bc_length q)) = Some (True, t)
    \<and> pr_nextContextId t = pr_acseContextId c \<and> has_payload buf (pr_nextPayload t) (concat (bc_parts p))
    \<and> pr_acseContextId t = pr_acseContextId s \<and> pr_mmsContextId t = pr_mmsContextId s"
proof -
  let ?xs = "concat (bc_parts p)"
  have q: "q = chain_front (normal_header cpa_parameters (pr_acseContextId c) (bc_length p)) p"
    using assms(1) createCpaMessage_eq [OF assms(4,5), of c] by simp
  have xs: "?xs \<noteq> []" "length ?xs \<le> 65400" using assms(2-4) by auto
  have len: "length cpa_parameters \<le> 1000" by (simp add: cpa_parameters_def ber_tlv_def ber_len_small calledPresentationSelector_def)
  have "\<exists>t. IsoPresentation_parseConnect s buf (int (bc_length q)) = Some (True, t)
    \<and> IsoPresentation_parseAcceptMessage s buf (int (bc_length q)) = Some (True, t)
    \<and> (pr_nextContextId t = pr_acseContextId c \<and> has_payload buf (pr_nextPayload t) ?xs
    \<and> pr_acseContextId t = pr_acseContextId s \<and> pr_mmsContextId t = pr_mmsContextId s)"
    using normal_chain [OF q assms(2)] assms(6) by (intro normal_pdu_parsed [OF _ len xs(2)]) (simp, simp, rule cpa_parameters_parsed [OF _ xs refl])
  then show ?thesis by blast
qed

subsection \<open>Witnesses\<close>

definition ex_pres :: IsoPresentation where
  "ex_pres =
     (let sel = \<lparr>ps_size = 4, ps_value = [0, 0, 0, 1] @ replicate 12 0\<rparr>
      in \<lparr>pr_callingPresentationSelector = sel, pr_calledPresentationSelector = sel, pr_nextContextId = 0, pr_acseContextId = 1,
          pr_mmsContextId = 3, pr_nextPayload = \<lparr>sl_pos = 0, sl_size = 0, sl_maxSize = 0\<rparr>\<rparr>)"

definition ex_psel :: "u8 \<Rightarrow> PSelector" where
  "ex_psel x = \<lparr>ps_size = 2, ps_value = [0, x] @ replicate 14 0\<rparr>"

lemma ex_psel_ok:
  "psel_ok (ex_psel x)" "pselector (ex_psel x) = [0, x]"
  "length (ps_value (pr_callingPresentationSelector ex_pres)) = 16" "length (ps_value (pr_calledPresentationSelector ex_pres)) = 16"
  by (simp_all add: ex_psel_def psel_ok_def pselector_def ex_pres_def Let_def)

lemma ex_payload_ok:
  "bc_length ex_payload = length (concat (bc_parts ex_payload))" "0 < bc_length ex_payload" "bc_length ex_payload \<le> 65400"
  "concat (bc_parts ex_payload) = [7, 8, 9]"
  by (simp_all add: ex_payload_def)

theorem user_data_roundtrip_witness:
  "\<exists>q sl. create_user_data 3 (replicate 18 0) ex_payload = Some q
    \<and> IsoPresentation_parseUserData ex_pres (concat (bc_parts q) @ [0]) (int (bc_length q)) = Some (True, ex_pres\<lparr>pr_nextContextId := 3, pr_nextPayload := sl\<rparr>)
    \<and> has_payload (concat (bc_parts q) @ [0]) sl [7, 8, 9]"
proof -
  have n: "18 \<le> length (replicate 18 (0 :: u8))" by simp
  note q = create_user_data_eq [OF ex_payload_ok(3) n, of 3]
  from user_data_roundtrip [OF q ex_payload_ok(1,3) n refl, of ex_pres "[0]"] q show ?thesis by (auto simp: ex_payload_ok(4))
qed

theorem presentation_connect_roundtrip_witness:
  "\<exists>c' q t. IsoPresentation_createConnectPdu ex_pres (ex_psel 5) (ex_psel 6) (replicate 150 0) ex_payload = Some (c', q)
    \<and> IsoPresentation_parseConnect ex_pres (concat (bc_parts q) @ [0]) (int (bc_length q)) = Some (True, t)
    \<and> pselector (pr_callingPresentationSelector t) = [0, 5] \<and> pselector (pr_calledPresentationSelector t) = [0, 6]
    \<and> has_payload (concat (bc_parts q) @ [0]) (pr_nextPayload t) [7, 8, 9]"
proof -
  have n: "150 \<le> length (replicate 150 (0 :: u8))" by simp
  obtain c' q where q: "IsoPresentation_createConnectPdu ex_pres (ex_psel 5) (ex_psel 6) (replicate 150 0) ex_payload = Some (c', q)"
    using createConnectPdu_eq [OF _ _ ex_payload_ok(3) n] ex_psel_ok(1) by (simp add: IsoPresentation_createConnectPdu_def Let_def)
  from presentation_connect_roundtrip [OF q ex_psel_ok(1) ex_psel_ok(1) ex_payload_ok(1-3) n refl ex_psel_ok(3,4), of "[0]"] q show ?thesis
    by (auto simp: ex_psel_ok(2) ex_payload_ok(4))
qed

theorem presentation_accept_roundtrip_witness:
  "\<exists>q t. IsoPresentation_createCpaMessage ex_pres (replicate 150 0) ex_payload = Some q
    \<and> IsoPresentation_parseAcceptMessage ex_pres (concat (bc_parts q) @ [0]) (int (bc_length q)) = Some (True, t)
    \<and> pr_nextContextId t = 1 \<and> has_payload (concat (bc_parts q) @ [0]) (pr_nextPayload t) [7, 8, 9]"
proof -
  have n: "150 \<le> length (replicate 150 (0 :: u8))" by simp
  note q = createCpaMessage_eq [OF ex_payload_ok(3) n, of ex_pres]
  have "pr_acseContextId ex_pres = 1" by (simp add: ex_pres_def Let_def)
  with presentation_accept_roundtrip [OF q ex_payload_ok(1-3) n refl, of ex_pres "[0]"] q show ?thesis by (auto simp: ex_payload_ok(4))
qed

end
