(* ===== verification/AcsePdu.thy ===== *)
theory AcsePdu
  imports Acse PresentationPdu
begin

text \<open>
  The PDUs of the association control layer: what is created and how it is parsed back, who is let in, and what an ill-formed PDU
  does.
\<close>

subsection \<open>What is created\<close>

definition app_context :: bytes where
  "app_context = ber_tlv 0xa1 (ber_tlv 0x06 appContextNameMms)"

definition user_info :: "bytes \<Rightarrow> bytes \<Rightarrow> bytes" where
  "user_info ref xs = ber_tlv 0xbe (ber_tlv 0x28 (ber_tlv 0x02 ref @ ber_tlv 0xa0 xs))"

definition title_items :: "u8 \<Rightarrow> u8 \<Rightarrow> bytes \<Rightarrow> int \<Rightarrow> u32 \<Rightarrow> bytes" where
  "title_items tt qt title n q =
     (if 0 < n then ber_tlv tt (ber_tlv 0x06 (take (nat n) title)) @ ber_tlv qt (ber_tlv 0x02 (ber_u32 q)) else [])"

definition auth_items :: "bytes option \<Rightarrow> bytes" where
  "auth_items pw =
     (case pw of None \<Rightarrow> [] | Some pw \<Rightarrow> ber_tlv 0x8a [4, 0x80] @ ber_tlv 0x8b auth_mech_password_oid @ ber_tlv 0xac (ber_tlv 0x80 pw))"

definition aarq :: "IsoConnectionParameters \<Rightarrow> bytes option \<Rightarrow> bytes \<Rightarrow> bytes" where
  "aarq ip pw xs = ber_tlv 0x60 (app_context
     @ title_items 0xa2 0xa3 (ip_remoteApTitle ip) (ip_remoteApTitleLen ip) (ip_remoteAEQualifier ip)
     @ title_items 0xa6 0xa7 (ip_localApTitle ip) (ip_localApTitleLen ip) (ip_localAEQualifier ip)
     @ auth_items pw @ user_info [3] xs)"

definition aare :: "u8 \<Rightarrow> u32 \<Rightarrow> bytes \<Rightarrow> bytes" where
  "aare res ref xs = ber_tlv 0x61 (app_context @ ber_tlv 0xa2 (ber_tlv 0x02 [res]) @ ber_tlv 0xa3 (ber_tlv 0xa1 (ber_tlv 0x02 [0]))
     @ user_info (ber_u32 ref) xs)"

definition params_ok :: "IsoConnectionParameters \<Rightarrow> bool" where
  "params_ok ip \<longleftrightarrow> length (ip_remoteApTitle ip) = 10 \<and> ip_remoteApTitleLen ip \<le> 10 \<and> length (ip_localApTitle ip) = 10 \<and> ip_localApTitleLen ip \<le> 10"

text \<open>The authentication parameter of a password, and none.\<close>

definition password_parameter :: "bytes option \<Rightarrow> AcseAuthenticationParameter option" where
  "password_parameter pw = map_option (\<lambda>pw. \<lparr>ap_mechanism = ACSE_AUTH_PASSWORD, ap_password = Some pw\<rparr>) pw"

definition user_info_header :: "bytes \<Rightarrow> nat \<Rightarrow> bytes" where
  "user_info_header ref n =
     (let a = length (ber_tlv 0x02 ref) + (1 + length (ber_len n) + n); u = 1 + length (ber_len a) + a
      in (0xbe # ber_len u) @ (0x28 # ber_len a) @ ber_tlv 0x02 ref @ (0xa0 # ber_len n))"

lemma user_info_header_append: "length xs = n \<Longrightarrow> user_info_header ref n @ xs = user_info ref xs"
  by (simp add: user_info_header_def user_info_def ber_tlv_def Let_def ac_simps eval_nat_numeral)

lemma length_user_info_header: "length ref \<le> 5 \<Longrightarrow> length (user_info_header ref n) \<le> 22"
proof -
  let ?a = "length (ber_tlv 0x02 ref) + (1 + length (ber_len n) + n)"
  have "length (ber_len n) \<le> 4" "length (ber_len ?a) \<le> 4" "length (ber_len (1 + length (ber_len ?a) + ?a)) \<le> 4" by simp_all
  then show "length ref \<le> 5 \<Longrightarrow> length (user_info_header ref n) \<le> 22"
    by (simp add: user_info_header_def Let_def length_ber_tlv del: ber_len_le) (simp add: length_ber_len)
qed

lemma application_title_size_eq: "n \<le> 10 \<Longrightarrow> length title = 10 \<Longrightarrow> application_title_size n q = length (title_items tt qt title n q)"
  using length_ber_u32 [of q]
  by (auto simp: application_title_size_def title_items_def length_ber_tlv UInt32determineEncodedSize_eq length_ber_len)

lemma length_title_items: "n \<le> 10 \<Longrightarrow> length (title_items tt qt title n q) \<le> 23"
  using length_ber_u32 [of q] by (auto simp: title_items_def length_ber_tlv length_ber_len)

lemma encode_application_title_puts:
  "n \<le> 10 \<Longrightarrow> length title = 10 \<Longrightarrow> encode_application_title tt qt title n q = puts (title_items tt qt title n q)"
  using length_ber_u32 [of q]
  by (intro ext) (auto simp: encode_application_title_def title_items_def writer_simps puts_bind_assoc rdn_in ber_tlv_def
      UInt32determineEncodedSize_eq Let_def ber_len_small min_absorb2)

lemma authentication_size_eq:
  assumes "length (case_option [] id pw) \<le> 1000"
  shows "authentication_size (password_parameter pw) = Some (length (auth_items pw))"
proof -
  have "length (ber_len (length x)) \<le> 4" "length x \<le> 1000" if "pw = Some x" for x using that assms by simp_all
  then have "length x + length (ber_len (length x)) + 1 \<noteq> 65535" "length x \<noteq> 65535" if "pw = Some x" for x using that by fastforce+
  then show ?thesis
    by (auto simp: authentication_size_def password_parameter_def auth_items_def Let_def determineLengthSize_eq length_ber_tlv
        auth_mech_password_oid_def ber_len_small ac_simps split: option.splits)
qed

lemma encode_authentication_puts:
  assumes "length (case_option [] id pw) \<le> 1000"
  shows "encode_authentication (password_parameter pw) = puts (auth_items pw)"
proof (intro ext)
  fix buf pos
  have "length x \<noteq> 65535" if "pw = Some x" for x using that assms by auto
  then show "encode_authentication (password_parameter pw) buf pos = puts (auth_items pw) buf pos"
    by (auto simp: encode_authentication_def password_parameter_def auth_items_def Let_def determineLengthSize_eq writer_simps puts_bind_assoc
        ber_tlv_def auth_mech_password_oid_def ber_len_small ac_simps split: option.splits)
qed

lemma length_auth_items: "length (auth_items pw) \<le> 20 + length (case_option [] id pw)"
  using ber_len_le by (auto simp: auth_items_def length_ber_tlv auth_mech_password_oid_def length_ber_len split: option.splits)

lemma user_info_lengths:
  assumes "n \<le> 60000" and "length ref \<le> 5"
    and a: "a = length (ber_tlv 0x02 ref) + (1 + length (ber_len n) + n)" and u: "u = 1 + length (ber_len a) + a"
  shows "n + 1 + BerEncoder_determineLengthSize n + length ref + 2 = a"
    and "a + BerEncoder_determineLengthSize a + 1 = u"
    and "u + BerEncoder_determineLengthSize u + 1 = length (user_info_header ref n) + n"
proof -
  have le: "length (ber_len n) \<le> 4" "length (ber_len a) \<le> 4" by simp_all
  have ref: "length (ber_tlv 0x02 ref) = length ref + 2" using assms(2) by (simp add: length_ber_tlv length_ber_len)
  have ne: "n \<noteq> 65535" "a \<noteq> 65535" "u \<noteq> 65535" using assms le ref by linarith+
  show "n + 1 + BerEncoder_determineLengthSize n + length ref + 2 = a" using ref a by (simp add: determineLengthSize_eq [OF ne(1)])
  show "a + BerEncoder_determineLengthSize a + 1 = u" using u by (simp add: determineLengthSize_eq [OF ne(2)])
  show "u + BerEncoder_determineLengthSize u + 1 = length (user_info_header ref n) + n"
    unfolding determineLengthSize_eq [OF ne(3)] by (simp add: user_info_header_def Let_def a [symmetric] u [symmetric])
      (simp add: u a)
qed

text \<open>The header of the response, and of the request.\<close>

lemma createAssociateResponseMessage_eq:
  assumes n: "bc_length p \<le> 60000" and buf: "100 \<le> length buf"
  obtains h where "AcseConnection_createAssociateResponseMessage s res buf (Some p) = Some (chain_front h p)"
    and "\<And>xs. length xs = bc_length p \<Longrightarrow> h @ xs = aare res (ac_nextReference s) xs"
proof -
  let ?n = "bc_length p" and ?ref = "ber_u32 (ac_nextReference s)"
  have r: "length ?ref \<le> 5" using length_ber_u32 by blast
  define a where "a = length (ber_tlv 0x02 ?ref) + (1 + length (ber_len ?n) + ?n)"
  define u where "u = 1 + length (ber_len a) + a"
  note l = user_info_lengths [OF n r a_def u_def]
  let ?I = "app_context @ ber_tlv 0xa2 (ber_tlv 0x02 [res]) @ ber_tlv 0xa3 (ber_tlv 0xa1 (ber_tlv 0x02 [0]))"
  have I: "length ?I = 21" by (simp add: app_context_def ber_tlv_def ber_len_small appContextNameMms_def)
  have uh: "user_info_header ?ref ?n = (0xbe # ber_len u) @ (0x28 # ber_len a) @ ber_tlv 0x02 ?ref @ (0xa0 # ber_len ?n)"
    by (simp add: user_info_header_def Let_def a_def u_def)
  define c where "c = length ?I + (length (user_info_header ?ref ?n) + ?n)"
  let ?h = "(0x61 # ber_len c) @ ?I @ user_info_header ?ref ?n"
  have cl: "9 + 5 + 5 + (u + BerEncoder_determineLengthSize u + 1 + 2) = c" using l(3) unfolding c_def I by linarith
  have "AcseConnection_createAssociateResponseMessage s res buf (Some p) = do {
     (buffer, bufPos) \<leftarrow> puts (0x61 # ber_len c) buf 0;
     (buffer, bufPos) \<leftarrow> puts (0xa1 # ber_len 7) buffer bufPos;
     (buffer, bufPos) \<leftarrow> puts (0x06 # ber_len 5) buffer bufPos;
     (buffer, bufPos) \<leftarrow> puts appContextNameMms buffer bufPos;
     (buffer, bufPos) \<leftarrow> puts (0xa2 # ber_len 3) buffer bufPos;
     (buffer, bufPos) \<leftarrow> puts (0x02 # ber_len 1) buffer bufPos;
     (buffer, bufPos) \<leftarrow> puts [res] buffer bufPos;
     (buffer, bufPos) \<leftarrow> puts (0xa3 # ber_len 5) buffer bufPos;
     (buffer, bufPos) \<leftarrow> puts (0xa1 # ber_len 3) buffer bufPos;
     (buffer, bufPos) \<leftarrow> puts (0x02 # ber_len 1) buffer bufPos;
     (buffer, bufPos) \<leftarrow> puts [0] buffer bufPos;
     (buffer, bufPos) \<leftarrow> puts (0xbe # ber_len u) buffer bufPos;
     (buffer, bufPos) \<leftarrow> puts (0x28 # ber_len a) buffer bufPos;
     (buffer, bufPos) \<leftarrow> puts (0x02 # ber_len (length ?ref)) buffer bufPos;
     (buffer, bufPos) \<leftarrow> puts ?ref buffer bufPos;
     (buffer, bufPos) \<leftarrow> puts (0xa0 # ber_len ?n) buffer bufPos;
     Some (chain_front (take bufPos buffer) p) }"
    unfolding AcseConnection_createAssociateResponseMessage_def Let_def Option.bind.simps UInt32determineEncodedSize_eq l(1) l(2) cl
      encodeTL_writes put_eq_puts encodeUInt32_writes by simp
  also have "\<dots> = do { (b, pos) \<leftarrow> puts ?h buf 0; Some (chain_front (take pos b) p) }"
    unfolding puts_bind_assoc uh by (simp add: app_context_def ber_tlv_def ber_len_small appContextNameMms_def)
  also have "\<dots> = Some (chain_front ?h p)"
    using length_user_info_header [OF r, of ?n] ber_len_le [of c] I buf by (intro chain_written) (simp del: ber_len_le)
  finally have 1: "AcseConnection_createAssociateResponseMessage s res buf (Some p) = Some (chain_front ?h p)" .
  have "?h @ xs = aare res (ac_nextReference s) xs" if "length xs = ?n" for xs
  proof -
    have "length (user_info ?ref xs) = length (user_info_header ?ref ?n) + ?n" using user_info_header_append [OF that, of ?ref] that by (metis length_append)
    then have "aare res (ac_nextReference s) xs = (0x61 # ber_len c) @ ?I @ user_info ?ref xs" by (simp add: aare_def ber_tlv_def [of "0x61"] c_def ac_simps)
    then show ?thesis using user_info_header_append [OF that, of ?ref] by simp
  qed
  then show thesis using that 1 by blast
qed

text \<open>The items of a request before the authentication.\<close>

definition request_items :: "IsoConnectionParameters \<Rightarrow> bytes" where
  "request_items ip = app_context
     @ title_items 0xa2 0xa3 (ip_remoteApTitle ip) (ip_remoteApTitleLen ip) (ip_remoteAEQualifier ip)
     @ title_items 0xa6 0xa7 (ip_localApTitle ip) (ip_localApTitleLen ip) (ip_localAEQualifier ip)"

lemma length_request_items: "params_ok ip \<Longrightarrow> length (request_items ip) \<le> 55"
  using length_title_items [of "ip_remoteApTitleLen ip" "0xa2" "0xa3" "ip_remoteApTitle ip" "ip_remoteAEQualifier ip"]
    length_title_items [of "ip_localApTitleLen ip" "0xa6" "0xa7" "ip_localApTitle ip" "ip_localAEQualifier ip"]
  by (simp add: request_items_def params_ok_def app_context_def ber_tlv_def ber_len_small appContextNameMms_def)

lemma createAssociateRequestMessage_octets:
  assumes n: "bc_length p \<le> 60000" and ip: "params_ok ip" and buf: "1200 \<le> length buf"
    and auth: "authentication_size auth = Some k" "encode_authentication auth = puts P" "length P \<le> 1020"
  shows "AcseConnection_createAssociateRequestMessage ip buf p auth =
    Some (chain_front ((0x60 # ber_len (length (request_items ip) + k + (length (user_info_header [3] (bc_length p)) + bc_length p)))
      @ request_items ip @ P @ user_info_header [3] (bc_length p)) p)"
proof -
  let ?n = "bc_length p"
  have r: "length [3 :: u8] \<le> 5" by simp
  define a where "a = length (ber_tlv 0x02 [3]) + (1 + length (ber_len ?n) + ?n)"
  define u where "u = 1 + length (ber_len a) + a"
  have "length [3 :: u8] = 1" by simp
  note l = user_info_lengths [OF n r a_def u_def, unfolded this]
  let ?R = "title_items 0xa2 0xa3 (ip_remoteApTitle ip) (ip_remoteApTitleLen ip) (ip_remoteAEQualifier ip)"
  let ?L = "title_items 0xa6 0xa7 (ip_localApTitle ip) (ip_localApTitleLen ip) (ip_localAEQualifier ip)"
  have uh: "user_info_header [3] ?n = (0xbe # ber_len u) @ (0x28 # ber_len a) @ ber_tlv 0x02 [3] @ (0xa0 # ber_len ?n)"
    by (simp add: user_info_header_def Let_def a_def u_def)
  define c where "c = length (request_items ip) + k + (length (user_info_header [3] ?n) + ?n)"
  let ?h = "(0x60 # ber_len c) @ request_items ip @ P @ user_info_header [3] ?n"
  have t: "length (ip_remoteApTitle ip) = 10" "ip_remoteApTitleLen ip \<le> 10" "length (ip_localApTitle ip) = 10" "ip_localApTitleLen ip \<le> 10"
    using ip by (simp_all add: params_ok_def)
  have cl: "9 + length ?R + length ?L + k + (u + BerEncoder_determineLengthSize u + 1) = c"
    using l(3) by (simp add: c_def request_items_def app_context_def ber_tlv_def ber_len_small appContextNameMms_def)
  note sizes = application_title_size_eq [OF t(2,1), of _ "0xa2" "0xa3"] application_title_size_eq [OF t(4,3), of _ "0xa6" "0xa7"]
  have "AcseConnection_createAssociateRequestMessage ip buf p auth = do {
     (buffer, bufPos) \<leftarrow> puts (0x60 # ber_len c) buf 0;
     (buffer, bufPos) \<leftarrow> puts (0xa1 # ber_len 7) buffer bufPos;
     (buffer, bufPos) \<leftarrow> puts (0x06 # ber_len 5) buffer bufPos;
     (buffer, bufPos) \<leftarrow> puts appContextNameMms buffer bufPos;
     (buffer, bufPos) \<leftarrow> puts ?R buffer bufPos;
     (buffer, bufPos) \<leftarrow> puts ?L buffer bufPos;
     (buffer, bufPos) \<leftarrow> puts P buffer bufPos;
     (buffer, bufPos) \<leftarrow> puts (0xbe # ber_len u) buffer bufPos;
     (buffer, bufPos) \<leftarrow> puts (0x28 # ber_len a) buffer bufPos;
     (buffer, bufPos) \<leftarrow> puts (0x02 # ber_len 1) buffer bufPos;
     (buffer, bufPos) \<leftarrow> puts [3] buffer bufPos;
     (buffer, bufPos) \<leftarrow> puts (0xa0 # ber_len ?n) buffer bufPos;
     Some (chain_front (take bufPos buffer) p) }"
    unfolding AcseConnection_createAssociateRequestMessage_def Let_def auth(1) Option.bind.simps
      sizes l(1) l(2) cl encode_application_title_puts [OF t(2,1)] encode_application_title_puts [OF t(4,3)] auth(2)
      encodeTL_writes put_eq_puts ..
  also have "\<dots> = do { (b, pos) \<leftarrow> puts ?h buf 0; Some (chain_front (take pos b) p) }"
    unfolding puts_bind_assoc uh by (simp add: request_items_def app_context_def ber_tlv_def ber_len_small appContextNameMms_def)
  also have "\<dots> = Some (chain_front ?h p)"
    using length_user_info_header [OF r, of ?n] ber_len_le [of c] length_request_items [OF ip] auth(3) buf
    by (intro chain_written) (unfold length_append list.size, linarith)
  finally show ?thesis unfolding c_def .
qed

lemma createAssociateRequestMessage_eq:
  assumes n: "bc_length p \<le> 60000" and ip: "params_ok ip" and pw: "length (case_option [] id pw) \<le> 1000" and buf: "1200 \<le> length buf"
  obtains h where "AcseConnection_createAssociateRequestMessage ip buf p (password_parameter pw) = Some (chain_front h p)"
    and "\<And>xs. length xs = bc_length p \<Longrightarrow> h @ xs = aarq ip pw xs"
proof -
  let ?n = "bc_length p"
  let ?c = "length (request_items ip) + length (auth_items pw) + (length (user_info_header [3] ?n) + ?n)"
  have "length (auth_items pw) \<le> 1020" using length_auth_items [of pw] pw by linarith
  note 1 = createAssociateRequestMessage_octets [OF n ip buf authentication_size_eq [OF pw] encode_authentication_puts [OF pw] this]
  have "((0x60 # ber_len ?c) @ request_items ip @ auth_items pw @ user_info_header [3] ?n) @ xs = aarq ip pw xs" if "length xs = ?n" for xs
  proof -
    have "length (user_info [3] xs) = length (user_info_header [3] ?n) + ?n" using user_info_header_append [OF that, of "[3]"] that by (metis length_append)
    then have "aarq ip pw xs = (0x60 # ber_len ?c) @ request_items ip @ auth_items pw @ user_info [3] xs"
      by (simp add: aarq_def request_items_def ber_tlv_def [of "0x60"] ac_simps)
    then show ?thesis using user_info_header_append [OF that, of "[3]"] by simp
  qed
  then show thesis using that 1 by blast
qed

text \<open>A mechanism other than a password: four octets are written where eleven are counted.\<close>

lemma other_mechanism:
  assumes "ap_mechanism a \<noteq> ACSE_AUTH_PASSWORD"
  shows "authentication_size (Some a) = Some 11" and "encode_authentication (Some a) = puts [0x8a, 2, 4, 0]"
proof -
  show "authentication_size (Some a) = Some 11" using assms by (simp add: authentication_size_def)
  show "encode_authentication (Some a) = puts [0x8a, 2, 4, 0]"
    using assms by (intro ext) (simp add: encode_authentication_def writer_simps ber_len_small)
qed

end
