(* ===== verification/AcseAssociate.thy ===== *)
theory AcseAssociate
  imports AcsePdu
begin

text \<open>
  Associations: the PDUs are parsed back to what was put in, a request is accepted exactly when the authenticator accepts it, and
  three messages on which the layer does not do that.
\<close>

subsection \<open>User information\<close>

definition acse_payload :: "AcseConnection \<Rightarrow> bytes \<Rightarrow> bytes \<Rightarrow> bool" where
  "acse_payload s buf xs \<longleftrightarrow>
     (\<exists>q. ac_userDataBuffer s = Some q \<and> ac_userDataBufferSize s = length xs \<and> take (length xs) (drop q buf) = xs)"

lemma user_info_parsed:
  assumes d: "drop pos buf = (ber_tlv 0x02 ref @ ber_tlv 0xa0 xs) @ zs" and ref: "ref \<noteq> []" "length ref < 2 ^ 24" and xs: "xs \<noteq> []" "length xs < 2 ^ 24"
    and e: "e = pos + length (ber_tlv 0x02 ref @ ber_tlv 0xa0 xs)" "e < 2 ^ 31"
  shows "\<exists>q. parseUserInformation s buf base pos e = Some (Some e, True,
      s\<lparr>ac_nextReference := word_of_nat (be_nat ref), ac_userDataBufferSize := length xs, ac_userDataBuffer := Some q\<rparr>)
    \<and> take (length xs) (drop q buf) = xs"
proof -
  let ?p = "pos + length (ber_tlv 0x02 ref)" and ?s = "s\<lparr>ac_nextReference := word_of_nat (be_nat ref)\<rparr>"
  have d1: "drop pos buf = ber_tlv 0x02 ref @ (ber_tlv 0xa0 xs @ zs)" using d by simp
  obtain q where q: "rd buf pos = Some 0x02" "BerDecoder_decodeLength buf (pos + 1) e = Some (LenOk q (length ref))"
    "q + length ref = ?p" "drop q buf = ref @ (ber_tlv 0xa0 xs @ zs)" "drop ?p buf = ber_tlv 0xa0 xs @ zs"
    by (rule element [OF d1 ref(2) _ e(2)]) (use e(1) in auto)
  have e1: "?p + length (ber_tlv 0xa0 xs) = e" using e(1) by simp
  then have lt: "pos < e" "?p < e" by (simp_all add: ber_tlv_def)
  obtain r where r: "rd buf ?p = Some 0xa0" "BerDecoder_decodeLength buf (?p + 1) e = Some (LenOk r (length xs))"
    "r + length xs = e" "drop r buf = xs @ zs"
    by (rule element [OF q(5) xs(2) _ e(2)]) (use e1 in auto)
  have "user_info_loop s buf base pos e False False = user_info_loop ?s buf base ?p e True False"
    using q(1-3) lt ref(1) decodeUint32_be [OF q(4)] by (subst user_info_loop.simps) (simp add: user_info_step_def)
  also have "\<dots> = user_info_loop (?s\<lparr>ac_userDataBufferSize := length xs, ac_userDataBuffer := Some r\<rparr>) buf base e e True True"
    using r(1-3) lt xs(1) by (subst user_info_loop.simps) (simp add: user_info_step_def)
  also have "\<dots> = Some (Some e, True, ?s\<lparr>ac_userDataBufferSize := length xs, ac_userDataBuffer := Some r\<rparr>)"
    by (subst user_info_loop.simps) (simp add: user_info_step_def)
  finally show ?thesis using r(4) by (auto simp: parseUserInformation_def)
qed

text \<open>The element of the user information in a PDU, with its content at \<open>q\<close>.\<close>

lemma user_information_parsed:
  assumes d: "drop q buf = ber_tlv 0x28 (ber_tlv 0x02 ref @ ber_tlv 0xa0 xs) @ zs" and ref: "ref \<noteq> []" "length ref \<le> 5" and xs: "xs \<noteq> []" "length xs \<le> 60000"
    and e: "q + length (ber_tlv 0x28 (ber_tlv 0x02 ref @ ber_tlv 0xa0 xs)) \<le> e" "e < 2 ^ 31"
  shows "\<exists>p. user_information s buf base q n e u = Some (Some (q + length (ber_tlv 0x28 (ber_tlv 0x02 ref @ ber_tlv 0xa0 xs))), True,
      s\<lparr>ac_nextReference := word_of_nat (be_nat ref), ac_userDataBufferSize := length xs, ac_userDataBuffer := Some p\<rparr>)
    \<and> take (length xs) (drop p buf) = xs"
proof -
  let ?c = "ber_tlv 0x02 ref @ ber_tlv 0xa0 xs"
  have c: "length ?c < 2 ^ 24" using ref(2) xs(2) ber_len_le [of "length ref"] ber_len_le [of "length xs"] by (simp add: length_ber_tlv del: ber_len_le)
  obtain r where r: "rd buf q = Some 0x28" "BerDecoder_decodeLength buf (q + 1) e = Some (LenOk r (length ?c))"
    "r + length ?c = q + length (ber_tlv 0x28 ?c)" "drop r buf = ?c @ zs"
    by (rule element [OF d c e])
  have "r + length ?c < 2 ^ 31" using r(3) e by linarith
  then have "\<exists>p. parseUserInformation s buf base r (r + length ?c) = Some (Some (r + length ?c), True,
      s\<lparr>ac_nextReference := word_of_nat (be_nat ref), ac_userDataBufferSize := length xs, ac_userDataBuffer := Some p\<rparr>)
    \<and> take (length xs) (drop p buf) = xs" using user_info_parsed [OF r(4) ref(1) _ xs(1) _ refl] ref(2) xs(2) by simp
  moreover have "user_information s buf base q n e u = parseUserInformation s buf base r (r + length ?c)"
    using r(1,2) by (simp add: user_information_def)
  ultimately show ?thesis unfolding r(3) by simp
qed

subsection \<open>Responses\<close>

lemma aare_step:
  assumes d: "drop pos buf = ber_tlv tag xs @ zs" and xs: "xs \<noteq> []" "length xs < 2 ^ 24" and e: "pos + length (ber_tlv tag xs) \<le> e" "e < 2 ^ 31"
  obtains q where "aare_loop s buf base pos e u res =
      (if tag = 0xa2 then do {
         r \<leftarrow> BerDecoder_decodeLength buf (q + 1) e;
         case r of
           LenErr \<Rightarrow> Some (ACSE_ERROR, s)
         | LenOk p n \<Rightarrow> do { res \<leftarrow> BerDecoder_decodeUint32 buf n p; aare_loop s buf base (p + n) e u res } }
       else if tag = 0xbe then do {
         (p, u, s) \<leftarrow> user_information s buf base q (length xs) e u;
         case p of None \<Rightarrow> Some (ACSE_ERROR, s) | Some p \<Rightarrow> aare_loop s buf base p e u res }
       else if tag = 0x00 then aare_loop s buf base q e u res
       else aare_loop s buf base (pos + length (ber_tlv tag xs)) e u res)"
    "q + length xs = pos + length (ber_tlv tag xs)" "drop q buf = xs @ zs" "drop (pos + length (ber_tlv tag xs)) buf = zs"
proof -
  obtain q where q: "rd buf pos = Some tag" "BerDecoder_decodeLength buf (pos + 1) e = Some (LenOk q (length xs))"
    "q + length xs = pos + length (ber_tlv tag xs)" "drop q buf = xs @ zs" "drop (pos + length (ber_tlv tag xs)) buf = zs" "pos + 1 < q"
    by (rule element [OF d xs(2) e])
  have "pos < e" using q(3,6) e(1) by linarith
  then show thesis using q xs(1) by (intro that [of q]) (subst aare_loop.simps, simp_all cong: if_cong)
qed

lemma app_context_content: "app_context = ber_tlv 0xa1 (ber_tlv 0x06 appContextNameMms)" "ber_tlv 0x06 appContextNameMms \<noteq> []"
  "length (ber_tlv 0x06 appContextNameMms) < 2 ^ 24"
  by (simp_all add: app_context_def ber_tlv_def ber_len_small appContextNameMms_def)

lemma aare_parsed:
  assumes d: "drop pos buf = (app_context @ ber_tlv 0xa2 (ber_tlv 0x02 [res]) @ ber_tlv 0xa3 (ber_tlv 0xa1 (ber_tlv 0x02 [0])) @ user_info ref xs) @ zs"
    and ref: "ref \<noteq> []" "length ref \<le> 5" and xs: "xs \<noteq> []" "length xs \<le> 60000"
    and e: "e = pos + length (app_context @ ber_tlv 0xa2 (ber_tlv 0x02 [res]) @ ber_tlv 0xa3 (ber_tlv 0xa1 (ber_tlv 0x02 [0])) @ user_info ref xs)" "e < 2 ^ 31"
  shows "\<exists>p. parseAarePdu s buf base pos e = Some (if res = 0 then ACSE_ASSOCIATE else ACSE_ASSOCIATE_FAILED,
      s\<lparr>ac_nextReference := word_of_nat (be_nat ref), ac_userDataBufferSize := length xs, ac_userDataBuffer := Some p\<rparr>)
    \<and> take (length xs) (drop p buf) = xs"
proof -
  let ?A = app_context and ?B = "ber_tlv 0xa2 (ber_tlv 0x02 [res])" and ?C = "ber_tlv 0xa3 (ber_tlv 0xa1 (ber_tlv 0x02 [0]))"
  let ?c = "ber_tlv 0x02 ref @ ber_tlv 0xa0 xs" and ?r = "ucast res :: u32"
  have U: "user_info ref xs = ber_tlv 0xbe (ber_tlv 0x28 ?c)" by (simp add: user_info_def)
  have len: "e = pos + length ?A + length ?B + length ?C + length (user_info ref xs)" using e(1) by (simp only: length_append add.assoc)
  have dA: "drop pos buf = ber_tlv 0xa1 (ber_tlv 0x06 appContextNameMms) @ (?B @ ?C @ user_info ref xs @ zs)" using d by (simp only: app_context_content append_assoc)
  have A: "aare_loop s buf base pos e False 99 = aare_loop s buf base (pos + length ?A) e False 99" "drop (pos + length ?A) buf = ?B @ (?C @ user_info ref xs @ zs)"
    by (rule aare_step [OF dA app_context_content(2,3) _ e(2), of s base False 99], (use len in \<open>simp add: app_context_def\<close>), simp add: app_context_def)+
  let ?p = "pos + length ?A"
  have small: "ber_tlv 0x02 [res] \<noteq> []" "length (ber_tlv 0x02 [res]) < 2 ^ 24" "ber_tlv 0xa1 (ber_tlv 0x02 [0]) \<noteq> []"
    "length (ber_tlv 0xa1 (ber_tlv 0x02 [0])) < 2 ^ 24" by (simp_all add: ber_tlv_def ber_len_small)
  obtain q where q: "aare_loop s buf base ?p e False 99 = do {
         r \<leftarrow> BerDecoder_decodeLength buf (q + 1) e;
         case r of
           LenErr \<Rightarrow> Some (ACSE_ERROR, s)
         | LenOk p n \<Rightarrow> do { res \<leftarrow> BerDecoder_decodeUint32 buf n p; aare_loop s buf base (p + n) e False res } }"
    "q + length (ber_tlv 0x02 [res]) = ?p + length ?B" "drop q buf = ber_tlv 0x02 [res] @ (?C @ user_info ref xs @ zs)" "drop (?p + length ?B) buf = ?C @ (user_info ref xs @ zs)"
    by (rule aare_step [OF A(2) small(1,2) _ e(2), of s base False 99]) (use len in auto)
  obtain v where v: "BerDecoder_decodeLength buf (q + 1) e = Some (LenOk v (length [res]))" "v + length [res] = q + length (ber_tlv 0x02 [res])"
    "drop v buf = [res] @ (?C @ user_info ref xs @ zs)"
    by (rule element [OF q(3) _ _ e(2)]) (use len q(2) in auto)
  have B: "aare_loop s buf base ?p e False 99 = aare_loop s buf base (?p + length ?B) e False ?r"
    using q(1,2) v decodeUint32_octet [of v buf res] by simp
  let ?t = "?p + length ?B"
  have C: "aare_loop s buf base ?t e False ?r = aare_loop s buf base (?t + length ?C) e False ?r" "drop (?t + length ?C) buf = user_info ref xs @ zs"
    by (rule aare_step [OF q(4) small(3,4) _ e(2), of s base False ?r], (use len in simp), simp)+
  let ?w = "?t + length ?C"
  have l28: "length (ber_tlv 0x28 ?c) < 2 ^ 24" "ber_tlv 0x28 ?c \<noteq> []"
    using ref(2) xs(2) ber_len_le [of "length ref"] ber_len_le [of "length xs"] ber_len_le [of "length ?c"] by (simp_all add: length_ber_tlv ber_tlv_def del: ber_len_le)
  have l: "?w + length (ber_tlv 0xbe (ber_tlv 0x28 ?c)) = e" using len unfolding U by simp
  obtain r where r: "aare_loop s buf base ?w e False ?r = do {
         (p, u, s) \<leftarrow> user_information s buf base r (length (ber_tlv 0x28 ?c)) e False;
         case p of None \<Rightarrow> Some (ACSE_ERROR, s) | Some p \<Rightarrow> aare_loop s buf base p e u ?r }"
    "r + length (ber_tlv 0x28 ?c) = e" "drop r buf = ber_tlv 0x28 ?c @ zs"
    using aare_step [OF C(2) [unfolded U] l28(2,1) _ e(2), of s base False ?r] l by auto
  obtain p where p: "user_information s buf base r (length (ber_tlv 0x28 ?c)) e False = Some (Some e, True,
      s\<lparr>ac_nextReference := word_of_nat (be_nat ref), ac_userDataBufferSize := length xs, ac_userDataBuffer := Some p\<rparr>)" "take (length xs) (drop p buf) = xs"
    using user_information_parsed [OF r(3) ref xs _ e(2), of s base "length (ber_tlv 0x28 ?c)" False] r(2) by auto
  have z: "?r = 0 \<longleftrightarrow> res = 0" by (metis ucast_0 ucast_up_down)
  show ?thesis unfolding parseAarePdu_def A(1) B C(1) r(1) p(1)
    by (rule exI [of _ p], subst aare_loop.simps) (simp add: z p(2))
qed

lemma aare_message:
  assumes ref: "ref = ber_u32 r0" and xs: "xs \<noteq> []" "length xs \<le> 60000" and buf: "buf = pre @ aare res r0 xs @ zs" and pre: "length pre < 2 ^ 30"
  shows "\<exists>p. AcseConnection_parseMessage s buf \<lparr>sl_pos = length pre, sl_size = int (length (aare res r0 xs)), sl_maxSize = m\<rparr>
      = Some (if res = 0 then ACSE_ASSOCIATE else ACSE_ASSOCIATE_FAILED,
          s\<lparr>ac_nextReference := r0, ac_userDataBufferSize := length xs, ac_userDataBuffer := Some p\<rparr>)
    \<and> take (length xs) (drop p buf) = xs"
proof -
  let ?b = "length pre"
  define c where "c = app_context @ ber_tlv 0xa2 (ber_tlv 0x02 [res]) @ ber_tlv 0xa3 (ber_tlv 0xa1 (ber_tlv 0x02 [0])) @ user_info ref xs"
  have q: "aare res r0 xs = ber_tlv 0x61 c" by (simp add: aare_def c_def ref)
  have r5: "ref \<noteq> []" "length ref \<le> 5" using length_ber_u32 [of r0] ber_u32_nonempty [of r0] ref by simp_all
  have ul: "length (user_info ref xs) \<le> 60022"
    using length_user_info_header [OF r5(2), of "length xs"] arg_cong [OF user_info_header_append [OF refl, of ref xs], of length] xs(2) by simp
  have "length c = 21 + length (user_info ref xs)" by (simp add: c_def app_context_def ber_tlv_def ber_len_small appContextNameMms_def)
  then have cl: "length c < 2 ^ 24" "?b + length (ber_tlv 0x61 c) < 2 ^ 31"
    using ul pre ber_len_le [of "length c"] by (simp_all add: length_ber_tlv del: ber_len_le)
  have d: "drop ?b buf = ber_tlv 0x61 c @ zs" using buf q by simp
  obtain r where r: "rd buf ?b = Some 0x61" "BerDecoder_decodeLength buf (?b + 1) (?b + length (ber_tlv 0x61 c)) = Some (LenOk r (length c))"
    "r + length c = ?b + length (ber_tlv 0x61 c)" "drop r buf = c @ zs"
    by (rule element [OF d cl(1) le_refl cl(2)])
  have pos: "\<not> int (length (ber_tlv 0x61 c)) < 1" by (simp add: ber_tlv_def)
  obtain p where p: "parseAarePdu s buf ?b r (?b + length (ber_tlv 0x61 c)) = Some (if res = 0 then ACSE_ASSOCIATE else ACSE_ASSOCIATE_FAILED,
      s\<lparr>ac_nextReference := word_of_nat (be_nat ref), ac_userDataBufferSize := length xs, ac_userDataBuffer := Some p\<rparr>)" "take (length xs) (drop p buf) = xs"
    using aare_parsed [OF r(4) [unfolded c_def] r5 xs, of "?b + length (ber_tlv 0x61 c)" s ?b] r(3) cl(2) unfolding c_def by auto
  have "word_of_nat (be_nat ref) = r0" by (simp add: ref be_nat_ber_u32)
  moreover have "AcseConnection_parseMessage s buf \<lparr>sl_pos = ?b, sl_size = int (length (ber_tlv 0x61 c)), sl_maxSize = m\<rparr>
    = parseAarePdu s buf ?b r (?b + length (ber_tlv 0x61 c))"
    using r(1,2) pos unfolding AcseConnection_parseMessage_def Let_def by simp
  ultimately show ?thesis using p unfolding q by auto
qed

text \<open>
  The response created for a request is parsed by the client as the association, or as its failure when the result is not zero;
  the reference and the user data are those put in.
\<close>

theorem associate_response_roundtrip:
  assumes "AcseConnection_createAssociateResponseMessage c res wbuf (Some p) = Some q"
    and "bc_length p = length (concat (bc_parts p))" and "0 < bc_length p" and "bc_length p \<le> 60000" and "100 \<le> length wbuf"
    and "buf = pre @ concat (bc_parts q) @ zs" and "length pre < 2 ^ 30"
  shows "\<exists>t. AcseConnection_parseMessage s buf \<lparr>sl_pos = length pre, sl_size = int (bc_length q), sl_maxSize = m\<rparr>
      = Some (if res = 0 then ACSE_ASSOCIATE else ACSE_ASSOCIATE_FAILED, t)
    \<and> ac_nextReference t = ac_nextReference c \<and> acse_payload t buf (concat (bc_parts p))"
proof -
  define xs where "xs = concat (bc_parts p)"
  have lx: "length xs = bc_length p" using assms(2) by (simp add: xs_def)
  obtain h where h: "AcseConnection_createAssociateResponseMessage c res wbuf (Some p) = Some (chain_front h p)" "h @ xs = aare res (ac_nextReference c) xs"
    by (rule createAssociateResponseMessage_eq [OF assms(4,5), of c res]) (use lx in auto)
  have "concat (bc_parts q) = h @ xs" "bc_length q = length (h @ xs)" using assms(1) h(1) lx by (auto simp: chain_front_def xs_def)
  then have q: "concat (bc_parts q) = aare res (ac_nextReference c) xs" "bc_length q = length (aare res (ac_nextReference c) xs)" unfolding h(2) by simp_all
  have xs: "xs \<noteq> []" "length xs \<le> 60000" using assms(3,4) lx by auto
  from aare_message [OF refl xs assms(6) [unfolded q(1)] assms(7), of s m] show ?thesis
    unfolding q(2) xs_def [symmetric] by (auto simp: acse_payload_def)
qed

subsection \<open>Requests\<close>

lemma aarq_step:
  assumes d: "drop pos buf = ber_tlv tag xs @ zs" and xs: "xs \<noteq> []" "length xs < 2 ^ 24" and e: "pos + length (ber_tlv tag xs) \<le> e" "e < 2 ^ 31"
  obtains q where "aarq_loop s buf base pos e m v u =
      (if tag = 0xa6 then do { s \<leftarrow> calling_ap_title s buf q (length xs); aarq_loop s buf base (pos + length (ber_tlv tag xs)) e m v u }
       else if tag = 0xa7 then do { s \<leftarrow> calling_ae_qualifier s buf q (length xs); aarq_loop s buf base (pos + length (ber_tlv tag xs)) e m v u }
       else if tag = 0x8b then aarq_loop s buf base (pos + length (ber_tlv tag xs)) e (Some xs) v u
       else if tag = 0xac then do {
         r \<leftarrow> BerDecoder_decodeLength buf (q + 1) e;
         case r of
           LenErr \<Rightarrow> Some (ACSE_ASSOCIATE_FAILED, s)
         | LenOk p n \<Rightarrow> do { val \<leftarrow> rdn buf p n; aarq_loop s buf base (p + n) e m (Some val) u } }
       else if tag = 0xbe then do {
         (p, u, s) \<leftarrow> user_information s buf base q (length xs) e u;
         case p of None \<Rightarrow> Some (ACSE_ASSOCIATE_FAILED, s) | Some p \<Rightarrow> aarq_loop s buf base p e m v u }
       else if tag = 0x00 then aarq_loop s buf base q e m v u
       else aarq_loop s buf base (pos + length (ber_tlv tag xs)) e m v u)"
    "q + length xs = pos + length (ber_tlv tag xs)" "drop q buf = xs @ zs" "drop (pos + length (ber_tlv tag xs)) buf = zs"
proof -
  obtain q where q: "rd buf pos = Some tag" "BerDecoder_decodeLength buf (pos + 1) e = Some (LenOk q (length xs))"
    "q + length xs = pos + length (ber_tlv tag xs)" "drop q buf = xs @ zs" "drop (pos + length (ber_tlv tag xs)) buf = zs" "pos + 1 < q"
    by (rule element [OF d xs(2) e])
  have "pos < e" using q(3,6) e(1) by linarith
  moreover have "rdn buf q (length xs) = Some xs" by (rule rdn_drop_append [OF q(4) xs(1)])
  ultimately show thesis using q xs(1) by (intro that [of q]) (subst aarq_loop.simps, simp_all cong: if_cong)
qed

text \<open>The title decoded inside the buffer is the title decoded by itself.\<close>

lemma oid_loop_shift:
  "drop p buf = t @ zs \<Longrightarrow> n = length t \<Longrightarrow> k \<le> n \<Longrightarrow> oid_loop buf (p + k) p n arc cur = oid_loop t k 0 n arc cur"
proof (induction "n - k" arbitrary: k arc cur rule: less_induct)
  case less
  show ?case
  proof (cases "k < n \<and> cur < 10")
    case True
    then have "rd buf (p + k) = Some (t ! k)" "rd t k = Some (t ! k)"
      using rd_drop_nth [OF less(2), of k] less(3) by (simp_all add: rd_def nth_append)
    moreover have "oid_loop buf (p + (k + 1)) p n a c = oid_loop t (k + 1) 0 n a c" for a c
      using less(1) [OF _ less(2,3), of "k + 1" a c] True by auto
    ultimately show ?thesis using True by (subst (1 2) oid_loop.simps) (simp add: Let_def)
  next
    case False
    then show ?thesis by (subst (1 2) oid_loop.simps) auto
  qed
qed

lemma decodeOID_shift: "drop p buf = t @ zs \<Longrightarrow> BerDecoder_decodeOID buf p (length t) = BerDecoder_decodeOID t 0 (length t)"
proof (cases t)
  case (Cons x ts)
  assume d: "drop p buf = t @ zs"
  have "rd buf p = rd t 0" using rd_drop_nth [OF d, of 0] Cons by (simp add: rd_def)
  then show ?thesis using oid_loop_shift [OF d refl, of 1] Cons by (simp add: BerDecoder_decodeOID_def)
qed (simp add: BerDecoder_decodeOID_def oid_loop.simps)

lemma oid_loop_total: "n \<le> length t \<Longrightarrow> \<exists>r. oid_loop t k 0 n arc cur = Some r"
proof (induction "n - k" arbitrary: k arc cur rule: less_induct)
  case less
  show ?case
  proof (cases "k < n \<and> cur < 10")
    case True
    then show ?thesis using less(1) [of "k + 1"] less(2) by (subst oid_loop.simps) (auto simp: rd_def Let_def)
  next
    case False
    then show ?thesis by (subst oid_loop.simps) auto
  qed
qed

lemma decodeOID_total: "\<exists>r. BerDecoder_decodeOID t 0 (length t) = Some r"
  using oid_loop_total [of "length t" t] by (cases t) (auto simp: BerDecoder_decodeOID_def rd_def)

text \<open>The application reference a request gives, given the one stored before.\<close>

definition given_reference :: "IsoConnectionParameters \<Rightarrow> IsoApplicationReference \<Rightarrow> IsoApplicationReference" where
  "given_reference ip r =
     (let t = take (nat (ip_localApTitleLen ip)) (ip_localApTitle ip)
      in if 0 < ip_localApTitleLen ip
         then \<lparr>ar_apTitle = the (BerDecoder_decodeOID t 0 (length t)), ar_aeQualifier = ip_localAEQualifier ip\<rparr> else r)"

lemma inner_element:
  assumes "drop q buf = ber_tlv tag t @ zs" and "length t < 128"
  shows "rd buf q = Some tag" and "rd buf (q + 1) = Some (word_of_nat (length t))" and "drop (q + 2) buf = t @ zs"
    and "unat (word_of_nat (length t) :: u8) = length t" and "length (ber_tlv tag t) = length t + 2"
    and "uint (word_of_nat (length t) :: u8) = int (length t)"
proof -
  have d: "drop q buf = [tag, word_of_nat (length t)] @ (t @ zs)" using assms by (simp add: ber_tlv_def ber_len_small)
  show "rd buf q = Some tag" using rd_drop_nth [OF d, of 0] by simp
  show "rd buf (q + 1) = Some (word_of_nat (length t))" using rd_drop_nth [OF d, of 1] by simp
  show "drop (q + 2) buf = t @ zs" using drop_append_drop [OF d] by (simp add: numeral_2_eq_2)
  show u: "unat (word_of_nat (length t) :: u8) = length t" using assms(2) by (simp add: unat_of_nat)
  show "uint (word_of_nat (length t) :: u8) = int (length t)" using u by (metis uint_nat)
  show "length (ber_tlv tag t) = length t + 2" using assms(2) by (simp add: ber_tlv_def ber_len_small)
qed

lemma calling_ap_title_parsed:
  assumes "drop q buf = ber_tlv 0x06 t @ zs" and "length t < 128"
  shows "calling_ap_title s buf q (length (ber_tlv 0x06 t))
    = Some (s\<lparr>ac_applicationReference := (ac_applicationReference s)\<lparr>ar_apTitle := the (BerDecoder_decodeOID t 0 (length t))\<rparr>\<rparr>)"
  using inner_element [OF assms] decodeOID_shift [of "q + 2" buf t zs] decodeOID_total [of t] by (auto simp: calling_ap_title_def)

lemma decodeInt32_ber_u32: "drop pos buf = ber_u32 v @ zs \<Longrightarrow> BerDecoder_decodeInt32 buf (length (ber_u32 v)) pos = Some v"
proof -
  assume d: "drop pos buf = ber_u32 v @ zs"
  have "be_int (ber_u32 v) = uint v"
    by (simp add: ber_u32_def be_int_compressed) (simp add: be_int_def be_nat_Cons be_nat_mem32)
  then show ?thesis using decodeInt32_be [OF d ber_u32_nonempty] by simp
qed

lemma calling_ae_qualifier_parsed:
  assumes "drop q buf = ber_tlv 0x02 (ber_u32 v) @ zs"
  shows "calling_ae_qualifier s buf q (length (ber_tlv 0x02 (ber_u32 v)))
    = Some (s\<lparr>ac_applicationReference := (ac_applicationReference s)\<lparr>ar_aeQualifier := v\<rparr>\<rparr>)"
proof -
  have "length (ber_u32 v) < 128" using length_ber_u32 [of v] by linarith
  note e = inner_element [OF assms this]
  show ?thesis using e decodeInt32_ber_u32 [OF e(3)] by (simp add: calling_ae_qualifier_def)
qed

text \<open>The groups of elements of a request, one step each.\<close>

lemma aarq_skip:
  assumes "drop pos buf = ber_tlv tag xs @ zs" "xs \<noteq> []" "length xs < 2 ^ 24" "pos + length (ber_tlv tag xs) \<le> e" "e < 2 ^ 31"
    and "tag \<notin> {0xa6, 0xa7, 0x8b, 0xac, 0xbe, 0x00}"
  shows "aarq_loop s buf base pos e m v u = aarq_loop s buf base (pos + length (ber_tlv tag xs)) e m v u"
    and "drop (pos + length (ber_tlv tag xs)) buf = zs"
  using aarq_step [OF assms(1-5), of s base m v u] assms(6) by auto

lemma title_content: "0 < n \<Longrightarrow> n \<le> 10 \<Longrightarrow> length title = 10 \<Longrightarrow> length (take (nat n) title) < 128"
  "ber_tlv t xs \<noteq> []" "length xs < 128 \<Longrightarrow> length (ber_tlv t xs) < 2 ^ 24" "length (ber_u32 q) < 128"
  using length_ber_u32 [of q] by (simp_all add: ber_tlv_def ber_len_small)

lemma called_titles_skipped:
  assumes d: "drop pos buf = title_items 0xa2 0xa3 title n q @ zs" and n: "n \<le> 10" "length title = 10"
    and e: "pos + length (title_items 0xa2 0xa3 title n q) \<le> e" "e < 2 ^ 31"
  shows "aarq_loop s buf base pos e m v u = aarq_loop s buf base (pos + length (title_items 0xa2 0xa3 title n q)) e m v u"
    and "drop (pos + length (title_items 0xa2 0xa3 title n q)) buf = zs"
proof -
  let ?A = "ber_tlv 0xa2 (ber_tlv 0x06 (take (nat n) title))" and ?B = "ber_tlv 0xa3 (ber_tlv 0x02 (ber_u32 q))"
  have "aarq_loop s buf base pos e m v u = aarq_loop s buf base (pos + length (title_items 0xa2 0xa3 title n q)) e m v u
    \<and> drop (pos + length (title_items 0xa2 0xa3 title n q)) buf = zs"
  proof (cases "0 < n")
    case True
    then have i: "title_items 0xa2 0xa3 title n q = ?A @ ?B" by (simp add: title_items_def)
    have dA: "drop pos buf = ?A @ (?B @ zs)" using d i by simp
    note t = title_content(1) [OF True n]
    have A: "aarq_loop s buf base pos e m v u = aarq_loop s buf base (pos + length ?A) e m v u" "drop (pos + length ?A) buf = ?B @ zs"
      using e i by (intro aarq_skip [OF dA title_content(2) title_content(3) [OF t] _ e(2)], simp_all)+
    have B: "aarq_loop s buf base (pos + length ?A) e m v u = aarq_loop s buf base (pos + length ?A + length ?B) e m v u" "drop (pos + length ?A + length ?B) buf = zs"
      using e i by (intro aarq_skip [OF A(2) title_content(2) title_content(3) [OF title_content(4)] _ e(2)], simp_all)+
    show ?thesis using A B i by (simp add: add.assoc)
  qed (use d in \<open>simp add: title_items_def\<close>)
  then show "aarq_loop s buf base pos e m v u = aarq_loop s buf base (pos + length (title_items 0xa2 0xa3 title n q)) e m v u"
    "drop (pos + length (title_items 0xa2 0xa3 title n q)) buf = zs" by simp_all
qed

lemma reference_updated: "(r :: IsoApplicationReference)\<lparr>ar_apTitle := x, ar_aeQualifier := y\<rparr> = \<lparr>ar_apTitle = x, ar_aeQualifier = y\<rparr>"
  by (cases r) simp

lemma calling_titles_parsed:
  assumes d: "drop pos buf = I @ zs" and I: "I = title_items 0xa6 0xa7 (ip_localApTitle ip) (ip_localApTitleLen ip) (ip_localAEQualifier ip)"
    and ip: "params_ok ip" and e: "pos + length I \<le> e" "e < 2 ^ 31"
  shows "aarq_loop s buf base pos e m v u
      = aarq_loop (s\<lparr>ac_applicationReference := given_reference ip (ac_applicationReference s)\<rparr>) buf base (pos + length I) e m v u
    \<and> drop (pos + length I) buf = zs"
proof (cases "0 < ip_localApTitleLen ip")
  case True
  let ?t = "take (nat (ip_localApTitleLen ip)) (ip_localApTitle ip)" and ?q = "ip_localAEQualifier ip"
  let ?A = "ber_tlv 0xa6 (ber_tlv 0x06 ?t)" and ?B = "ber_tlv 0xa7 (ber_tlv 0x02 (ber_u32 ?q))"
  let ?s = "s\<lparr>ac_applicationReference := (ac_applicationReference s)\<lparr>ar_apTitle := the (BerDecoder_decodeOID ?t 0 (length ?t))\<rparr>\<rparr>"
  have i: "I = ?A @ ?B" using True by (simp add: I title_items_def)
  have dA: "drop pos buf = ?A @ (?B @ zs)" using d i by simp
  have t: "length ?t < 128" using ip True by (simp add: params_ok_def)
  have eA: "pos + length ?A \<le> e" "pos + length ?A + length ?B \<le> e" using e(1) i by simp_all
  obtain a where a: "aarq_loop s buf base pos e m v u
      = do { s \<leftarrow> calling_ap_title s buf a (length (ber_tlv 0x06 ?t)); aarq_loop s buf base (pos + length ?A) e m v u }"
    "drop a buf = ber_tlv 0x06 ?t @ (?B @ zs)" "drop (pos + length ?A) buf = ?B @ zs"
    using aarq_step [OF dA title_content(2) title_content(3) [OF t] eA(1) e(2), of s base m v u] by auto
  obtain b where b: "aarq_loop ?s buf base (pos + length ?A) e m v u
      = do { s \<leftarrow> calling_ae_qualifier ?s buf b (length (ber_tlv 0x02 (ber_u32 ?q))); aarq_loop s buf base (pos + length ?A + length ?B) e m v u }"
    "drop b buf = ber_tlv 0x02 (ber_u32 ?q) @ zs" "drop (pos + length ?A + length ?B) buf = zs"
    using aarq_step [OF a(3) title_content(2) title_content(3) [OF title_content(4)] eA(2) e(2), of ?s base m v u] by auto
  have "given_reference ip (ac_applicationReference s) = \<lparr>ar_apTitle = the (BerDecoder_decodeOID ?t 0 (length ?t)), ar_aeQualifier = ?q\<rparr>"
    using True by (simp add: given_reference_def Let_def)
  then show ?thesis unfolding a(1) calling_ap_title_parsed [OF a(2) t] Option.bind.simps b(1) calling_ae_qualifier_parsed [OF b(2)] i
    using b(3) by (simp add: add.assoc reference_updated)
qed (use d in \<open>simp add: I title_items_def given_reference_def\<close>)

lemma auth_items_parsed:
  assumes d: "drop pos buf = auth_items pw @ zs" and pw: "length (case_option [] id pw) \<le> 1000"
    and e: "pos + length (auth_items pw) \<le> e" "e < 2 ^ 31"
  shows "aarq_loop s buf base pos e None None u
      = aarq_loop s buf base (pos + length (auth_items pw)) e (map_option (\<lambda>_. auth_mech_password_oid) pw) pw u
    \<and> drop (pos + length (auth_items pw)) buf = zs"
proof (cases pw)
  case (Some x)
  let ?A = "ber_tlv 0x8a [4, 0x80]" and ?B = "ber_tlv 0x8b auth_mech_password_oid" and ?C = "ber_tlv 0xac (ber_tlv 0x80 x)"
  have i: "auth_items pw = ?A @ ?B @ ?C" by (simp add: auth_items_def Some)
  have dA: "drop pos buf = ?A @ (?B @ ?C @ zs)" using d i by simp
  have len: "pos + length ?A \<le> e" "pos + length ?A + length ?B \<le> e" "pos + length ?A + length ?B + length ?C \<le> e" using e(1) i by simp_all
  have x: "length x < 2 ^ 24" "length (ber_tlv 0x80 x) < 2 ^ 24" using pw Some ber_len_le [of "length x"] by (simp_all add: length_ber_tlv del: ber_len_le)
  have A: "aarq_loop s buf base pos e None None u = aarq_loop s buf base (pos + length ?A) e None None u" "drop (pos + length ?A) buf = ?B @ (?C @ zs)"
    by (rule aarq_skip [OF dA _ _ len(1) e(2)]; simp)+
  have B: "aarq_loop s buf base (pos + length ?A) e None None u = aarq_loop s buf base (pos + length ?A + length ?B) e (Some auth_mech_password_oid) None u"
    "drop (pos + length ?A + length ?B) buf = ?C @ zs"
    using aarq_step [OF A(2) _ _ len(2) e(2), of s base None None u] by (auto simp: auth_mech_password_oid_def)
  let ?p = "pos + length ?A + length ?B"
  obtain c where c: "aarq_loop s buf base ?p e (Some auth_mech_password_oid) None u = do {
         r \<leftarrow> BerDecoder_decodeLength buf (c + 1) e;
         case r of
           LenErr \<Rightarrow> Some (ACSE_ASSOCIATE_FAILED, s)
         | LenOk p n \<Rightarrow> do { val \<leftarrow> rdn buf p n; aarq_loop s buf base (p + n) e (Some auth_mech_password_oid) (Some val) u } }"
    "c + length (ber_tlv 0x80 x) = ?p + length ?C" "drop c buf = ber_tlv 0x80 x @ zs" "drop (?p + length ?C) buf = zs"
    using aarq_step [OF B(2) title_content(2) x(2) len(3) e(2), of s base "Some auth_mech_password_oid" None u] by auto
  obtain r where r: "BerDecoder_decodeLength buf (c + 1) e = Some (LenOk r (length x))" "r + length x = c + length (ber_tlv 0x80 x)" "drop r buf = x @ zs" "c + 1 < r"
    by (rule element [OF c(3) x(1) _ e(2)]) (use c(2) len(3) in auto)
  have "0 < length (ber_tlv 0x80 x)" by (simp add: ber_tlv_def)
  then have "r \<le> length buf" using r(2) arg_cong [OF c(3), of length] by (simp del: length_greater_0_conv)
  then have "rdn buf r (length x) = Some x" using r(3) rdn_drop_append [OF r(3)] by (cases "x = []") (auto simp: rdn_def)
  then show ?thesis using A(1) B(1) c(1,2,4) r(1,2) i Some by (simp add: add.assoc)
qed (use d in \<open>simp add: auth_items_def\<close>)

text \<open>The whole content of a request.\<close>

lemma aarq_parsed:
  assumes d: "drop pos buf = (app_context
     @ title_items 0xa2 0xa3 (ip_remoteApTitle ip) (ip_remoteApTitleLen ip) (ip_remoteAEQualifier ip)
     @ title_items 0xa6 0xa7 (ip_localApTitle ip) (ip_localApTitleLen ip) (ip_localAEQualifier ip)
     @ auth_items pw @ user_info [3] xs) @ zs"
    and ip: "params_ok ip" and pw: "length (case_option [] id pw) \<le> 1000" and xs: "xs \<noteq> []" "length xs \<le> 60000"
    and e: "e = pos + length (app_context
     @ title_items 0xa2 0xa3 (ip_remoteApTitle ip) (ip_remoteApTitleLen ip) (ip_remoteAEQualifier ip)
     @ title_items 0xa6 0xa7 (ip_localApTitle ip) (ip_localApTitleLen ip) (ip_localAEQualifier ip)
     @ auth_items pw @ user_info [3] xs)" "e < 2 ^ 31"
  shows "\<exists>p. parseAarqPdu s buf base pos e = Some (finish_aarq
      (s\<lparr>ac_applicationReference := given_reference ip (ac_applicationReference s), ac_nextReference := 3,
         ac_userDataBufferSize := length xs, ac_userDataBuffer := Some p\<rparr>)
      (map_option (\<lambda>_. auth_mech_password_oid) pw) pw True)
    \<and> take (length xs) (drop p buf) = xs"
proof -
  define R where "R = title_items 0xa2 0xa3 (ip_remoteApTitle ip) (ip_remoteApTitleLen ip) (ip_remoteAEQualifier ip)"
  define L where "L = title_items 0xa6 0xa7 (ip_localApTitle ip) (ip_localApTitleLen ip) (ip_localAEQualifier ip)"
  define P where "P = auth_items pw"
  let ?A = app_context and ?c = "ber_tlv 0x02 [3] @ ber_tlv 0xa0 xs" and ?m = "map_option (\<lambda>_. auth_mech_password_oid) pw"
  let ?s = "s\<lparr>ac_applicationReference := given_reference ip (ac_applicationReference s)\<rparr>"
  have U: "user_info [3] xs = ber_tlv 0xbe (ber_tlv 0x28 ?c)" by (simp add: user_info_def)
  have len: "e = pos + length ?A + length R + length L + length P + length (user_info [3] xs)"
    using e(1) by (simp only: R_def L_def P_def length_append add.assoc)
  have dA: "drop pos buf = ber_tlv 0xa1 (ber_tlv 0x06 appContextNameMms) @ (R @ L @ P @ user_info [3] xs @ zs)"
    using d by (simp only: R_def L_def P_def app_context_content append_assoc)
  let ?p1 = "pos + length ?A"
  have A: "aarq_loop s buf base pos e None None False = aarq_loop s buf base ?p1 e None None False" "drop ?p1 buf = R @ (L @ P @ user_info [3] xs @ zs)"
    unfolding app_context_content(1)
    by (rule aarq_skip [OF dA app_context_content(2,3) _ e(2)], (use len in \<open>simp add: app_context_def\<close>), simp)+
  let ?p2 = "?p1 + length R"
  have B: "aarq_loop s buf base ?p1 e None None False = aarq_loop s buf base ?p2 e None None False" "drop ?p2 buf = L @ (P @ user_info [3] xs @ zs)"
    using ip len unfolding R_def
    by (intro called_titles_skipped [OF A(2) [unfolded R_def] _ _ _ e(2)], simp_all add: params_ok_def R_def)+
  let ?p3 = "?p2 + length L"
  have C: "aarq_loop s buf base ?p2 e None None False = aarq_loop ?s buf base ?p3 e None None False" "drop ?p3 buf = P @ (user_info [3] xs @ zs)"
    using calling_titles_parsed [OF B(2) L_def ip _ e(2), of s base None None False] len by simp_all
  let ?p4 = "?p3 + length P"
  have D: "aarq_loop ?s buf base ?p3 e None None False = aarq_loop ?s buf base ?p4 e ?m pw False" "drop ?p4 buf = user_info [3] xs @ zs"
    using auth_items_parsed [OF C(2) [unfolded P_def] pw _ e(2), of ?s base False] len unfolding P_def by simp_all
  have l28: "length (ber_tlv 0x28 ?c) < 2 ^ 24" "ber_tlv 0x28 ?c \<noteq> []"
    using xs(2) ber_len_le [of "length xs"] ber_len_le [of "length ?c"] by (simp_all add: length_ber_tlv ber_tlv_def ber_len_small del: ber_len_le)
  have l: "?p4 + length (ber_tlv 0xbe (ber_tlv 0x28 ?c)) = e" using len unfolding U by simp
  obtain r where r: "aarq_loop ?s buf base ?p4 e ?m pw False = do {
         (p, u, s) \<leftarrow> user_information ?s buf base r (length (ber_tlv 0x28 ?c)) e False;
         case p of None \<Rightarrow> Some (ACSE_ASSOCIATE_FAILED, s) | Some p \<Rightarrow> aarq_loop s buf base p e ?m pw u }"
    "r + length (ber_tlv 0x28 ?c) = e" "drop r buf = ber_tlv 0x28 ?c @ zs"
    using aarq_step [OF D(2) [unfolded U] l28(2,1) _ e(2), of ?s base ?m pw False] l by auto
  obtain p where p: "user_information ?s buf base r (length (ber_tlv 0x28 ?c)) e False = Some (Some e, True,
      ?s\<lparr>ac_nextReference := 3, ac_userDataBufferSize := length xs, ac_userDataBuffer := Some p\<rparr>)" "take (length xs) (drop p buf) = xs"
    using user_information_parsed [OF r(3) _ _ xs _ e(2), of ?s base "length (ber_tlv 0x28 ?c)" False] r(2) be_nat_snoc [of "[]" 3] by auto
  show ?thesis unfolding parseAarqPdu_def A(1) B(1) C(1) D(1) r(1) p(1)
    by (rule exI [of _ p], subst aarq_loop.simps) (simp add: p(2))
qed

lemma aarq_message:
  assumes ip: "params_ok ip" and pw: "length (case_option [] id pw) \<le> 1000" and xs: "xs \<noteq> []" "length xs \<le> 60000"
    and buf: "buf = pre @ aarq ip pw xs @ zs" and pre: "length pre < 2 ^ 30"
  shows "\<exists>p. AcseConnection_parseMessage s buf \<lparr>sl_pos = length pre, sl_size = int (length (aarq ip pw xs)), sl_maxSize = m\<rparr>
      = Some (finish_aarq
      (s\<lparr>ac_applicationReference := given_reference ip (ac_applicationReference s), ac_nextReference := 3,
         ac_userDataBufferSize := length xs, ac_userDataBuffer := Some p\<rparr>) (map_option (\<lambda>_. auth_mech_password_oid) pw) pw True)
    \<and> take (length xs) (drop p buf) = xs"
proof -
  let ?b = "length pre"
  define c where "c = app_context
     @ title_items 0xa2 0xa3 (ip_remoteApTitle ip) (ip_remoteApTitleLen ip) (ip_remoteAEQualifier ip)
     @ title_items 0xa6 0xa7 (ip_localApTitle ip) (ip_localApTitleLen ip) (ip_localAEQualifier ip)
     @ auth_items pw @ user_info [3] xs"
  have q: "aarq ip pw xs = ber_tlv 0x60 c" by (simp add: aarq_def c_def)
  have "length (user_info [3] xs) \<le> 60022"
    using length_user_info_header [of "[3]" "length xs"] arg_cong [OF user_info_header_append [OF refl, of "[3]" xs], of length] xs(2) by simp
  moreover have "c = request_items ip @ auth_items pw @ user_info [3] xs" by (simp add: c_def request_items_def)
  ultimately have "length c \<le> 70000" using length_auth_items [of pw] pw length_request_items [OF ip] by simp
  then have cl: "length c < 2 ^ 24" "?b + length (ber_tlv 0x60 c) < 2 ^ 31"
    using pre ber_len_le [of "length c"] by (simp_all add: length_ber_tlv del: ber_len_le)
  have d: "drop ?b buf = ber_tlv 0x60 c @ zs" using buf q by simp
  obtain r where r: "rd buf ?b = Some 0x60" "BerDecoder_decodeLength buf (?b + 1) (?b + length (ber_tlv 0x60 c)) = Some (LenOk r (length c))"
    "r + length c = ?b + length (ber_tlv 0x60 c)" "drop r buf = c @ zs"
    by (rule element [OF d cl(1) le_refl cl(2)])
  have pos: "\<not> int (length (ber_tlv 0x60 c)) < 1" by (simp add: ber_tlv_def)
  have m: "AcseConnection_parseMessage s buf \<lparr>sl_pos = ?b, sl_size = int (length (ber_tlv 0x60 c)), sl_maxSize = m\<rparr>
    = parseAarqPdu s buf ?b r (?b + length (ber_tlv 0x60 c))"
    using r(1,2) pos unfolding AcseConnection_parseMessage_def Let_def by simp
  have e: "?b + length (ber_tlv 0x60 c) = r + length c" using r(3) by simp
  from aarq_parsed [OF r(4) [unfolded c_def] ip pw xs e [unfolded c_def] cl(2) [unfolded c_def], of s ?b] show ?thesis
    unfolding q m unfolding c_def .
qed

text \<open>
  C11: A request the client creates, with a password or without, is accepted by the server exactly when no authenticator is set or
  the authenticator accepts the mechanism, the password and the application reference of the request; the user data are those put in.
\<close>

theorem associate_request_roundtrip:
  assumes "AcseConnection_createAssociateRequestMessage ip wbuf p (password_parameter pw) = Some q" and "params_ok ip"
    and "length (case_option [] id pw) \<le> 1000" and "bc_length p = length (concat (bc_parts p))" and "0 < bc_length p" and "bc_length p \<le> 60000"
    and "1200 \<le> length wbuf" and "buf = pre @ concat (bc_parts q) @ zs" and "length pre < 2 ^ 30"
  shows "\<exists>t. AcseConnection_parseMessage s buf \<lparr>sl_pos = length pre, sl_size = int (bc_length q), sl_maxSize = m\<rparr>
      = Some (case ac_authenticator s of
          None \<Rightarrow> ACSE_ASSOCIATE
        | Some f \<Rightarrow>
            if fst (f \<lparr>ap_mechanism = (if pw = None then ACSE_AUTH_NONE else ACSE_AUTH_PASSWORD), ap_password = pw\<rparr> None
                 (given_reference ip (ac_applicationReference s)))
            then ACSE_ASSOCIATE else ACSE_ASSOCIATE_FAILED, t)
    \<and> ac_nextReference t = 3 \<and> acse_payload t buf (concat (bc_parts p))"
proof -
  define xs where "xs = concat (bc_parts p)"
  have lx: "length xs = bc_length p" using assms(4) by (simp add: xs_def)
  obtain h where h: "AcseConnection_createAssociateRequestMessage ip wbuf p (password_parameter pw) = Some (chain_front h p)" "h @ xs = aarq ip pw xs"
    by (rule createAssociateRequestMessage_eq [OF assms(6,2,3,7)]) (use lx in auto)
  have "concat (bc_parts q) = h @ xs" "bc_length q = length (h @ xs)" using assms(1) h(1) lx by (auto simp: chain_front_def xs_def)
  then have q: "concat (bc_parts q) = aarq ip pw xs" "bc_length q = length (aarq ip pw xs)" unfolding h(2) by simp_all
  have xs: "xs \<noteq> []" "length xs \<le> 60000" using assms(5,6) lx by auto
  from aarq_message [OF assms(2,3) xs assms(8) [unfolded q(1)] assms(9), of s m] show ?thesis
    unfolding q(2) xs_def [symmetric]
    by (cases "ac_authenticator s"; cases pw)
       (auto simp: finish_aarq_def checkAuthentication_def authenticateClient_def checkAuthMechanismName_def Let_def acse_payload_def case_prod_beta)
qed

subsection \<open>Who is let in\<close>

text \<open>An authenticator that let a request in: it accepted, and its token is the one of the connection.\<close>

lemma finish_aarq_associate:
  assumes "finish_aarq s m v u = (ACSE_ASSOCIATE, t)" and "ac_authenticator s = Some f"
  shows "\<exists>param r r'. f param None r = (True, ac_securityToken t, r')"
  using assms by (auto simp: finish_aarq_def checkAuthentication_def authenticateClient_def Let_def split: prod.splits if_splits) blast+

lemma user_information_authenticator:
  "user_information s buf base q n e u = Some (p, u', t) \<Longrightarrow> ac_authenticator t = ac_authenticator s"
  by (auto simp: user_information_def parseUserInformation_def split: bind_splits if_splits len_result.splits dest!: user_info_loop_result)

lemma calling_authenticator:
  "calling_ap_title s buf q n = Some t \<Longrightarrow> ac_authenticator t = ac_authenticator s"
  "calling_ae_qualifier s buf q n = Some t \<Longrightarrow> ac_authenticator t = ac_authenticator s"
  by (auto simp: calling_ap_title_def calling_ae_qualifier_def split: bind_splits if_splits)

lemma aarq_loop_associate:
  "aarq_loop s buf base pos e m v u = Some (ACSE_ASSOCIATE, t) \<Longrightarrow> ac_authenticator s = Some f \<Longrightarrow>
     \<exists>param r r'. f param None r = (True, ac_securityToken t, r')"
proof (induction "e - pos" arbitrary: s pos m v u rule: less_induct)
  case less
  show ?case
  proof (cases "pos < e")
    case True
    have step: "pos < pos' \<Longrightarrow> aarq_loop s' buf base pos' e m' v' u' = Some (ACSE_ASSOCIATE, t) \<Longrightarrow> ac_authenticator s' = ac_authenticator s \<Longrightarrow> ?thesis"
      for s' pos' m' v' u' using less(1) [of pos' s' m' v' u'] less(3) True by simp
    obtain tag q n where r: "rd buf pos = Some tag" "BerDecoder_decodeLength buf (pos + 1) e = Some (LenOk q n)"
      using less(2) True by (subst (asm) aarq_loop.simps) (auto split: bind_splits len_result.splits)
    have q: "pos < q" using decodeLength_bounds [OF r(2)] by simp
    note l = trans [OF aarq_loop.simps [of s buf base pos e m v u, symmetric] less(2)]
    consider "n = 0" | "n \<noteq> 0" "tag = 0xa6" | "n \<noteq> 0" "tag = 0xa7" | "n \<noteq> 0" "tag = 0x8b" | "n \<noteq> 0" "tag = 0xac" | "n \<noteq> 0" "tag = 0xbe"
      | "n \<noteq> 0" "tag \<notin> {0xa6, 0xa7, 0x8b, 0xac, 0xbe}" by blast
    then show ?thesis
    proof cases
      case 1
      then show ?thesis using l r True q by (intro step [of q s m v u]) simp_all
    next
      case 2
      then show ?thesis using l r True q calling_authenticator(1) by (auto split: bind_splits intro: step [of "q + n" _ m v u])
    next
      case 3
      then show ?thesis using l r True q calling_authenticator(2) by (auto split: bind_splits intro: step [of "q + n" _ m v u])
    next
      case 4
      then show ?thesis using l r True q by (auto split: bind_splits intro: step [of "q + n" s _ v u])
    next
      case 5
      then obtain q' n' val where "BerDecoder_decodeLength buf (q + 1) e = Some (LenOk q' n')"
        "aarq_loop s buf base (q' + n') e m (Some val) u = Some (ACSE_ASSOCIATE, t)"
        using l r True by (auto split: bind_splits len_result.splits)
      then show ?thesis using q decodeLength_bounds [of buf "q + 1" e] by (intro step [of "q' + n'" s m "Some val" u]) auto
    next
      case 6
      then obtain p' u' s' where "user_information s buf base q n e u = Some (Some p', u', s')"
        "aarq_loop s' buf base p' e m v u' = Some (ACSE_ASSOCIATE, t)"
        using l r True by (auto split: bind_splits option.splits)
      then show ?thesis using q user_information_pos user_information_authenticator by (intro step [of p' s' m v u']) fastforce+
    next
      case 7
      then show ?thesis using l r True q by (auto split: if_splits intro: step [of q s m v u] step [of "q + n" s m v u])
    qed
  next
    case False
    then show ?thesis using less(2,3) finish_aarq_associate by (subst (asm) aarq_loop.simps) auto
  qed
qed

text \<open>
  C9: A server with an authenticator answers an association request, whatever its octets, as an association only after the
  authenticator has accepted; the security token of the connection is the one the authenticator left.
\<close>

theorem request_needs_authenticator:
  assumes "AcseConnection_parseMessage s buf msg = Some (ACSE_ASSOCIATE, t)" and "rd buf (sl_pos msg) = Some 0x60" and "ac_authenticator s = Some f"
  shows "\<exists>param r r'. f param None r = (True, ac_securityToken t, r')"
  using assms by (auto simp: AcseConnection_parseMessage_def parseAarqPdu_def Let_def split: if_splits bind_splits len_result.splits dest: aarq_loop_associate)

text \<open>
  C10: The server does not ask for a request: a response PDU in its place, which any peer can send, is an association for every
  authenticator, even one that accepts nobody, and none is asked; the token of the connection stays what it was.
\<close>

theorem response_bypasses_authenticator:
  assumes "xs \<noteq> []" and "length xs \<le> 60000" and "buf = pre @ aare 0 r xs @ zs" and "length pre < 2 ^ 30"
  shows "\<exists>t. AcseConnection_parseMessage (s\<lparr>ac_authenticator := Some (\<lambda>param token ref. (False, None, ref))\<rparr>) buf
      \<lparr>sl_pos = length pre, sl_size = int (length (aare 0 r xs)), sl_maxSize = m\<rparr> = Some (ACSE_ASSOCIATE, t)
    \<and> ac_securityToken t = ac_securityToken s \<and> acse_payload t buf xs"
  using aare_message [OF refl assms(1-4), of "s\<lparr>ac_authenticator := Some (\<lambda>param token ref. (False, None, ref))\<rparr>" m]
  by (auto simp: acse_payload_def)

subsection \<open>A length that is too long\<close>

lemma decode_length_octets_mono:
  "decode_length_octets buf e k pos l = Some (LenOk p n) \<Longrightarrow> e \<le> e' \<Longrightarrow> decode_length_octets buf e' k pos l = Some (LenOk p n)"
proof (induction buf e k pos l rule: decode_length_octets.induct)
  case (2 buf e k pos l)
  from 2(2) obtain x v b where x: "\<not> e \<le> pos" "chk_int (pos + l) = Some x" "\<not> e < x" "chk_int (l * 256) = Some v" "rd buf pos = Some b"
    "decode_length_octets buf e k (pos + 1) (v + unat b) = Some (LenOk p n)" by (auto split: if_splits bind_splits)
  then show ?case using 2(1) [OF x(1-5,6) 2(3)] 2(3) by simp
qed simp

lemma decodeLength_mono:
  assumes "BerDecoder_decodeLength buf pos e = Some (LenOk p n)" and "e \<le> e'" and "rd buf pos = Some b"
    and "b AND 0x80 = 0 \<or> unat (b AND 0x7f) \<noteq> 0"
  shows "BerDecoder_decodeLength buf pos e' = Some (LenOk p n)"
  using assms unfolding BerDecoder_decodeLength_def
  by (subst (asm) BerDecoder_decodeLengthRecursive.simps, subst BerDecoder_decodeLengthRecursive.simps)
     (auto simp: Let_def split: if_splits bind_splits len_result.splits dest: decode_length_octets_mono)

lemma decodeLength_too_long:
  assumes d: "drop pos buf = ber_len n @ r" and n: "n < 2 ^ 24" and e: "e < pos + length (ber_len n) + n" "e \<le> length buf" "e < 2 ^ 22" and pos: "pos < 2 ^ 22"
  shows "BerDecoder_decodeLength buf pos e = Some LenErr"
proof -
  let ?e = "pos + length (ber_len n) + n"
  obtain b bs where b: "ber_len n = b # bs" by (cases "ber_len n") (auto simp: ber_len_def split: if_splits)
  have rd: "rd buf pos = Some b" using rd_drop_nth [OF d, of 0] b by simp
  have bb: "b AND 0x80 = 0 \<or> unat (b AND 0x7f) \<noteq> 0"
  proof (cases "n < 128")
    case True
    then have "unat b < 128" using b by (auto simp: ber_len_def unat_of_nat)
    then show ?thesis using and_0x80_iff(1) [of b] bit7_iff [of b] by auto
  qed (use b in \<open>auto simp: ber_len_def split: if_splits\<close>)
  have "length (ber_len n) \<le> 4" by simp
  then have "?e < 2 ^ 31" using pos n by (simp del: ber_len_le)
  then have ok: "BerDecoder_decodeLength buf pos ?e = Some (LenOk (pos + length (ber_len n)) n)" using decodeLength_ber_len [OF d n] by simp
  obtain x where x: "BerDecoder_decodeLength buf pos e = Some x" using decodeLength_total [OF e(2,3)] by blast
  show ?thesis
  proof (cases x)
    case (LenOk p l)
    then have "p + l \<le> e" "p = pos + length (ber_len n)" "l = n"
      using x ok decodeLength_bounds [of buf pos e p l] decodeLength_mono [OF _ less_imp_le [OF e(1)] rd bb, of p l] by auto
    then show ?thesis using e(1) by simp
  qed (use x in simp)
qed

text \<open>
  C13: A request with an authentication parameter whose mechanism is not a password counts seven octets that it does not
  contain: every peer rejects it as an error, whatever authenticator it has.
\<close>

theorem other_mechanism_rejected:
  assumes "AcseConnection_createAssociateRequestMessage ip wbuf p (Some a) = Some q" and "ap_mechanism a \<noteq> ACSE_AUTH_PASSWORD" and "params_ok ip"
    and "bc_length p = length (concat (bc_parts p))" and "bc_length p \<le> 60000" and "1200 \<le> length wbuf"
    and "buf = pre @ concat (bc_parts q) @ zs" and "length pre < 2 ^ 20"
  shows "AcseConnection_parseMessage s buf \<lparr>sl_pos = length pre, sl_size = int (bc_length q), sl_maxSize = m\<rparr> = Some (ACSE_ERROR, s)"
proof -
  define xs where "xs = concat (bc_parts p)"
  have lx: "length xs = bc_length p" using assms(4) by (simp add: xs_def)
  let ?b = "length pre" and ?u = "user_info_header [3] (bc_length p)"
  define c where "c = length (request_items ip) + 11 + (length ?u + bc_length p)"
  let ?r = "request_items ip @ [0x8a, 2, 4, 0] @ ?u"
  have q: "q = chain_front ((0x60 # ber_len c) @ ?r) p"
    using assms(1) createAssociateRequestMessage_octets [OF assms(5,3,6) other_mechanism [OF assms(2)]] by (simp add: c_def)
  have o: "concat (bc_parts q) = 0x60 # ber_len c @ ?r @ xs" using q by (simp add: chain_front_def xs_def)
  have n: "bc_length q = 1 + length (ber_len c) + length ?r + bc_length p" using q by (simp add: chain_front_def)
  have cr: "c = length ?r + bc_length p + 7" by (simp add: c_def)
  have small: "c \<le> 60100" using assms(5) length_request_items [OF assms(3)] length_user_info_header [of "[3]" "bc_length p"] by (simp add: c_def)
  have le4: "length (ber_len c) \<le> 4" by simp
  have d: "drop ?b buf = (0x60 # ber_len c) @ (?r @ xs @ zs)" using assms(7) o by simp
  have d1: "drop (?b + 1) buf = ber_len c @ (?r @ xs @ zs)" using drop_append_drop [of ?b buf "[0x60]"] d by simp
  have rd: "rd buf ?b = Some 0x60" using rd_drop_nth [OF d, of 0] by simp
  have lb: "?b + bc_length q \<le> length buf" using assms(7) o n lx by simp
  have "BerDecoder_decodeLength buf (?b + 1) (?b + bc_length q) = Some LenErr"
    by (rule decodeLength_too_long [OF d1 _ _ lb]) (use small n cr le4 assms(8) in \<open>simp_all del: ber_len_le\<close>)
  moreover have "0 < bc_length q" using n by simp
  ultimately show ?thesis using rd by (simp add: AcseConnection_parseMessage_def Let_def)
qed

subsection \<open>A message that is never parsed to its end\<close>

text \<open>
  A request of 99 octets behind one octet of the layer below.  The user information ends in an element whose length field is cut
  off; position \<open>-1\<close> reads as an element of 96 octets, the tag of the request, and leads back to it.
\<close>

definition endless_request :: bytes where
  "endless_request = [0, 0x60, 97, 0xbe, 95, 0x28, 93, 0x30, 89] @ replicate 89 0 @ [0x30, 0x81]"

lemma endless_octets:
  "rd endless_request 1 = Some 0x60" "rd endless_request 3 = Some 0xbe" "rd endless_request 5 = Some 0x28"
  "rd endless_request 7 = Some 0x30" "rd endless_request 98 = Some 0x30" "rd endless_request 0 = Some 0"
  by (simp_all add: endless_request_def rd_def nth_append)

lemma endless_lengths:
  "BerDecoder_decodeLength endless_request 2 100 = Some (LenOk 3 97)"
  "BerDecoder_decodeLength endless_request 4 100 = Some (LenOk 5 95)"
  "BerDecoder_decodeLength endless_request 6 100 = Some (LenOk 7 93)"
  "BerDecoder_decodeLength endless_request 8 100 = Some (LenOk 9 89)"
  "BerDecoder_decodeLength endless_request 99 100 = Some LenErr" "length_left endless_request 99 100 = Some 0"
  "BerDecoder_decodeLength endless_request 1 100 = Some (LenOk 2 96)"
proof -
  have len: "length endless_request = 100" by (simp add: endless_request_def)
  have short: "BerDecoder_decodeLength endless_request i 100 = Some (LenOk (i + 1) (unat b))"
    if "i < 100" "endless_request ! i = b" "unat b < 128" "i + 1 + unat b \<le> 100" for i b
    using decodeLength_short [of i endless_request b "drop (Suc i) endless_request" 100] Cons_nth_drop_Suc [of i endless_request] that len by simp
  have n: "endless_request ! 2 = 97" "endless_request ! 4 = 95" "endless_request ! 6 = 93" "endless_request ! 8 = 89" "endless_request ! 1 = 96"
    "endless_request ! 99 = 0x81" by (simp_all add: endless_request_def nth_append)
  show "BerDecoder_decodeLength endless_request 2 100 = Some (LenOk 3 97)" using short [OF _ n(1)] by simp
  show "BerDecoder_decodeLength endless_request 4 100 = Some (LenOk 5 95)" using short [OF _ n(2)] by simp
  show "BerDecoder_decodeLength endless_request 6 100 = Some (LenOk 7 93)" using short [OF _ n(3)] by simp
  show "BerDecoder_decodeLength endless_request 8 100 = Some (LenOk 9 89)" using short [OF _ n(4)] by simp
  show "BerDecoder_decodeLength endless_request 1 100 = Some (LenOk 2 96)" using short [OF _ n(5)] by simp
  have "rd endless_request 99 = Some 0x81" using len n(6) by (simp add: rd_def)
  then show "BerDecoder_decodeLength endless_request 99 100 = Some LenErr" "length_left endless_request 99 100 = Some 0"
    by (simp_all add: BerDecoder_decodeLength_def BerDecoder_decodeLengthRecursive.simps length_left_def)
qed

lemma endless_steps:
  "user_info_step s endless_request 1 7 100 h v = Some (Inl (s, 98, h, v))"
  "user_info_step s endless_request 1 98 100 h v = Some (Inl (s, 0, h, v))"
  "user_info_step s endless_request 1 0 100 h v = Some (Inl (s, 98, h, v))"
  using endless_octets endless_lengths by (simp_all add: user_info_step_def)

lemma endless_loop: "p \<in> {0, 7, 98} \<Longrightarrow> user_info_loop s endless_request 1 p 100 h v = None"
proof (rule ccontr)
  assume "p \<in> {0, 7, 98}" "user_info_loop s endless_request 1 p 100 h v \<noteq> None"
  moreover from this obtain r where "user_info_loop s endless_request 1 p 100 h v = Some r" by blast
  then have "\<not> (endless_request = endless_request \<and> (1 :: nat) = 1 \<and> p \<in> {0, 7, 98} \<and> (100 :: nat) = 100)"
  proof (rule user_info_loop.raw_induct [of "\<lambda>s buffer base p e h v r. \<not> (buffer = endless_request \<and> base = 1 \<and> p \<in> {0, 7, 98} \<and> e = 100)", rotated], goal_cases)
    case (1 loop s buffer base p e h v r)
    show ?case
    proof
      assume "buffer = endless_request \<and> base = 1 \<and> p \<in> {0, 7, 98} \<and> e = 100"
      then have "loop s endless_request 1 98 100 h v = Some r \<or> loop s endless_request 1 0 100 h v = Some r"
        using 1(2) endless_steps by auto
      then show False using 1(1) by blast
    qed
  qed
  ultimately show False by simp
qed

text \<open>
  C12: A message can keep the parser busy for ever, before any authentication: from the element whose length field is cut off it
  goes on at position \<open>-1\<close>, the octet before the message, and from there to the same element in the same state.
\<close>

theorem user_information_never_ends:
  shows "user_info_step s endless_request 1 98 100 False False = Some (Inl (s, 0, False, False))
    \<and> user_info_step s endless_request 1 0 100 False False = Some (Inl (s, 98, False, False))
    \<and> user_info_step s endless_request 1 7 100 False False = Some (Inl (s, 98, False, False))
    \<and> AcseConnection_parseMessage s endless_request \<lparr>sl_pos = 1, sl_size = 99, sl_maxSize = 99\<rparr> = None"
proof (intro conjI endless_steps)
  have "user_information s endless_request 1 5 95 100 False = None"
    using endless_octets(3) endless_lengths(3) endless_loop [of 7 s False False] by (simp add: user_information_def parseUserInformation_def)
  then have "aarq_loop s endless_request 1 3 100 None None False = None"
    using endless_octets(2) endless_lengths(2) by (subst aarq_loop.simps) simp
  then show "AcseConnection_parseMessage s endless_request \<lparr>sl_pos = 1, sl_size = 99, sl_maxSize = 99\<rparr> = None"
    using endless_octets(1) endless_lengths(1) by (simp add: AcseConnection_parseMessage_def Let_def parseAarqPdu_def numeral_2_eq_2)
qed

subsection \<open>Witnesses\<close>

definition ex_acse :: "AcseAuthenticator option \<Rightarrow> AcseConnection" where
  "ex_acse f = \<lparr>ac_nextReference = 0, ac_userDataBuffer = None, ac_userDataBufferSize = 0, ac_authenticator = f,
     ac_applicationReference = \<lparr>ar_apTitle = (replicate 10 0, 0), ar_aeQualifier = 0\<rparr>, ac_securityToken = None\<rparr>"

definition ex_params :: IsoConnectionParameters where
  "ex_params = \<lparr>ip_remoteApTitle = [0x29, 1, 0x87, 0x67, 1, 0, 0, 0, 0, 0], ip_remoteApTitleLen = 5, ip_remoteAEQualifier = 12,
     ip_localApTitle = [0x29, 1, 0x87, 0x67, 0, 0, 0, 0, 0, 0], ip_localApTitleLen = 4, ip_localAEQualifier = 12\<rparr>"

text \<open>An authenticator that knows one password.\<close>

definition ex_authenticator :: "bytes \<Rightarrow> AcseAuthenticator" where
  "ex_authenticator pw param token ref = (ap_mechanism param = ACSE_AUTH_PASSWORD \<and> ap_password param = Some pw, Some 1, ref)"

lemma ex_params_ok: "params_ok ex_params"
  by (simp add: params_ok_def ex_params_def)

theorem associate_response_roundtrip_witness:
  "\<exists>q t. AcseConnection_createAssociateResponseMessage (ex_acse None) 0 (replicate 100 0) (Some ex_payload) = Some q
    \<and> AcseConnection_parseMessage (ex_acse None) ([5] @ concat (bc_parts q) @ [0]) \<lparr>sl_pos = 1, sl_size = int (bc_length q), sl_maxSize = 500\<rparr> = Some (ACSE_ASSOCIATE, t)
    \<and> acse_payload t ([5] @ concat (bc_parts q) @ [0]) [7, 8, 9]"
proof -
  have n: "100 \<le> length (replicate 100 (0 :: u8))" "bc_length ex_payload \<le> 60000" "length [5 :: u8] < 2 ^ 30" by (simp_all add: ex_payload_def)
  obtain h where q: "AcseConnection_createAssociateResponseMessage (ex_acse None) 0 (replicate 100 0) (Some ex_payload) = Some (chain_front h ex_payload)"
    using createAssociateResponseMessage_eq [OF n(2,1)] by blast
  from associate_response_roundtrip [OF q ex_payload_ok(1,2) n(2,1) refl n(3), where zs = "[0]" and s = "ex_acse None" and m = 500] q show ?thesis
    by (auto simp: ex_payload_ok(4))
qed

theorem associate_request_roundtrip_witness:
  "\<exists>q t. AcseConnection_createAssociateRequestMessage ex_params (replicate 1200 0) ex_payload (password_parameter (Some [1, 2])) = Some q
    \<and> AcseConnection_parseMessage (ex_acse (Some (ex_authenticator [1, 2]))) ([5] @ concat (bc_parts q) @ [0])
      \<lparr>sl_pos = 1, sl_size = int (bc_length q), sl_maxSize = 500\<rparr> = Some (ACSE_ASSOCIATE, t)
    \<and> acse_payload t ([5] @ concat (bc_parts q) @ [0]) [7, 8, 9]"
proof -
  have n: "1200 \<le> length (replicate 1200 (0 :: u8))" "bc_length ex_payload \<le> 60000" "length [5 :: u8] < 2 ^ 30"
    "length (case_option [] id (Some [1 :: u8, 2])) \<le> 1000" by (simp_all add: ex_payload_def)
  obtain h where q: "AcseConnection_createAssociateRequestMessage ex_params (replicate 1200 0) ex_payload (password_parameter (Some [1, 2])) = Some (chain_front h ex_payload)"
    using createAssociateRequestMessage_eq [OF n(2) ex_params_ok n(4,1)] by blast
  from associate_request_roundtrip [OF q ex_params_ok n(4) ex_payload_ok(1,2) n(2,1) refl n(3), where zs = "[0]" and s = "ex_acse (Some (ex_authenticator [1, 2]))" and m = 500] q
  show ?thesis by (auto simp: ex_payload_ok(4) ex_acse_def ex_authenticator_def)
qed

theorem request_needs_authenticator_witness:
  "\<exists>t. AcseConnection_parseMessage (ex_acse (Some (ex_authenticator [1, 2]))) ([5] @ aarq ex_params (Some [1, 2]) [7, 8, 9] @ [0])
      \<lparr>sl_pos = 1, sl_size = int (length (aarq ex_params (Some [1, 2]) [7, 8, 9])), sl_maxSize = 500\<rparr> = Some (ACSE_ASSOCIATE, t)
    \<and> (\<exists>param r r'. ex_authenticator [1, 2] param None r = (True, ac_securityToken t, r'))"
proof -
  let ?s = "ex_acse (Some (ex_authenticator [1, 2]))" and ?buf = "[5] @ aarq ex_params (Some [1, 2]) [7, 8, 9] @ [0]"
  let ?m = "\<lparr>sl_pos = 1, sl_size = int (length (aarq ex_params (Some [1, 2]) [7, 8, 9])), sl_maxSize = 500\<rparr>"
  have "\<exists>t. AcseConnection_parseMessage ?s ?buf ?m = Some (ACSE_ASSOCIATE, t)"
    using aarq_message [OF ex_params_ok _ _ _ refl, where pw = "Some [1, 2]" and xs = "[7, 8, 9]" and pre = "[5]" and zs = "[0]" and s = ?s and m = 500]
    by (auto simp: finish_aarq_def checkAuthentication_def authenticateClient_def checkAuthMechanismName_def Let_def ex_acse_def ex_authenticator_def)
  then obtain t where t: "AcseConnection_parseMessage ?s ?buf ?m = Some (ACSE_ASSOCIATE, t)" by blast
  have "rd ?buf (sl_pos ?m) = Some 0x60" by (simp add: rd_def aarq_def ber_tlv_def)
  from request_needs_authenticator [OF t this, of "ex_authenticator [1, 2]"] t show ?thesis by (auto simp: ex_acse_def)
qed

theorem response_bypasses_authenticator_witness:
  "\<exists>t. AcseConnection_parseMessage (ex_acse (Some (\<lambda>param token ref. (False, None, ref)))) ([5] @ aare 0 3 [7, 8, 9] @ [0])
      \<lparr>sl_pos = 1, sl_size = int (length (aare 0 3 [7, 8, 9])), sl_maxSize = 500\<rparr> = Some (ACSE_ASSOCIATE, t)
    \<and> acse_payload t ([5] @ aare 0 3 [7, 8, 9] @ [0]) [7, 8, 9]"
  using response_bypasses_authenticator [OF _ _ refl, where xs = "[7, 8, 9]" and pre = "[5]" and r = 3 and zs = "[0]" and s = "ex_acse None" and m = 500] by (auto simp: ex_acse_def)

theorem other_mechanism_rejected_witness:
  "\<exists>q. AcseConnection_createAssociateRequestMessage ex_params (replicate 1200 0) ex_payload (Some \<lparr>ap_mechanism = ACSE_AUTH_NONE, ap_password = None\<rparr>) = Some q
    \<and> AcseConnection_parseMessage (ex_acse None) ([5] @ concat (bc_parts q) @ [0]) \<lparr>sl_pos = 1, sl_size = int (bc_length q), sl_maxSize = 500\<rparr>
      = Some (ACSE_ERROR, ex_acse None)"
proof -
  let ?a = "\<lparr>ap_mechanism = ACSE_AUTH_NONE, ap_password = None\<rparr> :: AcseAuthenticationParameter"
  have n: "1200 \<le> length (replicate 1200 (0 :: u8))" "bc_length ex_payload \<le> 60000" "length [5 :: u8] < 2 ^ 20" "ap_mechanism ?a \<noteq> ACSE_AUTH_PASSWORD"
    by (simp_all add: ex_payload_def)
  obtain q where q: "AcseConnection_createAssociateRequestMessage ex_params (replicate 1200 0) ex_payload (Some ?a) = Some q"
    using createAssociateRequestMessage_octets [OF n(2) ex_params_ok n(1) other_mechanism [OF n(4)]] by simp
  from other_mechanism_rejected [OF q n(4) ex_params_ok ex_payload_ok(1) n(2,1) refl n(3), where zs = "[0]" and s = "ex_acse None" and m = 500] q show ?thesis by auto
qed

end
