(* ===== verification/Spec2Isabelle.thy ===== *)
theory Spec2Isabelle
  imports Substation LinkedList GooseThread BerOid MmsTypeSpec SvSubscriber CotpConnect AcseAssociate
begin

text \<open>
  \<^bold>\<open>A verification library for the virtual substation.\<close>

  The repository simulates a substation.  A protection relay
  (\<open>src/libiec61850/examples/goose_publisher/goose_publisher_example.c\<close>) reads the measurements and commands that the
  operator panel left, decides whether to trip, and publishes its decision as a GOOSE message on Ethernet.  A
  breaker (\<open>src/libiec61850/examples/goose_subscriber/goose_subscriber_example.c\<close>) receives the message and leaves
  it in a shared file for the panel.  Both programs are clients of libIEC61850 (\<open>src/libiec61850/src\<close>): its BER
  codec, its MMS values and their encoding, its GOOSE publisher and receiver, its lists, and beside them the
  publisher and receiver of sampled values and the OSI layers that carry MMS over TCP.

  \<^bold>\<open>Theories and sources.\<close>  Each theory models one part; file names are below \<open>src/libiec61850/src\<close> unless given.
  \<^item> \<open>Prelude\<close>: bytes and buffers, bounded reads (\<open>rd\<close>, \<open>rdn\<close>) and writes (\<open>put\<close>, \<open>puts\<close>), big-endian numbers, the
    collections \<open>reader_simps\<close>, \<open>writer_simps\<close> and \<open>wire_simps\<close>, and the writer interface as a locale.
  \<^item> \<open>CString\<close>: the functions of the C library on decimal numbers and strings that the programs call.
  \<^item> \<open>BerEncoder\<close>, \<open>BerOid\<close>: \<open>mms/asn1/ber_encoder.c\<close>.  \<open>BerDecoder\<close>: \<open>mms/asn1/ber_decode.c\<close>, with the locale
    \<open>length_decoder\<close> that all parsers rely on.  \<open>BerInteger\<close>: \<open>mms/asn1/ber_integer.c\<close> and
    \<open>mms/asn1/asn1_ber_primitive_value.c\<close>.
  \<^item> \<open>MmsValue\<close>: \<open>mms/iso_mms/common/mms_value.c\<close>; the union \<open>sMmsValue\<close> is a datatype with one constructor per type.
    \<open>MmsTypeSpec\<close>: \<open>mms/iso_mms/common/mms_type_spec.c\<close> and the functions of the other files that take a type
    specification.  \<open>MmsAccessResult\<close>: \<open>mms/iso_mms/server/mms_access_result.c\<close>, encoding and decoding of MMS data.
  \<^item> \<open>GoosePublisher\<close>: \<open>goose/goose_publisher.c\<close>.  \<open>GooseSubscriber\<close>: \<open>goose/goose_subscriber.c\<close>.  \<open>GooseReceiver\<close>:
    \<open>goose/goose_receiver.c\<close>, its parsers and operations.  \<open>GooseThread\<close>: the loop of the receiver thread and its
    interleaving with \<open>GooseReceiver_start\<close>, \<open>GooseReceiver_stop\<close> and \<open>GooseReceiver_destroy\<close> as a state machine.
    \<open>GooseExchange\<close> and \<open>GooseRepeat\<close> join publisher and receiver, for a first message and for the later ones.
  \<^item> \<open>ProtectionIed\<close>, \<open>BreakerIed\<close>: the two programs.  \<open>Substation\<close>: both, connected by the network.
  \<^item> \<open>LinkedList\<close>: \<open>common/linked_list.c\<close> on an explicit heap of cells.
  \<^item> \<open>SvPublisher\<close>: \<open>sampled_values/sv_publisher.c\<close> with the time stamps of \<open>iec61850/common/iec61850_common.c\<close>.
    \<open>SvSubscriber\<close>: \<open>sampled_values/sv_subscriber.c\<close>.
  \<^item> \<open>Cotp\<close>: \<open>mms/iso_cotp/cotp.c\<close>, \<open>common/byte_buffer.c\<close> and \<open>common/buffer_chain.c\<close>, the transport layer (RFC 1006,
    ISO 8073 class 0).  \<open>CotpSend\<close>, \<open>CotpReceive\<close> and \<open>CotpConnect\<close> are about sending, receiving (with the receiving
    half of \<open>mms/iso_server/iso_connection.c\<close>) and connecting.
  \<^item> \<open>IsoSession\<close>: \<open>mms/iso_session/iso_session.c\<close>.  \<open>IsoPresentation\<close>: \<open>mms/iso_presentation/iso_presentation.c\<close>;
    \<open>PresentationPdu\<close> is about its PDUs.
  \<^item> \<open>Acse\<close>: \<open>mms/iso_acse/acse.c\<close>, association control.  \<open>AcsePdu\<close> and \<open>AcseAssociate\<close> are about its PDUs and about who
    is let in.

  \<^bold>\<open>How state and operations correspond.\<close>  A struct is a record whose fields carry a prefix (\<open>gp_\<close>, \<open>gs_\<close>, \<open>gr_\<close>, \<open>sp_\<close>,
  \<open>as_\<close>, \<open>ss_\<close>, \<open>sa_\<close>, \<open>sr_\<close>, \<open>co_\<close>, \<open>se_\<close>, \<open>pr_\<close>, \<open>ac_\<close>) before the name of the member; a C function is a definition of the same name that takes
  the old state and returns the new one.  The outer option of a result is undefined behaviour: \<open>None\<close> is a read or
  write outside an object, a null or dangling pointer, a signed overflow, a division by zero or a loop that does not
  end.  A theorem that an operation returns \<open>Some\<close> is therefore a safety theorem.  Error codes and early returns of
  the code are values inside: \<open>GooseParseError\<close>, \<open>LenErr\<close>, an inner \<open>None\<close> for a \<open>NULL\<close> result.  A buffer is the list
  of its bytes, a pointer into it an offset (or the rest of the buffer from there on).  Integers keep the width of the
  C type as words; positions inside a buffer are natural numbers, with the conversions to \<open>int\<close> and \<open>int16_t\<close> written
  out where they can overflow.  Floats are their bit patterns.  The clock, the sockets, \<open>malloc\<close> (which succeeds), the
  file system and the contents of files are arguments; packets sent, listeners called and files written are results.
  A TCP socket is a script of what the system accepts and delivers; a message that a layer hands to the one above is a
  window (\<open>slice\<close>) of the buffer it arrived in, and a chain of buffers is the list of its parts.
  The configuration is that of the repository: little endian, Ethernet GOOSE and sampled values compiled in, their
  routable variants compiled out, frames of at most 1518 octets.

  \<^bold>\<open>What is shown.\<close>
  \<^item> The codec: lengths, integers and object identifiers written are read back; the size functions are exact or
    bounds, up to the lengths named in the theorems and where their arithmetic does not overflow; the length decoder stays inside the buffer and ends.
  \<^item> MMS data: the encoder writes the reference encoding \<open>mms_bytes\<close>, the decoder reads it back to an equal value
    and returns on every input; clones are equal; default values have their type; lookup by a path of names is
    the lookup of the specification.
  \<^item> GOOSE: \<open>GoosePublisher_publish\<close> sends the reference frame \<open>goose_frame\<close>, numbers increase over a run, the
    receiver is safe on every frame and delivers a published message to its subscriber unchanged, first and repeated; a
    replayed or expired message leaves the subscriber invalid.  Under every interleaving with an owner that does
    not start a live receiver or stop a stopped one, the receiver thread uses only live memory and \<open>GooseReceiver_stop\<close>
    returns; the steps (\<open>rt_step\<close>) have no such guard, the runs (\<open>rt_run\<close>) ask it of the owner (\<open>disciplined\<close>).
  \<^item> The substation: the relay trips exactly on its conditions; over any number of rounds the file the breaker leaves
    holds the decision of the relay; the file is replaced as a whole or not at all, whatever the system calls answer, and a
    temporary file stays behind only if its removal fails.  The fault codes and the retransmission times are stated as the
    code has them, and where they differ from the documentation the theorems say so.
  \<^item> Sampled values: every sequence of writes into the message of a configured publisher refines an abstract state of
    ASDUs and octets; the frame sent then is delivered to the listener ASDU by ASDU; the receiver is safe for every
    sequence of frames below the size of its buffer.
  \<^item> The OSI layers: whatever is accepted for sending arrives as the same sequence of messages, over fragments, partial
    writes and partial reads; a message is sent whole or refused; connection requests, SPDUs and PDUs are parsed back to
    what was put in; the parsers of transport and session are safe on every packet under the conditions named.  An
    association request is accepted exactly when the authenticator accepts it; theorems show the two messages that get
    around this, a response in place of a request and one on which the parser never returns.
  \<^item> Linked lists refine sequences, except for reading an empty list at a positive index, which is a fault.
  \<^item> Where the code does not do what it means to, a theorem says what it does; the manifest lists these findings.

  \<^bold>\<open>Bounds and fuel.\<close>  The loops of the parsers are recursive functions that end because every accepted element
  advances the position (\<open>decodeLength_bounds\<close>).  Only the search for the end of an indefinite length carries fuel, one
  more than the number of octets left, which \<open>decodeLengthRecursive_total\<close> shows to be enough; its recursion depth is
  the constant 50 of the code.  The loop over the user information of an association may run for ever and is a partial
  function whose rounds are a definition of their own (\<open>user_info_step\<close>).  The number of calls a receiver makes
  (\<open>cotp_receive\<close>) is an argument, and the theorems say how many are enough.  The safety theorems of the receivers hold for frames below the size of the buffer by
  the slack that their statements name, and theorems show what happens beyond.

  \<^bold>\<open>Not modelled.\<close>  The drivers that join the OSI layers into client and server
  connections, the MMS client and server and the IEC 61850 server and client above them are connection-oriented
  services that the two programs do not use; the routable variants of GOOSE and sampled values are compiled out and
  rest on cryptography outside the sources; TLS is compiled out; the platform layer is system calls; ASN.1 code under
  \<open>mms/iso_mms/asn1c\<close> is generated; console output and the release of memory have no effect that the models observe.
\<close>

end
